(* ===== verification/Go_Prelude.thy ===== *)
theory Go_Prelude
  imports Main "HOL-Library.Word" "HOL-Library.Monad_Syntax" "HOL-Library.Sublist"
begin

text \<open>
  The part of Go that every component of the development shares, and the lemmas about it.

  \<^item> A byte is an \<open>8 word\<close>; a byte slice is the list of its bytes. A slice that is resliced or
    copied is a new list, so a model function returns the list the Go code leaves behind.
  \<^item> Go's \<open>int\<close> is a 64-bit signed number. Lengths and screen coordinates stay far below the
    limits and are plain \<open>int\<close> or \<open>nat\<close>; wherever an operand comes from outside (a parameter of
    an escape sequence) the sum is passed through \<open>wrap64\<close>, the two's complement result.
  \<^item> A read or a write outside a slice panics. \<open>go_get\<close> and \<open>go_set\<close> return \<open>None\<close> there, and
    code that can panic lives in the option monad: \<open>None\<close> is the panic.
  \<^item> \<open>for_each\<close> is a Go \<open>for\<close> loop over a list of loop values, \<open>for_up\<close> and \<open>for_down\<close> are the
    counting loops.
  \<^item> \<open>returns m Q\<close> says that the computation \<open>m\<close> does not panic and that its result satisfies
    \<open>Q\<close>. The rules collected in \<open>returns_rules\<close> turn a goal about a program into goals about
    its steps.
  \<^item> \<open>bytes_index\<close>, \<open>bytes_last_index\<close>, \<open>bytes_contains\<close> and \<open>remove_all\<close> are the functions of
    the package \<open>bytes\<close> that the frame code calls.
\<close>

section \<open>Types and fixed-width arithmetic\<close>

named_theorems returns_rules \<open>weakest-precondition rules for code that may panic\<close>
named_theorems go_arith \<open>facts about Go's fixed-width integers\<close>

type_synonym byte = "8 word"
type_synonym bytes = "byte list"

definition wrap64 :: "int \<Rightarrow> int" where
  "wrap64 x = signed_take_bit 63 x"

section \<open>Slices that can panic\<close>

definition go_get :: "'a list \<Rightarrow> int \<Rightarrow> 'a option" where
  "go_get xs i = (if 0 \<le> i \<and> i < int (length xs) then Some (xs ! nat i) else None)"

definition go_set :: "'a list \<Rightarrow> int \<Rightarrow> 'a \<Rightarrow> 'a list option" where
  "go_set xs i v = (if 0 \<le> i \<and> i < int (length xs) then Some (xs[nat i := v]) else None)"

text \<open>The copy builtin: the first \<open>min (len dst) (len src)\<close> elements of \<open>dst\<close> are overwritten.\<close>

definition go_copy :: "'a list \<Rightarrow> 'a list \<Rightarrow> 'a list" where
  "go_copy dst src = take (length dst) src @ drop (length src) dst"

text \<open>Overwriting a stretch of a slice from index \<open>x\<close> on.\<close>

definition overwrite :: "nat \<Rightarrow> 'a list \<Rightarrow> 'a list \<Rightarrow> 'a list" where
  "overwrite x new xs = take x xs @ new @ drop (x + length new) xs"

section \<open>Loops\<close>

fun for_each :: "('a \<Rightarrow> 's \<Rightarrow> 's option) \<Rightarrow> 'a list \<Rightarrow> 's \<Rightarrow> 's option" where
  "for_each body [] s = Some s"
| "for_each body (x # xs) s = Option.bind (body x s) (for_each body xs)"

text \<open>\<open>for i := lo; i < hi; i++\<close> and \<open>for i := hi; i > lo; i--\<close>.\<close>

definition for_up :: "int \<Rightarrow> int \<Rightarrow> (int \<Rightarrow> 's \<Rightarrow> 's option) \<Rightarrow> 's \<Rightarrow> 's option" where
  "for_up lo hi body s = for_each body [lo..hi - 1] s"

definition for_down :: "int \<Rightarrow> int \<Rightarrow> (int \<Rightarrow> 's \<Rightarrow> 's option) \<Rightarrow> 's \<Rightarrow> 's option" where
  "for_down hi lo body s = for_each body (rev [lo + 1..hi]) s"

text \<open>\<open>for i := 0; i < n; i++\<close> with a body that does not use \<open>i\<close>.\<close>

fun repeat_n :: "nat \<Rightarrow> ('s \<Rightarrow> 's option) \<Rightarrow> 's \<Rightarrow> 's option" where
  "repeat_n 0 body s = Some s"
| "repeat_n (Suc n) body s = Option.bind (body s) (repeat_n n body)"

section \<open>Running without a panic\<close>

definition returns :: "'a option \<Rightarrow> ('a \<Rightarrow> bool) \<Rightarrow> bool" where
  "returns m Q \<longleftrightarrow> (\<exists>x. m = Some x \<and> Q x)"

section \<open>The package bytes\<close>

text \<open>\<open>bytes.Index\<close>; Go's result \<open>-1\<close> is \<open>None\<close>.\<close>

fun bytes_index :: "'a list \<Rightarrow> 'a list \<Rightarrow> nat option" where
  "bytes_index [] sep = (if sep = [] then Some 0 else None)"
| "bytes_index (x # xs) sep =
     (if prefix sep (x # xs) then Some 0 else map_option Suc (bytes_index xs sep))"

fun bytes_last_index :: "'a list \<Rightarrow> 'a list \<Rightarrow> nat option" where
  "bytes_last_index [] sep = (if sep = [] then Some 0 else None)"
| "bytes_last_index (x # xs) sep =
     (case bytes_last_index xs sep of
        Some i \<Rightarrow> Some (Suc i)
      | None \<Rightarrow> (if prefix sep (x # xs) then Some 0 else None))"

definition bytes_contains :: "'a list \<Rightarrow> 'a list \<Rightarrow> bool" where
  "bytes_contains s sep = (bytes_index s sep \<noteq> None)"

text \<open>\<open>bytes.ReplaceAll(s, sep, nil)\<close> for a non-empty separator.\<close>

function remove_all :: "'a list \<Rightarrow> 'a list \<Rightarrow> 'a list" where
  "remove_all sep s =
     (case s of
        [] \<Rightarrow> []
      | x # xs \<Rightarrow>
          if sep \<noteq> [] \<and> prefix sep s then remove_all sep (drop (length sep) s)
          else x # remove_all sep xs)"
  by pat_completeness auto
termination
  by (relation "measure (\<lambda>(sep, s). length s)") auto

declare remove_all.simps [simp del]

section \<open>Lemmas: arithmetic\<close>

lemma wrap64_id [go_arith]:
  "- (2 ^ 63) \<le> x \<Longrightarrow> x < 2 ^ 63 \<Longrightarrow> wrap64 x = x"
  by (simp add: wrap64_def signed_take_bit_int_eq_self)

lemma wrap64_bounds: "- (2 ^ 63) \<le> wrap64 x \<and> wrap64 x < 2 ^ 63"
  using signed_take_bit_int_greater_eq_minus_exp [of 63 x] signed_take_bit_int_less_exp [of 63 x]
  by (simp add: wrap64_def)

section \<open>Lemmas: slices\<close>

lemma go_get_in [simp]:
  "0 \<le> i \<Longrightarrow> i < int (length xs) \<Longrightarrow> go_get xs i = Some (xs ! nat i)"
  by (simp add: go_get_def)

lemma go_get_out [simp]: "i < 0 \<or> int (length xs) \<le> i \<Longrightarrow> go_get xs i = None"
  by (auto simp: go_get_def)

lemma go_set_in [simp]:
  "0 \<le> i \<Longrightarrow> i < int (length xs) \<Longrightarrow> go_set xs i v = Some (xs[nat i := v])"
  by (simp add: go_set_def)

lemma go_set_out [simp]: "i < 0 \<or> int (length xs) \<le> i \<Longrightarrow> go_set xs i v = None"
  by (auto simp: go_set_def)

lemma length_go_copy [simp]: "length (go_copy dst src) = length dst"
  by (simp add: go_copy_def)

lemma go_copy_same_length [simp]: "length src = length dst \<Longrightarrow> go_copy dst src = src"
  by (simp add: go_copy_def)

lemma length_overwrite [simp]: "x + length new \<le> length xs \<Longrightarrow> length (overwrite x new xs) = length xs"
  by (simp add: overwrite_def)

lemma overwrite_Nil [simp]: "overwrite x [] xs = xs"
  by (simp add: overwrite_def)

lemma overwrite_single: "x < length xs \<Longrightarrow> overwrite x [a] xs = xs[x := a]"
  by (simp add: overwrite_def upd_conv_take_nth_drop)

lemma overwrite_Cons:
  "x + length (a # as) \<le> length xs \<Longrightarrow> overwrite (Suc x) as (xs[x := a]) = overwrite x (a # as) xs"
  by (simp add: overwrite_def take_Suc_conv_app_nth)

lemma nth_overwrite:
  "x + length new \<le> length xs \<Longrightarrow> i < length xs \<Longrightarrow>
     overwrite x new xs ! i = (if x \<le> i \<and> i < x + length new then new ! (i - x) else xs ! i)"
  by (auto simp: overwrite_def nth_append)

lemma map_overwrite: "map f (overwrite x new xs) = overwrite x (map f new) (map f xs)"
  by (simp add: overwrite_def take_map drop_map)

section \<open>Lemmas: running without a panic\<close>

lemma returns_Some [simp, returns_rules]: "returns (Some x) Q \<longleftrightarrow> Q x"
  by (simp add: returns_def)

lemma returns_None [simp]: "\<not> returns None Q"
  by (simp add: returns_def)

lemma returns_bind [returns_rules]:
  "returns (Option.bind m f) Q \<longleftrightarrow> returns m (\<lambda>x. returns (f x) Q)"
  by (cases m) (simp_all add: returns_def)

lemma returns_mono: "returns m P \<Longrightarrow> (\<And>x. P x \<Longrightarrow> Q x) \<Longrightarrow> returns m Q"
  by (auto simp: returns_def)

lemma returns_conjI: "returns m P \<Longrightarrow> returns m Q \<Longrightarrow> returns m (\<lambda>x. P x \<and> Q x)"
  by (auto simp: returns_def)

lemma returns_if [returns_rules]:
  "returns (if b then m else n) Q \<longleftrightarrow> (if b then returns m Q else returns n Q)"
  by simp

lemma returns_for_each:
  assumes "I s"
    and "\<And>x s. x \<in> set xs \<Longrightarrow> I s \<Longrightarrow> returns (body x s) I"
  shows "returns (for_each body xs s) I"
  using assms
proof (induction xs arbitrary: s)
  case Nil
  then show ?case by simp
next
  case (Cons x xs)
  have "returns (body x s) I" using Cons.prems by simp
  then have "returns (body x s) (\<lambda>s'. returns (for_each body xs s') I)"
    by (rule returns_mono) (rule Cons.IH, use Cons.prems in auto)
  then show ?case by (simp add: returns_bind)
qed

lemma returns_for_up:
  assumes "I s"
    and "\<And>i s. lo \<le> i \<Longrightarrow> i < hi \<Longrightarrow> I s \<Longrightarrow> returns (body i s) I"
  shows "returns (for_up lo hi body s) I"
  unfolding for_up_def by (rule returns_for_each) (use assms in auto)

lemma returns_for_down:
  assumes "I s"
    and "\<And>i s. lo < i \<Longrightarrow> i \<le> hi \<Longrightarrow> I s \<Longrightarrow> returns (body i s) I"
  shows "returns (for_down hi lo body s) I"
  unfolding for_down_def by (rule returns_for_each) (use assms in auto)

lemma returns_repeat_n:
  assumes "I s" and "\<And>s. I s \<Longrightarrow> returns (body s) I"
  shows "returns (repeat_n n body s) I"
  using assms(1)
proof (induction n arbitrary: s)
  case 0
  then show ?case by simp
next
  case (Suc n)
  from assms(2) [OF Suc.prems] have "returns (body s) (\<lambda>s'. returns (repeat_n n body s') I)"
    by (rule returns_mono) (rule Suc.IH)
  then show ?case by (simp add: returns_bind)
qed

lemma for_each_append:
  "for_each body (xs @ ys) s = Option.bind (for_each body xs s) (for_each body ys)"
proof (induction xs arbitrary: s)
  case Nil
  then show ?case by simp
next
  case (Cons x xs)
  then show ?case by (cases "body x s") auto
qed

section \<open>Lemmas: searching in byte slices\<close>

lemma bytes_index_Some_iff:
  "bytes_index s sep = Some i \<longleftrightarrow>
     prefix sep (drop i s) \<and> i \<le> length s \<and> (\<forall>j<i. \<not> prefix sep (drop j s))"
proof (induction s sep arbitrary: i rule: bytes_index.induct)
  case (1 sep)
  then show ?case by auto
next
  case (2 x xs sep)
  show ?case
  proof (cases i)
    case 0
    then show ?thesis by auto
  next
    case (Suc k)
    then show ?thesis using 2 by (auto simp: All_less_Suc2)
  qed
qed

lemma bytes_index_None_iff:
  "bytes_index s sep = None \<longleftrightarrow> (\<forall>i\<le>length s. \<not> prefix sep (drop i s))"
proof
  assume none: "bytes_index s sep = None"
  show "\<forall>i\<le>length s. \<not> prefix sep (drop i s)"
  proof (rule ccontr)
    assume "\<not> ?thesis"
    then obtain i where i: "i \<le> length s" "prefix sep (drop i s)" by auto
    define k where "k = (LEAST j. prefix sep (drop j s))"
    have "prefix sep (drop k s)" "\<And>j. j < k \<Longrightarrow> \<not> prefix sep (drop j s)" "k \<le> i"
      unfolding k_def using i(2) by (auto intro: LeastI Least_le dest: not_less_Least)
    with i none show False using bytes_index_Some_iff [of s sep k] by simp
  qed
next
  assume *: "\<forall>i\<le>length s. \<not> prefix sep (drop i s)"
  show "bytes_index s sep = None"
    using * bytes_index_Some_iff [of s sep] by (cases "bytes_index s sep") auto
qed

lemma bytes_index_length:
  "bytes_index s sep = Some i \<Longrightarrow> i + length sep \<le> length s"
  using prefix_length_le [of sep "drop i s"] by (auto simp: bytes_index_Some_iff)

lemma bytes_contains_iff: "bytes_contains s sep \<longleftrightarrow> (\<exists>i\<le>length s. prefix sep (drop i s))"
  unfolding bytes_contains_def using bytes_index_None_iff [of s sep] by auto

lemma bytes_last_index_Some:
  "bytes_last_index s sep = Some i \<Longrightarrow> prefix sep (drop i s) \<and> i \<le> length s"
  by (induction s sep arbitrary: i rule: bytes_last_index.induct)
    (auto split: if_splits option.splits)

lemma remove_all_Nil [simp]: "remove_all sep [] = []"
  by (subst remove_all.simps) simp

lemma remove_all_match:
  "sep \<noteq> [] \<Longrightarrow> prefix sep s \<Longrightarrow> remove_all sep s = remove_all sep (drop (length sep) s)"
  by (subst remove_all.simps) (cases s, auto)

lemma remove_all_no_match:
  "\<not> prefix sep (x # xs) \<Longrightarrow> remove_all sep (x # xs) = x # remove_all sep xs"
  by (subst remove_all.simps) simp

lemma length_remove_all: "length (remove_all sep s) \<le> length s"
proof (induction sep s rule: remove_all.induct)
  case (1 sep s)
  show ?case
  proof (cases s)
    case Nil
    then show ?thesis by simp
  next
    case (Cons x xs)
    show ?thesis
    proof (cases "sep \<noteq> [] \<and> prefix sep s")
      case True
      with "1.IH"(1) [OF Cons] have "length (remove_all sep (drop (length sep) s)) \<le> length s"
        by (auto intro: le_trans)
      with True show ?thesis by (simp add: remove_all_match)
    next
      case False
      with "1.IH"(2) [OF Cons] have "length (remove_all sep xs) \<le> length xs"
        by simp
      moreover have "remove_all sep s = x # remove_all sep xs"
        using False Cons by (subst remove_all.simps) auto
      ultimately show ?thesis using Cons by simp
    qed
  qed
qed

section \<open>Stores with a limit\<close>

text \<open>
  The contract of a buffer with a capacity: adding an item keeps the size within the limit and does not
  move the limit. It holds then after any number of additions.
\<close>

locale bounded_store =
  fixes put :: "'x \<Rightarrow> 's \<Rightarrow> 's" and size_of :: "'s \<Rightarrow> nat" and limit :: "'s \<Rightarrow> nat"
  assumes put_bound: "size_of s \<le> limit s \<Longrightarrow> size_of (put x s) \<le> limit s"
    and put_limit: "limit (put x s) = limit s"
begin

lemma fold_limit: "limit (fold put xs s) = limit s"
  by (induction xs arbitrary: s) (simp_all add: put_limit)

lemma fold_bound: "size_of s \<le> limit s \<Longrightarrow> size_of (fold put xs s) \<le> limit s"
proof (induction xs arbitrary: s)
  case (Cons x xs)
  then show ?case using Cons.IH [of "put x s"] put_bound [of s x] put_limit [of x s] by simp
qed simp

end

section \<open>State machines\<close>

text \<open>
  The contract of a state machine with an invariant: the invariant is established by the initial states
  and kept by every step, so it holds in every reachable state.
\<close>

locale state_machine =
  fixes initial :: "'s \<Rightarrow> bool" and step :: "'s \<Rightarrow> 's \<Rightarrow> bool" and inv :: "'s \<Rightarrow> bool"
  assumes inv_initial: "initial s \<Longrightarrow> inv s"
    and inv_step: "step s s' \<Longrightarrow> inv s \<Longrightarrow> inv s'"
begin

lemma inv_from: "step\<^sup>*\<^sup>* s s' \<Longrightarrow> inv s \<Longrightarrow> inv s'"
  by (induction rule: rtranclp_induct) (auto intro: inv_step)

lemma inv_reachable: "initial s \<Longrightarrow> step\<^sup>*\<^sup>* s s' \<Longrightarrow> inv s'"
  by (blast intro: inv_from inv_initial)

end

end
