(* ===== verification/Relay_Protocol.thy ===== *)
theory Relay_Protocol
  imports Go_Prelude
begin

text \<open>
  The wire format between runners, relays and browsers: \<^verbatim>\<open>relay/internal/protocol/message.go\<close> and
  the runner's copy of it, \<^verbatim>\<open>runner/internal/relay/protocol.go\<close>. A message is one type byte
  followed by its payload. The JSON payloads (terminal snapshots and control requests) go through
  \<open>encoding/json\<close>; the two codecs are the parameters \<open>marshal\<close> and \<open>unmarshal\<close> of the
  functions that use them.
\<close>

section \<open>Message types\<close>

definition MsgTypeSnapshot :: byte where "MsgTypeSnapshot = 0x01"
definition MsgTypeOutput :: byte where "MsgTypeOutput = 0x02"
definition MsgTypeInput :: byte where "MsgTypeInput = 0x03"
definition MsgTypeResize :: byte where "MsgTypeResize = 0x04"
definition MsgTypePing :: byte where "MsgTypePing = 0x05"
definition MsgTypePong :: byte where "MsgTypePong = 0x06"
definition MsgTypeControl :: byte where "MsgTypeControl = 0x07"
definition MsgTypeRunnerDisconnected :: byte where "MsgTypeRunnerDisconnected = 0x08"
definition MsgTypeRunnerReconnected :: byte where "MsgTypeRunnerReconnected = 0x09"

lemmas msg_type_defs =
  MsgTypeSnapshot_def MsgTypeOutput_def MsgTypeInput_def MsgTypeResize_def MsgTypePing_def
  MsgTypePong_def MsgTypeControl_def MsgTypeRunnerDisconnected_def MsgTypeRunnerReconnected_def

datatype proto_error = ErrInvalidMessage | ErrEmptyMessage

record message =
  msg_Type :: byte
  Payload :: bytes

record terminal_snapshot =
  snap_Cols :: "16 word"
  snap_Rows :: "16 word"
  snap_Lines :: "string list"
  SerializedContent :: string
  snap_CursorX :: int
  snap_CursorY :: int
  CursorVisible :: bool
  IsAltScreen :: bool

record control_request =
  Action :: string
  BrowserID :: string
  Controller :: string

section \<open>Encoders and decoders\<close>

definition EncodeMessage :: "byte \<Rightarrow> bytes \<Rightarrow> bytes" where
  "EncodeMessage msgType payload = msgType # payload"

definition DecodeMessage :: "bytes \<Rightarrow> proto_error + message" where
  "DecodeMessage data =
     (case data of
        [] \<Rightarrow> Inl ErrEmptyMessage
      | t # p \<Rightarrow> Inr \<lparr>msg_Type = t, Payload = p\<rparr>)"

definition EncodeSnapshot ::
  "(terminal_snapshot \<Rightarrow> 'e + bytes) \<Rightarrow> terminal_snapshot \<Rightarrow> 'e + bytes" where
  "EncodeSnapshot marshal snapshot =
     (case marshal snapshot of
        Inl err \<Rightarrow> Inl err
      | Inr payload \<Rightarrow> Inr (EncodeMessage MsgTypeSnapshot payload))"

definition DecodeSnapshot ::
  "(bytes \<Rightarrow> 'e + terminal_snapshot) \<Rightarrow> bytes \<Rightarrow> 'e + terminal_snapshot" where
  "DecodeSnapshot unmarshal payload = unmarshal payload"

definition EncodeOutput :: "bytes \<Rightarrow> bytes" where
  "EncodeOutput data = EncodeMessage MsgTypeOutput data"

definition EncodeInput :: "bytes \<Rightarrow> bytes" where
  "EncodeInput data = EncodeMessage MsgTypeInput data"

text \<open>\<open>binary.BigEndian.PutUint16\<close> and \<open>binary.BigEndian.Uint16\<close>.\<close>

definition PutUint16 :: "16 word \<Rightarrow> bytes" where
  "PutUint16 v = [ucast (drop_bit 8 v), ucast v]"

definition Uint16 :: "byte \<Rightarrow> byte \<Rightarrow> 16 word" where
  "Uint16 b0 b1 = or (ucast b1) (push_bit 8 (ucast b0))"

definition EncodeResize :: "16 word \<Rightarrow> 16 word \<Rightarrow> bytes" where
  "EncodeResize cols rows = EncodeMessage MsgTypeResize (PutUint16 cols @ PutUint16 rows)"

fun DecodeResize :: "bytes \<Rightarrow> proto_error + (16 word \<times> 16 word)" where
  "DecodeResize (a # b # c # d # rest) = Inr (Uint16 a b, Uint16 c d)"
| "DecodeResize payload = Inl ErrInvalidMessage"

definition EncodePing :: bytes where "EncodePing = EncodeMessage MsgTypePing []"
definition EncodePong :: bytes where "EncodePong = EncodeMessage MsgTypePong []"

definition EncodeControlRequest ::
  "(control_request \<Rightarrow> 'e + bytes) \<Rightarrow> control_request \<Rightarrow> 'e + bytes" where
  "EncodeControlRequest marshal req =
     (case marshal req of
        Inl err \<Rightarrow> Inl err
      | Inr payload \<Rightarrow> Inr (EncodeMessage MsgTypeControl payload))"

definition DecodeControlRequest ::
  "(bytes \<Rightarrow> 'e + control_request) \<Rightarrow> bytes \<Rightarrow> 'e + control_request" where
  "DecodeControlRequest unmarshal payload = unmarshal payload"

definition EncodeRunnerDisconnected :: bytes where
  "EncodeRunnerDisconnected = EncodeMessage MsgTypeRunnerDisconnected []"

definition EncodeRunnerReconnected :: bytes where
  "EncodeRunnerReconnected = EncodeMessage MsgTypeRunnerReconnected []"

section \<open>The pod daemon's framing\<close>

text \<open>
  The runner and its pod daemons speak a type-length-value format over a byte stream
  (\<^verbatim>\<open>runner/internal/poddaemon/protocol.go\<close>). \<open>io.ReadFull\<close> on a stream that holds enough
  bytes consumes exactly those bytes, and fails otherwise. \<open>ReadMessage\<close> returns the rest of the
  stream beside the message.
\<close>

datatype tlv_error = PayloadTooLarge nat | ReadHeader | ReadPayload

definition maxPayloadSize :: nat where "maxPayloadSize = 16 * 1024 * 1024"
definition headerSize :: nat where "headerSize = 5"

definition PutUint32 :: "32 word \<Rightarrow> bytes" where
  "PutUint32 v = [ucast (drop_bit 24 v), ucast (drop_bit 16 v), ucast (drop_bit 8 v), ucast v]"

fun Uint32 :: "bytes \<Rightarrow> 32 word" where
  "Uint32 [b0, b1, b2, b3] =
     or (or (or (ucast b3) (push_bit 8 (ucast b2))) (push_bit 16 (ucast b1))) (push_bit 24 (ucast b0))"
| "Uint32 _ = 0"

definition WriteMessage :: "byte \<Rightarrow> bytes \<Rightarrow> tlv_error + bytes" where
  "WriteMessage msgType payload =
     (if length payload > maxPayloadSize then Inl (PayloadTooLarge (length payload))
      else Inr (msgType # PutUint32 (word_of_nat (length payload)) @ payload))"

definition ReadFull :: "nat \<Rightarrow> bytes \<Rightarrow> (bytes \<times> bytes) option" where
  "ReadFull n stream = (if length stream < n then None else Some (take n stream, drop n stream))"

definition ReadMessage :: "bytes \<Rightarrow> tlv_error + (byte \<times> bytes \<times> bytes)" where
  "ReadMessage stream =
     (case ReadFull headerSize stream of
        None \<Rightarrow> Inl ReadHeader
      | Some (header, rest) \<Rightarrow>
          let msgType = hd header; len = unat (Uint32 (tl header))
          in if len > maxPayloadSize then Inl (PayloadTooLarge len)
             else if len = 0 then Inr (msgType, [], rest)
             else (case ReadFull len rest of
                     None \<Rightarrow> Inl ReadPayload
                   | Some (payload, rest') \<Rightarrow> Inr (msgType, payload, rest')))"

text \<open>Reading a stream until it fails: the messages read, and why the reading stopped.\<close>

function read_stream :: "bytes \<Rightarrow> (byte \<times> bytes) list \<times> tlv_error" where
  "read_stream stream =
     (case ReadMessage stream of
        Inl err \<Rightarrow> ([], err)
      | Inr (t, p, rest) \<Rightarrow> (let (ms, err) = read_stream rest in ((t, p) # ms, err)))"
  by pat_completeness auto
termination
proof (relation "measure length", goal_cases)
  case 1
  show ?case by simp
next
  case (2 stream r t q p rest)
  then have "length rest < length stream"
    by (auto simp: ReadMessage_def ReadFull_def headerSize_def Let_def split: if_splits)
  then show ?case by simp
qed

declare read_stream.simps [simp del]

section \<open>Lemmas\<close>

lemma Uint16_PutUint16 [simp]: "Uint16 (ucast (drop_bit 8 v)) (ucast v) = v"
  unfolding Uint16_def by (rule bit_word_eqI) (auto simp: bit_simps)

lemma PutUint16_Uint16 [simp]: "PutUint16 (Uint16 a b) = [a, b]"
proof -
  have high: "\<not> bit b (8 + n)" for n
    using bit_imp_le_length [of b "8 + n"] by auto
  have "ucast (drop_bit 8 (Uint16 a b)) = a" and "ucast (Uint16 a b) = b"
    unfolding Uint16_def by (auto intro!: bit_word_eqI simp: bit_simps high)
  then show ?thesis by (simp add: PutUint16_def)
qed

lemma DecodeMessage_EncodeMessage [simp]:
  "DecodeMessage (EncodeMessage t p) = Inr \<lparr>msg_Type = t, Payload = p\<rparr>"
  by (simp add: DecodeMessage_def EncodeMessage_def)

lemma DecodeMessage_Inl_iff: "DecodeMessage d = Inl e \<longleftrightarrow> d = [] \<and> e = ErrEmptyMessage"
  by (auto simp: DecodeMessage_def split: list.splits)

lemma DecodeResize_Inl_iff: "DecodeResize p = Inl e \<longleftrightarrow> length p < 4 \<and> e = ErrInvalidMessage"
  by (cases p rule: DecodeResize.cases) auto

lemma DecodeResize_PutUint16:
  "DecodeResize (PutUint16 c @ PutUint16 r @ rest) = Inr (c, r)"
  by (simp add: PutUint16_def)

lemma Uint32_PutUint32 [simp]: "Uint32 (PutUint32 v) = v"
  unfolding PutUint32_def Uint32.simps
proof (rule bit_word_eqI)
  fix n
  assume "n < LENGTH(32)"
  then consider "n < 8" | "8 \<le> n" "n < 16" | "16 \<le> n" "n < 24" | "24 \<le> n" "n < 32"
    by fastforce
  then show "bit (or (or (or (ucast (ucast v :: byte)) (push_bit 8 (ucast (ucast (drop_bit 8 v) :: byte))))
      (push_bit 16 (ucast (ucast (drop_bit 16 v) :: byte))))
      (push_bit 24 (ucast (ucast (drop_bit 24 v) :: byte))) :: 32 word) n = bit v n"
    by cases (auto simp: bit_simps)
qed

lemma length_PutUint32 [simp]: "length (PutUint32 v) = 4"
  by (simp add: PutUint32_def)

lemma unat_payload_length:
  "n \<le> maxPayloadSize \<Longrightarrow> unat (word_of_nat n :: 32 word) = n"
  by (simp add: maxPayloadSize_def unat_of_nat take_bit_nat_eq_self)

lemma ReadMessage_WriteMessage:
  assumes "WriteMessage t p = Inr frame"
  shows "ReadMessage (frame @ rest) = Inr (t, p, rest)"
proof -
  have len: "length p \<le> maxPayloadSize"
    and frame: "frame = t # PutUint32 (word_of_nat (length p)) @ p"
    using assms by (auto simp: WriteMessage_def split: if_splits)
  show ?thesis
    unfolding frame using len
    by (simp add: ReadMessage_def ReadFull_def headerSize_def unat_payload_length Let_def)
qed

text \<open>The frame that \<open>WriteMessage\<close> puts on the wire for a message.\<close>

definition tlv_put :: "byte \<times> bytes \<Rightarrow> bytes \<Rightarrow> bool" where
  "tlv_put m frame \<longleftrightarrow> WriteMessage (fst m) (snd m) = Inr frame"

lemma read_stream_frames:
  assumes "list_all2 tlv_put ms frames"
  shows "read_stream (concat frames) = (ms, ReadHeader)"
  using assms
proof (induction ms frames rule: list_all2_induct)
  case Nil
  show ?case by (subst read_stream.simps) (simp add: ReadMessage_def ReadFull_def headerSize_def)
next
  case (Cons m ms frame frames)
  then show ?case
    by (cases m, subst read_stream.simps) (auto simp: tlv_put_def ReadMessage_WriteMessage split: prod.splits)
qed

section \<open>Framing as an interface\<close>

text \<open>
  What a reader of a byte stream relies on: reading behind a written frame gives back the message and
  the rest of the stream, and no frame is empty. A stream of such frames can be read in one way only.
\<close>

locale framing =
  fixes put :: "'m \<Rightarrow> bytes \<Rightarrow> bool"
    and get :: "bytes \<Rightarrow> ('m \<times> bytes) option"
  assumes get_put: "put m f \<Longrightarrow> get (f @ rest) = Some (m, rest)"
    and put_nonempty: "put m f \<Longrightarrow> f \<noteq> []"
    and put_functional: "put m f \<Longrightarrow> put m f' \<Longrightarrow> f = f'"
begin

lemma frames_prefix_free: "put m f \<Longrightarrow> put m' f' \<Longrightarrow> f @ r = f' @ r' \<Longrightarrow> m = m' \<and> r = r'"
  by (metis get_put option.inject prod.inject)

lemma frames_determined:
  assumes "list_all2 put ms fs" and "list_all2 put ms fs'"
  shows "fs = fs'"
  using assms
proof (induction ms fs arbitrary: fs' rule: list_all2_induct)
  case Nil
  then show ?case by simp
next
  case (Cons m ms f fs)
  then obtain f' fs1 where "fs' = f' # fs1" "put m f'" "list_all2 put ms fs1"
    by (auto simp: list_all2_Cons1)
  then show ?case using put_functional [OF Cons.hyps(1)] Cons.IH by simp
qed

lemma frames_unambiguous:
  assumes "list_all2 put ms fs" and "list_all2 put ms' fs'" and "concat fs = concat fs'"
  shows "ms = ms'"
  using assms
proof (induction ms fs arbitrary: ms' fs' rule: list_all2_induct)
  case Nil
  then show ?case by (cases fs') (auto simp: list_all2_Cons2 dest: put_nonempty)
next
  case (Cons m ms f fs)
  then obtain m' ms1 f' fs1 where eq: "ms' = m' # ms1" "fs' = f' # fs1" "put m' f'" "list_all2 put ms1 fs1"
    by (cases fs') (auto simp: list_all2_Cons2 dest: put_nonempty)
  with Cons.prems(2) have "m = m' \<and> concat fs = concat fs1"
    using frames_prefix_free [OF Cons.hyps(1) eq(3)] by simp
  with Cons.IH [OF eq(4)] eq(1) show ?case by simp
qed

end

definition tlv_get :: "bytes \<Rightarrow> ((byte \<times> bytes) \<times> bytes) option" where
  "tlv_get stream = (case ReadMessage stream of Inl _ \<Rightarrow> None | Inr (t, p, rest) \<Rightarrow> Some ((t, p), rest))"

interpretation tlv: framing tlv_put tlv_get
proof unfold_locales
  show "tlv_put m f \<Longrightarrow> tlv_get (f @ rest) = Some (m, rest)" for m f rest
    by (simp add: tlv_put_def tlv_get_def ReadMessage_WriteMessage)
  show "tlv_put m f \<Longrightarrow> f \<noteq> []" for m f
    by (auto simp: tlv_put_def WriteMessage_def split: if_splits)
  show "tlv_put m f \<Longrightarrow> tlv_put m f' \<Longrightarrow> f = f'" for m f f'
    by (simp add: tlv_put_def)
qed

section \<open>Properties\<close>

text \<open>
  A stream of messages written by \<open>WriteMessage\<close> is read back by repeated \<open>ReadMessage\<close> calls as the
  same types and payloads in the same order, and the reader then stops because the next header is
  missing, with no byte left over.
\<close>

theorem tlv_stream_roundtrip:
  assumes "list_all2 tlv_put ms frames"
  shows "read_stream (concat frames) = (ms, ReadHeader)"
  by (rule read_stream_frames [OF assms])

theorem tlv_stream_roundtrip_witness:
  "read_stream (concat [[7, 0, 0, 0, 2, 104, 105], [9, 0, 0, 0, 0]]) = ([(7, [104, 105]), (9, [])], ReadHeader)"
  by (rule tlv_stream_roundtrip) (simp add: tlv_put_def WriteMessage_def maxPayloadSize_def PutUint32_def)

text \<open>
  The framing is unambiguous: two sequences of messages produce the same byte stream exactly when
  they are the same sequence.
\<close>

theorem tlv_streams_unambiguous:
  assumes "list_all2 tlv_put ms frames" and "list_all2 tlv_put ms' frames'"
  shows "concat frames = concat frames' \<longleftrightarrow> ms = ms'"
  using tlv.frames_unambiguous [OF assms] tlv.frames_determined [OF assms(1)] assms(2) by blast

theorem tlv_streams_unambiguous_witness:
  "concat [[7, 0, 0, 0, 1, 104]] = concat [[7, 0, 0, 0, 0], [104, 0, 0, 0, 0 :: byte]] \<longleftrightarrow>
     [(7 :: byte, [104 :: byte])] = [(7, []), (104, [])]"
  by (rule tlv_streams_unambiguous)
    (simp_all add: tlv_put_def WriteMessage_def maxPayloadSize_def PutUint32_def)

text \<open>
  A resize message survives the wire: decoding the message and then its payload gives the columns and
  rows that were encoded, for all 16-bit sizes; a payload shorter than four bytes is rejected.
\<close>

theorem resize_roundtrip:
  "DecodeMessage (EncodeResize c r) = Inr \<lparr>msg_Type = MsgTypeResize, Payload = PutUint16 c @ PutUint16 r\<rparr> \<and>
   DecodeResize (PutUint16 c @ PutUint16 r) = Inr (c, r) \<and>
   (DecodeResize p = Inl ErrInvalidMessage \<longleftrightarrow> length p < 4)"
  using DecodeResize_PutUint16 [of c r "[]"] DecodeResize_Inl_iff [of p ErrInvalidMessage]
  by (simp add: EncodeResize_def)

end
