(* ===== verification/Relay_Channel.thy ===== *)
theory Relay_Channel
  imports Relay_Protocol "HOL-Library.AList"
begin

text \<open>
  The relay's channel between one publisher (the runner) and its subscribers (browsers):
  \<^verbatim>\<open>relay/internal/channel/terminal_channel.go\<close>.

  WebSocket connections are numbered. Whether a write to a connection succeeds is the parameter \<open>wr\<close> of the
  operations that write; successful writes are recorded in \<open>sent\<close>, closed connections in \<open>closedConns\<close>, calls
  of the two callbacks are counted. The map of subscribers is an association list with distinct keys
  (Go's iteration order is unspecified; the list order stands for any of them). A timer is a flag. The
  goroutines are part of the state: \<open>pubLoops\<close> lists the running publisher loops with their connection and
  epoch, \<open>subLoops\<close> the running subscriber loops with their connection.

  Each operation is one step, also \<open>closeInternal\<close> from setting the flag up to the callback (the states in between,
  in which a closed channel still drops its connections, are not modelled); a subscriber loop that is still working for a subscriber which has been
  removed meanwhile is a separate step, so the interleavings between the goroutines are the orders of
  steps. JSON payloads are decoded and encoded by the parameters \<open>unmarshal\<close> and \<open>marshal\<close>.
\<close>

section \<open>State\<close>

record channel_config =
  OutputBufferSize :: int
  OutputBufferCount :: int

definition DefaultChannelConfig :: channel_config where
  "DefaultChannelConfig = \<lparr>OutputBufferSize = 256 * 1024, OutputBufferCount = 200\<rparr>"

record channel =
  PodKey :: string
  config :: channel_config
  publisher :: "nat option"
  subscribers :: "(string \<times> nat) list"
  keepAliveTimer :: bool
  controllerID :: string
  outputBuffer :: "bytes list"
  outputBufferBytes :: int
  publisherDisconnected :: bool
  publisherReconnectTimer :: bool
  publisherEpoch :: "64 word"
  closed :: bool
  pubLoops :: "(nat \<times> 64 word) list"
  subLoops :: "(string \<times> nat) list"
  sent :: "(nat \<times> bytes) list"
  closedConns :: "nat list"
  subscribersGoneCalls :: nat
  channelClosedCalls :: nat

datatype channel_error = ChannelClosed | MaxSubscribersError int

text \<open>
  The capacity passed to \<open>make\<close> is not part of the state; with a negative \<open>OutputBufferCount\<close> the code would
  already panic here, so such a configuration has no channel.
\<close>

definition NewTerminalChannelWithConfig :: "string \<Rightarrow> channel_config \<Rightarrow> channel" where
  "NewTerminalChannelWithConfig podKey cfg =
     \<lparr>PodKey = podKey, config = cfg, publisher = None, subscribers = [], keepAliveTimer = False,
      controllerID = [], outputBuffer = [], outputBufferBytes = 0, publisherDisconnected = False,
      publisherReconnectTimer = False, publisherEpoch = 0, closed = False, pubLoops = [], subLoops = [],
      sent = [], closedConns = [], subscribersGoneCalls = 0, channelClosedCalls = 0\<rparr>"

type_synonym write_ok = "nat \<Rightarrow> bytes \<Rightarrow> bool"

section \<open>Writing\<close>

definition close_conn :: "nat \<Rightarrow> channel \<Rightarrow> channel" where
  "close_conn conn c = c\<lparr>closedConns := closedConns c @ [conn]\<rparr>"

text \<open>\<open>writeToConn\<close>: whether the write succeeded, and the new state.\<close>

definition writeToConn :: "write_ok \<Rightarrow> nat \<Rightarrow> bytes \<Rightarrow> channel \<Rightarrow> bool \<times> channel" where
  "writeToConn wr conn data c =
     (if wr conn data then (True, c\<lparr>sent := sent c @ [(conn, data)]\<rparr>) else (False, c))"

definition writeToPublisher :: "write_ok \<Rightarrow> bytes \<Rightarrow> channel \<Rightarrow> channel" where
  "writeToPublisher wr data c =
     (case publisher c of None \<Rightarrow> c | Some pub \<Rightarrow> snd (writeToConn wr pub data c))"

section \<open>Input control\<close>

definition CanInput :: "string \<Rightarrow> channel \<Rightarrow> bool" where
  "CanInput sid c \<longleftrightarrow> controllerID c = [] \<or> controllerID c = sid"

definition RequestControl :: "string \<Rightarrow> channel \<Rightarrow> bool \<times> channel" where
  "RequestControl sid c =
     (if controllerID c = [] then (True, c\<lparr>controllerID := sid\<rparr>) else (False, c))"

definition ReleaseControl :: "string \<Rightarrow> channel \<Rightarrow> channel" where
  "ReleaseControl sid c = (if controllerID c = sid then c\<lparr>controllerID := []\<rparr> else c)"

section \<open>Subscribers\<close>

definition RemoveSubscriber :: "string \<Rightarrow> channel \<Rightarrow> channel" where
  "RemoveSubscriber sid c0 =
     (case map_of (subscribers c0) sid of
        None \<Rightarrow> c0
      | Some conn \<Rightarrow>
          let c = (close_conn conn c0)\<lparr>subscribers := AList.delete sid (subscribers c0)\<rparr>;
              c = (if controllerID c = sid then c\<lparr>controllerID := []\<rparr> else c)
          in if subscribers c = [] then c\<lparr>keepAliveTimer := True\<rparr> else c)"

text \<open>The function that the keep-alive timer runs.\<close>

definition keepAliveFires :: "channel \<Rightarrow> channel" where
  "keepAliveFires c =
     (if closed c then c
      else if subscribers c = [] then c\<lparr>subscribersGoneCalls := subscribersGoneCalls c + 1\<rparr>
      else c)"

text \<open>\<open>Broadcast\<close> writes to a snapshot of the subscribers, then removes those whose write failed.\<close>

fun broadcast_writes :: "write_ok \<Rightarrow> bytes \<Rightarrow> (string \<times> nat) list \<Rightarrow> channel \<Rightarrow> string list \<times> channel" where
  "broadcast_writes wr data [] c = ([], c)"
| "broadcast_writes wr data ((sid, conn) # subs) c =
     (let (ok, c) = writeToConn wr conn data c; (failed, c) = broadcast_writes wr data subs c
      in (if ok then failed else sid # failed, c))"

definition Broadcast :: "write_ok \<Rightarrow> bytes \<Rightarrow> channel \<Rightarrow> channel" where
  "Broadcast wr data c =
     (let (failed, c) = broadcast_writes wr data (subscribers c) c in fold RemoveSubscriber failed c)"

text \<open>Sending the buffered messages to a new subscriber stops at the first failing write.\<close>

fun replay :: "write_ok \<Rightarrow> nat \<Rightarrow> bytes list \<Rightarrow> channel \<Rightarrow> channel" where
  "replay wr conn [] c = c"
| "replay wr conn (d # ds) c =
     (let (ok, c) = writeToConn wr conn d c in if ok then replay wr conn ds c else c)"

definition addSubscriberInternal ::
  "write_ok \<Rightarrow> string \<Rightarrow> nat \<Rightarrow> int \<Rightarrow> channel \<Rightarrow> (channel_error + unit) \<times> channel" where
  "addSubscriberInternal wr sid conn maxSubscribers c =
     (if closed c then (Inl ChannelClosed, close_conn conn c)
      else if maxSubscribers > 0 \<and> int (length (subscribers c)) \<ge> maxSubscribers
      then (Inl (MaxSubscribersError maxSubscribers), c)
      else
        let c = c\<lparr>subscribers := AList.update sid conn (subscribers c), keepAliveTimer := False\<rparr>;
            c = replay wr conn (outputBuffer c) c;
            c = (if publisherDisconnected c then snd (writeToConn wr conn EncodeRunnerDisconnected c) else c)
        in (Inr (), c\<lparr>subLoops := subLoops c @ [(sid, conn)]\<rparr>))"

definition AddSubscriber :: "write_ok \<Rightarrow> string \<Rightarrow> nat \<Rightarrow> channel \<Rightarrow> channel" where
  "AddSubscriber wr sid conn c = snd (addSubscriberInternal wr sid conn 0 c)"

definition AddSubscriberWithLimit ::
  "write_ok \<Rightarrow> string \<Rightarrow> nat \<Rightarrow> int \<Rightarrow> channel \<Rightarrow> (channel_error + unit) \<times> channel" where
  "AddSubscriberWithLimit wr sid conn maxSubscribers c = addSubscriberInternal wr sid conn maxSubscribers c"

section \<open>The output buffer\<close>

text \<open>
  The eviction loop of \<open>bufferOutput\<close>. Its first condition does not ask whether there is a message left, so
  with a limit of no messages the code indexes an empty slice: that is the panic \<open>None\<close>.
\<close>

fun evict :: "int \<Rightarrow> int \<Rightarrow> int \<Rightarrow> bytes list \<Rightarrow> int \<Rightarrow> (bytes list \<times> int) option" where
  "evict maxCount maxBytes dataLen [] used = (if 0 \<ge> maxCount then None else Some ([], used))"
| "evict maxCount maxBytes dataLen (m # ms) used =
     (if int (length (m # ms)) \<ge> maxCount \<or> used + dataLen > maxBytes
      then evict maxCount maxBytes dataLen ms (used - int (length m))
      else Some (m # ms, used))"

definition bufferOutput :: "bytes \<Rightarrow> channel \<Rightarrow> channel option" where
  "bufferOutput data c = do {
     (buf, used) \<leftarrow> evict (OutputBufferCount (config c)) (OutputBufferSize (config c)) (int (length data))
       (outputBuffer c) (outputBufferBytes c);
     Some (if int (length data) \<le> OutputBufferSize (config c)
           then c\<lparr>outputBuffer := buf @ [data], outputBufferBytes := used + int (length data)\<rparr>
           else c\<lparr>outputBuffer := buf, outputBufferBytes := used\<rparr>)
   }"

definition clearOutputBuffer :: "channel \<Rightarrow> channel" where
  "clearOutputBuffer c = c\<lparr>outputBuffer := [], outputBufferBytes := 0\<rparr>"

section \<open>The publisher\<close>

text \<open>One message of the loop \<open>forwardPublisherToSubscribers\<close>.\<close>

definition publisherMessage :: "write_ok \<Rightarrow> bytes \<Rightarrow> channel \<Rightarrow> channel option" where
  "publisherMessage wr data c = do {
     c \<leftarrow> (case DecodeMessage data of
             Inl _ \<Rightarrow> Some c
           | Inr msg \<Rightarrow>
               if msg_Type msg = MsgTypeOutput then bufferOutput data c
               else if msg_Type msg = MsgTypeSnapshot then bufferOutput data (clearOutputBuffer c)
               else Some c);
     Some (Broadcast wr data c)
   }"

text \<open>The loop of the publisher over the messages it reads.\<close>

fun publish :: "write_ok \<Rightarrow> bytes list \<Rightarrow> channel \<Rightarrow> channel option" where
  "publish wr [] c = Some c"
| "publish wr (d # ds) c = do { c \<leftarrow> publisherMessage wr d c; publish wr ds c }"

definition handlePublisherDisconnect :: "write_ok \<Rightarrow> nat \<Rightarrow> 64 word \<Rightarrow> channel \<Rightarrow> channel" where
  "handlePublisherDisconnect wr conn epoch c =
     (if publisher c \<noteq> Some conn \<or> publisherEpoch c \<noteq> epoch then c
      else Broadcast wr EncodeRunnerDisconnected
             (close_conn conn (c\<lparr>publisher := None, publisherDisconnected := True,
                                publisherReconnectTimer := True\<rparr>)))"

text \<open>The loop of a publisher connection ends with a read error.\<close>

definition publisherReadError :: "write_ok \<Rightarrow> nat \<Rightarrow> 64 word \<Rightarrow> channel \<Rightarrow> channel" where
  "publisherReadError wr conn epoch c =
     handlePublisherDisconnect wr conn epoch (c\<lparr>pubLoops := remove1 (conn, epoch) (pubLoops c)\<rparr>)"

text \<open>
  Waiting for the running publisher loops: their connection is closed, so each of them ends with a read
  error.
\<close>

definition publisherWait :: "write_ok \<Rightarrow> channel \<Rightarrow> channel" where
  "publisherWait wr c = fold (\<lambda>(conn, epoch). publisherReadError wr conn epoch) (pubLoops c) c"

definition SetPublisher :: "write_ok \<Rightarrow> nat \<Rightarrow> channel \<Rightarrow> channel" where
  "SetPublisher wr conn c =
     (if closed c then close_conn conn c
      else if publisher c = Some conn then c
      else
        let oldConn = publisher c; wasDisconnected = publisherDisconnected c;
            epoch = publisherEpoch c + 1;
            c = c\<lparr>publisher := Some conn, publisherDisconnected := False, publisherEpoch := epoch,
                  publisherReconnectTimer := False\<rparr>;
            c = (case oldConn of None \<Rightarrow> c | Some old \<Rightarrow> close_conn old c);
            c = publisherWait wr c;
            c = (if wasDisconnected then Broadcast wr EncodeRunnerReconnected c else c)
        in c\<lparr>pubLoops := pubLoops c @ [(conn, epoch)]\<rparr>)"

section \<open>Messages from subscribers\<close>

text \<open>The switch over the requested action: the response and the new state.\<close>

definition controlResponse :: "string \<Rightarrow> control_request \<Rightarrow> channel \<Rightarrow> control_request \<times> channel" where
  "controlResponse sid req c =
     (let answer = (\<lambda>action who. \<lparr>Action = action, BrowserID = [], Controller = who\<rparr>)
      in if Action req = ''request'' then
           (let (ok, c) = RequestControl sid c
            in if ok then (answer ''granted'' sid, c) else (answer ''denied'' (controllerID c), c))
         else if Action req = ''release'' then (answer ''released'' [], ReleaseControl sid c)
         else if Action req = ''query'' then (answer ''status'' (controllerID c), c)
         else (answer ''error'' [], c))"

definition handleControlRequest ::
  "(bytes \<Rightarrow> 'e + control_request) \<Rightarrow> (control_request \<Rightarrow> 'e + bytes) \<Rightarrow> write_ok \<Rightarrow> string \<Rightarrow>
     bytes \<Rightarrow> channel \<Rightarrow> channel" where
  "handleControlRequest unmarshal marshal wr sid payload c =
     (case DecodeControlRequest unmarshal payload of
        Inl _ \<Rightarrow> c
      | Inr req \<Rightarrow>
          let (response, c) = controlResponse sid req c;
              data = (case EncodeControlRequest marshal response of Inl _ \<Rightarrow> [] | Inr d \<Rightarrow> d)
          in case map_of (subscribers c) sid of
               None \<Rightarrow> c
             | Some conn \<Rightarrow> snd (writeToConn wr conn data c))"

text \<open>One message of the loop \<open>forwardSubscriberToPublisher\<close>, which holds its own connection.\<close>

definition subscriberMessage ::
  "(bytes \<Rightarrow> 'e + control_request) \<Rightarrow> (control_request \<Rightarrow> 'e + bytes) \<Rightarrow> write_ok \<Rightarrow> string \<Rightarrow> nat \<Rightarrow>
     bytes \<Rightarrow> channel \<Rightarrow> channel" where
  "subscriberMessage unmarshal marshal wr sid conn data c =
     (case DecodeMessage data of
        Inl _ \<Rightarrow> c
      | Inr msg \<Rightarrow>
          if msg_Type msg = MsgTypeControl then
            handleControlRequest unmarshal marshal wr sid (Payload msg) c
          else if (msg_Type msg = MsgTypeInput \<or> msg_Type msg = MsgTypeResize) \<and> \<not> CanInput sid c then c
          else if msg_Type msg = MsgTypePing then snd (writeToConn wr conn EncodePong c)
          else writeToPublisher wr data c)"

definition subscriberReadError :: "string \<Rightarrow> nat \<Rightarrow> channel \<Rightarrow> channel" where
  "subscriberReadError sid conn c =
     RemoveSubscriber sid (c\<lparr>subLoops := remove1 (sid, conn) (subLoops c)\<rparr>)"

section \<open>Closing\<close>

definition closeInternal :: "write_ok \<Rightarrow> channel \<Rightarrow> channel" where
  "closeInternal wr c =
     (if closed c then c
      else
        let c = c\<lparr>closed := True, keepAliveTimer := False\<rparr>;
            c = (case publisher c of
                   None \<Rightarrow> c\<lparr>publisherReconnectTimer := False\<rparr>
                 | Some pub \<Rightarrow> (close_conn pub c)\<lparr>publisherReconnectTimer := False, publisher := None\<rparr>);
            c = publisherWait wr c;
            c = c\<lparr>closedConns := closedConns c @ map snd (subscribers c), subscribers := []\<rparr>;
            c = c\<lparr>outputBuffer := [], outputBufferBytes := 0\<rparr>
        in c\<lparr>channelClosedCalls := channelClosedCalls c + 1\<rparr>)"

definition channel_Close :: "write_ok \<Rightarrow> channel \<Rightarrow> channel" where
  "channel_Close wr c = closeInternal wr c"

text \<open>The function that the reconnect timer runs.\<close>

definition reconnectTimeout :: "write_ok \<Rightarrow> channel \<Rightarrow> channel" where
  "reconnectTimeout wr c = (if publisherDisconnected c then closeInternal wr c else c)"

section \<open>Steps\<close>

text \<open>
  What happens inside a channel, in any order: messages and read errors of its running loops, and its timers.
  A publisher message needs a running publisher loop and a subscriber message a running subscriber loop;
  timers may fire late, so they may fire at any time.
\<close>

inductive channel_event :: "channel \<Rightarrow> channel \<Rightarrow> bool" where
  ch_publisher_message:
    "(conn, epoch) \<in> set (pubLoops c) \<Longrightarrow> publisherMessage wr data c = Some c' \<Longrightarrow> channel_event c c'"
| ch_publisher_error:
    "(conn, epoch) \<in> set (pubLoops c) \<Longrightarrow> channel_event c (publisherReadError wr conn epoch c)"
| ch_subscriber_message:
    "(sid, conn) \<in> set (subLoops c) \<Longrightarrow>
     channel_event c (subscriberMessage (unmarshal :: bytes \<Rightarrow> unit + control_request) marshal wr sid conn data c)"
| ch_subscriber_error:
    "(sid, conn) \<in> set (subLoops c) \<Longrightarrow> channel_event c (subscriberReadError sid conn c)"
| ch_keep_alive: "channel_event c (keepAliveFires c)"
| ch_reconnect_timeout: "channel_event c (reconnectTimeout wr c)"

text \<open>The steps of a channel: these events, and the operations called from outside.\<close>

inductive channel_step :: "channel \<Rightarrow> channel \<Rightarrow> bool" where
  ch_event: "channel_event c c' \<Longrightarrow> channel_step c c'"
| ch_set_publisher: "channel_step c (SetPublisher wr conn c)"
| ch_add_subscriber:
    "addSubscriberInternal wr sid conn m c = (res, c') \<Longrightarrow> channel_step c c'"
| ch_close: "channel_step c (channel_Close wr c)"

definition channel_ok :: "channel \<Rightarrow> bool" where
  "channel_ok c \<longleftrightarrow>
     0 < OutputBufferCount (config c) \<and> 0 \<le> OutputBufferSize (config c) \<and>
     distinct (map fst (subscribers c)) \<and>
     outputBufferBytes c = (\<Sum>m \<leftarrow> outputBuffer c. int (length m)) \<and>
     int (length (outputBuffer c)) \<le> OutputBufferCount (config c) \<and>
     outputBufferBytes c \<le> OutputBufferSize (config c) \<and>
     (case publisher c of
        None \<Rightarrow> pubLoops c = []
      | Some p \<Rightarrow> pubLoops c = [(p, publisherEpoch c)] \<and> \<not> publisherDisconnected c) \<and>
     (closed c \<longrightarrow> publisher c = None \<and> subscribers c = [] \<and> outputBuffer c = []) \<and>
     (publisherDisconnected c \<and> \<not> closed c \<longrightarrow> publisherReconnectTimer c) \<and>
     channelClosedCalls c = (if closed c then 1 else 0)"

section \<open>Lemmas: what writing and removing leave alone\<close>

definition core where
  "core c = (PodKey c, config c, publisher c, outputBuffer c, outputBufferBytes c, publisherDisconnected c,
     publisherReconnectTimer c, publisherEpoch c, closed c, pubLoops c, channelClosedCalls c)"

text \<open>\<open>trimmed c c'\<close>: some subscribers were removed, and nothing of the core changed.\<close>

definition trimmed :: "channel \<Rightarrow> channel \<Rightarrow> bool" where
  "trimmed c c' \<longleftrightarrow> core c' = core c \<and> (\<exists>P. subscribers c' = filter P (subscribers c))"

lemma trimmed_refl [simp]: "trimmed c c"
  unfolding trimmed_def by (auto intro: exI [of _ "\<lambda>_. True"])

lemma trimmed_trans: "trimmed a b \<Longrightarrow> trimmed b c \<Longrightarrow> trimmed a c"
  unfolding trimmed_def by (auto simp: filter_filter)

lemma trimmed_same: "core c' = core c \<Longrightarrow> subscribers c' = subscribers c \<Longrightarrow> trimmed c c'"
  unfolding trimmed_def by (auto intro: exI [of _ "\<lambda>_. True"])

lemma core_update [simp]:
  "core (c\<lparr>sent := x\<rparr>) = core c" "core (c\<lparr>closedConns := y\<rparr>) = core c" "core (c\<lparr>keepAliveTimer := k\<rparr>) = core c"
  "core (c\<lparr>controllerID := i\<rparr>) = core c" "core (c\<lparr>subLoops := l\<rparr>) = core c"
  "core (c\<lparr>subscribersGoneCalls := n\<rparr>) = core c" "core (c\<lparr>subscribers := s\<rparr>) = core c"
  by (simp_all add: core_def)

lemma trimmed_ok:
  assumes "trimmed c c'" "channel_ok c"
  shows "channel_ok c'"
proof -
  obtain P where P: "subscribers c' = filter P (subscribers c)" and core: "core c' = core c"
    using assms(1) by (auto simp: trimmed_def)
  have "distinct (map fst (subscribers c'))"
    using assms(2) P by (simp add: channel_ok_def distinct_map_filter)
  then show ?thesis using assms(2) P core by (auto simp: channel_ok_def core_def split: option.splits)
qed

lemma trimmed_fields:
  assumes "trimmed c c'"
  shows "publisher c' = publisher c" "pubLoops c' = pubLoops c" "publisherEpoch c' = publisherEpoch c"
    "closed c' = closed c" "publisherDisconnected c' = publisherDisconnected c" "config c' = config c"
    "outputBuffer c' = outputBuffer c" "outputBufferBytes c' = outputBufferBytes c"
    "publisherReconnectTimer c' = publisherReconnectTimer c" "channelClosedCalls c' = channelClosedCalls c"
    "PodKey c' = PodKey c"
  using assms by (auto simp: trimmed_def core_def)

lemma writeToConn_trimmed: "writeToConn wr conn d c = (ok, c') \<Longrightarrow> trimmed c c'"
  by (auto simp: writeToConn_def intro: trimmed_same split: if_splits)

lemma snd_writeToConn_trimmed: "trimmed c (snd (writeToConn wr conn d c))"
  by (simp add: writeToConn_def trimmed_same)

lemma writeToPublisher_trimmed: "trimmed c (writeToPublisher wr d c)"
  using writeToConn_trimmed [of wr _ d c] by (auto simp: writeToPublisher_def split: option.split) (metis prod.collapse)

lemma close_conn_trimmed: "trimmed c (close_conn conn c)"
  by (simp add: close_conn_def trimmed_same)

lemma RemoveSubscriber_trimmed: "trimmed c (RemoveSubscriber sid c)"
proof -
  have "core (RemoveSubscriber sid c) = core c"
    by (simp add: RemoveSubscriber_def close_conn_def Let_def split: option.split)
  moreover have "\<exists>P. subscribers (RemoveSubscriber sid c) = filter P (subscribers c)"
  proof (cases "map_of (subscribers c) sid")
    case None
    then show ?thesis by (auto simp: RemoveSubscriber_def intro: exI [of _ "\<lambda>_. True"])
  next
    case (Some conn)
    then show ?thesis
      by (auto simp: RemoveSubscriber_def close_conn_def Let_def AList.delete_eq intro!: exI [of _ "\<lambda>(k, _). sid \<noteq> k"])
  qed
  ultimately show ?thesis by (simp add: trimmed_def)
qed

lemma broadcast_writes_trimmed: "broadcast_writes wr d subs c = (failed, c') \<Longrightarrow> trimmed c c'"
  by (induction wr d subs c arbitrary: failed c' rule: broadcast_writes.induct)
    (auto simp: Let_def split: prod.splits if_splits intro: trimmed_trans [OF writeToConn_trimmed])

lemma Broadcast_trimmed: "trimmed c (Broadcast wr d c)"
proof -
  have "trimmed c (fold RemoveSubscriber ids c)" for ids c
    by (induction ids arbitrary: c) (auto intro: trimmed_trans [OF RemoveSubscriber_trimmed])
  moreover obtain failed c' where w: "broadcast_writes wr d (subscribers c) c = (failed, c')"
    by (cases "broadcast_writes wr d (subscribers c) c")
  ultimately show ?thesis
    using trimmed_trans [OF broadcast_writes_trimmed [OF w]] by (simp add: Broadcast_def w)
qed

lemma replay_trimmed: "trimmed c (replay wr conn ds c)"
  by (induction wr conn ds c rule: replay.induct)
    (auto simp: Let_def split: prod.split intro: trimmed_trans [OF writeToConn_trimmed] writeToConn_trimmed)

section \<open>Lemmas: the output buffer\<close>

lemma bytes_nonneg: "0 \<le> (\<Sum>m \<leftarrow> ms. int (length m))"
  by (induction ms) simp_all

lemma all_less_Suc_split: "(\<forall>j<Suc k. P j) \<longleftrightarrow> P 0 \<and> (\<forall>j<k. P (Suc j))"
  by (auto simp: less_Suc_eq_0_disj)

lemma evict_props:
  assumes "0 < maxCount" "used = (\<Sum>m \<leftarrow> buf. int (length m))" "int (length buf) \<le> maxCount"
  shows "\<exists>k. evict maxCount maxBytes n buf used =
      Some (drop k buf, \<Sum>m \<leftarrow> drop k buf. int (length m)) \<and>
    int (length (drop k buf)) < maxCount \<and>
    (drop k buf = [] \<or> (\<Sum>m \<leftarrow> drop k buf. int (length m)) + n \<le> maxBytes) \<and>
    (\<forall>j<k. maxCount \<le> int (length (drop j buf)) \<or> maxBytes < (\<Sum>m \<leftarrow> drop j buf. int (length m)) + n)"
  using assms(2,3)
proof (induction buf arbitrary: used)
  case Nil
  then show ?case using assms(1) by (intro exI [of _ 0]) simp
next
  case (Cons m ms)
  show ?case
  proof (cases "int (length (m # ms)) \<ge> maxCount \<or> used + n > maxBytes")
    case True
    from Cons.IH [of "used - int (length m)"] Cons.prems obtain k where
      "evict maxCount maxBytes n ms (used - int (length m)) =
        Some (drop k ms, \<Sum>m \<leftarrow> drop k ms. int (length m)) \<and> int (length (drop k ms)) < maxCount \<and>
        (drop k ms = [] \<or> (\<Sum>m \<leftarrow> drop k ms. int (length m)) + n \<le> maxBytes) \<and>
        (\<forall>j<k. maxCount \<le> int (length (drop j ms)) \<or> maxBytes < (\<Sum>m \<leftarrow> drop j ms. int (length m)) + n)"
      by auto
    then show ?thesis
      using True Cons.prems(1)
      by (intro exI [of _ "Suc k"]) (simp only: evict.simps if_True drop_Suc_Cons all_less_Suc_split, simp)
  next
    case False
    then show ?thesis using Cons.prems by (intro exI [of _ 0]) auto
  qed
qed

lemma bufferOutput_ok:
  assumes "channel_ok c" "\<not> closed c"
  shows "\<exists>c'. bufferOutput data c = Some c' \<and> channel_ok c' \<and> \<not> closed c'"
proof -
  from assms evict_props [of "OutputBufferCount (config c)" "outputBufferBytes c" "outputBuffer c"
      "OutputBufferSize (config c)" "int (length data)"]
  obtain k where k: "evict (OutputBufferCount (config c)) (OutputBufferSize (config c)) (int (length data))
      (outputBuffer c) (outputBufferBytes c) =
      Some (drop k (outputBuffer c), \<Sum>m \<leftarrow> drop k (outputBuffer c). int (length m))"
    "int (length (drop k (outputBuffer c))) < OutputBufferCount (config c)"
    "drop k (outputBuffer c) = [] \<or> (\<Sum>m \<leftarrow> drop k (outputBuffer c). int (length m)) + int (length data)
       \<le> OutputBufferSize (config c)"
    by (auto simp: channel_ok_def)
  define buf where "buf = drop k (outputBuffer c)"
  define c' where "c' = (if int (length data) \<le> OutputBufferSize (config c)
      then c\<lparr>outputBuffer := buf @ [data], outputBufferBytes := (\<Sum>m \<leftarrow> buf. int (length m)) + int (length data)\<rparr>
      else c\<lparr>outputBuffer := buf, outputBufferBytes := (\<Sum>m \<leftarrow> buf. int (length m))\<rparr>)"
  have "bufferOutput data c = Some c'"
    using k(1) by (simp add: bufferOutput_def c'_def buf_def)
  moreover have "channel_ok c'"
    using assms k(2,3) unfolding c'_def buf_def [symmetric]
    by (auto simp: channel_ok_def buf_def [symmetric] split: option.splits)
  ultimately show ?thesis using assms(2) by (auto simp: c'_def)
qed

lemma publisherMessage_ok:
  assumes "channel_ok c" "pubLoops c \<noteq> []"
  shows "\<exists>c'. publisherMessage wr data c = Some c' \<and> channel_ok c'"
proof -
  have open_c: "\<not> closed c" using assms by (auto simp: channel_ok_def split: option.splits)
  have "channel_ok (clearOutputBuffer c)" "\<not> closed (clearOutputBuffer c)"
    using assms open_c by (auto simp: channel_ok_def clearOutputBuffer_def split: option.splits)
  note buf = bufferOutput_ok [OF assms(1) open_c, of data] bufferOutput_ok [OF this, of data]
  have "\<exists>c1. (case DecodeMessage data of
       Inl _ \<Rightarrow> Some c
     | Inr msg \<Rightarrow>
         if msg_Type msg = MsgTypeOutput then bufferOutput data c
         else if msg_Type msg = MsgTypeSnapshot then bufferOutput data (clearOutputBuffer c)
         else Some c) = Some c1 \<and> channel_ok c1"
    using buf assms(1) by (auto split: sum.split)
  then obtain c1 where "(case DecodeMessage data of
       Inl _ \<Rightarrow> Some c
     | Inr msg \<Rightarrow>
         if msg_Type msg = MsgTypeOutput then bufferOutput data c
         else if msg_Type msg = MsgTypeSnapshot then bufferOutput data (clearOutputBuffer c)
         else Some c) = Some c1" "channel_ok c1" by blast
  then show ?thesis using trimmed_ok [OF Broadcast_trimmed] by (simp add: publisherMessage_def)
qed

section \<open>Lemmas: the publisher\<close>

lemma channel_ok_loops [consumes 1, case_names none one]:
  assumes "channel_ok c"
  obtains (none) "publisher c = None" "pubLoops c = []"
  | (one) p where "publisher c = Some p" "pubLoops c = [(p, publisherEpoch c)]" "\<not> closed c"
      "\<not> publisherDisconnected c"
  using assms by (cases "publisher c") (auto simp: channel_ok_def)

lemma stale_disconnect:
  "publisher c \<noteq> Some conn \<or> publisherEpoch c \<noteq> epoch \<Longrightarrow> handlePublisherDisconnect wr conn epoch c = c"
  by (simp add: handlePublisherDisconnect_def)

lemma publisherReadError_ok:
  assumes ok: "channel_ok c" and loop: "(conn, epoch) \<in> set (pubLoops c)"
  shows "channel_ok (publisherReadError wr conn epoch c)"
  using ok
proof (cases rule: channel_ok_loops)
  case none
  then show ?thesis using loop by simp
next
  case (one p)
  then have p: "conn = p" "epoch = publisherEpoch c" using loop by auto
  let ?c = "c\<lparr>pubLoops := [], publisher := None, publisherDisconnected := True, publisherReconnectTimer := True\<rparr>"
  have ok': "channel_ok ?c" using ok one(3) by (auto simp: channel_ok_def split: option.splits)
  have "channel_ok (Broadcast wr d (close_conn p ?c))" for d
    by (rule trimmed_ok [OF trimmed_trans [OF close_conn_trimmed Broadcast_trimmed] ok'])
  then show ?thesis
    using one p by (simp add: publisherReadError_def handlePublisherDisconnect_def)
qed

text \<open>Waiting for a loop whose connection has been replaced only removes the loop.\<close>

lemma publisherWait_stale:
  assumes "pubLoops c = [] \<or> (\<exists>p e. pubLoops c = [(p, e)] \<and> publisher c \<noteq> Some p)"
  shows "publisherWait wr c = c\<lparr>pubLoops := []\<rparr>"
  using assms by (auto simp: publisherWait_def publisherReadError_def stale_disconnect)

lemma SetPublisher_new:
  assumes ok: "channel_ok c" and "\<not> closed c" and new: "publisher c \<noteq> Some conn"
  shows "\<exists>c'. trimmed (c\<lparr>publisher := Some conn, publisherDisconnected := False,
       publisherEpoch := publisherEpoch c + 1, publisherReconnectTimer := False, pubLoops := []\<rparr>) c' \<and>
     SetPublisher wr conn c = c'\<lparr>pubLoops := [(conn, publisherEpoch c + 1)]\<rparr>"
proof -
  define c1 where "c1 = c\<lparr>publisher := Some conn, publisherDisconnected := False,
      publisherEpoch := publisherEpoch c + 1, publisherReconnectTimer := False\<rparr>"
  define c2 where "c2 = (case publisher c of None \<Rightarrow> c1 | Some old \<Rightarrow> close_conn old c1)"
  have "pubLoops c2 = [] \<or> (\<exists>p e. pubLoops c2 = [(p, e)] \<and> publisher c2 \<noteq> Some p)"
    using ok new by (cases rule: channel_ok_loops) (auto simp: c2_def c1_def close_conn_def)
  then have w: "publisherWait wr c2 = c2\<lparr>pubLoops := []\<rparr>" by (rule publisherWait_stale)
  define c3 where "c3 = (if publisherDisconnected c then Broadcast wr EncodeRunnerReconnected (c2\<lparr>pubLoops := []\<rparr>)
      else c2\<lparr>pubLoops := []\<rparr>)"
  have "trimmed (c1\<lparr>pubLoops := []\<rparr>) (c2\<lparr>pubLoops := []\<rparr>)"
    by (auto simp: c2_def close_conn_def trimmed_same core_def split: option.split)
  then have t: "trimmed (c1\<lparr>pubLoops := []\<rparr>) c3"
    unfolding c3_def using Broadcast_trimmed by (auto intro: trimmed_trans)
  have "SetPublisher wr conn c =
      (let c = (if publisherDisconnected c then Broadcast wr EncodeRunnerReconnected (publisherWait wr c2)
                else publisherWait wr c2)
       in c\<lparr>pubLoops := pubLoops c @ [(conn, publisherEpoch c1)]\<rparr>)"
    using assms(2) new unfolding c2_def c1_def by (simp add: SetPublisher_def Let_def)
  then have "SetPublisher wr conn c = c3\<lparr>pubLoops := pubLoops c3 @ [(conn, publisherEpoch c + 1)]\<rparr>"
    by (simp add: w c3_def Let_def c1_def)
  moreover have "pubLoops c3 = []" using trimmed_fields(2) [OF t] by simp
  ultimately show ?thesis using t by (intro exI [of _ c3]) (simp add: c1_def)
qed

lemma SetPublisher_ok:
  assumes ok: "channel_ok c"
  shows "channel_ok (SetPublisher wr conn c)"
proof -
  consider (closed) "closed c" | (same) "\<not> closed c" "publisher c = Some conn"
    | (new) "\<not> closed c" "publisher c \<noteq> Some conn" by blast
  then show ?thesis
  proof cases
    case closed
    then show ?thesis using trimmed_ok [OF close_conn_trimmed ok] by (simp add: SetPublisher_def)
  next
    case same
    then show ?thesis using ok by (simp add: SetPublisher_def)
  next
    case new
    let ?c1 = "c\<lparr>publisher := Some conn, publisherDisconnected := False,
       publisherEpoch := publisherEpoch c + 1, publisherReconnectTimer := False, pubLoops := []\<rparr>"
    from SetPublisher_new [OF ok new, of wr] obtain c' where t: "trimmed ?c1 c'"
      and eq: "SetPublisher wr conn c = c'\<lparr>pubLoops := [(conn, publisherEpoch c + 1)]\<rparr>" by blast
    have "trimmed (?c1\<lparr>pubLoops := [(conn, publisherEpoch c + 1)]\<rparr>) (c'\<lparr>pubLoops := [(conn, publisherEpoch c + 1)]\<rparr>)"
      using t by (auto simp: trimmed_def core_def)
    moreover have "channel_ok (?c1\<lparr>pubLoops := [(conn, publisherEpoch c + 1)]\<rparr>)"
      using ok new by (auto simp: channel_ok_def split: option.splits)
    ultimately show ?thesis unfolding eq by (rule trimmed_ok)
  qed
qed

section \<open>Lemmas: subscribers and closing\<close>

lemma addSubscriberInternal_cases:
  assumes "addSubscriberInternal wr sid conn m c = (res, c')"
  obtains (closed) "closed c" "res = Inl ChannelClosed" "c' = close_conn conn c"
  | (full) "\<not> closed c" "0 < m" "m \<le> int (length (subscribers c))" "res = Inl (MaxSubscribersError m)" "c' = c"
  | (added) "\<not> closed c" "m > 0 \<Longrightarrow> int (length (subscribers c)) < m" "res = Inr ()"
      "trimmed (c\<lparr>subscribers := AList.update sid conn (subscribers c)\<rparr>) c'"
      "subscribers c' = AList.update sid conn (subscribers c)" "subLoops c' = subLoops c @ [(sid, conn)]"
proof -
  let ?c1 = "c\<lparr>subscribers := AList.update sid conn (subscribers c), keepAliveTimer := False\<rparr>"
  have rep: "subscribers (replay wr conn ds d) = subscribers d \<and> subLoops (replay wr conn ds d) = subLoops d"
    for ds d
    by (induction ds arbitrary: d) (simp_all add: writeToConn_def)
  consider "closed c" | "\<not> closed c" "0 < m" "m \<le> int (length (subscribers c))"
    | "\<not> closed c" "\<not> (0 < m \<and> m \<le> int (length (subscribers c)))" by blast
  then show ?thesis
  proof cases
    case 1
    then have "addSubscriberInternal wr sid conn m c = (Inl ChannelClosed, close_conn conn c)"
      by (simp add: addSubscriberInternal_def)
    then show ?thesis using 1 assms by (intro closed) simp_all
  next
    case 2
    then have "addSubscriberInternal wr sid conn m c = (Inl (MaxSubscribersError m), c)"
      by (simp add: addSubscriberInternal_def)
    then show ?thesis using 2 assms by (intro full) simp_all
  next
    case 3
    define c2 where "c2 = replay wr conn (outputBuffer c) ?c1"
    define c3 where "c3 = (if publisherDisconnected c2 then snd (writeToConn wr conn EncodeRunnerDisconnected c2) else c2)"
    have "addSubscriberInternal wr sid conn m c = (Inr (), c3\<lparr>subLoops := subLoops c3 @ [(sid, conn)]\<rparr>)"
      using 3 by (simp add: addSubscriberInternal_def Let_def c2_def c3_def)
    then have c': "c' = c3\<lparr>subLoops := subLoops c3 @ [(sid, conn)]\<rparr>" "res = Inr ()"
      using assms by simp_all
    have s: "subscribers c3 = AList.update sid conn (subscribers c)" "subLoops c3 = subLoops c"
      using rep [of "outputBuffer c" ?c1] by (simp_all add: c3_def c2_def writeToConn_def)
    have t1: "trimmed (c\<lparr>subscribers := AList.update sid conn (subscribers c)\<rparr>) ?c1"
      by (rule trimmed_same) (simp_all add: core_def)
    have t2: "trimmed ?c1 c2" unfolding c2_def by (rule replay_trimmed)
    have t3: "trimmed c2 c3" by (simp add: c3_def snd_writeToConn_trimmed)
    have t4: "trimmed c3 c'" unfolding c' by (rule trimmed_same) simp_all
    note t = trimmed_trans [OF t1 trimmed_trans [OF t2 trimmed_trans [OF t3 t4]]]
    show ?thesis
      by (rule added [OF 3(1) _ c'(2) t]) (use 3(2) c'(1) s in simp_all)
  qed
qed

lemma addSubscriberInternal_ok:
  assumes "addSubscriberInternal wr sid conn m c = (res, c')" "channel_ok c"
  shows "channel_ok c'"
proof (cases rule: addSubscriberInternal_cases [OF assms(1)])
  case 1
  then show ?thesis using trimmed_ok [OF close_conn_trimmed assms(2)] by simp
next
  case 2
  then show ?thesis using assms(2) by simp
next
  case 3
  have "channel_ok (c\<lparr>subscribers := AList.update sid conn (subscribers c)\<rparr>)"
    using assms(2) 3(1) by (auto simp: channel_ok_def distinct_update split: option.splits)
  then show ?thesis by (rule trimmed_ok [OF 3(4)])
qed

lemma controlResponse_trimmed: "trimmed c (snd (controlResponse sid req c))"
  by (auto simp: controlResponse_def RequestControl_def ReleaseControl_def Let_def intro: trimmed_same)

lemma handleControlRequest_trimmed: "trimmed c (handleControlRequest unmarshal marshal wr sid p c)"
proof (cases "DecodeControlRequest unmarshal p")
  case (Inl e)
  then show ?thesis by (simp add: handleControlRequest_def)
next
  case (Inr req)
  obtain response c1 where r: "controlResponse sid req c = (response, c1)"
    by (cases "controlResponse sid req c")
  then have t: "trimmed c c1" using controlResponse_trimmed [of c sid req] by simp
  show ?thesis
    using t trimmed_trans [OF t snd_writeToConn_trimmed]
    by (simp add: handleControlRequest_def Inr r Let_def split: option.split)
qed

lemma subscriberMessage_trimmed: "trimmed c (subscriberMessage unmarshal marshal wr sid conn data c)"
  using snd_writeToConn_trimmed writeToPublisher_trimmed handleControlRequest_trimmed
  by (auto simp: subscriberMessage_def split: sum.split)

lemma closeInternal_ok:
  assumes ok: "channel_ok c"
  shows "channel_ok (closeInternal wr c) \<and> closed (closeInternal wr c)"
proof (cases "closed c")
  case True
  then show ?thesis using ok by (simp add: closeInternal_def)
next
  case False
  define c1 where "c1 = (case publisher c of
      None \<Rightarrow> c\<lparr>closed := True, keepAliveTimer := False, publisherReconnectTimer := False\<rparr>
    | Some pub \<Rightarrow> (close_conn pub (c\<lparr>closed := True, keepAliveTimer := False\<rparr>))
        \<lparr>publisherReconnectTimer := False, publisher := None\<rparr>)"
  have "pubLoops c1 = [] \<or> (\<exists>p e. pubLoops c1 = [(p, e)] \<and> publisher c1 \<noteq> Some p)"
    using ok by (cases rule: channel_ok_loops) (auto simp: c1_def close_conn_def)
  then have w: "publisherWait wr c1 = c1\<lparr>pubLoops := []\<rparr>" by (rule publisherWait_stale)
  have eq: "closeInternal wr c = c1\<lparr>pubLoops := [], closedConns := closedConns c1 @ map snd (subscribers c1),
      subscribers := [], outputBuffer := [], outputBufferBytes := 0,
      channelClosedCalls := channelClosedCalls c1 + 1\<rparr>"
  proof -
    have "(case publisher (c\<lparr>closed := True, keepAliveTimer := False\<rparr>) of
        None \<Rightarrow> c\<lparr>closed := True, keepAliveTimer := False\<rparr>\<lparr>publisherReconnectTimer := False\<rparr>
      | Some pub \<Rightarrow> (close_conn pub (c\<lparr>closed := True, keepAliveTimer := False\<rparr>))
          \<lparr>publisherReconnectTimer := False, publisher := None\<rparr>) = c1"
      by (simp add: c1_def split: option.split)
    then show ?thesis using False by (simp add: closeInternal_def Let_def w)
  qed
  show ?thesis
    unfolding eq using ok False
    by (auto simp: channel_ok_def c1_def close_conn_def split: option.split)
qed

lemma channel_event_ok: "channel_event c c' \<Longrightarrow> channel_ok c \<Longrightarrow> channel_ok c'"
proof (induction rule: channel_event.induct)
  case (ch_publisher_message conn epoch c wr data c')
  then have "pubLoops c \<noteq> []" by auto
  then show ?case using publisherMessage_ok [of c wr data] ch_publisher_message by simp
next
  case (ch_subscriber_error sid conn c)
  have "channel_ok (c\<lparr>subLoops := remove1 (sid, conn) (subLoops c)\<rparr>)"
    using ch_subscriber_error.prems by (rule trimmed_ok [rotated]) (simp add: trimmed_same)
  then show ?case unfolding subscriberReadError_def by (rule trimmed_ok [OF RemoveSubscriber_trimmed])
next
  case (ch_keep_alive c)
  have "trimmed c (keepAliveFires c)" by (simp add: keepAliveFires_def trimmed_same)
  then show ?case using ch_keep_alive by (rule trimmed_ok)
qed (auto intro: publisherReadError_ok trimmed_ok [OF subscriberMessage_trimmed]
    simp: reconnectTimeout_def closeInternal_ok)

lemma channel_step_ok: "channel_step c c' \<Longrightarrow> channel_ok c \<Longrightarrow> channel_ok c'"
  by (induction rule: channel_step.induct)
    (auto intro: SetPublisher_ok addSubscriberInternal_ok channel_event_ok simp: channel_Close_def closeInternal_ok)

section \<open>Lemmas: what is sent\<close>

lemma broadcast_writes_exact:
  "broadcast_writes wr d subs c =
     (map fst (filter (\<lambda>(_, conn). \<not> wr conn d) subs),
      c\<lparr>sent := sent c @ map (\<lambda>(_, conn). (conn, d)) (filter (\<lambda>(_, conn). wr conn d) subs)\<rparr>)"
  by (induction wr d subs c rule: broadcast_writes.induct) (simp_all add: writeToConn_def)

lemma RemoveSubscriber_exact:
  "subscribers (RemoveSubscriber sid c) = filter (\<lambda>(k, _). sid \<noteq> k) (subscribers c) \<and>
   sent (RemoveSubscriber sid c) = sent c"
proof (cases "map_of (subscribers c) sid")
  case None
  then have "\<forall>x \<in> set (subscribers c). (case x of (k, _) \<Rightarrow> sid \<noteq> k)" by (force simp: map_of_eq_None_iff)
  then show ?thesis using None by (simp add: RemoveSubscriber_def)
next
  case (Some conn)
  then show ?thesis
    by (simp add: RemoveSubscriber_def close_conn_def Let_def AList.delete_eq)
qed

lemma fold_RemoveSubscriber:
  "subscribers (fold RemoveSubscriber ids c) = filter (\<lambda>(k, _). k \<notin> set ids) (subscribers c) \<and>
   sent (fold RemoveSubscriber ids c) = sent c"
  by (induction ids arbitrary: c) (auto simp: RemoveSubscriber_exact case_prod_unfold conj_commute
      intro!: filter_cong)

lemma failed_keys:
  "distinct (map fst subs) \<Longrightarrow> (k, conn) \<in> set subs \<Longrightarrow>
   k \<in> set (map fst (filter (\<lambda>(_, conn). \<not> wr conn d) subs)) \<longleftrightarrow> \<not> wr conn d"
  by (force dest: eq_key_imp_eq_value)

lemma replay_sends: "(\<And>d. wr conn d) \<Longrightarrow> replay wr conn ds c = c\<lparr>sent := sent c @ map (Pair conn) ds\<rparr>"
  by (induction ds arbitrary: c) (simp_all add: writeToConn_def)

text \<open>With room in the buffer nothing is evicted.\<close>

lemma bufferOutput_room:
  assumes "int (length (outputBuffer c)) < OutputBufferCount (config c)"
    and "outputBufferBytes c + int (length d) \<le> OutputBufferSize (config c)" and "0 \<le> outputBufferBytes c"
  shows "bufferOutput d c =
     Some (c\<lparr>outputBuffer := outputBuffer c @ [d], outputBufferBytes := outputBufferBytes c + int (length d)\<rparr>)"
  using assms by (cases "outputBuffer c") (simp_all add: bufferOutput_def)

definition msg_is :: "8 word \<Rightarrow> bytes \<Rightarrow> bool" where
  "msg_is t d \<longleftrightarrow> (case DecodeMessage d of Inl _ \<Rightarrow> False | Inr m \<Rightarrow> msg_Type m = t)"

lemma publisherMessage_kinds:
  "msg_is MsgTypeOutput d \<Longrightarrow> publisherMessage wr d c = map_option (Broadcast wr d) (bufferOutput d c)"
  "msg_is MsgTypeSnapshot d \<Longrightarrow>
     publisherMessage wr d c = map_option (Broadcast wr d) (bufferOutput d (clearOutputBuffer c))"
  by (auto simp: msg_is_def publisherMessage_def MsgTypeOutput_def MsgTypeSnapshot_def map_option_case
      split: sum.splits option.split)

lemma publish_outputs:
  assumes "\<forall>d \<in> set ds. msg_is MsgTypeOutput d" "channel_ok c" "\<not> closed c"
    and "int (length (outputBuffer c @ ds)) \<le> OutputBufferCount (config c)"
    and "(\<Sum>m \<leftarrow> outputBuffer c @ ds. int (length m)) \<le> OutputBufferSize (config c)"
  shows "\<exists>c'. publish wr ds c = Some c' \<and> outputBuffer c' = outputBuffer c @ ds \<and> channel_ok c' \<and>
     publisher c' = publisher c \<and> \<not> closed c'"
  using assms
proof (induction ds arbitrary: c)
  case (Cons d ds)
  let ?c1 = "c\<lparr>outputBuffer := outputBuffer c @ [d], outputBufferBytes := outputBufferBytes c + int (length d)\<rparr>"
  let ?c2 = "Broadcast wr d ?c1"
  have bytes: "outputBufferBytes c = (\<Sum>m \<leftarrow> outputBuffer c. int (length m))"
    using Cons.prems(2) by (simp add: channel_ok_def)
  have pos: "0 \<le> (\<Sum>m \<leftarrow> ds. int (length m))" "0 \<le> (\<Sum>m \<leftarrow> outputBuffer c. int (length m))"
    by (rule bytes_nonneg)+
  have b: "bufferOutput d c = Some ?c1"
    using Cons.prems(4,5) bytes pos by (intro bufferOutput_room) auto
  then have ok1: "channel_ok ?c1" using bufferOutput_ok [OF Cons.prems(2,3), of d] by simp
  note t = Broadcast_trimmed [of ?c1 wr d]
  have "\<exists>c'. publish wr ds ?c2 = Some c' \<and> outputBuffer c' = outputBuffer ?c2 @ ds \<and> channel_ok c' \<and>
     publisher c' = publisher ?c2 \<and> \<not> closed c'"
    using Cons.prems trimmed_ok [OF t ok1] trimmed_fields [OF t] by (intro Cons.IH) simp_all
  then show ?case
    using Cons.prems(1) b trimmed_fields [OF t] by (simp add: publisherMessage_kinds)
qed simp

lemma publish_snapshot:
  assumes "msg_is MsgTypeSnapshot snap" "\<forall>d \<in> set outs. msg_is MsgTypeOutput d" "channel_ok c" "\<not> closed c"
    and "int (length (snap # outs)) \<le> OutputBufferCount (config c)"
    and "(\<Sum>m \<leftarrow> snap # outs. int (length m)) \<le> OutputBufferSize (config c)"
  shows "\<exists>c'. publish wr (snap # outs) c = Some c' \<and> outputBuffer c' = snap # outs \<and> channel_ok c' \<and>
     publisher c' = publisher c \<and> \<not> closed c'"
proof -
  let ?c1 = "c\<lparr>outputBuffer := [snap], outputBufferBytes := int (length snap)\<rparr>"
  let ?c2 = "Broadcast wr snap ?c1"
  have pos: "0 \<le> (\<Sum>m \<leftarrow> outs. int (length m))" by (rule bytes_nonneg)
  have b: "bufferOutput snap (clearOutputBuffer c) = Some ?c1"
    using assms(5,6) pos by (subst bufferOutput_room) (simp_all add: clearOutputBuffer_def)
  have ok1: "channel_ok ?c1"
    using assms(3-6) pos by (auto simp: channel_ok_def split: option.splits)
  note t = Broadcast_trimmed [of ?c1 wr snap]
  have "\<exists>c'. publish wr outs ?c2 = Some c' \<and> outputBuffer c' = outputBuffer ?c2 @ outs \<and> channel_ok c' \<and>
     publisher c' = publisher ?c2 \<and> \<not> closed c'"
    using assms trimmed_ok [OF t ok1] trimmed_fields [OF t] by (intro publish_outputs) simp_all
  then show ?thesis using b trimmed_fields [OF t] assms(1) by (simp add: publisherMessage_kinds)
qed

section \<open>Interpretation\<close>

definition channel_initial :: "channel \<Rightarrow> bool" where
  "channel_initial c \<longleftrightarrow> (\<exists>k cfg. 0 < OutputBufferCount cfg \<and> 0 \<le> OutputBufferSize cfg \<and>
     c = NewTerminalChannelWithConfig k cfg)"

lemma channel_initial_ok: "channel_initial c \<Longrightarrow> channel_ok c"
  by (auto simp: channel_initial_def NewTerminalChannelWithConfig_def channel_ok_def)

interpretation channel_inv: state_machine channel_initial channel_step channel_ok
  by unfold_locales (erule channel_initial_ok, erule (1) channel_step_ok)

lemma channel_event_closed: "channel_event c c' \<Longrightarrow> channel_ok c \<Longrightarrow> closed c \<Longrightarrow> closed c'"
proof (induction rule: channel_event.induct)
  case (ch_publisher_message conn epoch c wr data c')
  then show ?case by (auto simp: channel_ok_def)
next
  case (ch_publisher_error conn epoch c wr)
  then show ?case by (auto simp: channel_ok_def)
next
  case (ch_subscriber_message sid conn c unmarshal marshal wr data)
  then show ?case by (simp add: trimmed_fields(4) [OF subscriberMessage_trimmed])
next
  case (ch_subscriber_error sid conn c)
  then show ?case by (simp add: subscriberReadError_def trimmed_fields(4) [OF RemoveSubscriber_trimmed])
qed (auto simp: keepAliveFires_def reconnectTimeout_def closeInternal_def)

lemma channel_step_closed: "channel_step c c' \<Longrightarrow> channel_ok c \<Longrightarrow> closed c \<Longrightarrow> closed c'"
  by (induction rule: channel_step.induct)
    (auto simp: SetPublisher_def close_conn_def addSubscriberInternal_def channel_Close_def closeInternal_def
      dest: channel_event_closed)

interpretation channel_final: state_machine
  "\<lambda>c. channel_ok c \<and> closed c" channel_step "\<lambda>c. channel_ok c \<and> closed c"
  by unfold_locales (auto dest: channel_step_ok channel_step_closed)

lemma Broadcast_all_ok:
  "(\<And>k d. wr k d) \<Longrightarrow>
   Broadcast wr d c = c\<lparr>sent := sent c @ map (\<lambda>(_, conn). (conn, d)) (subscribers c)\<rparr>"
  by (simp add: Broadcast_def broadcast_writes_exact)

lemma publisherReadError_current:
  assumes "channel_ok c" "publisher c = Some p" "\<And>k d. wr k d"
  shows "publisherReadError wr p (publisherEpoch c) c =
     c\<lparr>publisher := None, publisherDisconnected := True, publisherReconnectTimer := True, pubLoops := [],
       sent := sent c @ map (\<lambda>(_, conn). (conn, EncodeRunnerDisconnected)) (subscribers c),
       closedConns := closedConns c @ [p]\<rparr>"
  using assms(1,2)
  by (simp add: publisherReadError_def handlePublisherDisconnect_def Broadcast_all_ok [OF assms(3)] close_conn_def
      channel_ok_def)

lemma SetPublisher_reconnect:
  assumes "publisher c = None" "pubLoops c = []" "\<not> closed c" "publisherDisconnected c" "\<And>k d. wr k d"
  shows "SetPublisher wr conn c =
     c\<lparr>publisher := Some conn, publisherDisconnected := False, publisherReconnectTimer := False,
       publisherEpoch := publisherEpoch c + 1, pubLoops := [(conn, publisherEpoch c + 1)],
       sent := sent c @ map (\<lambda>(_, conn). (conn, EncodeRunnerReconnected)) (subscribers c)\<rparr>"
  using assms(1-4) by (simp add: SetPublisher_def Let_def publisherWait_def Broadcast_all_ok [OF assms(5)])

section \<open>Properties\<close>

text \<open>
  C7. The invariant of a channel that buffers at least one message (\<open>OutputBufferCount\<close> is positive, which the code does
  not check, and \<open>OutputBufferSize\<close> is not negative): whatever publishers, subscribers and timers do, in any order of
  whole operations, at most one publisher
  loop runs and it is the one of the current connection and epoch, the output buffer respects both limits and
  its byte counter is exact, a disconnected open channel has its reconnect timer, a closed channel holds no
  connection and no output, and its close callback has been called exactly once. No message from a publisher makes
  the relay panic; with a count of zero the first one would (\<open>zero_buffer_count_panics\<close>).
\<close>

theorem relay_channel_invariant:
  assumes "channel_step\<^sup>*\<^sup>* (NewTerminalChannelWithConfig podKey cfg) c"
    and "0 < OutputBufferCount cfg" "0 \<le> OutputBufferSize cfg"
  shows "channel_ok c \<and> (pubLoops c \<noteq> [] \<longrightarrow> (\<exists>c'. publisherMessage wr data c = Some c'))"
proof -
  have "channel_initial (NewTerminalChannelWithConfig podKey cfg)"
    using assms(2,3) by (auto simp: channel_initial_def)
  then have "channel_ok c" using assms(1) by (rule channel_inv.inv_reachable)
  then show ?thesis using publisherMessage_ok by blast
qed

text \<open>
  A closed channel is final: nothing brings a publisher, a subscriber or output back, and its close callback
  does not run again.
\<close>

theorem closed_channel_is_final:
  assumes "channel_ok c" "channel_step\<^sup>*\<^sup>* (channel_Close wr c) c'"
  shows "closed c' \<and> publisher c' = None \<and> subscribers c' = [] \<and> outputBuffer c' = [] \<and> pubLoops c' = [] \<and>
    channelClosedCalls c' = 1"
proof -
  have "channel_ok c' \<and> closed c'"
    using closeInternal_ok [OF assms(1), of wr] assms(2) unfolding channel_Close_def
    by (rule channel_final.inv_reachable)
  then show ?thesis by (auto simp: channel_ok_def)
qed

text \<open>
  C23. A publisher connection that is replaced loses its role at once: only the new connection has a loop, under a
  fresh epoch; the disconnect handler of the old connection and a reconnect timer that fires late change
  nothing, and buffered output survives.
\<close>

theorem publisher_replacement:
  assumes "channel_ok c" "\<not> closed c" "publisher c \<noteq> Some conn"
  shows "publisher (SetPublisher wr conn c) = Some conn \<and>
    pubLoops (SetPublisher wr conn c) = [(conn, publisherEpoch c + 1)] \<and>
    outputBuffer (SetPublisher wr conn c) = outputBuffer c \<and>
    (\<forall>old epoch. (old, epoch) \<in> set (pubLoops c) \<longrightarrow>
      handlePublisherDisconnect wr' old epoch (SetPublisher wr conn c) = SetPublisher wr conn c) \<and>
    reconnectTimeout wr' (SetPublisher wr conn c) = SetPublisher wr conn c"
proof -
  let ?c1 = "c\<lparr>publisher := Some conn, publisherDisconnected := False,
       publisherEpoch := publisherEpoch c + 1, publisherReconnectTimer := False, pubLoops := []\<rparr>"
  from SetPublisher_new [OF assms, of wr] obtain c' where t: "trimmed ?c1 c'"
    and eq: "SetPublisher wr conn c = c'\<lparr>pubLoops := [(conn, publisherEpoch c + 1)]\<rparr>" by blast
  have "handlePublisherDisconnect wr' old epoch (SetPublisher wr conn c) = SetPublisher wr conn c"
    if "(old, epoch) \<in> set (pubLoops c)" for old epoch
    using assms(1)
  proof (cases rule: channel_ok_loops)
    case none
    then show ?thesis using that by simp
  next
    case (one p)
    then show ?thesis
      using that assms(3) trimmed_fields [OF t] unfolding eq by (intro stale_disconnect) simp
  qed
  then show ?thesis using trimmed_fields [OF t] by (simp add: eq reconnectTimeout_def)
qed

text \<open>
  A runner that drops and reconnects is invisible but for the two notifications: when writes succeed, every
  subscriber is told of the disconnection and then of the reconnection, and subscribers, buffered output and
  controller are the same as before. Without a reconnection the timer closes the channel.
\<close>

theorem publisher_reconnect_cycle:
  assumes "channel_ok c" "publisher c = Some p" "\<forall>k d. wr k d"
  shows "SetPublisher wr conn (publisherReadError wr p (publisherEpoch c) c) =
      c\<lparr>publisher := Some conn, publisherDisconnected := False, publisherReconnectTimer := False,
        publisherEpoch := publisherEpoch c + 1, pubLoops := [(conn, publisherEpoch c + 1)],
        sent := sent c @ map (\<lambda>(_, k). (k, EncodeRunnerDisconnected)) (subscribers c)
                       @ map (\<lambda>(_, k). (k, EncodeRunnerReconnected)) (subscribers c),
        closedConns := closedConns c @ [p]\<rparr> \<and>
    closed (reconnectTimeout wr (publisherReadError wr p (publisherEpoch c) c))"
proof -
  have wr: "\<And>k d. wr k d" using assms(3) by blast
  let ?e = "publisherReadError wr p (publisherEpoch c) c"
  note e = publisherReadError_current [of c p wr, OF assms(1,2) wr]
  have "(p, publisherEpoch c) \<in> set (pubLoops c)" "\<not> closed c"
    using assms(1,2) by (auto simp: channel_ok_def)
  then have ok: "channel_ok ?e" using publisherReadError_ok [OF assms(1)] by blast
  have "closed (reconnectTimeout wr ?e)"
    using closeInternal_ok [OF ok, of wr] by (simp add: reconnectTimeout_def e)
  moreover have "SetPublisher wr conn ?e = ?e\<lparr>publisher := Some conn, publisherDisconnected := False,
      publisherReconnectTimer := False, publisherEpoch := publisherEpoch ?e + 1,
      pubLoops := [(conn, publisherEpoch ?e + 1)],
      sent := sent ?e @ map (\<lambda>(_, conn). (conn, EncodeRunnerReconnected)) (subscribers ?e)\<rparr>"
    using \<open>\<not> closed c\<close> wr by (intro SetPublisher_reconnect) (simp_all add: e)
  ultimately show ?thesis by (simp add: e)
qed

text \<open>
  A broadcast writes the message to every subscriber once, in order; the subscribers whose write fails are
  exactly those that are removed.
\<close>

theorem Broadcast_exact:
  assumes "distinct (map fst (subscribers c))"
  shows "sent (Broadcast wr d c) =
      sent c @ map (\<lambda>(_, conn). (conn, d)) (filter (\<lambda>(_, conn). wr conn d) (subscribers c)) \<and>
    subscribers (Broadcast wr d c) = filter (\<lambda>(_, conn). wr conn d) (subscribers c)"
proof -
  have "filter (\<lambda>(k, _). k \<notin> set (map fst (filter (\<lambda>(_, conn). \<not> wr conn d) (subscribers c)))) (subscribers c) =
      filter (\<lambda>(_, conn). wr conn d) (subscribers c)"
    by (rule filter_cong) (auto simp: failed_keys [OF assms] simp del: set_map set_filter)
  then show ?thesis
    by (simp add: Broadcast_def broadcast_writes_exact fold_RemoveSubscriber del: set_map set_filter)
qed

text \<open>
  The output buffer keeps the most recent messages: buffering a message never panics, drops only the oldest
  ones, and drops one more only while a limit is exceeded.
\<close>

theorem bufferOutput_keeps_recent:
  assumes "channel_ok c" "\<not> closed c"
  shows "\<exists>k c'. bufferOutput d c = Some c' \<and> channel_ok c' \<and>
    outputBuffer c' = drop k (outputBuffer c) @
      (if int (length d) \<le> OutputBufferSize (config c) then [d] else []) \<and>
    (\<forall>j<k. OutputBufferCount (config c) \<le> int (length (drop j (outputBuffer c))) \<or>
      OutputBufferSize (config c) < (\<Sum>m \<leftarrow> drop j (outputBuffer c). int (length m)) + int (length d))"
proof -
  obtain c' where c': "bufferOutput d c = Some c'" "channel_ok c'" using bufferOutput_ok [OF assms, of d] by blast
  have "0 < OutputBufferCount (config c)" "outputBufferBytes c = (\<Sum>m \<leftarrow> outputBuffer c. int (length m))"
    "int (length (outputBuffer c)) \<le> OutputBufferCount (config c)"
    using assms(1) by (simp_all add: channel_ok_def)
  from evict_props [OF this, of "OutputBufferSize (config c)" "int (length d)"] obtain k where
    k: "evict (OutputBufferCount (config c)) (OutputBufferSize (config c)) (int (length d)) (outputBuffer c)
      (outputBufferBytes c) = Some (drop k (outputBuffer c), \<Sum>m \<leftarrow> drop k (outputBuffer c). int (length m))"
    "\<forall>j<k. OutputBufferCount (config c) \<le> int (length (drop j (outputBuffer c))) \<or>
      OutputBufferSize (config c) < (\<Sum>m \<leftarrow> drop j (outputBuffer c). int (length m)) + int (length d)" by blast
  have "outputBuffer c' = drop k (outputBuffer c) @
      (if int (length d) \<le> OutputBufferSize (config c) then [d] else [])"
    using c'(1) k(1) by (auto simp: bufferOutput_def)
  then show ?thesis using c' k(2) by blast
qed

text \<open>
  C8. A browser that joins late catches up: after a snapshot and the output that followed it, as long as they fit
  into the buffer, a new subscriber is sent exactly the snapshot and that output, in order.
\<close>

theorem late_subscriber_catches_up:
  assumes "channel_ok c" "publisher c = Some p" "msg_is MsgTypeSnapshot snap"
    and "\<forall>d \<in> set outs. msg_is MsgTypeOutput d"
    and "int (length (snap # outs)) \<le> OutputBufferCount (config c)"
    and "(\<Sum>m \<leftarrow> snap # outs. int (length m)) \<le> OutputBufferSize (config c)"
    and "\<forall>d. wr' conn d"
  shows "\<exists>c'. publish wr (snap # outs) c = Some c' \<and>
    sent (AddSubscriber wr' sid conn c') = sent c' @ map (Pair conn) (snap # outs) \<and>
    map_of (subscribers (AddSubscriber wr' sid conn c')) sid = Some conn"
proof -
  have "\<not> closed c" using assms(1,2) by (auto simp: channel_ok_def)
  from publish_snapshot [OF assms(3,4,1) this assms(5,6), of wr] obtain c' where
    c': "publish wr (snap # outs) c = Some c'" "outputBuffer c' = snap # outs" "channel_ok c'"
    "publisher c' = Some p" "\<not> closed c'" using assms(2) by auto
  have "\<not> publisherDisconnected c'" using c'(3,4) by (auto simp: channel_ok_def)
  then have "AddSubscriber wr' sid conn c' =
      c'\<lparr>subscribers := AList.update sid conn (subscribers c'), keepAliveTimer := False,
        subLoops := subLoops c' @ [(sid, conn)], sent := sent c' @ map (Pair conn) (snap # outs)\<rparr>"
    using c' assms(7) by (simp add: AddSubscriber_def addSubscriberInternal_def replay_sends Let_def)
  then show ?thesis using c'(1) by (simp add: update_conv)
qed

text \<open>
  C24. Input control is exclusive: while a browser holds it, input and resize messages of any other browser change
  nothing, and no message of another browser takes the control away. Messages of the controller go to the
  runner unchanged.
\<close>

theorem input_control_is_exclusive:
  assumes "controllerID c \<noteq> []" "sid \<noteq> controllerID c"
    and "msg_is MsgTypeInput input \<or> msg_is MsgTypeResize input"
  shows "subscriberMessage unmarshal marshal wr sid conn input c = c \<and>
    controllerID (subscriberMessage unmarshal marshal wr sid conn data c) = controllerID c \<and>
    subscriberMessage unmarshal marshal wr (controllerID c) conn input c = writeToPublisher wr input c"
proof -
  have w: "controllerID (snd (writeToConn wr k d c)) = controllerID c" for k d c by (simp add: writeToConn_def)
  have r: "snd (controlResponse sid req c) = c" for req
    using assms(1,2) by (auto simp: controlResponse_def RequestControl_def ReleaseControl_def Let_def)
  then have "controllerID (handleControlRequest unmarshal marshal wr sid p c) = controllerID c" for p
    using r w by (simp add: handleControlRequest_def Let_def case_prod_unfold split: sum.split option.split)
  then have "controllerID (subscriberMessage unmarshal marshal wr sid conn data c) = controllerID c"
    using w by (simp add: subscriberMessage_def writeToPublisher_def split: sum.split option.split)
  then show ?thesis
    using assms
    by (auto simp: msg_is_def subscriberMessage_def CanInput_def MsgTypeInput_def MsgTypeResize_def
        MsgTypeControl_def MsgTypePing_def split: sum.splits)
qed

section \<open>Witnesses\<close>

text \<open>A channel with a publisher, and one with a publisher and two browsers.\<close>

definition live_channel :: channel where
  "live_channel = SetPublisher (\<lambda>_ _. True) 7 (NewTerminalChannelWithConfig ''pod'' DefaultChannelConfig)"

definition shared_channel :: channel where
  "shared_channel = AddSubscriber (\<lambda>_ _. True) ''b'' 9 (AddSubscriber (\<lambda>_ _. True) ''a'' 8 live_channel)"

lemma live_channel_ok: "channel_ok live_channel" "publisher live_channel = Some 7" "\<not> closed live_channel"
  "publisher live_channel \<noteq> Some 11" "pubLoops live_channel \<noteq> []"
  by code_simp+

lemma shared_channel_ok: "channel_ok shared_channel" "publisher shared_channel = Some 7"
  "distinct (map fst (subscribers shared_channel))"
  by code_simp+

theorem relay_channel_invariant_witness:
  "channel_step\<^sup>*\<^sup>* (NewTerminalChannelWithConfig ''pod'' DefaultChannelConfig) live_channel \<and>
   channel_ok live_channel \<and> (\<exists>c'. publisherMessage (\<lambda>_ _. False) [2, 65] live_channel = Some c')"
proof -
  have "channel_step\<^sup>*\<^sup>* (NewTerminalChannelWithConfig ''pod'' DefaultChannelConfig) live_channel"
    unfolding live_channel_def by (intro r_into_rtranclp ch_set_publisher)
  then show ?thesis
    using relay_channel_invariant [of "''pod''" DefaultChannelConfig live_channel "\<lambda>_ _. False" "[2, 65]"]
      live_channel_ok(5) by (simp add: DefaultChannelConfig_def)
qed

theorem closed_channel_is_final_witness:
  "closed (SetPublisher (\<lambda>_ _. True) 11 (channel_Close (\<lambda>_ _. True) shared_channel)) \<and>
   channelClosedCalls (SetPublisher (\<lambda>_ _. True) 11 (channel_Close (\<lambda>_ _. True) shared_channel)) = 1"
  using closed_channel_is_final
    [OF shared_channel_ok(1) r_into_rtranclp [of channel_step, OF ch_set_publisher]] by blast

theorem publisher_replacement_witness:
  "publisher live_channel = Some 7 \<and> publisher (SetPublisher (\<lambda>_ _. True) 11 live_channel) = Some 11 \<and>
   handlePublisherDisconnect (\<lambda>_ _. True) 7 1 (SetPublisher (\<lambda>_ _. True) 11 live_channel) =
     SetPublisher (\<lambda>_ _. True) 11 live_channel"
proof -
  have "(7, 1) \<in> set (pubLoops live_channel)" by code_simp
  then show ?thesis
    using publisher_replacement [OF live_channel_ok(1,3,4), of "\<lambda>_ _. True" "\<lambda>_ _. True"] live_channel_ok(2)
    by blast
qed

theorem publisher_reconnect_cycle_witness:
  "closed (reconnectTimeout (\<lambda>_ _. True) (publisherReadError (\<lambda>_ _. True) 7 (publisherEpoch shared_channel) shared_channel)) \<and>
   subscribers (SetPublisher (\<lambda>_ _. True) 11 (publisherReadError (\<lambda>_ _. True) 7 (publisherEpoch shared_channel) shared_channel))
     = [(''a'', 8), (''b'', 9)]"
proof -
  have "subscribers shared_channel = [(''a'', 8), (''b'', 9)]" by code_simp
  then show ?thesis
    using publisher_reconnect_cycle [OF shared_channel_ok(1,2), of "\<lambda>_ _. True" 11] by simp
qed

theorem Broadcast_exact_witness:
  "subscribers (Broadcast (\<lambda>k _. k = 9) [2, 65] shared_channel) = [(''b'', 9)]"
proof -
  have "filter (\<lambda>(_, k). k = 9) (subscribers shared_channel) = [(''b'', 9)]" by code_simp
  then show ?thesis using Broadcast_exact [OF shared_channel_ok(3), of "\<lambda>k _. k = 9" "[2, 65]"] by simp
qed

theorem bufferOutput_keeps_recent_witness:
  "\<exists>k c'. bufferOutput [2, 65] live_channel = Some c' \<and>
     outputBuffer c' = drop k (outputBuffer live_channel) @ [[2, 65]]"
proof -
  have "int (length [2::byte, 65]) \<le> OutputBufferSize (config live_channel)" by code_simp
  then show ?thesis
    using bufferOutput_keeps_recent [OF live_channel_ok(1,3), of "[2, 65]"] by auto
qed

theorem late_subscriber_catches_up_witness:
  "\<exists>c'. publish (\<lambda>_ _. True) [[1, 65], [2, 66], [2, 67]] live_channel = Some c' \<and>
     sent (AddSubscriber (\<lambda>_ _. True) ''c'' 12 c') = sent c' @ [(12, [1, 65]), (12, [2, 66]), (12, [2, 67])]"
proof -
  have "msg_is MsgTypeSnapshot [1, 65]" "\<forall>d \<in> set [[2, 66], [2, 67]]. msg_is MsgTypeOutput d"
    "int (length ([1::byte, 65] # [[2, 66], [2, 67]])) \<le> OutputBufferCount (config live_channel)"
    "(\<Sum>m \<leftarrow> [1::byte, 65] # [[2, 66], [2, 67]]. int (length m)) \<le> OutputBufferSize (config live_channel)"
    by code_simp+
  from late_subscriber_catches_up [OF live_channel_ok(1,2) this, of "\<lambda>_ _. True" 12 "\<lambda>_ _. True" "''c''"]
  show ?thesis by auto
qed

theorem input_control_is_exclusive_witness:
  "subscriberMessage (\<lambda>_. Inl ()) (\<lambda>_. Inl ()) (\<lambda>_ _. True) ''b'' 9 [3, 65] (snd (RequestControl ''a'' shared_channel)) =
     snd (RequestControl ''a'' shared_channel)"
proof -
  let ?c = "snd (RequestControl ''a'' shared_channel)"
  have "controllerID ?c \<noteq> []" "''b'' \<noteq> controllerID ?c" "msg_is MsgTypeInput [3, 65] \<or> msg_is MsgTypeResize [3, 65]"
    by code_simp+
  from input_control_is_exclusive [OF this, of "\<lambda>_. Inl ()" "\<lambda>_. Inl ()" "\<lambda>_ _. True"] show ?thesis by blast
qed

section \<open>Limits of the code\<close>

text \<open>A configuration with a limit of no messages makes the first output of a runner panic.\<close>

theorem zero_buffer_count_panics:
  "OutputBufferCount (config c) \<le> 0 \<Longrightarrow> bufferOutput d c = None"
proof -
  have "n \<le> 0 \<Longrightarrow> evict n b k buf used = None" for n b k buf used
    by (induction n b k buf used rule: evict.induct) auto
  then show "OutputBufferCount (config c) \<le> 0 \<Longrightarrow> bufferOutput d c = None" by (simp add: bufferOutput_def)
qed

text \<open>
  The loop of a browser that was removed after a failed write may still hold a message it has read. If that
  is a control request, the control goes to a browser that is gone: its read error returns early because it
  is no subscriber any more, and every other browser stays locked out.
\<close>

theorem removed_subscriber_keeps_control:
  "controllerID (subscriberReadError ''a'' 8
     (handleControlRequest (\<lambda>_. Inr \<lparr>Action = ''request'', BrowserID = [], Controller = []\<rparr>) (\<lambda>_. Inl ())
       (\<lambda>_ _. True) ''a'' [] (Broadcast (\<lambda>k _. k = 9) [2, 65] shared_channel))) = ''a'' \<and>
   \<not> CanInput ''b'' (subscriberReadError ''a'' 8
     (handleControlRequest (\<lambda>_. Inr \<lparr>Action = ''request'', BrowserID = [], Controller = []\<rparr>) (\<lambda>_. Inl ())
       (\<lambda>_ _. True) ''a'' [] (Broadcast (\<lambda>k _. k = 9) [2, 65] shared_channel)))"
  by code_simp

end
