(* ===== verification/Relay_Auth.thy ===== *)
theory Relay_Auth
  imports Go_Prelude
begin

text \<open>
  The relay's access tokens: \<^verbatim>\<open>relay/internal/auth/token.go\<close>.

  The JSON web token library is not part of the repository. It enters as two parameters: \<open>parse\<close> stands for
  \<open>jwt.ParseWithClaims\<close>, which asks a key function for the key of the signing method named in the token's
  header, and \<open>sign\<close> for \<open>jwt.NewWithClaims\<close> with HS256 and \<open>SignedString\<close>. What the code relies on is the
  predicate \<open>jwt_lawful\<close>. Times are integers; \<open>numericDate\<close> stands for \<open>jwt.NewNumericDate\<close>.
\<close>

section \<open>Tokens\<close>

record relay_claims =
  claim_PodKey :: string
  RunnerID :: "64 word"
  UserID :: "64 word"
  OrgID :: "64 word"
  ExpiresAt :: int
  IssuedAt :: int
  NotBefore :: int
  Issuer :: string
  Subject :: string

datatype auth_error = ErrInvalidToken | ErrTokenExpired

text \<open>The signing methods a header can name, as far as the code distinguishes them.\<close>

datatype signing_method = SigningMethodHMAC | OtherSigningMethod string

text \<open>The errors of the library: expiry is the one the code asks for.\<close>

datatype jwt_error = JwtTokenExpired | JwtKeyError auth_error | JwtOtherError

text \<open>A parsed token: its claims and the flag \<open>Valid\<close>.\<close>

type_synonym parser = "string \<Rightarrow> (signing_method \<Rightarrow> auth_error + string) \<Rightarrow> jwt_error + relay_claims \<times> bool"

record token_validator =
  secretKey :: string
  validator_issuer :: string

definition IsRunnerToken :: "relay_claims \<Rightarrow> bool" where
  "IsRunnerToken c \<longleftrightarrow> UserID c = 0"

definition IsBrowserToken :: "relay_claims \<Rightarrow> bool" where
  "IsBrowserToken c \<longleftrightarrow> UserID c \<noteq> 0"

text \<open>\<open>NewTokenValidator\<close> panics on an empty secret.\<close>

definition NewTokenValidator :: "string \<Rightarrow> string \<Rightarrow> token_validator option" where
  "NewTokenValidator secret iss =
     (if secret = [] then None else Some \<lparr>secretKey = secret, validator_issuer = iss\<rparr>)"

text \<open>The key function that \<open>ValidateToken\<close> passes to the library.\<close>

definition keyFunc :: "token_validator \<Rightarrow> signing_method \<Rightarrow> auth_error + string" where
  "keyFunc v method = (case method of SigningMethodHMAC \<Rightarrow> Inr (secretKey v) | OtherSigningMethod _ \<Rightarrow> Inl ErrInvalidToken)"

definition ValidateToken :: "parser \<Rightarrow> token_validator \<Rightarrow> string \<Rightarrow> auth_error + relay_claims" where
  "ValidateToken parse v tokenString =
     (case parse tokenString (keyFunc v) of
        Inl err \<Rightarrow> Inl (if err = JwtTokenExpired then ErrTokenExpired else ErrInvalidToken)
      | Inr (claims, valid) \<Rightarrow>
          if \<not> valid then Inl ErrInvalidToken
          else if validator_issuer v \<noteq> [] \<and> Issuer claims \<noteq> validator_issuer v then Inl ErrInvalidToken
          else Inr claims)"

definition GenerateToken ::
  "(relay_claims \<Rightarrow> string \<Rightarrow> 'e + string) \<Rightarrow> (int \<Rightarrow> int) \<Rightarrow> int \<Rightarrow> string \<Rightarrow> string \<Rightarrow> string \<Rightarrow> 64 word \<Rightarrow>
     64 word \<Rightarrow> 64 word \<Rightarrow> int \<Rightarrow> 'e + string" where
  "GenerateToken sign numericDate now secret iss podKey runnerID userID orgID expiry =
     sign \<lparr>claim_PodKey = podKey, RunnerID = runnerID, UserID = userID, OrgID = orgID,
       ExpiresAt = numericDate (now + expiry), IssuedAt = numericDate now, NotBefore = numericDate now,
       Issuer = iss, Subject = podKey\<rparr> secret"

section \<open>What the code relies on\<close>

text \<open>
  The documented behaviour of the library at time \<open>now\<close>: parsing asks the key function for the method in the
  header and fails when it has no key. A token signed with HS256 is accepted with its claims exactly under its
  signing key and within its period of validity; an expired token is reported as expired.
\<close>

definition jwt_lawful :: "parser \<Rightarrow> (relay_claims \<Rightarrow> string \<Rightarrow> 'e + string) \<Rightarrow> int \<Rightarrow> bool" where
  "jwt_lawful parse sign now \<longleftrightarrow>
     (\<forall>claims key t kf. sign claims key = Inr t \<longrightarrow>
        parse t kf =
          (case kf SigningMethodHMAC of
             Inl e \<Rightarrow> Inl (JwtKeyError e)
           | Inr k \<Rightarrow>
               if k \<noteq> key then Inl JwtOtherError
               else if ExpiresAt claims \<le> now then Inl JwtTokenExpired
               else if now < NotBefore claims then Inl JwtOtherError
               else Inr (claims, True)))"

section \<open>Properties\<close>

text \<open>
  C34. A token the backend generates is accepted by a validator with the same secret exactly while it is valid
  and the issuer matches, with the claims it was generated from; with another secret it is never accepted.
\<close>

theorem token_roundtrip:
  assumes "jwt_lawful parse sign now" "NewTokenValidator secret iss = Some v"
    and "GenerateToken sign numericDate created key issued podKey runnerID userID orgID expiry = Inr t"
    and "numericDate created \<le> now"
  shows "ValidateToken parse v t =
    (if secret \<noteq> key then Inl ErrInvalidToken
     else if numericDate (created + expiry) \<le> now then Inl ErrTokenExpired
     else if iss \<noteq> [] \<and> issued \<noteq> iss then Inl ErrInvalidToken
     else Inr \<lparr>claim_PodKey = podKey, RunnerID = runnerID, UserID = userID, OrgID = orgID,
       ExpiresAt = numericDate (created + expiry), IssuedAt = numericDate created,
       NotBefore = numericDate created, Issuer = issued, Subject = podKey\<rparr>)"
proof -
  have v: "v = \<lparr>secretKey = secret, validator_issuer = iss\<rparr>"
    using assms(2) by (simp add: NewTokenValidator_def split: if_splits)
  from assms(1,3) have "parse t kf =
      (case kf SigningMethodHMAC of
         Inl e \<Rightarrow> Inl (JwtKeyError e)
       | Inr k \<Rightarrow>
           if k \<noteq> key then Inl JwtOtherError
           else if numericDate (created + expiry) \<le> now then Inl JwtTokenExpired
           else if now < numericDate created then Inl JwtOtherError
           else Inr (\<lparr>claim_PodKey = podKey, RunnerID = runnerID, UserID = userID, OrgID = orgID,
             ExpiresAt = numericDate (created + expiry), IssuedAt = numericDate created,
             NotBefore = numericDate created, Issuer = issued, Subject = podKey\<rparr>, True))" for kf
    unfolding jwt_lawful_def GenerateToken_def by fastforce
  then show ?thesis using assms(4) by (simp add: ValidateToken_def keyFunc_def v)
qed

section \<open>Witnesses\<close>

text \<open>A library that can sign one token.\<close>

definition sample_claims :: relay_claims where
  "sample_claims = \<lparr>claim_PodKey = ''pod'', RunnerID = 5, UserID = 0, OrgID = 2, ExpiresAt = 160, IssuedAt = 100,
     NotBefore = 100, Issuer = ''mesh'', Subject = ''pod''\<rparr>"

definition sample_sign :: "relay_claims \<Rightarrow> string \<Rightarrow> unit + string" where
  "sample_sign claims key = (if claims = sample_claims \<and> key = ''s3cret'' then Inr ''token'' else Inl ())"

definition sample_parse :: parser where
  "sample_parse t kf =
     (if t \<noteq> ''token'' then Inl JwtOtherError
      else case kf SigningMethodHMAC of
        Inl e \<Rightarrow> Inl (JwtKeyError e)
      | Inr k \<Rightarrow> if k \<noteq> ''s3cret'' then Inl JwtOtherError else Inr (sample_claims, True))"

lemma sample_lawful: "jwt_lawful sample_parse sample_sign 120"
  unfolding jwt_lawful_def by (auto simp: sample_sign_def sample_parse_def sample_claims_def split: sum.split)

theorem token_roundtrip_witness:
  "ValidateToken sample_parse \<lparr>secretKey = ''s3cret'', validator_issuer = ''mesh''\<rparr> ''token'' = Inr sample_claims"
proof -
  have "NewTokenValidator ''s3cret'' ''mesh'' = Some \<lparr>secretKey = ''s3cret'', validator_issuer = ''mesh''\<rparr>"
    by (simp add: NewTokenValidator_def)
  moreover have "GenerateToken sample_sign id 100 ''s3cret'' ''mesh'' ''pod'' 5 0 2 60 = Inr ''token''"
    by (simp add: GenerateToken_def sample_sign_def sample_claims_def)
  moreover have "id (100::int) \<le> 120" by simp
  ultimately show ?thesis
    using token_roundtrip [OF sample_lawful] by (fastforce simp: sample_claims_def)
qed

end
