(* ===== verification/Relay_Manager.thy ===== *)
theory Relay_Manager
  imports Relay_Channel Relay_Auth
begin

text \<open>
  The relay's registry of channels, \<^verbatim>\<open>relay/internal/channel/channel_manager.go\<close>, and the WebSocket endpoints
  in front of it, \<^verbatim>\<open>relay/internal/server/handler.go\<close>.

  Channels are objects that outlive their entry in the registry, so the state holds all of them in the list
  \<open>objects\<close> and the registry maps a pod key to an index. The manager works under its lock and calls a channel
  only after releasing it. Each handler is therefore given twice: its part under the lock, which returns the
  calls it will make (\<open>..._locked\<close>), and the whole handler, which makes them at once. The step relation uses the
  first form and runs the calls later, so it has the interleavings of concurrent handlers. A channel that closes
  is not removed from the registry in the same step: \<open>closeInternal\<close> calls \<open>onChannelClosed\<close> at its end, without
  the manager's lock, so the goroutine that closed the channel has the removal as its next call.
  \<open>closeInternal\<close> up to that call is one step: it runs under the channel's \<open>publisherReplaceMu\<close> after it has set
  \<open>closed\<close>, and what the manager can see of it meanwhile is a registered channel that is closed.
\<close>

section \<open>State\<close>

record manager_config =
  MaxSubscribersPerPod :: int
  PendingConnectionTimeout :: int
  mgrOutputBufferSize :: int
  mgrOutputBufferCount :: int

definition DefaultChannelManagerConfig :: manager_config where
  "DefaultChannelManagerConfig =
     \<lparr>MaxSubscribersPerPod = 10, PendingConnectionTimeout = 60 * 1000000000,
      mgrOutputBufferSize = 256 * 1024, mgrOutputBufferCount = 200\<rparr>"

text \<open>
  A pending publisher is its connection and creation time; a pending subscriber has its identifier too.
  \<open>droppedConns\<close> lists the connections the manager itself has closed.
\<close>

record manager =
  channels :: "(string \<times> nat) list"
  pendingPublishers :: "(string \<times> nat \<times> int) list"
  pendingSubscribers :: "(string \<times> nat \<times> string \<times> int) list"
  mgr_config :: manager_config
  stopped :: bool
  objects :: "channel list"
  droppedConns :: "nat list"

datatype channel_call =
    CallSetPublisher nat
  | CallAddSubscriber string nat
  | CallAddSubscriberWithLimit string nat int
  | CallClose
  | CallOnClosed

definition NewChannelManagerWithConfig :: "manager_config \<Rightarrow> manager" where
  "NewChannelManagerWithConfig cfg =
     \<lparr>channels = [], pendingPublishers = [], pendingSubscribers = [], mgr_config = cfg, stopped = False,
      objects = [], droppedConns = []\<rparr>"

definition buildChannelConfig :: "manager \<Rightarrow> channel_config" where
  "buildChannelConfig m =
     \<lparr>OutputBufferSize = mgrOutputBufferSize (mgr_config m), OutputBufferCount = mgrOutputBufferCount (mgr_config m)\<rparr>"

definition GetChannel :: "string \<Rightarrow> manager \<Rightarrow> channel option" where
  "GetChannel podKey m = map_option (nth (objects m)) (map_of (channels m) podKey)"

section \<open>Calls of a channel\<close>

definition onChannelClosed :: "string \<Rightarrow> manager \<Rightarrow> manager" where
  "onChannelClosed podKey m = m\<lparr>channels := AList.delete podKey (channels m)\<rparr>"

text \<open>
  A call changes the state of a channel (\<open>put_channel\<close>). If it has closed the channel, the callback of the
  channel is still to run: \<open>closed_calls\<close> is the call \<open>CallOnClosed\<close> the same goroutine makes next.
\<close>

definition put_channel :: "nat \<Rightarrow> channel \<Rightarrow> manager \<Rightarrow> manager" where
  "put_channel i c m = m\<lparr>objects := (objects m)[i := c]\<rparr>"

definition closed_calls :: "nat \<Rightarrow> channel \<Rightarrow> manager \<Rightarrow> (nat \<times> channel_call) list" where
  "closed_calls i c m = (if channelClosedCalls (objects m ! i) < channelClosedCalls c then [(i, CallOnClosed)] else [])"

fun call_channel :: "write_ok \<Rightarrow> channel_call \<Rightarrow> channel \<Rightarrow> (channel_error + unit) \<times> channel" where
  "call_channel wr (CallSetPublisher conn) c = (Inr (), SetPublisher wr conn c)"
| "call_channel wr (CallAddSubscriber sid conn) c = (Inr (), AddSubscriber wr sid conn c)"
| "call_channel wr (CallAddSubscriberWithLimit sid conn n) c = AddSubscriberWithLimit wr sid conn n c"
| "call_channel wr CallClose c = (Inr (), channel_Close wr c)"
| "call_channel wr CallOnClosed c = (Inr (), c)"

text \<open>One call of a handler: its result, the callback it leaves to run, and the state.\<close>

definition call_step ::
  "write_ok \<Rightarrow> nat \<times> channel_call \<Rightarrow> manager \<Rightarrow> (channel_error + unit) \<times> (nat \<times> channel_call) list \<times> manager" where
  "call_step wr = (\<lambda>(i, call) m.
     if call = CallOnClosed then (Inr (), [], onChannelClosed (PodKey (objects m ! i)) m)
     else let (res, c) = call_channel wr call (objects m ! i) in (res, closed_calls i c m, put_channel i c m))"

text \<open>A call and the callback it causes, when nothing else runs in between.\<close>

definition run_call :: "write_ok \<Rightarrow> nat \<times> channel_call \<Rightarrow> manager \<Rightarrow> (channel_error + unit) \<times> manager" where
  "run_call wr call m =
     (let (res, callbacks, m) = call_step wr call m
      in (res, fold (\<lambda>callback m. snd (snd (call_step wr callback m))) callbacks m))"

fun run_calls :: "write_ok \<Rightarrow> (nat \<times> channel_call) list \<Rightarrow> manager \<Rightarrow> (channel_error + unit) \<times> manager" where
  "run_calls wr [] m = (Inr (), m)"
| "run_calls wr (call # calls) m =
     (case run_call wr call m of (Inl e, m) \<Rightarrow> (Inl e, m) | (Inr _, m) \<Rightarrow> run_calls wr calls m)"

section \<open>Connecting\<close>

text \<open>Closing a connection, and closing it after a close frame with a reason.\<close>

definition drop_conn :: "nat \<Rightarrow> manager \<Rightarrow> manager" where
  "drop_conn conn m = m\<lparr>droppedConns := droppedConns m @ [conn]\<rparr>"

definition closeWithReason :: "nat \<Rightarrow> manager \<Rightarrow> manager" where
  "closeWithReason conn m = drop_conn conn m"

definition create_channel :: "string \<Rightarrow> manager \<Rightarrow> manager" where
  "create_channel podKey m =
     m\<lparr>objects := objects m @ [NewTerminalChannelWithConfig podKey (buildChannelConfig m)],
       channels := AList.update podKey (length (objects m)) (channels m)\<rparr>"

definition HandlePublisherConnect_locked ::
  "int \<Rightarrow> string \<Rightarrow> nat \<Rightarrow> manager \<Rightarrow> (nat \<times> channel_call) list \<times> manager" where
  "HandlePublisherConnect_locked now podKey conn m =
     (case map_of (channels m) podKey of
        Some i \<Rightarrow> ([(i, CallSetPublisher conn)], m)
      | None \<Rightarrow>
          (case map_of (pendingSubscribers m) podKey of
             Some (subConn, sid, _) \<Rightarrow>
               ([(length (objects m), CallSetPublisher conn), (length (objects m), CallAddSubscriber sid subConn)],
                create_channel podKey (m\<lparr>pendingSubscribers := AList.delete podKey (pendingSubscribers m)\<rparr>))
           | None \<Rightarrow>
               let m = (case map_of (pendingPublishers m) podKey of
                          None \<Rightarrow> m | Some (old, _) \<Rightarrow> closeWithReason old m)
               in ([], m\<lparr>pendingPublishers := AList.update podKey (conn, now) (pendingPublishers m)\<rparr>)))"

definition HandlePublisherConnect :: "write_ok \<Rightarrow> int \<Rightarrow> string \<Rightarrow> nat \<Rightarrow> manager \<Rightarrow> (channel_error + unit) \<times> manager" where
  "HandlePublisherConnect wr now podKey conn m =
     (let (calls, m) = HandlePublisherConnect_locked now podKey conn m in run_calls wr calls m)"

definition HandleSubscriberConnect_locked ::
  "int \<Rightarrow> string \<Rightarrow> string \<Rightarrow> nat \<Rightarrow> manager \<Rightarrow> (nat \<times> channel_call) list \<times> manager" where
  "HandleSubscriberConnect_locked now podKey sid conn m =
     (case map_of (channels m) podKey of
        Some i \<Rightarrow> ([(i, CallAddSubscriberWithLimit sid conn (MaxSubscribersPerPod (mgr_config m)))], m)
      | None \<Rightarrow>
          (case map_of (pendingPublishers m) podKey of
             Some (pubConn, _) \<Rightarrow>
               ([(length (objects m), CallSetPublisher pubConn), (length (objects m), CallAddSubscriber sid conn)],
                create_channel podKey (m\<lparr>pendingPublishers := AList.delete podKey (pendingPublishers m)\<rparr>))
           | None \<Rightarrow>
               let m = (case map_of (pendingSubscribers m) podKey of
                          None \<Rightarrow> m | Some (old, _) \<Rightarrow> closeWithReason old m)
               in ([], m\<lparr>pendingSubscribers := AList.update podKey (conn, sid, now) (pendingSubscribers m)\<rparr>)))"

definition HandleSubscriberConnect ::
  "write_ok \<Rightarrow> int \<Rightarrow> string \<Rightarrow> string \<Rightarrow> nat \<Rightarrow> manager \<Rightarrow> (channel_error + unit) \<times> manager" where
  "HandleSubscriberConnect wr now podKey sid conn m =
     (let (calls, m) = HandleSubscriberConnect_locked now podKey sid conn m in run_calls wr calls m)"

section \<open>Closing and cleaning up\<close>

definition CloseChannel_locked :: "string \<Rightarrow> manager \<Rightarrow> (nat \<times> channel_call) list \<times> manager" where
  "CloseChannel_locked podKey m =
     (case map_of (channels m) podKey of
        None \<Rightarrow> ([], m)
      | Some i \<Rightarrow> ([(i, CallClose)], m\<lparr>channels := AList.delete podKey (channels m)\<rparr>))"

definition CloseChannel :: "write_ok \<Rightarrow> string \<Rightarrow> manager \<Rightarrow> manager" where
  "CloseChannel wr podKey m = (let (calls, m) = CloseChannel_locked podKey m in snd (run_calls wr calls m))"

text \<open>One round of \<open>cleanupPendingConnections\<close>.\<close>

definition cleanupPending :: "int \<Rightarrow> manager \<Rightarrow> manager" where
  "cleanupPending now m =
     (let stale = (\<lambda>createdAt. now - createdAt > PendingConnectionTimeout (mgr_config m))
      in m\<lparr>pendingPublishers := filter (\<lambda>(_, _, t). \<not> stale t) (pendingPublishers m),
           pendingSubscribers := filter (\<lambda>(_, _, _, t). \<not> stale t) (pendingSubscribers m),
           droppedConns := droppedConns m
             @ map (\<lambda>(_, conn, _). conn) (filter (\<lambda>(_, _, t). stale t) (pendingPublishers m))
             @ map (\<lambda>(_, conn, _). conn) (filter (\<lambda>(_, _, _, t). stale t) (pendingSubscribers m))\<rparr>)"

definition manager_Close_locked :: "manager \<Rightarrow> (nat \<times> channel_call) list \<times> manager" where
  "manager_Close_locked m =
     (map (\<lambda>(_, i). (i, CallClose)) (channels m),
      m\<lparr>stopped := True, channels := [], pendingPublishers := [], pendingSubscribers := [],
        droppedConns := droppedConns m @ map (\<lambda>(_, conn, _). conn) (pendingPublishers m)
          @ map (\<lambda>(_, conn, _). conn) (pendingSubscribers m)\<rparr>)"

definition manager_Close :: "write_ok \<Rightarrow> manager \<Rightarrow> manager" where
  "manager_Close wr m = (let (calls, m) = manager_Close_locked m in snd (run_calls wr calls m))"

record channel_stats =
  ActiveChannels :: nat
  TotalSubscribers :: nat
  PendingPublishers :: nat
  PendingSubscribers :: nat

definition Stats :: "manager \<Rightarrow> channel_stats" where
  "Stats m =
     \<lparr>ActiveChannels = length (channels m),
      TotalSubscribers = (\<Sum>(_, i) \<leftarrow> channels m. length (subscribers (objects m ! i))),
      PendingPublishers = length (pendingPublishers m), PendingSubscribers = length (pendingSubscribers m)\<rparr>"

section \<open>The WebSocket endpoints\<close>

text \<open>
  The request is its query parameter \<open>token\<close>; \<open>upgrade\<close> is the connection \<open>upgrader.Upgrade\<close> returns, if any;
  \<open>sid\<close> is the fresh UUID of a browser.
\<close>

datatype ws_response = HttpError int string | UpgradeFailed | Accepted | Rejected channel_error

definition HandleRunnerWS ::
  "bool \<Rightarrow> parser \<Rightarrow> token_validator \<Rightarrow> nat option \<Rightarrow> write_ok \<Rightarrow> int \<Rightarrow> string \<Rightarrow> manager \<Rightarrow> ws_response \<times> manager" where
  "HandleRunnerWS accepting parse v upgrade wr now tokenStr m =
     (if \<not> accepting then (HttpError 503 ''server shutting down'', m)
      else if tokenStr = [] then (HttpError 401 ''token required'', m)
      else case ValidateToken parse v tokenStr of
        Inl _ \<Rightarrow> (HttpError 401 ''invalid token'', m)
      | Inr claims \<Rightarrow>
          if UserID claims \<noteq> 0 then (HttpError 401 ''invalid token type'', m)
          else if claim_PodKey claims = [] then (HttpError 400 ''invalid token claims'', m)
          else case upgrade of
            None \<Rightarrow> (UpgradeFailed, m)
          | Some conn \<Rightarrow>
              (case HandlePublisherConnect wr now (claim_PodKey claims) conn m of
                 (Inl e, m) \<Rightarrow> (Rejected e, drop_conn conn m)
               | (Inr _, m) \<Rightarrow> (Accepted, m)))"

definition HandleBrowserWS ::
  "bool \<Rightarrow> parser \<Rightarrow> token_validator \<Rightarrow> nat option \<Rightarrow> write_ok \<Rightarrow> int \<Rightarrow> string \<Rightarrow> string \<Rightarrow> manager \<Rightarrow>
     ws_response \<times> manager" where
  "HandleBrowserWS accepting parse v upgrade wr now sid tokenStr m =
     (if \<not> accepting then (HttpError 503 ''server shutting down'', m)
      else if tokenStr = [] then (HttpError 401 ''token required'', m)
      else case ValidateToken parse v tokenStr of
        Inl _ \<Rightarrow> (HttpError 401 ''invalid token'', m)
      | Inr claims \<Rightarrow>
          if UserID claims = 0 then (HttpError 401 ''invalid token type'', m)
          else if claim_PodKey claims = [] then (HttpError 400 ''invalid token claims'', m)
          else case upgrade of
            None \<Rightarrow> (UpgradeFailed, m)
          | Some conn \<Rightarrow>
              (case HandleSubscriberConnect wr now (claim_PodKey claims) sid conn m of
                 (Inl e, m) \<Rightarrow> (Rejected e, drop_conn conn m)
               | (Inr _, m) \<Rightarrow> (Accepted, m)))"

section \<open>Steps\<close>

text \<open>
  The state of the step relation is the manager and the calls its goroutines still have to make, one list for
  each handler that is running and for each channel goroutine whose event has closed its channel.
\<close>

type_synonym mgr_state = "manager \<times> (nat \<times> channel_call) list list"

inductive mgr_step :: "mgr_state \<Rightarrow> mgr_state \<Rightarrow> bool" where
  mgr_publisher:
    "HandlePublisherConnect_locked now podKey conn m = (calls, m') \<Longrightarrow> mgr_step (m, ts) (m', ts @ [calls])"
| mgr_subscriber:
    "HandleSubscriberConnect_locked now podKey sid conn m = (calls, m') \<Longrightarrow> mgr_step (m, ts) (m', ts @ [calls])"
| mgr_close_channel:
    "CloseChannel_locked podKey m = (calls, m') \<Longrightarrow> mgr_step (m, ts) (m', ts @ [calls])"
| mgr_close:
    "manager_Close_locked m = (calls, m') \<Longrightarrow> mgr_step (m, ts) (m', ts @ [calls])"
| mgr_call:
    "call_step wr call m = (res, callbacks, m') \<Longrightarrow>
     mgr_step (m, ts1 @ [call # calls] @ ts2) (m', ts1 @ [callbacks @ (if isl res then [] else calls)] @ ts2)"
| mgr_cleanup: "mgr_step (m, ts) (cleanupPending now m, ts)"
| mgr_channel:
    "i < length (objects m) \<Longrightarrow> channel_event (objects m ! i) c \<Longrightarrow>
     mgr_step (m, ts) (put_channel i c m, ts @ [closed_calls i c m])"

section \<open>Lemmas: what a channel does to its key and its subscribers\<close>

text \<open>\<open>fewer c c'\<close>: the channel kept its key and gained no subscriber.\<close>

definition fewer :: "channel \<Rightarrow> channel \<Rightarrow> bool" where
  "fewer c c' \<longleftrightarrow> PodKey c' = PodKey c \<and> length (subscribers c') \<le> length (subscribers c)"

lemma fewer_trans: "fewer a b \<Longrightarrow> fewer b c \<Longrightarrow> fewer a c"
  by (simp add: fewer_def)

lemma fewer_refl: "fewer c c"
  by (simp add: fewer_def)

lemma trimmed_fewer: "trimmed c c' \<Longrightarrow> fewer c c'"
  by (auto simp: fewer_def trimmed_def core_def)

lemma fewer_same: "PodKey c' = PodKey c \<Longrightarrow> subscribers c' = subscribers c \<Longrightarrow> fewer c c'"
  by (simp add: fewer_def)

lemma publisherReadError_fewer: "fewer c (publisherReadError wr conn epoch c)"
proof -
  have "fewer c (handlePublisherDisconnect wr conn epoch c)" for c
    unfolding handlePublisherDisconnect_def
    by (auto intro!: fewer_trans [OF _ trimmed_fewer [OF Broadcast_trimmed]] simp: close_conn_def fewer_same)
  then show ?thesis
    unfolding publisherReadError_def by (rule fewer_trans [rotated]) (simp add: fewer_same)
qed

lemma publisherWait_fewer: "fewer c (publisherWait wr c)"
proof -
  have "fewer c (fold (\<lambda>(conn, epoch). publisherReadError wr conn epoch) ls c)" for ls
    by (induction ls arbitrary: c) (auto intro: fewer_trans [OF publisherReadError_fewer] fewer_same)
  then show ?thesis by (simp add: publisherWait_def)
qed

lemma SetPublisher_fewer: "fewer c (SetPublisher wr conn c)"
proof -
  let ?c1 = "c\<lparr>publisher := Some conn, publisherDisconnected := False, publisherEpoch := publisherEpoch c + 1,
      publisherReconnectTimer := False\<rparr>"
  define c2 where "c2 = (case publisher c of None \<Rightarrow> ?c1 | Some old \<Rightarrow> close_conn old ?c1)"
  define c3 where "c3 = publisherWait wr c2"
  define c4 where "c4 = (if publisherDisconnected c then Broadcast wr EncodeRunnerReconnected c3 else c3)"
  have "fewer c c2" by (auto simp: c2_def close_conn_def fewer_same split: option.split)
  moreover have "fewer c2 c3" unfolding c3_def by (rule publisherWait_fewer)
  moreover have "fewer c3 c4" by (simp add: c4_def fewer_same trimmed_fewer [OF Broadcast_trimmed])
  ultimately have "fewer c c4" by (blast intro: fewer_trans)
  then have "fewer c (c4\<lparr>pubLoops := pubLoops c4 @ [(conn, publisherEpoch c + 1)]\<rparr>)" by (simp add: fewer_def)
  moreover have "\<not> closed c \<Longrightarrow> publisher c \<noteq> Some conn \<Longrightarrow>
      SetPublisher wr conn c = c4\<lparr>pubLoops := pubLoops c4 @ [(conn, publisherEpoch c + 1)]\<rparr>"
    by (simp add: SetPublisher_def Let_def c4_def c3_def c2_def)
  ultimately show ?thesis
    by (cases "closed c \<or> publisher c = Some conn") (auto simp: SetPublisher_def close_conn_def fewer_same)
qed

lemma closeInternal_fewer: "fewer c (closeInternal wr c)"
proof -
  define c1 where "c1 = (case publisher c of
      None \<Rightarrow> c\<lparr>closed := True, keepAliveTimer := False, publisherReconnectTimer := False\<rparr>
    | Some pub \<Rightarrow> (close_conn pub (c\<lparr>closed := True, keepAliveTimer := False\<rparr>))
        \<lparr>publisherReconnectTimer := False, publisher := None\<rparr>)"
  have "fewer c c1" by (auto simp: c1_def close_conn_def fewer_same split: option.split)
  then have "fewer c (publisherWait wr c1)" by (rule fewer_trans [OF _ publisherWait_fewer])
  moreover have "\<not> closed c \<Longrightarrow> PodKey (closeInternal wr c) = PodKey (publisherWait wr c1) \<and>
      subscribers (closeInternal wr c) = []"
    by (auto simp: closeInternal_def Let_def c1_def split: option.split)
  ultimately show ?thesis by (cases "closed c") (auto simp: closeInternal_def fewer_def)
qed

lemma publisherMessage_fewer: "publisherMessage wr d c = Some c' \<Longrightarrow> fewer c c'"
proof -
  have b: "bufferOutput d c = Some c' \<Longrightarrow> fewer c c'" for c c'
    by (auto simp: bufferOutput_def fewer_def split: Option.bind_splits if_splits)
  have cl: "fewer c (clearOutputBuffer c)" by (simp add: clearOutputBuffer_def fewer_same)
  assume "publisherMessage wr d c = Some c'"
  then obtain c1 where "fewer c c1" "c' = Broadcast wr d c1"
    using b [of c] fewer_trans [OF cl b]
    by (auto simp: publisherMessage_def split: Option.bind_splits sum.splits if_splits)
      (use fewer_refl in blast)+
  then show ?thesis using fewer_trans trimmed_fewer [OF Broadcast_trimmed] by blast
qed

lemma channel_event_fewer: "channel_event c c' \<Longrightarrow> fewer c c'"
proof (induction rule: channel_event.induct)
  case (ch_subscriber_error sid conn c)
  have "fewer c (c\<lparr>subLoops := remove1 (sid, conn) (subLoops c)\<rparr>)" by (simp add: fewer_same)
  then show ?case
    unfolding subscriberReadError_def by (rule fewer_trans [OF _ trimmed_fewer [OF RemoveSubscriber_trimmed]])
qed (auto simp: keepAliveFires_def reconnectTimeout_def fewer_same closeInternal_fewer publisherMessage_fewer
    publisherReadError_fewer trimmed_fewer [OF subscriberMessage_trimmed])

lemma call_channel_step: "call_channel wr call c = (res, c') \<Longrightarrow> call \<noteq> CallOnClosed \<Longrightarrow> channel_step c c'"
  by (cases call)
    (auto simp: AddSubscriber_def AddSubscriberWithLimit_def
      intro: ch_set_publisher ch_add_subscriber ch_add_subscriber [OF prod.collapse [symmetric]] ch_close)

lemma channel_step_PodKey: "channel_step c c' \<Longrightarrow> PodKey c' = PodKey c"
proof (induction rule: channel_step.induct)
  case (ch_add_subscriber wr sid conn m c res c')
  then show ?case
    by (rule addSubscriberInternal_cases) (auto simp: close_conn_def dest: trimmed_fields(11))
qed (use channel_event_fewer SetPublisher_fewer closeInternal_fewer in \<open>auto simp: fewer_def channel_Close_def\<close>)

lemma length_update_le: "length (AList.update k v xs) \<le> Suc (length xs)"
  by (induction xs) auto

text \<open>How many subscribers a call can add.\<close>

fun admits :: "int \<Rightarrow> channel_call \<Rightarrow> channel \<Rightarrow> channel \<Rightarrow> bool" where
  "admits n (CallAddSubscriber _ _) c c' \<longleftrightarrow> length (subscribers c') \<le> Suc (length (subscribers c))"
| "admits n (CallAddSubscriberWithLimit _ _ _) c c' \<longleftrightarrow>
     length (subscribers c') \<le> length (subscribers c) \<or> int (length (subscribers c')) \<le> n"
| "admits n _ c c' \<longleftrightarrow> length (subscribers c') \<le> length (subscribers c)"

lemma call_channel_admits:
  assumes "call_channel wr call c = (res, c')" "0 < n" "\<And>sid conn k. call = CallAddSubscriberWithLimit sid conn k \<Longrightarrow> k = n"
  shows "admits n call c c'"
proof (cases call)
  case (CallSetPublisher conn)
  then show ?thesis using assms(1) SetPublisher_fewer [of c wr conn] by (auto simp: fewer_def)
next
  case (CallAddSubscriber sid conn)
  then have "addSubscriberInternal wr sid conn 0 c = (fst (addSubscriberInternal wr sid conn 0 c), c')"
    using assms(1) by (auto simp: AddSubscriber_def)
  then show ?thesis
    by (rule addSubscriberInternal_cases) (auto simp: CallAddSubscriber close_conn_def length_update_le)
next
  case (CallAddSubscriberWithLimit sid conn k)
  then have "addSubscriberInternal wr sid conn n c = (res, c')"
    using assms(1,3) by (auto simp: AddSubscriberWithLimit_def)
  then show ?thesis
  proof (rule addSubscriberInternal_cases)
    assume "0 < n \<Longrightarrow> int (length (subscribers c)) < n" "subscribers c' = AList.update sid conn (subscribers c)"
    then show ?thesis
      using length_update_le [of sid conn "subscribers c"] assms(2) by (auto simp: CallAddSubscriberWithLimit)
  qed (auto simp: CallAddSubscriberWithLimit close_conn_def)
next
  case CallClose
  then show ?thesis using assms(1) closeInternal_fewer [of c wr] by (auto simp: fewer_def channel_Close_def)
next
  case CallOnClosed
  then show ?thesis using assms(1) by simp
qed

section \<open>The invariant\<close>

text \<open>The three maps: distinct keys, and a pod is in at most one of them.\<close>

definition maps_ok :: "manager \<Rightarrow> bool" where
  "maps_ok m \<longleftrightarrow>
     distinct (map fst (channels m)) \<and> distinct (map fst (pendingPublishers m)) \<and>
     distinct (map fst (pendingSubscribers m)) \<and>
     fst ` set (channels m) \<inter> fst ` set (pendingPublishers m) = {} \<and>
     fst ` set (channels m) \<inter> fst ` set (pendingSubscribers m) = {} \<and>
     fst ` set (pendingPublishers m) \<inter> fst ` set (pendingSubscribers m) = {}"

text \<open>The registry: every entry is a channel with the key of the entry; every channel is well-formed.\<close>

definition registry_ok :: "manager \<Rightarrow> bool" where
  "registry_ok m \<longleftrightarrow>
     0 < mgrOutputBufferCount (mgr_config m) \<and> 0 \<le> mgrOutputBufferSize (mgr_config m) \<and>
     (\<forall>(k, i) \<in> set (channels m). i < length (objects m) \<and> PodKey (objects m ! i) = k) \<and>
     (\<forall>c \<in> set (objects m). channel_ok c)"

text \<open>
  The removals under way: a registered channel that is closed is about to be removed by the goroutine that
  closed it, and a removal is always the next call of its goroutine.
\<close>

fun removal_next :: "(nat \<times> channel_call) list \<Rightarrow> bool" where
  "removal_next [] \<longleftrightarrow> True"
| "removal_next (call # calls) \<longleftrightarrow> (\<forall>(i, c) \<in> set calls. c \<noteq> CallOnClosed)"

definition removals_ok :: "mgr_state \<Rightarrow> bool" where
  "removals_ok s \<longleftrightarrow> (case s of (m, ts) \<Rightarrow>
     (\<forall>(k, i) \<in> set (channels m). closed (objects m ! i) \<longrightarrow> (i, CallOnClosed) \<in> set (concat ts)) \<and>
     (\<forall>calls \<in> set ts. removal_next calls))"

text \<open>
  Admission: the calls under way refer to existing channels and use the configured limit; at most one addition
  without a limit is under way for a channel, and its subscribers with that addition are at most one more than
  the limit.
\<close>

fun unlimited :: "nat \<Rightarrow> nat \<times> channel_call \<Rightarrow> bool" where
  "unlimited i (j, CallAddSubscriber _ _) \<longleftrightarrow> j = i"
| "unlimited i _ \<longleftrightarrow> False"

fun call_ok :: "manager \<Rightarrow> nat \<times> channel_call \<Rightarrow> bool" where
  "call_ok m (i, CallAddSubscriberWithLimit _ _ n) \<longleftrightarrow>
     i < length (objects m) \<and> n = MaxSubscribersPerPod (mgr_config m)"
| "call_ok m (i, _) \<longleftrightarrow> i < length (objects m)"

definition pending_adds :: "nat \<Rightarrow> (nat \<times> channel_call) list list \<Rightarrow> nat" where
  "pending_adds i ts = length (filter (unlimited i) (concat ts))"

definition admission_ok :: "mgr_state \<Rightarrow> bool" where
  "admission_ok s \<longleftrightarrow> (case s of (m, ts) \<Rightarrow>
     (\<forall>call \<in> set (concat ts). call_ok m call) \<and> (\<forall>i. pending_adds i ts \<le> 1) \<and>
     (0 < MaxSubscribersPerPod (mgr_config m) \<longrightarrow>
       (\<forall>i < length (objects m).
          int (length (subscribers (objects m ! i)) + pending_adds i ts) \<le> MaxSubscribersPerPod (mgr_config m) + 1)))"

definition mgr_ok :: "mgr_state \<Rightarrow> bool" where
  "mgr_ok s \<longleftrightarrow> maps_ok (fst s) \<and> registry_ok (fst s) \<and> admission_ok s \<and> removals_ok s"

lemma call_ok_index: "call_ok m (i, call) \<Longrightarrow> i < length (objects m)"
  by (cases call) simp_all

lemma unlimited_index: "unlimited i call \<Longrightarrow> call_ok m call \<Longrightarrow> i < length (objects m)"
  by (induction i call rule: unlimited.induct) auto

lemma call_ok_cong:
  "length (objects m) \<le> length (objects m') \<Longrightarrow> mgr_config m' = mgr_config m \<Longrightarrow> call_ok m call \<Longrightarrow> call_ok m' call"
  by (cases call; cases "snd call") auto

subsection \<open>Changing a channel and removing its entry\<close>

lemma put_channel_simps [simp]:
  "objects (put_channel i c m) = (objects m)[i := c]" "mgr_config (put_channel i c m) = mgr_config m"
  "channels (put_channel i c m) = channels m" "pendingPublishers (put_channel i c m) = pendingPublishers m"
  "pendingSubscribers (put_channel i c m) = pendingSubscribers m" "droppedConns (put_channel i c m) = droppedConns m"
  by (simp_all add: put_channel_def)

lemma onChannelClosed_simps [simp]:
  "objects (onChannelClosed k m) = objects m" "mgr_config (onChannelClosed k m) = mgr_config m"
  "channels (onChannelClosed k m) = AList.delete k (channels m)"
  "pendingPublishers (onChannelClosed k m) = pendingPublishers m"
  "pendingSubscribers (onChannelClosed k m) = pendingSubscribers m" "droppedConns (onChannelClosed k m) = droppedConns m"
  by (simp_all add: onChannelClosed_def)

lemma closed_calls_only: "call \<in> set (closed_calls i c m) \<Longrightarrow> call = (i, CallOnClosed)"
  by (simp add: closed_calls_def split: if_splits)

lemma call_stepE:
  assumes "call_step wr (i, call) m = (res, callbacks, m')"
  obtains (removal) "call = CallOnClosed" "res = Inr ()" "callbacks = []" "m' = onChannelClosed (PodKey (objects m ! i)) m"
  | (channel) c where "call \<noteq> CallOnClosed" "call_channel wr call (objects m ! i) = (res, c)"
      "callbacks = closed_calls i c m" "m' = put_channel i c m"
  using assms by (auto simp: call_step_def split: if_splits prod.splits)

lemma maps_ok_shrink:
  assumes "maps_ok m" and "set (channels m') \<subseteq> set (channels m)" "set (pendingPublishers m') \<subseteq> set (pendingPublishers m)"
    "set (pendingSubscribers m') \<subseteq> set (pendingSubscribers m)"
    and "distinct (map fst (channels m'))" "distinct (map fst (pendingPublishers m'))"
    "distinct (map fst (pendingSubscribers m'))"
  shows "maps_ok m'"
proof -
  have disj: "A \<inter> B = {} \<Longrightarrow> A' \<subseteq> A \<Longrightarrow> B' \<subseteq> B \<Longrightarrow> A' \<inter> B' = {}" for A A' B B' :: "string set" by blast
  note sub = assms(2-4) [THEN image_mono [of _ _ fst]]
  show ?thesis
    using assms(1,5-7) disj [OF _ sub(1,2)] disj [OF _ sub(1,3)] disj [OF _ sub(2,3)]
    by (simp add: maps_ok_def)
qed

lemma put_channel_maps: "maps_ok (put_channel i c m) = maps_ok m"
  by (simp add: maps_ok_def)

lemma onChannelClosed_maps: "maps_ok m \<Longrightarrow> maps_ok (onChannelClosed k m)"
  by (rule maps_ok_shrink) (auto simp: maps_ok_def distinct_map_filter AList.delete_eq)

lemma onChannelClosed_registry: "registry_ok m \<Longrightarrow> registry_ok (onChannelClosed k m)"
  by (auto simp: registry_ok_def AList.delete_eq)

lemma put_channel_registry:
  assumes reg: "registry_ok m" and i: "i < length (objects m)" and step: "channel_step (objects m ! i) c"
  shows "registry_ok (put_channel i c m)"
proof -
  have "channel_ok c" using reg i by (intro channel_step_ok [OF step]) (auto simp: registry_ok_def)
  then have "\<forall>c' \<in> set ((objects m)[i := c]). channel_ok c'"
    using reg by (auto simp: registry_ok_def dest: set_update_subset_insert [THEN subsetD])
  moreover have "PodKey ((objects m)[i := c] ! j) = PodKey (objects m ! j)" if "j < length (objects m)" for j
    using that channel_step_PodKey [OF step] by (cases "j = i") simp_all
  ultimately show ?thesis using reg by (auto simp: registry_ok_def)
qed

text \<open>A channel that a step has closed has called its callback, so its removal is under way.\<close>

lemma put_channel_removals:
  assumes ok: "removals_ok (m, ts)" and reg: "registry_ok m" and i: "i < length (objects m)"
    and step: "channel_step (objects m ! i) c"
    and kept: "\<And>j. (j, CallOnClosed) \<in> set (concat ts) \<Longrightarrow> (j, CallOnClosed) \<in> set (concat ts')"
    and new: "set (closed_calls i c m) \<subseteq> set (concat ts')" and next_ok: "\<forall>calls \<in> set ts'. removal_next calls"
  shows "removals_ok (put_channel i c m, ts')"
proof -
  let ?o = "objects m ! i"
  have ok_o: "channel_ok ?o" using reg i by (auto simp: registry_ok_def)
  then have ok_c: "channel_ok c" by (rule channel_step_ok [OF step])
  have "(j, CallOnClosed) \<in> set (concat ts')"
    if j: "(k, j) \<in> set (channels m)" and cl: "closed ((objects m)[i := c] ! j)" for k j
  proof (cases "j = i \<and> \<not> closed ?o")
    case True
    then have "channelClosedCalls ?o < channelClosedCalls c"
      using ok_o ok_c cl i by (simp add: channel_ok_def)
    then show ?thesis using new True by (simp add: closed_calls_def)
  next
    case False
    then have "closed (objects m ! j)" using cl by (cases "j = i") auto
    then have "(j, CallOnClosed) \<in> set (concat ts)" using ok j by (auto simp: removals_ok_def)
    then show ?thesis by (rule kept)
  qed
  then show ?thesis using next_ok by (auto simp: removals_ok_def)
qed

lemma onChannelClosed_removals:
  assumes ok: "removals_ok (m, ts1 @ [(i, CallOnClosed) # calls] @ ts2)" and reg: "registry_ok m"
  shows "removals_ok (onChannelClosed (PodKey (objects m ! i)) m, ts1 @ [calls] @ ts2)"
proof -
  have "(j, CallOnClosed) \<in> set (concat (ts1 @ [calls] @ ts2))"
    if "(k, j) \<in> set (channels m)" "k \<noteq> PodKey (objects m ! i)" "closed (objects m ! j)" for k j
  proof -
    have "j \<noteq> i" using that(1,2) reg by (auto simp: registry_ok_def)
    moreover have "(j, CallOnClosed) \<in> set (concat (ts1 @ [(i, CallOnClosed) # calls] @ ts2))"
      using ok that(1,3) by (fastforce simp: removals_ok_def simp del: concat.simps concat_append)
    ultimately show ?thesis by auto
  qed
  then have "\<forall>(k, j) \<in> set (channels (onChannelClosed (PodKey (objects m ! i)) m)). closed (objects m ! j) \<longrightarrow>
      (j, CallOnClosed) \<in> set (concat (ts1 @ [calls] @ ts2))"
    by (simp add: AList.delete_eq) blast
  moreover have "removal_next calls" using ok by (cases calls) (auto simp: removals_ok_def)
  then have "\<forall>calls \<in> set (ts1 @ [calls] @ ts2). removal_next calls" using ok by (auto simp: removals_ok_def)
  ultimately show ?thesis unfolding removals_ok_def by (simp only: prod.case onChannelClosed_simps)
qed

lemma pending_adds_append: "pending_adds i (ts @ us) = pending_adds i ts + pending_adds i us"
  by (simp add: pending_adds_def)

lemma pending_adds_Cons: "pending_adds i ((call # calls) # ts) = (if unlimited i call then 1 else 0) + pending_adds i (calls # ts)"
  by (simp add: pending_adds_def)

text \<open>A channel gains subscribers only by the call at the head of a running handler.\<close>

lemma put_channel_admission:
  assumes adm: "admission_ok (m, ts)" and i: "i < length (objects m)"
    and calls: "set (concat ts') \<subseteq> insert (i, CallOnClosed) (set (concat ts))"
    and adds: "\<And>j. pending_adds j ts' \<le> pending_adds j ts"
    and new: "0 < MaxSubscribersPerPod (mgr_config m) \<Longrightarrow>
      int (length (subscribers c) + pending_adds i ts') \<le> MaxSubscribersPerPod (mgr_config m) + 1"
  shows "admission_ok (put_channel i c m, ts')"
proof -
  let ?m = "put_channel i c m"
  have "call_ok ?m call" if "call \<in> set (concat ts')" for call
  proof (cases "call = (i, CallOnClosed)")
    case False
    then have "call_ok m call" using that calls adm by (auto simp: admission_ok_def)
    then show ?thesis by (intro call_ok_cong [of m ?m]) simp_all
  qed (simp add: i)
  moreover have "int (length (subscribers (objects ?m ! j)) + pending_adds j ts') \<le> MaxSubscribersPerPod (mgr_config m) + 1"
    if "0 < MaxSubscribersPerPod (mgr_config m)" "j < length (objects m)" for j
  proof (cases "j = i")
    case True
    then show ?thesis using new that i by simp
  next
    case False
    have "int (length (subscribers (objects m ! j)) + pending_adds j ts) \<le> MaxSubscribersPerPod (mgr_config m) + 1"
      using adm that by (simp add: admission_ok_def)
    then show ?thesis using False adds [of j] by simp
  qed
  moreover have "pending_adds j ts' \<le> 1" for j
    using adm adds [of j] order_trans [of _ "pending_adds j ts" 1] by (simp add: admission_ok_def)
  ultimately show ?thesis by (auto simp: admission_ok_def)
qed

lemma closed_calls_adds: "filter (unlimited j) (closed_calls i c m) = []"
  by (simp add: closed_calls_def)

text \<open>The three parts of the invariant for one call of a handler.\<close>

lemma call_admission:
  assumes adm: "admission_ok (m, ts1 @ [(i, call) # calls] @ ts2)"
    and c: "call_channel wr call (objects m ! i) = (res, c)" and rest: "calls' = calls \<or> calls' = []"
  shows "admission_ok (put_channel i c m, ts1 @ [closed_calls i c m @ calls'] @ ts2)"
proof -
  let ?ts = "ts1 @ [(i, call) # calls] @ ts2" and ?ts' = "ts1 @ [closed_calls i c m @ calls'] @ ts2"
  let ?n = "MaxSubscribersPerPod (mgr_config m)"
  have call: "call_ok m (i, call)" using adm by (simp add: admission_ok_def)
  then have i: "i < length (objects m)" by (rule call_ok_index)
  have adds: "pending_adds j ?ts = pending_adds j (ts1 @ [calls] @ ts2) + (if unlimited j (i, call) then 1 else 0)" for j
    by (simp add: pending_adds_append pending_adds_Cons)
  have adds': "pending_adds j ?ts' \<le> pending_adds j (ts1 @ [calls] @ ts2)" for j
    using rest by (auto simp: pending_adds_append pending_adds_def closed_calls_adds)
  show ?thesis
  proof (rule put_channel_admission [OF adm i])
    show "set (concat ?ts') \<subseteq> insert (i, CallOnClosed) (set (concat ?ts))"
      using rest by (auto dest: closed_calls_only)
    show "pending_adds j ?ts' \<le> pending_adds j ?ts" for j using adds [of j] adds' [of j] by simp
    assume n: "0 < ?n"
    have "admits ?n call (objects m ! i) c"
      using call by (intro call_channel_admits [OF c n]) auto
    moreover have "int (length (subscribers (objects m ! i)) + pending_adds i ?ts) \<le> ?n + 1"
      using adm n i by (simp add: admission_ok_def)
    moreover have "pending_adds i (ts1 @ [calls] @ ts2) \<le> 1"
      using adm adds [of i] by (simp add: admission_ok_def) (metis add_leD1)
    ultimately show "int (length (subscribers c) + pending_adds i ?ts') \<le> ?n + 1"
      using adds [of i] adds' [of i] by (cases call) auto
  qed
qed

lemma onChannelClosed_admission:
  assumes adm: "admission_ok (m, ts1 @ [call # calls] @ ts2)"
  shows "admission_ok (onChannelClosed k m, ts1 @ [calls] @ ts2)"
proof -
  have fewer: "pending_adds i (ts1 @ [calls] @ ts2) \<le> pending_adds i (ts1 @ [call # calls] @ ts2)" for i
    by (simp add: pending_adds_append pending_adds_Cons)
  have "call_ok (onChannelClosed k m) call'" if "call' \<in> set (concat (ts1 @ [calls] @ ts2))" for call'
  proof -
    have "call' \<in> set (concat (ts1 @ [call # calls] @ ts2))" using that by auto
    then have "call_ok m call'" using adm unfolding admission_ok_def prod.case by blast
    then show ?thesis by (rule call_ok_cong [rotated 2]) simp_all
  qed
  moreover have "pending_adds i (ts1 @ [calls] @ ts2) \<le> 1" for i
    using fewer [of i] adm le_trans unfolding admission_ok_def by blast
  moreover have "int (length (subscribers (objects m ! i)) + pending_adds i (ts1 @ [calls] @ ts2))
      \<le> MaxSubscribersPerPod (mgr_config m) + 1"
    if "0 < MaxSubscribersPerPod (mgr_config m)" "i < length (objects m)" for i
  proof -
    have "int (length (subscribers (objects m ! i)) + pending_adds i (ts1 @ [call # calls] @ ts2))
        \<le> MaxSubscribersPerPod (mgr_config m) + 1"
      using adm that by (simp add: admission_ok_def)
    then show ?thesis using fewer [of i] by linarith
  qed
  ultimately show ?thesis by (auto simp: admission_ok_def)
qed

lemma call_removals:
  assumes ok: "removals_ok (m, ts1 @ [(i, call) # calls] @ ts2)" and reg: "registry_ok m" and i: "i < length (objects m)"
    and c: "call_channel wr call (objects m ! i) = (res, c)" "call \<noteq> CallOnClosed" and rest: "calls' = calls \<or> calls' = []"
  shows "removals_ok (put_channel i c m, ts1 @ [closed_calls i c m @ calls'] @ ts2)"
proof (rule put_channel_removals [OF ok reg i call_channel_step [OF c]])
  have others: "\<forall>(j, call') \<in> set calls. call' \<noteq> CallOnClosed" using ok by (simp add: removals_ok_def)
  show "(j, CallOnClosed) \<in> set (concat (ts1 @ [closed_calls i c m @ calls'] @ ts2))"
    if "(j, CallOnClosed) \<in> set (concat (ts1 @ [(i, call) # calls] @ ts2))" for j
    using that others c(2) by auto
  have "removal_next (closed_calls i c m @ calls')"
    using others rest by (cases calls) (auto simp: closed_calls_def)
  then show "\<forall>calls \<in> set (ts1 @ [closed_calls i c m @ calls'] @ ts2). removal_next calls"
    using ok by (auto simp: removals_ok_def)
qed auto

lemma call_step_ok:
  assumes ok: "mgr_ok (m, ts1 @ [(i, call) # calls] @ ts2)" and run: "call_step wr (i, call) m = (res, callbacks, m')"
  shows "mgr_ok (m', ts1 @ [callbacks @ (if isl res then [] else calls)] @ ts2)"
  using run
proof (cases rule: call_stepE)
  case removal
  then show ?thesis
    using ok onChannelClosed_maps onChannelClosed_registry onChannelClosed_admission [of m ts1 "(i, call)" calls ts2]
      onChannelClosed_removals [of m ts1 i calls ts2]
    by (simp add: mgr_ok_def)
next
  case (channel c)
  have adm: "admission_ok (m, ts1 @ [(i, call) # calls] @ ts2)" using ok by (simp add: mgr_ok_def)
  then have i: "i < length (objects m)" by (intro call_ok_index [of m i call]) (simp add: admission_ok_def)
  note parts = put_channel_maps put_channel_registry [OF _ i call_channel_step [OF channel(2,1)]]
    call_admission [OF adm channel(2)] call_removals [OF _ _ i channel(2,1)]
  show ?thesis
    using ok parts(1) parts(2) parts(3) [of "if isl res then [] else calls"]
      parts(4) [of ts1 calls ts2 "if isl res then [] else calls"]
    by (simp add: mgr_ok_def channel(3,4))
qed

subsection \<open>The parts under the lock\<close>

lemma update_new: "map_of xs k = None \<Longrightarrow> AList.update k v xs = xs @ [(k, v)]"
  by (induction xs) (auto split: if_splits)

lemma admission_add:
  assumes "admission_ok (m, ts)" "objects m' = objects m" "mgr_config m' = mgr_config m"
    and "\<forall>call \<in> set calls. call_ok m call" "\<And>i. pending_adds i [calls] = 0"
  shows "admission_ok (m', ts @ [calls])"
proof -
  have "call_ok m' call = call_ok m call" for call
    using assms(2,3) by (cases call; cases "snd call") auto
  then show ?thesis using assms by (auto simp: admission_ok_def pending_adds_append)
qed

lemma create_maps:
  assumes "maps_ok m" "map_of (channels m) k = None" "map_of (pendingPublishers m) k = None"
    "map_of (pendingSubscribers m) k = None"
  shows "maps_ok (create_channel k m)"
  using assms by (auto simp: maps_ok_def create_channel_def update_new map_of_eq_None_iff)

lemma NewTerminalChannel_ok:
  "0 < OutputBufferCount cfg \<Longrightarrow> 0 \<le> OutputBufferSize cfg \<Longrightarrow> channel_ok (NewTerminalChannelWithConfig k cfg)"
  by (rule channel_initial_ok) (auto simp: channel_initial_def)

lemma create_registry:
  assumes "registry_ok m" "map_of (channels m) k = None"
  shows "registry_ok (create_channel k m)"
proof -
  let ?new = "NewTerminalChannelWithConfig k (buildChannelConfig m)"
  have "channel_ok ?new"
    using assms(1) by (intro NewTerminalChannel_ok) (auto simp: registry_ok_def buildChannelConfig_def)
  moreover have "PodKey ?new = k" "\<not> closed ?new" by (simp_all add: NewTerminalChannelWithConfig_def)
  ultimately show ?thesis
    using assms by (auto simp: registry_ok_def create_channel_def update_new nth_append)
qed

lemma create_admission:
  assumes adm: "admission_ok (m, ts)"
  shows "admission_ok (create_channel k m,
    ts @ [[(length (objects m), CallSetPublisher p), (length (objects m), CallAddSubscriber sid conn)]])"
proof -
  let ?n = "length (objects m)" and ?m = "create_channel k m"
  let ?calls = "[(length (objects m), CallSetPublisher p), (length (objects m), CallAddSubscriber sid conn)]"
  have none: "pending_adds ?n ts = 0"
  proof -
    have "\<not> unlimited ?n call" if "call \<in> set (concat ts)" for call
      using that adm unlimited_index [of ?n call m] by (auto simp: admission_ok_def)
    then show ?thesis by (simp add: pending_adds_def filter_empty_conv)
  qed
  have one: "pending_adds i [?calls] = (if i = ?n then 1 else 0)" for i by (simp add: pending_adds_def)
  have "call_ok ?m call" if "call \<in> set (concat (ts @ [?calls]))" for call
    using that adm call_ok_cong [of m ?m call] by (auto simp: admission_ok_def create_channel_def)
  moreover have "pending_adds i (ts @ [?calls]) \<le> 1" for i
    using adm none one [of i] by (simp add: pending_adds_append admission_ok_def)
  moreover have "int (length (subscribers (objects ?m ! i)) + pending_adds i (ts @ [?calls]))
      \<le> MaxSubscribersPerPod (mgr_config m) + 1"
    if "0 < MaxSubscribersPerPod (mgr_config m)" "i < Suc ?n" for i
    using that adm none one [of i]
    by (cases "i = ?n")
      (auto simp: pending_adds_append admission_ok_def create_channel_def nth_append NewTerminalChannelWithConfig_def)
  ultimately show ?thesis by (auto simp: admission_ok_def create_channel_def)
qed

lemma no_removal_next: "\<forall>(i, call) \<in> set calls. call \<noteq> CallOnClosed \<Longrightarrow> removal_next calls"
  by (cases calls) auto

lemma removals_add:
  assumes "removals_ok (m, ts)" "objects m' = objects m" "set (channels m') \<subseteq> set (channels m)"
    and "\<forall>(i, call) \<in> set calls. call \<noteq> CallOnClosed"
  shows "removals_ok (m', ts @ [calls])"
  using assms(1-3) no_removal_next [OF assms(4)] by (fastforce simp: removals_ok_def)

lemma create_removals:
  assumes "removals_ok (m, ts)" "registry_ok m" "map_of (channels m) k = None"
  shows "removals_ok (create_channel k m,
    ts @ [[(length (objects m), CallSetPublisher p), (length (objects m), CallAddSubscriber sid conn)]])"
proof -
  have "j < length (objects m)" if "(k', j) \<in> set (channels m)" for k' j
    using that assms(2) by (auto simp: registry_ok_def)
  then show ?thesis
    using assms(1,3)
    by (fastforce simp: removals_ok_def create_channel_def update_new nth_append NewTerminalChannelWithConfig_def)
qed

lemma create_ok:
  assumes "mgr_ok (m, ts)" "map_of (channels m) k = None" "map_of (pendingPublishers m) k = None"
    "map_of (pendingSubscribers m) k = None"
  shows "mgr_ok (create_channel k m,
    ts @ [[(length (objects m), CallSetPublisher p), (length (objects m), CallAddSubscriber sid conn)]])"
  using assms create_maps create_registry create_admission create_removals by (simp add: mgr_ok_def)

text \<open>Removing entries of the maps, and adding one for a pod that is in none of the others.\<close>

lemma forget_ok:
  assumes ok: "mgr_ok (m, ts)"
    and "set (channels m') \<subseteq> set (channels m)" "set (pendingPublishers m') \<subseteq> set (pendingPublishers m)"
      "set (pendingSubscribers m') \<subseteq> set (pendingSubscribers m)"
    and "distinct (map fst (channels m'))" "distinct (map fst (pendingPublishers m'))"
      "distinct (map fst (pendingSubscribers m'))"
    and "objects m' = objects m" "mgr_config m' = mgr_config m"
    and "\<forall>call \<in> set calls. call_ok m call" "\<And>i. pending_adds i [calls] = 0"
    and "\<forall>(i, call) \<in> set calls. call \<noteq> CallOnClosed"
  shows "mgr_ok (m', ts @ [calls])"
proof -
  have "maps_ok m'" using ok assms(2-7) maps_ok_shrink [of m m'] by (simp add: mgr_ok_def)
  moreover have "registry_ok m'" using ok assms(2,8,9) by (auto simp: mgr_ok_def registry_ok_def)
  moreover have "admission_ok (m', ts @ [calls])"
    using ok by (intro admission_add [OF _ assms(8-11)]) (simp add: mgr_ok_def)
  moreover have "removals_ok (m', ts @ [calls])"
    using ok by (intro removals_add [OF _ assms(8,2,12)]) (simp add: mgr_ok_def)
  ultimately show ?thesis by (simp add: mgr_ok_def)
qed

lemma mgr_ok_idle: "mgr_ok (m, ts @ [[]]) \<Longrightarrow> mgr_ok (m, ts)"
  by (simp add: mgr_ok_def admission_ok_def removals_ok_def pending_adds_append pending_adds_def)

lemma mgr_ok_distinct:
  "mgr_ok (m, ts) \<Longrightarrow> distinct (map fst (channels m)) \<and> distinct (map fst (pendingPublishers m)) \<and>
     distinct (map fst (pendingSubscribers m))"
  by (simp add: mgr_ok_def maps_ok_def)

lemma map_of_key: "map_of xs k = Some v \<Longrightarrow> k \<in> fst ` set xs"
  by (drule map_of_SomeD) force

lemma mgr_ok_disjoint:
  assumes "mgr_ok (m, ts)"
  shows "map_of (pendingSubscribers m) k = Some x \<Longrightarrow> map_of (pendingPublishers m) k = None"
    and "map_of (pendingPublishers m) k = Some y \<Longrightarrow> map_of (pendingSubscribers m) k = None"
proof -
  have d: "fst ` set (pendingPublishers m) \<inter> fst ` set (pendingSubscribers m) = {}"
    using assms by (simp add: mgr_ok_def maps_ok_def)
  show "map_of (pendingPublishers m) k = None" if "map_of (pendingSubscribers m) k = Some x"
    using d map_of_key [OF that] unfolding map_of_eq_None_iff by blast
  show "map_of (pendingSubscribers m) k = None" if "map_of (pendingPublishers m) k = Some y"
    using d map_of_key [OF that] unfolding map_of_eq_None_iff by blast
qed

lemma publisher_locked_ok:
  assumes ok: "mgr_ok (m, ts)" and eq: "HandlePublisherConnect_locked now k conn m = (calls, m')"
  shows "mgr_ok (m', ts @ [calls])"
proof (cases "map_of (channels m) k")
  case (Some i)
  then have "calls = [(i, CallSetPublisher conn)]" "m' = m" using eq by (auto simp: HandlePublisherConnect_locked_def)
  moreover have "i < length (objects m)"
    using ok map_of_SomeD [OF Some] by (auto simp: mgr_ok_def registry_ok_def)
  ultimately show ?thesis
    using mgr_ok_distinct [OF ok] by (intro forget_ok [OF ok]) (simp_all add: pending_adds_def)
next
  case None
  note no_channel = None
  show ?thesis
  proof (cases "map_of (pendingSubscribers m) k")
    case (Some x)
    obtain subConn sid t where x: "x = (subConn, sid, t)" by (cases x)
    let ?m = "m\<lparr>pendingSubscribers := AList.delete k (pendingSubscribers m)\<rparr>"
    have "mgr_ok (?m, ts @ [[]])"
      using mgr_ok_distinct [OF ok]
      by (intro forget_ok [OF ok]) (auto simp: pending_adds_def AList.delete_eq distinct_map_filter)
    then have "mgr_ok (?m, ts)" by (rule mgr_ok_idle)
    from create_ok [OF this, of k conn sid subConn] show ?thesis
      using eq None Some x mgr_ok_disjoint(1) [OF ok Some]
      by (auto simp: HandlePublisherConnect_locked_def delete_conv)
  next
    case None
    have m': "calls = []" "channels m' = channels m" "objects m' = objects m" "mgr_config m' = mgr_config m"
      "pendingPublishers m' = AList.update k (conn, now) (pendingPublishers m)"
      "pendingSubscribers m' = pendingSubscribers m"
      using eq None no_channel
      by (auto simp: HandlePublisherConnect_locked_def Let_def closeWithReason_def drop_conn_def split: option.splits)
    have "maps_ok m'"
      using ok None no_channel
      by (simp add: mgr_ok_def maps_ok_def m' distinct_update dom_update [unfolded dom_map_of_conv_image_fst]
          map_of_eq_None_iff)
    moreover have "registry_ok m'" using ok by (simp add: mgr_ok_def registry_ok_def m')
    moreover have "admission_ok (m', ts @ [calls])"
      using ok by (intro admission_add [of m]) (simp_all add: mgr_ok_def m' pending_adds_def)
    moreover have "removals_ok (m', ts @ [calls])"
      using ok by (intro removals_add [of m]) (simp_all add: mgr_ok_def m')
    ultimately show ?thesis by (simp add: mgr_ok_def)
  qed
qed

lemma subscriber_locked_ok:
  assumes ok: "mgr_ok (m, ts)" and eq: "HandleSubscriberConnect_locked now k sid conn m = (calls, m')"
  shows "mgr_ok (m', ts @ [calls])"
proof (cases "map_of (channels m) k")
  case (Some i)
  then have "calls = [(i, CallAddSubscriberWithLimit sid conn (MaxSubscribersPerPod (mgr_config m)))]" "m' = m"
    using eq by (auto simp: HandleSubscriberConnect_locked_def)
  moreover have "i < length (objects m)"
    using ok map_of_SomeD [OF Some] by (auto simp: mgr_ok_def registry_ok_def)
  ultimately show ?thesis
    using mgr_ok_distinct [OF ok] by (intro forget_ok [OF ok]) (simp_all add: pending_adds_def)
next
  case None
  note no_channel = None
  show ?thesis
  proof (cases "map_of (pendingPublishers m) k")
    case (Some x)
    obtain pubConn t where x: "x = (pubConn, t)" by (cases x)
    let ?m = "m\<lparr>pendingPublishers := AList.delete k (pendingPublishers m)\<rparr>"
    have "mgr_ok (?m, ts @ [[]])"
      using mgr_ok_distinct [OF ok]
      by (intro forget_ok [OF ok]) (auto simp: pending_adds_def AList.delete_eq distinct_map_filter)
    then have "mgr_ok (?m, ts)" by (rule mgr_ok_idle)
    from create_ok [OF this, of k pubConn sid conn] show ?thesis
      using eq None Some x mgr_ok_disjoint(2) [OF ok Some]
      by (auto simp: HandleSubscriberConnect_locked_def delete_conv)
  next
    case None
    have m': "calls = []" "channels m' = channels m" "objects m' = objects m" "mgr_config m' = mgr_config m"
      "pendingSubscribers m' = AList.update k (conn, sid, now) (pendingSubscribers m)"
      "pendingPublishers m' = pendingPublishers m"
      using eq None no_channel
      by (auto simp: HandleSubscriberConnect_locked_def Let_def closeWithReason_def drop_conn_def split: option.splits)
    have "maps_ok m'"
      using ok None no_channel
      by (simp add: mgr_ok_def maps_ok_def m' distinct_update dom_update [unfolded dom_map_of_conv_image_fst]
          map_of_eq_None_iff)
    moreover have "registry_ok m'" using ok by (simp add: mgr_ok_def registry_ok_def m')
    moreover have "admission_ok (m', ts @ [calls])"
      using ok by (intro admission_add [of m]) (simp_all add: mgr_ok_def m' pending_adds_def)
    moreover have "removals_ok (m', ts @ [calls])"
      using ok by (intro removals_add [of m]) (simp_all add: mgr_ok_def m')
    ultimately show ?thesis by (simp add: mgr_ok_def)
  qed
qed

lemma CloseChannel_locked_ok:
  assumes ok: "mgr_ok (m, ts)" and eq: "CloseChannel_locked k m = (calls, m')"
  shows "mgr_ok (m', ts @ [calls])"
proof (cases "map_of (channels m) k")
  case None
  then show ?thesis
    using eq mgr_ok_distinct [OF ok]
    by (intro forget_ok [OF ok]) (auto simp: CloseChannel_locked_def pending_adds_def)
next
  case (Some i)
  have "i < length (objects m)"
    using ok map_of_SomeD [OF Some] by (auto simp: mgr_ok_def registry_ok_def)
  then show ?thesis
    using eq Some mgr_ok_distinct [OF ok]
    by (intro forget_ok [OF ok])
      (auto simp: CloseChannel_locked_def pending_adds_def AList.delete_eq distinct_map_filter)
qed

lemma manager_Close_locked_ok:
  assumes ok: "mgr_ok (m, ts)" and eq: "manager_Close_locked m = (calls, m')"
  shows "mgr_ok (m', ts @ [calls])"
proof -
  have calls: "calls = map (\<lambda>(_, i). (i, CallClose)) (channels m)" using eq by (simp add: manager_Close_locked_def)
  have "filter (unlimited j) calls = []" for j unfolding calls by (auto simp: filter_empty_conv)
  moreover have "\<forall>call \<in> set calls. call_ok m call"
    unfolding calls using ok by (auto simp: mgr_ok_def registry_ok_def)
  ultimately show ?thesis
    using eq by (intro forget_ok [OF ok]) (auto simp: manager_Close_locked_def pending_adds_def)
qed

lemma cleanupPending_ok:
  assumes ok: "mgr_ok (m, ts)"
  shows "mgr_ok (cleanupPending now m, ts)"
proof -
  have "mgr_ok (cleanupPending now m, ts @ [[]])"
    using mgr_ok_distinct [OF ok]
    by (intro forget_ok [OF ok]) (auto simp: cleanupPending_def Let_def pending_adds_def distinct_map_filter)
  then show ?thesis by (rule mgr_ok_idle)
qed

lemma channel_event_mgr_ok:
  assumes ok: "mgr_ok (m, ts)" and i: "i < length (objects m)" and ev: "channel_event (objects m ! i) c"
  shows "mgr_ok (put_channel i c m, ts @ [closed_calls i c m])"
proof -
  have parts: "admission_ok (m, ts)" "removals_ok (m, ts)" "registry_ok m" using ok by (simp_all add: mgr_ok_def)
  have adds: "pending_adds j (ts @ [closed_calls i c m]) = pending_adds j ts" for j
    by (simp add: pending_adds_append) (simp add: pending_adds_def closed_calls_adds)
  have "admission_ok (put_channel i c m, ts @ [closed_calls i c m])"
  proof (rule put_channel_admission [OF parts(1) i])
    show "set (concat (ts @ [closed_calls i c m])) \<subseteq> insert (i, CallOnClosed) (set (concat ts))"
      by (auto dest: closed_calls_only)
    assume "0 < MaxSubscribersPerPod (mgr_config m)"
    then have "int (length (subscribers (objects m ! i)) + pending_adds i ts) \<le> MaxSubscribersPerPod (mgr_config m) + 1"
      using parts(1) i by (simp add: admission_ok_def)
    then show "int (length (subscribers c) + pending_adds i (ts @ [closed_calls i c m])) \<le> MaxSubscribersPerPod (mgr_config m) + 1"
      using channel_event_fewer [OF ev] by (simp add: fewer_def adds)
  qed (simp add: adds)
  moreover have "removals_ok (put_channel i c m, ts @ [closed_calls i c m])"
  proof (rule put_channel_removals [OF parts(2,3) i ch_event [OF ev]])
    have "removal_next (closed_calls i c m)" by (simp add: closed_calls_def)
    then show "\<forall>calls \<in> set (ts @ [closed_calls i c m]). removal_next calls"
      using parts(2) by (auto simp: removals_ok_def)
  qed auto
  ultimately show ?thesis
    using ok put_channel_maps put_channel_registry [OF _ i ch_event [OF ev]] by (simp add: mgr_ok_def)
qed

lemma mgr_step_ok: "mgr_step s s' \<Longrightarrow> mgr_ok s \<Longrightarrow> mgr_ok s'"
proof (induction rule: mgr_step.induct)
  case (mgr_call wr call m res callbacks m' ts1 calls ts2)
  then show ?case using call_step_ok [of m ts1 "fst call" "snd call" calls ts2 wr res callbacks m'] by simp
qed (auto intro: publisher_locked_ok subscriber_locked_ok CloseChannel_locked_ok manager_Close_locked_ok
    cleanupPending_ok channel_event_mgr_ok)

lemma removal_next_first: "removal_next cs \<Longrightarrow> (i, CallOnClosed) \<in> set cs \<Longrightarrow> \<exists>calls. cs = (i, CallOnClosed) # calls"
  by (cases cs) auto

lemma removal_is_next:
  assumes "removals_ok (m, ts)" "(k, i) \<in> set (channels m)" "closed (objects m ! i)"
  shows "\<exists>calls. (i, CallOnClosed) # calls \<in> set ts"
proof -
  obtain cs where cs: "cs \<in> set ts" "(i, CallOnClosed) \<in> set cs" "removal_next cs"
    using assms by (auto simp: removals_ok_def)
  then show ?thesis using removal_next_first by metis
qed

definition mgr_initial :: "mgr_state \<Rightarrow> bool" where
  "mgr_initial s \<longleftrightarrow> (\<exists>cfg. 0 < mgrOutputBufferCount cfg \<and> 0 \<le> mgrOutputBufferSize cfg \<and>
     s = (NewChannelManagerWithConfig cfg, []))"

interpretation mgr_inv: state_machine mgr_initial mgr_step mgr_ok
proof
  show "mgr_initial s \<Longrightarrow> mgr_ok s" for s
    by (auto simp: mgr_initial_def NewChannelManagerWithConfig_def mgr_ok_def maps_ok_def registry_ok_def
        admission_ok_def removals_ok_def pending_adds_def)
  show "mgr_step s s' \<Longrightarrow> mgr_ok s \<Longrightarrow> mgr_ok s'" for s s' by (rule mgr_step_ok)
qed

section \<open>Lemmas: whole handlers\<close>

text \<open>\<open>elsewhere k m m'\<close>: nothing changed for any pod but \<open>k\<close>.\<close>

definition elsewhere :: "string \<Rightarrow> manager \<Rightarrow> manager \<Rightarrow> bool" where
  "elsewhere k m m' \<longleftrightarrow>
     (\<forall>k'. k' \<noteq> k \<longrightarrow> GetChannel k' m' = GetChannel k' m \<and>
        map_of (pendingPublishers m') k' = map_of (pendingPublishers m) k' \<and>
        map_of (pendingSubscribers m') k' = map_of (pendingSubscribers m) k')"

lemma elsewhere_refl: "elsewhere k m m"
  by (simp add: elsewhere_def)

lemma elsewhere_trans: "elsewhere k a b \<Longrightarrow> elsewhere k b c \<Longrightarrow> elsewhere k a c"
  by (simp add: elsewhere_def)

lemma run_call_cases:
  assumes "run_call wr (i, call) m = (res, m')"
  obtains (removal) "call = CallOnClosed" "m' = onChannelClosed (PodKey (objects m ! i)) m"
  | (channel) c where "call_channel wr call (objects m ! i) = (res, c)" "call \<noteq> CallOnClosed" "m' = put_channel i c m"
  | (closed) c where "call_channel wr call (objects m ! i) = (res, c)" "call \<noteq> CallOnClosed" "i < length (objects m) \<Longrightarrow>
      m' = onChannelClosed (PodKey c) (put_channel i c m)"
proof -
  obtain callbacks m1 where s: "call_step wr (i, call) m = (res, callbacks, m1)"
    and m': "m' = fold (\<lambda>callback m. snd (snd (call_step wr callback m))) callbacks m1"
    using assms by (auto simp: run_call_def split: prod.splits)
  from s show thesis
  proof (cases rule: call_stepE)
    case removal
    then show thesis using m' that(1) by simp
  next
    case (channel c)
    show thesis
    proof (cases "closed_calls i c m = []")
      case True
      then show thesis using channel m' that(2) [OF channel(2,1)] by simp
    next
      case False
      then have "m' = onChannelClosed (PodKey (objects (put_channel i c m) ! i)) (put_channel i c m)"
        using channel m' by (auto simp: closed_calls_def call_step_def split: if_splits)
      then show thesis by (intro that(3) [OF channel(2,1)]) simp
    qed
  qed
qed

lemma run_call_elsewhere:
  assumes reg: "registry_ok m" and i: "i < length (objects m)" "PodKey (objects m ! i) = k"
    and run: "run_call wr (i, call) m = (res, m')"
  shows "registry_ok m' \<and> i < length (objects m') \<and> PodKey (objects m' ! i) = k \<and> elsewhere k m m'"
proof -
  have removal: "elsewhere k m1 (onChannelClosed k m1)" for m1
    by (simp add: elsewhere_def GetChannel_def delete_conv)
  have put: "registry_ok (put_channel i c m) \<and> PodKey c = k \<and> elsewhere k m (put_channel i c m)"
    if c: "call_channel wr call (objects m ! i) = (res, c)" "call \<noteq> CallOnClosed" for c
  proof -
    note step = call_channel_step [OF c]
    have "i \<noteq> j" if "map_of (channels m) k' = Some j" "k' \<noteq> k" for j k'
      using map_of_SomeD [OF that(1)] reg i(2) that(2) by (auto simp: registry_ok_def)
    then have "GetChannel k' (put_channel i c m) = GetChannel k' m" if "k' \<noteq> k" for k'
      using that by (cases "map_of (channels m) k'") (simp_all add: GetChannel_def nth_list_update_neq)
    then show ?thesis
      using put_channel_registry [OF reg i(1) step] channel_step_PodKey [OF step] i(2) by (simp add: elsewhere_def)
  qed
  from run show ?thesis
  proof (cases rule: run_call_cases)
    case removal': removal
    then show ?thesis using removal [of m] onChannelClosed_registry [OF reg] i by simp
  next
    case (channel c)
    then show ?thesis using put [OF channel(1,2)] channel(3) i(1) by simp
  next
    case (closed c)
    then show ?thesis
      using put [OF closed(1,2)] closed(3) removal [of "put_channel i c m"] i(1) onChannelClosed_registry elsewhere_trans
      by auto
  qed
qed

lemma run_calls_elsewhere:
  assumes "registry_ok m" "i < length (objects m)" "PodKey (objects m ! i) = k"
    and "run_calls wr (map (Pair i) calls) m = (res, m')"
  shows "elsewhere k m m'"
  using assms
proof (induction calls arbitrary: m)
  case (Cons call calls)
  obtain r m1 where r: "run_call wr (i, call) m = (r, m1)" by fastforce
  have step: "registry_ok m1 \<and> i < length (objects m1) \<and> PodKey (objects m1 ! i) = k \<and> elsewhere k m m1"
    by (rule run_call_elsewhere [OF Cons.prems(1-3) r])
  show ?case
  proof (cases r)
    case (Inl e)
    then show ?thesis using Cons.prems(4) r step by simp
  next
    case (Inr u)
    then have "run_calls wr (map (Pair i) calls) m1 = (res, m')" using Cons.prems(4) r by simp
    then have "elsewhere k m1 m'" using Cons.IH step by blast
    then show ?thesis using step elsewhere_trans by blast
  qed
qed (auto intro: elsewhere_refl)

lemma create_elsewhere:
  assumes "registry_ok m"
  shows "elsewhere k m (create_channel k m)"
proof -
  have "i < length (objects m)" if "map_of (channels m) k' = Some i" for k' i
    using assms map_of_SomeD [OF that] by (auto simp: registry_ok_def)
  then show ?thesis
    by (auto simp: elsewhere_def create_channel_def GetChannel_def update_conv nth_append
        intro!: map_option_cong)
qed

lemma registry_index:
  "registry_ok m \<Longrightarrow> map_of (channels m) k = Some i \<Longrightarrow> i < length (objects m) \<and> PodKey (objects m ! i) = k"
  by (drule map_of_SomeD) (auto simp: registry_ok_def)

lemma registry_pendings:
  "registry_ok (m\<lparr>pendingPublishers := ps\<rparr>) = registry_ok m" "registry_ok (m\<lparr>pendingSubscribers := ss\<rparr>) = registry_ok m"
  by (simp_all add: registry_ok_def)

lemma create_channel_index:
  "length (objects m) < length (objects (create_channel k m)) \<and>
   PodKey (objects (create_channel k m) ! length (objects m)) = k"
  by (simp add: create_channel_def NewTerminalChannelWithConfig_def)

text \<open>
  The three outcomes of the part under a handler's lock: calls on the registered channel, a new channel for a
  waiting counterpart, or waiting.
\<close>

lemma create_and_run_elsewhere:
  assumes reg: "registry_ok m" and k: "map_of (channels m) k = None" and m0: "elsewhere k m m0" "registry_ok m0"
    "channels m0 = channels m" "objects m0 = objects m"
    and run: "run_calls wr [(length (objects m), call1), (length (objects m), call2)] (create_channel k m0) = (res, m')"
  shows "elsewhere k m m'"
proof -
  have "registry_ok (create_channel k m0)" using create_registry [OF m0(2)] k m0(3) by simp
  then have "elsewhere k (create_channel k m0) m'"
    using create_channel_index [of m0 k] run m0(4)
    by (intro run_calls_elsewhere [of _ "length (objects m0)" _ wr "[call1, call2]" res]) simp_all
  then show ?thesis using m0(1) create_elsewhere [OF m0(2)] elsewhere_trans by blast
qed

lemma HandlePublisherConnect_elsewhere:
  assumes reg: "registry_ok m" and run: "HandlePublisherConnect wr now k conn m = (res, m')"
  shows "elsewhere k m m'"
proof (cases "map_of (channels m) k")
  case (Some i)
  then have "run_calls wr (map (Pair i) [CallSetPublisher conn]) m = (res, m')"
    using run by (simp add: HandlePublisherConnect_def HandlePublisherConnect_locked_def)
  then show ?thesis
    by (rule run_calls_elsewhere [OF reg, rotated -1]) (use registry_index [OF reg Some] in simp_all)
next
  case None
  note no_channel = None
  show ?thesis
  proof (cases "map_of (pendingSubscribers m) k")
    case (Some x)
    obtain subConn sid t where x: "x = (subConn, sid, t)" by (cases x)
    let ?m = "m\<lparr>pendingSubscribers := AList.delete k (pendingSubscribers m)\<rparr>"
    have "run_calls wr [(length (objects m), CallSetPublisher conn), (length (objects m), CallAddSubscriber sid subConn)]
        (create_channel k ?m) = (res, m')"
      using run None Some x by (simp add: HandlePublisherConnect_def HandlePublisherConnect_locked_def del: run_calls.simps)
    then show ?thesis
      by (rule create_and_run_elsewhere [OF reg None, rotated -1])
        (use reg in \<open>simp_all add: registry_pendings elsewhere_def GetChannel_def delete_conv\<close>)
  next
    case None
    have "channels m' = channels m" "objects m' = objects m" "pendingSubscribers m' = pendingSubscribers m"
      "pendingPublishers m' = AList.update k (conn, now) (pendingPublishers m)"
      using run None no_channel
      by (auto simp: HandlePublisherConnect_def HandlePublisherConnect_locked_def Let_def closeWithReason_def
          drop_conn_def split: option.splits)
    then show ?thesis by (simp add: elsewhere_def GetChannel_def update_conv)
  qed
qed

lemma HandleSubscriberConnect_elsewhere:
  assumes reg: "registry_ok m" and run: "HandleSubscriberConnect wr now k sid conn m = (res, m')"
  shows "elsewhere k m m'"
proof (cases "map_of (channels m) k")
  case (Some i)
  then have "run_calls wr (map (Pair i) [CallAddSubscriberWithLimit sid conn (MaxSubscribersPerPod (mgr_config m))]) m = (res, m')"
    using run by (simp add: HandleSubscriberConnect_def HandleSubscriberConnect_locked_def)
  then show ?thesis
    by (rule run_calls_elsewhere [OF reg, rotated -1]) (use registry_index [OF reg Some] in simp_all)
next
  case None
  note no_channel = None
  show ?thesis
  proof (cases "map_of (pendingPublishers m) k")
    case (Some x)
    obtain pubConn t where x: "x = (pubConn, t)" by (cases x)
    let ?m = "m\<lparr>pendingPublishers := AList.delete k (pendingPublishers m)\<rparr>"
    have "run_calls wr [(length (objects m), CallSetPublisher pubConn), (length (objects m), CallAddSubscriber sid conn)]
        (create_channel k ?m) = (res, m')"
      using run None Some x by (simp add: HandleSubscriberConnect_def HandleSubscriberConnect_locked_def del: run_calls.simps)
    then show ?thesis
      by (rule create_and_run_elsewhere [OF reg None, rotated -1])
        (use reg in \<open>simp_all add: registry_pendings elsewhere_def GetChannel_def delete_conv\<close>)
  next
    case None
    have "channels m' = channels m" "objects m' = objects m" "pendingPublishers m' = pendingPublishers m"
      "pendingSubscribers m' = AList.update k (conn, sid, now) (pendingSubscribers m)"
      using run None no_channel
      by (auto simp: HandleSubscriberConnect_def HandleSubscriberConnect_locked_def Let_def closeWithReason_def
          drop_conn_def split: option.splits)
    then show ?thesis by (simp add: elsewhere_def GetChannel_def update_conv)
  qed
qed

lemma elsewhere_drop: "elsewhere k m m' \<Longrightarrow> elsewhere k m (drop_conn conn m')"
  by (simp add: elsewhere_def drop_conn_def GetChannel_def)

section \<open>Lemmas: closing everything\<close>

lemma run_close:
  "i < length (objects m) \<Longrightarrow> \<exists>m1. run_call wr (i, CallClose) m = (Inr (), m1) \<and>
     objects m1 = (objects m)[i := closeInternal wr (objects m ! i)] \<and> (channels m = [] \<longrightarrow> channels m1 = []) \<and>
     pendingPublishers m1 = pendingPublishers m \<and> pendingSubscribers m1 = pendingSubscribers m \<and>
     droppedConns m1 = droppedConns m"
  by (simp add: run_call_def call_step_def channel_Close_def closed_calls_def)

lemma close_all:
  assumes "\<forall>c \<in> set (objects m). channel_ok c" "\<forall>i \<in> set is. i < length (objects m)"
    and "run_calls wr (map (\<lambda>i. (i, CallClose)) is) m = (res, m')" "channels m = []"
  shows "(\<forall>i \<in> set is. closed (objects m' ! i)) \<and> (\<forall>i < length (objects m). closed (objects m ! i) \<longrightarrow> closed (objects m' ! i)) \<and>
    channels m' = [] \<and> pendingPublishers m' = pendingPublishers m \<and> pendingSubscribers m' = pendingSubscribers m \<and>
    droppedConns m' = droppedConns m"
  using assms
proof (induction "is" arbitrary: m)
  case (Cons i "is")
  let ?c = "closeInternal wr (objects m ! i)"
  have i: "i < length (objects m)" using Cons.prems(2) by simp
  obtain m1 where m1: "run_call wr (i, CallClose) m = (Inr (), m1)" "objects m1 = (objects m)[i := ?c]"
    "channels m = [] \<longrightarrow> channels m1 = []" "pendingPublishers m1 = pendingPublishers m"
    "pendingSubscribers m1 = pendingSubscribers m" "droppedConns m1 = droppedConns m"
    using run_close [OF i] by blast
  have ok: "channel_ok ?c" "closed ?c" using closeInternal_ok [of "objects m ! i" wr] Cons.prems(1) i by auto
  have "run_calls wr (map (\<lambda>i. (i, CallClose)) is) m1 = (res, m')" using Cons.prems(3) m1(1) by simp
  moreover have "\<forall>c \<in> set (objects m1). channel_ok c"
    using Cons.prems(1) ok(1) m1(2) by (auto dest: set_update_subset_insert [THEN subsetD])
  moreover have "channels m1 = []" using Cons.prems(4) m1(3) by simp
  ultimately have IH: "(\<forall>j \<in> set is. closed (objects m' ! j)) \<and>
      (\<forall>j < length (objects m1). closed (objects m1 ! j) \<longrightarrow> closed (objects m' ! j)) \<and> channels m' = [] \<and>
      pendingPublishers m' = pendingPublishers m1 \<and> pendingSubscribers m' = pendingSubscribers m1 \<and>
      droppedConns m' = droppedConns m1"
    using Cons.prems(2) m1(2) by (intro Cons.IH) simp_all
  moreover have "closed (objects m1 ! j)" if "closed (objects m ! j)" "j < length (objects m)" for j
    using that ok(2) m1(2) by (cases "j = i") simp_all
  moreover have "closed (objects m1 ! i)" "i < length (objects m1)" using ok(2) i m1(2) by simp_all
  ultimately show ?case using m1(2,4-6) by auto
qed simp

section \<open>Lemmas: the first connections\<close>

lemma delete_new: "map_of xs k = None \<Longrightarrow> AList.delete k (xs @ [(k, v)]) = xs"
  by (induction xs) (auto split: if_splits)

lemma map_of_new: "map_of xs k = None \<Longrightarrow> map_of (xs @ [(k, v)]) k = Some v"
  by (simp add: map_add_def)

lemma NewTerminalChannel_fields:
  "channelClosedCalls (NewTerminalChannelWithConfig k cfg) = 0" "closed (NewTerminalChannelWithConfig k cfg) = False"
  by (simp_all add: NewTerminalChannelWithConfig_def)

lemma first_connections:
  "SetPublisher wr p (NewTerminalChannelWithConfig k cfg) =
     (NewTerminalChannelWithConfig k cfg)\<lparr>publisher := Some p, publisherEpoch := 1, pubLoops := [(p, 1)]\<rparr>"
  "AddSubscriber wr sid s ((NewTerminalChannelWithConfig k cfg)\<lparr>publisher := Some p, publisherEpoch := e, pubLoops := ls\<rparr>) =
     (NewTerminalChannelWithConfig k cfg)\<lparr>publisher := Some p, publisherEpoch := e, pubLoops := ls,
       subscribers := [(sid, s)], subLoops := [(sid, s)]\<rparr>"
  by (simp_all add: SetPublisher_def AddSubscriber_def addSubscriberInternal_def NewTerminalChannelWithConfig_def
      publisherWait_def)

section \<open>Properties\<close>

text \<open>
  C25. The registry of the relay, under every interleaving of connecting, closing, cleaning up, channel events and
  the callbacks of closed channels: a registered channel belongs to the pod it is registered for; it is open, or
  the goroutine that closed it has its removal as its next call; a pod never has a channel together with a waiting
  connection, nor a waiting publisher together with a waiting subscriber. So when no call is under way every
  registered channel is open. The relay is configured with a positive number of output messages per channel, and
  what a channel does when it closes is one step up to its callback.
\<close>

theorem registry_invariant:
  assumes "mgr_step\<^sup>*\<^sup>* (NewChannelManagerWithConfig cfg, []) (m, ts)"
    and "0 < mgrOutputBufferCount cfg" "0 \<le> mgrOutputBufferSize cfg"
  shows "(\<forall>i. map_of (channels m) k = Some i \<longrightarrow>
      i < length (objects m) \<and> PodKey (objects m ! i) = k \<and> channel_ok (objects m ! i) \<and>
      (closed (objects m ! i) \<longrightarrow> (\<exists>calls. (i, CallOnClosed) # calls \<in> set ts)) \<and>
      map_of (pendingPublishers m) k = None \<and> map_of (pendingSubscribers m) k = None) \<and>
    (map_of (pendingPublishers m) k = None \<or> map_of (pendingSubscribers m) k = None)"
proof -
  have "mgr_ok (m, ts)"
    using assms(2,3) by (intro mgr_inv.inv_reachable [OF _ assms(1)]) (auto simp: mgr_initial_def)
  then have ok: "maps_ok m" "registry_ok m" "removals_ok (m, ts)" by (simp_all add: mgr_ok_def)
  have "i < length (objects m) \<and> PodKey (objects m ! i) = k \<and> channel_ok (objects m ! i) \<and>
      (closed (objects m ! i) \<longrightarrow> (\<exists>calls. (i, CallOnClosed) # calls \<in> set ts)) \<and>
      map_of (pendingPublishers m) k = None \<and> map_of (pendingSubscribers m) k = None"
    if i: "map_of (channels m) k = Some i" for i
  proof -
    have entry: "i < length (objects m)" "PodKey (objects m ! i) = k" using registry_index [OF ok(2) i] by simp_all
    moreover have "channel_ok (objects m ! i)" using ok(2) entry(1) by (auto simp: registry_ok_def)
    moreover have "k \<notin> fst ` set (pendingPublishers m)" "k \<notin> fst ` set (pendingSubscribers m)"
      using ok(1) map_of_key [OF i] unfolding maps_ok_def by blast+
    moreover have "\<exists>calls. (i, CallOnClosed) # calls \<in> set ts" if "closed (objects m ! i)"
      by (rule removal_is_next [OF ok(3) map_of_SomeD [OF i] that])
    ultimately show ?thesis by (simp add: map_of_eq_None_iff)
  qed
  moreover have "map_of (pendingPublishers m) k = None \<or> map_of (pendingSubscribers m) k = None"
    using mgr_ok_disjoint(1) [OF \<open>mgr_ok (m, ts)\<close>] by (cases "map_of (pendingSubscribers m) k") auto
  ultimately show ?thesis by blast
qed

text \<open>
  C29. Admission control under every interleaving: a channel never has more than one subscriber above the
  configured limit.
\<close>

theorem subscriber_limit:
  assumes "mgr_step\<^sup>*\<^sup>* (NewChannelManagerWithConfig cfg, []) (m, ts)"
    and "0 < mgrOutputBufferCount cfg" "0 \<le> mgrOutputBufferSize cfg"
    and "0 < MaxSubscribersPerPod (mgr_config m)" "c \<in> set (objects m)"
  shows "int (length (subscribers c)) \<le> MaxSubscribersPerPod (mgr_config m) + 1"
proof -
  have "mgr_ok (m, ts)"
    using assms(2,3) by (intro mgr_inv.inv_reachable [OF _ assms(1)]) (auto simp: mgr_initial_def)
  moreover obtain i where "i < length (objects m)" "c = objects m ! i" using assms(5) by (auto simp: in_set_conv_nth)
  ultimately have "int (length (subscribers c) + pending_adds i ts) \<le> MaxSubscribersPerPod (mgr_config m) + 1"
    using assms(4) by (simp add: mgr_ok_def admission_ok_def)
  then show ?thesis by simp
qed

text \<open>
  C28. Rendezvous: for a pod that is not known yet it does not matter who connects first. A runner and a browser
  end in the same state: one new open channel with that publisher and that subscriber, nothing left waiting.
\<close>

theorem rendezvous_order_irrelevant:
  assumes "map_of (channels m) k = None" "map_of (pendingPublishers m) k = None"
    "map_of (pendingSubscribers m) k = None"
  shows "snd (HandleSubscriberConnect wr t2 k sid s (snd (HandlePublisherConnect wr t1 k p m))) =
      snd (HandlePublisherConnect wr t3 k p (snd (HandleSubscriberConnect wr t4 k sid s m))) \<and>
    (\<exists>c. GetChannel k (snd (HandleSubscriberConnect wr t2 k sid s (snd (HandlePublisherConnect wr t1 k p m)))) = Some c \<and>
      publisher c = Some p \<and> subscribers c = [(sid, s)] \<and> pubLoops c = [(p, 1)] \<and> subLoops c = [(sid, s)] \<and>
      \<not> closed c)"
proof -
  let ?n = "length (objects m)"
  let ?m = "create_channel k m"
  let ?go = "run_calls wr [(?n, CallSetPublisher p), (?n, CallAddSubscriber sid s)] ?m"
  have pub: "HandlePublisherConnect wr t1 k p m = (Inr (), m\<lparr>pendingPublishers := pendingPublishers m @ [(k, p, t1)]\<rparr>)"
    using assms by (simp add: HandlePublisherConnect_def HandlePublisherConnect_locked_def update_new)
  have sub: "HandleSubscriberConnect wr t4 k sid s m =
      (Inr (), m\<lparr>pendingSubscribers := pendingSubscribers m @ [(k, s, sid, t4)]\<rparr>)"
    using assms by (simp add: HandleSubscriberConnect_def HandleSubscriberConnect_locked_def update_new)
  have "HandleSubscriberConnect wr t2 k sid s (m\<lparr>pendingPublishers := pendingPublishers m @ [(k, p, t1)]\<rparr>) = ?go"
    using assms by (simp add: HandleSubscriberConnect_def HandleSubscriberConnect_locked_def delete_new map_of_new del: run_calls.simps map_of_append)
  moreover have "HandlePublisherConnect wr t3 k p (m\<lparr>pendingSubscribers := pendingSubscribers m @ [(k, s, sid, t4)]\<rparr>) = ?go"
    using assms by (simp add: HandlePublisherConnect_def HandlePublisherConnect_locked_def delete_new map_of_new del: run_calls.simps map_of_append)
  moreover have "\<exists>c. GetChannel k (snd ?go) = Some c \<and> publisher c = Some p \<and> subscribers c = [(sid, s)] \<and>
      pubLoops c = [(p, 1)] \<and> subLoops c = [(sid, s)] \<and> \<not> closed c"
    using assms(1)
    by (simp add: create_channel_def run_call_def call_step_def closed_calls_def put_channel_def first_connections
        GetChannel_def update_new map_of_new NewTerminalChannel_fields del: map_of_append)
  ultimately show ?thesis by (simp add: pub sub)
qed

text \<open>
  C26. Pods are isolated: a request with a valid token leaves the channel and the waiting connections of every
  pod other than the token's untouched.
\<close>

theorem pod_isolation:
  assumes "registry_ok m" "ValidateToken parse v tok = Inr claims" "k \<noteq> claim_PodKey claims"
    and "m' = snd (HandleRunnerWS accepting parse v upgrade wr now tok m) \<or>
      m' = snd (HandleBrowserWS accepting parse v upgrade wr now sid tok m)"
  shows "GetChannel k m' = GetChannel k m \<and>
    map_of (pendingPublishers m') k = map_of (pendingPublishers m) k \<and>
    map_of (pendingSubscribers m') k = map_of (pendingSubscribers m) k"
proof -
  let ?k = "claim_PodKey claims"
  have pub: "elsewhere ?k m (snd (HandlePublisherConnect wr now ?k conn m))" for conn
    by (rule HandlePublisherConnect_elsewhere [OF assms(1) prod.collapse [symmetric]])
  have sub: "elsewhere ?k m (snd (HandleSubscriberConnect wr now ?k sid conn m))" for conn
    by (rule HandleSubscriberConnect_elsewhere [OF assms(1) prod.collapse [symmetric]])
  have "elsewhere ?k m (snd (HandleRunnerWS accepting parse v upgrade wr now tok m))"
    using assms(2) pub elsewhere_drop
    by (auto simp: HandleRunnerWS_def elsewhere_refl case_prod_unfold split: option.split sum.split)
  moreover have "elsewhere ?k m (snd (HandleBrowserWS accepting parse v upgrade wr now sid tok m))"
    using assms(2) sub elsewhere_drop
    by (auto simp: HandleBrowserWS_def elsewhere_refl case_prod_unfold split: option.split sum.split)
  ultimately show ?thesis using assms(3,4) by (auto simp: elsewhere_def)
qed

text \<open>
  C27. The two endpoints are separated: whatever the token library returns, one token opens at most one of them;
  the other answers with an HTTP error and leaves the relay unchanged. A token that does not validate opens
  neither.
\<close>

theorem endpoints_are_separated:
  "(\<exists>code msg. HandleRunnerWS accepting parse v upgrade wr now tok m = (HttpError code msg, m)) \<or>
   (\<exists>code msg. HandleBrowserWS accepting parse v upgrade' wr' now' sid tok m' = (HttpError code msg, m'))"
  by (cases "ValidateToken parse v tok") (auto simp: HandleRunnerWS_def HandleBrowserWS_def)

text \<open>
  Shutting down releases everything: the manager holds no channel and no waiting connection afterwards, every
  channel that was registered is closed and every waiting connection has been closed.
\<close>

theorem manager_Close_releases_all:
  assumes "registry_ok m"
  shows "channels (manager_Close wr m) = [] \<and> pendingPublishers (manager_Close wr m) = [] \<and>
    pendingSubscribers (manager_Close wr m) = [] \<and>
    (\<forall>k i. map_of (channels m) k = Some i \<longrightarrow> closed (objects (manager_Close wr m) ! i)) \<and>
    (\<forall>k conn t. map_of (pendingPublishers m) k = Some (conn, t) \<longrightarrow> conn \<in> set (droppedConns (manager_Close wr m))) \<and>
    (\<forall>k conn x. map_of (pendingSubscribers m) k = Some (conn, x) \<longrightarrow> conn \<in> set (droppedConns (manager_Close wr m)))"
proof -
  obtain calls m1 where l: "manager_Close_locked m = (calls, m1)" by fastforce
  have calls: "calls = map (\<lambda>i. (i, CallClose)) (map snd (channels m))"
    using l by (auto simp: manager_Close_locked_def)
  obtain res m' where r: "run_calls wr calls m1 = (res, m')" by fastforce
  have m': "manager_Close wr m = m'" using l r by (simp add: manager_Close_def)
  have m1: "objects m1 = objects m" "channels m1 = []" "pendingPublishers m1 = []" "pendingSubscribers m1 = []"
    "droppedConns m1 = droppedConns m @ map (\<lambda>(_, conn, _). conn) (pendingPublishers m)
      @ map (\<lambda>(_, conn, _). conn) (pendingSubscribers m)"
    using l by (auto simp: manager_Close_locked_def)
  have ix: "i < length (objects m)" if "i \<in> set (map snd (channels m))" for i
    using that assms by (auto simp: registry_ok_def)
  have done_all: "(\<forall>i \<in> set (map snd (channels m)). closed (objects m' ! i)) \<and> channels m' = [] \<and>
      pendingPublishers m' = [] \<and> pendingSubscribers m' = [] \<and> droppedConns m' = droppedConns m1"
    using close_all [of m1 "map snd (channels m)" wr res m'] r assms ix by (simp add: calls m1 registry_ok_def)
  have "closed (objects m' ! i)" if "map_of (channels m) k = Some i" for k i
    using done_all map_of_SomeD [OF that] by force
  moreover have "conn \<in> set (droppedConns m')" if "map_of (pendingPublishers m) k = Some (conn, t)" for k conn t
    using done_all m1(5) map_of_SomeD [OF that] by force
  moreover have "conn \<in> set (droppedConns m')" if "map_of (pendingSubscribers m) k = Some (conn, x)" for k conn x
    using done_all m1(5) map_of_SomeD [OF that] by force
  ultimately show ?thesis using done_all by (simp add: m')
qed

section \<open>Witnesses\<close>

text \<open>A fresh relay, one with a waiting runner, and one in which a browser has just met that runner.\<close>

definition fresh_relay :: manager where
  "fresh_relay = NewChannelManagerWithConfig DefaultChannelManagerConfig"

definition waiting_relay :: manager where
  "waiting_relay = snd (HandlePublisherConnect_locked 0 ''pod'' 7 fresh_relay)"

definition paired_relay :: manager where
  "paired_relay = snd (HandleSubscriberConnect_locked 5 ''pod'' ''a'' 8 waiting_relay)"

definition pairing_calls :: "(nat \<times> channel_call) list" where
  "pairing_calls = [(0, CallSetPublisher 7), (0, CallAddSubscriber ''a'' 8)]"

lemma relay_locked:
  "HandlePublisherConnect_locked 0 ''pod'' 7 fresh_relay = ([], waiting_relay)"
  "HandleSubscriberConnect_locked 5 ''pod'' ''a'' 8 waiting_relay = (pairing_calls, paired_relay)"
  "0 < mgrOutputBufferCount DefaultChannelManagerConfig" "0 \<le> mgrOutputBufferSize DefaultChannelManagerConfig"
  by code_simp+

lemma paired_relay_reachable:
  "mgr_step\<^sup>*\<^sup>* (NewChannelManagerWithConfig DefaultChannelManagerConfig, []) (paired_relay, [[], pairing_calls])"
proof -
  have "mgr_step (fresh_relay, []) (waiting_relay, [] @ [[]])"
    by (rule mgr_publisher [OF relay_locked(1)])
  moreover have "mgr_step (waiting_relay, [[]]) (paired_relay, [[]] @ [pairing_calls])"
    by (rule mgr_subscriber [OF relay_locked(2)])
  ultimately show ?thesis unfolding fresh_relay_def by (simp add: converse_rtranclp_into_rtranclp)
qed

theorem registry_invariant_witness:
  "PodKey (objects paired_relay ! 0) = ''pod'' \<and> \<not> closed (objects paired_relay ! 0)"
proof -
  have "map_of (channels paired_relay) ''pod'' = Some 0" by code_simp
  then show ?thesis
    using registry_invariant [OF paired_relay_reachable relay_locked(3,4), of "''pod''"] by (auto simp: pairing_calls_def)
qed

theorem subscriber_limit_witness:
  "int (length (subscribers (NewTerminalChannelWithConfig ''pod'' (buildChannelConfig fresh_relay)))) \<le> 10 + 1"
proof -
  have "NewTerminalChannelWithConfig ''pod'' (buildChannelConfig fresh_relay) \<in> set (objects paired_relay)"
    by code_simp
  moreover have "MaxSubscribersPerPod (mgr_config paired_relay) = 10" by code_simp
  ultimately show ?thesis
    using subscriber_limit [OF paired_relay_reachable relay_locked(3,4)] by simp
qed

theorem rendezvous_order_irrelevant_witness:
  "snd (HandleSubscriberConnect (\<lambda>_ _. True) 5 ''pod'' ''a'' 8 (snd (HandlePublisherConnect (\<lambda>_ _. True) 0 ''pod'' 7 fresh_relay))) =
   snd (HandlePublisherConnect (\<lambda>_ _. True) 5 ''pod'' 7 (snd (HandleSubscriberConnect (\<lambda>_ _. True) 0 ''pod'' ''a'' 8 fresh_relay)))"
proof -
  have "map_of (channels fresh_relay) ''pod'' = None" "map_of (pendingPublishers fresh_relay) ''pod'' = None"
    "map_of (pendingSubscribers fresh_relay) ''pod'' = None" by code_simp+
  then show ?thesis by (rule rendezvous_order_irrelevant [THEN conjunct1])
qed

lemma paired_relay_ok: "registry_ok paired_relay" "map_of (channels paired_relay) ''pod'' = Some 0"
  by code_simp+

lemma sample_validates:
  "ValidateToken sample_parse \<lparr>secretKey = ''s3cret'', validator_issuer = ''mesh''\<rparr> ''token'' = Inr sample_claims"
  by code_simp

theorem pod_isolation_witness:
  "GetChannel ''other'' (snd (HandleRunnerWS True sample_parse \<lparr>secretKey = ''s3cret'', validator_issuer = ''mesh''\<rparr>
     (Some 11) (\<lambda>_ _. True) 9 ''token'' paired_relay)) = GetChannel ''other'' paired_relay"
proof -
  have "''other'' \<noteq> claim_PodKey sample_claims" by code_simp
  then show ?thesis using pod_isolation [OF paired_relay_ok(1) sample_validates] by blast
qed

theorem manager_Close_releases_all_witness:
  "channels (manager_Close (\<lambda>_ _. True) paired_relay) = [] \<and> closed (objects (manager_Close (\<lambda>_ _. True) paired_relay) ! 0)"
  using manager_Close_releases_all [OF paired_relay_ok(1)] paired_relay_ok(2) by blast

section \<open>Limits of the code\<close>

text \<open>
  The limit can be exceeded by one: the browser that completes a rendezvous is added without a limit, after the
  lock has been released, so another browser may be admitted in between. Here the limit is one browser.
\<close>

definition narrow_relay :: manager where
  "narrow_relay = snd (HandleSubscriberConnect_locked 5 ''pod'' ''a'' 8 (snd (HandlePublisherConnect_locked 0 ''pod'' 7
     (NewChannelManagerWithConfig (DefaultChannelManagerConfig\<lparr>MaxSubscribersPerPod := 1\<rparr>)))))"

theorem limit_exceeded_by_one:
  "HandleSubscriberConnect_locked 6 ''pod'' ''b'' 9 narrow_relay =
     ([(0, CallAddSubscriberWithLimit ''b'' 9 1)], narrow_relay) \<and>
   length (subscribers (objects (snd (run_calls (\<lambda>_ _. True)
     [(0, CallSetPublisher 7), (0, CallAddSubscriberWithLimit ''b'' 9 1), (0, CallAddSubscriber ''a'' 8)]
     narrow_relay)) ! 0)) = 2"
  by code_simp

text \<open>
  Between closing a channel and the callback that removes it the channel is closed and still registered. A browser
  that connects then is rejected, and a runner's connection is closed at once, although a moment later both would
  have been kept waiting for their counterpart. Here the runner's connection has broken and the reconnection
  timeout has fired.
\<close>

definition closing_relay :: "manager \<times> (nat \<times> channel_call) list" where
  "closing_relay =
     (let m = snd (run_calls (\<lambda>_ _. True) pairing_calls paired_relay);
          c = reconnectTimeout (\<lambda>_ _. True) (publisherReadError (\<lambda>_ _. True) 7 1 (objects m ! 0))
      in (put_channel 0 c m, closed_calls 0 c m))"

theorem closed_channel_still_registered:
  "map_of (channels (fst closing_relay)) ''pod'' = Some 0 \<and> closed (objects (fst closing_relay) ! 0) \<and>
   snd closing_relay = [(0, CallOnClosed)] \<and>
   fst (HandleSubscriberConnect (\<lambda>_ _. True) 30 ''pod'' ''b'' 9 (fst closing_relay)) = Inl ChannelClosed \<and>
   map_of (channels (snd (run_calls (\<lambda>_ _. True) (snd closing_relay) (fst closing_relay)))) ''pod'' = None"
  by code_simp

text \<open>
  A channel is removed from the registry by its key when it has closed. If \<open>CloseChannel\<close> has taken a channel out
  and a new channel for the same pod is registered before the old one is closed, the callback of the old channel
  removes the new one: it stays open, with a publisher and a subscriber, and is not registered any more.
\<close>

definition restarted_relay :: manager where
  "restarted_relay =
     snd (HandleSubscriberConnect (\<lambda>_ _. True) 31 ''pod'' ''b'' 12
       (snd (HandlePublisherConnect (\<lambda>_ _. True) 30 ''pod'' 11
         (snd (CloseChannel_locked ''pod'' (snd (run_calls (\<lambda>_ _. True) pairing_calls paired_relay)))))))"

theorem late_close_unregisters_new_channel:
  "map_of (channels restarted_relay) ''pod'' = Some 1 \<and>
   GetChannel ''pod'' (snd (run_call (\<lambda>_ _. True) (0, CallClose) restarted_relay)) = None \<and>
   \<not> closed (objects (snd (run_call (\<lambda>_ _. True) (0, CallClose) restarted_relay)) ! 1) \<and>
   publisher (objects (snd (run_call (\<lambda>_ _. True) (0, CallClose) restarted_relay)) ! 1) = Some 11"
  by code_simp

end
