(* ===== verification/Go_UTF8.thy ===== *)
theory Go_UTF8
  imports Go_Prelude
begin

text \<open>
  The functions of the package \<open>unicode/utf8\<close> that the terminal code calls. \<open>decode_rune\<close> follows
  \<open>utf8.DecodeRune\<close>: the table of lead bytes with the accepted range of the second byte, and the
  result \<open>(RuneError, 1)\<close> on every malformed or truncated encoding.
\<close>

type_synonym rune = int

definition RuneError :: rune where "RuneError = 0xFFFD"

text \<open>Encoded length and range of the second byte, from the lead byte.\<close>

definition lead_info :: "int \<Rightarrow> (nat \<times> int \<times> int) option" where
  "lead_info b =
     (if 0xC2 \<le> b \<and> b \<le> 0xDF then Some (2, 0x80, 0xBF)
      else if b = 0xE0 then Some (3, 0xA0, 0xBF)
      else if 0xE1 \<le> b \<and> b \<le> 0xEC then Some (3, 0x80, 0xBF)
      else if b = 0xED then Some (3, 0x80, 0x9F)
      else if 0xEE \<le> b \<and> b \<le> 0xEF then Some (3, 0x80, 0xBF)
      else if b = 0xF0 then Some (4, 0x90, 0xBF)
      else if 0xF1 \<le> b \<and> b \<le> 0xF3 then Some (4, 0x80, 0xBF)
      else if b = 0xF4 then Some (4, 0x80, 0x8F)
      else None)"

definition cont_byte :: "int \<Rightarrow> bool" where
  "cont_byte b \<longleftrightarrow> 0x80 \<le> b \<and> b \<le> 0xBF"

definition decode_rune :: "bytes \<Rightarrow> rune \<times> nat" where
  "decode_rune p =
     (case map uint p of
        [] \<Rightarrow> (RuneError, 0)
      | b0 # bs \<Rightarrow>
          if b0 < 0x80 then (b0, 1)
          else (case lead_info b0 of
                  None \<Rightarrow> (RuneError, 1)
                | Some (n, lo, hi) \<Rightarrow>
                    if length p < n then (RuneError, 1)
                    else if \<not> (lo \<le> bs ! 0 \<and> bs ! 0 \<le> hi) then (RuneError, 1)
                    else if n = 2 then ((b0 mod 32) * 64 + bs ! 0 mod 64, 2)
                    else if \<not> cont_byte (bs ! 1) then (RuneError, 1)
                    else if n = 3
                      then ((b0 mod 16) * 4096 + (bs ! 0 mod 64) * 64 + bs ! 1 mod 64, 3)
                    else if \<not> cont_byte (bs ! 2) then (RuneError, 1)
                    else ((b0 mod 8) * 262144 + (bs ! 0 mod 64) * 4096
                            + (bs ! 1 mod 64) * 64 + bs ! 2 mod 64, 4)))"

text \<open>\<open>utf8.RuneStart\<close>: the byte is not a continuation byte.\<close>

definition rune_start :: "byte \<Rightarrow> bool" where
  "rune_start b \<longleftrightarrow> and b 0xC0 \<noteq> 0x80"

section \<open>Lemmas\<close>

lemma lead_info_size: "lead_info b = Some (n, lo, hi) \<Longrightarrow> 2 \<le> n \<and> n \<le> 4"
  by (auto simp: lead_info_def split: if_splits)

lemma decode_rune_Nil [simp]: "decode_rune [] = (RuneError, 0)"
  by (simp add: decode_rune_def)

lemma decode_rune_ascii [simp]: "uint b < 0x80 \<Longrightarrow> decode_rune (b # bs) = (uint b, 1)"
  by (simp add: decode_rune_def)

lemma decode_rune_size:
  assumes "decode_rune p = (r, n)" and "p \<noteq> []"
  shows "1 \<le> n \<and> n \<le> length p"
  using assms
  by (cases p) (auto simp: decode_rune_def Suc_le_eq split: if_splits option.splits
      dest!: lead_info_size)

end
