(* ===== verification/VT_Cell.thy ===== *)
theory VT_Cell
  imports Go_UTF8
begin

text \<open>
  Colours, text attributes and character cells of the terminal emulator
  (\<^verbatim>\<open>runner/internal/terminal/vt/cell.go\<close>). A colour is built by one of the three constructor
  functions of the source only, so the struct with its tag byte is a datatype; \<open>CellAttrs\<close> keeps its
  16-bit representation because the SGR code sets and clears its bits.
\<close>

unbundle bit_operations_syntax

datatype color = DefaultColor | PaletteColor byte | RGBColor byte byte byte

fun IsDefault :: "color \<Rightarrow> bool" where
  "IsDefault DefaultColor = True"
| "IsDefault _ = False"

fun IsPalette :: "color \<Rightarrow> bool" where
  "IsPalette (PaletteColor _) = True"
| "IsPalette _ = False"

fun IsRGB :: "color \<Rightarrow> bool" where
  "IsRGB (RGBColor _ _ _) = True"
| "IsRGB _ = False"

text \<open>The palette index and the RGB components; fields a constructor does not set are zero.\<close>

fun Index :: "color \<Rightarrow> byte" where
  "Index (PaletteColor i) = i"
| "Index _ = 0"

fun RGB :: "color \<Rightarrow> byte \<times> byte \<times> byte" where
  "RGB (RGBColor r g b) = (r, g, b)"
| "RGB _ = (0, 0, 0)"

fun color_Equals :: "color \<Rightarrow> color \<Rightarrow> bool" where
  "color_Equals DefaultColor DefaultColor = True"
| "color_Equals (PaletteColor i) (PaletteColor j) = (i = j)"
| "color_Equals (RGBColor r g b) (RGBColor r' g' b') = (r = r' \<and> g = g' \<and> b = b')"
| "color_Equals _ _ = False"

type_synonym cell_attrs = "16 word"

definition AttrNone :: cell_attrs where "AttrNone = 0"
definition AttrBold :: cell_attrs where "AttrBold = 1"
definition AttrDim :: cell_attrs where "AttrDim = 2"
definition AttrItalic :: cell_attrs where "AttrItalic = 4"
definition AttrUnderline :: cell_attrs where "AttrUnderline = 8"
definition AttrBlink :: cell_attrs where "AttrBlink = 16"
definition AttrInverse :: cell_attrs where "AttrInverse = 32"
definition AttrInvisible :: cell_attrs where "AttrInvisible = 64"
definition AttrStrikethrough :: cell_attrs where "AttrStrikethrough = 128"
definition AttrOverline :: cell_attrs where "AttrOverline = 256"

lemmas attr_defs =
  AttrNone_def AttrBold_def AttrDim_def AttrItalic_def AttrUnderline_def AttrBlink_def
  AttrInverse_def AttrInvisible_def AttrStrikethrough_def AttrOverline_def

datatype underline_style =
  UnderlineNone | UnderlineSingle | UnderlineDouble | UnderlineCurly | UnderlineDotted
| UnderlineDashed

text \<open>The numeric value of the style constant, which the serializer prints.\<close>

fun underline_num :: "underline_style \<Rightarrow> nat" where
  "underline_num UnderlineNone = 0"
| "underline_num UnderlineSingle = 1"
| "underline_num UnderlineDouble = 2"
| "underline_num UnderlineCurly = 3"
| "underline_num UnderlineDotted = 4"
| "underline_num UnderlineDashed = 5"

definition Has :: "cell_attrs \<Rightarrow> cell_attrs \<Rightarrow> bool" where
  "Has a attr \<longleftrightarrow> a AND attr \<noteq> 0"

record cell =
  Ch :: rune
  Fg :: color
  Bg :: color
  Attrs :: cell_attrs
  Width :: byte
  ULStyle :: underline_style
  ULColor :: color

definition NewCell :: "rune \<Rightarrow> cell" where
  "NewCell ch =
     \<lparr>Ch = ch, Fg = DefaultColor, Bg = DefaultColor, Attrs = AttrNone, Width = 1,
      ULStyle = UnderlineNone, ULColor = DefaultColor\<rparr>"

definition NewStyledCell :: "rune \<Rightarrow> color \<Rightarrow> color \<Rightarrow> cell_attrs \<Rightarrow> cell" where
  "NewStyledCell ch fg bg attrs =
     \<lparr>Ch = ch, Fg = fg, Bg = bg, Attrs = attrs, Width = 1,
      ULStyle = UnderlineNone, ULColor = DefaultColor\<rparr>"

definition NewFullStyledCell ::
  "rune \<Rightarrow> color \<Rightarrow> color \<Rightarrow> cell_attrs \<Rightarrow> byte \<Rightarrow> underline_style \<Rightarrow> color \<Rightarrow> cell" where
  "NewFullStyledCell ch fg bg attrs width ulStyle ulColor =
     \<lparr>Ch = ch, Fg = fg, Bg = bg, Attrs = attrs, Width = width,
      ULStyle = ulStyle, ULColor = ulColor\<rparr>"

definition IsEmpty :: "cell \<Rightarrow> bool" where
  "IsEmpty c \<longleftrightarrow> Ch c = 0x20 \<and> IsDefault (Fg c) \<and> IsDefault (Bg c) \<and> Attrs c = AttrNone"

definition StyleEquals :: "cell \<Rightarrow> cell \<Rightarrow> bool" where
  "StyleEquals c d \<longleftrightarrow>
     color_Equals (Fg c) (Fg d) \<and> color_Equals (Bg c) (Bg d) \<and> Attrs c = Attrs d \<and>
     ULStyle c = ULStyle d \<and> color_Equals (ULColor c) (ULColor d)"

definition IsAttributeDefault :: "cell \<Rightarrow> bool" where
  "IsAttributeDefault c \<longleftrightarrow>
     IsDefault (Fg c) \<and> IsDefault (Bg c) \<and> Attrs c = AttrNone \<and>
     ULStyle c = UnderlineNone \<and> IsDefault (ULColor c)"

definition GetWidth :: "cell \<Rightarrow> byte" where
  "GetWidth c = (if Width c = 0 then 0 else Width c)"

section \<open>Lemmas\<close>

lemma color_Equals_iff [simp]: "color_Equals c d \<longleftrightarrow> c = d"
  by (cases c; cases d) auto

lemma IsDefault_iff [simp]: "IsDefault c \<longleftrightarrow> c = DefaultColor"
  by (cases c) auto

lemma GetWidth_eq [simp]: "GetWidth c = Width c"
  by (simp add: GetWidth_def)

lemma Ch_NewCell [simp]: "Ch (NewCell ch) = ch"
  by (simp add: NewCell_def)

lemma Ch_NewFullStyledCell [simp]: "Ch (NewFullStyledCell ch fg bg a w us uc) = ch"
  by (simp add: NewFullStyledCell_def)

lemma StyleEquals_iff:
  "StyleEquals c d \<longleftrightarrow>
     Fg c = Fg d \<and> Bg c = Bg d \<and> Attrs c = Attrs d \<and> ULStyle c = ULStyle d \<and> ULColor c = ULColor d"
  by (simp add: StyleEquals_def)

end
