(* ===== verification/VT_Screen.thy ===== *)
theory VT_Screen
  imports VT_Cell
begin

text \<open>
  The state of the terminal emulator (\<^verbatim>\<open>vt/virtual_terminal.go\<close>) and its screen operations
  (\<^verbatim>\<open>vt/screen.go\<close>): clearing, inserting, deleting and scrolling lines, the scroll-back history and
  the switch between the main and the alternative screen. Every slice access of the source is a
  \<open>go_get\<close> or \<open>go_set\<close>, so an operation returns \<open>None\<close> exactly where the Go code panics.

  Texts are lists of runes. The fields \<open>altScreen\<close> and \<open>altCells\<close> of the struct only hold a second
  reference to the rows that \<open>screen\<close> and \<open>cells\<close> already refer to and are never read, so the record
  leaves them out. The mutexes are left out too: each exported method runs under one lock. The
  callbacks are recorded as what they were called with: \<open>oscCalls\<close> for the OSC handler and
  \<open>firstDataFired\<close> for the first-data callback.

  \<open>vt_wf\<close> is the well-formedness invariant: both buffers have \<open>rows\<close> rows of \<open>cols\<close> cells, the rune
  buffer is the character projection of the styled buffer, the cursor, the saved cursor and the cursor
  of the hidden screen lie on the screen, the hidden main screen has the size of the visible one, and
  the histories stay within their limit.
\<close>

section \<open>State\<close>

datatype escape_state = stateNormal | stateEscape | stateCSI | stateOSC | stateDCS

record vt =
  cols :: int
  rows :: int
  screen :: "rune list list"
  cells :: "cell list list"
  cursorX :: int
  cursorY :: int
  currentFg :: color
  currentBg :: color
  currentAttrs :: cell_attrs
  currentUnderlineStyle :: underline_style
  currentUnderlineColor :: color
  isWrapped :: "bool list"
  history :: "rune list list"
  maxHistory :: int
  historyStyled :: "cell list list"
  historyIsWrapped :: "bool list"
  hasData :: bool
  onFirstData :: bool
  firstDataFired :: bool
  escState :: escape_state
  escBuffer :: bytes
  escParams :: "int list"
  escPrivate :: byte
  escRawSeq :: bytes
  savedCursorX :: int
  savedCursorY :: int
  altCursorX :: int
  altCursorY :: int
  useAltScreen :: bool
  savedMainScreen :: "rune list list option"
  savedMainCells :: "cell list list option"
  oscHandler :: bool
  oscCalls :: "(int \<times> bytes list) list"

definition TrimRight :: "rune list \<Rightarrow> rune list" where
  "TrimRight s = rev (dropWhile (\<lambda>r. r = 0x20) (rev s))"

definition blank_runes :: "int \<Rightarrow> rune list" where
  "blank_runes n = replicate (nat n) 0x20"

definition blank_cells :: "int \<Rightarrow> cell list" where
  "blank_cells n = replicate (nat n) (NewCell 0x20)"

section \<open>Construction\<close>

definition initScreen :: "vt \<Rightarrow> vt" where
  "initScreen vt = vt\<lparr>
     screen := replicate (nat (rows vt)) (blank_runes (cols vt)),
     cells := replicate (nat (rows vt)) (blank_cells (cols vt)),
     isWrapped := replicate (nat (rows vt)) False,
     cursorX := 0, cursorY := 0,
     currentFg := DefaultColor, currentBg := DefaultColor, currentAttrs := AttrNone,
     currentUnderlineStyle := UnderlineNone, currentUnderlineColor := DefaultColor\<rparr>"

definition NewVirtualTerminal :: "int \<Rightarrow> int \<Rightarrow> int \<Rightarrow> vt" where
  "NewVirtualTerminal c r h = initScreen
     \<lparr>cols = (if c \<le> 0 then 80 else c), rows = (if r \<le> 0 then 24 else r),
      screen = [], cells = [], cursorX = 0, cursorY = 0,
      currentFg = DefaultColor, currentBg = DefaultColor, currentAttrs = AttrNone,
      currentUnderlineStyle = UnderlineNone, currentUnderlineColor = DefaultColor,
      isWrapped = [], history = [], maxHistory = (if h \<le> 0 then 100 else h),
      historyStyled = [], historyIsWrapped = [], hasData = False,
      onFirstData = False, firstDataFired = False,
      escState = stateNormal, escBuffer = [], escParams = [], escPrivate = 0, escRawSeq = [],
      savedCursorX = 0, savedCursorY = 0, altCursorX = 0, altCursorY = 0,
      useAltScreen = False, savedMainScreen = None, savedMainCells = None,
      oscHandler = False, oscCalls = []\<rparr>"

definition Resize :: "int \<Rightarrow> int \<Rightarrow> vt \<Rightarrow> vt" where
  "Resize c r vt =
     initScreen (vt\<lparr>cols := (if c \<le> 0 then 80 else c), rows := (if r \<le> 0 then 24 else r)\<rparr>)"

definition vt_Clear :: "vt \<Rightarrow> vt" where
  "vt_Clear vt = (initScreen vt)\<lparr>history := [], historyStyled := [], historyIsWrapped := [],
     hasData := False\<rparr>"

section \<open>Cells and rows\<close>

text \<open>\<open>vt.screen[row][col] = ch; vt.cells[row][col] = c\<close>\<close>

definition set_at :: "int \<Rightarrow> int \<Rightarrow> rune \<Rightarrow> cell \<Rightarrow> vt \<Rightarrow> vt option" where
  "set_at row col ch c vt = do {
     r \<leftarrow> go_get (screen vt) row;
     r' \<leftarrow> go_set r col ch;
     s' \<leftarrow> go_set (screen vt) row r';
     cr \<leftarrow> go_get (cells vt) row;
     cr' \<leftarrow> go_set cr col c;
     cs' \<leftarrow> go_set (cells vt) row cr';
     Some (vt\<lparr>screen := s', cells := cs'\<rparr>)
   }"

text \<open>\<open>for j := range vt.screen[row]\<close>, blanking every cell of the row.\<close>

definition clear_row :: "int \<Rightarrow> vt \<Rightarrow> vt option" where
  "clear_row row vt = do {
     r \<leftarrow> go_get (screen vt) row;
     for_up 0 (int (length r)) (\<lambda>j. set_at row j 0x20 (NewCell 0x20)) vt
   }"

definition set_wrapped :: "int \<Rightarrow> bool \<Rightarrow> vt \<Rightarrow> vt option" where
  "set_wrapped row w vt = do {
     ws \<leftarrow> go_set (isWrapped vt) row w;
     Some (vt\<lparr>isWrapped := ws\<rparr>)
   }"

text \<open>\<open>copy(vt.screen[dst], vt.screen[src])\<close> and the same for the cells and the wrap flag.\<close>

definition copy_row :: "int \<Rightarrow> int \<Rightarrow> vt \<Rightarrow> vt option" where
  "copy_row dst src vt = do {
     d \<leftarrow> go_get (screen vt) dst;
     s \<leftarrow> go_get (screen vt) src;
     scr \<leftarrow> go_set (screen vt) dst (go_copy d s);
     cd \<leftarrow> go_get (cells vt) dst;
     cs \<leftarrow> go_get (cells vt) src;
     cls \<leftarrow> go_set (cells vt) dst (go_copy cd cs);
     w \<leftarrow> go_get (isWrapped vt) src;
     set_wrapped dst w (vt\<lparr>screen := scr, cells := cls\<rparr>)
   }"

text \<open>\<open>vt.screen[dst] = vt.screen[src]\<close>: the row slice itself is moved.\<close>

definition move_row :: "int \<Rightarrow> int \<Rightarrow> vt \<Rightarrow> vt option" where
  "move_row dst src vt = do {
     s \<leftarrow> go_get (screen vt) src;
     scr \<leftarrow> go_set (screen vt) dst s;
     cs \<leftarrow> go_get (cells vt) src;
     cls \<leftarrow> go_set (cells vt) dst cs;
     w \<leftarrow> go_get (isWrapped vt) src;
     set_wrapped dst w (vt\<lparr>screen := scr, cells := cls\<rparr>)
   }"

text \<open>A fresh blank row in place of row \<open>i\<close>.\<close>

definition fresh_row :: "int \<Rightarrow> vt \<Rightarrow> vt option" where
  "fresh_row i vt = do {
     scr \<leftarrow> go_set (screen vt) i (blank_runes (cols vt));
     cls \<leftarrow> go_set (cells vt) i (blank_cells (cols vt));
     set_wrapped i False (vt\<lparr>screen := scr, cells := cls\<rparr>)
   }"

section \<open>Screen operations\<close>

definition clearLine :: "int \<Rightarrow> int \<Rightarrow> int \<Rightarrow> vt \<Rightarrow> vt option" where
  "clearLine row startCol endCol vt =
     (if row < 0 \<or> rows vt \<le> row then Some vt
      else for_up startCol (min endCol (cols vt))
             (\<lambda>i vt. if 0 \<le> i then set_at row i 0x20 (NewCell 0x20) vt else Some vt) vt)"

definition insertLines :: "int \<Rightarrow> vt \<Rightarrow> vt option" where
  "insertLines n = repeat_n (nat n) (\<lambda>vt. do {
     vt \<leftarrow> for_down (rows vt - 1) (cursorY vt) (\<lambda>j. copy_row j (j - 1)) vt;
     vt \<leftarrow> clear_row (cursorY vt) vt;
     set_wrapped (cursorY vt) False vt
   })"

definition deleteLines :: "int \<Rightarrow> vt \<Rightarrow> vt option" where
  "deleteLines n = repeat_n (nat n) (\<lambda>vt. do {
     vt \<leftarrow> for_up (cursorY vt) (rows vt - 1) (\<lambda>j. copy_row j (j + 1)) vt;
     vt \<leftarrow> clear_row (rows vt - 1) vt;
     set_wrapped (rows vt - 1) False vt
   })"

text \<open>\<open>row[dst] = row[src]; cellRow[dst] = cellRow[src]\<close> in the cursor's row.\<close>

definition copy_cell :: "int \<Rightarrow> int \<Rightarrow> vt \<Rightarrow> vt option" where
  "copy_cell dst src vt = do {
     r \<leftarrow> go_get (screen vt) (cursorY vt);
     cr \<leftarrow> go_get (cells vt) (cursorY vt);
     ch \<leftarrow> go_get r src;
     c \<leftarrow> go_get cr src;
     set_at (cursorY vt) dst ch c vt
   }"

definition deleteChars :: "int \<Rightarrow> vt \<Rightarrow> vt option" where
  "deleteChars n vt = do {
     _ \<leftarrow> go_get (screen vt) (cursorY vt);
     _ \<leftarrow> go_get (cells vt) (cursorY vt);
     vt \<leftarrow> for_up (cursorX vt) (wrap64 (cols vt - n)) (\<lambda>i. copy_cell i (wrap64 (i + n))) vt;
     for_up (wrap64 (cols vt - n)) (cols vt)
       (\<lambda>i vt. if 0 \<le> i then set_at (cursorY vt) i 0x20 (NewCell 0x20) vt else Some vt) vt
   }"

definition insertChars :: "int \<Rightarrow> vt \<Rightarrow> vt option" where
  "insertChars n vt = do {
     _ \<leftarrow> go_get (screen vt) (cursorY vt);
     _ \<leftarrow> go_get (cells vt) (cursorY vt);
     vt \<leftarrow> for_down (cols vt - 1) (wrap64 (cursorX vt + n) - 1)
             (\<lambda>i. copy_cell i (wrap64 (i - n))) vt;
     for_up 0 (min n (cols vt - cursorX vt))
       (\<lambda>i vt. set_at (cursorY vt) (cursorX vt + i) 0x20 (NewCell 0x20) vt) vt
   }"

definition scrollDown :: "vt \<Rightarrow> vt option" where
  "scrollDown vt = do {
     vt \<leftarrow> for_down (rows vt - 1) 0 (\<lambda>i. move_row i (i - 1)) vt;
     fresh_row 0 vt
   }"

text \<open>The text of a row, without the placeholders behind wide characters.\<close>

fun row_text :: "rune list \<Rightarrow> cell list \<Rightarrow> rune list option" where
  "row_text [] cs = Some []"
| "row_text (ch # chs) (c # cs) =
     map_option (\<lambda>t. if Width c = 0 then t else ch # t) (row_text chs cs)"
| "row_text (ch # chs) [] = None"

text \<open>\<open>append\<close>, then drop the oldest entry when the limit is passed.\<close>

definition push_limited :: "int \<Rightarrow> 'a list \<Rightarrow> 'a \<Rightarrow> 'a list" where
  "push_limited limit xs x =
     (let ys = xs @ [x] in if int (length ys) > limit then tl ys else ys)"

definition save_history :: "vt \<Rightarrow> vt option" where
  "save_history vt = do {
     row0 \<leftarrow> go_get (screen vt) 0;
     cells0 \<leftarrow> go_get (cells vt) 0;
     text0 \<leftarrow> row_text row0 cells0;
     let line = TrimRight text0;
     w \<leftarrow> go_get (isWrapped vt) 0;
     let hs = historyStyled vt @ [cells0];
     let hw = historyIsWrapped vt @ [w];
     Some (vt\<lparr>
       history := (if line \<noteq> [] then push_limited (maxHistory vt) (history vt) line
                   else history vt),
       historyStyled := (if int (length hs) > maxHistory vt then tl hs else hs),
       historyIsWrapped := (if int (length hs) > maxHistory vt then tl hw else hw)\<rparr>)
   }"

definition scroll :: "vt \<Rightarrow> vt option" where
  "scroll vt = do {
     vt \<leftarrow> save_history vt;
     vt \<leftarrow> for_up 0 (rows vt - 1) (\<lambda>i. move_row i (i + 1)) vt;
     fresh_row (rows vt - 1) vt
   }"

text \<open>
  \<open>enterAltScreen\<close> copies the \<open>len(vt.screen)\<close> rows of the main screen into two new slices of
  \<open>vt.rows\<close> rows, which panics when the screen has more rows than that.
\<close>

definition enterAltScreen :: "vt \<Rightarrow> vt option" where
  "enterAltScreen vt =
     (if useAltScreen vt then Some vt
      else if int (length (screen vt)) > rows vt \<or> length (cells vt) < length (screen vt) then None
      else let n = length (screen vt); missing = nat (rows vt) - n
           in Some (vt\<lparr>
                savedMainScreen := Some (screen vt @ replicate missing []),
                savedMainCells := Some (take n (cells vt) @ replicate missing []),
                altCursorX := cursorX vt, altCursorY := cursorY vt,
                screen := replicate (nat (rows vt)) (blank_runes (cols vt)),
                cells := replicate (nat (rows vt)) (blank_cells (cols vt)),
                cursorX := 0, cursorY := 0, useAltScreen := True\<rparr>))"

definition exitAltScreen :: "vt \<Rightarrow> vt" where
  "exitAltScreen vt =
     (if \<not> useAltScreen vt then vt
      else let vt' = (case savedMainScreen vt of
                        None \<Rightarrow> vt
                      | Some s \<Rightarrow>
                          vt\<lparr>screen := s,
                             cells := (case savedMainCells vt of None \<Rightarrow> [] | Some c \<Rightarrow> c),
                             savedMainScreen := None, savedMainCells := None\<rparr>)
           in vt'\<lparr>cursorX := altCursorX vt', cursorY := altCursorY vt', useAltScreen := False\<rparr>)"

section \<open>Reading the screen\<close>

text \<open>\<open>getLinesLocked\<close>: a zero rune reads as a space, trailing spaces are cut.\<close>

definition line_of :: "rune list \<Rightarrow> rune list" where
  "line_of r = TrimRight (map (\<lambda>ch. if ch = 0 then 0x20 else ch) r)"

definition getLinesLocked :: "vt \<Rightarrow> rune list list" where
  "getLinesLocked vt =
     map (\<lambda>row. if row < length (screen vt) then line_of (screen vt ! row) else [])
       [0..<nat (rows vt)]"

section \<open>Well-formedness\<close>

definition grid_ok :: "int \<Rightarrow> int \<Rightarrow> rune list list \<Rightarrow> cell list list \<Rightarrow> bool" where
  "grid_ok r c s cs \<longleftrightarrow>
     int (length cs) = r \<and> (\<forall>row \<in> set cs. int (length row) = c) \<and> s = map (map Ch) cs"

text \<open>The part of the invariant that does not concern the position of the cursor.\<close>

definition body_wf :: "vt \<Rightarrow> bool" where
  "body_wf vt \<longleftrightarrow>
     0 < cols vt \<and> cols vt < 2 ^ 31 \<and> 0 < rows vt \<and> rows vt < 2 ^ 31 \<and>
     grid_ok (rows vt) (cols vt) (screen vt) (cells vt) \<and>
     int (length (isWrapped vt)) = rows vt \<and>
     0 \<le> savedCursorX vt \<and> savedCursorX vt \<le> cols vt \<and>
     0 \<le> savedCursorY vt \<and> savedCursorY vt < rows vt \<and>
     0 \<le> altCursorX vt \<and> altCursorX vt \<le> cols vt \<and>
     0 \<le> altCursorY vt \<and> altCursorY vt < rows vt \<and>
     (useAltScreen vt \<longrightarrow>
        (\<exists>s c. savedMainScreen vt = Some s \<and> savedMainCells vt = Some c \<and>
               grid_ok (rows vt) (cols vt) s c)) \<and>
     0 < maxHistory vt \<and>
     int (length (history vt)) \<le> maxHistory vt \<and>
     int (length (historyStyled vt)) \<le> maxHistory vt \<and>
     length (historyIsWrapped vt) = length (historyStyled vt)"

definition vt_wf :: "vt \<Rightarrow> bool" where
  "vt_wf vt \<longleftrightarrow> body_wf vt \<and>
     0 \<le> cursorX vt \<and> cursorX vt \<le> cols vt \<and> 0 \<le> cursorY vt \<and> cursorY vt < rows vt"

text \<open>
  \<open>redrawn vt vt'\<close>: \<open>vt'\<close> is \<open>vt\<close> with another content of the visible grid, and nothing else
  changed. It is the frame of every operation that only writes cells.
\<close>

definition redrawn :: "vt \<Rightarrow> vt \<Rightarrow> bool" where
  "redrawn vt vt' \<longleftrightarrow>
     (\<exists>s c w. vt' = vt\<lparr>screen := s, cells := c, isWrapped := w\<rparr> \<and>
              grid_ok (rows vt) (cols vt) s c \<and> int (length w) = rows vt)"

section \<open>Lemmas: the grid\<close>

lemma grid_okD:
  assumes "grid_ok r c s cs"
  shows "int (length cs) = r" "int (length s) = r" "s = map (map Ch) cs"
    and "0 \<le> i \<Longrightarrow> i < r \<Longrightarrow> int (length (cs ! nat i)) = c"
    and "0 \<le> i \<Longrightarrow> i < r \<Longrightarrow> int (length (s ! nat i)) = c"
  using assms by (auto simp: grid_ok_def)

lemma grid_ok_set_row:
  "grid_ok r c s cs \<Longrightarrow> int (length row) = c \<Longrightarrow> grid_ok r c (s[k := map Ch row]) (cs[k := row])"
  by (auto simp: grid_ok_def map_update dest: set_update_subset_insert [THEN subsetD])

lemma grid_ok_blank:
  "0 \<le> r \<Longrightarrow> 0 \<le> c \<Longrightarrow>
     grid_ok r c (replicate (nat r) (blank_runes c)) (replicate (nat r) (blank_cells c))"
  by (auto simp: grid_ok_def blank_cells_def blank_runes_def)

lemma length_blank [simp]:
  "length (blank_runes n) = nat n" "length (blank_cells n) = nat n"
  "map Ch (blank_cells n) = blank_runes n"
  by (auto simp: blank_cells_def blank_runes_def)

section \<open>Lemmas: operations that only redraw\<close>

lemma redrawnI:
  "grid_ok (rows vt) (cols vt) s c \<Longrightarrow> int (length w) = rows vt \<Longrightarrow>
     redrawn vt (vt\<lparr>screen := s, cells := c, isWrapped := w\<rparr>)"
  unfolding redrawn_def by blast

lemma redrawnE:
  assumes "redrawn vt vt'"
  obtains s c w where "vt' = vt\<lparr>screen := s, cells := c, isWrapped := w\<rparr>"
    "grid_ok (rows vt) (cols vt) s c" "int (length w) = rows vt"
  using assms unfolding redrawn_def by blast

lemma redrawn_refl_body: "body_wf vt \<Longrightarrow> redrawn vt vt"
  using redrawnI [of vt "screen vt" "cells vt" "isWrapped vt"] by (simp add: body_wf_def)

lemma redrawn_refl: "vt_wf vt \<Longrightarrow> redrawn vt vt"
  by (simp add: vt_wf_def redrawn_refl_body)

lemma redrawn_body_wf: "body_wf vt \<Longrightarrow> redrawn vt vt' \<Longrightarrow> body_wf vt'"
  by (auto simp: body_wf_def elim!: redrawnE)

lemma redrawn_trans: "redrawn a b \<Longrightarrow> redrawn b c \<Longrightarrow> redrawn a c"
  by (auto elim!: redrawnE intro: redrawnI)

lemma redrawn_wf: "vt_wf vt \<Longrightarrow> redrawn vt vt' \<Longrightarrow> vt_wf vt'"
  by (auto simp: vt_wf_def body_wf_def elim!: redrawnE)

lemma redrawn_frame:
  assumes "redrawn vt vt'"
  shows "rows vt' = rows vt" "cols vt' = cols vt" "cursorX vt' = cursorX vt"
    "cursorY vt' = cursorY vt" "grid_ok (rows vt) (cols vt) (screen vt') (cells vt')"
    "int (length (isWrapped vt')) = rows vt"
    "historyStyled vt' = historyStyled vt" "history vt' = history vt"
    "savedMainScreen vt' = savedMainScreen vt" "savedMainCells vt' = savedMainCells vt"
    "useAltScreen vt' = useAltScreen vt"
    "escParams vt' = escParams vt" "escRawSeq vt' = escRawSeq vt" "escState vt' = escState vt"
  using assms by (auto elim!: redrawnE)

lemma redrawn_grid:
  assumes "redrawn base vt" and g: "grid_ok (rows base) (cols base) s c"
  shows "redrawn base (vt\<lparr>screen := s, cells := c\<rparr>)"
proof -
  from assms(1) obtain s0 c0 w where vt: "vt = base\<lparr>screen := s0, cells := c0, isWrapped := w\<rparr>"
    and w: "int (length w) = rows base" by (rule redrawnE)
  have "vt\<lparr>screen := s, cells := c\<rparr> = base\<lparr>screen := s, cells := c, isWrapped := w\<rparr>"
    by (simp add: vt)
  then show ?thesis using redrawnI [OF g w] by simp
qed

lemma redrawn_wrapped:
  "redrawn base vt \<Longrightarrow> int (length w) = rows base \<Longrightarrow> redrawn base (vt\<lparr>isWrapped := w\<rparr>)"
  by (auto elim!: redrawnE intro: redrawnI)

lemma set_at_eq:
  assumes g: "grid_ok r c (screen vt) (cells vt)"
    and "0 \<le> row" "row < r" "0 \<le> col" "col < c"
  shows "set_at row col ch cl vt =
    Some (vt\<lparr>screen := (screen vt)[nat row := (screen vt ! nat row)[nat col := ch]],
             cells := (cells vt)[nat row := (cells vt ! nat row)[nat col := cl]]\<rparr>)"
  using assms grid_okD [OF g] by (simp add: set_at_def)

lemma set_at_redrawn:
  assumes r: "redrawn base vt" and "0 \<le> row" "row < rows base" "0 \<le> col" "col < cols base"
    and "Ch cl = ch"
  shows "returns (set_at row col ch cl vt) (redrawn base)"
proof -
  note g = redrawn_frame(5) [OF r]
  let ?row = "(cells vt ! nat row)[nat col := cl]"
  have "grid_ok (rows base) (cols base) ((screen vt)[nat row := map Ch ?row]) ((cells vt)[nat row := ?row])"
    by (rule grid_ok_set_row [OF g]) (use grid_okD(4) [OF g] assms in simp)
  moreover have "map Ch ?row = (screen vt ! nat row)[nat col := ch]"
    using grid_okD [OF g] assms by (simp add: map_update)
  ultimately have "grid_ok (rows base) (cols base)
      ((screen vt)[nat row := (screen vt ! nat row)[nat col := ch]]) ((cells vt)[nat row := ?row])"
    by simp
  then show ?thesis
    using set_at_eq [OF g] assms by (simp add: redrawn_grid [OF r])
qed

lemma clear_row_redrawn:
  assumes r: "redrawn base vt" and "0 \<le> row" "row < rows base"
  shows "returns (clear_row row vt) (redrawn base)"
proof -
  note g = redrawn_frame(5) [OF r]
  have "returns (for_up 0 (cols base) (\<lambda>j. set_at row j 0x20 (NewCell 0x20)) vt) (redrawn base)"
    by (rule returns_for_up) (use r set_at_redrawn assms in auto)
  then show ?thesis
    using grid_okD [OF g] assms by (simp add: clear_row_def)
qed

lemma set_wrapped_redrawn:
  assumes r: "redrawn base vt" and "0 \<le> row" "row < rows base"
  shows "returns (set_wrapped row w vt) (redrawn base)"
  using assms redrawn_frame(6) [OF r] by (simp add: set_wrapped_def redrawn_wrapped)

lemma copy_row_redrawn:
  assumes r: "redrawn base vt" and "0 \<le> dst" "dst < rows base" "0 \<le> src" "src < rows base"
  shows "returns (copy_row dst src vt) (redrawn base)"
proof -
  note g = redrawn_frame(5) [OF r]
  have len: "length (cells vt ! nat src) = length (cells vt ! nat dst)"
    "length (screen vt ! nat src) = length (screen vt ! nat dst)"
    using grid_okD(4,5) [OF g] assms by (metis nat_int)+
  have "screen vt ! nat src = map Ch (cells vt ! nat src)"
    using grid_okD [OF g] assms by simp
  then have "grid_ok (rows base) (cols base)
      ((screen vt)[nat dst := screen vt ! nat src]) ((cells vt)[nat dst := cells vt ! nat src])"
    using grid_ok_set_row [OF g] grid_okD(4) [OF g] assms by simp
  then have "redrawn base (vt\<lparr>screen := (screen vt)[nat dst := screen vt ! nat src],
      cells := (cells vt)[nat dst := cells vt ! nat src]\<rparr>)"
    by (rule redrawn_grid [OF r])
  then show ?thesis
    using set_wrapped_redrawn len grid_okD [OF g] redrawn_frame(6) [OF r] assms
    by (simp add: copy_row_def)
qed

lemma move_row_eq_copy_row:
  assumes r: "redrawn base vt" and "0 \<le> dst" "dst < rows base" "0 \<le> src" "src < rows base"
  shows "move_row dst src vt = copy_row dst src vt"
proof -
  note g = redrawn_frame(5) [OF r]
  have len: "length (cells vt ! nat src) = length (cells vt ! nat dst)"
    "length (screen vt ! nat src) = length (screen vt ! nat dst)"
    using grid_okD(4,5) [OF g] assms by (metis nat_int)+
  then show ?thesis
    using grid_okD [OF g] assms by (simp add: copy_row_def move_row_def)
qed

lemma move_row_redrawn:
  assumes "redrawn base vt" and "0 \<le> dst" "dst < rows base" "0 \<le> src" "src < rows base"
  shows "returns (move_row dst src vt) (redrawn base)"
  using copy_row_redrawn [OF assms] move_row_eq_copy_row [OF assms] by simp

lemma fresh_row_redrawn:
  assumes r: "redrawn base vt" and "0 \<le> i" "i < rows base" "0 \<le> cols base"
  shows "returns (fresh_row i vt) (redrawn base)"
proof -
  note g = redrawn_frame(5) [OF r]
  have "grid_ok (rows base) (cols base)
      ((screen vt)[nat i := blank_runes (cols base)]) ((cells vt)[nat i := blank_cells (cols base)])"
    using grid_ok_set_row [OF g, of "blank_cells (cols base)"] assms by simp
  then show ?thesis
    using set_wrapped_redrawn [OF redrawn_grid [OF r]] grid_okD [OF g] redrawn_frame(2) [OF r] assms
    by (simp add: fresh_row_def)
qed

lemma clearLine_redrawn:
  assumes "redrawn base vt"
  shows "returns (clearLine row a b vt) (redrawn base)"
proof -
  have "0 \<le> row \<Longrightarrow> row < rows base \<Longrightarrow>
     returns (for_up a (min b (cols base))
       (\<lambda>i vt. if 0 \<le> i then set_at row i 0x20 (NewCell 0x20) vt else Some vt) vt) (redrawn base)"
    by (rule returns_for_up) (use assms in \<open>auto intro!: set_at_redrawn\<close>)
  then show ?thesis
    using assms redrawn_frame(1,2) [OF assms] by (simp add: clearLine_def)
qed

lemma for_rows_redrawn:
  assumes "redrawn base vt" and "\<And>i vt. 0 \<le> i \<Longrightarrow> i < rows base \<Longrightarrow> redrawn base vt \<Longrightarrow>
     returns (body i vt) (redrawn base)" and "0 \<le> lo" "hi \<le> rows base"
  shows "returns (for_up lo hi body vt) (redrawn base)"
  by (rule returns_for_up) (use assms in auto)

lemma insertLines_redrawn:
  assumes wf: "vt_wf base"
  shows "returns (insertLines n base) (redrawn base)"
  unfolding insertLines_def
proof (rule returns_repeat_n)
  show "redrawn base base" by (rule redrawn_refl [OF wf])
  fix vt assume r: "redrawn base vt"
  have y: "0 \<le> cursorY base" "cursorY base < rows base" using wf by (auto simp: vt_wf_def body_wf_def)
  have "returns (for_down (rows vt - 1) (cursorY vt) (\<lambda>j. copy_row j (j - 1)) vt) (redrawn base)"
    by (rule returns_for_down) (use r y in \<open>auto intro!: copy_row_redrawn simp: redrawn_frame\<close>)
  then show "returns (do {
      vt \<leftarrow> for_down (rows vt - 1) (cursorY vt) (\<lambda>j. copy_row j (j - 1)) vt;
      vt \<leftarrow> clear_row (cursorY vt) vt;
      set_wrapped (cursorY vt) False vt }) (redrawn base)"
    using y by (auto simp: returns_bind redrawn_frame elim!: returns_mono
        intro!: clear_row_redrawn [THEN returns_mono] set_wrapped_redrawn)
qed

lemma deleteLines_redrawn:
  assumes wf: "vt_wf base"
  shows "returns (deleteLines n base) (redrawn base)"
  unfolding deleteLines_def
proof (rule returns_repeat_n)
  show "redrawn base base" by (rule redrawn_refl [OF wf])
  fix vt assume r: "redrawn base vt"
  have y: "0 \<le> cursorY base" "cursorY base < rows base" using wf by (auto simp: vt_wf_def body_wf_def)
  have "returns (for_up (cursorY vt) (rows vt - 1) (\<lambda>j. copy_row j (j + 1)) vt) (redrawn base)"
    by (rule returns_for_up) (use r y in \<open>auto intro!: copy_row_redrawn simp: redrawn_frame\<close>)
  then show "returns (do {
      vt \<leftarrow> for_up (cursorY vt) (rows vt - 1) (\<lambda>j. copy_row j (j + 1)) vt;
      vt \<leftarrow> clear_row (rows vt - 1) vt;
      set_wrapped (rows vt - 1) False vt }) (redrawn base)"
    using y by (auto simp: returns_bind redrawn_frame elim!: returns_mono
        intro!: clear_row_redrawn [THEN returns_mono] set_wrapped_redrawn)
qed

lemma copy_cell_redrawn:
  assumes r: "redrawn base vt" and wf: "vt_wf base"
    and "0 \<le> dst" "dst < cols base" "0 \<le> src" "src < cols base"
  shows "returns (copy_cell dst src vt) (redrawn base)"
proof -
  note g = redrawn_frame(5) [OF r]
  have y: "0 \<le> cursorY base" "cursorY base < rows base" using wf by (auto simp: vt_wf_def body_wf_def)
  have "screen vt ! nat (cursorY base) ! nat src = Ch (cells vt ! nat (cursorY base) ! nat src)"
    using grid_okD(1,3) [OF g] grid_okD(4) [OF g y] y assms(3-6) by (simp add: nth_map)
  then show ?thesis
    using grid_okD [OF g] y assms r
    by (simp add: copy_cell_def redrawn_frame(4) set_at_redrawn)
qed

lemma deleteChars_redrawn:
  assumes wf: "vt_wf vt" and n: "0 < n" "n < 2 ^ 31"
  shows "returns (deleteChars n vt) (redrawn vt)"
proof -
  have w: "wrap64 (cols vt - n) = cols vt - n"
    using wf n by (intro wrap64_id) (auto simp: vt_wf_def body_wf_def)
  have "returns (for_up (cursorX vt) (cols vt - n) (\<lambda>i. copy_cell i (wrap64 (i + n))) vt) (redrawn vt)"
  proof (rule returns_for_up)
    show "redrawn vt vt" by (rule redrawn_refl [OF wf])
  next
    fix i s assume i: "cursorX vt \<le> i" "i < cols vt - n" and s: "redrawn vt s"
    have "wrap64 (i + n) = i + n"
      using wf n i by (intro wrap64_id) (auto simp: vt_wf_def body_wf_def)
    then show "returns (copy_cell i (wrap64 (i + n)) s) (redrawn vt)"
      using copy_cell_redrawn [OF s wf] i wf n by (auto simp: vt_wf_def body_wf_def)
  qed
  moreover have "returns (for_up (cols vt - n) (cols vt)
      (\<lambda>i vt. if 0 \<le> i then set_at (cursorY vt) i 0x20 (NewCell 0x20) vt else Some vt) s) (redrawn vt)"
    if "redrawn vt s" for s
    using that wf by (intro returns_for_up) (auto intro!: set_at_redrawn simp: redrawn_frame vt_wf_def body_wf_def)
  ultimately show ?thesis
    using wf grid_okD [of "rows vt" "cols vt" "screen vt" "cells vt"] w
    by (auto simp: deleteChars_def returns_bind redrawn_frame vt_wf_def body_wf_def elim!: returns_mono)
qed

lemma insertChars_redrawn:
  assumes wf: "vt_wf vt" and n: "0 < n" "n < 2 ^ 31"
  shows "returns (insertChars n vt) (redrawn vt)"
proof -
  have w: "wrap64 (cursorX vt + n) = cursorX vt + n"
    using wf n by (intro wrap64_id) (auto simp: vt_wf_def body_wf_def)
  have "returns (for_down (cols vt - 1) (cursorX vt + n - 1) (\<lambda>i. copy_cell i (wrap64 (i - n))) vt)
     (redrawn vt)"
  proof (rule returns_for_down)
    show "redrawn vt vt" by (rule redrawn_refl [OF wf])
  next
    fix i s assume i: "cursorX vt + n - 1 < i" "i \<le> cols vt - 1" and s: "redrawn vt s"
    have "wrap64 (i - n) = i - n"
      using wf n i by (intro wrap64_id) (auto simp: vt_wf_def body_wf_def)
    then show "returns (copy_cell i (wrap64 (i - n)) s) (redrawn vt)"
      using copy_cell_redrawn [OF s wf] i wf n by (auto simp: vt_wf_def body_wf_def)
  qed
  moreover have "returns (for_up 0 (min n (cols vt - cursorX vt))
      (\<lambda>i vt. set_at (cursorY vt) (cursorX vt + i) 0x20 (NewCell 0x20) vt) s) (redrawn vt)"
    if "redrawn vt s" for s
    using that wf by (intro returns_for_up) (auto intro!: set_at_redrawn simp: redrawn_frame vt_wf_def body_wf_def)
  ultimately show ?thesis
    using wf grid_okD [of "rows vt" "cols vt" "screen vt" "cells vt"] w
    by (auto simp: insertChars_def returns_bind redrawn_frame vt_wf_def body_wf_def elim!: returns_mono)
qed

lemma scrollDown_redrawn:
  assumes wf: "body_wf vt"
  shows "returns (scrollDown vt) (redrawn vt)"
proof -
  have "returns (for_down (rows vt - 1) 0 (\<lambda>i. move_row i (i - 1)) vt) (redrawn vt)"
    by (rule returns_for_down) (use redrawn_refl_body [OF wf] in \<open>auto intro!: move_row_redrawn\<close>)
  then show ?thesis
    using wf by (auto simp: scrollDown_def returns_bind body_wf_def elim!: returns_mono
        intro!: fresh_row_redrawn)
qed

section \<open>Lemmas: scrolling into the history\<close>

lemma row_text_Some: "length chs \<le> length cs \<Longrightarrow> \<exists>t. row_text chs cs = Some t"
  by (induction chs cs rule: row_text.induct) auto

lemma push_limited_length:
  "0 < limit \<Longrightarrow> int (length xs) \<le> limit \<Longrightarrow> int (length (push_limited limit xs x)) \<le> limit"
  by (auto simp: push_limited_def Let_def)

lemma body_wf_history:
  "body_wf vt \<Longrightarrow> int (length h) \<le> maxHistory vt \<Longrightarrow> int (length hs) \<le> maxHistory vt \<Longrightarrow>
     length hw = length hs \<Longrightarrow>
     body_wf (vt\<lparr>history := h, historyStyled := hs, historyIsWrapped := hw\<rparr>)"
  by (simp add: body_wf_def)

lemma save_history_returns:
  assumes wf: "body_wf vt"
  shows "returns (save_history vt) (\<lambda>vt'. body_wf vt' \<and>
     (\<exists>h hs hw. vt' = vt\<lparr>history := h, historyStyled := hs, historyIsWrapped := hw\<rparr>))"
proof -
  have g: "grid_ok (rows vt) (cols vt) (screen vt) (cells vt)" and pos: "0 < rows vt"
    using wf by (auto simp: body_wf_def)
  have "cells vt \<noteq> []" using grid_okD(1) [OF g] pos by auto
  then have "length (screen vt ! 0) = length (cells vt ! 0)"
    using grid_okD(3) [OF g] by simp
  then obtain t where t: "row_text (screen vt ! 0) (cells vt ! 0) = Some t"
    using row_text_Some [of "screen vt ! 0" "cells vt ! 0"] by auto
  have get0: "go_get (screen vt) 0 = Some (screen vt ! 0)" "go_get (cells vt) 0 = Some (cells vt ! 0)"
    "go_get (isWrapped vt) 0 = Some (isWrapped vt ! 0)"
    using grid_okD [OF g] pos wf by (auto simp: body_wf_def)
  show ?thesis
    unfolding save_history_def get0 Option.bind.simps t Let_def returns_Some
  proof (intro conjI body_wf_history [OF wf])
    have lim: "0 < maxHistory vt" "int (length (history vt)) \<le> maxHistory vt"
      "int (length (historyStyled vt)) \<le> maxHistory vt"
      "length (historyIsWrapped vt) = length (historyStyled vt)"
      using wf by (simp_all add: body_wf_def)
    show "int (length (if TrimRight t \<noteq> [] then push_limited (maxHistory vt) (history vt) (TrimRight t)
        else history vt)) \<le> maxHistory vt"
      using lim by (auto intro: push_limited_length)
    show "int (length (if maxHistory vt < int (length (historyStyled vt @ [cells vt ! 0]))
        then tl (historyStyled vt @ [cells vt ! 0]) else historyStyled vt @ [cells vt ! 0])) \<le> maxHistory vt"
      using lim by auto
    show "length (if maxHistory vt < int (length (historyStyled vt @ [cells vt ! 0]))
        then tl (historyIsWrapped vt @ [isWrapped vt ! 0]) else historyIsWrapped vt @ [isWrapped vt ! 0]) =
      length (if maxHistory vt < int (length (historyStyled vt @ [cells vt ! 0]))
        then tl (historyStyled vt @ [cells vt ! 0]) else historyStyled vt @ [cells vt ! 0])"
      using lim by simp
  qed (intro exI, rule refl)
qed

lemma scroll_body_wf:
  assumes wf: "body_wf vt"
  shows "returns (scroll vt) (\<lambda>vt'. body_wf vt' \<and>
     (\<exists>h hs hw. redrawn (vt\<lparr>history := h, historyStyled := hs, historyIsWrapped := hw\<rparr>) vt'))"
proof -
  have step: "returns (for_up 0 (rows v - 1) (\<lambda>i. move_row i (i + 1)) v) (redrawn v)" if "body_wf v" for v
    by (rule returns_for_up) (use redrawn_refl_body [OF that] in \<open>auto intro!: move_row_redrawn\<close>)
  have "returns (do {
      vt \<leftarrow> for_up 0 (rows v - 1) (\<lambda>i. move_row i (i + 1)) v;
      fresh_row (rows vt - 1) vt }) (\<lambda>v'. body_wf v' \<and> redrawn v v')" if wfv: "body_wf v" for v
  proof -
    have "returns (fresh_row (rows v' - 1) v') (\<lambda>v''. body_wf v'' \<and> redrawn v v'')" if "redrawn v v'" for v'
      using fresh_row_redrawn [OF that, of "rows v' - 1"] redrawn_frame(1) [OF that] wfv
      by (auto simp: body_wf_def elim!: returns_mono dest: redrawn_body_wf [OF wfv])
    then show ?thesis
      using step [OF wfv] by (auto simp: returns_bind elim!: returns_mono)
  qed
  then show ?thesis
    using save_history_returns [OF wf]
    by (fastforce simp: scroll_def returns_bind elim!: returns_mono)
qed

section \<open>Lemmas: construction and the alternative screen\<close>

lemma initScreen_wf: "vt_wf vt \<Longrightarrow> vt_wf (initScreen vt)"
  by (auto simp: vt_wf_def body_wf_def initScreen_def grid_ok_blank)

lemma NewVirtualTerminal_wf:
  "c < 2 ^ 31 \<Longrightarrow> r < 2 ^ 31 \<Longrightarrow> vt_wf (NewVirtualTerminal c r h)"
  by (auto simp: vt_wf_def body_wf_def NewVirtualTerminal_def initScreen_def grid_ok_blank)

lemma enterAltScreen_wf: "vt_wf vt \<Longrightarrow> returns (enterAltScreen vt) vt_wf"
  using grid_okD [of "rows vt" "cols vt" "screen vt" "cells vt"]
  by (auto simp: vt_wf_def body_wf_def enterAltScreen_def Let_def grid_ok_blank nat_diff_distrib)

lemma exitAltScreen_wf: "vt_wf vt \<Longrightarrow> vt_wf (exitAltScreen vt)"
  by (auto simp: vt_wf_def body_wf_def exitAltScreen_def Let_def)

end
