(* ===== verification/VT_SGR.thy ===== *)
theory VT_SGR
  imports VT_Screen
begin

text \<open>
  Text styles: the interpretation of SGR sequences (\<^verbatim>\<open>vt/sgr.go\<close>) and their generation by the
  serializer (\<^verbatim>\<open>vt/serialize_sgr.go\<close> and \<open>diffStyle\<close> of \<^verbatim>\<open>vt/serialize_handler.go\<close>). Parameter
  strings are byte lists; only ASCII digits, semicolons and colons matter in them, so iterating over
  bytes or over runes gives the same numbers. Parsed numbers are Go ints and wrap around.

  The lemmas show that the loop over the parameters always advances and that SGR changes the style
  fields only. That the parameters which \<open>diffStyle\<close> emits are read back as the new style is shown in
  \<^verbatim>\<open>VT_Style.thy\<close>.
\<close>

unbundle bit_operations_syntax

section \<open>Strings\<close>

text \<open>\<open>strings.Split(s, sep)\<close> for a one-byte separator, and \<open>strings.Join\<close>.\<close>

fun split_on :: "'a \<Rightarrow> 'a list \<Rightarrow> 'a list list" where
  "split_on sep [] = [[]]"
| "split_on sep (x # xs) =
     (if x = sep then [] # split_on sep xs
      else (case split_on sep xs of
              [] \<Rightarrow> [[x]]
            | p # ps \<Rightarrow> (x # p) # ps))"

fun join_with :: "'a \<Rightarrow> 'a list list \<Rightarrow> 'a list" where
  "join_with sep [] = []"
| "join_with sep [p] = p"
| "join_with sep (p # ps) = p @ sep # join_with sep ps"

definition is_digit :: "byte \<Rightarrow> bool" where
  "is_digit c \<longleftrightarrow> 0x30 \<le> c \<and> c \<le> 0x39"

definition parseIntOrZero :: "bytes \<Rightarrow> int" where
  "parseIntOrZero s =
     fold (\<lambda>c result. if is_digit c then wrap64 (result * 10 + uint (c - 0x30)) else result) s 0"

text \<open>\<open>fmt.Sprintf("%d", n)\<close>\<close>

fun itoa :: "nat \<Rightarrow> bytes" where
  "itoa n = (if n < 10 then [0x30 + word_of_nat n]
             else itoa (n div 10) @ [0x30 + word_of_nat (n mod 10)])"

declare itoa.simps [simp del]

definition semicolon :: byte where "semicolon = 0x3B"
definition colon :: byte where "colon = 0x3A"

section \<open>Interpreting SGR\<close>

definition set_attr :: "cell_attrs \<Rightarrow> vt \<Rightarrow> vt" where
  "set_attr a vt = vt\<lparr>currentAttrs := currentAttrs vt OR a\<rparr>"

definition clear_attr :: "cell_attrs \<Rightarrow> vt \<Rightarrow> vt" where
  "clear_attr a vt = vt\<lparr>currentAttrs := currentAttrs vt AND NOT a\<rparr>"

definition uint8 :: "int \<Rightarrow> byte" where
  "uint8 x = word_of_int x"

definition resetStyle :: "vt \<Rightarrow> vt" where
  "resetStyle vt = vt\<lparr>currentFg := DefaultColor, currentBg := DefaultColor,
     currentAttrs := AttrNone, currentUnderlineStyle := UnderlineNone,
     currentUnderlineColor := DefaultColor\<rparr>"

definition handleUnderlineStyle :: "bytes list \<Rightarrow> vt \<Rightarrow> vt" where
  "handleUnderlineStyle subParts vt =
     (if length subParts > 1 then
        let style = parseIntOrZero (subParts ! 1)
        in if style = 0 then (clear_attr AttrUnderline vt)\<lparr>currentUnderlineStyle := UnderlineNone\<rparr>
           else if style = 1 then (set_attr AttrUnderline vt)\<lparr>currentUnderlineStyle := UnderlineSingle\<rparr>
           else if style = 2 then (set_attr AttrUnderline vt)\<lparr>currentUnderlineStyle := UnderlineDouble\<rparr>
           else if style = 3 then (set_attr AttrUnderline vt)\<lparr>currentUnderlineStyle := UnderlineCurly\<rparr>
           else if style = 4 then (set_attr AttrUnderline vt)\<lparr>currentUnderlineStyle := UnderlineDotted\<rparr>
           else if style = 5 then (set_attr AttrUnderline vt)\<lparr>currentUnderlineStyle := UnderlineDashed\<rparr>
           else vt
      else (set_attr AttrUnderline vt)\<lparr>currentUnderlineStyle := UnderlineSingle\<rparr>)"

definition handleUnderlineColorColon :: "bytes list \<Rightarrow> vt \<Rightarrow> vt" where
  "handleUnderlineColorColon subParts vt =
     (if length subParts \<ge> 3 \<and> subParts ! 1 = [0x35] then
        vt\<lparr>currentUnderlineColor := PaletteColor (uint8 (parseIntOrZero (subParts ! 2)))\<rparr>
      else if length subParts \<ge> 5 \<and> subParts ! 1 = [0x32] then
        let startIdx = (if subParts ! 2 = [] then 3 else 2)
        in if length subParts \<ge> startIdx + 3 then
             vt\<lparr>currentUnderlineColor :=
                 RGBColor (uint8 (parseIntOrZero (subParts ! startIdx)))
                          (uint8 (parseIntOrZero (subParts ! (startIdx + 1))))
                          (uint8 (parseIntOrZero (subParts ! (startIdx + 2))))\<rparr>
           else vt
      else vt)"

definition handleSGRWithSubParams :: "nat \<Rightarrow> bytes \<Rightarrow> vt \<Rightarrow> vt \<times> nat" where
  "handleSGRWithSubParams i part vt =
     (let subParts = split_on colon part; mainParam = parseIntOrZero (subParts ! 0)
      in (if mainParam = 4 then handleUnderlineStyle subParts vt
          else if mainParam = 58 then handleUnderlineColorColon subParts vt
          else vt, i + 1))"

definition parseExtendedColorFromParts :: "bytes list \<Rightarrow> nat \<Rightarrow> bool \<Rightarrow> vt \<Rightarrow> vt \<times> nat" where
  "parseExtendedColorFromParts parts i isForeground vt =
     (if i + 1 \<ge> length parts then (vt, i + 1)
      else
        let mode = parseIntOrZero (parts ! (i + 1));
            put = (\<lambda>c. if isForeground then vt\<lparr>currentFg := c\<rparr> else vt\<lparr>currentBg := c\<rparr>)
        in if mode = 5 \<and> i + 2 < length parts then
             (put (PaletteColor (uint8 (parseIntOrZero (parts ! (i + 2))))), i + 3)
           else if mode = 2 \<and> i + 4 < length parts then
             (put (RGBColor (uint8 (parseIntOrZero (parts ! (i + 2))))
                            (uint8 (parseIntOrZero (parts ! (i + 3))))
                            (uint8 (parseIntOrZero (parts ! (i + 4))))), i + 5)
           else (vt, i + 2))"

definition parseUnderlineColorFromParts :: "bytes list \<Rightarrow> nat \<Rightarrow> vt \<Rightarrow> vt \<times> nat" where
  "parseUnderlineColorFromParts parts i vt =
     (if i + 1 \<ge> length parts then (vt, i + 1)
      else
        let mode = parseIntOrZero (parts ! (i + 1))
        in if mode = 5 \<and> i + 2 < length parts then
             (vt\<lparr>currentUnderlineColor := PaletteColor (uint8 (parseIntOrZero (parts ! (i + 2))))\<rparr>, i + 3)
           else if mode = 2 \<and> i + 4 < length parts then
             (vt\<lparr>currentUnderlineColor :=
                  RGBColor (uint8 (parseIntOrZero (parts ! (i + 2))))
                           (uint8 (parseIntOrZero (parts ! (i + 3))))
                           (uint8 (parseIntOrZero (parts ! (i + 4))))\<rparr>, i + 5)
           else (vt, i + 2))"

text \<open>The parameters that concern a single attribute or a palette colour; others change nothing.\<close>

definition sgr_simple :: "int \<Rightarrow> vt \<Rightarrow> vt" where
  "sgr_simple p vt =
     (if p = 0 then resetStyle vt
      else if p = 1 then set_attr AttrBold vt
      else if p = 2 then set_attr AttrDim vt
      else if p = 3 then set_attr AttrItalic vt
      else if p = 4 then (set_attr AttrUnderline vt)\<lparr>currentUnderlineStyle := UnderlineSingle\<rparr>
      else if p = 5 then set_attr AttrBlink vt
      else if p = 7 then set_attr AttrInverse vt
      else if p = 8 then set_attr AttrInvisible vt
      else if p = 9 then set_attr AttrStrikethrough vt
      else if p = 21 then (set_attr AttrUnderline vt)\<lparr>currentUnderlineStyle := UnderlineDouble\<rparr>
      else if p = 22 then clear_attr (AttrBold OR AttrDim) vt
      else if p = 23 then clear_attr AttrItalic vt
      else if p = 24 then (clear_attr AttrUnderline vt)\<lparr>currentUnderlineStyle := UnderlineNone\<rparr>
      else if p = 25 then clear_attr AttrBlink vt
      else if p = 27 then clear_attr AttrInverse vt
      else if p = 28 then clear_attr AttrInvisible vt
      else if p = 29 then clear_attr AttrStrikethrough vt
      else if 30 \<le> p \<and> p \<le> 37 then vt\<lparr>currentFg := PaletteColor (uint8 (p - 30))\<rparr>
      else if p = 39 then vt\<lparr>currentFg := DefaultColor\<rparr>
      else if 40 \<le> p \<and> p \<le> 47 then vt\<lparr>currentBg := PaletteColor (uint8 (p - 40))\<rparr>
      else if p = 49 then vt\<lparr>currentBg := DefaultColor\<rparr>
      else if p = 53 then set_attr AttrOverline vt
      else if p = 55 then clear_attr AttrOverline vt
      else if p = 59 then vt\<lparr>currentUnderlineColor := DefaultColor\<rparr>
      else if 90 \<le> p \<and> p \<le> 97 then vt\<lparr>currentFg := PaletteColor (uint8 (p - 90 + 8))\<rparr>
      else if 100 \<le> p \<and> p \<le> 107 then vt\<lparr>currentBg := PaletteColor (uint8 (p - 100 + 8))\<rparr>
      else vt)"

definition handleSGRStandard :: "bytes list \<Rightarrow> nat \<Rightarrow> int \<Rightarrow> vt \<Rightarrow> vt \<times> nat" where
  "handleSGRStandard parts i p vt =
     (if p = 38 then parseExtendedColorFromParts parts i True vt
      else if p = 48 then parseExtendedColorFromParts parts i False vt
      else if p = 58 then parseUnderlineColorFromParts parts i vt
      else (sgr_simple p vt, i + 1))"

text \<open>One turn of the loop over the parameters: the new state and the next index.\<close>

definition sgr_step :: "bytes list \<Rightarrow> nat \<Rightarrow> vt \<Rightarrow> vt \<times> nat" where
  "sgr_step parts i vt =
     (let part = parts ! i
      in if colon \<in> set part then handleSGRWithSubParams i part vt
         else handleSGRStandard parts i (parseIntOrZero part) vt)"

lemma sgr_step_advances: "i < snd (sgr_step parts i vt)"
  by (auto simp: sgr_step_def handleSGRWithSubParams_def handleSGRStandard_def
      parseExtendedColorFromParts_def parseUnderlineColorFromParts_def Let_def)

function sgr_loop :: "bytes list \<Rightarrow> nat \<Rightarrow> vt \<Rightarrow> vt" where
  "sgr_loop parts i vt =
     (if i < length parts
      then sgr_loop parts (snd (sgr_step parts i vt)) (fst (sgr_step parts i vt))
      else vt)"
  by pat_completeness auto
termination
  by (relation "measure (\<lambda>(parts, i, vt). length parts - i)")
    (auto intro: diff_less_mono2 sgr_step_advances)

declare sgr_loop.simps [simp del]

definition handleSGR :: "vt \<Rightarrow> vt" where
  "handleSGR vt =
     (let raw = escRawSeq vt;
          rawSeq = (if raw \<noteq> [] \<and> last raw = 0x6D then butlast raw else raw)
      in if rawSeq = [] \<or> rawSeq = [0x30] then resetStyle vt
         else sgr_loop (split_on semicolon rawSeq) 0 vt)"

section \<open>Generating SGR\<close>

definition equalFlags :: "cell \<Rightarrow> cell \<Rightarrow> bool" where
  "equalFlags c old \<longleftrightarrow>
     Attrs c = Attrs old \<and>
     (Has (Attrs c) AttrUnderline \<longrightarrow>
        ULStyle c = ULStyle old \<and> color_Equals (ULColor c) (ULColor old))"

fun buildFgColorSGR :: "color \<Rightarrow> bytes list" where
  "buildFgColorSGR DefaultColor = [itoa 39]"
| "buildFgColorSGR (PaletteColor idx) =
     (if idx < 8 then [itoa (unat (30 + idx))]
      else if idx < 16 then [itoa (unat (90 + idx - 8))]
      else [itoa 38, itoa 5, itoa (unat idx)])"
| "buildFgColorSGR (RGBColor r g b) = [itoa 38, itoa 2, itoa (unat r), itoa (unat g), itoa (unat b)]"

fun buildBgColorSGR :: "color \<Rightarrow> bytes list" where
  "buildBgColorSGR DefaultColor = [itoa 49]"
| "buildBgColorSGR (PaletteColor idx) =
     (if idx < 8 then [itoa (unat (40 + idx))]
      else if idx < 16 then [itoa (unat (100 + idx - 8))]
      else [itoa 48, itoa 5, itoa (unat idx)])"
| "buildBgColorSGR (RGBColor r g b) = [itoa 48, itoa 2, itoa (unat r), itoa (unat g), itoa (unat b)]"

text \<open>One attribute: its code when it was switched on, the other one when it was switched off.\<close>

definition flagSGR :: "cell_attrs \<Rightarrow> nat \<Rightarrow> nat \<Rightarrow> cell \<Rightarrow> cell \<Rightarrow> bytes list" where
  "flagSGR attr on off c old =
     (if Has (Attrs c) attr \<noteq> Has (Attrs old) attr
      then [itoa (if Has (Attrs c) attr then on else off)] else [])"

definition underlineChanged :: "cell \<Rightarrow> cell \<Rightarrow> bool" where
  "underlineChanged c old \<longleftrightarrow>
     Has (Attrs c) AttrUnderline \<noteq> Has (Attrs old) AttrUnderline \<or>
     (Has (Attrs c) AttrUnderline \<and> Has (Attrs old) AttrUnderline \<and>
      (ULStyle c \<noteq> ULStyle old \<or> \<not> color_Equals (ULColor c) (ULColor old)))"

fun underlineColorSGR :: "color \<Rightarrow> bytes list" where
  "underlineColorSGR DefaultColor = []"
| "underlineColorSGR (RGBColor r g b) =
     [join_with colon [itoa 58, itoa 2, [], itoa (unat r), itoa (unat g), itoa (unat b)]]"
| "underlineColorSGR (PaletteColor idx) = [join_with colon [itoa 58, itoa 5, itoa (unat idx)]]"

definition underlineSGR :: "cell \<Rightarrow> cell \<Rightarrow> bytes list" where
  "underlineSGR c old =
     (if \<not> underlineChanged c old then []
      else if \<not> Has (Attrs c) AttrUnderline then [itoa 24]
      else let style = (if ULStyle c = UnderlineNone then UnderlineSingle else ULStyle c)
           in join_with colon [itoa 4, itoa (underline_num style)] # underlineColorSGR (ULColor c))"

definition buildFlagsSGR :: "cell \<Rightarrow> cell \<Rightarrow> bytes list" where
  "buildFlagsSGR c old =
     flagSGR AttrInverse 7 27 c old @
     flagSGR AttrBold 1 22 c old @
     underlineSGR c old @
     flagSGR AttrOverline 53 55 c old @
     flagSGR AttrBlink 5 25 c old @
     flagSGR AttrInvisible 8 28 c old @
     flagSGR AttrItalic 3 23 c old @
     flagSGR AttrDim 2 22 c old @
     flagSGR AttrStrikethrough 9 29 c old"

definition diffStyle :: "cell \<Rightarrow> cell \<Rightarrow> bytes list" where
  "diffStyle c old =
     (let fgChanged = (\<not> color_Equals (Fg c) (Fg old));
          bgChanged = (\<not> color_Equals (Bg c) (Bg old));
          flagsChanged = (\<not> equalFlags c old)
      in if \<not> fgChanged \<and> \<not> bgChanged \<and> \<not> flagsChanged then []
         else if IsAttributeDefault c then (if \<not> IsAttributeDefault old then [itoa 0] else [])
         else (if fgChanged then buildFgColorSGR (Fg c) else []) @
              (if bgChanged then buildBgColorSGR (Bg c) else []) @
              (if flagsChanged then buildFlagsSGR c old else []))"

section \<open>Lemmas: SGR changes the style only\<close>

definition restyled :: "vt \<Rightarrow> vt \<Rightarrow> bool" where
  "restyled vt vt' \<longleftrightarrow>
     (\<exists>fg bg a us uc. vt' = vt\<lparr>currentFg := fg, currentBg := bg, currentAttrs := a,
        currentUnderlineStyle := us, currentUnderlineColor := uc\<rparr>)"

lemma restyledI:
  "restyled vt (vt\<lparr>currentFg := fg, currentBg := bg, currentAttrs := a,
     currentUnderlineStyle := us, currentUnderlineColor := uc\<rparr>)"
  unfolding restyled_def by blast

lemma restyledE:
  assumes "restyled vt vt'"
  obtains fg bg a us uc where "vt' = vt\<lparr>currentFg := fg, currentBg := bg, currentAttrs := a,
     currentUnderlineStyle := us, currentUnderlineColor := uc\<rparr>"
  using assms unfolding restyled_def by blast

lemma restyled_refl [simp]: "restyled vt vt"
  using restyledI [where vt = vt and fg = "currentFg vt" and bg = "currentBg vt" and
      a = "currentAttrs vt" and us = "currentUnderlineStyle vt" and uc = "currentUnderlineColor vt"]
  by simp

lemma restyled_trans: "restyled a b \<Longrightarrow> restyled b c \<Longrightarrow> restyled a c"
  by (auto elim!: restyledE intro: restyledI)

lemma restyled_wf: "vt_wf vt \<Longrightarrow> restyled vt vt' \<Longrightarrow> vt_wf vt'"
  by (auto elim!: restyledE simp: vt_wf_def body_wf_def)

lemma restyled_if: "restyled v a \<Longrightarrow> restyled v b \<Longrightarrow> restyled v (if c then a else b)"
  by simp

lemma restyled_update [simp]:
  "restyled vt (vt\<lparr>currentFg := fg\<rparr>)" "restyled vt (vt\<lparr>currentBg := bg\<rparr>)"
  "restyled vt (vt\<lparr>currentAttrs := a\<rparr>)" "restyled vt (vt\<lparr>currentUnderlineColor := uc\<rparr>)"
  "restyled vt (vt\<lparr>currentAttrs := a, currentUnderlineStyle := us\<rparr>)"
  using
    restyledI [where vt = vt and fg = "fg" and bg = "currentBg vt" and a = "currentAttrs vt" and us = "currentUnderlineStyle vt" and
      uc = "currentUnderlineColor vt"]
    restyledI [where vt = vt and fg = "currentFg vt" and bg = "bg" and a = "currentAttrs vt" and us = "currentUnderlineStyle vt" and
      uc = "currentUnderlineColor vt"]
    restyledI [where vt = vt and fg = "currentFg vt" and bg = "currentBg vt" and a = "a" and us = "currentUnderlineStyle vt" and
      uc = "currentUnderlineColor vt"]
    restyledI [where vt = vt and fg = "currentFg vt" and bg = "currentBg vt" and a = "currentAttrs vt" and us = "currentUnderlineStyle vt" and
      uc = "uc"]
    restyledI [where vt = vt and fg = "currentFg vt" and bg = "currentBg vt" and a = "a" and us = "us" and
      uc = "currentUnderlineColor vt"]
  by simp_all

lemma resetStyle_restyled [simp]: "restyled vt (resetStyle vt)"
  unfolding resetStyle_def by (rule restyledI)

lemma sgr_parts_restyled [simp]:
  "restyled vt (handleUnderlineStyle ps vt)" "restyled vt (handleUnderlineColorColon ps vt)"
  "restyled vt (fst (parseExtendedColorFromParts parts i fg vt))"
  "restyled vt (fst (parseUnderlineColorFromParts parts i vt))"
  by (simp_all add: handleUnderlineStyle_def handleUnderlineColorColon_def set_attr_def clear_attr_def
      parseExtendedColorFromParts_def parseUnderlineColorFromParts_def Let_def)

lemma sgr_simple_restyled [simp]: "restyled vt (sgr_simple p vt)"
  unfolding sgr_simple_def set_attr_def clear_attr_def
  by (intro restyled_if restyled_update resetStyle_restyled restyled_refl)

lemma sgr_step_restyled: "restyled vt (fst (sgr_step parts i vt))"
  by (simp add: sgr_step_def handleSGRWithSubParams_def handleSGRStandard_def Let_def)

lemma sgr_loop_restyled: "restyled vt (sgr_loop parts i vt)"
proof (induction parts i vt rule: sgr_loop.induct)
  case (1 parts i vt)
  then show ?case
    by (subst sgr_loop.simps) (auto intro: restyled_trans [OF sgr_step_restyled])
qed

lemma handleSGR_restyled: "restyled vt (handleSGR vt)"
  by (simp add: handleSGR_def Let_def sgr_loop_restyled)

end
