(* ===== verification/VT_Style.thy ===== *)
theory VT_Style
  imports VT_SGR
begin

text \<open>
  The round trip of text styles. The serializer describes a change of style by the parameters of
  \<open>diffStyle\<close>; a terminal that had the old style and reads them with \<open>handleSGR\<close> has the new one. The
  exceptions are those of the codes themselves: 22 switches off bold and dim together, and no code of the
  serializer switches an underline colour off.

  \<open>reads\<close> says what the loop over the parameters does with a segment of them, whatever stands before and
  behind it; segments compose.
\<close>

unbundle bit_operations_syntax

section \<open>Numbers and separators\<close>

lemma itoa_digits: "c \<in> set (itoa n) \<Longrightarrow> 0x30 \<le> uint c \<and> uint c \<le> 0x39"
proof (induction n rule: itoa.induct)
  case (1 n)
  have digit: "0x30 \<le> uint (0x30 + word_of_nat k :: byte) \<and> uint (0x30 + word_of_nat k :: byte) \<le> 0x39" if "k < 10" for k
  proof -
    have "k \<in> {0,1,2,3,4,5,6,7,8,9}" using that by auto
    then show ?thesis by auto
  qed
  show ?case
    using 1 digit [of n] digit [of "n mod 10"] by (subst (asm) (2) itoa.simps) (auto split: if_splits)
qed

lemma itoa_is_digit: "c \<in> set (itoa n) \<Longrightarrow> is_digit c"
  using itoa_digits [of c n] by (simp add: is_digit_def word_le_def)

lemma itoa_nonempty [simp]: "itoa n \<noteq> []"
  by (subst itoa.simps) simp

lemma digit_not_separator: "is_digit c \<Longrightarrow> c \<noteq> semicolon \<and> c \<noteq> colon"
  by (auto simp: is_digit_def semicolon_def colon_def)

lemma itoa_no_separator [simp]: "semicolon \<notin> set (itoa n)" "colon \<notin> set (itoa n)"
  using itoa_is_digit digit_not_separator by blast+

lemma digit_value:
  assumes "k < 10"
  shows "uint ((0x30 :: byte) + word_of_nat k - 0x30) = int k" "is_digit (0x30 + word_of_nat k)"
proof -
  have "k \<in> {0,1,2,3,4,5,6,7,8,9}" using assms by auto
  then show "uint ((0x30 :: byte) + word_of_nat k - 0x30) = int k" "is_digit (0x30 + word_of_nat k)"
    by (auto simp: is_digit_def)
qed

lemma parse_itoa: "n < 2 ^ 63 \<Longrightarrow> parseIntOrZero (itoa n) = int n"
proof (induction n rule: itoa.induct)
  case (1 n)
  have split: "itoa n = (if n < 10 then [0x30 + word_of_nat n] else itoa (n div 10) @ [0x30 + word_of_nat (n mod 10)])"
    by (rule itoa.simps)
  have whole: "int (n div 10) * 10 + int (n mod 10) = int n" by presburger
  have "n div 10 < 2 ^ 63" using 1(2) by (meson div_le_dividend le_less_trans)
  note rec = 1(1) [OF _ this]
  have id: "wrap64 (int n) = int n" using 1(2) by (intro wrap64_id) simp_all
  show ?case
  proof (cases "n < 10")
    case True
    then show ?thesis using digit_value [of n] id by (simp add: split parseIntOrZero_def)
  next
    case False
    then show ?thesis
      using digit_value [of "n mod 10"] id rec whole by (simp add: split parseIntOrZero_def)
  qed
qed

lemma parse_itoa_byte [simp]: "parseIntOrZero (itoa (unat (b :: byte))) = uint b"
proof -
  have "unat b < 2 ^ 8" using unsigned_less [of b, where 'a = nat] by simp
  then have "unat b < 2 ^ 63" by simp
  then show ?thesis by (simp add: parse_itoa)
qed

lemma parse_itoa_small [simp]: "n < 1000 \<Longrightarrow> parseIntOrZero (itoa n) = int n"
  by (rule parse_itoa) simp

lemma uint8_uint [simp]: "uint8 (uint (b :: byte)) = b"
  by (simp add: uint8_def)

lemma split_on_nonempty [simp]: "split_on sep xs \<noteq> []"
  by (induction xs) (auto split: list.split)

lemma split_on_plain: "sep \<notin> set p \<Longrightarrow> split_on sep p = [p]"
  by (induction p) auto

lemma split_on_append: "sep \<notin> set p \<Longrightarrow> split_on sep (p @ sep # rest) = p # split_on sep rest"
  by (induction p) auto

lemma split_join:
  "ps \<noteq> [] \<Longrightarrow> \<forall>p \<in> set ps. sep \<notin> set p \<Longrightarrow> split_on sep (join_with sep ps) = ps"
  by (induction sep ps rule: join_with.induct) (auto simp: split_on_plain split_on_append)

section \<open>Segments of parameters\<close>

definition reads :: "bytes list \<Rightarrow> vt \<Rightarrow> vt \<Rightarrow> bool" where
  "reads seg v v' \<longleftrightarrow>
     (\<forall>pre post. sgr_loop (pre @ seg @ post) (length pre) v =
        sgr_loop (pre @ seg @ post) (length pre + length seg) v')"

lemma reads_Nil [simp]: "reads [] v v"
  by (simp add: reads_def)

lemma reads_append: "reads a v v' \<Longrightarrow> reads b v' v'' \<Longrightarrow> reads (a @ b) v v''"
  unfolding reads_def by (metis append.assoc length_append add.assoc)

lemma reads_stepI:
  assumes "\<And>pre post. sgr_step (pre @ seg @ post) (length pre) v = (v', length pre + length seg)" and "seg \<noteq> []"
  shows "reads seg v v'"
  unfolding reads_def using assms by (subst sgr_loop.simps) auto

lemma reads_whole: "reads parts v v' \<Longrightarrow> sgr_loop parts 0 v = v'"
  using sgr_loop.simps [of parts "length parts" v'] unfolding reads_def
  by (metis append_Nil append_Nil2 list.size(3) add_0 less_irrefl)

lemma reads_code:
  assumes "n < 1000" "n \<noteq> 38" "n \<noteq> 48" "n \<noteq> 58"
  shows "reads [itoa n] v (sgr_simple (int n) v)"
  by (rule reads_stepI) (use assms in \<open>simp_all add: sgr_step_def handleSGRStandard_def nth_append\<close>)

lemma reads_extended:
  "reads [itoa 38, itoa 5, itoa (unat i)] v (v\<lparr>currentFg := PaletteColor i\<rparr>)"
  "reads [itoa 48, itoa 5, itoa (unat i)] v (v\<lparr>currentBg := PaletteColor i\<rparr>)"
  "reads [itoa 38, itoa 2, itoa (unat r), itoa (unat g), itoa (unat b)] v (v\<lparr>currentFg := RGBColor r g b\<rparr>)"
  "reads [itoa 48, itoa 2, itoa (unat r), itoa (unat g), itoa (unat b)] v (v\<lparr>currentBg := RGBColor r g b\<rparr>)"
  by (rule reads_stepI; simp add: sgr_step_def handleSGRStandard_def parseExtendedColorFromParts_def
      Let_def nth_append)+

section \<open>Attribute bits\<close>

lemma attr_powers:
  "AttrBold = 2 ^ 0" "AttrDim = 2 ^ 1" "AttrItalic = 2 ^ 2" "AttrUnderline = 2 ^ 3" "AttrBlink = 2 ^ 4"
  "AttrInverse = 2 ^ 5" "AttrInvisible = 2 ^ 6" "AttrStrikethrough = 2 ^ 7" "AttrOverline = 2 ^ 8"
  by (simp_all add: attr_defs)

lemma Has_power: "Has a (2 ^ k) \<longleftrightarrow> bit a k"
  by (simp add: Has_def and_exp_eq_0_iff_not_bit)

lemma Has_bits:
  "Has a AttrBold = bit a 0" "Has a AttrDim = bit a 1" "Has a AttrItalic = bit a 2" "Has a AttrUnderline = bit a 3"
  "Has a AttrBlink = bit a 4" "Has a AttrInverse = bit a 5" "Has a AttrInvisible = bit a 6"
  "Has a AttrStrikethrough = bit a 7" "Has a AttrOverline = bit a 8"
  unfolding attr_powers Has_power by simp_all

lemma bit_power: "k < 16 \<Longrightarrow> bit (2 ^ k :: cell_attrs) n \<longleftrightarrow> n = k"
  by (auto simp: bit_exp_iff)

lemma bit_attr:
  "bit AttrBold n \<longleftrightarrow> n = 0" "bit AttrDim n \<longleftrightarrow> n = 1" "bit AttrItalic n \<longleftrightarrow> n = 2" "bit AttrUnderline n \<longleftrightarrow> n = 3"
  "bit AttrBlink n \<longleftrightarrow> n = 4" "bit AttrInverse n \<longleftrightarrow> n = 5" "bit AttrInvisible n \<longleftrightarrow> n = 6"
  "bit AttrStrikethrough n \<longleftrightarrow> n = 7" "bit AttrOverline n \<longleftrightarrow> n = 8"
  unfolding attr_powers by (rule bit_power, simp)+

text \<open>Only the nine attributes of the source are set.\<close>

definition known_attrs :: "cell_attrs \<Rightarrow> bool" where
  "known_attrs a \<longleftrightarrow> take_bit 9 a = a"

lemma known_attrs_bit: "known_attrs a \<Longrightarrow> 9 \<le> n \<Longrightarrow> \<not> bit a n"
  unfolding known_attrs_def by (metis bit_take_bit_iff not_le)

lemma attrs_eqI:
  assumes "known_attrs a" "known_attrs b" "\<And>n. n < 9 \<Longrightarrow> bit a n = bit b n"
  shows "a = b"
  by (rule bit_eqI) (metis assms known_attrs_bit not_le)

lemma known_attrsI:
  assumes "\<And>n. 9 \<le> n \<Longrightarrow> \<not> bit a n"
  shows "known_attrs a"
  unfolding known_attrs_def
proof (rule bit_eqI)
  fix n
  show "bit (take_bit 9 a) n = bit a n"
    using assms [of n] by (cases "n < 9") (simp_all add: bit_take_bit_iff)
qed

section \<open>What the parameters of the serializer do\<close>

lemma reads_fg: "reads (buildFgColorSGR c) v (v\<lparr>currentFg := c\<rparr>)"
proof (cases c)
  case DefaultColor
  then show ?thesis using reads_code [of 39 v] by (simp add: sgr_simple_def)
next
  case (PaletteColor i)
  consider "i < 8" | "\<not> i < 8" "i < 16" | "\<not> i < 8" "\<not> i < 16" by blast
  then show ?thesis
  proof cases
    case 1
    then have n: "unat (30 + i) = 30 + unat i" "unat i < 8" by (simp_all add: word_less_nat_alt unat_word_ariths)
    show ?thesis
      using reads_code [of "30 + unat i" v] 1 n PaletteColor
      by (simp add: sgr_simple_def del: of_nat_add) (simp add: uint8_def)
  next
    case 2
    then have n: "unat (90 + i - 8) = 82 + unat i" "unat i < 16" "8 \<le> unat i"
      by (simp_all add: word_less_nat_alt unat_word_ariths)
    show ?thesis
      using reads_code [of "82 + unat i" v] 2 n PaletteColor
      by (simp add: sgr_simple_def del: of_nat_add) (simp add: uint8_def)
  next
    case 3
    then show ?thesis using reads_extended(1) PaletteColor by simp
  qed
next
  case (RGBColor r g b)
  then show ?thesis using reads_extended(3) by simp
qed

lemma reads_bg: "reads (buildBgColorSGR c) v (v\<lparr>currentBg := c\<rparr>)"
proof (cases c)
  case DefaultColor
  then show ?thesis using reads_code [of 49 v] by (simp add: sgr_simple_def)
next
  case (PaletteColor i)
  consider "i < 8" | "\<not> i < 8" "i < 16" | "\<not> i < 8" "\<not> i < 16" by blast
  then show ?thesis
  proof cases
    case 1
    then have n: "unat (40 + i) = 40 + unat i" "unat i < 8" by (simp_all add: word_less_nat_alt unat_word_ariths)
    show ?thesis
      using reads_code [of "40 + unat i" v] 1 n PaletteColor
      by (simp add: sgr_simple_def del: of_nat_add) (simp add: uint8_def)
  next
    case 2
    then have n: "unat (100 + i - 8) = 92 + unat i" "unat i < 16" "8 \<le> unat i"
      by (simp_all add: word_less_nat_alt unat_word_ariths)
    show ?thesis
      using reads_code [of "92 + unat i" v] 2 n PaletteColor
      by (simp add: sgr_simple_def del: of_nat_add) (simp add: uint8_def)
  next
    case 3
    then show ?thesis using reads_extended(2) PaletteColor by simp
  qed
next
  case (RGBColor r g b)
  then show ?thesis using reads_extended(4) by simp
qed

text \<open>One attribute: \<open>cleared\<close> are the bits that its code for switching off clears.\<close>

definition flag_effect :: "cell_attrs \<Rightarrow> cell_attrs \<Rightarrow> cell \<Rightarrow> cell \<Rightarrow> cell_attrs \<Rightarrow> cell_attrs" where
  "flag_effect attr cleared c old a =
     (if Has (Attrs c) attr = Has (Attrs old) attr then a
      else if Has (Attrs c) attr then a OR attr else a AND NOT cleared)"

lemma reads_flag:
  assumes "on < 1000" "on \<notin> {38, 48, 58}" "off < 1000" "off \<notin> {38, 48, 58}"
    and "sgr_simple (int on) v = set_attr attr v" "sgr_simple (int off) v = clear_attr cleared v"
  shows "reads (flagSGR attr on off c old) v (v\<lparr>currentAttrs := flag_effect attr cleared c old (currentAttrs v)\<rparr>)"
  using reads_code [of on v] reads_code [of off v] assms
  by (auto simp: flagSGR_def flag_effect_def set_attr_def clear_attr_def)

lemma reads_flags:
  "reads (flagSGR AttrInverse 7 27 c old) v (v\<lparr>currentAttrs := flag_effect AttrInverse AttrInverse c old (currentAttrs v)\<rparr>)"
  "reads (flagSGR AttrBold 1 22 c old) v (v\<lparr>currentAttrs := flag_effect AttrBold (AttrBold OR AttrDim) c old (currentAttrs v)\<rparr>)"
  "reads (flagSGR AttrOverline 53 55 c old) v (v\<lparr>currentAttrs := flag_effect AttrOverline AttrOverline c old (currentAttrs v)\<rparr>)"
  "reads (flagSGR AttrBlink 5 25 c old) v (v\<lparr>currentAttrs := flag_effect AttrBlink AttrBlink c old (currentAttrs v)\<rparr>)"
  "reads (flagSGR AttrInvisible 8 28 c old) v (v\<lparr>currentAttrs := flag_effect AttrInvisible AttrInvisible c old (currentAttrs v)\<rparr>)"
  "reads (flagSGR AttrItalic 3 23 c old) v (v\<lparr>currentAttrs := flag_effect AttrItalic AttrItalic c old (currentAttrs v)\<rparr>)"
  "reads (flagSGR AttrDim 2 22 c old) v (v\<lparr>currentAttrs := flag_effect AttrDim (AttrBold OR AttrDim) c old (currentAttrs v)\<rparr>)"
  "reads (flagSGR AttrStrikethrough 9 29 c old) v (v\<lparr>currentAttrs := flag_effect AttrStrikethrough AttrStrikethrough c old (currentAttrs v)\<rparr>)"
  by (rule reads_flag; simp add: sgr_simple_def)+

text \<open>The underline, with its style and colour.\<close>

definition underline_effect :: "cell \<Rightarrow> cell \<Rightarrow> vt \<Rightarrow> vt" where
  "underline_effect c old v =
     (if \<not> underlineChanged c old then v
      else if \<not> Has (Attrs c) AttrUnderline
        then v\<lparr>currentAttrs := currentAttrs v AND NOT AttrUnderline, currentUnderlineStyle := UnderlineNone\<rparr>
      else v\<lparr>currentAttrs := currentAttrs v OR AttrUnderline,
             currentUnderlineStyle := (if ULStyle c = UnderlineNone then UnderlineSingle else ULStyle c),
             currentUnderlineColor := (if ULColor c = DefaultColor then currentUnderlineColor v else ULColor c)\<rparr>)"

lemma reads_sub:
  assumes "ps \<noteq> []"
  shows "reads [join_with colon (p # ps)] v (fst (handleSGRWithSubParams i (join_with colon (p # ps)) v))"
proof (rule reads_stepI)
  fix pre post
  have "colon \<in> set (join_with colon (p # ps))" using assms by (cases ps) auto
  then show "sgr_step (pre @ [join_with colon (p # ps)] @ post) (length pre) v =
      (fst (handleSGRWithSubParams i (join_with colon (p # ps)) v), length pre + length [join_with colon (p # ps)])"
    by (simp add: sgr_step_def nth_append handleSGRWithSubParams_def Let_def)
qed simp

lemma itoa_single: "n < 10 \<Longrightarrow> itoa n = [0x30 + word_of_nat n]"
  by (subst itoa.simps) simp

lemma reads_underline_style:
  assumes "st \<noteq> UnderlineNone"
  shows "reads [join_with colon [itoa 4, itoa (underline_num st)]] v
     ((set_attr AttrUnderline v)\<lparr>currentUnderlineStyle := st\<rparr>)"
proof -
  have "split_on colon (join_with colon [itoa 4, itoa (underline_num st)]) = [itoa 4, itoa (underline_num st)]"
    by (rule split_join) auto
  then have "fst (handleSGRWithSubParams i (join_with colon [itoa 4, itoa (underline_num st)]) v) =
      (set_attr AttrUnderline v)\<lparr>currentUnderlineStyle := st\<rparr>" for i
    using assms by (cases st) (simp_all add: handleSGRWithSubParams_def handleUnderlineStyle_def)
  then show ?thesis using reads_sub [of "[itoa (underline_num st)]" "itoa 4" v] by simp
qed

lemma reads_underline_colour:
  assumes "col \<noteq> DefaultColor"
  shows "reads (underlineColorSGR col) v (v\<lparr>currentUnderlineColor := col\<rparr>)"
proof (cases col)
  case (PaletteColor i)
  have "split_on colon (join_with colon [itoa 58, itoa 5, itoa (unat i)]) = [itoa 58, itoa 5, itoa (unat i)]"
    by (rule split_join) auto
  then have "fst (handleSGRWithSubParams k (join_with colon [itoa 58, itoa 5, itoa (unat i)]) v) =
      v\<lparr>currentUnderlineColor := col\<rparr>" for k
    using PaletteColor by (simp add: handleSGRWithSubParams_def handleUnderlineColorColon_def itoa_single)
  then show ?thesis using reads_sub [of "[itoa 5, itoa (unat i)]" "itoa 58" v] PaletteColor by simp
next
  case (RGBColor r g b)
  let ?ps = "[itoa 2, [], itoa (unat r), itoa (unat g), itoa (unat b)]"
  have "split_on colon (join_with colon (itoa 58 # ?ps)) = itoa 58 # ?ps"
    by (rule split_join) auto
  then have "fst (handleSGRWithSubParams k (join_with colon (itoa 58 # ?ps)) v) =
      v\<lparr>currentUnderlineColor := col\<rparr>" for k
    using RGBColor
    by (simp add: handleSGRWithSubParams_def handleUnderlineColorColon_def itoa_single Let_def)
  then show ?thesis using reads_sub [of ?ps "itoa 58" v] RGBColor by simp
qed (use assms in simp)

lemma reads_underline: "reads (underlineSGR c old) v (underline_effect c old v)"
proof (cases "underlineChanged c old \<and> Has (Attrs c) AttrUnderline")
  case False
  then show ?thesis
    using reads_code [of 24 v] by (auto simp: underlineSGR_def underline_effect_def sgr_simple_def clear_attr_def)
next
  case True
  let ?st = "if ULStyle c = UnderlineNone then UnderlineSingle else ULStyle c"
  let ?v = "(set_attr AttrUnderline v)\<lparr>currentUnderlineStyle := ?st\<rparr>"
  have st: "reads [join_with colon [itoa 4, itoa (underline_num ?st)]] v ?v"
    by (rule reads_underline_style) simp
  have col: "reads (underlineColorSGR (ULColor c)) ?v
      (if ULColor c = DefaultColor then ?v else ?v\<lparr>currentUnderlineColor := ULColor c\<rparr>)"
    using reads_underline_colour [of "ULColor c" ?v] by auto
  from reads_append [OF st col] show ?thesis
    using True by (cases "ULColor c = DefaultColor")
      (simp_all add: underlineSGR_def underline_effect_def set_attr_def Let_def)
qed

text \<open>All attribute changes together, in the order of the source.\<close>

definition flags_effect :: "cell \<Rightarrow> cell \<Rightarrow> vt \<Rightarrow> vt" where
  "flags_effect c old v =
     (let v = underline_effect c old (v\<lparr>currentAttrs :=
        flag_effect AttrBold (AttrBold OR AttrDim) c old (flag_effect AttrInverse AttrInverse c old (currentAttrs v))\<rparr>)
      in v\<lparr>currentAttrs :=
           flag_effect AttrStrikethrough AttrStrikethrough c old
            (flag_effect AttrDim (AttrBold OR AttrDim) c old
             (flag_effect AttrItalic AttrItalic c old
              (flag_effect AttrInvisible AttrInvisible c old
               (flag_effect AttrBlink AttrBlink c old
                (flag_effect AttrOverline AttrOverline c old (currentAttrs v))))))\<rparr>)"

lemma attrs_twice [simp]: "v\<lparr>currentAttrs := a, currentAttrs := b\<rparr> = v\<lparr>currentAttrs := b\<rparr>"
  by simp

lemma reads_buildFlags: "reads (buildFlagsSGR c old) v (flags_effect c old v)"
proof -
  note reads_append [OF reads_flags(1) reads_append [OF reads_flags(2) reads_append [OF reads_underline
        reads_append [OF reads_flags(3) reads_append [OF reads_flags(4) reads_append [OF reads_flags(5)
        reads_append [OF reads_flags(6) reads_append [OF reads_flags(7) reads_flags(8)]]]]]]]]
  then show ?thesis by (simp add: buildFlagsSGR_def flags_effect_def Let_def)
qed

text \<open>The terminal writes in the style of the cell; without an underline its style and colour do not matter.\<close>

definition shows_style :: "cell \<Rightarrow> vt \<Rightarrow> bool" where
  "shows_style c v \<longleftrightarrow>
     currentFg v = Fg c \<and> currentBg v = Bg c \<and> currentAttrs v = Attrs c \<and>
     (Has (Attrs c) AttrUnderline \<longrightarrow>
        currentUnderlineStyle v = ULStyle c \<and> currentUnderlineColor v = ULColor c)"

text \<open>What the codes cannot express.\<close>

definition expressible :: "cell \<Rightarrow> cell \<Rightarrow> bool" where
  "expressible c old \<longleftrightarrow>
     known_attrs (Attrs c) \<and> known_attrs (Attrs old) \<and>
     \<not> (Has (Attrs old) AttrBold \<and> \<not> Has (Attrs c) AttrBold \<and> Has (Attrs old) AttrDim \<and> Has (Attrs c) AttrDim) \<and>
     \<not> (Has (Attrs old) AttrDim \<and> \<not> Has (Attrs c) AttrDim \<and> Has (Attrs c) AttrBold) \<and>
     (Has (Attrs c) AttrUnderline \<longrightarrow> ULStyle c \<noteq> UnderlineNone)"

lemma flag_bit:
  "bit (flag_effect attr cleared c old a) n =
     (if \<not> bit attr n \<and> \<not> bit cleared n then bit a n
      else if Has (Attrs c) attr = Has (Attrs old) attr then bit a n
      else if Has (Attrs c) attr then bit a n \<or> bit attr n else bit a n \<and> \<not> bit cleared n)"
  by (auto simp: flag_effect_def bit_or_iff bit_and_iff bit_not_iff dest: bit_imp_le_length)

lemma underline_bit:
  "bit (currentAttrs (underline_effect c old v)) n =
     (if n \<noteq> 3 \<or> \<not> underlineChanged c old then bit (currentAttrs v) n else Has (Attrs c) AttrUnderline)"
  by (auto simp: underline_effect_def bit_or_iff bit_and_iff bit_not_iff bit_attr dest: bit_imp_le_length)

lemma flags_effect_attrs:
  assumes "expressible c old" "currentAttrs v = Attrs old"
  shows "currentAttrs (flags_effect c old v) = Attrs c"
proof -
  let ?a = "currentAttrs (flags_effect c old v)"
    have u: "Has (Attrs c) AttrUnderline = Has (Attrs old) AttrUnderline \<or> underlineChanged c old"
    by (auto simp: underlineChanged_def)
  note bits = flags_effect_def Let_def flag_bit underline_bit bit_attr bit_or_iff Has_bits
  have "bit ?a 0 = bit (Attrs c) 0" using assms by (simp add: bits expressible_def) blast
    moreover have "bit ?a 1 = bit (Attrs c) 1" using assms by (simp add: bits expressible_def) blast
    moreover have "bit ?a 3 = bit (Attrs c) 3" using assms u by (auto simp add: bits)
    moreover have "bit ?a 2 = bit (Attrs c) 2" "bit ?a 4 = bit (Attrs c) 4" "bit ?a 5 = bit (Attrs c) 5"
    "bit ?a 6 = bit (Attrs c) 6" "bit ?a 7 = bit (Attrs c) 7" "bit ?a 8 = bit (Attrs c) 8"
    using assms(2) by (simp_all add: bits)
    moreover have "bit ?a n = bit (Attrs c) n" if "9 \<le> n" for n
    using that known_attrs_bit [of _ n] assms by (simp add: bits expressible_def)
    moreover have "n = 0 \<or> n = 1 \<or> n = 3 \<or> n = 2 \<or> n = 4 \<or> n = 5 \<or> n = 6 \<or> n = 7 \<or> n = 8 \<or> 9 \<le> n" for n :: nat by auto
    ultimately show ?thesis by (intro bit_eqI) metis
qed

lemma flags_effect_underline:
  assumes "expressible c old" "Has (Attrs c) AttrUnderline"
    and "Has (Attrs old) AttrUnderline \<longrightarrow> currentUnderlineStyle v = ULStyle old \<and> currentUnderlineColor v = ULColor old"
    and "ULColor c = DefaultColor \<longrightarrow> currentUnderlineColor v = DefaultColor"
  shows "currentUnderlineStyle (flags_effect c old v) = ULStyle c"
    and "currentUnderlineColor (flags_effect c old v) = ULColor c"
  using assms by (auto simp: flags_effect_def Let_def underline_effect_def underlineChanged_def expressible_def)

lemma flags_effect_frame [simp]:
  "currentFg (flags_effect c old v) = currentFg v" "currentBg (flags_effect c old v) = currentBg v"
  by (simp_all add: flags_effect_def Let_def underline_effect_def)

text \<open>Everything \<open>diffStyle\<close> emits, in the order of the source.\<close>

definition diff_effect :: "cell \<Rightarrow> cell \<Rightarrow> vt \<Rightarrow> vt" where
  "diff_effect c old v =
     (if Fg c = Fg old \<and> Bg c = Bg old \<and> equalFlags c old then v
      else if IsAttributeDefault c then (if \<not> IsAttributeDefault old then resetStyle v else v)
      else let v = (if Fg c \<noteq> Fg old then v\<lparr>currentFg := Fg c\<rparr> else v);
               v = (if Bg c \<noteq> Bg old then v\<lparr>currentBg := Bg c\<rparr> else v)
           in if equalFlags c old then v else flags_effect c old v)"

lemma reads_if: "reads a v v' \<Longrightarrow> reads (if P then a else []) v (if P then v' else v)"
  by simp

lemma reads_diffStyle: "reads (diffStyle c old) v (diff_effect c old v)"
proof (cases "(Fg c = Fg old \<and> Bg c = Bg old \<and> equalFlags c old) \<or> IsAttributeDefault c")
  case True
  then show ?thesis
    using reads_code [of 0 v] by (auto simp: diffStyle_def diff_effect_def sgr_simple_def)
next
  case False
  from reads_append [OF reads_if [OF reads_fg] reads_append [OF reads_if [OF reads_bg] reads_if [OF reads_buildFlags]]]
  have "reads ((if Fg c \<noteq> Fg old then buildFgColorSGR (Fg c) else []) @
      (if Bg c \<noteq> Bg old then buildBgColorSGR (Bg c) else []) @
      (if \<not> equalFlags c old then buildFlagsSGR c old else [])) v
    (let v = (if Fg c \<noteq> Fg old then v\<lparr>currentFg := Fg c\<rparr> else v);
         v = (if Bg c \<noteq> Bg old then v\<lparr>currentBg := Bg c\<rparr> else v)
     in if \<not> equalFlags c old then flags_effect c old v else v)"
    (is "reads ?parts v ?v'") unfolding Let_def .
    moreover have "diffStyle c old = ?parts" using False by (auto simp: diffStyle_def Let_def)
    moreover have "diff_effect c old v = ?v'" using False by (auto simp: diff_effect_def Let_def)
    ultimately show ?thesis by simp
qed

lemma diff_effect_shows:
  assumes "shows_style old v" "expressible c old"
    and "Has (Attrs c) AttrUnderline \<and> ULColor c = DefaultColor \<longrightarrow> currentUnderlineColor v = DefaultColor"
  shows "shows_style c (diff_effect c old v)"
proof -
  consider "IsAttributeDefault c" | "\<not> IsAttributeDefault c" "equalFlags c old" | "\<not> IsAttributeDefault c" "\<not> equalFlags c old"
    by blast
  then show ?thesis
  proof cases
    case 1
    then have c: "Fg c = DefaultColor" "Bg c = DefaultColor" "Attrs c = 0"
      by (simp_all add: IsAttributeDefault_def AttrNone_def)
    have "shows_style c (resetStyle v)" using c by (simp add: shows_style_def resetStyle_def Has_def AttrNone_def)
      moreover have "shows_style c v" if "Fg c = Fg old" "Bg c = Bg old" "Attrs c = Attrs old"
      using that assms(1) c by (simp add: shows_style_def Has_def)
      moreover have "Fg c = Fg old \<and> Bg c = Bg old \<and> Attrs c = Attrs old" if "IsAttributeDefault old"
      using that c by (simp add: IsAttributeDefault_def AttrNone_def)
      ultimately show ?thesis using 1 by (simp add: diff_effect_def equalFlags_def)
  next
    case 2
    then have "Attrs c = Attrs old"
      "Has (Attrs c) AttrUnderline \<Longrightarrow> ULStyle c = ULStyle old \<and> ULColor c = ULColor old"
      by (simp_all add: equalFlags_def)
    with 2 assms(1) show ?thesis by (simp add: diff_effect_def shows_style_def Let_def)
  next
    case 3
    define u where "u = (let v = (if Fg c \<noteq> Fg old then v\<lparr>currentFg := Fg c\<rparr> else v)
       in (if Bg c \<noteq> Bg old then v\<lparr>currentBg := Bg c\<rparr> else v))"
    have u: "currentFg u = Fg c" "currentBg u = Bg c" "currentAttrs u = Attrs old"
      "currentUnderlineStyle u = currentUnderlineStyle v" "currentUnderlineColor u = currentUnderlineColor v"
      using assms(1) by (simp_all add: u_def Let_def shows_style_def)
    have "diff_effect c old v = flags_effect c old u"
      using 3 by (simp add: diff_effect_def u_def Let_def)
    moreover have "Has (Attrs c) AttrUnderline \<Longrightarrow> currentUnderlineStyle (flags_effect c old u) = ULStyle c \<and>
        currentUnderlineColor (flags_effect c old u) = ULColor c"
      using flags_effect_underline [OF assms(2)] u assms(1,3) by (simp add: shows_style_def)
    ultimately show ?thesis
      using u flags_effect_attrs [OF assms(2), of u] by (simp add: shows_style_def)
  qed
qed

section \<open>Reading the sequence\<close>

text \<open>The shape of parameters: digits and colons.\<close>

definition param_byte :: "byte \<Rightarrow> bool" where
  "param_byte b \<longleftrightarrow> is_digit b \<or> b = colon"

definition param_word :: "bytes \<Rightarrow> bool" where
  "param_word p \<longleftrightarrow> p \<noteq> [] \<and> list_all param_byte p"

lemma itoa_param [simp]: "param_word (itoa n)" "list_all param_byte (itoa n)"
  using itoa_is_digit by (auto simp: list_all_iff param_byte_def param_word_def)

lemma colon_param [simp]: "param_byte colon"
  by (simp add: param_byte_def)

lemma colour_bytes:
  "list_all param_word (buildFgColorSGR c)" "list_all param_word (buildBgColorSGR c)"
  "list_all param_word (underlineColorSGR c)"
  by (cases c; simp; simp add: param_word_def)+

lemma flag_bytes: "list_all param_word (flagSGR attr on off c old)"
  by (simp add: flagSGR_def)

lemma underline_bytes: "list_all param_word (underlineSGR c old)"
  by (simp add: underlineSGR_def Let_def colour_bytes) (simp add: param_word_def)

lemma diffStyle_bytes: "list_all param_word (diffStyle c old)"
  by (simp add: diffStyle_def buildFlagsSGR_def Let_def colour_bytes flag_bytes underline_bytes)

lemma param_word_no_semicolon: "param_word p \<Longrightarrow> semicolon \<notin> set p"
  by (auto simp: param_word_def list_all_iff param_byte_def is_digit_def semicolon_def colon_def)

text \<open>\<open>strings.Join(sgrSeq, ";")\<close> with the final byte.\<close>

definition sgr_text :: "bytes list \<Rightarrow> bytes" where
  "sgr_text parts = join_with semicolon parts @ [0x6D]"

lemma handleSGR_diffStyle:
  assumes "diffStyle c old \<noteq> []" "escRawSeq v = sgr_text (diffStyle c old)"
  shows "handleSGR v = diff_effect c old v"
proof -
  let ?parts = "diffStyle c old"
  have split: "split_on semicolon (join_with semicolon ?parts) = ?parts"
    by (rule split_join) (use assms(1) diffStyle_bytes [of c old] param_word_no_semicolon in \<open>auto simp: list_all_iff\<close>)
  have loop: "sgr_loop ?parts 0 v = diff_effect c old v"
    by (rule reads_whole) (rule reads_diffStyle)
  have ne: "join_with semicolon ?parts \<noteq> []"
  proof
    assume "join_with semicolon ?parts = []"
    then have "?parts = [[]]" using split by simp
    then show False using diffStyle_bytes [of c old] by (simp add: param_word_def)
  qed
  show ?thesis
  proof (cases "join_with semicolon ?parts = [0x30]")
    case True
    then have "?parts = [itoa 0]" using split split_on_plain [of semicolon "[0x30]"]
      by (simp add: semicolon_def itoa_single)
    then have "reads [itoa 0] v (resetStyle v)" using reads_code [of 0 v] by (simp add: sgr_simple_def)
    then have "sgr_loop ?parts 0 v = resetStyle v" using \<open>?parts = [itoa 0]\<close> by (simp add: reads_whole)
    then show ?thesis using True loop assms(2) by (simp add: handleSGR_def sgr_text_def)
  next
    case False
    then show ?thesis using ne loop split assms(2) by (simp add: handleSGR_def sgr_text_def)
  qed
qed

section \<open>Properties\<close>

text \<open>
  C39. The style codes of the serializer mean what they should: a terminal that writes in the style of the cell
  \<open>old\<close> and reads the sequence that \<open>diffStyle\<close> emits for \<open>c\<close> writes in the style of \<open>c\<close> afterwards; when
  nothing is emitted it already does. The styles use the nine attributes of the source; excluded are the
  changes the codes cannot express: bold is switched off while dim stays, dim is switched off while bold is
  on (both use 22), and an underline goes back to the default colour.
\<close>

theorem diffStyle_roundtrip:
  assumes "shows_style old vt" and "expressible c old"
    and "Has (Attrs c) AttrUnderline \<and> ULColor c = DefaultColor \<longrightarrow> currentUnderlineColor vt = DefaultColor"
  shows "shows_style c (if diffStyle c old = [] then vt
     else handleSGR (vt\<lparr>escRawSeq := sgr_text (diffStyle c old)\<rparr>))"
proof (cases "diffStyle c old = []")
  case True
  then have "diff_effect c old vt = vt"
    using reads_whole [OF reads_diffStyle [of c old vt]] by (simp add: sgr_loop.simps)
  then show ?thesis using diff_effect_shows [OF assms] True by simp
next
  case False
  let ?v = "vt\<lparr>escRawSeq := sgr_text (diffStyle c old)\<rparr>"
  have "shows_style old ?v" using assms(1) by (simp add: shows_style_def)
  then show ?thesis
    using diff_effect_shows [of old ?v c] handleSGR_diffStyle [OF False, of ?v] assms(2,3) False by simp
qed

theorem diffStyle_roundtrip_witness:
  "shows_style (NewFullStyledCell 0x61 (RGBColor 1 20 255) (PaletteColor 12) (AttrBold OR AttrUnderline) 1 UnderlineCurly (PaletteColor 3))
     (if diffStyle (NewFullStyledCell 0x61 (RGBColor 1 20 255) (PaletteColor 12) (AttrBold OR AttrUnderline) 1 UnderlineCurly (PaletteColor 3))
          (NewCell 0x20) = [] then NewVirtualTerminal 3 2 5
      else handleSGR ((NewVirtualTerminal 3 2 5)\<lparr>escRawSeq := sgr_text (diffStyle
          (NewFullStyledCell 0x61 (RGBColor 1 20 255) (PaletteColor 12) (AttrBold OR AttrUnderline) 1 UnderlineCurly (PaletteColor 3))
          (NewCell 0x20))\<rparr>))"
proof (rule diffStyle_roundtrip)
  show "shows_style (NewCell 0x20) (NewVirtualTerminal 3 2 5)" by code_simp
  show "expressible (NewFullStyledCell 0x61 (RGBColor 1 20 255) (PaletteColor 12) (AttrBold OR AttrUnderline) 1 UnderlineCurly (PaletteColor 3))
     (NewCell 0x20)" by code_simp
  show "Has (Attrs (NewFullStyledCell 0x61 (RGBColor 1 20 255) (PaletteColor 12) (AttrBold OR AttrUnderline) 1 UnderlineCurly (PaletteColor 3)))
      AttrUnderline \<and> ULColor (NewFullStyledCell 0x61 (RGBColor 1 20 255) (PaletteColor 12) (AttrBold OR AttrUnderline) 1 UnderlineCurly
      (PaletteColor 3)) = DefaultColor \<longrightarrow> currentUnderlineColor (NewVirtualTerminal 3 2 5) = DefaultColor"
    by code_simp
qed

section \<open>Changes that are lost\<close>

text \<open>From dim to bold the codes are \<open>1;22\<close>, and 22 switches bold off again.\<close>

theorem dim_to_bold_is_lost:
  "currentAttrs (handleSGR ((NewVirtualTerminal 3 2 5)\<lparr>currentAttrs := AttrDim,
     escRawSeq := sgr_text (diffStyle ((NewCell 0x61)\<lparr>Attrs := AttrBold\<rparr>) ((NewCell 0x62)\<lparr>Attrs := AttrDim\<rparr>))\<rparr>)) = AttrNone"
  by code_simp

text \<open>From a coloured underline to one in the default colour the code is \<open>4:1\<close>, which keeps the colour.\<close>

theorem underline_colour_sticks:
  "currentUnderlineColor (handleSGR ((NewVirtualTerminal 3 2 5)\<lparr>currentAttrs := AttrUnderline,
     currentUnderlineStyle := UnderlineSingle, currentUnderlineColor := PaletteColor 1,
     escRawSeq := sgr_text (diffStyle
       (NewFullStyledCell 0x61 DefaultColor DefaultColor AttrUnderline 1 UnderlineSingle DefaultColor)
       (NewFullStyledCell 0x62 DefaultColor DefaultColor AttrUnderline 1 UnderlineSingle (PaletteColor 1)))\<rparr>)) = PaletteColor 1"
  by code_simp

end
