(* ===== verification/VT_Parser.thy ===== *)
theory VT_Parser
  imports VT_SGR "HOL-Library.Signed_Division"
begin

text \<open>
  The escape-sequence state machine of the terminal emulator: control sequences
  (\<^verbatim>\<open>vt/csi.go\<close>), characters (\<^verbatim>\<open>vt/vt_char.go\<close>), escape bytes and OSC commands
  (\<^verbatim>\<open>vt/vt_escape.go\<close>) and \<open>Feed\<close> of \<^verbatim>\<open>vt/virtual_terminal.go\<close>.

  The display width of a rune comes from the package \<open>go-runewidth\<close>: it is the parameter \<open>rw\<close> of the
  functions that print, and \<open>rw_ok\<close> is what they rely on, a width of 0, 1 or 2.

  The parameters of a control sequence are Go ints that wrap around. \<open>feed_small\<close> runs the machine
  and checks that they stay below \<open>2 ^ 31\<close>; under this condition no input makes \<open>Feed\<close> panic, and the
  well-formedness of the screen is preserved.
\<close>

unbundle bit_operations_syntax

section \<open>Control sequences\<close>

definition clampCursor :: "vt \<Rightarrow> vt" where
  "clampCursor vt =
     (let y = (if cursorY vt < 0 then 0 else cursorY vt);
          y = (if y \<ge> rows vt then rows vt - 1 else y);
          x = (if cursorX vt < 0 then 0 else cursorX vt);
          x = (if x \<ge> cols vt then cols vt - 1 else x)
      in vt\<lparr>cursorX := x, cursorY := y\<rparr>)"

definition eraseInDisplay :: "int \<Rightarrow> vt \<Rightarrow> vt option" where
  "eraseInDisplay n vt =
     (if n = 0 then do {
        vt \<leftarrow> clearLine (cursorY vt) (cursorX vt) (cols vt) vt;
        for_up (cursorY vt + 1) (rows vt) (\<lambda>i vt. clearLine i 0 (cols vt) vt) vt }
      else if n = 1 then do {
        vt \<leftarrow> for_up 0 (cursorY vt) (\<lambda>i vt. clearLine i 0 (cols vt) vt) vt;
        clearLine (cursorY vt) 0 (cursorX vt + 1) vt }
      else if n = 2 \<or> n = 3 then
        for_up 0 (rows vt) (\<lambda>i vt. clearLine i 0 (cols vt) vt) vt
      else Some vt)"

definition eraseInLine :: "int \<Rightarrow> vt \<Rightarrow> vt option" where
  "eraseInLine n vt =
     (if n = 0 then clearLine (cursorY vt) (cursorX vt) (cols vt) vt
      else if n = 1 then clearLine (cursorY vt) 0 (cursorX vt + 1) vt
      else if n = 2 then clearLine (cursorY vt) 0 (cols vt) vt
      else Some vt)"

definition handlePrivateMode :: "bool \<Rightarrow> vt \<Rightarrow> vt option" where
  "handlePrivateMode set_mode vt =
     for_each (\<lambda>p vt. if p = 1049 \<or> p = 47
                      then (if set_mode then enterAltScreen vt else Some (exitAltScreen vt))
                      else Some vt) (escParams vt) vt"

text \<open>The helper \<open>param\<close> of \<open>executeCSI\<close>: a missing or non-positive parameter has its default.\<close>

definition param :: "vt \<Rightarrow> nat \<Rightarrow> int \<Rightarrow> int" where
  "param vt idx def =
     (if idx < length (escParams vt) \<and> escParams vt ! idx > 0 then escParams vt ! idx else def)"

definition cursorUp :: "int \<Rightarrow> vt \<Rightarrow> vt" where
  "cursorUp n vt = (let y = wrap64 (cursorY vt - n) in vt\<lparr>cursorY := (if y < 0 then 0 else y)\<rparr>)"

definition cursorDown :: "int \<Rightarrow> vt \<Rightarrow> vt" where
  "cursorDown n vt =
     (let y = wrap64 (cursorY vt + n) in vt\<lparr>cursorY := (if y \<ge> rows vt then rows vt - 1 else y)\<rparr>)"

definition cursorForward :: "int \<Rightarrow> vt \<Rightarrow> vt" where
  "cursorForward n vt =
     (let x = wrap64 (cursorX vt + n) in vt\<lparr>cursorX := (if x \<ge> cols vt then cols vt - 1 else x)\<rparr>)"

definition cursorBack :: "int \<Rightarrow> vt \<Rightarrow> vt" where
  "cursorBack n vt = (let x = wrap64 (cursorX vt - n) in vt\<lparr>cursorX := (if x < 0 then 0 else x)\<rparr>)"

definition cursorColumn :: "int \<Rightarrow> vt \<Rightarrow> vt" where
  "cursorColumn col vt =
     (let x = (if col - 1 < 0 then 0 else col - 1)
      in vt\<lparr>cursorX := (if x \<ge> cols vt then cols vt - 1 else x)\<rparr>)"

definition eraseChars :: "int \<Rightarrow> vt \<Rightarrow> vt option" where
  "eraseChars n vt = for_up 0 (min n (cols vt - cursorX vt))
     (\<lambda>i vt. set_at (cursorY vt) (cursorX vt + i) 0x20 (NewCell 0x20) vt) vt"

text \<open>The final byte selects the command; the codes are the ASCII letters of the source.\<close>

definition executeCSI :: "byte \<Rightarrow> vt \<Rightarrow> vt option" where
  "executeCSI cmd vt =
     (if cmd = 0x41 then Some (cursorUp (param vt 0 1) vt)
      else if cmd = 0x42 then Some (cursorDown (param vt 0 1) vt)
      else if cmd = 0x43 then Some (cursorForward (param vt 0 1) vt)
      else if cmd = 0x44 then Some (cursorBack (param vt 0 1) vt)
      else if cmd = 0x45 then Some (cursorDown (param vt 0 1) (vt\<lparr>cursorX := 0\<rparr>))
      else if cmd = 0x46 then Some (cursorUp (param vt 0 1) (vt\<lparr>cursorX := 0\<rparr>))
      else if cmd = 0x47 then Some (cursorColumn (param vt 0 1) vt)
      else if cmd = 0x48 \<or> cmd = 0x66 then
        Some (clampCursor (vt\<lparr>cursorY := param vt 0 1 - 1,
          cursorX := (if length (escParams vt) > 1 then param vt 1 1 else 1) - 1\<rparr>))
      else if cmd = 0x4A then eraseInDisplay (param vt 0 0) vt
      else if cmd = 0x4B then eraseInLine (param vt 0 0) vt
      else if cmd = 0x4C then insertLines (param vt 0 1) vt
      else if cmd = 0x4D then deleteLines (param vt 0 1) vt
      else if cmd = 0x50 then deleteChars (param vt 0 1) vt
      else if cmd = 0x40 then insertChars (param vt 0 1) vt
      else if cmd = 0x58 then eraseChars (param vt 0 1) vt
      else if cmd = 0x53 then repeat_n (nat (param vt 0 1)) scroll vt
      else if cmd = 0x54 then repeat_n (nat (param vt 0 1)) scrollDown vt
      else if cmd = 0x73 then Some (vt\<lparr>savedCursorX := cursorX vt, savedCursorY := cursorY vt\<rparr>)
      else if cmd = 0x75 then Some (vt\<lparr>cursorX := savedCursorX vt, cursorY := savedCursorY vt\<rparr>)
      else if cmd = 0x68 then (if escPrivate vt = 0x3F then handlePrivateMode True vt else Some vt)
      else if cmd = 0x6C then (if escPrivate vt = 0x3F then handlePrivateMode False vt else Some vt)
      else if cmd = 0x6D then Some (handleSGR vt)
      else Some vt)"

definition add_digit :: "byte \<Rightarrow> int list \<Rightarrow> int list" where
  "add_digit b ps =
     (let ps = (if ps = [] then [0] else ps)
      in ps[length ps - 1 := wrap64 (ps ! (length ps - 1) * 10 + uint (b - 0x30))])"

definition processCSI :: "byte \<Rightarrow> vt \<Rightarrow> vt option" where
  "processCSI b vt0 =
     (let vt = vt0\<lparr>escRawSeq := escRawSeq vt0 @ [b]\<rparr>
      in if is_digit b then Some (vt\<lparr>escParams := add_digit b (escParams vt)\<rparr>)
         else if b = 0x3B then Some (vt\<lparr>escParams := escParams vt @ [0]\<rparr>)
         else if b = 0x3A then Some vt
         else if b = 0x3F then Some (vt\<lparr>escPrivate := b\<rparr>)
         else if 0x40 \<le> b \<and> b \<le> 0x7E then do {
           vt \<leftarrow> executeCSI b vt;
           Some (vt\<lparr>escState := stateNormal\<rparr>) }
         else Some (vt\<lparr>escBuffer := escBuffer vt @ [b]\<rparr>))"

section \<open>Characters\<close>

definition newLine :: "vt \<Rightarrow> vt option" where
  "newLine vt0 =
     (let vt = vt0\<lparr>cursorX := 0, cursorY := cursorY vt0 + 1\<rparr>
      in if cursorY vt \<ge> rows vt then do {
           vt \<leftarrow> scroll vt;
           Some (vt\<lparr>cursorY := rows vt - 1\<rparr>) }
         else Some vt)"

text \<open>The cell a character is written with, in the current style.\<close>

definition styled :: "vt \<Rightarrow> rune \<Rightarrow> byte \<Rightarrow> cell" where
  "styled vt ch w = NewFullStyledCell ch (currentFg vt) (currentBg vt) (currentAttrs vt) w
     (currentUnderlineStyle vt) (currentUnderlineColor vt)"

definition cell_at :: "int \<Rightarrow> int \<Rightarrow> vt \<Rightarrow> cell option" where
  "cell_at row col vt = do { r \<leftarrow> go_get (cells vt) row; go_get r col }"

definition blank_at :: "int \<Rightarrow> vt \<Rightarrow> vt option" where
  "blank_at x vt = set_at (cursorY vt) x 0x20 (NewCell 0x20) vt"

text \<open>Clearing the halves of wide characters that the new character overwrites.\<close>

definition clear_overlap :: "int \<Rightarrow> vt \<Rightarrow> vt option" where
  "clear_overlap width vt = do {
     current \<leftarrow> cell_at (cursorY vt) (cursorX vt) vt;
     vt \<leftarrow> (if Width current = 0 \<and> cursorX vt > 0 then blank_at (cursorX vt - 1) vt else Some vt);
     vt \<leftarrow> (if Width current = 2 \<and> cursorX vt + 1 < cols vt then blank_at (cursorX vt + 1) vt else Some vt);
     (if width = 2 \<and> cursorX vt + 1 < cols vt then do {
        nextCell \<leftarrow> cell_at (cursorY vt) (cursorX vt + 1) vt;
        (if Width nextCell = 2 then do {
           vt \<leftarrow> blank_at (cursorX vt + 1) vt;
           (if cursorX vt + 2 < cols vt then do {
              c2 \<leftarrow> cell_at (cursorY vt) (cursorX vt + 2) vt;
              (if Width c2 = 0 then blank_at (cursorX vt + 2) vt else Some vt) }
            else Some vt) }
         else Some vt) }
      else Some vt)
   }"

definition write_char :: "int \<Rightarrow> rune \<Rightarrow> vt \<Rightarrow> vt option" where
  "write_char width ch vt =
     (if 0 \<le> cursorY vt \<and> cursorY vt < rows vt \<and> 0 \<le> cursorX vt \<and> cursorX vt < cols vt then do {
        vt \<leftarrow> clear_overlap width vt;
        vt \<leftarrow> set_at (cursorY vt) (cursorX vt) ch (styled vt ch (word_of_int width)) vt;
        let vt = vt\<lparr>cursorX := cursorX vt + 1\<rparr>;
        (if width = 2 \<and> cursorX vt < cols vt then do {
           vt \<leftarrow> set_at (cursorY vt) (cursorX vt) 0 (styled vt 0 0) vt;
           Some (vt\<lparr>cursorX := cursorX vt + 1\<rparr>) }
         else Some vt) }
      else Some (vt\<lparr>cursorX := cursorX vt + 1\<rparr>))"

definition putChar :: "(rune \<Rightarrow> int) \<Rightarrow> rune \<Rightarrow> vt \<Rightarrow> vt option" where
  "putChar rw ch vt =
     (let width = (if rw ch = 0 then 1 else rw ch)
      in do {
        vt \<leftarrow> (if cursorX vt + width > cols vt then do {
                 vt \<leftarrow> (if cursorY vt + 1 < rows vt then set_wrapped (cursorY vt + 1) True vt else Some vt);
                 newLine vt }
               else Some vt);
        write_char width ch vt })"

definition processChar :: "(rune \<Rightarrow> int) \<Rightarrow> rune \<Rightarrow> vt \<Rightarrow> vt option" where
  "processChar rw ch vt =
     (if ch = 0x0A then newLine vt
      else if ch = 0x0D then Some (vt\<lparr>cursorX := 0\<rparr>)
      else if ch = 0x08 then Some (if cursorX vt > 0 then vt\<lparr>cursorX := cursorX vt - 1\<rparr> else vt)
      else if ch = 0x09 then
        (let x = (cursorX vt sdiv 8 + 1) * 8
         in Some (vt\<lparr>cursorX := (if x \<ge> cols vt then cols vt - 1 else x)\<rparr>))
      else if ch = 0x1B then Some vt
      else if ch \<ge> 0x20 \<and> ch \<noteq> 0x7F then putChar rw ch vt
      else Some vt)"

section \<open>Escape sequences\<close>

text \<open>\<open>strconv.Atoi\<close>: an optional sign and decimal digits; an error out of the range of int.\<close>

definition Atoi :: "bytes \<Rightarrow> int option" where
  "Atoi s =
     (let neg = (s \<noteq> [] \<and> hd s = 0x2D);
          ds = (if s \<noteq> [] \<and> (hd s = 0x2D \<or> hd s = 0x2B) then tl s else s);
          v = fold (\<lambda>c n. n * 10 + uint (c - 0x30)) ds 0
      in if ds = [] \<or> \<not> list_all is_digit ds then None
         else if neg then (if v \<le> 2 ^ 63 then Some (- v) else None)
         else (if v < 2 ^ 63 then Some v else None))"

text \<open>The call of the handler runs in a goroutine of its own: it is recorded in \<open>oscCalls\<close>.\<close>

definition handleOSC :: "bytes \<Rightarrow> vt \<Rightarrow> vt" where
  "handleOSC data vt =
     (if \<not> oscHandler vt \<or> data = [] then vt
      else let code = takeWhile (\<lambda>b. b \<noteq> semicolon) data;
               rest = dropWhile (\<lambda>b. b \<noteq> semicolon) data;
               params = (if rest = [] then [] else split_on semicolon (tl rest))
           in case Atoi code of
                None \<Rightarrow> vt
              | Some oscType \<Rightarrow> vt\<lparr>oscCalls := oscCalls vt @ [(oscType, params)]\<rparr>)"

definition index_down :: "vt \<Rightarrow> vt option" where
  "index_down vt0 =
     (let vt = vt0\<lparr>cursorY := cursorY vt0 + 1\<rparr>
      in if cursorY vt \<ge> rows vt then do {
           vt \<leftarrow> scroll vt;
           Some (vt\<lparr>cursorY := rows vt - 1\<rparr>) }
         else Some vt)"

definition index_up :: "vt \<Rightarrow> vt option" where
  "index_up vt0 =
     (let vt = vt0\<lparr>cursorY := cursorY vt0 - 1\<rparr>
      in if cursorY vt < 0 then do {
           vt \<leftarrow> scrollDown vt;
           Some (vt\<lparr>cursorY := 0\<rparr>) }
         else Some vt)"

definition processEscapeByte :: "byte \<Rightarrow> vt \<Rightarrow> vt option" where
  "processEscapeByte b vt =
     (if b = 0x5B then Some (vt\<lparr>escState := stateCSI, escParams := []\<rparr>)
      else if b = 0x5D then Some (vt\<lparr>escState := stateOSC, escBuffer := []\<rparr>)
      else if b = 0x50 then Some (vt\<lparr>escState := stateDCS, escBuffer := []\<rparr>)
      else if b = 0x37 then
        Some (vt\<lparr>savedCursorX := cursorX vt, savedCursorY := cursorY vt, escState := stateNormal\<rparr>)
      else if b = 0x38 then
        Some (vt\<lparr>cursorX := savedCursorX vt, cursorY := savedCursorY vt, escState := stateNormal\<rparr>)
      else if b = 0x63 then Some ((initScreen vt)\<lparr>escState := stateNormal\<rparr>)
      else if b = 0x44 then do { vt \<leftarrow> index_down vt; Some (vt\<lparr>escState := stateNormal\<rparr>) }
      else if b = 0x4D then do { vt \<leftarrow> index_up vt; Some (vt\<lparr>escState := stateNormal\<rparr>) }
      else if b = 0x45 then do {
        vt \<leftarrow> index_down (vt\<lparr>cursorX := 0\<rparr>);
        Some (vt\<lparr>escState := stateNormal\<rparr>) }
      else Some (vt\<lparr>escState := stateNormal\<rparr>))"

definition ends_with_esc :: "bytes \<Rightarrow> bool" where
  "ends_with_esc buf \<longleftrightarrow> buf \<noteq> [] \<and> last buf = 0x1B"

definition processByte :: "(rune \<Rightarrow> int) \<Rightarrow> byte \<Rightarrow> vt \<Rightarrow> vt option" where
  "processByte rw b vt =
     (case escState vt of
        stateNormal \<Rightarrow>
          (if b = 0x1B then
             Some (vt\<lparr>escState := stateEscape, escBuffer := [], escParams := [], escPrivate := 0,
                      escRawSeq := []\<rparr>)
           else processChar rw (uint b) vt)
      | stateEscape \<Rightarrow> processEscapeByte b vt
      | stateCSI \<Rightarrow> processCSI b vt
      | stateOSC \<Rightarrow>
          (if b = 0x07 then
             Some ((handleOSC (escBuffer vt) vt)\<lparr>escState := stateNormal, escBuffer := []\<rparr>)
           else if b = 0x1B then Some (vt\<lparr>escBuffer := escBuffer vt @ [b]\<rparr>)
           else if ends_with_esc (escBuffer vt) \<and> b = 0x5C then
             Some ((handleOSC (butlast (escBuffer vt)) vt)\<lparr>escState := stateNormal, escBuffer := []\<rparr>)
           else Some (vt\<lparr>escBuffer := escBuffer vt @ [b]\<rparr>))
      | stateDCS \<Rightarrow>
          (if b = 0x1B then Some (vt\<lparr>escBuffer := escBuffer vt @ [b]\<rparr>)
           else if ends_with_esc (escBuffer vt) \<and> b = 0x5C then Some (vt\<lparr>escState := stateNormal\<rparr>)
           else Some (vt\<lparr>escBuffer := escBuffer vt @ [b]\<rparr>)))"

section \<open>Feed\<close>

text \<open>One turn of the loop of \<open>Feed\<close>: the new state and the number of bytes consumed.\<close>

definition feed_step :: "(rune \<Rightarrow> int) \<Rightarrow> bytes \<Rightarrow> vt \<Rightarrow> (vt \<times> nat) option" where
  "feed_step rw data vt =
     (let b = hd data
      in if b = 0x1B \<or> escState vt \<noteq> stateNormal \<or> b < 0x20 \<or> b = 0x7F
         then map_option (\<lambda>vt. (vt, 1)) (processByte rw b vt)
         else let (r, size) = decode_rune data
              in if r = RuneError \<and> size = 1 then Some (vt, 1)
                 else map_option (\<lambda>vt. (vt, size)) (processChar rw r vt))"

lemma feed_step_advances:
  "feed_step rw data vt = Some (vt', n) \<Longrightarrow> data \<noteq> [] \<Longrightarrow> 1 \<le> n \<and> n \<le> length data"
  using decode_rune_size [of data]
  by (auto simp: feed_step_def Let_def Suc_le_eq split: if_splits prod.splits)

function feed_loop :: "(rune \<Rightarrow> int) \<Rightarrow> bytes \<Rightarrow> vt \<Rightarrow> vt option" where
  "feed_loop rw data vt =
     (if data = [] then Some vt
      else case feed_step rw data vt of
             None \<Rightarrow> None
           | Some (vt', n) \<Rightarrow> feed_loop rw (drop n data) vt')"
  by pat_completeness auto
termination
  by (relation "measure (\<lambda>(rw, data, vt). length data)")
    (auto dest!: feed_step_advances)

declare feed_loop.simps [simp del]

definition note_first_data :: "vt \<Rightarrow> vt" where
  "note_first_data vt =
     (if \<not> hasData vt \<and> \<not> firstDataFired vt \<and> onFirstData vt
      then vt\<lparr>hasData := True, firstDataFired := True\<rparr> else vt\<lparr>hasData := True\<rparr>)"

definition Feed :: "(rune \<Rightarrow> int) \<Rightarrow> bytes \<Rightarrow> vt \<Rightarrow> (vt \<times> rune list list) option" where
  "Feed rw data vt = do {
     vt \<leftarrow> feed_loop rw data (note_first_data vt);
     Some (vt, getLinesLocked vt)
   }"

text \<open>The parameters collected so far are small, at the start of every turn of the loop.\<close>

definition params_small :: "vt \<Rightarrow> bool" where
  "params_small vt \<longleftrightarrow> (\<forall>p \<in> set (escParams vt). 0 \<le> p \<and> p < 2 ^ 31)"

function feed_small :: "(rune \<Rightarrow> int) \<Rightarrow> bytes \<Rightarrow> vt \<Rightarrow> bool" where
  "feed_small rw data vt \<longleftrightarrow>
     params_small vt \<and>
     (if data = [] then True
      else case feed_step rw data vt of
             None \<Rightarrow> True
           | Some (vt', n) \<Rightarrow> feed_small rw (drop n data) vt')"
  by pat_completeness auto
termination
  by (relation "measure (\<lambda>(rw, data, vt). length data)")
    (auto dest!: feed_step_advances)

declare feed_small.simps [simp del]

definition rw_ok :: "(rune \<Rightarrow> int) \<Rightarrow> bool" where
  "rw_ok rw \<longleftrightarrow> (\<forall>r. 0 \<le> rw r \<and> rw r \<le> 2)"

section \<open>Lemmas: the parts of a step\<close>

lemma vt_wf_cursor:
  "vt_wf vt \<Longrightarrow> 0 \<le> x \<Longrightarrow> x \<le> cols vt \<Longrightarrow> 0 \<le> y \<Longrightarrow> y < rows vt \<Longrightarrow>
     vt_wf (vt\<lparr>cursorX := x, cursorY := y\<rparr>)"
  by (simp add: vt_wf_def body_wf_def)

lemma body_wf_update [simp]:
  "body_wf (vt\<lparr>cursorX := x\<rparr>) = body_wf vt" "body_wf (vt\<lparr>cursorY := y\<rparr>) = body_wf vt"
  "body_wf (vt\<lparr>escState := s\<rparr>) = body_wf vt" "body_wf (vt\<lparr>escBuffer := eb\<rparr>) = body_wf vt"
  "body_wf (vt\<lparr>escParams := ps\<rparr>) = body_wf vt" "body_wf (vt\<lparr>escPrivate := p\<rparr>) = body_wf vt"
  "body_wf (vt\<lparr>escRawSeq := q\<rparr>) = body_wf vt" "body_wf (vt\<lparr>oscCalls := oc\<rparr>) = body_wf vt"
  "body_wf (vt\<lparr>hasData := h\<rparr>) = body_wf vt" "body_wf (vt\<lparr>firstDataFired := f\<rparr>) = body_wf vt"
  by (simp_all add: body_wf_def)

lemma vt_wf_update [simp]:
  "vt_wf (vt\<lparr>escState := s\<rparr>) = vt_wf vt" "vt_wf (vt\<lparr>escBuffer := eb\<rparr>) = vt_wf vt"
  "vt_wf (vt\<lparr>escParams := ps\<rparr>) = vt_wf vt" "vt_wf (vt\<lparr>escPrivate := p\<rparr>) = vt_wf vt"
  "vt_wf (vt\<lparr>escRawSeq := q\<rparr>) = vt_wf vt" "vt_wf (vt\<lparr>oscCalls := oc\<rparr>) = vt_wf vt"
  "vt_wf (vt\<lparr>hasData := h\<rparr>) = vt_wf vt" "vt_wf (vt\<lparr>firstDataFired := f\<rparr>) = vt_wf vt"
  by (simp_all add: vt_wf_def)

lemma returns_redrawn_wf: "returns m (redrawn vt) \<Longrightarrow> vt_wf vt \<Longrightarrow> returns m vt_wf"
  by (auto elim!: returns_mono intro: redrawn_wf)

lemma wrap64_small [go_arith]:
  "0 \<le> x \<Longrightarrow> x < 2 ^ 31 \<Longrightarrow> 0 \<le> n \<Longrightarrow> n < 2 ^ 31 \<Longrightarrow> wrap64 (x + n) = x + n"
  "0 \<le> x \<Longrightarrow> x < 2 ^ 31 \<Longrightarrow> 0 \<le> n \<Longrightarrow> n < 2 ^ 31 \<Longrightarrow> wrap64 (x - n) = x - n"
  by (simp_all add: wrap64_id)

lemma cursor_moves_wf:
  assumes wf: "vt_wf vt" and n: "0 < n" "n < 2 ^ 31"
  shows "vt_wf (cursorUp n vt)" "vt_wf (cursorDown n vt)" "vt_wf (cursorForward n vt)"
    "vt_wf (cursorBack n vt)" "vt_wf (cursorColumn n vt)"
proof -
  have b: "0 \<le> cursorX vt" "cursorX vt \<le> cols vt" "0 \<le> cursorY vt" "cursorY vt < rows vt"
    "cols vt < 2 ^ 31" "rows vt < 2 ^ 31" "0 < cols vt" "0 < rows vt"
    using wf by (auto simp: vt_wf_def body_wf_def)
  have w: "wrap64 (cursorY vt - n) = cursorY vt - n" "wrap64 (cursorY vt + n) = cursorY vt + n"
    "wrap64 (cursorX vt + n) = cursorX vt + n" "wrap64 (cursorX vt - n) = cursorX vt - n"
    using b n by (auto intro!: wrap64_small)
  note defs = cursorUp_def cursorDown_def cursorForward_def cursorBack_def cursorColumn_def
  show "vt_wf (cursorUp n vt)" "vt_wf (cursorDown n vt)" "vt_wf (cursorForward n vt)"
    "vt_wf (cursorBack n vt)" "vt_wf (cursorColumn n vt)"
    using wf b n unfolding defs w by (simp_all add: vt_wf_def Let_def)
qed

lemma clampCursor_wf: "body_wf vt \<Longrightarrow> vt_wf (clampCursor vt)"
  by (simp add: clampCursor_def vt_wf_def Let_def) (simp add: body_wf_def)

lemma eraseInLine_redrawn: "vt_wf vt \<Longrightarrow> returns (eraseInLine n vt) (redrawn vt)"
  by (auto simp: eraseInLine_def intro!: clearLine_redrawn redrawn_refl)

lemma clear_lines_redrawn:
  "redrawn base vt \<Longrightarrow> returns (for_up lo hi (\<lambda>i vt. clearLine i 0 (cols vt) vt) vt) (redrawn base)"
  by (rule returns_for_up) (auto intro: clearLine_redrawn)

lemma eraseInDisplay_redrawn:
  assumes "vt_wf vt"
  shows "returns (eraseInDisplay n vt) (redrawn vt)"
  using redrawn_refl [OF assms]
  by (auto simp: eraseInDisplay_def returns_bind
      intro!: clear_lines_redrawn clearLine_redrawn
        clearLine_redrawn [THEN returns_mono] clear_lines_redrawn [THEN returns_mono])

lemma eraseChars_redrawn:
  assumes wf: "vt_wf vt"
  shows "returns (eraseChars n vt) (redrawn vt)"
  unfolding eraseChars_def
proof (rule returns_for_up)
  show "redrawn vt vt" by (rule redrawn_refl [OF wf])
next
  fix i s assume "0 \<le> i" "i < min n (cols vt - cursorX vt)" "redrawn vt s"
  then show "returns (set_at (cursorY s) (cursorX s + i) 32 (NewCell 32) s) (redrawn vt)"
    using wf by (intro set_at_redrawn) (auto simp: redrawn_frame vt_wf_def)
qed

lemma handlePrivateMode_wf: "vt_wf vt \<Longrightarrow> returns (handlePrivateMode m vt) vt_wf"
  unfolding handlePrivateMode_def
  by (rule returns_for_each) (auto intro: enterAltScreen_wf exitAltScreen_wf)

lemma scroll_body: "body_wf vt \<Longrightarrow> returns (scroll vt) (\<lambda>vt'. body_wf vt' \<and> rows vt' = rows vt \<and>
    cols vt' = cols vt \<and> cursorX vt' = cursorX vt \<and> cursorY vt' = cursorY vt)"
  by (rule returns_mono [OF scroll_body_wf]) (auto dest: redrawn_frame(1-4))

lemma scroll_wf: "vt_wf vt \<Longrightarrow> returns (scroll vt) vt_wf"
  using scroll_body [of vt] by (auto simp: vt_wf_def elim!: returns_mono)

lemma scrollDown_wf: "vt_wf vt \<Longrightarrow> returns (scrollDown vt) vt_wf"
  using scrollDown_redrawn [of vt] returns_redrawn_wf [of "scrollDown vt" vt] by (simp add: vt_wf_def)

lemma param_small:
  "params_small vt \<Longrightarrow> 0 < param vt i 1 \<and> param vt i 1 < 2 ^ 31"
  unfolding param_def params_small_def by (auto dest: nth_mem)

lemma executeCSI_wf:
  assumes wf: "vt_wf vt" and ps: "params_small vt"
  shows "returns (executeCSI cmd vt) vt_wf"
proof -
  note p = param_small [OF ps]
  have wf0: "vt_wf (vt\<lparr>cursorX := 0\<rparr>)"
    using wf by (simp add: vt_wf_def body_wf_def)
  have saved: "vt_wf (vt\<lparr>savedCursorX := cursorX vt, savedCursorY := cursorY vt\<rparr>)"
    "vt_wf (vt\<lparr>cursorX := savedCursorX vt, cursorY := savedCursorY vt\<rparr>)"
    using wf by (simp_all add: vt_wf_def body_wf_def)
  have clamp: "vt_wf (clampCursor (vt\<lparr>cursorY := y, cursorX := x\<rparr>))" for x y
    by (rule clampCursor_wf) (use wf in \<open>simp add: vt_wf_def\<close>)
  have draw: "returns (eraseInDisplay n vt) vt_wf" "returns (eraseInLine n vt) vt_wf"
    "returns (insertLines n vt) vt_wf" "returns (deleteLines n vt) vt_wf"
    "returns (eraseChars n vt) vt_wf"
    "returns (repeat_n k scroll vt) vt_wf" "returns (repeat_n k scrollDown vt) vt_wf" for n k
    by (rule returns_redrawn_wf returns_repeat_n wf eraseInDisplay_redrawn eraseInLine_redrawn
        insertLines_redrawn deleteLines_redrawn eraseChars_redrawn scroll_wf scrollDown_wf | assumption)+
  have chars: "returns (deleteChars (param vt 0 1) vt) vt_wf"
    "returns (insertChars (param vt 0 1) vt) vt_wf"
    using deleteChars_redrawn [OF wf] insertChars_redrawn [OF wf] p
    by (auto intro: returns_redrawn_wf [OF _ wf])
  have sgr: "vt_wf (handleSGR vt)" by (rule restyled_wf [OF wf handleSGR_restyled])
  show ?thesis
    unfolding executeCSI_def returns_if returns_Some
    using cursor_moves_wf [OF wf] cursor_moves_wf [OF wf0] handlePrivateMode_wf [OF wf]
      wf saved clamp draw chars sgr p
    by presburger
qed

lemma processCSI_wf:
  assumes "vt_wf vt" and "params_small vt"
  shows "returns (processCSI b vt) vt_wf"
  using assms executeCSI_wf [of "vt\<lparr>escRawSeq := escRawSeq vt @ [b]\<rparr>" b]
  by (simp add: processCSI_def Let_def returns_bind params_small_def)

lemma newLine_wf:
  assumes "vt_wf vt"
  shows "returns (newLine vt) (\<lambda>vt'. vt_wf vt' \<and> cursorX vt' = 0 \<and> cols vt' = cols vt)"
proof (cases "cursorY vt + 1 \<ge> rows vt")
  case True
  have "body_wf (vt\<lparr>cursorX := 0, cursorY := cursorY vt + 1\<rparr>)" using assms by (simp add: vt_wf_def)
  from scroll_body [OF this] show ?thesis
    using True assms by (auto simp: newLine_def returns_bind vt_wf_def body_wf_def elim!: returns_mono)
next
  case False
  then show ?thesis using assms by (simp add: newLine_def vt_wf_def body_wf_def)
qed

lemma blank_at_redrawn:
  "vt_wf base \<Longrightarrow> redrawn base vt \<Longrightarrow> 0 \<le> x \<Longrightarrow> x < cols base \<Longrightarrow> returns (blank_at x vt) (redrawn base)"
  unfolding blank_at_def by (rule set_at_redrawn) (auto simp: redrawn_frame vt_wf_def)

lemma cell_at_Some:
  "vt_wf base \<Longrightarrow> redrawn base vt \<Longrightarrow> 0 \<le> x \<Longrightarrow> x < cols base \<Longrightarrow>
     \<exists>c. cell_at (cursorY base) x vt = Some c"
  using grid_okD(1,4) [OF redrawn_frame(5)] by (simp add: cell_at_def vt_wf_def)

lemma returns_seq: "returns m P \<Longrightarrow> (\<And>x. P x \<Longrightarrow> returns (f x) Q) \<Longrightarrow> returns (Option.bind m f) Q"
  by (auto simp: returns_bind elim!: returns_mono)

lemma returns_cond: "(c \<Longrightarrow> returns m Q) \<Longrightarrow> (\<not> c \<Longrightarrow> returns n Q) \<Longrightarrow> returns (if c then m else n) Q"
  by simp

lemma clear_overlap_redrawn:
  assumes wf: "vt_wf vt" and x: "cursorX vt < cols vt"
  shows "returns (clear_overlap w vt) (redrawn vt)"
proof -
  have x0: "0 \<le> cursorX vt" using wf by (simp add: vt_wf_def)
  note blank = blank_at_redrawn [OF wf]
  have read: "returns (cell_at (cursorY v) z v) (\<lambda>_. True)" if "redrawn vt v" "0 \<le> z" "z < cols vt" for v z
    using cell_at_Some [OF wf that] redrawn_frame(4) [OF that(1)] by auto
  note fr = redrawn_frame(2,3)
  have left: "returns (if Width c = 0 \<and> 0 < cursorX vt then blank_at (cursorX vt - 1) vt else Some vt)
      (redrawn vt)" for c
    using blank [OF redrawn_refl [OF wf]] redrawn_refl [OF wf] x by simp
  have right: "returns (if Width c = 2 \<and> cursorX v + 1 < cols v then blank_at (cursorX v + 1) v
      else Some v) (redrawn vt)" if "redrawn vt v" for c v
    using blank [OF that] that x0 by (simp add: fr [OF that])
  have behind: "returns (if cursorX v + 2 < cols v then do {
      c2 \<leftarrow> cell_at (cursorY v) (cursorX v + 2) v;
      (if Width c2 = 0 then blank_at (cursorX v + 2) v else Some v) } else Some v) (redrawn vt)"
    if "redrawn vt v" for v
    using that x0 by (auto simp: fr [OF that] intro!: returns_seq [OF read] blank)
  have next_cell: "returns (if w = 2 \<and> cursorX v + 1 < cols v then do {
      nextCell \<leftarrow> cell_at (cursorY v) (cursorX v + 1) v;
      (if Width nextCell = 2 then do {
         v \<leftarrow> blank_at (cursorX v + 1) v;
         (if cursorX v + 2 < cols v then do {
            c2 \<leftarrow> cell_at (cursorY v) (cursorX v + 2) v;
            (if Width c2 = 0 then blank_at (cursorX v + 2) v else Some v) }
          else Some v) }
       else Some v) } else Some v) (redrawn vt)" if "redrawn vt v" for v
    by (intro returns_cond returns_seq [OF read [OF that]] returns_seq [OF blank [OF that]] behind)
      (use that x0 fr [OF that] in auto)
  show ?thesis
    unfolding clear_overlap_def
    by (rule returns_seq [OF read [OF redrawn_refl [OF wf] x0 x]], rule returns_seq [OF left],
        rule returns_seq [OF right], assumption, rule next_cell)
qed

lemma write_char_wf:
  assumes wf: "vt_wf vt" and x: "cursorX vt < cols vt"
  shows "returns (write_char w ch vt) vt_wf"
proof -
  have b: "0 \<le> cursorX vt" "0 \<le> cursorY vt" "cursorY vt < rows vt" using wf by (auto simp: vt_wf_def)
  have moved: "vt_wf (v\<lparr>cursorX := z + 1\<rparr>)" if "vt_wf v" "cursorX v = z" "z < cols v" for v z
    using that by (auto simp: vt_wf_def)
  have styled_ch: "Ch (styled v c k) = c" for v c k
    by (simp add: styled_def NewFullStyledCell_def)
  have put: "returns (set_at (cursorY v) (cursorX v) c (styled v c k) v)
      (\<lambda>v'. vt_wf v' \<and> cursorX v' = cursorX v \<and> cols v' = cols v)" if "vt_wf v" "cursorX v < cols v" for v c k
  proof (rule returns_mono [OF set_at_redrawn [OF redrawn_refl [OF that(1)]]])
    show "vt_wf v' \<and> cursorX v' = cursorX v \<and> cols v' = cols v" if "redrawn v v'" for v'
      using redrawn_wf [OF \<open>vt_wf v\<close> that] by (simp add: redrawn_frame [OF that])
  qed (use that in \<open>auto simp: vt_wf_def styled_ch\<close>)
  have second: "returns (if w = 2 \<and> cursorX v < cols v then do {
      v \<leftarrow> set_at (cursorY v) (cursorX v) 0 (styled v 0 0) v;
      Some (v\<lparr>cursorX := cursorX v + 1\<rparr>) } else Some v) vt_wf" if "vt_wf v" for v
    by (rule returns_cond, rule returns_seq [OF put]) (use that moved in auto)
  have first: "returns (do {
      v \<leftarrow> set_at (cursorY v) (cursorX v) ch (styled v ch k) v;
      let v = v\<lparr>cursorX := cursorX v + 1\<rparr>;
      (if w = 2 \<and> cursorX v < cols v then do {
         v \<leftarrow> set_at (cursorY v) (cursorX v) 0 (styled v 0 0) v;
         Some (v\<lparr>cursorX := cursorX v + 1\<rparr>) }
       else Some v) }) vt_wf" if "redrawn vt v" for v k
  proof (rule returns_seq [OF put])
    show "vt_wf v" "cursorX v < cols v"
      using redrawn_wf [OF wf that] x by (simp_all add: redrawn_frame [OF that])
    fix u assume "vt_wf u \<and> cursorX u = cursorX v \<and> cols u = cols v"
    then have "vt_wf (u\<lparr>cursorX := cursorX u + 1\<rparr>)" using moved \<open>cursorX v < cols v\<close> by simp
    from second [OF this] show "returns (let v = u\<lparr>cursorX := cursorX u + 1\<rparr>
      in if w = 2 \<and> cursorX v < cols v then do {
         v \<leftarrow> set_at (cursorY v) (cursorX v) 0 (styled v 0 0) v;
         Some (v\<lparr>cursorX := cursorX v + 1\<rparr>) }
       else Some v) vt_wf" unfolding Let_def .
  qed
  have guard: "0 \<le> cursorY vt \<and> cursorY vt < rows vt \<and> 0 \<le> cursorX vt \<and> cursorX vt < cols vt"
    using b x by simp
  show ?thesis
    unfolding write_char_def if_P [OF guard]
    by (rule returns_seq [OF clear_overlap_redrawn [OF wf x]], rule first)
qed

lemma putChar_wf:
  assumes wf: "vt_wf vt" and "rw_ok rw"
  shows "returns (putChar rw ch vt) vt_wf"
proof -
  define w where "w = (if rw ch = 0 then 1 else rw ch)"
  have w: "1 \<le> w" "w \<le> 2" using assms(2) unfolding w_def rw_ok_def
    by (auto simp: order_less_le dest: spec [of _ ch])
  have b: "0 \<le> cursorY vt" "0 < cols vt" using wf by (auto simp: vt_wf_def body_wf_def)
  have wrap: "returns (do { v \<leftarrow> (if cursorY vt + 1 < rows vt then set_wrapped (cursorY vt + 1) True vt
      else Some vt); newLine v }) (\<lambda>v. vt_wf v \<and> cursorX v < cols v)"
  proof (rule returns_seq [where P = "redrawn vt"])
    show "returns (if cursorY vt + 1 < rows vt then set_wrapped (cursorY vt + 1) True vt else Some vt)
        (redrawn vt)"
      using set_wrapped_redrawn [OF redrawn_refl [OF wf]] redrawn_refl [OF wf] b by simp
  next
    fix v assume "redrawn vt v"
    then have "vt_wf v" "cols v = cols vt" by (simp_all add: redrawn_wf [OF wf] redrawn_frame)
    then show "returns (newLine v) (\<lambda>v. vt_wf v \<and> cursorX v < cols v)"
      using newLine_wf [of v] b by (auto elim!: returns_mono)
  qed
  show ?thesis
    unfolding putChar_def Let_def w_def [symmetric]
    by (rule returns_seq [where P = "\<lambda>v. vt_wf v \<and> cursorX v < cols v"])
      (use wrap wf w in \<open>auto intro: write_char_wf\<close>)
qed

lemma processChar_wf:
  assumes wf: "vt_wf vt" and "rw_ok rw"
  shows "returns (processChar rw ch vt) vt_wf"
proof -
  have "vt_wf (vt\<lparr>cursorX := 0\<rparr>)" "cursorX vt > 0 \<Longrightarrow> vt_wf (vt\<lparr>cursorX := cursorX vt - 1\<rparr>)"
    using wf by (simp_all add: vt_wf_def body_wf_def)
  moreover have "vt_wf (vt\<lparr>cursorX := (if x \<ge> cols vt then cols vt - 1 else x)\<rparr>)"
    if "x = (cursorX vt sdiv 8 + 1) * 8" for x
  proof -
    have "0 \<le> cursorX vt" using wf by (simp add: vt_wf_def)
    then have "0 \<le> x" unfolding that by (auto simp: signed_divide_int_def sgn_if pos_imp_zdiv_nonneg_iff)
    then show ?thesis using wf by (simp add: vt_wf_def body_wf_def)
  qed
  moreover have "returns (newLine vt) vt_wf" using newLine_wf [OF wf] by (rule returns_mono) simp
  ultimately show ?thesis
    using putChar_wf [OF assms] wf by (simp add: processChar_def Let_def)
qed

lemma index_down_wf:
  assumes "vt_wf vt"
  shows "returns (index_down vt) vt_wf"
proof (cases "cursorY vt + 1 \<ge> rows vt")
  case True
  have "body_wf (vt\<lparr>cursorY := cursorY vt + 1\<rparr>)" using assms by (simp add: vt_wf_def)
  from scroll_body [OF this] show ?thesis
    using True assms by (auto simp: index_down_def returns_bind vt_wf_def body_wf_def elim!: returns_mono)
next
  case False
  then show ?thesis using assms by (simp add: index_down_def vt_wf_def)
qed

lemma index_up_wf:
  assumes wf: "vt_wf vt"
  shows "returns (index_up vt) vt_wf"
proof -
  have body: "body_wf (vt\<lparr>cursorY := cursorY vt - 1\<rparr>)" using wf by (simp add: vt_wf_def)
  have "vt_wf (v\<lparr>cursorY := 0\<rparr>)" if "redrawn (vt\<lparr>cursorY := cursorY vt - 1\<rparr>) v" for v
    using redrawn_body_wf [OF body that] redrawn_frame(1-3) [OF that] wf
    by (simp add: vt_wf_def body_wf_def)
  then show ?thesis
    using scrollDown_redrawn [OF body] wf
    by (auto simp: index_up_def returns_bind Let_def vt_wf_def elim!: returns_mono)
qed

lemma handleOSC_wf [simp]: "vt_wf (handleOSC d vt) = vt_wf vt"
  by (simp add: handleOSC_def Let_def split: option.split)

lemma processEscapeByte_wf:
  assumes wf: "vt_wf vt"
  shows "returns (processEscapeByte b vt) vt_wf"
proof -
  have "vt_wf (vt\<lparr>cursorX := 0\<rparr>)"
    "vt_wf (vt\<lparr>savedCursorX := cursorX vt, savedCursorY := cursorY vt, escState := stateNormal\<rparr>)"
    "vt_wf (vt\<lparr>cursorX := savedCursorX vt, cursorY := savedCursorY vt, escState := stateNormal\<rparr>)"
    using wf by (simp_all add: vt_wf_def body_wf_def)
  then show ?thesis
    using wf initScreen_wf [OF wf] index_down_wf index_up_wf
    by (simp add: processEscapeByte_def returns_bind)
qed

lemma processByte_wf:
  assumes "vt_wf vt" and "rw_ok rw" and "params_small vt"
  shows "returns (processByte rw b vt) vt_wf"
  using assms processChar_wf processEscapeByte_wf processCSI_wf
  by (simp add: processByte_def split: escape_state.split)

lemma feed_step_wf:
  assumes "vt_wf vt" and "rw_ok rw" and "params_small vt"
  shows "returns (feed_step rw data vt) (\<lambda>(vt', n). vt_wf vt')"
proof -
  have m: "returns (map_option (\<lambda>v. (v, k)) m) (\<lambda>(v, n). vt_wf v)" if "returns m vt_wf" for m and k :: nat
    using that by (cases m) auto
  show ?thesis
    using m [OF processByte_wf [OF assms]] m [OF processChar_wf [OF assms(1,2)]] assms(1)
    by (auto simp: feed_step_def Let_def split: prod.split)
qed

lemma feed_loop_wf:
  assumes "vt_wf vt" and "rw_ok rw" and "feed_small rw data vt"
  shows "returns (feed_loop rw data vt) vt_wf"
  using assms
proof (induction rw data vt rule: feed_loop.induct)
  case (1 rw data vt)
  show ?case
  proof (cases "data = []")
    case True
    then show ?thesis using "1.prems" by (simp add: feed_loop.simps)
  next
    case False
    have "params_small vt" using "1.prems"(3) by (simp add: feed_small.simps)
    with feed_step_wf [OF "1.prems"(1,2)] obtain vt' n
      where step: "feed_step rw data vt = Some (vt', n)" and wf': "vt_wf vt'"
      by (fastforce simp: returns_def)
    have "feed_small rw (drop n data) vt'"
      using "1.prems"(3) False step by (simp add: feed_small.simps [of rw data vt])
    then show ?thesis
      using "1.IH" [OF False step refl wf' "1.prems"(2)] False step by (simp add: feed_loop.simps [of rw data vt])
  qed
qed

end
