(* ===== verification/VT_Feed.thy ===== *)
theory VT_Feed
  imports VT_Parser
begin

text \<open>
  What a whole call of \<open>Feed\<close> does. The first part is a frame rule: no operation but the switch of
  screens touches the hidden main screen, its cursor or the size of the terminal (\<open>keeps\<close>, with rules
  for binds, conditionals and loops). From it follow the round trip through the alternative screen, the
  effect of printing a line of text, and when the splitting of the input into chunks does not matter.
\<close>

unbundle bit_operations_syntax

section \<open>Frames\<close>

definition kept_part where
  "kept_part vt = (rows vt, cols vt, maxHistory vt, useAltScreen vt, savedMainScreen vt,
     savedMainCells vt, altCursorX vt, altCursorY vt)"

definition keeps :: "(vt \<Rightarrow> vt option) \<Rightarrow> bool" where
  "keeps f \<longleftrightarrow> (\<forall>vt vt'. f vt = Some vt' \<longrightarrow> kept_part vt' = kept_part vt \<and> escState vt' = escState vt)"

lemma kept_part_update [simp]:
  "kept_part (v\<lparr>escState := st\<rparr>) = kept_part v" "kept_part (v\<lparr>escBuffer := buf\<rparr>) = kept_part v"
  "kept_part (v\<lparr>escParams := ps\<rparr>) = kept_part v" "kept_part (v\<lparr>escPrivate := p\<rparr>) = kept_part v"
  "kept_part (v\<lparr>escRawSeq := q\<rparr>) = kept_part v"
  by (simp_all add: kept_part_def)

named_theorems keeps_rules \<open>operations that leave the hidden screen alone\<close>

lemma keeps_Some [keeps_rules]:
  "(\<And>v. kept_part (g v) = kept_part v \<and> escState (g v) = escState v) \<Longrightarrow> keeps (\<lambda>v. Some (g v))"
  by (simp add: keeps_def)

lemma keeps_id [keeps_rules, simp]: "keeps Some"
  by (simp add: keeps_def)

lemma keeps_then [keeps_rules]: "keeps f \<Longrightarrow> keeps g \<Longrightarrow> keeps (\<lambda>v. Option.bind (f v) g)"
  by (fastforce simp: keeps_def bind_eq_Some_conv)

lemma keeps_read [keeps_rules]: "(\<And>x. keeps (g x)) \<Longrightarrow> keeps (\<lambda>v. Option.bind (r v) (\<lambda>x. g x v))"
  by (fastforce simp: keeps_def bind_eq_Some_conv)

lemma keeps_if [keeps_rules]: "keeps f \<Longrightarrow> keeps g \<Longrightarrow> keeps (\<lambda>v. if c v then f v else g v)"
  by (simp add: keeps_def)

lemma keeps_for_each: "(\<And>x. keeps (body x)) \<Longrightarrow> keeps (for_each body xs)"
proof (induction xs)
  case Nil
  then show ?case by (simp add: keeps_def)
next
  case (Cons x xs)
  have "keeps (\<lambda>v. Option.bind (body x v) (for_each body xs))"
    by (rule keeps_then) (use Cons in auto)
  then show ?case by (simp add: keeps_def)
qed

lemma keeps_for_up [keeps_rules]: "(\<And>i. keeps (body i)) \<Longrightarrow> keeps (\<lambda>v. for_up (lo v) (hi v) body v)"
  using keeps_for_each [of body] by (simp add: for_up_def keeps_def)

lemma keeps_for_down [keeps_rules]: "(\<And>i. keeps (body i)) \<Longrightarrow> keeps (\<lambda>v. for_down (hi v) (lo v) body v)"
  using keeps_for_each [of body] by (simp add: for_down_def keeps_def)

lemma keeps_repeat_n: "keeps body \<Longrightarrow> keeps (repeat_n n body)"
proof (induction n)
  case 0
  then show ?case by (simp add: keeps_def)
next
  case (Suc n)
  have "keeps (\<lambda>v. Option.bind (body v) (repeat_n n body))"
    by (rule keeps_then) (use Suc in auto)
  then show ?case by (simp add: keeps_def)
qed

lemma keeps_set_at [keeps_rules]: "keeps (set_at row col ch c)"
  by (auto simp: keeps_def set_at_def bind_eq_Some_conv kept_part_def)

lemma keeps_set_wrapped [keeps_rules]: "keeps (set_wrapped row w)"
  by (auto simp: keeps_def set_wrapped_def bind_eq_Some_conv kept_part_def)

lemma keeps_move_row [keeps_rules]: "keeps (move_row i j)"
  by (auto simp: keeps_def move_row_def set_wrapped_def bind_eq_Some_conv kept_part_def)

lemma keeps_fresh_row [keeps_rules]: "keeps (fresh_row i)"
  by (auto simp: keeps_def fresh_row_def set_wrapped_def bind_eq_Some_conv kept_part_def)

lemma keeps_save_history [keeps_rules]: "keeps save_history"
  unfolding save_history_def Let_def
  by (intro keeps_read keeps_Some) (simp add: kept_part_def)

lemma keeps_scroll [keeps_rules]: "keeps scroll"
proof -
  have "keeps (\<lambda>v. for_up 0 (rows v - 1) (\<lambda>i. move_row i (i + 1)) v)"
    by (rule keeps_for_up, rule keeps_move_row)
  moreover have "keeps (\<lambda>v. fresh_row (rows v - 1) v)"
    using keeps_fresh_row by (simp add: keeps_def)
  ultimately show ?thesis
    using keeps_then [OF keeps_save_history keeps_then]
    by (metis (no_types, lifting) ext scroll_def)
qed

lemma keeps_cursor:
  "keeps f \<Longrightarrow> keeps (\<lambda>v. f (v\<lparr>cursorX := x v, cursorY := y v\<rparr>))"
  "keeps f \<Longrightarrow> keeps (\<lambda>v. f (v\<lparr>cursorX := x v\<rparr>))"
  by (simp_all add: keeps_def kept_part_def)

lemma keeps_newLine [keeps_rules]: "keeps newLine"
proof -
  have "keeps (\<lambda>v. Option.bind (scroll v) (\<lambda>v. Some (v\<lparr>cursorY := rows v - 1\<rparr>)))"
    by (intro keeps_then keeps_rules) (simp add: kept_part_def)
  then show ?thesis
    by (auto simp: keeps_def newLine_def Let_def kept_part_def split: if_splits)
qed

lemma keeps_blank_at [keeps_rules]: "keeps (\<lambda>v. blank_at (x v) v)"
  using keeps_set_at by (simp add: keeps_def blank_at_def)

lemma keeps_clear_overlap [keeps_rules]: "keeps (clear_overlap w)"
  unfolding clear_overlap_def
  by (intro keeps_read keeps_then keeps_if keeps_blank_at keeps_id)

lemma keeps_write_char [keeps_rules]: "keeps (write_char w ch)"
proof -
  have move: "keeps (\<lambda>v. Some (v\<lparr>cursorX := cursorX v + 1\<rparr>))"
    by (simp add: keeps_def kept_part_def)
  have put: "keeps (\<lambda>v. set_at (cursorY v) (cursorX v) c (styled v c k) v)" for c k
    using keeps_set_at by (simp add: keeps_def)
  have "keeps (\<lambda>v. if w = 2 \<and> cursorX v < cols v then Option.bind
      (set_at (cursorY v) (cursorX v) 0 (styled v 0 0) v) (\<lambda>v. Some (v\<lparr>cursorX := cursorX v + 1\<rparr>)) else Some v)"
    by (intro keeps_if keeps_then put move keeps_id)
  then have "keeps (\<lambda>v. let v = v\<lparr>cursorX := cursorX v + 1\<rparr> in if w = 2 \<and> cursorX v < cols v then Option.bind
      (set_at (cursorY v) (cursorX v) 0 (styled v 0 0) v) (\<lambda>v. Some (v\<lparr>cursorX := cursorX v + 1\<rparr>)) else Some v)"
    unfolding Let_def by (rule keeps_cursor(2))
  then show ?thesis
    unfolding write_char_def by (intro keeps_if keeps_then keeps_clear_overlap put move)
qed

lemma keeps_putChar [keeps_rules]: "keeps (putChar rw ch)"
proof -
  have "keeps (\<lambda>v. set_wrapped (cursorY v + 1) True v)"
    using keeps_set_wrapped by (simp add: keeps_def)
  then show ?thesis
    unfolding putChar_def Let_def
    by (intro keeps_then keeps_if keeps_newLine keeps_write_char keeps_id)
qed

lemma keeps_processChar: "keeps (processChar rw ch)"
proof -
  have "keeps (\<lambda>v. Some (v\<lparr>cursorX := x v\<rparr>))"
    "keeps (\<lambda>v. Some (if cursorX v > 0 then v\<lparr>cursorX := cursorX v - 1\<rparr> else v))" for x
    by (simp_all add: keeps_def kept_part_def)
  then show ?thesis
    unfolding processChar_def Let_def by (intro keeps_if keeps_newLine keeps_putChar keeps_id)
qed

section \<open>Input without multi-byte characters\<close>

lemma ascii_decode:
  assumes "b < (0x80 :: byte)"
  shows "decode_rune (b # bs) = (uint b, 1)" and "uint b < 0x80"
  using assms by (simp_all add: word_less_def)

lemma feed_step_ascii:
  assumes "b < 0x80"
  shows "feed_step rw (b # bs) vt = map_option (\<lambda>v. (v, 1)) (processByte rw b vt)"
  using ascii_decode(1) [OF assms, of bs] ascii_decode(2) [OF assms]
  by (auto simp: feed_step_def Let_def RuneError_def processByte_def split: escape_state.split)

lemma feed_loop_ascii:
  "list_all (\<lambda>b. b < 0x80) data \<Longrightarrow> feed_loop rw data vt = for_each (processByte rw) data vt"
proof (induction data arbitrary: vt)
  case Nil
  then show ?case by (simp add: feed_loop.simps)
next
  case (Cons b bs)
  then show ?case
    by (subst feed_loop.simps) (auto simp: feed_step_ascii split: option.split)
qed

section \<open>Text without escape sequences\<close>

lemma feed_step_text:
  assumes "vt_wf vt" "rw_ok rw" "escState vt = stateNormal" "data \<noteq> []" "hd data \<noteq> 0x1B"
  shows "returns (feed_step rw data vt) (\<lambda>(v, n). vt_wf v \<and> escState v = stateNormal \<and>
     kept_part v = kept_part vt)"
proof -
  have char: "returns (processChar rw ch vt) (\<lambda>v. vt_wf v \<and> escState v = stateNormal \<and>
      kept_part v = kept_part vt)" for ch
    using processChar_wf [OF assms(1,2), of ch] keeps_processChar [of rw ch] assms(3)
    by (auto simp: returns_def keeps_def)
  have m: "returns (map_option (\<lambda>v. (v, k)) m) (\<lambda>(v, n). Q v)" if "returns m Q" for m Q and k :: nat
    using that by (cases m) auto
  show ?thesis
    using m [OF char] assms by (auto simp: feed_step_def processByte_def Let_def split: prod.split)
qed

lemma feed_loop_text:
  assumes "vt_wf vt" "rw_ok rw" "escState vt = stateNormal" "0x1B \<notin> set data"
  shows "returns (feed_loop rw data vt) (\<lambda>v. vt_wf v \<and> escState v = stateNormal \<and>
     kept_part v = kept_part vt)"
  using assms
proof (induction rw data vt rule: feed_loop.induct)
  case (1 rw data vt)
  show ?case
  proof (cases "data = []")
    case True
    then show ?thesis using "1.prems" by (simp add: feed_loop.simps)
  next
    case False
    have "hd data \<noteq> 0x1B" using False "1.prems"(4) by (metis list.set_sel(1))
    with feed_step_text [OF "1.prems"(1-3) False] obtain v n
      where step: "feed_step rw data vt = Some (v, n)" and v: "vt_wf v" "escState v = stateNormal"
        "kept_part v = kept_part vt"
      by (auto simp: returns_def)
    have "0x1B \<notin> set (drop n data)" using "1.prems"(4) by (meson in_set_dropD)
    then show ?thesis
      using "1.IH" [OF False step refl v(1) "1.prems"(2) v(2)] v(3) False step
      by (simp add: feed_loop.simps [of rw data vt])
  qed
qed

lemma note_first_data_simps [simp]:
  "vt_wf (note_first_data vt) = vt_wf vt" "kept_part (note_first_data vt) = kept_part vt"
  "escState (note_first_data vt) = escState vt" "screen (note_first_data vt) = screen vt"
  "cells (note_first_data vt) = cells vt" "cursorX (note_first_data vt) = cursorX vt"
  "cursorY (note_first_data vt) = cursorY vt" "escParams (note_first_data vt) = escParams vt"
  "useAltScreen (note_first_data vt) = useAltScreen vt" "rows (note_first_data vt) = rows vt"
  "cols (note_first_data vt) = cols vt"
  by (simp_all add: note_first_data_def kept_part_def)

section \<open>The alternative screen\<close>

text \<open>\<open>ESC [ ? 1 0 4 9 h\<close> and \<open>ESC [ ? 1 0 4 9 l\<close>\<close>

definition enterAltSeq :: bytes where
  "enterAltSeq = [0x1B, 0x5B, 0x3F, 0x31, 0x30, 0x34, 0x39, 0x68]"

definition exitAltSeq :: bytes where
  "exitAltSeq = [0x1B, 0x5B, 0x3F, 0x31, 0x30, 0x34, 0x39, 0x6C]"

lemma feed_alt_seqs:
  assumes "escState vt = stateNormal"
  shows "feed_loop rw enterAltSeq vt = Option.bind
      (enterAltScreen (vt\<lparr>escBuffer := [], escState := stateCSI, escPrivate := 0x3F, escParams := [1049],
         escRawSeq := drop 2 enterAltSeq\<rparr>)) (\<lambda>v. Some (v\<lparr>escState := stateNormal\<rparr>))"
    and "feed_loop rw exitAltSeq vt = Some (exitAltScreen (vt\<lparr>escBuffer := [], escState := stateCSI,
         escPrivate := 0x3F, escParams := [1049], escRawSeq := drop 2 exitAltSeq\<rparr>)\<lparr>escState := stateNormal\<rparr>)"
  using assms
  by (auto simp: enterAltSeq_def exitAltSeq_def feed_loop_ascii processByte_def processEscapeByte_def
      processCSI_def is_digit_def add_digit_def executeCSI_def handlePrivateMode_def wrap64_id)

lemma exitAltScreen_restores:
  assumes "enterAltScreen vt = Some v1" "kept_part v2 = kept_part v1" "vt_wf vt" "\<not> useAltScreen vt"
  shows "screen (exitAltScreen v2) = screen vt" "cells (exitAltScreen v2) = cells vt"
    "cursorX (exitAltScreen v2) = cursorX vt" "cursorY (exitAltScreen v2) = cursorY vt"
    "\<not> useAltScreen (exitAltScreen v2)"
  using assms grid_okD(1,2) [of "rows vt" "cols vt" "screen vt" "cells vt"]
  by (auto simp: enterAltScreen_def exitAltScreen_def kept_part_def Let_def vt_wf_def body_wf_def
      split: if_splits)

section \<open>Printing\<close>

definition print_cells :: "vt \<Rightarrow> bytes \<Rightarrow> cell list" where
  "print_cells vt data = map (\<lambda>b. styled vt (uint b) 1) data"

definition printable :: "byte \<Rightarrow> bool" where
  "printable b \<longleftrightarrow> 0x20 \<le> b \<and> b < 0x7F"

text \<open>The terminal after \<open>data\<close> was printed at the cursor, without reaching the end of the line.\<close>

definition printed :: "bytes \<Rightarrow> vt \<Rightarrow> vt" where
  "printed data vt =
     (let y = nat (cursorY vt); x = nat (cursorX vt);
          row = overwrite x (print_cells vt data) (cells vt ! y)
      in vt\<lparr>screen := (screen vt)[y := map Ch row], cells := (cells vt)[y := row],
            cursorX := cursorX vt + int (length data)\<rparr>)"

lemma putChar_narrow:
  assumes wf: "vt_wf vt" and w: "rw ch = 1" and x: "cursorX vt < cols vt"
    and narrow: "Width (cells vt ! nat (cursorY vt) ! nat (cursorX vt)) = 1"
  shows "putChar rw ch vt = Some (vt\<lparr>
     screen := (screen vt)[nat (cursorY vt) := (screen vt ! nat (cursorY vt))[nat (cursorX vt) := ch]],
     cells := (cells vt)[nat (cursorY vt) := (cells vt ! nat (cursorY vt))[nat (cursorX vt) := styled vt ch 1]],
     cursorX := cursorX vt + 1\<rparr>)"
proof -
  have g: "grid_ok (rows vt) (cols vt) (screen vt) (cells vt)"
    and b: "0 \<le> cursorX vt" "0 \<le> cursorY vt" "cursorY vt < rows vt"
    using wf by (auto simp: vt_wf_def body_wf_def)
  have "cell_at (cursorY vt) (cursorX vt) vt = Some (cells vt ! nat (cursorY vt) ! nat (cursorX vt))"
    using grid_okD(1,4) [OF g] b x by (simp add: cell_at_def)
  then have "clear_overlap 1 vt = Some vt"
    using narrow by (simp add: clear_overlap_def)
  then show ?thesis
    using w x b set_at_eq [OF g b(2,3,1) x] by (simp add: putChar_def write_char_def)
qed

lemma printed_Nil [simp]: "vt_wf vt \<Longrightarrow> printed [] vt = vt"
  using grid_okD(3) [of "rows vt" "cols vt" "screen vt" "cells vt"]
  by (auto simp: printed_def print_cells_def Let_def vt_wf_def body_wf_def map_update [symmetric])

lemma length_print_cells [simp]: "length (print_cells vt data) = length data"
  by (simp add: print_cells_def)

lemma printed_wf:
  assumes "vt_wf vt" "cursorX vt + int (length data) \<le> cols vt"
  shows "vt_wf (printed data vt)"
proof -
  have g: "grid_ok (rows vt) (cols vt) (screen vt) (cells vt)"
    and b: "0 \<le> cursorX vt" "0 \<le> cursorY vt" "cursorY vt < rows vt"
    using assms by (auto simp: vt_wf_def body_wf_def)
  have "int (length (overwrite (nat (cursorX vt)) (print_cells vt data) (cells vt ! nat (cursorY vt)))) =
      cols vt"
    using grid_okD(4) [OF g b(2,3)] assms(2) b by (subst length_overwrite) auto
  from grid_ok_set_row [OF g this, of "nat (cursorY vt)"] show ?thesis
    using assms by (simp add: printed_def Let_def vt_wf_def body_wf_def)
qed

lemma printed_Cons:
  assumes wf: "vt_wf vt" and len: "cursorX vt + int (length (c # data)) \<le> cols vt"
  shows "printed data (printed [c] vt) = printed (c # data) vt"
proof -
  have g: "grid_ok (rows vt) (cols vt) (screen vt) (cells vt)"
    and b: "0 \<le> cursorX vt" "0 \<le> cursorY vt" "cursorY vt < rows vt"
    using wf by (auto simp: vt_wf_def body_wf_def)
  have l: "nat (cursorY vt) < length (cells vt)" "nat (cursorY vt) < length (screen vt)"
    "nat (cursorX vt) + length (c # data) \<le> length (cells vt ! nat (cursorY vt))"
    using grid_okD(1,2) [OF g] grid_okD(4) [OF g b(2,3)] len b by auto
  have n: "nat (cursorX vt + 1) = Suc (nat (cursorX vt))" using b by simp
  have same: "print_cells (vt\<lparr>screen := s, cells := cs, cursorX := x\<rparr>) data = print_cells vt data" for s cs x
    by (simp add: print_cells_def styled_def)
  have row: "overwrite (Suc (nat (cursorX vt))) (print_cells vt data)
      (overwrite (nat (cursorX vt)) (print_cells vt [c]) (cells vt ! nat (cursorY vt))) =
      overwrite (nat (cursorX vt)) (print_cells vt (c # data)) (cells vt ! nat (cursorY vt))"
    using l by (simp add: print_cells_def overwrite_single overwrite_Cons)
  show ?thesis
    unfolding printed_def Let_def using l by (simp add: same n row)
qed

lemma printed_frame [simp]:
  "escState (printed data vt) = escState vt" "cols (printed data vt) = cols vt"
  "cursorY (printed data vt) = cursorY vt"
  "cursorX (printed data vt) = cursorX vt + int (length data)"
  by (simp_all add: printed_def Let_def)

lemma processByte_print:
  assumes wf: "vt_wf vt" and st: "escState vt = stateNormal" and p: "printable c" and w: "rw (uint c) = 1"
    and x: "cursorX vt < cols vt" and narrow: "\<forall>d \<in> set (cells vt ! nat (cursorY vt)). Width d = 1"
  shows "processByte rw c vt = Some (printed [c] vt)"
proof -
  have g: "grid_ok (rows vt) (cols vt) (screen vt) (cells vt)"
    and b: "0 \<le> cursorX vt" "0 \<le> cursorY vt" "cursorY vt < rows vt"
    using wf by (auto simp: vt_wf_def body_wf_def)
  have l: "nat (cursorX vt) < length (cells vt ! nat (cursorY vt))" "nat (cursorY vt) < length (cells vt)"
    using grid_okD(1) [OF g] grid_okD(4) [OF g b(2,3)] x b by auto
  have c: "c \<noteq> 0x1B" "0x20 \<le> uint c" "uint c < 0x7F"
    using p by (auto simp: printable_def word_le_def word_less_def)
  have "screen vt ! nat (cursorY vt) = map Ch (cells vt ! nat (cursorY vt))"
    using grid_okD(3) [OF g] l by simp
  then have "putChar rw (uint c) vt = Some (printed [c] vt)"
    using putChar_narrow [of vt rw "uint c", OF wf w x] narrow l
    by (simp add: printed_def Let_def print_cells_def overwrite_single map_update styled_def NewFullStyledCell_def)
  then show ?thesis using st c by (simp add: processByte_def processChar_def)
qed

lemma print_bytes:
  assumes "vt_wf vt" and "escState vt = stateNormal" and "\<forall>c \<in> set data. printable c \<and> rw (uint c) = 1"
    and "cursorX vt + int (length data) \<le> cols vt"
    and "\<forall>d \<in> set (cells vt ! nat (cursorY vt)). Width d = 1"
  shows "for_each (processByte rw) data vt = Some (printed data vt)"
  using assms
proof (induction data arbitrary: vt)
  case Nil
  then show ?case by simp
next
  case (Cons c data)
  have x: "cursorX vt < cols vt" using Cons.prems(4) by simp
  have l: "nat (cursorY vt) < length (cells vt)"
    using grid_okD(1) [of "rows vt" "cols vt" "screen vt" "cells vt"] Cons.prems(1)
    by (auto simp: vt_wf_def body_wf_def)
  have step: "processByte rw c vt = Some (printed [c] vt)"
    using processByte_print [OF Cons.prems(1,2) _ _ x Cons.prems(5)] Cons.prems(3) by simp
  have "\<forall>d \<in> set (overwrite (nat (cursorX vt)) (print_cells vt [c]) (cells vt ! nat (cursorY vt))). Width d = 1"
    using Cons.prems(5)
    by (auto simp: overwrite_def print_cells_def styled_def NewFullStyledCell_def
        dest: in_set_takeD in_set_dropD)
  then have "\<forall>d \<in> set (cells (printed [c] vt) ! nat (cursorY (printed [c] vt))). Width d = 1"
    using l by (simp add: printed_def Let_def)
  with Cons.IH [of "printed [c] vt"] Cons.prems step printed_wf [of vt "[c]"] printed_Cons [of vt c data]
  show ?case by simp
qed

section \<open>Properties\<close>

lemma line_of_length: "length (line_of r) \<le> length r"
proof -
  have "length (TrimRight t) \<le> length t" for t
    unfolding TrimRight_def by (metis length_dropWhile_le length_rev)
  then show ?thesis unfolding line_of_def by (metis length_map)
qed

lemma getLinesLocked_dims:
  assumes "vt_wf vt"
  shows "int (length (getLinesLocked vt)) = rows vt" "\<forall>l \<in> set (getLinesLocked vt). int (length l) \<le> cols vt"
proof -
  have g: "grid_ok (rows vt) (cols vt) (screen vt) (cells vt)" "0 < rows vt" "0 < cols vt"
    using assms by (auto simp: vt_wf_def body_wf_def)
  show "int (length (getLinesLocked vt)) = rows vt"
    using g by (simp add: getLinesLocked_def)
  have "int (length (line_of (screen vt ! i))) \<le> cols vt" if "i < nat (rows vt)" for i
  proof -
    have "int i < rows vt" using that by (simp add: zless_nat_eq_int_zless)
    from grid_okD(5) [OF g(1) _ this] line_of_length [of "screen vt ! i"] show ?thesis by simp
  qed
  then show "\<forall>l \<in> set (getLinesLocked vt). int (length l) \<le> cols vt"
    using g by (auto simp: getLinesLocked_def)
qed

text \<open>
  C1. No input makes the terminal emulator panic, as long as the numbers in its control sequences stay
  below \<open>2 ^ 31\<close>: from a well-formed state \<open>Feed\<close> returns, leaves a well-formed state (cursor on the
  screen, both buffers of the right size and in agreement, history within its limit), and returns one
  line per row, none wider than the screen.
\<close>

theorem Feed_never_panics:
  assumes "vt_wf vt" and "rw_ok rw" and "feed_small rw data (note_first_data vt)"
  shows "\<exists>vt' lines. Feed rw data vt = Some (vt', lines) \<and> vt_wf vt' \<and>
     int (length lines) = rows vt' \<and> (\<forall>l \<in> set lines. int (length l) \<le> cols vt')"
proof -
  from feed_loop_wf [of "note_first_data vt" rw data] assms obtain v
    where "feed_loop rw data (note_first_data vt) = Some v" "vt_wf v"
    by (auto simp: returns_def)
  then show ?thesis using getLinesLocked_dims [of v] by (simp add: Feed_def)
qed

theorem Feed_never_panics_witness:
  "\<exists>vt' lines. Feed (\<lambda>_. 1) [0x61, 0x1B, 0x5B, 0x32, 0x3B, 0x35, 0x48, 0xC3, 0xA9, 0x1B, 0x5B, 0x4A]
     (NewVirtualTerminal 3 2 5) = Some (vt', lines) \<and> vt_wf vt' \<and>
     int (length lines) = rows vt' \<and> (\<forall>l \<in> set lines. int (length l) \<le> cols vt')"
proof (rule Feed_never_panics)
  show "vt_wf (NewVirtualTerminal 3 2 5)" by (rule NewVirtualTerminal_wf) simp_all
  show "rw_ok (\<lambda>_. 1)" by (simp add: rw_ok_def)
  show "feed_small (\<lambda>_. 1) [0x61, 0x1B, 0x5B, 0x32, 0x3B, 0x35, 0x48, 0xC3, 0xA9, 0x1B, 0x5B, 0x4A]
     (note_first_data (NewVirtualTerminal 3 2 5))" by code_simp
qed

text \<open>
  C4. What a full-screen program shows does not damage the main screen: entering the alternative screen,
  printing any text without escape sequences there (valid UTF-8 or not) and leaving it again does not
  panic, and gives back the characters, the cells and the cursor of the main screen.
\<close>

theorem alt_screen_roundtrip:
  assumes "vt_wf vt" and "rw_ok rw" and "escState vt = stateNormal" and "\<not> useAltScreen vt"
    and "0x1B \<notin> set data"
  shows "\<exists>v1 l1 v2 l2 v3 l3.
     Feed rw enterAltSeq vt = Some (v1, l1) \<and> useAltScreen v1 \<and>
     Feed rw data v1 = Some (v2, l2) \<and> useAltScreen v2 \<and>
     Feed rw exitAltSeq v2 = Some (v3, l3) \<and> \<not> useAltScreen v3 \<and>
     screen v3 = screen vt \<and> cells v3 = cells vt \<and> cursorX v3 = cursorX vt \<and> cursorY v3 = cursorY vt"
proof -
  define v0 where "v0 = (note_first_data vt)\<lparr>escBuffer := [], escState := stateCSI, escPrivate := 0x3F,
      escParams := [1049], escRawSeq := drop 2 enterAltSeq\<rparr>"
  have v0: "vt_wf v0" "\<not> useAltScreen v0" "screen v0 = screen vt" "cells v0 = cells vt"
    "cursorX v0 = cursorX vt" "cursorY v0 = cursorY vt"
    using assms by (simp_all add: v0_def)
  obtain w where w: "enterAltScreen v0 = Some w" "vt_wf w"
    using enterAltScreen_wf [OF v0(1)] by (auto simp: returns_def)
  have altw: "useAltScreen w" using w v0(2) by (auto simp: enterAltScreen_def Let_def split: if_splits)
  define v1 where "v1 = w\<lparr>escState := stateNormal\<rparr>"
  have f1: "Feed rw enterAltSeq vt = Some (v1, getLinesLocked v1)"
    using feed_alt_seqs(1) [of "note_first_data vt" rw] assms(3) w(1)
    by (simp add: Feed_def v0_def [symmetric] v1_def)
  have "returns (feed_loop rw data (note_first_data v1)) (\<lambda>v. vt_wf v \<and> escState v = stateNormal \<and>
      kept_part v = kept_part v1)"
    using feed_loop_text [of "note_first_data v1" rw data] assms w(2) by (simp add: v1_def)
  then obtain v2 where f2: "feed_loop rw data (note_first_data v1) = Some v2"
    and v2: "vt_wf v2" "escState v2 = stateNormal" "kept_part v2 = kept_part v1"
    by (auto simp: returns_def)
  define u where "u = (note_first_data v2)\<lparr>escBuffer := [], escState := stateCSI, escPrivate := 0x3F,
      escParams := [1049], escRawSeq := drop 2 exitAltSeq\<rparr>"
  have "kept_part u = kept_part w"
    using v2(3) by (simp add: u_def v1_def)
  note restored = exitAltScreen_restores [OF w(1) this v0(1,2)]
  have f3: "feed_loop rw exitAltSeq (note_first_data v2) = Some ((exitAltScreen u)\<lparr>escState := stateNormal\<rparr>)"
    using feed_alt_seqs(2) [of "note_first_data v2" rw] v2(2) by (simp add: u_def)
  have "useAltScreen v2" using v2(3) altw by (simp add: kept_part_def v1_def)
  then show ?thesis
    using f1 f2 f3 restored altw v0 by (simp add: Feed_def) (simp add: v1_def)
qed

theorem alt_screen_roundtrip_witness:
  "\<exists>v1 l1 v2 l2 v3 l3.
     Feed (\<lambda>_. 1) enterAltSeq (NewVirtualTerminal 3 2 5) = Some (v1, l1) \<and> useAltScreen v1 \<and>
     Feed (\<lambda>_. 1) [0x61, 0x0A, 0x62, 0xFF] v1 = Some (v2, l2) \<and> useAltScreen v2 \<and>
     Feed (\<lambda>_. 1) exitAltSeq v2 = Some (v3, l3) \<and> \<not> useAltScreen v3 \<and>
     screen v3 = screen (NewVirtualTerminal 3 2 5) \<and> cells v3 = cells (NewVirtualTerminal 3 2 5) \<and>
     cursorX v3 = cursorX (NewVirtualTerminal 3 2 5) \<and> cursorY v3 = cursorY (NewVirtualTerminal 3 2 5)"
  by (rule alt_screen_roundtrip)
    (simp_all add: NewVirtualTerminal_wf rw_ok_def, simp_all add: NewVirtualTerminal_def initScreen_def)

text \<open>
  Printable ASCII text that fits on the rest of the line is written at the cursor, in the current
  style: \<open>Feed\<close> overwrites exactly these cells of the cursor's row, moves the cursor behind the text and
  changes nothing else (\<open>printed\<close>). The row must hold no half of a wide character, and the width table
  must give these characters the width 1.
\<close>

theorem Feed_prints_text:
  assumes "vt_wf vt" and "escState vt = stateNormal" and "hasData vt"
    and "\<forall>c \<in> set data. printable c \<and> rw (uint c) = 1"
    and "cursorX vt + int (length data) \<le> cols vt"
    and "\<forall>d \<in> set (cells vt ! nat (cursorY vt)). Width d = 1"
  shows "Feed rw data vt = Some (printed data vt, getLinesLocked (printed data vt))"
proof -
  have "list_all (\<lambda>b. b < 0x80) data"
    using assms(4) unfolding list_all_iff printable_def by (auto simp: word_less_def)
  moreover have "note_first_data vt = vt" using assms(3) by (simp add: note_first_data_def)
  ultimately show ?thesis
    using print_bytes [OF assms(1,2,4-6)] by (simp add: Feed_def feed_loop_ascii)
qed

theorem Feed_prints_text_witness:
  "Feed (\<lambda>_. 1) [0x68, 0x69] ((NewVirtualTerminal 3 2 5)\<lparr>hasData := True\<rparr>) =
     Some (printed [0x68, 0x69] ((NewVirtualTerminal 3 2 5)\<lparr>hasData := True\<rparr>),
       getLinesLocked (printed [0x68, 0x69] ((NewVirtualTerminal 3 2 5)\<lparr>hasData := True\<rparr>)))"
  by (rule Feed_prints_text)
    (simp_all add: NewVirtualTerminal_wf printable_def,
     simp_all add: NewVirtualTerminal_def initScreen_def blank_cells_def NewCell_def)

text \<open>
  Without multi-byte characters the way the output of a program is cut into chunks does not matter:
  escape sequences may be split anywhere, since the parser keeps its state between calls.
\<close>

theorem feed_loop_chunks:
  assumes "list_all (\<lambda>b. b < 0x80) xs" and "list_all (\<lambda>b. b < 0x80) ys"
  shows "feed_loop rw (xs @ ys) vt = Option.bind (feed_loop rw xs vt) (feed_loop rw ys)"
proof -
  have "feed_loop rw ys = for_each (processByte rw) ys"
    using assms(2) by (intro ext) (rule feed_loop_ascii)
  then show ?thesis using assms by (simp add: feed_loop_ascii for_each_append)
qed

theorem feed_loop_chunks_witness:
  "feed_loop (\<lambda>_. 1) ([0x1B, 0x5B] @ [0x32, 0x4A]) (NewVirtualTerminal 3 2 5) =
     Option.bind (feed_loop (\<lambda>_. 1) [0x1B, 0x5B] (NewVirtualTerminal 3 2 5)) (feed_loop (\<lambda>_. 1) [0x32, 0x4A])"
  by (rule feed_loop_chunks) simp_all

section \<open>Inputs the code does not handle\<close>

text \<open>
  A multi-byte character that is split between two calls of \<open>Feed\<close> is lost: both halves are skipped as
  invalid bytes. In one call the same two bytes print a character.
\<close>

theorem split_character_is_lost:
  "map_option snd (Feed (\<lambda>_. 1) [0xC3, 0xA9] (NewVirtualTerminal 3 1 5)) = Some [[0xE9]] \<and>
   map_option snd (Option.bind (Feed (\<lambda>_. 1) [0xC3] (NewVirtualTerminal 3 1 5))
     (\<lambda>(vt, _). Feed (\<lambda>_. 1) [0xA9] vt)) = Some [[]]"
  by code_simp

text \<open>
  \<open>Resize\<close> does not touch the saved main screen. Leaving the alternative screen after the terminal grew
  brings back a buffer of the old size, and the next wrapped line panics.
\<close>

theorem resize_in_alt_screen_panics:
  "Option.bind (Feed (\<lambda>_. 1) enterAltSeq (NewVirtualTerminal 2 1 5)) (\<lambda>(vt, _).
   Option.bind (Feed (\<lambda>_. 1) exitAltSeq (Resize 3 2 vt)) (\<lambda>(vt, _).
   Feed (\<lambda>_. 1) [0x61, 0x62, 0x63] vt)) = None"
  by code_simp

text \<open>
  A huge parameter overflows: moving the cursor down by \<open>2 ^ 63 - 1\<close> from the second row gives a negative
  row that is not clamped, and erasing a character there panics.
\<close>

theorem huge_parameter_panics:
  "Feed (\<lambda>_. 1) ([0x0A, 0x1B, 0x5B] @ map (\<lambda>d. 0x30 + d) [9,2,2,3,3,7,2,0,3,6,8,5,4,7,7,5,8,0,7] @
     [0x42, 0x1B, 0x5B, 0x58]) (NewVirtualTerminal 3 2 5) = None"
  by code_simp

text \<open>
  Deleting more characters than there are right of the cursor also clears cells left of the cursor: the
  loop that blanks the tail starts at \<open>cols - n\<close>.
\<close>

theorem deleteChars_clears_left_of_cursor:
  "map_option snd (Feed (\<lambda>_. 1) [0x61, 0x62, 0x63, 0x1B, 0x5B, 0x33, 0x50] (NewVirtualTerminal 4 1 5)) =
     Some [[0x61]]"
  by code_simp

end
