(* ===== verification/Go_Runes.thy ===== *)
theory Go_Runes
  imports Go_UTF8
begin

text \<open>
  Conversions between strings and rune slices: \<open>[]rune(s)\<close>, \<open>string(runes)\<close> and \<open>utf8.ValidString\<close>, with the
  round trip between them.
\<close>

section \<open>Conversions\<close>

function runes_of :: "bytes \<Rightarrow> rune list" where
  "runes_of s = (if s = [] then [] else case decode_rune s of (r, n) \<Rightarrow> r # runes_of (drop n s))"
  by pat_completeness auto
termination
  by (relation "measure length") (auto dest!: sym [THEN decode_rune_size])

declare runes_of.simps [simp del]

text \<open>The scalar values: everything a well-formed encoding can stand for.\<close>

definition scalar :: "rune \<Rightarrow> bool" where
  "scalar r \<longleftrightarrow> 0 \<le> r \<and> r \<le> 0x10FFFF \<and> \<not> (0xD800 \<le> r \<and> r \<le> 0xDFFF)"

definition encode_scalar :: "rune \<Rightarrow> int list" where
  "encode_scalar r =
     (if r < 0x80 then [r]
      else if r < 0x800 then [0xC0 + r div 64, 0x80 + r mod 64]
      else if r < 0x10000 then [0xE0 + r div 4096, 0x80 + r div 64 mod 64, 0x80 + r mod 64]
      else [0xF0 + r div 262144, 0x80 + r div 4096 mod 64, 0x80 + r div 64 mod 64, 0x80 + r mod 64])"

definition encode_rune :: "rune \<Rightarrow> bytes" where
  "encode_rune r = map word_of_int (encode_scalar (if scalar r then r else RuneError))"

definition string_of_runes :: "rune list \<Rightarrow> bytes" where
  "string_of_runes rs = concat (map encode_rune rs)"

function ValidString :: "bytes \<Rightarrow> bool" where
  "ValidString s =
     (if s = [] then True
      else case decode_rune s of (r, n) \<Rightarrow> \<not> (r = RuneError \<and> n = 1) \<and> ValidString (drop n s))"
  by pat_completeness auto
termination
  by (relation "measure length") (auto dest!: sym [THEN decode_rune_size])

declare ValidString.simps [simp del]

section \<open>Lemmas\<close>

text \<open>The base 64 digits of a rune.\<close>

lemma digits:
  fixes r :: int
  shows "r = 64 * (r div 64) + r mod 64" "r = 4096 * (r div 4096) + 64 * (r div 64 mod 64) + r mod 64"
    "r = 262144 * (r div 262144) + 4096 * (r div 4096 mod 64) + 64 * (r div 64 mod 64) + r mod 64"
proof -
  have d1: "r div 4096 = r div 64 div 64" using zdiv_zmult2_eq [of 64 r 64] by simp
  have d2: "r div 262144 = r div 4096 div 64" using zdiv_zmult2_eq [of 64 r 4096] by simp
  show 1: "r = 64 * (r div 64) + r mod 64" by (rule mult_div_mod_eq [symmetric])
  have e1: "r div 64 = 64 * (r div 4096) + r div 64 mod 64"
    unfolding d1 by (rule mult_div_mod_eq [symmetric])
  have e2: "r div 4096 = 64 * (r div 262144) + r div 4096 mod 64"
    unfolding d2 by (rule mult_div_mod_eq [symmetric])
  show 2: "r = 4096 * (r div 4096) + 64 * (r div 64 mod 64) + r mod 64" using 1 e1 by linarith
  show "r = 262144 * (r div 262144) + 4096 * (r div 4096 mod 64) + 64 * (r div 64 mod 64) + r mod 64"
    using 2 e2 by linarith
qed

text \<open>The digits as variables, so that arithmetic does not have to look into them.\<close>

lemma two_digits:
  obtains x z where "r div 64 = x" "r mod 64 = z" "(r::int) = 64 * x + z" "0 \<le> z" "z < 64"
  by (rule that [OF refl refl digits(1)]) simp_all

lemma three_digits:
  obtains x y z where "r div 4096 = x" "r div 64 mod 64 = y" "r mod 64 = z" "(r::int) = 4096 * x + 64 * y + z"
    "0 \<le> y" "y < 64" "0 \<le> z" "z < 64"
  by (rule that [OF refl refl refl digits(2)]) simp_all

lemma four_digits:
  obtains w x y z where "r div 262144 = w" "r div 4096 mod 64 = x" "r div 64 mod 64 = y" "r mod 64 = z"
    "(r::int) = 262144 * w + 4096 * x + 64 * y + z" "0 \<le> x" "x < 64" "0 \<le> y" "y < 64" "0 \<le> z" "z < 64"
  by (rule that [OF refl refl refl refl digits(3)]) simp_all

lemma encode_scalar_bytes:
  assumes "scalar r"
  shows "\<forall>b \<in> set (encode_scalar r). 0 \<le> b \<and> b < 256"
proof -
  have r: "0 \<le> r" "r \<le> 0x10FFFF" using assms by (auto simp: scalar_def)
  consider "r < 0x80" | "0x80 \<le> r" "r < 0x800" | "0x800 \<le> r" "r < 0x10000" | "0x10000 \<le> r" by linarith
  then show ?thesis
  proof cases
    case 1
    then show ?thesis using r by (simp add: encode_scalar_def)
  next
    case 2
    obtain x z where d: "r div 64 = x" "r mod 64 = z" "r = 64 * x + z" "0 \<le> z" "z < 64" by (rule two_digits)
    have "0 \<le> x" "x < 32" using 2 d(3-5) by linarith+
    then show ?thesis using 2 d(4,5) unfolding encode_scalar_def d(1,2) by simp
  next
    case 3
    obtain x y z where d: "r div 4096 = x" "r div 64 mod 64 = y" "r mod 64 = z" "r = 4096 * x + 64 * y + z"
      "0 \<le> y" "y < 64" "0 \<le> z" "z < 64" by (rule three_digits)
    have "0 \<le> x" "x < 16" using 3 d(4-8) by linarith+
    then show ?thesis using 3 d(5-8) unfolding encode_scalar_def d(1-3) by simp
  next
    case 4
    obtain w x y z where d: "r div 262144 = w" "r div 4096 mod 64 = x" "r div 64 mod 64 = y" "r mod 64 = z"
      "r = 262144 * w + 4096 * x + 64 * y + z" "0 \<le> x" "x < 64" "0 \<le> y" "y < 64" "0 \<le> z" "z < 64"
      by (rule four_digits)
    have "0 \<le> w" "w \<le> 4" using 4 r d(5-11) by linarith+
    then show ?thesis using 4 d(6-11) unfolding encode_scalar_def d(1-4) by simp
  qed
qed

lemma uint_encode:
  assumes "scalar r"
  shows "map uint (encode_rune r) = encode_scalar r"
proof -
  have "uint (word_of_int b :: byte) = b" if "b \<in> set (encode_scalar r)" for b
    using that encode_scalar_bytes [OF assms] by (simp add: uint_word_of_int)
  then show ?thesis using assms by (simp add: encode_rune_def comp_def map_idI)
qed

text \<open>A lead byte with the range of the byte behind it, for each length of an encoding.\<close>

lemma lead2: "0xC2 \<le> b \<Longrightarrow> b \<le> 0xDF \<Longrightarrow> lead_info b = Some (2, 0x80, 0xBF)"
  by (simp add: lead_info_def)

lemma lead3:
  assumes "0x800 \<le> r" "r < 0x10000" "scalar r"
  shows "\<exists>lo hi. lead_info (0xE0 + r div 4096) = Some (3, lo, hi) \<and>
    lo \<le> 0x80 + r div 64 mod 64 \<and> 0x80 + r div 64 mod 64 \<le> hi"
proof -
  obtain x y z where d: "r div 4096 = x" "r div 64 mod 64 = y" "r mod 64 = z" "r = 4096 * x + 64 * y + z"
    "0 \<le> y" "y < 64" "0 \<le> z" "z < 64" by (rule three_digits)
  have q: "0 \<le> x" "x \<le> 15" using assms(1,2) d(4-8) by linarith+
  have lo: "x = 0 \<Longrightarrow> 0x20 \<le> y" using assms(1) d(4-8) by linarith
  have hi: "x = 13 \<Longrightarrow> y \<le> 0x1F" using assms(3) d(4-8) unfolding scalar_def by linarith
  show ?thesis unfolding d(1,2) using q lo hi d(5,6) unfolding lead_info_def by auto
qed

lemma lead4:
  assumes "0x10000 \<le> r" "scalar r"
  shows "\<exists>lo hi. lead_info (0xF0 + r div 262144) = Some (4, lo, hi) \<and>
    lo \<le> 0x80 + r div 4096 mod 64 \<and> 0x80 + r div 4096 mod 64 \<le> hi"
proof -
  obtain w x y z where d: "r div 262144 = w" "r div 4096 mod 64 = x" "r div 64 mod 64 = y" "r mod 64 = z"
    "r = 262144 * w + 4096 * x + 64 * y + z" "0 \<le> x" "x < 64" "0 \<le> y" "y < 64" "0 \<le> z" "z < 64"
    by (rule four_digits)
  have r: "r \<le> 0x10FFFF" using assms(2) by (simp add: scalar_def)
  have q: "0 \<le> w" "w \<le> 4" using assms(1) r d(5-11) by linarith+
  have lo: "w = 0 \<Longrightarrow> 0x10 \<le> x" using assms(1) d(5-11) by linarith
  have hi: "w = 4 \<Longrightarrow> x \<le> 0x0F" using r d(5-11) by linarith
  show ?thesis unfolding d(1,2) using q lo hi d(6,7) unfolding lead_info_def by auto
qed

lemma length_encode: "scalar r \<Longrightarrow> length (encode_rune r) = length (encode_scalar r)"
  by (simp add: encode_rune_def)

lemma decode_encode:
  assumes r: "scalar r"
  shows "decode_rune (encode_rune r @ s) = (r, length (encode_rune r))"
proof -
  have m: "map uint (encode_rune r @ s) = encode_scalar r @ map uint s" by (simp add: uint_encode [OF r])
  have pos: "0 \<le> r" using r by (simp add: scalar_def)
  consider "r < 0x80" | "0x80 \<le> r" "r < 0x800" | "0x800 \<le> r" "r < 0x10000" | "0x10000 \<le> r" by linarith
  then show ?thesis
  proof cases
    case 1
    then show ?thesis unfolding decode_rune_def m using r by (simp add: encode_scalar_def length_encode)
  next
    case 2
    obtain x z where d: "r div 64 = x" "r mod 64 = z" "r = 64 * x + z" "0 \<le> z" "z < 64" by (rule two_digits)
    have x: "2 \<le> x" "x < 32" using 2 d(3-5) by linarith+
    have e: "encode_scalar r = [0xC0 + x, 0x80 + z]" using 2 by (simp add: encode_scalar_def d(1,2))
    have "(0xC0 + x) mod 32 = x" "(0x80 + z) mod 64 = z"
      using x d(4,5) by (simp_all add: mod_add_eq [symmetric, of 192] mod_add_eq [symmetric, of 128] del: mod_add_eq)
    then show ?thesis
      unfolding decode_rune_def m e
      using x d(4,5) lead2 [of "0xC0 + x"] by (simp add: length_encode [OF r] e) (simp add: d(3))
  next
    case 3
    then obtain lo hi where l: "lead_info (0xE0 + r div 4096) = Some (3, lo, hi)"
      "lo \<le> 0x80 + r div 64 mod 64" "0x80 + r div 64 mod 64 \<le> hi" using lead3 [OF _ _ r] by blast
    obtain x y z where d: "r div 4096 = x" "r div 64 mod 64 = y" "r mod 64 = z" "r = 4096 * x + 64 * y + z"
      "0 \<le> y" "y < 64" "0 \<le> z" "z < 64" by (rule three_digits)
    have x: "0 \<le> x" "x < 16" using 3 d(4-8) by linarith+
    have e: "encode_scalar r = [0xE0 + x, 0x80 + y, 0x80 + z]" using 3 by (simp add: encode_scalar_def d(1-3))
    have "(0xE0 + x) mod 16 = x" "(0x80 + y) mod 64 = y" "(0x80 + z) mod 64 = z"
      using x d(5-8) by (simp_all add: mod_add_eq [symmetric, of 224] mod_add_eq [symmetric, of 128] del: mod_add_eq)
    then show ?thesis
      unfolding decode_rune_def m e
      using x d(5-8) l [unfolded d(1,2)]
      by (simp add: length_encode [OF r] e cont_byte_def) (simp add: d(4))
  next
    case 4
    then obtain lo hi where l: "lead_info (0xF0 + r div 262144) = Some (4, lo, hi)"
      "lo \<le> 0x80 + r div 4096 mod 64" "0x80 + r div 4096 mod 64 \<le> hi" using lead4 [OF _ r] by blast
    obtain w x y z where d: "r div 262144 = w" "r div 4096 mod 64 = x" "r div 64 mod 64 = y" "r mod 64 = z"
      "r = 262144 * w + 4096 * x + 64 * y + z" "0 \<le> x" "x < 64" "0 \<le> y" "y < 64" "0 \<le> z" "z < 64"
      by (rule four_digits)
    have w: "0 \<le> w" "w < 8" using 4 r [unfolded scalar_def] d(5-11) by linarith+
    have e: "encode_scalar r = [0xF0 + w, 0x80 + x, 0x80 + y, 0x80 + z]" using 4 by (simp add: encode_scalar_def d(1-4))
    have "(0xF0 + w) mod 8 = w" "(0x80 + x) mod 64 = x" "(0x80 + y) mod 64 = y" "(0x80 + z) mod 64 = z"
      using w d(6-11) by (simp_all add: mod_add_eq [symmetric, of 240] mod_add_eq [symmetric, of 128] del: mod_add_eq)
    then show ?thesis
      unfolding decode_rune_def m e
      using w d(6-11) l [unfolded d(1,2)]
      by (simp add: length_encode [OF r] e cont_byte_def) (simp add: d(5))
  qed
qed

text \<open>What a lead byte and the bytes behind it contribute.\<close>

lemma mod_offset: "k * m \<le> (b::int) \<Longrightarrow> b < k * m + m \<Longrightarrow> b mod m = b - k * m"
  by (metis (no_types) add_diff_cancel_left' diff_add_cancel diff_ge_0_iff_ge less_diff_eq mod_mult_self3 mod_pos_pos_trivial
      add.commute)

lemma payload_bits:
  "0x80 \<le> b \<Longrightarrow> b \<le> 0xBF \<Longrightarrow> b mod 64 = b - 0x80" "0xC0 \<le> b \<Longrightarrow> b \<le> 0xDF \<Longrightarrow> b mod 32 = b - 0xC0"
  "0xE0 \<le> b \<Longrightarrow> b \<le> 0xEF \<Longrightarrow> b mod 16 = b - 0xE0" "0xF0 \<le> b \<Longrightarrow> b \<le> 0xF7 \<Longrightarrow> b mod 8 = b - (0xF0 :: int)"
  using mod_offset [of 2 64 b] mod_offset [of 6 32 b] mod_offset [of 14 16 b] mod_offset [of 30 8 b] by simp_all

lemma lead_info_cases:
  assumes "lead_info b = Some (n, lo, hi)"
  shows "n = 2 \<and> 0xC2 \<le> b \<and> b \<le> 0xDF \<and> lo = 0x80 \<and> hi = 0xBF \<or>
    n = 3 \<and> 0xE0 \<le> b \<and> b \<le> 0xEF \<and> (b = 0xE0 \<longrightarrow> lo = 0xA0) \<and> 0x80 \<le> lo \<and> hi \<le> 0xBF \<and> (b = 0xED \<longrightarrow> hi = 0x9F) \<or>
    n = 4 \<and> 0xF0 \<le> b \<and> b \<le> 0xF4 \<and> (b = 0xF0 \<longrightarrow> lo = 0x90) \<and> 0x80 \<le> lo \<and> hi \<le> 0xBF \<and> (b = 0xF4 \<longrightarrow> hi = 0x8F)"
  using assms by (auto simp: lead_info_def split: if_splits)

lemma decode_scalar: "scalar (fst (decode_rune s))"
proof (cases "map uint s")
  case Nil
  then show ?thesis by (simp add: decode_rune_def RuneError_def scalar_def)
next
  case (Cons b0 bs)
  have pos: "0 \<le> b0" using Cons by (cases s) auto
  show ?thesis
  proof (cases "b0 < 0x80 \<or> lead_info b0 = None")
    case True
    then show ?thesis
      unfolding decode_rune_def Cons list.case using pos by (auto simp: RuneError_def scalar_def)
  next
    case False
    then obtain n lo hi where l: "lead_info b0 = Some (n, lo, hi)" by auto
    define b1 b2 b3 where "b1 = bs ! 0" "b2 = bs ! 1" "b3 = bs ! 2"
    note b = b1_b2_b3_def [symmetric]
    from lead_info_cases [OF l] consider
      (two) "n = 2" "0xC2 \<le> b0" "b0 \<le> 0xDF" "lo = 0x80" "hi = 0xBF"
    | (three) "n = 3" "0xE0 \<le> b0" "b0 \<le> 0xEF" "0x80 \<le> lo" "hi \<le> 0xBF" "b0 = 0xED \<longrightarrow> hi = 0x9F"
    | (four) "n = 4" "0xF0 \<le> b0" "b0 \<le> 0xF4" "0x80 \<le> lo" "hi \<le> 0xBF" "b0 = 0xF0 \<longrightarrow> lo = 0x90"
        "b0 = 0xF4 \<longrightarrow> hi = 0x8F" by blast
    then show ?thesis
    proof cases
      case two
      then show ?thesis
        unfolding decode_rune_def Cons list.case b using False l
        by (auto simp: RuneError_def scalar_def payload_bits)
    next
      case three
      then consider "b0 = 0xED" "hi = 0x9F" | "b0 \<le> 0xEC" | "0xEE \<le> b0" by linarith
      then show ?thesis
        unfolding decode_rune_def Cons list.case b using False l three(1-5)
        by cases (auto simp: RuneError_def scalar_def payload_bits cont_byte_def)
    next
      case four
      then consider "b0 = 0xF0" "lo = 0x90" | "b0 = 0xF4" "hi = 0x8F" | "0xF1 \<le> b0" "b0 \<le> 0xF3" by linarith
      then show ?thesis
        unfolding decode_rune_def Cons list.case b using False l four(1-5)
        by cases (auto simp: RuneError_def scalar_def payload_bits cont_byte_def)
    qed
  qed
qed

section \<open>Round trips\<close>

lemma runes_of_Nil [simp]: "runes_of [] = []" "ValidString []"
  by (simp_all add: runes_of.simps ValidString.simps)

lemma runes_of_scalar: "\<forall>r \<in> set (runes_of s). scalar r"
proof (induction s rule: runes_of.induct)
  case (1 s)
  show ?case
  proof (cases "s = []")
    case False
    obtain r n where d: "decode_rune s = (r, n)" by fastforce
    have "runes_of s = r # runes_of (drop n s)" using False d by (subst runes_of.simps) simp
    then show ?thesis using 1 [OF False d [symmetric]] decode_scalar [of s] d by simp
  qed simp
qed

lemma encode_nonempty: "encode_rune r \<noteq> []"
  by (simp add: encode_rune_def encode_scalar_def)

lemma string_of_runes_Cons: "string_of_runes (r # rs) = encode_rune r @ string_of_runes rs"
  by (simp add: string_of_runes_def)

lemma encode_not_error:
  assumes "scalar r"
  shows "\<not> (r = RuneError \<and> length (encode_rune r) = 1)"
  using assms by (auto simp: length_encode) (simp add: RuneError_def encode_scalar_def)

lemma runes_string:
  assumes "\<forall>r \<in> set rs. scalar r"
  shows "runes_of (string_of_runes rs) = rs \<and> ValidString (string_of_runes rs)"
  using assms
proof (induction rs)
  case (Cons r rs)
  let ?s = "string_of_runes (r # rs)"
  have ne: "?s \<noteq> []" by (simp add: string_of_runes_Cons encode_nonempty)
  have d: "decode_rune ?s = (r, length (encode_rune r))"
    using Cons.prems by (simp add: string_of_runes_Cons decode_encode)
  have rest: "drop (length (encode_rune r)) ?s = string_of_runes rs" by (simp add: string_of_runes_Cons)
  have "runes_of ?s = r # runes_of (string_of_runes rs)"
    using ne by (subst runes_of.simps) (simp add: d rest)
  moreover have "ValidString ?s = ValidString (string_of_runes rs)"
    using ne encode_not_error [of r] Cons.prems by (subst ValidString.simps) (simp add: d rest)
  ultimately show ?case using Cons by simp
qed (simp add: string_of_runes_def)

text \<open>Every rune takes at least one byte.\<close>

lemma length_runes_of: "length (runes_of s) \<le> length s"
proof (induction s rule: runes_of.induct)
  case (1 s)
  show ?case
  proof (cases "s = []")
    case False
    obtain r n where d: "decode_rune s = (r, n)" by fastforce
    have "runes_of s = r # runes_of (drop n s)" using False d by (subst runes_of.simps) simp
    then show ?thesis using 1 [OF False d [symmetric]] decode_rune_size [OF d False] by simp linarith
  qed simp
qed

end
