(* ===== verification/VT_Serialize.thy ===== *)
theory VT_Serialize
  imports VT_Style VT_Feed Go_Runes
begin

text \<open>
  The serializer of the terminal emulator, which turns a screen with its history into a text with escape
  sequences that redraws it: \<^verbatim>\<open>vt/serialize_handler.go\<close>, \<^verbatim>\<open>vt/serialize_history.go\<close>,
  \<^verbatim>\<open>vt/serialize_vt.go\<close>, \<^verbatim>\<open>vt/serialize_options.go\<close>, and the readers of
  \<^verbatim>\<open>vt/vt_api.go\<close> and \<^verbatim>\<open>vt/vt_snapshot.go\<close>.

  The handler is a record with the fields of the struct; the terminal it refers to is an argument. The
  argument \<open>oldCell\<close> of \<open>nextCell\<close> and the argument \<open>currentWrapped\<close> of \<open>rowEndWithWrap\<close> are never read and left
  out. Serialized texts are byte lists, plain texts are rune lists as everywhere in the terminal. \<open>None\<close> is
  a panic.
\<close>

section \<open>The handler\<close>

record serialize_handler =
  allRows :: "bytes list"
  allRowSeparators :: "bytes list"
  currentRow :: bytes
  rowIndex :: int
  nullCellCount :: int
  cursorStyle :: cell
  cursorStyleRow :: int
  cursorStyleCol :: int
  backgroundCell :: cell
  firstRow :: int
  lastCursorRow :: int
  lastCursorCol :: int
  lastContentCursorRow :: int
  lastContentCursorCol :: int

definition newStringSerializeHandler :: serialize_handler where
  "newStringSerializeHandler =
     \<lparr>allRows = [], allRowSeparators = [], currentRow = [], rowIndex = 0, nullCellCount = 0,
      cursorStyle = NewCell 0x20, cursorStyleRow = 0, cursorStyleCol = 0, backgroundCell = NewCell 0x20,
      firstRow = 0, lastCursorRow = 0, lastCursorCol = 0, lastContentCursorRow = 0,
      lastContentCursorCol = 0\<rparr>"

text \<open>\<open>fmt.Sprintf("%d", n)\<close> of an int, and the sequence \<open>ESC [ n cmd\<close>.\<close>

definition fmt_d :: "int \<Rightarrow> bytes" where
  "fmt_d n = (if n < 0 then 0x2D # itoa (nat (- n)) else itoa (nat n))"

definition csi_n :: "int \<Rightarrow> byte \<Rightarrow> bytes" where
  "csi_n n cmd = [0x1B, 0x5B] @ fmt_d n @ [cmd]"

definition emit :: "bytes \<Rightarrow> serialize_handler \<Rightarrow> serialize_handler" where
  "emit s h = h\<lparr>currentRow := currentRow h @ s\<rparr>"

text \<open>The pending empty cells: erased when they have a background, then skipped.\<close>

definition flush_nulls :: "serialize_handler \<Rightarrow> serialize_handler" where
  "flush_nulls h =
     (if nullCellCount h > 0 then
        (emit ((if \<not> color_Equals (Bg (cursorStyle h)) (Bg (backgroundCell h))
                then csi_n (nullCellCount h) 0x58 else []) @ csi_n (nullCellCount h) 0x43) h)\<lparr>nullCellCount := 0\<rparr>
      else h)"

definition change_style :: "cell \<Rightarrow> bytes list \<Rightarrow> int \<Rightarrow> int \<Rightarrow> serialize_handler \<Rightarrow> serialize_handler" where
  "change_style cell sgrSeq row col h =
     (let h = (flush_nulls h)\<lparr>lastContentCursorRow := row, lastContentCursorCol := col,
                lastCursorRow := row, lastCursorCol := col\<rparr>;
          h = (if sgrSeq \<noteq> [] then emit ([0x1B, 0x5B] @ sgr_text sgrSeq) h else h)
      in h\<lparr>cursorStyle := cell, cursorStyleRow := row, cursorStyleCol := col\<rparr>)"

definition nextCell :: "cell \<Rightarrow> int \<Rightarrow> int \<Rightarrow> serialize_handler \<Rightarrow> serialize_handler" where
  "nextCell cell row col h =
     (if GetWidth cell = 0 then h
      else let isEmptyCell = (Ch cell = 0x20 \<or> Ch cell = 0);
               sgrSeq = diffStyle cell (cursorStyle h);
               styleChanged = (if isEmptyCell then \<not> color_Equals (Bg cell) (Bg (cursorStyle h))
                               else sgrSeq \<noteq> []);
               h = (if styleChanged then change_style cell sgrSeq row col h else h);
               width = uint (if GetWidth cell = 0 then 1 else GetWidth cell)
           in if isEmptyCell then h\<lparr>nullCellCount := nullCellCount h + width\<rparr>
              else (emit (encode_rune (if Ch cell \<noteq> 0 then Ch cell else 0x20)) (flush_nulls h))
                     \<lparr>lastContentCursorRow := row, lastContentCursorCol := col + width,
                      lastCursorRow := row, lastCursorCol := col + width\<rparr>)"

text \<open>The loop over the cells of a row.\<close>

fun row_cells :: "int \<Rightarrow> int \<Rightarrow> cell list \<Rightarrow> serialize_handler \<Rightarrow> serialize_handler" where
  "row_cells row col [] h = h"
| "row_cells row col (c # cs) h = row_cells row (col + 1) cs (nextCell c row col h)"

section \<open>Ends of rows\<close>

definition rowEndScreenOnly ::
  "int \<Rightarrow> bool \<Rightarrow> bool \<Rightarrow> serialize_handler \<Rightarrow> serialize_handler option" where
  "rowEndScreenOnly row isLastRow nextLineWrapped h =
     (let h = (if nullCellCount h > 0 \<and> \<not> color_Equals (Bg (cursorStyle h)) (Bg (backgroundCell h))
               then emit (csi_n (nullCellCount h) 0x58) h else h);
          rowSeparator = (if \<not> isLastRow \<and> \<not> nextLineWrapped then [0x0D, 0x0A] else []);
          h = (if isLastRow then h
               else if \<not> nextLineWrapped then h\<lparr>lastCursorRow := row + 1, lastCursorCol := 0\<rparr>
               else h\<lparr>lastContentCursorRow := row + 1, lastContentCursorCol := 0,
                      lastCursorRow := row + 1, lastCursorCol := 0\<rparr>)
      in do {
        rs \<leftarrow> go_set (allRows h) (rowIndex h) (currentRow h);
        seps \<leftarrow> go_set (allRowSeparators h) (rowIndex h) rowSeparator;
        Some (h\<lparr>allRows := rs, allRowSeparators := seps, rowIndex := rowIndex h + 1,
                currentRow := [], nullCellCount := 0\<rparr>)
      })"

definition isLineWrappedNoLock :: "int \<Rightarrow> vt \<Rightarrow> bool" where
  "isLineWrappedNoLock row vt =
     (if row < 0 \<or> int (length (isWrapped vt)) \<le> row then False else isWrapped vt ! nat row)"

definition rowEnd :: "vt \<Rightarrow> int \<Rightarrow> bool \<Rightarrow> serialize_handler \<Rightarrow> serialize_handler option" where
  "rowEnd vt row isLastRow h = rowEndScreenOnly row isLastRow (isLineWrappedNoLock (row + 1) vt) h"

text \<open>The flag of a row of the history or of the screen; a row beyond both is not wrapped.\<close>

definition wrap_flag :: "vt \<Rightarrow> int \<Rightarrow> bool option" where
  "wrap_flag vt row =
     (let historyLen = int (length (historyStyled vt))
      in if row < historyLen then go_get (historyIsWrapped vt) row
         else if 0 \<le> row - historyLen \<and> row - historyLen < rows vt then go_get (isWrapped vt) (row - historyLen)
         else Some False)"

definition rowEndWithWrap ::
  "vt \<Rightarrow> int \<Rightarrow> bool \<Rightarrow> bool \<Rightarrow> serialize_handler \<Rightarrow> serialize_handler option" where
  "rowEndWithWrap vt row isLastRow hasNextRow h =
     (if \<not> isLastRow \<and> hasNextRow then do {
        nextLineWrapped \<leftarrow> wrap_flag vt (row + 1);
        rowEndScreenOnly row False nextLineWrapped h }
      else rowEndScreenOnly row True False h)"

section \<open>Whole ranges of rows\<close>

definition start_rows :: "int \<Rightarrow> int \<Rightarrow> serialize_handler \<Rightarrow> serialize_handler option" where
  "start_rows startRow endRow h =
     (let rowCount = endRow - startRow + 1
      in if rowCount < 0 then None
         else Some (h\<lparr>allRows := replicate (nat rowCount) [], allRowSeparators := replicate (nat rowCount) [],
                firstRow := startRow, lastContentCursorRow := startRow, lastCursorRow := startRow,
                lastCursorCol := 0, lastContentCursorCol := 0, rowIndex := 0\<rparr>))"

text \<open>
  \<open>serializeStringForHistory\<close>, which \<open>serializeString\<close> and \<open>serializeStringScreenOnly\<close> repeat: trailing rows without content are
  left out when the range is not larger than the screen.
\<close>

definition restore_style :: "vt \<Rightarrow> serialize_handler \<Rightarrow> bytes" where
  "restore_style vt h =
     (let curCell = NewFullStyledCell 0x20 (currentFg vt) (currentBg vt) (currentAttrs vt) 1
            (currentUnderlineStyle vt) (currentUnderlineColor vt);
          sgrSeq = diffStyle curCell (cursorStyle h)
      in if sgrSeq \<noteq> [] then [0x1B, 0x5B] @ sgr_text sgrSeq else [])"

definition row_limit :: "vt \<Rightarrow> int \<Rightarrow> int \<Rightarrow> serialize_handler \<Rightarrow> int" where
  "row_limit vt startRow endRow h =
     (if endRow - startRow + 1 \<le> rows vt then
        let rowEnd = lastContentCursorRow h + 1 - firstRow h;
            rowEnd = (if rowEnd < 0 then 0 else rowEnd)
        in (if rowEnd > int (length (allRows h)) then int (length (allRows h)) else rowEnd)
      else int (length (allRows h)))"

text \<open>\<open>for i := 0; i < rowEnd; i++\<close>, with the separator before every row but the first.\<close>

fun join_rows :: "bytes list \<Rightarrow> bytes list \<Rightarrow> bytes" where
  "join_rows (r # r' # rs) (s # ss) = r @ s @ join_rows (r' # rs) ss"
| "join_rows (r # r' # rs) [] = r @ join_rows (r' # rs) []"
| "join_rows [r] ss = r"
| "join_rows [] ss = []"

definition serializeStringForHistory ::
  "vt \<Rightarrow> int \<Rightarrow> int \<Rightarrow> bool \<Rightarrow> serialize_handler \<Rightarrow> bytes" where
  "serializeStringForHistory vt startRow endRow excludeFinalCursorPosition h =
     (let n = nat (row_limit vt startRow endRow h)
      in join_rows (take n (allRows h)) (allRowSeparators h) @
         (if \<not> excludeFinalCursorPosition
          then [0x1B, 0x5B] @ fmt_d (cursorY vt + 1) @ [semicolon] @ fmt_d (cursorX vt + 1) @ [0x48] else []) @
         restore_style vt h)"

definition getCellsRowNoLock :: "int \<Rightarrow> vt \<Rightarrow> cell list" where
  "getCellsRowNoLock row vt =
     (if row < 0 \<or> int (length (cells vt)) \<le> row then [] else cells vt ! nat row)"

definition serialize :: "vt \<Rightarrow> int \<Rightarrow> int \<Rightarrow> bool \<Rightarrow> bytes option" where
  "serialize vt startRow endRow excludeFinalCursorPosition = do {
     h \<leftarrow> start_rows startRow endRow newStringSerializeHandler;
     h \<leftarrow> for_up startRow (endRow + 1) (\<lambda>row h.
       rowEnd vt row (row = endRow)
         (row_cells row 0 (getCellsRowNoLock row vt) (h\<lparr>currentRow := [], nullCellCount := 0\<rparr>))) h;
     Some (serializeStringForHistory vt startRow endRow excludeFinalCursorPosition h)
   }"

definition serializeScreenNoLock :: "vt \<Rightarrow> int \<Rightarrow> int \<Rightarrow> bool \<Rightarrow> bytes option" where
  "serializeScreenNoLock vt startRow endRow excludeFinalCursorPosition = do {
     h \<leftarrow> start_rows startRow endRow newStringSerializeHandler;
     h \<leftarrow> for_up startRow (endRow + 1) (\<lambda>row h. do {
       cs \<leftarrow> go_get (cells vt) row;
       let h = row_cells row 0 cs (h\<lparr>currentRow := [], nullCellCount := 0\<rparr>);
       w \<leftarrow> (if row \<noteq> endRow \<and> row + 1 < rows vt then go_get (isWrapped vt) (row + 1) else Some False);
       rowEndScreenOnly row (row = endRow) w h }) h;
     Some (serializeStringForHistory vt startRow endRow excludeFinalCursorPosition h)
   }"

text \<open>One row of the history or of the screen, with its wrap flag; nothing beyond both.\<close>

definition buffer_row :: "vt \<Rightarrow> int \<Rightarrow> int \<Rightarrow> (cell list \<times> bool) option" where
  "buffer_row vt historyLen row =
     (if row < historyLen then do {
        cs \<leftarrow> go_get (historyStyled vt) row;
        w \<leftarrow> go_get (historyIsWrapped vt) row;
        Some (cs, w) }
      else if 0 \<le> row - historyLen \<and> row - historyLen < rows vt then do {
        cs \<leftarrow> go_get (cells vt) (row - historyLen);
        w \<leftarrow> go_get (isWrapped vt) (row - historyLen);
        Some (cs, w) }
      else Some ([], False))"

definition history_row :: "vt \<Rightarrow> int \<Rightarrow> int \<Rightarrow> int \<Rightarrow> serialize_handler \<Rightarrow> serialize_handler option" where
  "history_row vt historyLen endRow row h = do {
     (cs, _) \<leftarrow> buffer_row vt historyLen row;
     rowEndWithWrap vt row (row = endRow)
       (row + 1 < historyLen \<or> (row + 1 \<ge> historyLen \<and> row + 1 - historyLen < rows vt))
       (row_cells row 0 cs (h\<lparr>currentRow := [], nullCellCount := 0\<rparr>))
   }"

definition serializeWithHistory :: "vt \<Rightarrow> int \<Rightarrow> int \<Rightarrow> int \<Rightarrow> bool \<Rightarrow> bytes option" where
  "serializeWithHistory vt startRow endRow historyLen excludeFinalCursorPosition = do {
     h \<leftarrow> start_rows startRow endRow newStringSerializeHandler;
     h \<leftarrow> for_up startRow (endRow + 1) (history_row vt historyLen endRow) h;
     Some (serializeStringForHistory vt startRow endRow excludeFinalCursorPosition h)
   }"

section \<open>Serialize and snapshots\<close>

record serialize_options =
  ScrollbackLines :: int
  ExcludeAltBuffer :: bool
  ExcludeModes :: bool
  opt_Range :: "(int \<times> int) option"

definition DefaultSerializeOptions :: serialize_options where
  "DefaultSerializeOptions =
     \<lparr>ScrollbackLines = 1000, ExcludeAltBuffer = False, ExcludeModes = True, opt_Range = None\<rparr>"

text \<open>The first and the last row, counted from the start of the history.\<close>

definition row_range :: "serialize_options \<Rightarrow> vt \<Rightarrow> int \<times> int" where
  "row_range opts vt =
     (let historyLen = int (length (historyStyled vt)); totalRows = historyLen + rows vt
      in case opt_Range opts of
           Some (s, e) \<Rightarrow> (if s < 0 then 0 else s, if e \<ge> totalRows then totalRows - 1 else e)
         | None \<Rightarrow>
             (if ScrollbackLines opts > 0 \<and> historyLen > ScrollbackLines opts
              then historyLen - ScrollbackLines opts else 0, totalRows - 1))"

definition serializeNoLock :: "serialize_options \<Rightarrow> vt \<Rightarrow> bytes option" where
  "serializeNoLock opts vt =
     (if \<not> hasData vt then Some []
      else let (startRow, endRow) = row_range opts vt
           in if startRow > endRow then Some []
              else serializeWithHistory vt startRow endRow (int (length (historyStyled vt))) False)"

text \<open>\<open>Serialize\<close> does the same under the lock.\<close>

definition Serialize :: "serialize_options \<Rightarrow> vt \<Rightarrow> bytes option" where
  "Serialize opts vt = serializeNoLock opts vt"

definition SerializeSimple :: "int \<Rightarrow> vt \<Rightarrow> rune list option" where
  "SerializeSimple scrollbackLines vt =
     (if \<not> hasData vt then Some []
      else let historyStart = (if scrollbackLines > 0 \<and> int (length (history vt)) > scrollbackLines
                               then int (length (history vt)) - scrollbackLines else 0);
               buf = concat (map (\<lambda>l. l @ [0x0D, 0x0A]) (drop (nat historyStart) (history vt)))
           in for_up 0 (rows vt) (\<lambda>row buf. do {
                r \<leftarrow> go_get (screen vt) row;
                Some (buf @ TrimRight r @ (if row < rows vt - 1 then [0x0D, 0x0A] else [])) }) buf)"

record vt_snapshot =
  snap_Cols :: int
  snap_Rows :: int
  snap_Lines :: "rune list list"
  SerializedContent :: bytes
  snap_CursorX :: int
  snap_CursorY :: int
  CursorVisible :: bool
  snap_IsAltScreen :: bool

definition getSnapshotLocked :: "vt \<Rightarrow> vt_snapshot option" where
  "getSnapshotLocked vt = do {
     serialized \<leftarrow> (if hasData vt then serializeNoLock
        \<lparr>ScrollbackLines = 0, ExcludeAltBuffer = False, ExcludeModes = True, opt_Range = None\<rparr> vt else Some []);
     Some \<lparr>snap_Cols = cols vt, snap_Rows = rows vt, snap_Lines = getLinesLocked vt, SerializedContent = serialized,
       snap_CursorX = cursorX vt, snap_CursorY = cursorY vt, CursorVisible = True,
       snap_IsAltScreen = useAltScreen vt\<rparr>
   }"

definition GetSnapshot :: "vt \<Rightarrow> vt_snapshot option" where
  "GetSnapshot vt = getSnapshotLocked vt"

text \<open>The two polling functions return nothing while \<open>Feed\<close> holds the lock.\<close>

definition TryGetSnapshot :: "bool \<Rightarrow> vt \<Rightarrow> vt_snapshot option option" where
  "TryGetSnapshot locked vt = (if locked then Some None else map_option Some (getSnapshotLocked vt))"

definition TryGetLines :: "bool \<Rightarrow> vt \<Rightarrow> rune list list option" where
  "TryGetLines locked vt = (if locked then None else Some (getLinesLocked vt))"

definition serializeScreenOnly :: "vt \<Rightarrow> bytes option" where
  "serializeScreenOnly vt =
     (if \<not> (\<exists>r \<in> set (take (nat (rows vt)) (screen vt)). \<exists>ch \<in> set r. ch \<noteq> 0 \<and> ch \<noteq> 0x20) then Some []
      else serializeScreenNoLock vt 0 (rows vt - 1) False)"

section \<open>Reading the screen\<close>

definition display_line :: "vt \<Rightarrow> int \<Rightarrow> rune list option" where
  "display_line vt row = do {
     chs \<leftarrow> go_get (screen vt) row;
     (if chs = [] then Some []
      else do {
        cs \<leftarrow> go_get (cells vt) row;
        t \<leftarrow> row_text chs cs;
        Some (TrimRight t) })
   }"

definition display_lines :: "vt \<Rightarrow> rune list list option" where
  "display_lines vt = for_up 0 (int (length (screen vt))) (\<lambda>row ls. do {
     l \<leftarrow> display_line vt row;
     Some (ls @ [l]) }) []"

definition GetDisplay :: "vt \<Rightarrow> rune list option" where
  "GetDisplay vt =
     (if \<not> hasData vt then Some []
      else do {
        ls \<leftarrow> display_lines vt;
        Some (join_with 0x0A (rev (dropWhile (\<lambda>l. l = []) (rev ls)))) })"

definition GetScreenSnapshot :: "vt \<Rightarrow> rune list option" where
  "GetScreenSnapshot vt = GetDisplay vt"

definition GetOutput :: "int \<Rightarrow> vt \<Rightarrow> rune list option" where
  "GetOutput n vt =
     (if \<not> hasData vt then Some []
      else do {
        ls \<leftarrow> display_lines vt;
        let result = history vt @ filter (\<lambda>l. l \<noteq> []) ls;
        result \<leftarrow> (if int (length result) > n
                   then (if n < 0 then None else Some (drop (nat (int (length result) - n)) result))
                   else Some result);
        Some (join_with 0x0A result) })"

definition vt_IsEmpty :: "vt \<Rightarrow> bool option" where
  "vt_IsEmpty vt =
     (if history vt \<noteq> [] then Some False
      else for_up 0 (rows vt) (\<lambda>y. for_up 0 (cols vt) (\<lambda>x empty.
        if \<not> empty then Some False
        else do {
          r \<leftarrow> go_get (screen vt) y;
          ch \<leftarrow> go_get r x;
          Some (ch = 0 \<or> ch = 0x20) })) True)"

definition CursorPosition :: "vt \<Rightarrow> int \<times> int" where
  "CursorPosition vt = (cursorY vt, cursorX vt)"

definition GetHistoryStyledRow :: "int \<Rightarrow> vt \<Rightarrow> cell list option" where
  "GetHistoryStyledRow index vt =
     (if index < 0 \<or> int (length (historyStyled vt)) \<le> index then None else Some (historyStyled vt ! nat index))"

definition IsHistoryLineWrapped :: "int \<Rightarrow> vt \<Rightarrow> bool" where
  "IsHistoryLineWrapped index vt =
     (if index < 0 \<or> int (length (historyIsWrapped vt)) \<le> index then False else historyIsWrapped vt ! nat index)"

text \<open>
  \<open>StripANSI\<close>: the length of a match of the pattern at the start of the text. Each of its three alternatives
  has only one way to match, so the longest match is the first one.
\<close>

definition is_letter :: "byte \<Rightarrow> bool" where
  "is_letter b \<longleftrightarrow> 0x41 \<le> b \<and> b \<le> 0x5A \<or> 0x61 \<le> b \<and> b \<le> 0x7A"

definition ansi_match :: "bytes \<Rightarrow> nat option" where
  "ansi_match s =
     (case s of
        e # b # rest \<Rightarrow>
          if e \<noteq> 0x1B then None
          else if b = 0x5B then
            let p = (if rest \<noteq> [] \<and> hd rest \<in> {0x3F, 0x3E, 0x3D} then 1 else 0);
                k = length (takeWhile (\<lambda>b. is_digit b \<or> b = semicolon) (drop p rest))
            in if p + k < length rest \<and> is_letter (rest ! (p + k)) then Some (3 + p + k) else None
          else if b = 0x5D then
            let k = length (takeWhile (\<lambda>b. b \<noteq> 0x07) rest)
            in if k < length rest then Some (3 + k) else None
          else if b \<in> {0x50, 0x58, 0x5E, 0x5F} then
            let k = length (takeWhile (\<lambda>b. b \<noteq> 0x1B) rest)
            in if k + 1 < length rest \<and> rest ! (k + 1) = 0x5C then Some (4 + k) else None
          else None
      | _ \<Rightarrow> None)"

function StripANSI :: "bytes \<Rightarrow> bytes" where
  "StripANSI s =
     (case s of
        [] \<Rightarrow> []
      | b # rest \<Rightarrow>
          (case ansi_match s of
             None \<Rightarrow> b # StripANSI rest
           | Some n \<Rightarrow> StripANSI (drop (max n 1) s)))"
  by pat_completeness auto
termination
  by (relation "measure length") auto

declare StripANSI.simps [simp del]

definition StripANSIBytes :: "bytes \<Rightarrow> bytes" where
  "StripANSIBytes data = remove_all [0x1B] (remove_all [0x1B, 0x5B] data)"

end
