(* ===== verification/VT_Redraw.thy ===== *)
theory VT_Redraw
  imports VT_Serialize
begin

text \<open>
  Redrawing a screen from its serialization. \<open>feeds\<close> says what a complete piece of input does to a terminal,
  whatever follows it; pieces compose. \<open>reader\<close> describes a terminal that has drawn some rows and the
  beginning of the next one on a fresh screen; printing, skipping, erasing, style changes and line ends are
  its transitions.
\<close>

unbundle bit_operations_syntax

section \<open>Pieces of input\<close>

definition feeds :: "(rune \<Rightarrow> int) \<Rightarrow> bytes \<Rightarrow> vt \<Rightarrow> vt \<Rightarrow> bool" where
  "feeds rw s v v' \<longleftrightarrow> (\<forall>rest. feed_loop rw (s @ rest) v = feed_loop rw rest v')"

lemma feeds_Nil [simp]: "feeds rw [] v v"
  by (simp add: feeds_def)

lemma feeds_append: "feeds rw a v v' \<Longrightarrow> feeds rw b v' v'' \<Longrightarrow> feeds rw (a @ b) v v''"
  by (simp add: feeds_def)

lemma feeds_whole: "feeds rw s v v' \<Longrightarrow> feed_loop rw s v = Some v'"
  unfolding feeds_def by (metis append_Nil2 feed_loop.simps)

lemma feeds_byte:
  assumes "b < 0x80" "processByte rw b v = Some v'"
  shows "feeds rw [b] v v'"
  unfolding feeds_def using assms by (subst feed_loop.simps) (simp add: feed_step_ascii)

lemma feeds_rune:
  assumes "escState v = stateNormal" "scalar ch" "0x20 \<le> ch" "ch \<noteq> 0x7F" "processChar rw ch v = Some v'"
  shows "feeds rw (encode_rune ch) v v'"
  unfolding feeds_def
proof
  fix rest
  let ?s = "encode_rune ch @ rest"
  have ne: "?s \<noteq> []" by (simp add: encode_nonempty)
  have d: "decode_rune ?s = (ch, length (encode_rune ch))" using assms(2) by (rule decode_encode)
  obtain b bs where s: "?s = b # bs" using ne by (cases ?s) auto
  have "feed_step rw ?s v = Some (v', length (encode_rune ch))"
  proof (cases "b < 0x80")
    case True
    then have "decode_rune ?s = (uint b, 1)" using ascii_decode(1) s by simp
    with d have "(ch, length (encode_rune ch)) = (uint b, 1)" by (rule trans [OF sym])
    then have b: "uint b = ch" "length (encode_rune ch) = 1" by auto
    have "processByte rw b v = Some v'"
      using b assms True by (auto simp: processByte_def)
    then show ?thesis using feed_step_ascii [OF True] s b by simp
  next
    case False
    then have "\<not> (b = 0x1B \<or> b < 0x20 \<or> b = 0x7F)"
      by (auto simp: word_less_def word_le_def)
    then show ?thesis
      using assms d s encode_not_error [OF assms(2)] by (auto simp: feed_step_def Let_def)
  qed
  then show "feed_loop rw ?s v = feed_loop rw rest v'"
    by (subst feed_loop.simps) (simp add: encode_nonempty)
qed

section \<open>Control sequences\<close>

definition param_step :: "byte \<Rightarrow> int list \<Rightarrow> int list" where
  "param_step b ps = (if is_digit b then add_digit b ps else if b = semicolon then ps @ [0] else ps)"

lemma feeds_params:
  assumes "escState v = stateCSI" "\<forall>b \<in> set ps. param_byte b \<or> b = semicolon"
  shows "feeds rw ps v (v\<lparr>escRawSeq := escRawSeq v @ ps, escParams := fold param_step ps (escParams v)\<rparr>)"
  using assms
proof (induction ps arbitrary: v)
  case (Cons b ps)
  let ?v = "v\<lparr>escRawSeq := escRawSeq v @ [b], escParams := param_step b (escParams v)\<rparr>"
  have b: "param_byte b \<or> b = semicolon" using Cons.prems by simp
  then have "b < 0x80"
    by (auto simp: param_byte_def is_digit_def semicolon_def colon_def word_less_def word_le_def)
  moreover have "processByte rw b v = Some ?v"
    using b Cons.prems(1) by (auto simp: processByte_def processCSI_def param_step_def param_byte_def
        is_digit_def semicolon_def colon_def)
  ultimately have "feeds rw [b] v ?v" by (rule feeds_byte)
  from feeds_append [OF this Cons.IH [of ?v]] show ?case using Cons.prems by simp
qed simp

text \<open>\<open>ESC [ params cmd\<close>: the command runs with the parameters collected, then the parser is back to text.\<close>

lemma feeds_csi:
  assumes "escState v = stateNormal" "\<forall>b \<in> set ps. param_byte b \<or> b = semicolon"
    and "0x40 \<le> cmd" "cmd \<le> 0x7E"
    and "executeCSI cmd (v\<lparr>escBuffer := [], escPrivate := 0, escState := stateCSI,
        escParams := fold param_step ps [], escRawSeq := ps @ [cmd]\<rparr>) = Some v'"
  shows "feeds rw ([0x1B, 0x5B] @ ps @ [cmd]) v (v'\<lparr>escState := stateNormal\<rparr>)"
proof -
  let ?v1 = "v\<lparr>escState := stateEscape, escBuffer := [], escParams := [], escPrivate := 0, escRawSeq := []\<rparr>"
  let ?v2 = "?v1\<lparr>escState := stateCSI, escParams := []\<rparr>"
  let ?v3 = "?v2\<lparr>escRawSeq := escRawSeq ?v2 @ ps, escParams := fold param_step ps (escParams ?v2)\<rparr>"
  have "feeds rw [0x1B] v ?v1" by (rule feeds_byte) (simp_all add: processByte_def assms(1))
  moreover have "feeds rw [0x5B] ?v1 ?v2" by (rule feeds_byte) (simp_all add: processByte_def processEscapeByte_def)
  moreover have "feeds rw ps ?v2 ?v3" by (rule feeds_params) (use assms(2) in simp_all)
  moreover have "feeds rw [cmd] ?v3 (v'\<lparr>escState := stateNormal\<rparr>)"
  proof (rule feeds_byte)
    show "cmd < 0x80" using assms(4) by (simp add: word_less_def word_le_def)
    have "\<not> is_digit cmd" "cmd \<noteq> 0x3B" "cmd \<noteq> 0x3A" "cmd \<noteq> 0x3F"
      using assms(3) by (auto simp: is_digit_def word_le_def)
    then show "processByte rw cmd ?v3 = Some (v'\<lparr>escState := stateNormal\<rparr>)"
      using assms(3-5) by (simp add: processByte_def processCSI_def)
  qed
  ultimately have "feeds rw ([0x1B] @ [0x5B] @ ps @ [cmd]) v (v'\<lparr>escState := stateNormal\<rparr>)"
    by (meson feeds_append)
  then show ?thesis by simp
qed

lemma fold_digits:
  "list_all is_digit ds \<Longrightarrow>
     fold param_step ds (acc @ [k]) =
       acc @ [fold (\<lambda>c r. if is_digit c then wrap64 (r * 10 + uint (c - 0x30)) else r) ds k]"
  by (induction ds arbitrary: k) (simp_all add: param_step_def add_digit_def nth_append)

lemma fold_itoa:
  assumes "n < 2 ^ 63"
  shows "fold param_step (itoa n) (acc @ [0]) = acc @ [int n]" "fold param_step (itoa n) [] = [int n]"
proof -
  have d: "list_all is_digit (itoa n)" using itoa_is_digit by (auto simp: list_all_iff)
  from fold_digits [OF this, of acc 0] parse_itoa [OF assms]
  show "fold param_step (itoa n) (acc @ [0]) = acc @ [int n]" by (simp add: parseIntOrZero_def)
  have "fold param_step (itoa n) [] = fold param_step (itoa n) [0]"
    using d by (cases "itoa n") (simp_all add: param_step_def add_digit_def)
  then show "fold param_step (itoa n) [] = [int n]"
    using fold_digits [OF d, of "[]" 0] parse_itoa [OF assms] by (simp add: parseIntOrZero_def)
qed

section \<open>A terminal that draws rows\<close>

text \<open>The rows that are done, the row being drawn, and blank rows below.\<close>

definition page :: "int \<Rightarrow> int \<Rightarrow> cell list list \<Rightarrow> cell list \<Rightarrow> cell list list" where
  "page c r upper p = upper @ (p @ blank_cells (c - int (length p))) #
     replicate (nat (r - int (length upper) - 1)) (blank_cells c)"

definition reader :: "int \<Rightarrow> int \<Rightarrow> cell list list \<Rightarrow> cell list \<Rightarrow> vt \<Rightarrow> bool" where
  "reader c r upper p v \<longleftrightarrow>
     vt_wf v \<and> escState v = stateNormal \<and> cols v = c \<and> rows v = r \<and> cells v = page c r upper p \<and>
     cursorY v = int (length upper) \<and> cursorX v = int (length p)"

lemma readerD:
  assumes "reader c r upper p v"
  shows "vt_wf v" "escState v = stateNormal" "cols v = c" "rows v = r" "cells v = page c r upper p"
    "cursorY v = int (length upper)" "cursorX v = int (length p)" "int (length p) \<le> c" "int (length upper) < r"
    "0 < c" "c < 2 ^ 31" "r < 2 ^ 31" "grid_ok r c (screen v) (page c r upper p)"
  using assms by (auto simp: reader_def vt_wf_def body_wf_def)

lemma page_row: "page c r upper p ! length upper = p @ blank_cells (c - int (length p))"
  by (simp add: page_def)

lemma page_set_row: "(page c r upper p)[length upper := q @ blank_cells (c - int (length q))] = page c r upper q"
  by (simp add: page_def)

lemma blank_cells_Cons: "0 < n \<Longrightarrow> blank_cells n = NewCell 0x20 # blank_cells (n - 1)"
proof -
  assume "0 < n"
  then have "nat n = Suc (nat (n - 1))" by simp
  then show ?thesis by (simp add: blank_cells_def)
qed

lemma put_in_blank:
  "int (length p) < c \<Longrightarrow>
     (p @ blank_cells (c - int (length p)))[length p := d] = (p @ [d]) @ blank_cells (c - int (length (p @ [d])))"
  by (simp add: blank_cells_Cons diff_diff_eq ac_simps)

lemma blank_width [simp]: "Width (NewCell ch) = 1"
  by (simp add: NewCell_def)

lemma blank_nth: "length p \<le> i \<Longrightarrow> int i < c \<Longrightarrow> (p @ blank_cells (c - int (length p))) ! i = NewCell 0x20"
  by (auto simp: nth_append blank_cells_def)

lemma screen_of_cells: "vt_wf v \<Longrightarrow> screen v = map (map Ch) (cells v)"
  by (simp add: vt_wf_def body_wf_def grid_ok_def)

lemma wf_set_row:
  assumes "vt_wf v" "int (length row) = cols v" "0 \<le> x" "x \<le> cols v"
  shows "vt_wf (v\<lparr>screen := (screen v)[k := map Ch row], cells := (cells v)[k := row], cursorX := x\<rparr>)"
  using assms grid_ok_set_row [of "rows v" "cols v" "screen v" "cells v" row k]
  by (simp add: vt_wf_def body_wf_def)

text \<open>Writing a cell at the cursor.\<close>

lemma set_at_cursor:
  assumes rd: "reader c r upper p v" and len: "int (length p) < c" and ch: "Ch d = ch"
  shows "\<exists>v'. set_at (cursorY v) (cursorX v) ch d v = Some v' \<and> reader c r upper (p @ [d]) (v'\<lparr>cursorX := cursorX v' + 1\<rparr>) \<and>
     v' = v\<lparr>screen := screen v', cells := cells v'\<rparr>"
proof -
  note D = readerD [OF rd]
  let ?row = "(p @ [d]) @ blank_cells (c - int (length (p @ [d])))"
  have up: "length upper < length (page c r upper p)" by (simp add: page_def)
  have scr: "(map Ch p @ blank_runes (c - int (length p)))[length p := ch] = map Ch ?row"
    using arg_cong [OF put_in_blank [OF len, of d], of "map Ch"] ch by (simp add: map_update)
  have "set_at (cursorY v) (cursorX v) ch d v = Some (v\<lparr>
      screen := (screen v)[length upper := map Ch ?row], cells := (cells v)[length upper := ?row]\<rparr>)"
    using set_at_eq [OF D(13) [folded D(5)], of "cursorY v" "cursorX v" ch d] D len ch up put_in_blank [OF len, of d]
    by (simp add: page_row screen_of_cells scr)
  moreover have "reader c r upper (p @ [d]) (v\<lparr>screen := (screen v)[length upper := map Ch ?row],
      cells := (cells v)[length upper := ?row], cursorX := cursorX v + 1\<rparr>)"
    using wf_set_row [OF D(1), of ?row "cursorX v + 1" "length upper"] D len page_set_row [of c r upper p "p @ [d]"]
    unfolding reader_def by simp
  ultimately show ?thesis by simp
qed

definition style_of :: "vt \<Rightarrow> color \<times> color \<times> cell_attrs \<times> underline_style \<times> color" where
  "style_of v = (currentFg v, currentBg v, currentAttrs v, currentUnderlineStyle v, currentUnderlineColor v)"

lemma styled_style: "style_of v' = style_of v \<Longrightarrow> styled v' ch w = styled v ch w"
  by (simp add: style_of_def styled_def)

lemma Ch_styled [simp]: "Ch (styled v ch w) = ch"
  by (simp add: styled_def)

lemma cell_right:
  assumes "reader c r upper p v" "int (length p) \<le> i" "i < c"
  shows "cell_at (cursorY v) i v = Some (NewCell 0x20)"
proof -
  note D = readerD [OF assms(1)]
  have "0 \<le> i" "i = int (nat i)" "length p \<le> nat i" "int (nat i) < c" using assms by auto
  then have "(page c r upper p ! length upper) ! nat i = NewCell 0x20"
    using blank_nth [of p "nat i" c] by (simp add: page_row)
  moreover have "int (length (page c r upper p)) = r" "int (length (page c r upper p ! length upper)) = c"
    using grid_okD(1) [OF D(13)] grid_okD(4) [OF D(13), of "int (length upper)"] D(9) by simp_all
  ultimately show ?thesis
    using assms D \<open>0 \<le> i\<close> by (simp add: cell_at_def)
qed

lemma clear_overlap_blank:
  assumes "reader c r upper p v" "int (length p) < c"
  shows "clear_overlap w v = Some v"
  using cell_right [OF assms(1), of "cursorX v"] cell_right [OF assms(1), of "cursorX v + 1"]
    readerD(3,7) [OF assms(1)] assms(2)
  by (simp add: clear_overlap_def)

lemma write_narrow:
  assumes rd: "reader c r upper p v" and len: "int (length p) < c"
  shows "\<exists>v'. write_char 1 ch v = Some v' \<and> reader c r upper (p @ [styled v ch 1]) v' \<and> style_of v' = style_of v"
proof -
  note D = readerD [OF rd]
  obtain v' where v': "set_at (cursorY v) (cursorX v) ch (styled v ch 1) v = Some v'"
    "reader c r upper (p @ [styled v ch 1]) (v'\<lparr>cursorX := cursorX v' + 1\<rparr>)" "v' = v\<lparr>screen := screen v', cells := cells v'\<rparr>"
    using set_at_cursor [OF rd len Ch_styled] by blast
  have "style_of (v'\<lparr>cursorX := cursorX v' + 1\<rparr>) = style_of v"
    by (subst v'(3)) (simp add: style_of_def)
  moreover have "write_char 1 ch v = Some (v'\<lparr>cursorX := cursorX v' + 1\<rparr>)"
    using D len v'(1) clear_overlap_blank [OF rd len] by (simp add: write_char_def)
  ultimately show ?thesis using v'(2) by blast
qed

lemma write_wide:
  assumes rd: "reader c r upper p v" and len: "int (length p) + 1 < c"
  shows "\<exists>v'. write_char 2 ch v = Some v' \<and> reader c r upper (p @ [styled v ch 2, styled v 0 0]) v' \<and> style_of v' = style_of v"
proof -
  note D = readerD [OF rd]
  have len1: "int (length p) < c" using len by simp
  obtain v1 where v1: "set_at (cursorY v) (cursorX v) ch (styled v ch 2) v = Some v1"
    "reader c r upper (p @ [styled v ch 2]) (v1\<lparr>cursorX := cursorX v1 + 1\<rparr>)" "v1 = v\<lparr>screen := screen v1, cells := cells v1\<rparr>"
    using set_at_cursor [OF rd len1 Ch_styled] by blast
  let ?u = "v1\<lparr>cursorX := cursorX v1 + 1\<rparr>"
  have su: "style_of ?u = style_of v" by (subst v1(3)) (simp add: style_of_def)
  have len2: "int (length (p @ [styled v ch 2])) < c" using len by simp
  obtain v2 where v2: "set_at (cursorY ?u) (cursorX ?u) 0 (styled ?u 0 0) ?u = Some v2"
    "reader c r upper ((p @ [styled v ch 2]) @ [styled ?u 0 0]) (v2\<lparr>cursorX := cursorX v2 + 1\<rparr>)"
    "v2 = ?u\<lparr>screen := screen v2, cells := cells v2\<rparr>"
    using set_at_cursor [OF v1(2) len2 Ch_styled] by blast
  have "style_of (v2\<lparr>cursorX := cursorX v2 + 1\<rparr>) = style_of ?u" by (subst v2(3)) (simp add: style_of_def)
  moreover have "write_char 2 ch v = Some (v2\<lparr>cursorX := cursorX v2 + 1\<rparr>)"
    using D len v1(1) v2(1) clear_overlap_blank [OF rd len1] readerD(3,7) [OF v1(2)]
    by (simp add: write_char_def Let_def add.commute)
  ultimately show ?thesis using v2(2) su styled_style [OF su] by auto
qed

section \<open>Line ends\<close>

lemma for_up_Suc:
  "for_up lo (lo + int (Suc k)) body s = Option.bind (for_up lo (lo + int k) body s) (body (lo + int k))"
proof -
  have "[lo..lo + int (Suc k) - 1] = [lo..lo + int k - 1] @ [lo + int k]"
    using upto_rec2 [of lo "lo + int k"] by simp
  then have "for_up lo (lo + int (Suc k)) body s =
      Option.bind (for_up lo (lo + int k) body s) (for_each body [lo + int k])"
    unfolding for_up_def by (simp only: for_each_append)
  moreover have "for_each body [] = Some" by (rule ext) simp
  then have "for_each body [lo + int k] = body (lo + int k)" by (intro ext) simp
  ultimately show ?thesis by (simp only:)
qed

lemmas for_up_Suc_0 = for_up_Suc [of 0, simplified add_0]

text \<open>The loop of \<open>scroll\<close> moves all rows up by one and leaves the last one as it was.\<close>

lemma move_rows:
  assumes "length (screen v) = length (cells v)" "length (isWrapped v) = length (cells v)" "k < length (cells v)"
  shows "\<exists>s w. for_up 0 (int k) (\<lambda>i. move_row i (i + 1)) v =
     Some (v\<lparr>screen := s, cells := take k (tl (cells v)) @ drop k (cells v), isWrapped := w\<rparr>) \<and>
     length s = length (cells v) \<and> length w = length (cells v)"
  using assms(3)
proof (induction k)
  case 0
  have "v\<lparr>screen := screen v, cells := cells v, isWrapped := isWrapped v\<rparr> = v" by simp
  then show ?case using assms by (intro exI [of _ "screen v"] exI [of _ "isWrapped v"]) (simp add: for_up_def)
next
  case (Suc k)
  let ?c = "take k (tl (cells v)) @ drop k (cells v)"
  obtain s w where IH: "for_up 0 (int k) (\<lambda>i. move_row i (i + 1)) v = Some (v\<lparr>screen := s, cells := ?c, isWrapped := w\<rparr>)"
    "length s = length (cells v)" "length w = length (cells v)"
    using Suc by auto
  have len: "length ?c = length (cells v)" using Suc.prems by simp
  have nth: "?c ! Suc k = cells v ! Suc k" using Suc.prems by (simp add: nth_append)
  have upd: "?c[k := cells v ! Suc k] = take (Suc k) (tl (cells v)) @ drop (Suc k) (cells v)"
  proof (rule nth_equalityI)
    show "length (?c[k := cells v ! Suc k]) = length (take (Suc k) (tl (cells v)) @ drop (Suc k) (cells v))"
      using Suc.prems by simp
    show "?c[k := cells v ! Suc k] ! i = (take (Suc k) (tl (cells v)) @ drop (Suc k) (cells v)) ! i"
      if "i < length (?c[k := cells v ! Suc k])" for i
      using Suc.prems that len by (auto simp: nth_append nth_list_update nth_tl)
  qed
  have i: "int k + 1 = int (Suc k)" "nat (1 + int k) = Suc k" by simp_all
  have "move_row (int k) (int (Suc k)) (v\<lparr>screen := s, cells := ?c, isWrapped := w\<rparr>) =
      Some (v\<lparr>screen := s[k := s ! Suc k], cells := ?c[k := cells v ! Suc k], isWrapped := w[k := w ! Suc k]\<rparr>)"
    using Suc.prems IH(2,3) len nth by (simp add: move_row_def set_wrapped_def i(2))
  then have "for_up 0 (int (Suc k)) (\<lambda>i. move_row i (i + 1)) v =
      Some (v\<lparr>screen := s[k := s ! Suc k], cells := take (Suc k) (tl (cells v)) @ drop (Suc k) (cells v),
        isWrapped := w[k := w ! Suc k]\<rparr>)"
    unfolding for_up_Suc_0 IH(1) by (simp only: bind.simps i(1) upd)
  then show ?case using IH(2,3) by (intro exI [of _ "s[k := s ! Suc k]"] exI [of _ "w[k := w ! Suc k]"]) simp
qed

lemma scroll_cells:
  assumes wf: "body_wf v"
  shows "\<exists>v'. scroll v = Some v' \<and> body_wf v' \<and> cells v' = tl (cells v) @ [blank_cells (cols v)] \<and>
     rows v' = rows v \<and> cols v' = cols v \<and> cursorX v' = cursorX v \<and> escState v' = escState v \<and>
     style_of v' = style_of v"
proof -
  from scroll_body_wf [OF wf] obtain v' h hs hw
    where v': "scroll v = Some v'" "body_wf v'"
      and fr: "redrawn (v\<lparr>history := h, historyStyled := hs, historyIsWrapped := hw\<rparr>) v'"
    by (auto simp: returns_def)
  have frame: "rows v' = rows v" "cols v' = cols v" "cursorX v' = cursorX v" "escState v' = escState v"
    "style_of v' = style_of v"
    using fr by (auto elim!: redrawnE simp: style_of_def)
  from save_history_returns [OF wf] obtain v1 h1 hs1 hw1
    where v1: "save_history v = Some v1" "v1 = v\<lparr>history := h1, historyStyled := hs1, historyIsWrapped := hw1\<rparr>"
    by (auto simp: returns_def)
  have r: "0 < rows v" "rows v = int (length (cells v))" "length (screen v) = length (cells v)"
    "length (isWrapped v) = length (cells v)"
    using wf grid_okD(1,2) [of "rows v" "cols v" "screen v" "cells v"] by (auto simp: body_wf_def)
  then obtain k where len: "length (cells v) = Suc k" by (cases "cells v") auto
  then have k: "rows v - 1 = int k" "length (cells v) = Suc k" using r by simp_all
  obtain s w where m: "for_up 0 (int k) (\<lambda>i. move_row i (i + 1)) v1 =
      Some (v1\<lparr>screen := s, cells := take k (tl (cells v)) @ drop k (cells v), isWrapped := w\<rparr>)"
    "length s = Suc k" "length w = Suc k"
    using move_rows [of v1 k] r k v1(2) by auto
  have all: "take k (tl (cells v)) = tl (cells v)" "length (drop k (cells v)) = 1" using k by simp_all
  then obtain z where z: "drop k (cells v) = [z]" by (metis One_nat_def length_0_conv length_Suc_conv)
  have last: "(tl (cells v) @ [z])[k := x] = tl (cells v) @ [x]" for x
    using k by (metis diff_Suc_1 length_tl list_update_length)
  have "cells v' = tl (cells v) @ [blank_cells (cols v)]"
    using v'(1) v1 m k all z by (auto simp: scroll_def fresh_row_def set_wrapped_def last)
  with v' frame show ?thesis by blast
qed

text \<open>The rows above after the line is ended; at the bottom the first one scrolls away.\<close>

definition advance :: "int \<Rightarrow> cell list list \<Rightarrow> cell list \<Rightarrow> cell list list" where
  "advance r upper row = (if int (length upper) + 1 < r then upper @ [row] else tl (upper @ [row]))"

lemma reader_newLine:
  assumes rd: "reader c r upper p v"
  shows "\<exists>v'. newLine v = Some v' \<and> reader c r (advance r upper (p @ blank_cells (c - int (length p)))) [] v' \<and>
     style_of v' = style_of v"
proof -
  note D = readerD [OF rd]
  let ?row = "p @ blank_cells (c - int (length p))"
  show ?thesis
  proof (cases "int (length upper) + 1 < r")
    case True
    then have "nat (r - int (length upper) - 1) = Suc (nat (r - int (length upper) - 2))" by simp
    then have "page c r upper p = page c r (upper @ [?row]) []" by (simp add: page_def diff_diff_eq)
    moreover have "newLine v = Some (v\<lparr>cursorX := 0, cursorY := cursorY v + 1\<rparr>)"
      using D True by (simp add: newLine_def)
    moreover have "vt_wf (v\<lparr>cursorX := 0, cursorY := cursorY v + 1\<rparr>)"
      by (rule vt_wf_cursor) (use D True in simp_all)
    ultimately show ?thesis using D True by (simp add: advance_def reader_def style_of_def)
  next
    case False
    let ?v = "v\<lparr>cursorX := 0, cursorY := cursorY v + 1\<rparr>"
    have r: "r = int (length upper) + 1" using False D(9) by simp
    have "body_wf ?v" using D(1) by (simp add: vt_wf_def)
    from scroll_cells [OF this] obtain v' where v': "scroll ?v = Some v'" "body_wf v'"
      "cells v' = tl (cells v) @ [blank_cells (cols v)]" "rows v' = rows v" "cols v' = cols v" "cursorX v' = 0"
      "escState v' = escState v" "style_of v' = style_of v"
      by (auto simp: style_of_def)
    have "newLine v = Some (v'\<lparr>cursorY := rows v' - 1\<rparr>)" using D v'(1) r by (simp add: newLine_def)
    moreover have "vt_wf (v'\<lparr>cursorY := rows v' - 1\<rparr>)" using v' D by (simp add: vt_wf_def body_wf_def)
    moreover have "cells v' = page c r (tl (upper @ [?row])) []"
      using v'(3) D r by (simp add: page_def)
    ultimately show ?thesis
      using v' D r by (auto simp: advance_def reader_def style_of_def)
  qed
qed

section \<open>Transitions of the reader\<close>

text \<open>At the end of a full line the next character moves to the next row first.\<close>

definition pending :: "int \<Rightarrow> int \<Rightarrow> cell list list \<Rightarrow> vt \<Rightarrow> bool" where
  "pending c r upper v \<longleftrightarrow> (\<exists>d p. reader c r d p v \<and> int (length p) = c \<and> upper = advance r d p)"

definition place :: "int \<Rightarrow> int \<Rightarrow> cell list list \<Rightarrow> cell list \<Rightarrow> vt \<Rightarrow> bool" where
  "place c r upper p v \<longleftrightarrow> reader c r upper p v \<or> p = [] \<and> pending c r upper v"

definition glyph_width :: "(rune \<Rightarrow> int) \<Rightarrow> rune \<Rightarrow> int" where
  "glyph_width rw ch = (if rw ch = 0 then 1 else rw ch)"

lemma reader_wrapped:
  assumes "reader c r upper p v" "length w = length (isWrapped v)"
  shows "reader c r upper p (v\<lparr>isWrapped := w\<rparr>)"
proof -
  have "vt_wf (v\<lparr>isWrapped := w\<rparr>)" using assms by (auto simp: reader_def vt_wf_def body_wf_def)
  with assms show ?thesis by (simp add: reader_def)
qed

lemma put_place:
  assumes pl: "place c r upper p v" and w: "glyph_width rw ch = w" "0 < w" "int (length p) + w \<le> c"
  shows "\<exists>v1. reader c r upper p v1 \<and> style_of v1 = style_of v \<and> putChar rw ch v = write_char w ch v1"
  using pl unfolding place_def
proof
  assume rd: "reader c r upper p v"
  note D = readerD [OF rd]
  have "putChar rw ch v = write_char w ch v"
    using D w by (auto simp: putChar_def glyph_width_def Let_def)
  with rd show ?thesis by blast
next
  assume *: "p = [] \<and> pending c r upper v"
  then obtain d q where q: "reader c r d q v" "int (length q) = c" "upper = advance r d q"
    by (auto simp: pending_def)
  note D = readerD [OF q(1)]
  obtain v0 where v0: "(if cursorY v + 1 < rows v then set_wrapped (cursorY v + 1) True v else Some v) = Some v0"
    "reader c r d q v0" "style_of v0 = style_of v"
  proof (cases "cursorY v + 1 < rows v")
    case True
    have len: "int (length (isWrapped v)) = r" using D(1,4) by (simp add: vt_wf_def body_wf_def)
    have "set_wrapped (cursorY v + 1) True v = Some (v\<lparr>isWrapped := (isWrapped v)[nat (cursorY v + 1) := True]\<rparr>)"
      using True D len by (simp add: set_wrapped_def)
    moreover have "reader c r d q (v\<lparr>isWrapped := (isWrapped v)[nat (cursorY v + 1) := True]\<rparr>)"
      by (rule reader_wrapped [OF q(1)]) simp
    ultimately show ?thesis using that True by (simp add: style_of_def)
  qed (use that q in auto)
  obtain v1 where v1: "newLine v0 = Some v1" "reader c r (advance r d (q @ blank_cells (c - int (length q)))) [] v1"
    "style_of v1 = style_of v0"
    using reader_newLine [OF v0(2)] by blast
  have "q @ blank_cells (c - int (length q)) = q" using q(2) by (simp add: blank_cells_def)
  moreover have "putChar rw ch v = write_char w ch v1"
    using D q(2) w v0(1) v1(1) by (auto simp: putChar_def glyph_width_def Let_def)
  ultimately show ?thesis using v1 v0(3) q(3) * by auto
qed

text \<open>Characters a cell can hold and \<open>Feed\<close> prints.\<close>

definition printable_rune :: "rune \<Rightarrow> bool" where
  "printable_rune ch \<longleftrightarrow> scalar ch \<and> 0x20 \<le> ch \<and> ch \<noteq> 0x7F"

lemma feeds_printable:
  assumes "place c r upper p v" "printable_rune ch" "putChar rw ch v = Some v'"
  shows "feeds rw (encode_rune ch) v v'"
proof (rule feeds_rune)
  show "escState v = stateNormal" using assms(1) by (auto simp: place_def pending_def reader_def)
  show "scalar ch" "0x20 \<le> ch" "ch \<noteq> 0x7F" using assms(2) by (auto simp: printable_rune_def)
  show "processChar rw ch v = Some v'" using assms(2,3) by (simp add: processChar_def printable_rune_def)
qed

lemma feeds_narrow:
  assumes pl: "place c r upper p v" and ch: "printable_rune ch" "glyph_width rw ch = 1" and len: "int (length p) < c"
  shows "\<exists>v'. feeds rw (encode_rune ch) v v' \<and> reader c r upper (p @ [styled v ch 1]) v' \<and> style_of v' = style_of v"
proof -
  from put_place [OF pl ch(2)] len obtain v1
    where v1: "reader c r upper p v1" "style_of v1 = style_of v" "putChar rw ch v = write_char 1 ch v1" by auto
  obtain v' where v': "write_char 1 ch v1 = Some v'" "reader c r upper (p @ [styled v1 ch 1]) v'" "style_of v' = style_of v1"
    using write_narrow [OF v1(1) len] by blast
  show ?thesis
    using feeds_printable [OF pl ch(1), of rw v'] v1 v' styled_style [OF v1(2)] by auto
qed

lemma feeds_wide:
  assumes pl: "place c r upper p v" and ch: "printable_rune ch" "glyph_width rw ch = 2" and len: "int (length p) + 1 < c"
  shows "\<exists>v'. feeds rw (encode_rune ch) v v' \<and> reader c r upper (p @ [styled v ch 2, styled v 0 0]) v' \<and> style_of v' = style_of v"
proof -
  from put_place [OF pl ch(2)] len obtain v1
    where v1: "reader c r upper p v1" "style_of v1 = style_of v" "putChar rw ch v = write_char 2 ch v1" by auto
  obtain v' where v': "write_char 2 ch v1 = Some v'" "reader c r upper (p @ [styled v1 ch 2, styled v1 0 0]) v'"
    "style_of v' = style_of v1"
    using write_wide [OF v1(1) len] by blast
  show ?thesis
    using feeds_printable [OF pl ch(1), of rw v'] v1 v' styled_style [OF v1(2)] by auto
qed

lemma feeds_crlf:
  assumes rd: "reader c r upper p v"
  shows "\<exists>v'. feeds rw [0x0D, 0x0A] v v' \<and> reader c r (advance r upper (p @ blank_cells (c - int (length p)))) [] v' \<and>
     style_of v' = style_of v"
proof -
  note D = readerD [OF rd]
  let ?v = "v\<lparr>cursorX := 0\<rparr>"
  have same: "newLine ?v = newLine v" by (simp add: newLine_def)
  obtain v' where v': "newLine v = Some v'" "reader c r (advance r upper (p @ blank_cells (c - int (length p)))) [] v'"
    "style_of v' = style_of v"
    using reader_newLine [OF rd] by blast
  have "feeds rw [0x0D] v ?v" by (rule feeds_byte) (simp_all add: processByte_def processChar_def D)
  moreover have "feeds rw [0x0A] ?v v'" by (rule feeds_byte) (simp_all add: processByte_def processChar_def D same v')
  ultimately have "feeds rw [0x0D, 0x0A] v v'" using feeds_append by fastforce
  with v' show ?thesis by blast
qed

lemma reader_esc [simp]:
  "reader c r upper p (v\<lparr>escBuffer := eb, escPrivate := ep, escState := st, escParams := ps, escRawSeq := q\<rparr>) \<longleftrightarrow>
     reader c r upper p (v\<lparr>escState := st\<rparr>)"
  "style_of (v\<lparr>escBuffer := eb, escPrivate := ep, escState := st, escParams := ps, escRawSeq := q\<rparr>) = style_of v"
  "style_of (v\<lparr>escState := st\<rparr>) = style_of v" "style_of (v\<lparr>cursorX := x\<rparr>) = style_of v"
  by (simp_all add: reader_def style_of_def)

lemma fmt_d_nat: "0 \<le> n \<Longrightarrow> fmt_d n = itoa (nat n)"
  by (simp add: fmt_d_def)

lemma itoa_params: "\<forall>b \<in> set (itoa n). param_byte b \<or> b = semicolon"
  using itoa_is_digit by (auto simp: param_byte_def)

lemma feeds_csi_n:
  assumes "reader c r upper p v" "0 \<le> n" "n < 2 ^ 31" "0x40 \<le> cmd" "cmd \<le> 0x7E"
    and "executeCSI cmd (v\<lparr>escBuffer := [], escPrivate := 0, escState := stateCSI,
        escParams := [n], escRawSeq := itoa (nat n) @ [cmd]\<rparr>) = Some v'"
  shows "feeds rw (csi_n n cmd) v (v'\<lparr>escState := stateNormal\<rparr>)"
proof -
  have "nat n < 2 ^ 63" using assms(3) by simp
  from fold_itoa(2) [OF this] have "fold param_step (itoa (nat n)) [] = [n]" using assms(2) by simp
  then show ?thesis
    using feeds_csi [OF readerD(2) [OF assms(1)] itoa_params assms(4,5), of "nat n" v' rw] assms(2,6)
    by (simp add: csi_n_def fmt_d_nat)
qed

text \<open>Skipping cells that are blank.\<close>

lemma blank_cells_add: "0 \<le> m \<Longrightarrow> 0 \<le> n \<Longrightarrow> blank_cells (m + n) = blank_cells m @ blank_cells n"
  by (simp add: blank_cells_def nat_add_distrib replicate_add)

lemma page_skip:
  assumes "0 \<le> n" "int (length p) + n \<le> c"
  shows "page c r upper (p @ blank_cells n) = page c r upper p"
proof -
  have "blank_cells (c - int (length p)) = blank_cells n @ blank_cells (c - int (length p) - n)"
    using blank_cells_add [of n "c - int (length p) - n"] assms by simp
  then show ?thesis using assms by (simp add: page_def diff_diff_eq)
qed

lemma feeds_skip:
  assumes rd: "reader c r upper p v" and n: "0 < n" "int (length p) + n < c"
  shows "\<exists>v'. feeds rw (csi_n n 0x43) v v' \<and> reader c r upper (p @ blank_cells n) v' \<and> style_of v' = style_of v"
proof -
  note D = readerD [OF rd]
  let ?u = "v\<lparr>escBuffer := [], escPrivate := 0, escState := stateCSI, escParams := [n], escRawSeq := itoa (nat n) @ [0x43]\<rparr>"
  have "wrap64 (cursorX v + n) = cursorX v + n" by (rule wrap64_small) (use D n in simp_all)
  then have "executeCSI 0x43 ?u = Some (?u\<lparr>cursorX := cursorX v + n\<rparr>)"
    using D n by (simp add: executeCSI_def cursorForward_def param_def Let_def)
  from feeds_csi_n [OF rd _ _ _ _ this, of rw] n D
  have "feeds rw (csi_n n 0x43) v (?u\<lparr>cursorX := cursorX v + n, escState := stateNormal\<rparr>)" by simp
  moreover have "vt_wf (v\<lparr>cursorX := cursorX v + n, cursorY := cursorY v\<rparr>)"
    by (rule vt_wf_cursor) (use D n in simp_all)
  then have "vt_wf (?u\<lparr>cursorX := cursorX v + n, escState := stateNormal\<rparr>)"
    by (simp add: vt_wf_def)
  ultimately show ?thesis
    using D n page_skip [of n p c r upper]
    by (intro exI [of _ "?u\<lparr>cursorX := cursorX v + n, escState := stateNormal\<rparr>"])
      (simp add: reader_def style_of_def)
qed

text \<open>Erasing cells that are blank.\<close>

lemma for_up_fix: "(\<And>i. lo \<le> i \<Longrightarrow> i < hi \<Longrightarrow> body i v = Some v) \<Longrightarrow> for_up lo hi body v = Some v"
proof -
  assume *: "\<And>i. lo \<le> i \<Longrightarrow> i < hi \<Longrightarrow> body i v = Some v"
  have "returns (for_up lo hi body v) (\<lambda>u. u = v)"
    by (rule returns_for_up) (use * in auto)
  then show ?thesis by (auto simp: returns_def)
qed

lemma set_at_blank:
  assumes rd: "reader c r upper p v" and i: "int (length p) \<le> i" "i < c"
  shows "set_at (cursorY v) i 0x20 (NewCell 0x20) v = Some v"
proof -
  note D = readerD [OF rd]
  have len: "length upper < length (cells v)" "int (length (cells v ! length upper)) = c"
    using D grid_okD(1) [OF D(13)] grid_okD(4) [OF D(13), of "int (length upper)"] by auto
  have "cells v ! length upper ! nat i = NewCell 0x20"
    using blank_nth [of p "nat i" c] i D(5) by (simp add: page_row nat_le_iff le_nat_iff)
  then have c: "(cells v ! length upper)[nat i := NewCell 0x20] = cells v ! length upper"
    by (metis list_update_id)
  have "(screen v ! length upper)[nat i := 0x20] = map Ch ((cells v ! length upper)[nat i := NewCell 0x20])"
    using screen_of_cells [OF D(1)] len by (simp add: map_update)
  then have s: "(screen v ! length upper)[nat i := 0x20] = screen v ! length upper"
    using c screen_of_cells [OF D(1)] len by simp
  show ?thesis
    using set_at_eq [OF D(13) [folded D(5)], of "cursorY v" i] D i c s by simp
qed

lemma set_at_esc:
  assumes "set_at y x ch d v = Some v"
  shows "set_at y x ch d (v\<lparr>escBuffer := eb, escPrivate := ep, escState := st, escParams := ps, escRawSeq := q\<rparr>) =
     Some (v\<lparr>escBuffer := eb, escPrivate := ep, escState := st, escParams := ps, escRawSeq := q\<rparr>)"
proof -
  have same: "screen v = s \<and> cells v = cs" if "v\<lparr>screen := s, cells := cs\<rparr> = v" for s cs
    using arg_cong [OF that, of screen] arg_cong [OF that, of cells] by simp
  show ?thesis using assms by (auto simp: set_at_def bind_eq_Some_conv dest!: same)
qed

lemma feeds_erase:
  assumes rd: "reader c r upper p v" and n: "0 < n" "n < 2 ^ 31"
  shows "\<exists>v'. feeds rw (csi_n n 0x58) v v' \<and> reader c r upper p v' \<and> style_of v' = style_of v"
proof -
  note D = readerD [OF rd]
  let ?u = "v\<lparr>escBuffer := [], escPrivate := 0, escState := stateCSI, escParams := [n], escRawSeq := itoa (nat n) @ [0x58]\<rparr>"
  have "set_at (cursorY ?u) (cursorX ?u + i) 0x20 (NewCell 0x20) ?u = Some ?u" if "0 \<le> i" "i < c - cursorX v" for i
  proof -
    have "set_at (cursorY v) (cursorX v + i) 0x20 (NewCell 0x20) v = Some v"
      by (rule set_at_blank [OF rd]) (use that D in simp_all)
    from set_at_esc [OF this] show ?thesis by simp
  qed
  then have "eraseChars n ?u = Some ?u"
    unfolding eraseChars_def by (intro for_up_fix) (use D in simp)
  then have "executeCSI 0x58 ?u = Some ?u" using n by (simp add: executeCSI_def param_def)
  from feeds_csi_n [OF rd _ _ _ _ this, of rw] n D
  have "feeds rw (csi_n n 0x58) v (?u\<lparr>escState := stateNormal\<rparr>)" by simp
  moreover have "reader c r upper p (?u\<lparr>escState := stateNormal\<rparr>)" using rd by (simp add: reader_def)
  ultimately show ?thesis by (intro exI [of _ "?u\<lparr>escState := stateNormal\<rparr>"]) (simp add: style_of_def)
qed

text \<open>
  Styles that every change of style reaches exactly: without dim and without underline colours, and with an
  underline style only when there is an underline.
\<close>

definition plain_style :: "cell \<Rightarrow> bool" where
  "plain_style d \<longleftrightarrow>
     known_attrs (Attrs d) \<and> \<not> Has (Attrs d) AttrDim \<and> ULColor d = DefaultColor \<and>
     (Has (Attrs d) AttrUnderline \<longleftrightarrow> ULStyle d \<noteq> UnderlineNone)"

definition wears :: "cell \<Rightarrow> vt \<Rightarrow> bool" where
  "wears d v \<longleftrightarrow> style_of v = (Fg d, Bg d, Attrs d, ULStyle d, ULColor d)"

lemma wears_shows: "wears d v \<Longrightarrow> shows_style d v"
  by (simp add: wears_def style_of_def shows_style_def)

lemma plain_expressible: "plain_style d \<Longrightarrow> plain_style old \<Longrightarrow> expressible d old"
  by (auto simp: plain_style_def expressible_def)

lemma diff_effect_off:
  assumes "plain_style d" "plain_style old" "wears old v"
  shows "currentUnderlineColor (diff_effect d old v) = DefaultColor"
    and "\<not> Has (Attrs d) AttrUnderline \<Longrightarrow> currentUnderlineStyle (diff_effect d old v) = UnderlineNone"
proof -
  have v: "currentUnderlineColor v = DefaultColor" "currentUnderlineStyle v = ULStyle old"
    using assms by (simp_all add: wears_def style_of_def plain_style_def)
  show "currentUnderlineColor (diff_effect d old v) = DefaultColor"
    using v assms(1) by (simp add: diff_effect_def resetStyle_def Let_def flags_effect_def underline_effect_def plain_style_def)
  assume off: "\<not> Has (Attrs d) AttrUnderline"
  show "currentUnderlineStyle (diff_effect d old v) = UnderlineNone"
  proof (cases "Has (Attrs old) AttrUnderline")
    case True
    then have "underlineChanged d old" "\<not> equalFlags d old" using off by (auto simp: underlineChanged_def equalFlags_def)
    then show ?thesis
      using off True assms(2) by (auto simp: diff_effect_def resetStyle_def Let_def flags_effect_def underline_effect_def
          plain_style_def IsAttributeDefault_def)
  next
    case False
    then have "ULStyle old = UnderlineNone" "\<not> underlineChanged d old"
      using assms(2) off by (auto simp: plain_style_def underlineChanged_def)
    then show ?thesis
      using v by (simp add: diff_effect_def resetStyle_def Let_def flags_effect_def underline_effect_def)
  qed
qed

lemma wears_diff:
  assumes "plain_style d" "plain_style old" "wears old v"
  shows "wears d (diff_effect d old v)"
proof -
  have "currentUnderlineColor v = DefaultColor" using assms by (simp add: wears_def style_of_def plain_style_def)
  then have s: "shows_style d (diff_effect d old v)"
    using diff_effect_shows [OF wears_shows [OF assms(3)] plain_expressible [OF assms(1,2)]] by simp
  have "currentUnderlineStyle (diff_effect d old v) = ULStyle d"
    using s diff_effect_off(2) [OF assms] assms(1) by (auto simp: shows_style_def plain_style_def)
  then show ?thesis
    using s diff_effect_off(1) [OF assms] assms(1) by (simp add: wears_def style_of_def shows_style_def plain_style_def)
qed

text \<open>What a reader of the terminal sees, but for the style.\<close>

definition display :: "vt \<Rightarrow> rune list list \<times> cell list list \<times> int \<times> int \<times> int \<times> int" where
  "display v = (screen v, cells v, rows v, cols v, cursorX v, cursorY v)"

lemma restyled_reader: "reader c r upper p v \<Longrightarrow> restyled v v' \<Longrightarrow> reader c r upper p v'"
  using restyled_wf [of v v'] by (auto elim!: restyledE simp: reader_def)

lemma diff_effect_restyled: "restyled v (diff_effect d old v)"
  using reads_whole [OF reads_diffStyle [of d old v]] sgr_loop_restyled by metis

lemma restyled_escState: "restyled v v' \<Longrightarrow> restyled (v\<lparr>escState := st\<rparr>) (v'\<lparr>escState := st\<rparr>)"
proof -
  assume "restyled v v'"
  then obtain fg bg a us uc where v': "v' = v\<lparr>currentFg := fg, currentBg := bg, currentAttrs := a,
      currentUnderlineStyle := us, currentUnderlineColor := uc\<rparr>" by (rule restyledE)
  have "v'\<lparr>escState := st\<rparr> = v\<lparr>escState := st, currentFg := fg, currentBg := bg, currentAttrs := a,
      currentUnderlineStyle := us, currentUnderlineColor := uc\<rparr>" unfolding v' by (cases v) simp
  then show ?thesis using restyledI by metis
qed

lemma sgr_text_params: "list_all param_word ps \<Longrightarrow> \<forall>b \<in> set (join_with semicolon ps). param_byte b \<or> b = semicolon"
  by (induction semicolon ps rule: join_with.induct) (auto simp: param_word_def list_all_iff)

lemma feeds_sgr:
  assumes "escState v = stateNormal" "diffStyle d old \<noteq> []"
  shows "\<exists>v'. feeds rw ([0x1B, 0x5B] @ sgr_text (diffStyle d old)) v v' \<and>
     (\<forall>c r upper p. reader c r upper p v \<longrightarrow> reader c r upper p v') \<and> display v' = display v \<and>
     (plain_style d \<and> plain_style old \<and> wears old v \<longrightarrow> wears d v')"
proof -
  let ?ps = "join_with semicolon (diffStyle d old)"
  let ?u = "v\<lparr>escBuffer := [], escPrivate := 0, escState := stateCSI, escParams := fold param_step ?ps [],
      escRawSeq := ?ps @ [0x6D]\<rparr>"
  let ?v' = "(diff_effect d old ?u)\<lparr>escState := stateNormal\<rparr>"
  have "executeCSI 0x6D ?u = Some (diff_effect d old ?u)"
    using handleSGR_diffStyle [OF assms(2), of ?u] by (simp add: executeCSI_def sgr_text_def)
  from feeds_csi [OF assms(1) sgr_text_params [OF diffStyle_bytes] _ _ this]
  have "feeds rw ([0x1B, 0x5B] @ sgr_text (diffStyle d old)) v ?v'" by (simp add: sgr_text_def)
  moreover have "reader c r upper p ?v'" if "reader c r upper p v" for c r upper p
  proof -
    have "restyled (?u\<lparr>escState := stateNormal\<rparr>) ?v'"
      by (rule restyled_escState) (rule diff_effect_restyled)
    then show ?thesis by (rule restyled_reader [rotated]) (use that in \<open>simp add: reader_def\<close>)
  qed
  moreover have "wears d ?v'" if "plain_style d" "plain_style old" "wears old v"
    using wears_diff [OF that(1,2), of ?u] that(3) by (simp add: wears_def style_of_def)
  moreover have "display ?v' = display v"
    using diff_effect_restyled [of ?u d old] by (auto elim!: restyledE simp: display_def)
  ultimately show ?thesis by blast
qed

text \<open>The final position of the cursor.\<close>

lemma feeds_cup:
  assumes rd: "reader c r upper p v" and y: "0 \<le> y" "y < r" and x: "0 \<le> x" "x \<le> c"
  shows "\<exists>v'. feeds rw ([0x1B, 0x5B] @ fmt_d (y + 1) @ [semicolon] @ fmt_d (x + 1) @ [0x48]) v v' \<and>
     display v' = (screen v, cells v, r, c, min x (c - 1), y) \<and> escState v' = stateNormal \<and> style_of v' = style_of v"
proof -
  note D = readerD [OF rd]
  let ?ps = "itoa (nat (y + 1)) @ [semicolon] @ itoa (nat (x + 1))"
  let ?u = "v\<lparr>escBuffer := [], escPrivate := 0, escState := stateCSI, escParams := [y + 1, x + 1], escRawSeq := ?ps @ [0x48]\<rparr>"
  have small: "nat (y + 1) < 2 ^ 63" "nat (x + 1) < 2 ^ 63" using D(11,12) y x by simp_all
  have "\<not> is_digit semicolon" by (simp add: is_digit_def semicolon_def)
  then have ps: "fold param_step ?ps [] = [y + 1, x + 1]"
    using fold_itoa(2) [OF small(1)] fold_itoa(1) [OF small(2), of "[y + 1]"] y x by (simp add: param_step_def)
  have bytes: "\<forall>b \<in> set ?ps. param_byte b \<or> b = semicolon" using itoa_params by auto
  have "executeCSI 0x48 ?u = Some (clampCursor (?u\<lparr>cursorY := y, cursorX := x\<rparr>))"
    using y x by (simp add: executeCSI_def param_def)
  from feeds_csi [OF D(2) bytes, of "0x48" "clampCursor (?u\<lparr>cursorY := y, cursorX := x\<rparr>)" rw] this ps
  have "feeds rw ([0x1B, 0x5B] @ ?ps @ [0x48]) v ((clampCursor (?u\<lparr>cursorY := y, cursorX := x\<rparr>))\<lparr>escState := stateNormal\<rparr>)"
    by simp
  moreover have "fmt_d (y + 1) = itoa (nat (y + 1))" "fmt_d (x + 1) = itoa (nat (x + 1))" using y x by (simp_all add: fmt_d_nat)
  moreover have "display ((clampCursor (?u\<lparr>cursorY := y, cursorX := x\<rparr>))\<lparr>escState := stateNormal\<rparr>) =
      (screen v, cells v, r, c, min x (c - 1), y)"
    using D y x by (auto simp: display_def clampCursor_def Let_def)
  ultimately show ?thesis
    by (intro exI [of _ "(clampCursor (?u\<lparr>cursorY := y, cursorX := x\<rparr>))\<lparr>escState := stateNormal\<rparr>"])
      (simp add: clampCursor_def Let_def style_of_def)
qed

end
