(* ===== verification/VT_Snapshot.thy ===== *)
theory VT_Snapshot
  imports VT_Redraw
begin

text \<open>
  The round trip of a terminal through its serialization: a fresh terminal of the same size that is fed with
  the output of \<open>Serialize\<close> shows the same screen. \<open>drawing\<close> relates the serializer in the middle of a row to
  the terminal that has read its output so far; the cells of a row, the ends of rows and the cut of trailing
  empty rows are followed in turn.
\<close>

unbundle bit_operations_syntax

section \<open>Rows without halves of wide characters\<close>

inductive glyph_row :: "(rune \<Rightarrow> int) \<Rightarrow> cell list \<Rightarrow> bool" for rw where
  glyph_Nil: "glyph_row rw []"
| glyph_blank: "Width d = 1 \<Longrightarrow> Ch d = 0x20 \<Longrightarrow> glyph_row rw ds \<Longrightarrow> glyph_row rw (d # ds)"
| glyph_narrow: "Width d = 1 \<Longrightarrow> Ch d \<noteq> 0x20 \<Longrightarrow> printable_rune (Ch d) \<Longrightarrow> glyph_width rw (Ch d) = 1 \<Longrightarrow>
    glyph_row rw ds \<Longrightarrow> glyph_row rw (d # ds)"
| glyph_wide: "Width d = 2 \<Longrightarrow> Ch d \<noteq> 0x20 \<Longrightarrow> printable_rune (Ch d) \<Longrightarrow> glyph_width rw (Ch d) = 2 \<Longrightarrow>
    glyph_row rw ds \<Longrightarrow> glyph_row rw (d # d\<lparr>Ch := 0, Width := 0\<rparr> # ds)"

text \<open>A redrawn cell has the same character and, when styles are followed, a visible one is the same cell.\<close>

definition restored :: "bool \<Rightarrow> cell \<Rightarrow> cell \<Rightarrow> bool" where
  "restored st src new \<longleftrightarrow> Ch new = Ch src \<and> (st \<and> Ch src \<noteq> 0x20 \<longrightarrow> new = src)"

definition drawing ::
  "(rune \<Rightarrow> int) \<Rightarrow> bool \<Rightarrow> int \<Rightarrow> int \<Rightarrow> cell list list \<Rightarrow> vt \<Rightarrow> cell list \<Rightarrow> serialize_handler \<Rightarrow> vt \<Rightarrow> cell list \<Rightarrow> bool" where
  "drawing rw st c r upper v0 pre h v p \<longleftrightarrow>
     feeds rw (currentRow h) v0 v \<and> place c r upper p v \<and> 0 \<le> nullCellCount h \<and>
     int (length p) + nullCellCount h = int (length pre) \<and> list_all2 (restored st) (take (length p) pre) p \<and>
     (\<forall>d \<in> set (drop (length p) pre). Ch d = 0x20) \<and>
     (st \<longrightarrow> plain_style (cursorStyle h) \<and> wears (cursorStyle h) v)"

lemma blank_cells_nth: "d \<in> set (blank_cells n) \<Longrightarrow> Ch d = 0x20"
  by (auto simp: blank_cells_def)

lemma restored_blanks:
  "\<forall>d \<in> set xs. Ch d = 0x20 \<Longrightarrow> length xs = nat n \<Longrightarrow> list_all2 (restored st) xs (blank_cells n)"
  by (auto simp: list_all2_conv_all_nth restored_def blank_cells_def)

lemma restored_flushed:
  assumes "list_all2 (restored st) (take (length p) pre) p" "\<forall>d \<in> set (drop (length p) pre). Ch d = 0x20"
    and "int (length p) + n = int (length pre)"
  shows "list_all2 (restored st) pre (p @ blank_cells n)"
proof -
  have "list_all2 (restored st) (drop (length p) pre) (blank_cells n)"
    by (rule restored_blanks) (use assms in auto)
  from list_all2_appendI [OF assms(1) this] show ?thesis by simp
qed

lemma flush_nulls_frame [simp]:
  "cursorStyle (flush_nulls h) = cursorStyle h" "nullCellCount (flush_nulls h) = min 0 (nullCellCount h)"
  "backgroundCell (flush_nulls h) = backgroundCell h"
  by (auto simp: flush_nulls_def emit_def)

text \<open>The pending empty cells are skipped.\<close>

lemma drawing_flush:
  assumes dr: "drawing rw st c r upper v0 pre h v p" and len: "int (length pre) < c"
    and rd: "nullCellCount h > 0 \<Longrightarrow> reader c r upper p v"
  shows "\<exists>v' p'. drawing rw st c r upper v0 pre (flush_nulls h) v' p' \<and> length p' = length pre \<and>
     (reader c r upper p v \<longrightarrow> reader c r upper p' v') \<and> style_of v' = style_of v"
proof (cases "nullCellCount h > 0")
  case False
  then have "flush_nulls h = h" "nullCellCount h = 0" using dr by (simp_all add: flush_nulls_def drawing_def)
  then show ?thesis using dr by (intro exI [of _ v] exI [of _ p]) (auto simp: drawing_def)
next
  case True
  let ?n = "nullCellCount h"
  let ?bg = "\<not> color_Equals (Bg (cursorStyle h)) (Bg (backgroundCell h))"
  note D = dr [unfolded drawing_def]
  note rdr = rd [OF True]
  have n: "int (length p) + ?n < c" "?n < 2 ^ 31" using D len readerD(11) [OF rdr] by auto
  obtain v1 where v1: "feeds rw (if ?bg then csi_n ?n 0x58 else []) v v1" "reader c r upper p v1" "style_of v1 = style_of v"
  proof (cases ?bg)
    case True
    then show ?thesis using feeds_erase [OF rdr \<open>0 < ?n\<close> n(2), of rw] that by auto
  qed (use rdr that [of v] in simp)
  obtain v2 where v2: "feeds rw (csi_n ?n 0x43) v1 v2" "reader c r upper (p @ blank_cells ?n) v2" "style_of v2 = style_of v1"
    using feeds_skip [OF v1(2) True n(1), of rw] by blast
  have "feeds rw (currentRow (flush_nulls h)) v0 v2"
    using feeds_append [OF conjunct1 [OF D] feeds_append [OF v1(1) v2(1)]] True by (simp add: flush_nulls_def emit_def)
  moreover have "list_all2 (restored st) pre (p @ blank_cells ?n)" by (rule restored_flushed) (use D in auto)
  moreover have "int (length p) + ?n = int (length pre)" using D by blast
  then have "length (p @ blank_cells ?n) = length pre" using True by simp
  ultimately show ?thesis
    using D True v1 v2 by (intro exI [of _ v2] exI [of _ "p @ blank_cells ?n"])
      (simp add: drawing_def place_def wears_def)
qed

text \<open>A change of style.\<close>

lemma place_normal: "place c r upper p v \<Longrightarrow> escState v = stateNormal"
  by (auto simp: place_def pending_def reader_def)

lemma place_mono:
  "(\<And>c r upper p. reader c r upper p v \<Longrightarrow> reader c r upper p v') \<Longrightarrow> place c r upper p v \<Longrightarrow> place c r upper p v'"
  unfolding place_def pending_def by blast

lemma diffStyle_empty: "diffStyle d old = [] \<Longrightarrow> diff_effect d old v = v"
  using reads_whole [OF reads_diffStyle [of d old v]] by (simp add: sgr_loop.simps)

lemma drawing_style:
  assumes dr: "drawing rw st c r upper v0 pre h v p" and len: "int (length pre) < c"
    and rd: "nullCellCount h > 0 \<Longrightarrow> reader c r upper p v" and d: "st \<Longrightarrow> plain_style d"
  shows "\<exists>v' p'. drawing rw st c r upper v0 pre (change_style d (diffStyle d (cursorStyle h)) row col h) v' p' \<and>
     length p' = length pre \<and> (reader c r upper p v \<longrightarrow> reader c r upper p' v')"
proof -
  let ?h = "change_style d (diffStyle d (cursorStyle h)) row col h"
  obtain v1 p1 where f: "drawing rw st c r upper v0 pre (flush_nulls h) v1 p1" "length p1 = length pre"
    "reader c r upper p v \<longrightarrow> reader c r upper p1 v1"
    using drawing_flush [OF dr len rd] by blast
  note F = f(1) [unfolded drawing_def]
  show ?thesis
  proof (cases "diffStyle d (cursorStyle h) = []")
    case True
    have "wears d v1" if st using wears_diff [of d "cursorStyle h" v1] F that d diffStyle_empty [OF True] by simp
    then show ?thesis
      using True f d by (intro exI [of _ v1] exI [of _ p1]) (auto simp: drawing_def change_style_def Let_def)
  next
    case False
    obtain v2 where v2: "feeds rw ([0x1B, 0x5B] @ sgr_text (diffStyle d (cursorStyle h))) v1 v2"
      "\<And>c r upper p. reader c r upper p v1 \<Longrightarrow> reader c r upper p v2"
      "plain_style d \<and> plain_style (cursorStyle h) \<and> wears (cursorStyle h) v1 \<longrightarrow> wears d v2"
      using feeds_sgr [OF place_normal False, of c r upper p1 v1 rw] F by blast
    have "feeds rw (currentRow ?h) v0 v2"
      using feeds_append [OF conjunct1 [OF F] v2(1)] False by (simp add: change_style_def Let_def emit_def)
    moreover have "place c r upper p1 v2" using place_mono [OF v2(2)] F by blast
    ultimately show ?thesis
      using False f v2 d by (intro exI [of _ v2] exI [of _ p1])
        (auto simp: drawing_def change_style_def Let_def emit_def)
  qed
qed

text \<open>The effect of a change of style on an empty cell, and the style a visible cell is printed in.\<close>

definition styled_handler :: "cell \<Rightarrow> int \<Rightarrow> int \<Rightarrow> serialize_handler \<Rightarrow> serialize_handler" where
  "styled_handler d row col h =
     (if (if Ch d = 0x20 \<or> Ch d = 0 then Bg d \<noteq> Bg (cursorStyle h) else diffStyle d (cursorStyle h) \<noteq> [])
      then change_style d (diffStyle d (cursorStyle h)) row col h else h)"

lemma drawing_styled:
  assumes dr: "drawing rw st c r upper v0 pre h v p" and len: "int (length pre) < c"
    and rd: "nullCellCount h > 0 \<Longrightarrow> reader c r upper p v" and d: "st \<Longrightarrow> plain_style d"
  shows "\<exists>v' p'. drawing rw st c r upper v0 pre (styled_handler d row col h) v' p' \<and>
     (reader c r upper p v \<longrightarrow> reader c r upper p' v') \<and> (st \<and> Ch d \<noteq> 0x20 \<and> Ch d \<noteq> 0 \<longrightarrow> wears d v')"
proof (cases "if Ch d = 0x20 \<or> Ch d = 0 then Bg d \<noteq> Bg (cursorStyle h) else diffStyle d (cursorStyle h) \<noteq> []")
  case False
  have "wears d v" if "st" "Ch d \<noteq> 0x20" "Ch d \<noteq> 0"
    using wears_diff [of d "cursorStyle h" v] that d dr diffStyle_empty [of d "cursorStyle h" v] False
    by (simp add: drawing_def)
  moreover have "styled_handler d row col h = h" using False by (auto simp: styled_handler_def)
  ultimately show ?thesis using dr by (intro exI [of _ v] exI [of _ p]) auto
next
  case True
  then have h: "styled_handler d row col h = change_style d (diffStyle d (cursorStyle h)) row col h"
    by (auto simp: styled_handler_def)
  obtain v1 p1 where "drawing rw st c r upper v0 pre (change_style d (diffStyle d (cursorStyle h)) row col h) v1 p1"
    "reader c r upper p v \<longrightarrow> reader c r upper p1 v1"
    using drawing_style [OF dr len rd d] by blast
  moreover have "cursorStyle (change_style d (diffStyle d (cursorStyle h)) row col h) = d"
    by (simp add: change_style_def Let_def)
  ultimately show ?thesis
    unfolding h by (intro exI [of _ v1] exI [of _ p1]) (auto simp: drawing_def)
qed

section \<open>The cells of a row\<close>

lemma nextCell_blank:
  "Width d = 1 \<Longrightarrow> Ch d = 0x20 \<Longrightarrow>
     nextCell d row col h = (styled_handler d row col h)\<lparr>nullCellCount := nullCellCount (styled_handler d row col h) + 1\<rparr>"
  by (simp add: nextCell_def styled_handler_def Let_def)

lemma nextCell_visible:
  "Width d \<noteq> 0 \<Longrightarrow> Ch d \<noteq> 0x20 \<Longrightarrow> Ch d \<noteq> 0 \<Longrightarrow>
     nextCell d row col h = (emit (encode_rune (Ch d)) (flush_nulls (styled_handler d row col h)))
       \<lparr>lastContentCursorRow := row, lastContentCursorCol := col + uint (Width d),
        lastCursorRow := row, lastCursorCol := col + uint (Width d)\<rparr>"
  by (simp add: nextCell_def styled_handler_def Let_def)

lemma nextCell_placeholder: "Width d = 0 \<Longrightarrow> nextCell d row col h = h"
  by (simp add: nextCell_def)

lemma drawing_blank:
  assumes dr: "drawing rw st c r upper v0 pre h v p" and rd: "reader c r upper p v" and len: "int (length pre) < c"
    and d: "st \<Longrightarrow> plain_style d" "Width d = 1" "Ch d = 0x20"
  shows "\<exists>v' p'. drawing rw st c r upper v0 (pre @ [d]) (nextCell d row col h) v' p' \<and> reader c r upper p' v'"
proof -
  obtain v' p' where v': "drawing rw st c r upper v0 pre (styled_handler d row col h) v' p'" "reader c r upper p' v'"
    using drawing_styled [OF dr len rd d(1)] rd by blast
  have "length p' \<le> length pre" using v'(1) by (simp add: drawing_def)
  then show ?thesis
    using v' d by (intro exI [of _ v'] exI [of _ p']) (auto simp: drawing_def nextCell_blank)
qed

text \<open>Before a visible cell: the style is set and the pending cells are skipped.\<close>

lemma drawing_ready:
  assumes dr: "drawing rw st c r upper v0 pre h v p" and len: "int (length pre) < c"
    and rd: "nullCellCount h > 0 \<Longrightarrow> reader c r upper p v" and d: "st \<Longrightarrow> plain_style d" "Ch d \<noteq> 0x20" "Ch d \<noteq> 0"
  shows "\<exists>v' p'. drawing rw st c r upper v0 pre (flush_nulls (styled_handler d row col h)) v' p' \<and>
     length p' = length pre \<and> (st \<longrightarrow> wears d v')"
proof -
  obtain v1 p1 where v1: "drawing rw st c r upper v0 pre (styled_handler d row col h) v1 p1"
    "reader c r upper p v \<longrightarrow> reader c r upper p1 v1" "st \<longrightarrow> wears d v1"
    using drawing_styled [OF dr len rd d(1)] d(2,3) by blast
  have "nullCellCount h > 0" if "nullCellCount (styled_handler d row col h) > 0"
    using that by (auto simp: styled_handler_def change_style_def Let_def emit_def split: if_splits)
  then have "reader c r upper p1 v1" if "nullCellCount (styled_handler d row col h) > 0" using that rd v1(2) by blast
  from drawing_flush [OF v1(1) len this] v1(3) show ?thesis unfolding wears_def by fastforce
qed

lemma styled_wears:
  assumes "wears d v"
  shows "styled v (Ch d) (Width d) = d" "styled v 0 0 = d\<lparr>Ch := 0, Width := 0\<rparr>"
  using assms by (simp_all add: wears_def style_of_def styled_def NewFullStyledCell_def)

lemma drawing_narrow:
  assumes dr: "drawing rw st c r upper v0 pre h v p" and len: "int (length pre) < c"
    and rd: "nullCellCount h > 0 \<Longrightarrow> reader c r upper p v"
    and d: "st \<Longrightarrow> plain_style d" "Width d = 1" "Ch d \<noteq> 0x20" "printable_rune (Ch d)" "glyph_width rw (Ch d) = 1"
  shows "\<exists>v' p'. drawing rw st c r upper v0 (pre @ [d]) (nextCell d row col h) v' p' \<and> reader c r upper p' v'"
proof -
  have ch: "Ch d \<noteq> 0" using d(4) by (auto simp: printable_rune_def)
  obtain v1 p1 where v1: "drawing rw st c r upper v0 pre (flush_nulls (styled_handler d row col h)) v1 p1"
    "length p1 = length pre" "st \<longrightarrow> wears d v1"
    using drawing_ready [OF dr len rd d(1,3) ch] by blast
  note D = v1(1) [unfolded drawing_def]
  obtain v2 where v2: "feeds rw (encode_rune (Ch d)) v1 v2" "reader c r upper (p1 @ [styled v1 (Ch d) 1]) v2"
    "style_of v2 = style_of v1"
    using feeds_narrow [OF _ d(4,5), of c r upper p1 v1] D v1(2) len by auto
  have "restored st d (styled v1 (Ch d) 1)" using styled_wears(1) [of d v1] v1(3) d(2) by (auto simp: restored_def)
  moreover have "list_all2 (restored st) pre p1" using D v1(2) by simp
  ultimately have "list_all2 (restored st) (pre @ [d]) (p1 @ [styled v1 (Ch d) 1])" by (simp add: list_all2_appendI)
  moreover have "feeds rw (currentRow (nextCell d row col h)) v0 v2"
    using feeds_append [OF conjunct1 [OF D] v2(1)] d ch by (simp add: nextCell_visible emit_def)
  ultimately show ?thesis
    using D v1(2) v2 d ch by (intro exI [of _ v2] exI [of _ "p1 @ [styled v1 (Ch d) 1]"])
      (auto simp: drawing_def nextCell_visible emit_def place_def wears_def)
qed

lemma drawing_wide:
  assumes dr: "drawing rw st c r upper v0 pre h v p" and len: "int (length pre) + 1 < c"
    and rd: "nullCellCount h > 0 \<Longrightarrow> reader c r upper p v"
    and d: "st \<Longrightarrow> plain_style d" "Width d = 2" "Ch d \<noteq> 0x20" "printable_rune (Ch d)" "glyph_width rw (Ch d) = 2"
  shows "\<exists>v' p'. drawing rw st c r upper v0 (pre @ [d, d\<lparr>Ch := 0, Width := 0\<rparr>]) (nextCell d row col h) v' p' \<and>
     reader c r upper p' v'"
proof -
  have ch: "Ch d \<noteq> 0" using d(4) by (auto simp: printable_rune_def)
  have len1: "int (length pre) < c" using len by simp
  obtain v1 p1 where v1: "drawing rw st c r upper v0 pre (flush_nulls (styled_handler d row col h)) v1 p1"
    "length p1 = length pre" "st \<longrightarrow> wears d v1"
    using drawing_ready [OF dr len1 rd d(1,3) ch] by blast
  note D = v1(1) [unfolded drawing_def]
  let ?new = "[styled v1 (Ch d) 2, styled v1 0 0]"
  obtain v2 where v2: "feeds rw (encode_rune (Ch d)) v1 v2" "reader c r upper (p1 @ ?new) v2"
    "style_of v2 = style_of v1"
    using feeds_wide [OF _ d(4,5), of c r upper p1 v1] D v1(2) len by auto
  have "list_all2 (restored st) [d, d\<lparr>Ch := 0, Width := 0\<rparr>] ?new"
    using styled_wears [of d v1] v1(3) d(2) by (auto simp: restored_def)
  moreover have "list_all2 (restored st) pre p1" using D v1(2) by simp
  ultimately have "list_all2 (restored st) (pre @ [d, d\<lparr>Ch := 0, Width := 0\<rparr>]) (p1 @ ?new)" by (rule list_all2_appendI [rotated])
  moreover have "feeds rw (currentRow (nextCell d row col h)) v0 v2"
    using feeds_append [OF conjunct1 [OF D] v2(1)] d ch by (simp add: nextCell_visible emit_def)
  ultimately show ?thesis
    using D v1(2) v2 d ch by (intro exI [of _ v2] exI [of _ "p1 @ ?new"])
      (auto simp: drawing_def nextCell_visible emit_def place_def wears_def)
qed

lemma row_cells_drawing:
  assumes "glyph_row rw ds" and "drawing rw st c r upper v0 pre h v p"
    and "int (length pre) + int (length ds) = c" and "st \<Longrightarrow> \<forall>d \<in> set ds. plain_style d"
    and "reader c r upper p v \<or> nullCellCount h = 0 \<and> ds \<noteq> [] \<and> Ch (hd ds) \<noteq> 0x20"
  shows "\<exists>v' p'. drawing rw st c r upper v0 (pre @ ds) (row_cells row col ds h) v' p' \<and> reader c r upper p' v'"
  using assms
proof (induction ds arbitrary: pre h v p col rule: glyph_row.induct)
  case glyph_Nil
  then show ?case by auto
next
  case (glyph_blank d ds)
  have rd: "reader c r upper p v" using glyph_blank.hyps glyph_blank.prems(4) by simp
  have len: "int (length pre) < c" and pl: "st \<Longrightarrow> plain_style d" using glyph_blank.prems by auto
  obtain v1 p1 where v1: "drawing rw st c r upper v0 (pre @ [d]) (nextCell d row col h) v1 p1" "reader c r upper p1 v1"
    using drawing_blank [OF glyph_blank.prems(1) rd len pl glyph_blank.hyps(1,2)] by blast
  show ?case using glyph_blank.IH [OF v1(1), of "col + 1"] glyph_blank.prems v1(2) by simp
next
  case (glyph_narrow d ds)
  have len: "int (length pre) < c" and pl: "st \<Longrightarrow> plain_style d" using glyph_narrow.prems by auto
  obtain v1 p1 where v1: "drawing rw st c r upper v0 (pre @ [d]) (nextCell d row col h) v1 p1" "reader c r upper p1 v1"
    using drawing_narrow [OF glyph_narrow.prems(1) len _ pl glyph_narrow.hyps(1-4)] glyph_narrow.prems(4) by fastforce
  show ?case using glyph_narrow.IH [OF v1(1), of "col + 1"] glyph_narrow.prems v1(2) by simp
next
  case (glyph_wide d ds)
  have len: "int (length pre) + 1 < c" and pl: "st \<Longrightarrow> plain_style d" using glyph_wide.prems by auto
  obtain v1 p1 where v1: "drawing rw st c r upper v0 (pre @ [d, d\<lparr>Ch := 0, Width := 0\<rparr>]) (nextCell d row col h) v1 p1"
    "reader c r upper p1 v1"
    using drawing_wide [OF glyph_wide.prems(1) len _ pl glyph_wide.hyps(1-4)] glyph_wide.prems(4) by fastforce
  show ?case
    using glyph_wide.IH [OF v1(1), of "col + 1 + 1"] glyph_wide.prems v1(2) by (simp add: nextCell_placeholder)
qed

text \<open>What else a row does to the handler: content moves the marker to the row, without content the style stays.\<close>

definition content_mark :: "int \<Rightarrow> serialize_handler \<Rightarrow> serialize_handler \<Rightarrow> bool" where
  "content_mark row h h' \<longleftrightarrow>
     lastContentCursorRow h' = row \<or>
     lastContentCursorRow h' = lastContentCursorRow h \<and> cursorStyle h' = cursorStyle h"

lemma content_mark_refl: "content_mark row h h"
  by (simp add: content_mark_def)

lemma content_mark_trans: "content_mark row a b \<Longrightarrow> content_mark row b c \<Longrightarrow> content_mark row a c"
  by (auto simp: content_mark_def)

definition rows_kept :: "serialize_handler \<Rightarrow> serialize_handler \<Rightarrow> bool" where
  "rows_kept h h' \<longleftrightarrow>
     allRows h' = allRows h \<and> allRowSeparators h' = allRowSeparators h \<and> rowIndex h' = rowIndex h \<and>
     firstRow h' = firstRow h"

lemma nextCell_frame: "content_mark row h (nextCell d row col h)" "rows_kept h (nextCell d row col h)"
  by (auto simp: nextCell_def content_mark_def rows_kept_def change_style_def flush_nulls_def emit_def Let_def)

lemma row_cells_frame: "content_mark row h (row_cells row col ds h) \<and> rows_kept h (row_cells row col ds h)"
proof (induction ds arbitrary: col h)
  case (Cons d ds)
  show ?case
    using Cons [of "nextCell d row col h" "col + 1"] nextCell_frame [where row = row and d = d and col = col and h = h]
      content_mark_trans by (auto simp: rows_kept_def)
qed (simp add: content_mark_def rows_kept_def)

lemma row_cells_content:
  assumes "d \<in> set ds" "Width d \<noteq> 0" "Ch d \<noteq> 0x20" "Ch d \<noteq> 0"
  shows "lastContentCursorRow (row_cells row col ds h) = row"
  using assms
proof (induction ds arbitrary: col h)
  case (Cons e ds)
  show ?case
  proof (cases "d \<in> set ds")
    case False
    then have "lastContentCursorRow (nextCell e row col h) = row" using Cons.prems by (simp add: nextCell_visible)
    then show ?thesis
      using row_cells_frame [where row = row and h = "nextCell e row col h" and col = "col + 1" and ds = ds] by (auto simp: content_mark_def)
  qed (use Cons in simp)
qed simp

section \<open>The end of a row\<close>

definition row_output :: "serialize_handler \<Rightarrow> bytes" where
  "row_output h = currentRow h @
     (if nullCellCount h > 0 \<and> \<not> color_Equals (Bg (cursorStyle h)) (Bg (backgroundCell h))
      then csi_n (nullCellCount h) 0x58 else [])"

lemma rowEnd_eq:
  assumes "rowIndex h = int j" "j < length (allRows h)" "length (allRowSeparators h) = length (allRows h)"
  shows "\<exists>h'. rowEndScreenOnly row isLast w h = Some h' \<and> allRows h' = (allRows h)[j := row_output h] \<and>
     allRowSeparators h' = (allRowSeparators h)[j := if \<not> isLast \<and> \<not> w then [0x0D, 0x0A] else []] \<and>
     rowIndex h' = int (Suc j) \<and> cursorStyle h' = cursorStyle h \<and> firstRow h' = firstRow h \<and>
     lastContentCursorRow h' = (if \<not> isLast \<and> w then row + 1 else lastContentCursorRow h)"
  using assms by (auto simp: rowEndScreenOnly_def Let_def emit_def row_output_def)

lemma drawing_row_end:
  assumes dr: "drawing rw st c r upper v0 pre h v p" and rd: "reader c r upper p v" and len: "int (length pre) = c"
  shows "\<exists>v'. feeds rw (row_output h) v0 v' \<and> reader c r upper p v' \<and> style_of v' = style_of v"
proof -
  note D = dr [unfolded drawing_def]
  show ?thesis
  proof (cases "nullCellCount h > 0 \<and> \<not> color_Equals (Bg (cursorStyle h)) (Bg (backgroundCell h))")
    case True
    have "nullCellCount h < 2 ^ 31" using D len readerD(11) [OF rd] by auto
    then obtain v' where v': "feeds rw (csi_n (nullCellCount h) 0x58) v v'" "reader c r upper p v'" "style_of v' = style_of v"
      using feeds_erase [OF rd conjunct1 [OF True], of rw] by blast
    have "feeds rw (row_output h) v0 v'"
      using feeds_append [OF conjunct1 [OF D] v'(1)] True by (simp add: row_output_def)
    with v' show ?thesis by blast
  next
    case False
    then have "row_output h = currentRow h" by (auto simp: row_output_def)
    then show ?thesis using D rd by auto
  qed
qed

text \<open>Joining the rows with their separators.\<close>

lemma join_rows_snoc:
  "rs \<noteq> [] \<Longrightarrow> length rs \<le> length ss \<Longrightarrow> join_rows (rs @ [x]) ss = join_rows rs ss @ ss ! (length rs - 1) @ x"
  by (induction rs ss rule: join_rows.induct) (auto simp: Suc_le_length_iff)

lemma join_rows_update:
  "length rs \<le> Suc k \<Longrightarrow> join_rows rs (ss[k := x]) = join_rows rs ss"
proof (induction rs ss arbitrary: k rule: join_rows.induct)
  case (1 r r' rs s ss)
  then show ?case by (cases k) auto
qed simp_all

section \<open>All rows\<close>

text \<open>Row \<open>k\<close> is drawn up to \<open>p\<close>; above it are the last rows before it that fit on the screen.\<close>

definition rows_above :: "bool \<Rightarrow> int \<Rightarrow> cell list list \<Rightarrow> nat \<Rightarrow> cell list list \<Rightarrow> bool" where
  "rows_above st r src k upper \<longleftrightarrow>
     length upper = min k (nat r - 1) \<and>
     list_all2 (list_all2 (restored st)) (drop (k - length upper) (take k src)) upper"

definition row_drawn :: "bool \<Rightarrow> cell list \<Rightarrow> cell list \<Rightarrow> bool" where
  "row_drawn st src p \<longleftrightarrow>
     length p \<le> length src \<and> list_all2 (restored st) (take (length p) src) p \<and>
     (\<forall>d \<in> set (drop (length p) src). Ch d = 0x20)"

lemma row_drawn_full:
  "row_drawn st src p \<Longrightarrow> int (length src) = c \<Longrightarrow> list_all2 (restored st) src (p @ blank_cells (c - int (length p)))"
  unfolding row_drawn_def by (rule restored_flushed) auto

lemma rows_above_advance:
  assumes up: "rows_above st r src k upper" and k: "k < length src" "0 < r" and full: "list_all2 (restored st) (src ! k) row"
  shows "rows_above st r src (Suc k) (advance r upper row)"
proof -
  let ?n = "length upper"
  have len: "?n = min k (nat r - 1)" and L: "list_all2 (list_all2 (restored st)) (drop (k - ?n) (take k src)) upper"
    using up unfolding rows_above_def by blast+
  have T: "take (Suc k) src = take k src @ [src ! k]" using k(1) by (rule take_Suc_conv_app_nth)
  have D: "drop (k - ?n) (take (Suc k) src) = drop (k - ?n) (take k src) @ [src ! k]" using T k(1) by simp
  have A: "list_all2 (list_all2 (restored st)) (drop (k - ?n) (take (Suc k) src)) (upper @ [row])"
    unfolding D using L full by (simp add: list_all2_appendI)
  show ?thesis
  proof (cases "int ?n + 1 < r")
    case True
    then have "?n = k" "min (Suc k) (nat r - 1) = Suc k" using len by auto
    then show ?thesis using A True by (simp add: rows_above_def advance_def)
  next
    case False
    then have n: "?n = nat r - 1" "?n \<le> k" using len k(2) by auto
    have "list_all2 (list_all2 (restored st)) (tl (drop (k - ?n) (take (Suc k) src))) (tl (upper @ [row]))"
      using A by (cases "drop (k - ?n) (take (Suc k) src)"; cases "upper @ [row]") auto
    moreover have "tl (drop (k - ?n) (take (Suc k) src)) = drop (Suc k - ?n) (take (Suc k) src)"
      using n(2) by (simp add: drop_Suc tl_drop Suc_diff_le)
    moreover have "length (tl (upper @ [row])) = ?n" by simp
    ultimately show ?thesis using False n by (simp add: rows_above_def advance_def)
  qed
qed

text \<open>The drawn screen shows the last rows.\<close>

lemma list_all2_replicate: "\<forall>x \<in> set xs. P x y \<Longrightarrow> length xs = n \<Longrightarrow> list_all2 P xs (replicate n y)"
  by (auto simp: list_all2_conv_all_nth)

lemma page_shows:
  assumes up: "rows_above st r src k upper" and row: "row_drawn st (src ! k) p"
    and src: "k < length src" "\<forall>s \<in> set src. int (length s) = c" "0 < r" "int (length upper) < r"
    and m: "r \<le> int (length src)" "Suc k = length src \<or> int (length src) = r"
    and rest: "\<forall>s \<in> set (drop (Suc k) src). \<forall>d \<in> set s. Ch d = 0x20"
  shows "list_all2 (list_all2 (restored st)) (drop (length src - nat r) src) (page c r upper p)"
proof -
  let ?n = "length upper"
  have len: "?n = min k (nat r - 1)" and L: "list_all2 (list_all2 (restored st)) (drop (k - ?n) (take k src)) upper"
    using up unfolding rows_above_def by blast+
  have k: "k - ?n = length src - nat r" using m len src(1,3) by auto
  have split: "drop (k - ?n) src = drop (k - ?n) (take k src) @ src ! k # drop (Suc k) src"
  proof -
    have "src = take k src @ src ! k # drop (Suc k) src" using src(1) by (rule id_take_nth_drop)
    then have "drop (k - ?n) src = drop (k - ?n) (take k src @ src ! k # drop (Suc k) src)" by simp
    then show ?thesis using src(1) by simp
  qed
  have full: "list_all2 (restored st) (src ! k) (p @ blank_cells (c - int (length p)))"
    by (rule row_drawn_full [OF row]) (use src in simp)
  have "length (drop (Suc k) src) = nat (r - int ?n - 1)" using m len src by auto
  moreover have "list_all2 (restored st) s (blank_cells c)" if "s \<in> set (drop (Suc k) src)" for s
  proof (rule restored_blanks)
    have "int (length s) = c" using that src(2) by (meson in_set_dropD)
    then show "length s = nat c" by simp
    show "\<forall>d \<in> set s. Ch d = 0x20" using rest that by blast
  qed
  ultimately have "list_all2 (list_all2 (restored st)) (drop (Suc k) src) (replicate (nat (r - int ?n - 1)) (blank_cells c))"
    by (intro list_all2_replicate) auto
  with full have "list_all2 (list_all2 (restored st)) (src ! k # drop (Suc k) src)
      ((p @ blank_cells (c - int (length p))) # replicate (nat (r - int ?n - 1)) (blank_cells c))" by simp
  from list_all2_appendI [OF L this] show ?thesis unfolding k [symmetric] split page_def .
qed

text \<open>
  The rows to draw: full rows without halves of characters, and where a row is wrapped, the row above ends
  and the row itself begins with a visible character.
\<close>

definition drawable :: "(rune \<Rightarrow> int) \<Rightarrow> int \<Rightarrow> cell list list \<Rightarrow> bool list \<Rightarrow> bool" where
  "drawable rw c src wrapped \<longleftrightarrow>
     length wrapped = length src \<and> (\<forall>row \<in> set src. glyph_row rw row \<and> int (length row) = c) \<and>
     (\<forall>i. Suc i < length src \<and> wrapped ! Suc i \<longrightarrow> Ch (last (src ! i)) \<noteq> 0x20 \<and> Ch (hd (src ! Suc i)) \<noteq> 0x20)"

definition plain_rows :: "cell list list \<Rightarrow> bool" where
  "plain_rows src \<longleftrightarrow> (\<forall>row \<in> set src. \<forall>d \<in> set row. plain_style d)"

text \<open>From the end of a row to the place of the next one.\<close>

lemma row_drawn_to_end:
  assumes "row_drawn st row p" "row \<noteq> []" "Ch (last row) \<noteq> 0x20"
  shows "length p = length row"
proof (rule ccontr)
  assume "length p \<noteq> length row"
  then have "length p < length row" using assms(1) by (simp add: row_drawn_def)
  then have "last row \<in> set (drop (length p) row)" by (metis drop_eq_Nil last_drop last_in_set not_le)
  then show False using assms(1,3) by (auto simp: row_drawn_def)
qed

lemma next_row_place:
  assumes rd: "reader c r upper p v" and up: "rows_above st r src k upper" and row: "row_drawn st (src ! k) p"
    and ok: "drawable rw c src wrapped" and k: "Suc k < length src"
  shows "\<exists>v1 upper1. feeds rw (if wrapped ! Suc k then [] else [0x0D, 0x0A]) v v1 \<and> place c r upper1 [] v1 \<and>
     (reader c r upper1 [] v1 \<or> Ch (hd (src ! Suc k)) \<noteq> 0x20) \<and> rows_above st r src (Suc k) upper1 \<and>
     style_of v1 = style_of v"
proof -
  note D = readerD [OF rd]
  let ?row = "p @ blank_cells (c - int (length p))"
  have "int (length (src ! k)) = c" using ok k by (simp add: drawable_def)
  then have len: "int (length (src ! k)) = c" "src ! k \<noteq> []" using D(10) by auto
  have above: "rows_above st r src (Suc k) (advance r upper ?row)"
    by (rule rows_above_advance [OF up _ _ row_drawn_full [OF row len(1)]]) (use k D in simp_all)
  show ?thesis
  proof (cases "wrapped ! Suc k")
    case False
    obtain v1 where "feeds rw [0x0D, 0x0A] v v1" "reader c r (advance r upper ?row) [] v1" "style_of v1 = style_of v"
      using feeds_crlf [OF rd] by blast
    then show ?thesis using False above by (intro exI [of _ v1] exI [of _ "advance r upper ?row"]) (simp add: place_def)
  next
    case True
    then have ends: "Ch (last (src ! k)) \<noteq> 0x20" "Ch (hd (src ! Suc k)) \<noteq> 0x20" using ok k by (auto simp: drawable_def)
    then have "int (length p) = c" using row_drawn_to_end [OF row len(2)] len(1) by simp
    moreover from this have "?row = p" by (simp add: blank_cells_def)
    ultimately have "pending c r (advance r upper ?row) v" using rd by (auto simp: pending_def)
    then show ?thesis
      using True above ends by (intro exI [of _ v] exI [of _ "advance r upper ?row"]) (simp add: place_def)
  qed
qed

text \<open>A whole row.\<close>

lemma draw_row:
  assumes pl: "place c r upper [] v" and start: "reader c r upper [] v \<or> Ch (hd row) \<noteq> 0x20"
    and row: "glyph_row rw row" "int (length row) = c" "row \<noteq> []" "st \<Longrightarrow> \<forall>d \<in> set row. plain_style d"
    and h: "currentRow h = []" "nullCellCount h = 0" "st \<Longrightarrow> plain_style (cursorStyle h) \<and> wears (cursorStyle h) v"
  shows "\<exists>v' p. feeds rw (row_output (row_cells y 0 row h)) v v' \<and> reader c r upper p v' \<and> row_drawn st row p \<and>
     (st \<longrightarrow> plain_style (cursorStyle (row_cells y 0 row h)) \<and> wears (cursorStyle (row_cells y 0 row h)) v')"
proof -
  have "drawing rw st c r upper v [] h v []" using pl h by (simp add: drawing_def)
  from row_cells_drawing [OF row(1) this, of y 0] row(2-4) start h(2)
  obtain v1 p where v1: "drawing rw st c r upper v row (row_cells y 0 row h) v1 p" "reader c r upper p v1" by auto
  obtain v2 where v2: "feeds rw (row_output (row_cells y 0 row h)) v v2" "reader c r upper p v2" "style_of v2 = style_of v1"
    using drawing_row_end [OF v1 row(2)] by blast
  have "length p \<le> length row" using v1(1) by (simp add: drawing_def)
  then show ?thesis
    using v1(1) v2 by (intro exI [of _ v2] exI [of _ p]) (auto simp: drawing_def row_drawn_def wears_def)
qed

section \<open>The loop over the rows\<close>

text \<open>What the first \<open>i\<close> rows of the output draw; \<open>lo\<close> is the number of the first row.\<close>

definition progress ::
  "(rune \<Rightarrow> int) \<Rightarrow> bool \<Rightarrow> int \<Rightarrow> int \<Rightarrow> cell list list \<Rightarrow> vt \<Rightarrow> int \<Rightarrow> serialize_handler \<Rightarrow> nat \<Rightarrow> bool" where
  "progress rw st c r src v0 lo h i \<longleftrightarrow>
     (\<exists>v p upper d. feeds rw (join_rows (take i (allRows h)) (allRowSeparators h)) v0 v \<and> reader c r upper p v \<and>
        rows_above st r src (i - 1) upper \<and> row_drawn st (src ! (i - 1)) p \<and> (st \<longrightarrow> plain_style d \<and> wears d v) \<and>
        (int i = rowIndex h \<or> lastContentCursorRow h < lo + int i \<longrightarrow> d = cursorStyle h))"

definition rows_done ::
  "(rune \<Rightarrow> int) \<Rightarrow> bool \<Rightarrow> int \<Rightarrow> int \<Rightarrow> cell list list \<Rightarrow> bool list \<Rightarrow> vt \<Rightarrow> int \<Rightarrow> serialize_handler \<Rightarrow> nat \<Rightarrow> bool" where
  "rows_done rw st c r src wrapped v0 lo h j \<longleftrightarrow>
     rowIndex h = int j \<and> length (allRows h) = length src \<and> length (allRowSeparators h) = length src \<and> firstRow h = lo \<and>
     lo \<le> lastContentCursorRow h \<and> lastContentCursorRow h \<le> lo + int j \<and> lastContentCursorRow h < lo + int (length src) \<and>
     (\<forall>i < j. lastContentCursorRow h < lo + int i \<longrightarrow> (\<forall>d \<in> set (src ! i). Ch d = 0x20)) \<and>
     (\<forall>i < j. allRowSeparators h ! i = (if Suc i < length src \<and> \<not> wrapped ! Suc i then [0x0D, 0x0A] else [])) \<and>
     (\<forall>i. 0 < i \<and> i \<le> j \<longrightarrow> progress rw st c r src v0 lo h i)"

text \<open>One turn of the loop.\<close>

definition ser_row :: "int \<Rightarrow> cell list list \<Rightarrow> bool list \<Rightarrow> nat \<Rightarrow> serialize_handler \<Rightarrow> serialize_handler option" where
  "ser_row lo src wrapped j h =
     rowEndScreenOnly (lo + int j) (Suc j = length src) (Suc j < length src \<and> wrapped ! Suc j)
       (row_cells (lo + int j) 0 (src ! j) (h\<lparr>currentRow := [], nullCellCount := 0\<rparr>))"

lemma glyph_visible:
  assumes "glyph_row rw row" "d \<in> set row" "Ch d \<noteq> 0x20"
  shows "\<exists>e \<in> set row. Width e \<noteq> 0 \<and> Ch e \<noteq> 0x20 \<and> Ch e \<noteq> 0"
  using assms
proof (induction rule: glyph_row.induct)
  case (glyph_narrow e es)
  then have "Ch e \<noteq> 0" by (auto simp: printable_rune_def)
  then show ?case using glyph_narrow.hyps by auto
next
  case (glyph_wide e es)
  then have "Ch e \<noteq> 0" by (auto simp: printable_rune_def)
  then show ?case using glyph_wide.hyps by auto
qed auto

text \<open>The place where row \<open>j\<close> begins.\<close>

lemma row_start:
  assumes dn: "rows_done rw st c r src wrapped v0 lo h j" and ok: "drawable rw c src wrapped" and j: "j < length src"
    and first: "j = 0 \<Longrightarrow> reader c r [] [] v0 \<and> (st \<longrightarrow> plain_style (cursorStyle h) \<and> wears (cursorStyle h) v0)"
  shows "\<exists>v upper. feeds rw (join_rows (take j (allRows h)) (allRowSeparators h) @ (if j = 0 then [] else allRowSeparators h ! (j - 1))) v0 v \<and>
     place c r upper [] v \<and> (reader c r upper [] v \<or> Ch (hd (src ! j)) \<noteq> 0x20) \<and> rows_above st r src j upper \<and>
     (st \<longrightarrow> plain_style (cursorStyle h) \<and> wears (cursorStyle h) v)"
proof (cases j)
  case 0
  then show ?thesis
    using first by (intro exI [of _ v0] exI [of _ "[]"]) (simp add: place_def rows_above_def)
next
  case (Suc k)
  then have "progress rw st c r src v0 lo h (Suc k)" using dn by (simp add: rows_done_def)
  then obtain v p upper where v: "feeds rw (join_rows (take j (allRows h)) (allRowSeparators h)) v0 v" "reader c r upper p v"
    "rows_above st r src k upper" "row_drawn st (src ! k) p"
    "st \<longrightarrow> plain_style (cursorStyle h) \<and> wears (cursorStyle h) v"
    using dn Suc by (auto simp: progress_def rows_done_def)
  obtain v1 upper1 where v1: "feeds rw (if wrapped ! Suc k then [] else [0x0D, 0x0A]) v v1" "place c r upper1 [] v1"
     "reader c r upper1 [] v1 \<or> Ch (hd (src ! Suc k)) \<noteq> 0x20" "rows_above st r src (Suc k) upper1" "style_of v1 = style_of v"
    using next_row_place [OF v(2-4) ok] j Suc by blast
  have "allRowSeparators h ! k = (if wrapped ! Suc k then [] else [0x0D, 0x0A])"
    using dn Suc j by (simp add: rows_done_def)
  then show ?thesis
    using feeds_append [OF v(1) v1(1)] v1 v(5) Suc by (intro exI [of _ v1] exI [of _ upper1]) (auto simp: wears_def)
qed

text \<open>What a turn does to the fields of the handler.\<close>

lemma ser_row_fields:
  assumes dn: "rows_done rw st c r src wrapped v0 lo h j" and j: "j < length src"
  defines "h1 \<equiv> row_cells (lo + int j) 0 (src ! j) (h\<lparr>currentRow := [], nullCellCount := 0\<rparr>)"
  obtains h' where "ser_row lo src wrapped j h = Some h'"
    "allRows h' = (allRows h)[j := row_output h1]"
    "allRowSeparators h' = (allRowSeparators h)[j := if Suc j < length src \<and> \<not> wrapped ! Suc j then [0x0D, 0x0A] else []]"
    "rowIndex h' = int (Suc j)" "cursorStyle h' = cursorStyle h1" "firstRow h' = lo"
    "lastContentCursorRow h' = (if Suc j < length src \<and> wrapped ! Suc j then lo + int (Suc j) else lastContentCursorRow h1)"
    "content_mark (lo + int j) h h1"
proof -
  have fr: "content_mark (lo + int j) (h\<lparr>currentRow := [], nullCellCount := 0\<rparr>) h1"
    "rows_kept (h\<lparr>currentRow := [], nullCellCount := 0\<rparr>) h1"
    unfolding h1_def using row_cells_frame by blast+
  have f: "rowIndex h1 = int j" "j < length (allRows h1)" "length (allRowSeparators h1) = length (allRows h1)"
    "allRows h1 = allRows h" "allRowSeparators h1 = allRowSeparators h" "firstRow h1 = lo"
    using fr(2) dn j by (auto simp: rows_kept_def rows_done_def)
  have mark: "content_mark (lo + int j) h h1" using fr(1) by (simp add: content_mark_def)
  have last: "Suc j \<noteq> length src \<longleftrightarrow> Suc j < length src" using j by auto
  from rowEnd_eq [OF f(1-3), of "lo + int j" "Suc j = length src" "Suc j < length src \<and> wrapped ! Suc j"] obtain h'
    where "rowEndScreenOnly (lo + int j) (Suc j = length src) (Suc j < length src \<and> wrapped ! Suc j) h1 = Some h'"
      "allRows h' = (allRows h)[j := row_output h1]"
      "allRowSeparators h' = (allRowSeparators h)[j := if Suc j < length src \<and> \<not> wrapped ! Suc j then [0x0D, 0x0A] else []]"
      "rowIndex h' = int (Suc j)" "cursorStyle h' = cursorStyle h1" "firstRow h' = lo"
      "lastContentCursorRow h' = (if Suc j < length src \<and> wrapped ! Suc j then lo + int (Suc j) else lastContentCursorRow h1)"
    unfolding f(4-6) last by (auto simp: ac_simps)
  with that mark show thesis unfolding ser_row_def h1_def by blast
qed

lemma progress_kept:
  assumes pr: "progress rw st c r src v0 lo h i" and i: "0 < i" "i \<le> j" and ri: "rowIndex h = int j" "rowIndex h' = int (Suc j)"
    and rs: "allRows h' = (allRows h)[j := x]" "allRowSeparators h' = (allRowSeparators h)[j := y]"
    and style: "lastContentCursorRow h' < lo + int i \<Longrightarrow>
      lastContentCursorRow h' = lastContentCursorRow h \<and> cursorStyle h' = cursorStyle h"
  shows "progress rw st c r src v0 lo h' i"
proof -
  have "take i (allRows h') = take i (allRows h)" unfolding rs using i by simp
  moreover have "join_rows (take i (allRows h)) (allRowSeparators h') = join_rows (take i (allRows h)) (allRowSeparators h)"
    unfolding rs by (rule join_rows_update) (use i in simp)
  moreover have "int i = rowIndex h' \<or> lastContentCursorRow h' < lo + int i \<Longrightarrow>
      (int i = rowIndex h \<or> lastContentCursorRow h < lo + int i) \<and> cursorStyle h' = cursorStyle h"
    using style ri i by auto
  ultimately show ?thesis using pr unfolding progress_def by metis
qed

lemma join_rows_next:
  assumes "j < length rs" "length ss = length rs"
  shows "join_rows (take (Suc j) (rs[j := x])) (ss[j := y]) =
     join_rows (take j rs) ss @ (if j = 0 then [] else ss ! (j - 1)) @ x"
proof -
  have t: "take (Suc j) (rs[j := x]) = take j rs @ [x]" using assms by (simp add: take_Suc_conv_app_nth)
  have "join_rows (take j rs @ [x]) (ss[j := y]) = join_rows (take j rs @ [x]) ss"
    by (rule join_rows_update) (use assms in simp)
  also have "\<dots> = join_rows (take j rs) ss @ (if j = 0 then [] else ss ! (j - 1)) @ x"
  proof (cases "j = 0")
    case False
    then have "take j rs \<noteq> []" using assms by auto
    then show ?thesis using assms False join_rows_snoc [of "take j rs" ss x] by simp
  qed simp
  finally show ?thesis unfolding t .
qed

lemma rows_step:
  assumes dn: "rows_done rw st c r src wrapped v0 lo h j" and ok: "drawable rw c src wrapped" and j: "j < length src"
    and pl: "st \<Longrightarrow> plain_rows src" and c: "0 < c"
    and first: "j = 0 \<Longrightarrow> reader c r [] [] v0 \<and> (st \<longrightarrow> plain_style (cursorStyle h) \<and> wears (cursorStyle h) v0)"
  shows "\<exists>h'. ser_row lo src wrapped j h = Some h' \<and> rows_done rw st c r src wrapped v0 lo h' (Suc j)"
proof -
  let ?h = "h\<lparr>currentRow := [], nullCellCount := 0\<rparr>"
  let ?h1 = "row_cells (lo + int j) 0 (src ! j) ?h"
  note D = dn [unfolded rows_done_def]
  have row: "glyph_row rw (src ! j)" "int (length (src ! j)) = c" "st \<Longrightarrow> \<forall>d \<in> set (src ! j). plain_style d"
    using ok pl j by (auto simp: drawable_def plain_rows_def)
  have ne: "src ! j \<noteq> []" using row(2) c by auto
  obtain v upper where v: "feeds rw (join_rows (take j (allRows h)) (allRowSeparators h) @
       (if j = 0 then [] else allRowSeparators h ! (j - 1))) v0 v" "place c r upper [] v"
     "reader c r upper [] v \<or> Ch (hd (src ! j)) \<noteq> 0x20" "rows_above st r src j upper"
     "st \<longrightarrow> plain_style (cursorStyle h) \<and> wears (cursorStyle h) v"
    using row_start [OF dn ok j first] by blast
  obtain v' p where v': "feeds rw (row_output ?h1) v v'" "reader c r upper p v'" "row_drawn st (src ! j) p"
    "st \<longrightarrow> plain_style (cursorStyle ?h1) \<and> wears (cursorStyle ?h1) v'"
    using draw_row [OF v(2,3) row(1,2) ne row(3), of st ?h "lo + int j"] v(5) by auto
  obtain h' where h': "ser_row lo src wrapped j h = Some h'"
    "allRows h' = (allRows h)[j := row_output ?h1]"
    "allRowSeparators h' = (allRowSeparators h)[j := if Suc j < length src \<and> \<not> wrapped ! Suc j then [0x0D, 0x0A] else []]"
    "rowIndex h' = int (Suc j)" "cursorStyle h' = cursorStyle ?h1" "firstRow h' = lo"
    "lastContentCursorRow h' = (if Suc j < length src \<and> wrapped ! Suc j then lo + int (Suc j) else lastContentCursorRow ?h1)"
    "content_mark (lo + int j) h ?h1"
    using ser_row_fields [OF dn j] by blast
  have "length (allRows h) = length src" "length (allRowSeparators h) = length src" using D by blast+
  then have "join_rows (take (Suc j) (allRows h')) (allRowSeparators h') =
      (join_rows (take j (allRows h)) (allRowSeparators h) @ (if j = 0 then [] else allRowSeparators h ! (j - 1))) @ row_output ?h1"
    unfolding h'(2,3) using j by (simp add: join_rows_next)
  then have "feeds rw (join_rows (take (Suc j) (allRows h')) (allRowSeparators h')) v0 v'"
    using feeds_append [OF v(1) v'(1)] by simp
  then have new: "progress rw st c r src v0 lo h' (Suc j)"
    unfolding progress_def using v'(2-4) v(4) h'(5)
    by (intro exI [of _ v'] exI [of _ p] exI [of _ upper] exI [of _ "cursorStyle ?h1"]) simp
  have bound: "lo \<le> lastContentCursorRow h'" "lastContentCursorRow h' \<le> lo + int (Suc j)"
    "lastContentCursorRow h' < lo + int (length src)"
    using D h'(7,8) j by (auto simp: content_mark_def)
  have mono: "lastContentCursorRow h \<le> lastContentCursorRow h'"
    using D h'(7,8) by (auto simp: content_mark_def)
  have blank: "\<forall>d \<in> set (src ! i). Ch d = 0x20" if "i < Suc j" "lastContentCursorRow h' < lo + int i" for i
  proof (cases "i = j")
    case True
    show ?thesis
    proof (rule ccontr)
      assume "\<not> ?thesis"
      then obtain d where "d \<in> set (src ! j)" "Ch d \<noteq> 0x20" using True by auto
      then have "lastContentCursorRow ?h1 = lo + int j" using glyph_visible [OF row(1)] row_cells_content by metis
      then show False using that True h'(7) by (simp split: if_splits)
    qed
  next
    case False
    then have "i < j" "lastContentCursorRow h < lo + int i" using that mono by auto
    then show ?thesis using D by blast
  qed
  have keep: "progress rw st c r src v0 lo h' i" if "0 < i" "i \<le> j" for i
  proof (rule progress_kept [OF _ that _ h'(4) h'(2,3)])
    show "lastContentCursorRow h' = lastContentCursorRow h \<and> cursorStyle h' = cursorStyle h"
      if "lastContentCursorRow h' < lo + int i"
      using that \<open>i \<le> j\<close> h'(5,7,8) by (auto simp: content_mark_def split: if_splits)
  qed (use D that in auto)
  have "rows_done rw st c r src wrapped v0 lo h' (Suc j)"
    unfolding rows_done_def
    using bound blank keep new D h'(2-4,6) j by (auto simp: nth_list_update less_Suc_eq le_Suc_eq)
  with h'(1) show ?thesis by blast
qed

lemma rows_loop:
  assumes start: "rows_done rw st c r src wrapped v0 lo h0 0" "reader c r [] [] v0"
    "st \<longrightarrow> plain_style (cursorStyle h0) \<and> wears (cursorStyle h0) v0"
    and ok: "drawable rw c src wrapped" "st \<Longrightarrow> plain_rows src"
    and body: "\<And>j h. j < length src \<Longrightarrow> body (lo + int j) h = ser_row lo src wrapped j h"
  shows "j \<le> length src \<Longrightarrow> \<exists>h. for_up lo (lo + int j) body h0 = Some h \<and> rows_done rw st c r src wrapped v0 lo h j \<and>
     (j = 0 \<longrightarrow> h = h0)"
proof (induction j)
  case 0
  then show ?case using start by (simp add: for_up_def)
next
  case (Suc j)
  then obtain h where h: "for_up lo (lo + int j) body h0 = Some h" "rows_done rw st c r src wrapped v0 lo h j" "j = 0 \<longrightarrow> h = h0"
    by auto
  have "j < length src" using Suc.prems by simp
  from rows_step [OF h(2) ok(1) this ok(2) readerD(10) [OF start(2)]] start(2,3) h(3)
  obtain h' where "ser_row lo src wrapped j h = Some h'" "rows_done rw st c r src wrapped v0 lo h' (Suc j)" by auto
  then show ?case using h(1) body [OF \<open>j < length src\<close>, of h] unfolding for_up_Suc by auto
qed

section \<open>From the terminal to its rows\<close>

text \<open>The rows from row \<open>lo\<close> on, with their wrap flags.\<close>

definition rows_from :: "int \<Rightarrow> vt \<Rightarrow> cell list list" where
  "rows_from lo vt = drop (nat lo) (historyStyled vt @ cells vt)"

definition wraps_from :: "int \<Rightarrow> vt \<Rightarrow> bool list" where
  "wraps_from lo vt = drop (nat lo) (historyIsWrapped vt @ isWrapped vt)"

lemma rows_from_wf:
  assumes "vt_wf vt" "0 \<le> lo" "lo \<le> int (length (historyStyled vt))"
  shows "int (length (rows_from lo vt)) = int (length (historyStyled vt)) + rows vt - lo"
    and "drop (length (rows_from lo vt) - nat (rows vt)) (rows_from lo vt) = cells vt"
proof -
  have r: "int (length (cells vt)) = rows vt" using assms(1) by (simp add: vt_wf_def body_wf_def grid_ok_def)
  then show len: "int (length (rows_from lo vt)) = int (length (historyStyled vt)) + rows vt - lo"
    using assms by (simp add: rows_from_def)
  have n: "length (rows_from lo vt) - nat (rows vt) + nat lo = length (historyStyled vt)"
    using len r assms(2,3) by linarith
  have "drop n (rows_from lo vt) = drop (n + nat lo) (historyStyled vt @ cells vt)" for n
    by (simp only: rows_from_def drop_drop)
  then show "drop (length (rows_from lo vt) - nat (rows vt)) (rows_from lo vt) = cells vt"
    using n by simp
qed

lemma nth_from:
  assumes "k \<le> length xs"
  shows "drop k (xs @ ys) ! j = (if k + j < length xs then xs ! (k + j) else ys ! (k + j - length xs))"
proof -
  have "drop k (xs @ ys) ! j = (xs @ ys) ! (k + j)" by (rule nth_drop) (use assms in simp)
  then show ?thesis by (simp only: nth_append)
qed

lemma history_row_ser:
  assumes wf: "vt_wf vt" and lo: "0 \<le> lo" "lo \<le> hl" and hl: "hl = int (length (historyStyled vt))"
    and j: "j < length (rows_from lo vt)"
  shows "history_row vt hl (hl + rows vt - 1) (lo + int j) h = ser_row lo (rows_from lo vt) (wraps_from lo vt) j h"
proof -
  have r: "int (length (cells vt)) = rows vt" "int (length (isWrapped vt)) = rows vt"
    "length (historyIsWrapped vt) = length (historyStyled vt)"
    using wf by (auto simp: vt_wf_def body_wf_def grid_ok_def)
  have m: "int (length (rows_from lo vt)) = hl + rows vt - lo" using rows_from_wf(1) [OF wf lo(1)] lo(2) hl by simp
  have n: "nat (lo + int j) = nat lo + j" "nat (lo + int j - hl) = nat lo + j - length (historyStyled vt)"
    "nat (lo + int j + 1) = nat lo + Suc j" "nat (lo + int j + 1 - hl) = nat lo + Suc j - length (historyStyled vt)"
    using lo hl by auto
  have k: "nat lo \<le> length (historyStyled vt)" "nat lo \<le> length (historyIsWrapped vt)" using lo hl r by linarith+
  have row: "\<exists>w. buffer_row vt hl (lo + int j) = Some (rows_from lo vt ! j, w)"
  proof (cases "lo + int j < hl")
    case True
    then have "nat lo + j < length (historyStyled vt)" using hl lo by linarith
    then show ?thesis using True hl lo r n(1) by (simp add: buffer_row_def rows_from_def nth_from [OF k(1)] del: drop_append)
  next
    case False
    then have "\<not> nat lo + j < length (historyStyled vt)" "lo + int j - hl < rows vt" using hl lo m j by linarith+
    then show ?thesis using False hl lo r n(2) by (simp add: buffer_row_def rows_from_def nth_from [OF k(1)] del: drop_append)
  qed
  have flag: "wrap_flag vt (lo + int j + 1) = Some (wraps_from lo vt ! Suc j)" if "Suc j < length (rows_from lo vt)"
  proof (cases "lo + int j + 1 < hl")
    case True
    then have "nat lo + Suc j < length (historyStyled vt)" using hl lo by linarith
    then show ?thesis using True hl lo r n(3) by (simp add: wrap_flag_def wraps_from_def nth_from [OF k(2)] del: drop_append)
  next
    case False
    then have "\<not> nat lo + Suc j < length (historyStyled vt)" "lo + int j + 1 - hl < rows vt" using hl lo m that by linarith+
    then show ?thesis using False hl lo r n(4) by (simp add: wrap_flag_def wraps_from_def nth_from [OF k(2)] del: drop_append)
  qed
  have last: "lo + int j = hl + rows vt - 1 \<longleftrightarrow> Suc j = length (rows_from lo vt)"
    "lo + int j + 1 < hl \<or> lo + int j + 1 \<ge> hl \<and> lo + int j + 1 - hl < rows vt \<longleftrightarrow> Suc j < length (rows_from lo vt)"
    using m lo r(1) by linarith+
  show ?thesis
  proof (cases "Suc j < length (rows_from lo vt)")
    case True
    then show ?thesis
      using row flag [OF True] unfolding history_row_def rowEndWithWrap_def ser_row_def last by auto
  next
    case False
    then have "Suc j = length (rows_from lo vt)" using j by simp
    then show ?thesis
      using row unfolding history_row_def rowEndWithWrap_def ser_row_def last by auto
  qed
qed

lemma fresh_reader:
  assumes "0 < c" "c < 2 ^ 31" "0 < r" "r < 2 ^ 31"
  shows "reader c r [] [] (note_first_data (NewVirtualTerminal c r k))"
    and "wears (NewCell 0x20) (note_first_data (NewVirtualTerminal c r k))"
proof -
  have "nat r = Suc (nat (r - 1))" using assms by simp
  then have "cells (NewVirtualTerminal c r k) = page c r [] []"
    using assms by (simp add: NewVirtualTerminal_def initScreen_def page_def)
  then show "reader c r [] [] (note_first_data (NewVirtualTerminal c r k))"
    using assms NewVirtualTerminal_wf [OF assms(2,4), of k]
    by (simp add: reader_def) (simp add: NewVirtualTerminal_def initScreen_def)
  show "wears (NewCell 0x20) (note_first_data (NewVirtualTerminal c r k))"
    by (simp add: wears_def style_of_def NewCell_def note_first_data_def NewVirtualTerminal_def initScreen_def)
qed

lemma start_rows_done:
  assumes "start_rows lo (lo + int (length src) - 1) newStringSerializeHandler = Some h0" "src \<noteq> []"
  shows "rows_done rw st c r src wrapped v0 lo h0 0" "cursorStyle h0 = NewCell 0x20"
  using assms by (auto simp: start_rows_def rows_done_def newStringSerializeHandler_def Let_def)

lemma row_limit_bounds:
  assumes dn: "rows_done rw st c (rows vt) src wrapped v0 lo h (length src)" and src: "src \<noteq> []" "rows vt \<le> int (length src)"
  defines "n \<equiv> nat (row_limit vt lo (lo + int (length src) - 1) h)"
  shows "0 < n" "n \<le> length src" "lastContentCursorRow h < lo + int n" "n = length src \<or> int (length src) = rows vt"
  using dn src unfolding n_def rows_done_def row_limit_def by (auto simp: Let_def)

lemma plain_blank: "plain_style (NewCell ch)"
  by (simp add: plain_style_def NewCell_def known_attrs_def AttrNone_def Has_def)

text \<open>The rows of the output draw the screen.\<close>

lemma rows_redraw:
  fixes k :: int
  assumes wf: "vt_wf vt" and lo: "0 \<le> lo" "lo \<le> int (length (historyStyled vt))"
    and ok: "drawable rw (cols vt) (rows_from lo vt) (wraps_from lo vt)" "st \<Longrightarrow> plain_rows (rows_from lo vt)"
  defines "v0 \<equiv> note_first_data (NewVirtualTerminal (cols vt) (rows vt) k)"
    and "hi \<equiv> int (length (historyStyled vt)) + rows vt - 1"
  shows "\<exists>h0 h v p upper. start_rows lo hi newStringSerializeHandler = Some h0 \<and>
     for_up lo (hi + 1) (history_row vt (int (length (historyStyled vt))) hi) h0 = Some h \<and>
     feeds rw (join_rows (take (nat (row_limit vt lo hi h)) (allRows h)) (allRowSeparators h)) v0 v \<and>
     reader (cols vt) (rows vt) upper p v \<and> list_all2 (list_all2 (restored st)) (cells vt) (cells v) \<and>
     (st \<longrightarrow> plain_style (cursorStyle h) \<and> wears (cursorStyle h) v)"
proof -
  let ?src = "rows_from lo vt" and ?c = "cols vt" and ?r = "rows vt" and ?w = "wraps_from lo vt"
  have size: "0 < ?c" "?c < 2 ^ 31" "0 < ?r" "?r < 2 ^ 31" using wf by (auto simp: vt_wf_def body_wf_def)
  have m: "int (length ?src) = int (length (historyStyled vt)) + ?r - lo" by (rule rows_from_wf(1) [OF wf lo])
  have ne: "?src \<noteq> []" and big: "?r \<le> int (length ?src)" using m size lo by auto
  have hi: "hi = lo + int (length ?src) - 1" "hi + 1 = lo + int (length ?src)" using m by (simp_all add: hi_def)
  obtain h0 where h0: "start_rows lo hi newStringSerializeHandler = Some h0"
    unfolding hi(1) by (simp add: start_rows_def)
  note h0' = start_rows_done [OF h0 [unfolded hi(1)] ne]
  have first: "st \<longrightarrow> plain_style (cursorStyle h0) \<and> wears (cursorStyle h0) v0"
    using fresh_reader(2) [OF size] plain_blank h0'(2) by (simp add: v0_def)
  have "\<exists>h. for_up lo (lo + int (length ?src)) (history_row vt (int (length (historyStyled vt))) hi) h0 = Some h \<and>
      rows_done rw st ?c ?r ?src ?w v0 lo h (length ?src) \<and> (length ?src = 0 \<longrightarrow> h = h0)"
    by (rule rows_loop [OF h0'(1) fresh_reader(1) [OF size, of k, folded v0_def] first ok _ order_refl])
      (auto simp: hi_def intro!: history_row_ser [OF wf lo])
  then obtain h where h: "for_up lo (hi + 1) (history_row vt (int (length (historyStyled vt))) hi) h0 = Some h"
    "rows_done rw st ?c ?r ?src ?w v0 lo h (length ?src)" unfolding hi(2) by blast
  define n where "n = nat (row_limit vt lo hi h)"
  note lim = row_limit_bounds [OF h(2) ne big, folded hi(1) n_def]
  have "progress rw st ?c ?r ?src v0 lo h n" using h(2) lim(1,2) by (simp add: rows_done_def)
  then obtain v p upper where v: "feeds rw (join_rows (take n (allRows h)) (allRowSeparators h)) v0 v" "reader ?c ?r upper p v"
    "rows_above st ?r ?src (n - 1) upper" "row_drawn st (?src ! (n - 1)) p"
    "st \<longrightarrow> plain_style (cursorStyle h) \<and> wears (cursorStyle h) v"
    using lim(3) unfolding progress_def by blast
  have blank: "Ch d = 0x20" if row: "row \<in> set (drop n ?src)" and d: "d \<in> set row" for row d
  proof -
    obtain q where q: "q < length (drop n ?src)" "row = drop n ?src ! q" using row unfolding in_set_conv_nth by blast
    then have "n + q < length ?src" "row = ?src ! (n + q)" using lim(2) by simp_all
    moreover have "lastContentCursorRow h < lo + int (n + q)" using lim(3) by simp
    ultimately show ?thesis using h(2) d unfolding rows_done_def by blast
  qed
  have "list_all2 (list_all2 (restored st)) (drop (length ?src - nat ?r) ?src) (page ?c ?r upper p)"
    by (rule page_shows [OF v(3,4)]) (use lim ok(1) size big blank readerD(9) [OF v(2)] in \<open>auto simp: drawable_def\<close>)
  then have "list_all2 (list_all2 (restored st)) (cells vt) (cells v)"
    using rows_from_wf(2) [OF wf lo] readerD(5) [OF v(2)] by simp
  with h0 h(1) v show ?thesis unfolding n_def by blast
qed

text \<open>The cell whose style is the current one of the terminal.\<close>

definition current_cell :: "vt \<Rightarrow> cell" where
  "current_cell vt = styled vt 0x20 1"

lemma serialize_redraws:
  fixes k :: int
  assumes wf: "vt_wf vt" and lo: "0 \<le> lo" "lo \<le> int (length (historyStyled vt))"
    and ok: "drawable rw (cols vt) (rows_from lo vt) (wraps_from lo vt)"
      "st \<Longrightarrow> plain_rows (rows_from lo vt) \<and> plain_style (current_cell vt)"
  shows "\<exists>s v. serializeWithHistory vt lo (int (length (historyStyled vt)) + rows vt - 1) (int (length (historyStyled vt))) False = Some s \<and>
     feeds rw s (note_first_data (NewVirtualTerminal (cols vt) (rows vt) k)) v \<and> screen v = screen vt \<and>
     rows v = rows vt \<and> cursorY v = cursorY vt \<and> cursorX v = min (cursorX vt) (cols vt - 1) \<and>
     list_all2 (list_all2 (restored st)) (cells vt) (cells v) \<and> (st \<longrightarrow> style_of v = style_of vt)"
proof -
  let ?v0 = "note_first_data (NewVirtualTerminal (cols vt) (rows vt) k)"
  let ?hl = "int (length (historyStyled vt))" and ?hi = "int (length (historyStyled vt)) + rows vt - 1"
  obtain h0 h v p upper where h: "start_rows lo ?hi newStringSerializeHandler = Some h0"
     "for_up lo (?hi + 1) (history_row vt ?hl ?hi) h0 = Some h"
     and v: "feeds rw (join_rows (take (nat (row_limit vt lo ?hi h)) (allRows h)) (allRowSeparators h)) ?v0 v"
     "reader (cols vt) (rows vt) upper p v" "list_all2 (list_all2 (restored st)) (cells vt) (cells v)"
     "st \<longrightarrow> plain_style (cursorStyle h) \<and> wears (cursorStyle h) v"
    using rows_redraw [OF wf lo ok(1), of st k] ok(2) by blast
  note D = readerD [OF v(2)]
  have cur: "0 \<le> cursorY vt" "cursorY vt < rows vt" "0 \<le> cursorX vt" "cursorX vt \<le> cols vt"
    using wf by (auto simp: vt_wf_def)
  obtain v1 where v1: "feeds rw ([0x1B, 0x5B] @ fmt_d (cursorY vt + 1) @ [semicolon] @ fmt_d (cursorX vt + 1) @ [0x48]) v v1"
     "display v1 = (screen v, cells v, rows vt, cols vt, min (cursorX vt) (cols vt - 1), cursorY vt)"
     "escState v1 = stateNormal" "style_of v1 = style_of v"
    using feeds_cup [OF v(2) cur, of rw] by blast
  obtain v2 where v2: "feeds rw (restore_style vt h) v1 v2" "display v2 = display v1" "st \<longrightarrow> wears (current_cell vt) v2"
  proof (cases "diffStyle (current_cell vt) (cursorStyle h) = []")
    case True
    have "restore_style vt h = []" using True by (simp add: restore_style_def current_cell_def styled_def)
    moreover have "wears (current_cell vt) v1" if st
      using wears_diff [of "current_cell vt" "cursorStyle h" v1] diffStyle_empty [OF True] ok(2) v(4) v1(4) that
      by (simp add: wears_def)
    ultimately show ?thesis using that [of v1] by simp
  next
    case False
    have "restore_style vt h = [0x1B, 0x5B] @ sgr_text (diffStyle (current_cell vt) (cursorStyle h))"
      using False by (simp add: restore_style_def current_cell_def styled_def)
    moreover have "wears (cursorStyle h) v1" if st using that v(4) v1(4) by (simp add: wears_def)
    ultimately show ?thesis using that feeds_sgr [OF v1(3) False, of rw] ok(2) v(4) by metis
  qed
  let ?s = "serializeStringForHistory vt lo ?hi False h"
  have "feeds rw ?s ?v0 v2"
    using feeds_append [OF v(1) feeds_append [OF v1(1) v2(1)]] by (simp add: serializeStringForHistory_def Let_def)
  moreover have "serializeWithHistory vt lo ?hi ?hl False = Some ?s" using h by (simp add: serializeWithHistory_def)
  moreover have "screen v2 = screen vt"
  proof -
    have "map (map Ch) (cells v) = map (map Ch) (cells vt)"
      using v(3) by (auto simp: list_all2_conv_all_nth restored_def intro!: nth_equalityI)
    then show ?thesis using v1(2) v2(2) screen_of_cells [OF wf] screen_of_cells [OF D(1)] by (simp add: display_def)
  qed
  moreover have "style_of v2 = style_of vt" if st
    using v2(3) that by (simp add: wears_def current_cell_def styled_def NewFullStyledCell_def style_of_def)
  ultimately show ?thesis
    using v1(2) v2(2) v(3) by (intro exI [of _ ?s] exI [of _ v2]) (auto simp: display_def)
qed

section \<open>Properties\<close>


text \<open>A screen with a style, a gap, a wrapped line and a wide character.\<close>

definition demo_rows :: "cell list list" where
  "demo_rows =
     (let bold = (\<lambda>ch w. NewFullStyledCell ch (PaletteColor 1) DefaultColor AttrBold w UnderlineNone DefaultColor)
      in [[bold 0x61 1, NewCell 0x20, NewCell 0x62, NewCell 0x63], [bold 0x4E2D 2, bold 0 0, NewCell 0x20, NewCell 0x20]])"

definition demo_vt :: vt where
  "demo_vt = (NewVirtualTerminal 4 2 5)\<lparr>hasData := True, cells := demo_rows, screen := map (map Ch) demo_rows,
     isWrapped := [False, True], cursorX := 2, cursorY := 1\<rparr>"

definition demo_rw :: "rune \<Rightarrow> int" where
  "demo_rw ch = (if ch = 0x4E2D then 2 else 1)"

lemma demo_glyphs: "glyph_row demo_rw (demo_rows ! 0)" "glyph_row demo_rw (demo_rows ! 1)"
proof -
  show "glyph_row demo_rw (demo_rows ! 0)"
    by (simp add: demo_rows_def Let_def)
      (intro glyph_narrow glyph_blank glyph_Nil;
       simp add: NewFullStyledCell_def NewCell_def printable_rune_def scalar_def glyph_width_def demo_rw_def)
  let ?w = "NewFullStyledCell 0x4E2D (PaletteColor 1) DefaultColor AttrBold 2 UnderlineNone DefaultColor"
  have "demo_rows ! 1 = ?w # ?w\<lparr>Ch := 0, Width := 0\<rparr> # [NewCell 0x20, NewCell 0x20]"
    by (simp add: demo_rows_def Let_def NewFullStyledCell_def)
  then show "glyph_row demo_rw (demo_rows ! 1)"
    by simp
      (intro glyph_wide glyph_blank glyph_Nil;
       simp add: NewFullStyledCell_def NewCell_def printable_rune_def scalar_def glyph_width_def demo_rw_def)
qed

lemma demo_drawable: "vt_wf demo_vt" "drawable demo_rw 4 demo_rows [False, True]"
proof -
  show "vt_wf demo_vt"
    by (simp add: demo_vt_def demo_rows_def vt_wf_def body_wf_def grid_ok_def NewVirtualTerminal_def initScreen_def Let_def)
  have two: "demo_rows = [demo_rows ! 0, demo_rows ! 1]" by (simp add: demo_rows_def Let_def)
  have "length demo_rows = 2" "length (demo_rows ! 0) = 4" "length (demo_rows ! 1) = 4"
    "Ch (last (demo_rows ! 0)) = 0x63" "Ch (hd (demo_rows ! 1)) = 0x4E2D"
    by (simp_all add: demo_rows_def Let_def)
  moreover have "glyph_row demo_rw row \<and> int (length row) = 4" if "row \<in> set demo_rows" for row
    using that demo_glyphs calculation by (subst (asm) two) auto
  ultimately show "drawable demo_rw 4 demo_rows [False, True]"
    by (auto simp: drawable_def less_Suc_eq nth_Cons' numeral_2_eq_2)
qed


section \<open>Screens that are not restored\<close>

text \<open>The lines of a terminal that redraws the serialization.\<close>

definition redrawn_lines :: "vt \<Rightarrow> rune list list option" where
  "redrawn_lines vt = Option.bind (Serialize DefaultSerializeOptions vt)
     (\<lambda>s. map_option snd (Feed (\<lambda>_. 1) s (NewVirtualTerminal (cols vt) (rows vt) 5)))"

text \<open>
  Erasing the screen does not reset the wrap flags: two short lines that are printed where a wrapped line was
  come back as one.
\<close>

theorem erased_wrap_joins_lines:
  "Option.bind (Feed (\<lambda>_. 1) [0x61, 0x62, 0x63, 0x64, 0x1B, 0x5B, 0x32, 0x4A, 0x1B, 0x5B, 0x48, 0x78, 0x0D, 0x0A, 0x79]
     (NewVirtualTerminal 3 2 5)) (\<lambda>(vt, lines). map_option (\<lambda>r. (lines, r)) (redrawn_lines vt)) =
   Some ([[0x78], [0x79]], [[0x78, 0x79], []])"
  by code_simp

text \<open>The alternative screen starts with the wrap flags of the main screen.\<close>

theorem alt_screen_inherits_wraps:
  "Option.bind (Feed (\<lambda>_. 1) ([0x61, 0x62, 0x63, 0x64] @ enterAltSeq @ [0x78, 0x0D, 0x0A, 0x79]) (NewVirtualTerminal 3 2 5))
     (\<lambda>(vt, lines). map_option (\<lambda>r. (lines, r)) (redrawn_lines vt)) =
   Some ([[0x78], [0x79]], [[0x78, 0x79], []])"
  by code_simp

text \<open>A space printed in inverse video is a visible block; the serializer skips it like an empty cell.\<close>

theorem inverse_space_is_lost:
  "map_option (\<lambda>(vt, _). (Has (Attrs (cells vt ! 0 ! 0)) AttrInverse,
      map_option (\<lambda>(v, _). Has (Attrs (cells v ! 0 ! 0)) AttrInverse)
        (Option.bind (Serialize DefaultSerializeOptions vt) (\<lambda>s. Feed (\<lambda>_. 1) s (NewVirtualTerminal 3 2 5)))))
     (Feed (\<lambda>_. 1) [0x1B, 0x5B, 0x37, 0x6D, 0x20, 0x1B, 0x5B, 0x6D, 0x61] (NewVirtualTerminal 3 2 5)) =
   Some (True, Some False)"
  by code_simp

text \<open>A snapshot is meant to leave the history out, but 0 lines of it mean all of it.\<close>

theorem snapshot_includes_history:
  "Option.bind (Feed (\<lambda>_. 1) [0x61, 0x0D, 0x0A, 0x62] (NewVirtualTerminal 3 1 5))
     (\<lambda>(vt, _). map_option (\<lambda>s. take 4 (SerializedContent s)) (GetSnapshot vt)) = Some [0x61, 0x0D, 0x0A, 0x62]"
  by code_simp

end
