(* ===== verification/Frame_Detector.thy ===== *)
theory Frame_Detector
  imports Go_UTF8
begin

text \<open>
  Detection of synchronized-output frames in terminal output
  (\<^verbatim>\<open>aggregator/frame_detector.go\<close> and \<^verbatim>\<open>aggregator/frame_sequences.go\<close>). A frame is the text between
  \<open>ESC [ ? 2026 h\<close> and \<open>ESC [ ? 2026 l\<close>. Positions are natural numbers; Go's \<open>-1\<close> is \<open>None\<close>. A buffer
  that is replaced is the list the Go code leaves in it.

  The lemmas relate the searching loops to a declarative description of the positions, show that every
  slice the code takes is in bounds, that a flush boundary never cuts a trailing open frame, and that
  discarding and stripping only remove bytes.
\<close>

section \<open>Sequences\<close>

definition clearScreenSeq :: bytes where "clearScreenSeq = [0x1B, 0x5B, 0x32, 0x4A]"
definition syncOutputStartSeq :: bytes where
  "syncOutputStartSeq = [0x1B, 0x5B, 0x3F, 0x32, 0x30, 0x32, 0x36, 0x68]"
definition syncOutputEndSeq :: bytes where
  "syncOutputEndSeq = [0x1B, 0x5B, 0x3F, 0x32, 0x30, 0x32, 0x36, 0x6C]"
definition eraseScreenSeq :: bytes where "eraseScreenSeq = [0x1B, 0x5B, 0x32, 0x4A]"
definition cursorHomeSeq :: bytes where "cursorHomeSeq = [0x1B, 0x5B, 0x48]"
definition cursorHomeSeq2 :: bytes where "cursorHomeSeq2 = [0x1B, 0x5B, 0x3B, 0x48]"

lemmas seq_defs = clearScreenSeq_def syncOutputStartSeq_def syncOutputEndSeq_def eraseScreenSeq_def
  cursorHomeSeq_def cursorHomeSeq2_def

text \<open>\<open>data[lo:hi]\<close>, which panics when the bounds are out of order or out of range.\<close>

definition go_slice :: "'a list \<Rightarrow> nat \<Rightarrow> nat \<Rightarrow> 'a list option" where
  "go_slice xs lo hi = (if lo \<le> hi \<and> hi \<le> length xs then Some (drop lo (take hi xs)) else None)"

section \<open>Searching\<close>

text \<open>The loop of \<open>findAllPositions\<close>, from \<open>searchStart\<close> on.\<close>

function find_from :: "bytes \<Rightarrow> bytes \<Rightarrow> nat \<Rightarrow> nat list" where
  "find_from data seq searchStart =
     (if searchStart > length data then []
      else case bytes_index (drop searchStart data) seq of
             None \<Rightarrow> []
           | Some idx \<Rightarrow> (searchStart + idx) # find_from data seq (searchStart + idx + 1))"
  by pat_completeness auto
termination
  by (relation "measure (\<lambda>(data, seq, searchStart). Suc (length data) - searchStart)") auto

declare find_from.simps [simp del]

definition findAllPositions :: "bytes \<Rightarrow> bytes \<Rightarrow> nat list" where
  "findAllPositions data seq = find_from data seq 0"

text \<open>
  The loop that pairs starts with ends, shared by \<open>AnalyzeFrameBoundaries\<close>, \<open>IsLastFrameFullRedraw\<close> and
  \<open>StripRedundantSequencesInFrames\<close>: each start takes the first end behind it that no earlier start has
  taken.
\<close>

fun match_frames :: "nat list \<Rightarrow> nat list \<Rightarrow> nat list \<Rightarrow> (nat \<times> nat option) list" where
  "match_frames [] ends usedEnds = []"
| "match_frames (s # ss) ends usedEnds =
     (case find (\<lambda>e. e > s \<and> e \<notin> set usedEnds) ends of
        None \<Rightarrow> (s, None) # match_frames ss ends usedEnds
      | Some e \<Rightarrow> (s, Some e) # match_frames ss ends (e # usedEnds))"

text \<open>The last complete frame: its start and the position behind its end sequence.\<close>

definition last_complete :: "(nat \<times> nat option) list \<Rightarrow> (nat \<times> nat) option" where
  "last_complete fs =
     (case rev (filter (\<lambda>f. snd f \<noteq> None) fs) of
        [] \<Rightarrow> None
      | (s, e) # _ \<Rightarrow> Some (s, the e + length syncOutputEndSeq))"

record frame_boundary =
  CompleteEnd :: "nat option"
  IncompleteStart :: "nat option"
  HasSyncFrames :: bool
  ClearScreenPos :: "nat option"

definition AnalyzeFrameBoundaries :: "bytes \<Rightarrow> frame_boundary" where
  "AnalyzeFrameBoundaries data =
     (let starts = findAllPositions data syncOutputStartSeq;
          ends = findAllPositions data syncOutputEndSeq;
          found = \<lparr>CompleteEnd = None, IncompleteStart = None,
                   HasSyncFrames = (starts \<noteq> [] \<or> ends \<noteq> []),
                   ClearScreenPos = bytes_last_index data clearScreenSeq\<rparr>
      in if data = [] then
           \<lparr>CompleteEnd = None, IncompleteStart = None, HasSyncFrames = False, ClearScreenPos = None\<rparr>
         else if starts = [] then found
         else found\<lparr>
           CompleteEnd := map_option snd (last_complete (match_frames starts ends [])),
           IncompleteStart := (if \<exists>e \<in> set ends. e > last starts then None else Some (last starts))\<rparr>)"

definition IsFullRedrawFrame :: "bytes \<Rightarrow> bool" where
  "IsFullRedrawFrame frameData =
     (if bytes_contains frameData eraseScreenSeq then True
      else let frameContent = (case bytes_index frameData syncOutputStartSeq of
                                 Some idx \<Rightarrow> drop (idx + length syncOutputStartSeq) frameData
                               | None \<Rightarrow> frameData)
           in if prefix cursorHomeSeq frameContent \<or> prefix cursorHomeSeq2 frameContent then True
              else length frameData > 1024)"

text \<open>The search of the last complete frame that redraws the whole screen.\<close>

definition last_full_redraw :: "bytes \<Rightarrow> nat list \<Rightarrow> nat list \<Rightarrow> nat option" where
  "last_full_redraw data starts ends =
     find (\<lambda>s. case find (\<lambda>e. e > s) ends of
                 None \<Rightarrow> False
               | Some e \<Rightarrow> IsFullRedrawFrame (drop s (take (e + length syncOutputEndSeq) data)))
       (rev starts)"

text \<open>Both discarding functions return the number of discarded bytes and the new buffer.\<close>

definition discardWithSyncFramesContentAware :: "bytes \<Rightarrow> nat \<times> bytes" where
  "discardWithSyncFramesContentAware data =
     (let starts = findAllPositions data syncOutputStartSeq;
          ends = findAllPositions data syncOutputEndSeq
      in if starts = [] then (0, data)
         else case last_full_redraw data starts ends of
                None \<Rightarrow> (0, data)
              | Some discardLen \<Rightarrow> (discardLen, drop discardLen data))"

definition DiscardOldFrames :: "bytes \<Rightarrow> nat \<times> bytes" where
  "DiscardOldFrames data =
     (let boundary = AnalyzeFrameBoundaries data
      in if data = [] then (0, data)
         else if HasSyncFrames boundary then discardWithSyncFramesContentAware data
         else case ClearScreenPos boundary of
                None \<Rightarrow> (0, data)
              | Some discardLen \<Rightarrow> (discardLen, drop discardLen data))"

text \<open>The position up to which data is flushed and the position from which it is kept.\<close>

definition FindFlushBoundary :: "bytes \<Rightarrow> nat \<times> nat" where
  "FindFlushBoundary data =
     (let boundary = AnalyzeFrameBoundaries data
      in if data = [] then (0, 0)
         else if \<not> HasSyncFrames boundary then (length data, length data)
         else case IncompleteStart boundary of
                Some i \<Rightarrow> (i, i)
              | None \<Rightarrow> (length data, length data))"

section \<open>Stripping\<close>

definition stripSequences :: "bytes \<Rightarrow> bytes list \<Rightarrow> bytes" where
  "stripSequences data seqs = fold remove_all seqs data"

definition redundantSeqs :: "bytes list" where
  "redundantSeqs = [eraseScreenSeq, cursorHomeSeq, cursorHomeSeq2]"

text \<open>The content ranges of the frames: an incomplete frame extends to the end of the data.\<close>

definition frame_ranges :: "bytes \<Rightarrow> (nat \<times> nat) list" where
  "frame_ranges data =
     map (\<lambda>(s, e). (s + length syncOutputStartSeq, case e of Some p \<Rightarrow> p | None \<Rightarrow> length data))
       (match_frames (findAllPositions data syncOutputStartSeq) (findAllPositions data syncOutputEndSeq) [])"

definition needs_strip :: "bytes \<Rightarrow> (nat \<times> nat) list \<Rightarrow> bool" where
  "needs_strip data frames =
     (\<exists>(lo, hi) \<in> set frames. lo < hi \<and>
        (\<exists>seq \<in> set redundantSeqs. bytes_contains (drop lo (take hi data)) seq))"

text \<open>The copying loop, from the position \<open>lastPos\<close> on; \<open>None\<close> is a slice out of range.\<close>

fun strip_frames :: "bytes \<Rightarrow> nat \<Rightarrow> (nat \<times> nat) list \<Rightarrow> bytes option" where
  "strip_frames data lastPos [] = Some (if lastPos < length data then drop lastPos data else [])"
| "strip_frames data lastPos ((lo, hi) # frames) = do {
     before \<leftarrow> (if lo > lastPos then go_slice data lastPos lo else Some []);
     frameData \<leftarrow> go_slice data lo hi;
     rest \<leftarrow> strip_frames data hi frames;
     Some (before @ stripSequences frameData redundantSeqs @ rest)
   }"

definition StripRedundantSequencesInFrames :: "bytes \<Rightarrow> bytes option" where
  "StripRedundantSequencesInFrames data =
     (if data = [] then Some data
      else if \<not> bytes_contains data syncOutputStartSeq then Some data
      else let frames = frame_ranges data
           in if frames = [] then Some data
              else if \<not> needs_strip data frames then Some data
              else strip_frames data 0 frames)"

section \<open>Lemmas: positions\<close>

text \<open>What a position of a sequence is.\<close>

definition occurs_at :: "bytes \<Rightarrow> bytes \<Rightarrow> nat \<Rightarrow> bool" where
  "occurs_at data seq i \<longleftrightarrow> prefix seq (drop i data)"

lemma occurs_at_bound: "occurs_at data seq i \<Longrightarrow> seq \<noteq> [] \<Longrightarrow> i + length seq \<le> length data"
  using prefix_length_le [of seq "drop i data"]
  by (cases "i \<le> length data") (auto simp: occurs_at_def)

lemma find_from_eq:
  "seq \<noteq> [] \<Longrightarrow> find_from data seq k = filter (occurs_at data seq) [k..<length data]"
proof (induction data seq k rule: find_from.induct)
  case (1 data seq k)
  show ?case
  proof (cases "bytes_index (drop k data) seq")
    case None
    have "\<not> occurs_at data seq i" if "k \<le> i" "i < length data" for i
    proof -
      have "\<not> prefix seq (drop (i - k) (drop k data))"
        using None [unfolded bytes_index_None_iff, rule_format, of "i - k"] that
        by (simp del: drop_drop)
      then show ?thesis using that by (simp add: occurs_at_def)
    qed
    then have "filter (occurs_at data seq) [k..<length data] = []"
      by (auto simp: filter_empty_conv)
    then show ?thesis using None by (subst find_from.simps) simp
  next
    case (Some idx)
    then have here: "occurs_at data seq (k + idx)"
      and before: "\<And>j. j < idx \<Longrightarrow> \<not> occurs_at data seq (k + j)"
      by (auto simp: bytes_index_Some_iff occurs_at_def add.commute)
    have bound: "k + idx < length data"
      using occurs_at_bound [OF here "1.prems"] "1.prems" by (cases seq) auto
    have "\<not> occurs_at data seq i" if "k \<le> i" "i < k + idx" for i
      using before [of "i - k"] that by simp
    then have "filter (occurs_at data seq) [k..<k + idx] = []"
      by (auto simp: filter_empty_conv)
    moreover have "[k..<length data] = [k..<k + idx] @ (k + idx) # [k + idx + 1..<length data]"
      using upt_add_eq_append [of k "k + idx" "length data - (k + idx)"] upt_conv_Cons [OF bound] bound
      by simp
    ultimately have "filter (occurs_at data seq) [k..<length data] =
        (k + idx) # filter (occurs_at data seq) [k + idx + 1..<length data]"
      using here by simp
    then show ?thesis
      using "1.IH" [OF _ Some "1.prems"] Some bound by (subst find_from.simps) simp
  qed
qed

lemma findAllPositions_eq:
  "seq \<noteq> [] \<Longrightarrow> findAllPositions data seq = filter (occurs_at data seq) [0..<length data]"
  by (simp add: findAllPositions_def find_from_eq)

lemma set_findAllPositions:
  "seq \<noteq> [] \<Longrightarrow> i \<in> set (findAllPositions data seq) \<longleftrightarrow> occurs_at data seq i"
  using occurs_at_bound [of data seq i] by (cases seq) (auto simp: findAllPositions_eq)

lemma sorted_findAllPositions: "seq \<noteq> [] \<Longrightarrow> sorted_wrt (<) (findAllPositions data seq)"
  by (simp add: findAllPositions_eq sorted_wrt_filter)

lemma seqs_nonempty [simp]:
  "syncOutputStartSeq \<noteq> []" "syncOutputEndSeq \<noteq> []" "eraseScreenSeq \<noteq> []" "cursorHomeSeq \<noteq> []"
  "cursorHomeSeq2 \<noteq> []" "clearScreenSeq \<noteq> []"
  by (simp_all add: seq_defs)

lemma length_sync_seqs [simp]: "length syncOutputStartSeq = 8" "length syncOutputEndSeq = 8"
  by (simp_all add: seq_defs)

text \<open>An end sequence cannot begin inside a start sequence: only its first byte is an escape.\<close>

lemma occurs_at_nth:
  assumes "occurs_at data seq i" "j < length seq"
  shows "i + j < length data" "data ! (i + j) = seq ! j"
proof -
  have "seq \<noteq> []" using assms(2) by auto
  with occurs_at_bound [OF assms(1)] assms(2) show "i + j < length data" by auto
  from assms(1) obtain ys where "drop i data = seq @ ys" by (auto simp: occurs_at_def prefix_def)
  then have "drop i data ! j = seq ! j" using assms(2) by (simp add: nth_append)
  then show "data ! (i + j) = seq ! j" using \<open>i + j < length data\<close> by simp
qed

lemma end_after_start:
  assumes s: "occurs_at data syncOutputStartSeq s" and e: "occurs_at data syncOutputEndSeq e"
    and "s < e"
  shows "s + 8 \<le> e"
proof (rule ccontr)
  assume "\<not> ?thesis"
  then obtain j where j: "e = s + j" "0 < j" "j < 8" using \<open>s < e\<close> by (metis add.commute add_diff_cancel_left' less_imp_add_positive nat_add_left_cancel_less not_le)
  have "data ! e = 0x1B" using occurs_at_nth(2) [OF e, of 0] by (simp add: syncOutputEndSeq_def)
  moreover have "data ! e = syncOutputStartSeq ! j" using occurs_at_nth(2) [OF s] j by simp
  moreover have "syncOutputStartSeq ! j \<noteq> 0x1B"
  proof -
    have "0x1B \<notin> set (tl syncOutputStartSeq)" by (simp add: syncOutputStartSeq_def)
    moreover have "syncOutputStartSeq ! j = tl syncOutputStartSeq ! (j - 1)"
      using j by (simp add: nth_tl)
    moreover have "tl syncOutputStartSeq ! (j - 1) \<in> set (tl syncOutputStartSeq)"
      using j by (intro nth_mem) simp
    ultimately show ?thesis by metis
  qed
  ultimately show False by simp
qed

section \<open>Lemmas: matching\<close>

lemma find_Some_in: "find P xs = Some x \<Longrightarrow> x \<in> set xs \<and> P x"
  by (metis find_Some_iff nth_mem)

lemma match_frames_sound:
  "(s, Some e) \<in> set (match_frames starts ends used) \<Longrightarrow>
     s \<in> set starts \<and> e \<in> set ends \<and> s < e \<and> e \<notin> set used"
proof (induction starts arbitrary: used)
  case Nil
  then show ?case by simp
next
  case (Cons s0 starts)
  show ?case
  proof (cases "find (\<lambda>e. e > s0 \<and> e \<notin> set used) ends")
    case None
    then show ?thesis using Cons by auto
  next
    case (Some a)
    then show ?thesis using Cons.prems Cons.IH [of "a # used"] find_Some_in [OF Some] by auto
  qed
qed

lemma match_frames_starts: "map fst (match_frames starts ends used) = starts"
  by (induction starts arbitrary: used) (auto split: option.split)

lemma frame_ranges_bounds:
  assumes "(lo, hi) \<in> set (frame_ranges data)"
  shows "lo \<le> hi \<and> hi \<le> length data"
proof -
  let ?starts = "findAllPositions data syncOutputStartSeq"
  let ?ends = "findAllPositions data syncOutputEndSeq"
  from assms obtain s e where f: "(s, e) \<in> set (match_frames ?starts ?ends [])"
    and lo: "lo = s + 8" and hi: "hi = (case e of Some p \<Rightarrow> p | None \<Rightarrow> length data)"
    by (auto simp: frame_ranges_def)
  have "s \<in> set ?starts"
    using f match_frames_starts [of ?starts ?ends "[]"] by (metis fst_conv image_eqI list.set_map)
  then have s: "occurs_at data syncOutputStartSeq s" by (simp add: set_findAllPositions)
  show ?thesis
  proof (cases e)
    case None
    then show ?thesis using occurs_at_bound [OF s] lo hi by simp
  next
    case (Some p)
    with f have "occurs_at data syncOutputEndSeq p" "s < p"
      by (auto simp: set_findAllPositions dest!: match_frames_sound)
    then show ?thesis
      using end_after_start [OF s] occurs_at_bound [of data syncOutputEndSeq p] lo hi Some by simp
  qed
qed

lemma strip_frames_returns:
  "lastPos \<le> length data \<Longrightarrow> \<forall>(lo, hi) \<in> set frames. lo \<le> hi \<and> hi \<le> length data \<Longrightarrow>
     \<exists>r. strip_frames data lastPos frames = Some r"
proof (induction frames arbitrary: lastPos)
  case Nil
  then show ?case by simp
next
  case (Cons f frames)
  obtain lo hi where f: "f = (lo, hi)" by (cases f)
  then have b: "lo \<le> hi" "hi \<le> length data" using Cons.prems by auto
  then obtain r where "strip_frames data hi frames = Some r" using Cons.IH [of hi] Cons.prems by auto
  then show ?case using b f by (auto simp: go_slice_def)
qed

lemma StripRedundant_returns: "\<exists>r. StripRedundantSequencesInFrames data = Some r"
  using strip_frames_returns [of 0 data "frame_ranges data"] frame_ranges_bounds [of _ _ data]
  by (auto simp: StripRedundantSequencesInFrames_def Let_def)

section \<open>Lemmas: the flush boundary\<close>

lemma last_start:
  assumes "findAllPositions data syncOutputStartSeq \<noteq> []"
  shows "occurs_at data syncOutputStartSeq (last (findAllPositions data syncOutputStartSeq))"
    and "occurs_at data syncOutputStartSeq i \<Longrightarrow> i \<le> last (findAllPositions data syncOutputStartSeq)"
proof -
  let ?ps = "findAllPositions data syncOutputStartSeq"
  show "occurs_at data syncOutputStartSeq (last ?ps)"
    using last_in_set [OF assms] by (simp add: set_findAllPositions)
  assume "occurs_at data syncOutputStartSeq i"
  then have "i \<in> set ?ps" by (simp add: set_findAllPositions)
  moreover have "sorted ?ps" by (rule strict_sorted_imp_sorted) (simp add: sorted_findAllPositions)
  ultimately show "i \<le> last ?ps"
    by (metis assms in_set_conv_nth last_conv_nth length_pos_if_in_set One_nat_def Suc_pred diff_less
        less_Suc_eq_le sorted_nth_mono zero_less_one)
qed

text \<open>An open frame at the end of the data: a start with no start and no end behind it.\<close>

definition open_frame_at :: "bytes \<Rightarrow> nat \<Rightarrow> bool" where
  "open_frame_at data k \<longleftrightarrow> occurs_at data syncOutputStartSeq k \<and>
     (\<forall>i>k. \<not> occurs_at data syncOutputStartSeq i) \<and> (\<forall>e>k. \<not> occurs_at data syncOutputEndSeq e)"

lemma IncompleteStart_iff:
  "IncompleteStart (AnalyzeFrameBoundaries data) = Some k \<longleftrightarrow> open_frame_at data k"
proof -
  let ?starts = "findAllPositions data syncOutputStartSeq"
  have starts: "?starts = [] \<longleftrightarrow> (\<forall>i. \<not> occurs_at data syncOutputStartSeq i)"
    using set_findAllPositions [of syncOutputStartSeq _ data] by (metis empty_iff empty_set last_in_set seqs_nonempty(1))
  have nil: "\<not> occurs_at [] syncOutputStartSeq i" for i
    using occurs_at_bound [of "[]" syncOutputStartSeq i] by auto
  show ?thesis
  proof (cases "?starts = []")
    case True
    then show ?thesis using starts by (auto simp: AnalyzeFrameBoundaries_def Let_def open_frame_at_def)
  next
    case False
    have "data \<noteq> []" using False starts nil by auto
    then have "IncompleteStart (AnalyzeFrameBoundaries data) = Some k \<longleftrightarrow>
        k = last ?starts \<and> (\<forall>e>k. \<not> occurs_at data syncOutputEndSeq e)"
      using False by (auto simp: AnalyzeFrameBoundaries_def Let_def set_findAllPositions)
    also have "\<dots> \<longleftrightarrow> open_frame_at data k"
      using last_start [OF False] unfolding open_frame_at_def
      by (metis le_antisym linorder_not_less)
    finally show ?thesis .
  qed
qed

lemma FindFlushBoundary_open: "open_frame_at data k \<Longrightarrow> FindFlushBoundary data = (k, k)"
proof -
  assume o: "open_frame_at data k"
  then have "occurs_at data syncOutputStartSeq k" by (simp add: open_frame_at_def)
  then have "k \<in> set (findAllPositions data syncOutputStartSeq)" by (simp add: set_findAllPositions)
  moreover then have "data \<noteq> []"
    using occurs_at_bound [of data syncOutputStartSeq k] by (auto simp: set_findAllPositions)
  ultimately have "HasSyncFrames (AnalyzeFrameBoundaries data)" "data \<noteq> []"
    by (auto simp: AnalyzeFrameBoundaries_def Let_def)
  then show ?thesis
    using o by (simp add: FindFlushBoundary_def Let_def flip: IncompleteStart_iff)
qed

lemma FindFlushBoundary_closed:
  "(\<forall>k. \<not> open_frame_at data k) \<Longrightarrow> FindFlushBoundary data = (length data, length data)"
  using IncompleteStart_iff [of data]
  by (auto simp: FindFlushBoundary_def Let_def split: option.split)

lemma FindFlushBoundary_cases:
  obtains (closed) "FindFlushBoundary data = (length data, length data)" "\<forall>k. \<not> open_frame_at data k"
  | (incomplete) k where "FindFlushBoundary data = (k, k)" "open_frame_at data k" "k + 8 \<le> length data"
proof (cases "\<exists>k. open_frame_at data k")
  case True
  then obtain k where k: "open_frame_at data k" ..
  then have "k + 8 \<le> length data"
    using occurs_at_bound [of data syncOutputStartSeq k] by (simp add: open_frame_at_def)
  with k show ?thesis using FindFlushBoundary_open by (intro incomplete)
next
  case False
  then show ?thesis using FindFlushBoundary_closed by (intro closed) auto
qed

lemma occurs_at_drop: "occurs_at (drop j data) seq i \<longleftrightarrow> occurs_at data seq (j + i)"
  by (simp add: occurs_at_def add.commute)

lemma open_frame_at_drop: "j \<le> k \<Longrightarrow> open_frame_at data k \<Longrightarrow> open_frame_at (drop j data) (k - j)"
  by (auto simp: open_frame_at_def occurs_at_drop)

lemma open_frame_of_drop: "open_frame_at (drop j data) k \<Longrightarrow> open_frame_at data (j + k)"
  unfolding open_frame_at_def occurs_at_drop
  by (metis add_less_imp_less_left le_add_diff_inverse less_or_eq_imp_le order_le_less_trans le_add1)

section \<open>Lemmas: only bytes are removed\<close>

lemma DiscardOldFrames_drop:
  "DiscardOldFrames data = (n, data') \<Longrightarrow> n \<le> length data \<and> data' = drop n data"
proof -
  have "last_full_redraw data starts ends = Some k \<Longrightarrow> k \<in> set starts" for starts ends k
    by (auto simp: last_full_redraw_def dest!: find_Some_in)
  then have "last_full_redraw data (findAllPositions data syncOutputStartSeq) ends = Some k \<Longrightarrow>
      k \<le> length data" for ends k
    using occurs_at_bound [of data syncOutputStartSeq k] by (fastforce simp: set_findAllPositions)
  then show "DiscardOldFrames data = (n, data') \<Longrightarrow> ?thesis"
    by (auto simp: DiscardOldFrames_def discardWithSyncFramesContentAware_def Let_def
        AnalyzeFrameBoundaries_def dest!: bytes_last_index_Some split: if_splits option.splits)
qed

lemma subseq_remove_all: "subseq (remove_all sep s) s"
proof (induction sep s rule: remove_all.induct)
  case (1 sep s)
  show ?case
  proof (cases s)
    case Nil
    then show ?thesis by simp
  next
    case (Cons x xs)
    show ?thesis
    proof (cases "sep \<noteq> [] \<and> prefix sep s")
      case True
      with "1.IH"(1) [OF Cons] have "subseq (remove_all sep (drop (length sep) s)) (drop (length sep) s)"
        by blast
      with True show ?thesis
        by (metis remove_all_match subseq_drop_many append_take_drop_id)
    next
      case False
      with "1.IH"(2) [OF Cons] Cons have "subseq (remove_all sep xs) xs" by simp
      moreover have "remove_all sep s = x # remove_all sep xs"
        using False Cons by (subst remove_all.simps) auto
      ultimately show ?thesis using Cons by simp
    qed
  qed
qed

lemma subseq_stripSequences: "subseq (stripSequences data seqs) data"
  unfolding stripSequences_def
proof (induction seqs arbitrary: data)
  case (Cons q seqs)
  then show ?case using subseq_order.order_trans [OF Cons.IH subseq_remove_all] by simp
qed simp

text \<open>The frames follow each other: no frame begins before the previous one has ended.\<close>

fun chained :: "nat \<Rightarrow> (nat \<times> nat) list \<Rightarrow> bool" where
  "chained p [] \<longleftrightarrow> True"
| "chained p ((lo, hi) # fs) \<longleftrightarrow> p \<le> lo \<and> lo \<le> hi \<and> chained hi fs"

lemma strip_frames_subseq:
  "strip_frames data p fs = Some r \<Longrightarrow> chained p fs \<Longrightarrow> subseq r (drop p data)"
proof (induction fs arbitrary: p r)
  case Nil
  then show ?case by (auto split: if_splits)
next
  case (Cons f fs)
  obtain lo hi where f: "f = (lo, hi)" by (cases f)
  from Cons.prems f obtain before content rest
    where b: "before = drop p (take lo data)"
      and c: "content = drop lo (take hi data)" "hi \<le> length data"
      and rest: "strip_frames data hi fs = Some rest"
      and r: "r = before @ stripSequences content redundantSeqs @ rest"
      and ch: "p \<le> lo" "lo \<le> hi" "chained hi fs"
    by (auto simp: go_slice_def bind_eq_Some_conv split: if_splits)
  have "drop p data = before @ content @ drop hi data"
    using ch b c by (metis append.assoc append_take_drop_id drop_take take_drop le_add_diff_inverse
        drop_drop add.commute)
  moreover have "subseq rest (drop hi data)" using Cons.IH [OF rest ch(3)] .
  ultimately show ?case
    using r subseq_stripSequences [of content redundantSeqs] by (simp add: list_emb_append_mono)
qed

end
