(* ===== verification/Frame_Strip.thy ===== *)
theory Frame_Strip
  imports Frame_Detector
begin

text \<open>
  The abstract view of framed terminal output and the refinement lemma for
  \<open>StripRedundantSequencesInFrames\<close>. A framed stream is some text followed by frames, each with its
  content and the text behind it. If no text and no content holds a frame marker itself, the search of the
  code finds exactly these frames, and stripping the bytes is stripping the content of each frame.
\<close>

section \<open>Framed streams\<close>

type_synonym frame_stream = "bytes \<times> (bytes \<times> bytes) list"

definition render_frames :: "(bytes \<times> bytes) list \<Rightarrow> bytes" where
  "render_frames fs = concat (map (\<lambda>(c, t). syncOutputStartSeq @ c @ syncOutputEndSeq @ t) fs)"

definition render :: "frame_stream \<Rightarrow> bytes" where
  "render st = fst st @ render_frames (snd st)"

definition unmarked :: "bytes \<Rightarrow> bool" where
  "unmarked b \<longleftrightarrow> \<not> bytes_contains b syncOutputStartSeq \<and> \<not> bytes_contains b syncOutputEndSeq"

definition stream_ok :: "frame_stream \<Rightarrow> bool" where
  "stream_ok st \<longleftrightarrow> unmarked (fst st) \<and> (\<forall>(c, t) \<in> set (snd st). unmarked c \<and> unmarked t)"

definition strip_content :: "frame_stream \<Rightarrow> frame_stream" where
  "strip_content st = (fst st, map (\<lambda>(c, t). (stripSequences c redundantSeqs, t)) (snd st))"

text \<open>The positions of the markers of the frames that begin at position \<open>p\<close>.\<close>

fun marks :: "nat \<Rightarrow> (bytes \<times> bytes) list \<Rightarrow> (nat \<times> nat) list" where
  "marks p [] = []"
| "marks p ((c, t) # fs) = (p, p + 8 + length c) # marks (p + 16 + length c + length t) fs"

section \<open>Markers do not overlap\<close>

definition esc_headed :: "bytes \<Rightarrow> bool" where
  "esc_headed s \<longleftrightarrow> s \<noteq> [] \<and> hd s = 0x1B \<and> 0x1B \<notin> set (tl s)"

lemma esc_headed_seqs [simp]: "esc_headed syncOutputStartSeq" "esc_headed syncOutputEndSeq"
  by (simp_all add: esc_headed_def seq_defs)

lemma esc_headed_nth: "esc_headed s \<Longrightarrow> 0 < j \<Longrightarrow> j < length s \<Longrightarrow> s ! j \<noteq> 0x1B"
  unfolding esc_headed_def by (metis One_nat_def Suc_pred diff_less_mono length_tl less_Suc_eq_le nth_mem
      nth_tl Suc_leI)

lemma occurs_at_append:
  assumes "esc_headed seq" and ys: "ys = [] \<or> hd ys = 0x1B"
  shows "occurs_at (xs @ ys) seq i \<longleftrightarrow>
     occurs_at xs seq i \<or> (length xs \<le> i \<and> occurs_at ys seq (i - length xs))"
proof (cases "length xs \<le> i")
  case True
  have "\<not> occurs_at xs seq i"
    using occurs_at_bound [of xs seq i] True assms(1) by (cases seq) (auto simp: esc_headed_def)
  then show ?thesis using True by (simp add: occurs_at_def)
next
  case False
  have fits: "i + length seq \<le> length xs" if o: "occurs_at (xs @ ys) seq i"
  proof (rule ccontr)
    assume long: "\<not> ?thesis"
    have "i + length seq \<le> length (xs @ ys)"
      using occurs_at_bound [OF o] assms(1) by (simp add: esc_headed_def)
    with long have "ys \<noteq> []" by auto
    then have "(xs @ ys) ! length xs = 0x1B" using ys by (simp add: hd_conv_nth nth_append)
    moreover have "(xs @ ys) ! (i + (length xs - i)) = seq ! (length xs - i)"
      using occurs_at_nth(2) [OF o, of "length xs - i"] long False by simp
    ultimately show False
      using esc_headed_nth [OF assms(1), of "length xs - i"] long False by simp
  qed
  show ?thesis
    using False fits by (auto simp: occurs_at_def prefix_def append_eq_append_conv2)
      (metis append_eq_append_conv2 length_append length_drop le_add_diff_inverse less_or_eq_imp_le
        nat_add_left_cancel_le linorder_not_less prefix_def prefix_length_le append_Nil2)+
qed

lemma occurs_at_marker:
  assumes m: "m \<in> {syncOutputStartSeq, syncOutputEndSeq}"
    and q: "seq \<in> {syncOutputStartSeq, syncOutputEndSeq}"
  shows "occurs_at (m @ ys) seq i \<longleftrightarrow> (i = 0 \<and> m = seq) \<or> (8 \<le> i \<and> occurs_at ys seq (i - 8))"
proof -
  have len: "length m = 8" "length seq = 8" and esc: "esc_headed m" "esc_headed seq" using m q by auto
  consider "i = 0" | "0 < i" "i < 8" | "8 \<le> i" by linarith
  then show ?thesis
  proof cases
    case 1
    then show ?thesis using len by (auto simp: occurs_at_def prefix_def append_eq_append_conv)
  next
    case 2
    have "\<not> occurs_at (m @ ys) seq i"
    proof
      assume "occurs_at (m @ ys) seq i"
      then have "(m @ ys) ! i = seq ! 0" using occurs_at_nth(2) [of "m @ ys" seq i 0] len by simp
      moreover have "seq ! 0 = 0x1B" using esc(2) by (auto simp: esc_headed_def hd_conv_nth)
      ultimately have "m ! i = 0x1B" using 2 len by (simp add: nth_append)
      then show False using esc_headed_nth [OF esc(1)] 2 len by simp
    qed
    with 2 show ?thesis by simp
  next
    case 3
    then show ?thesis using len by (simp add: occurs_at_def)
  qed
qed

lemma unmarked_occurs:
  "unmarked b \<Longrightarrow> seq \<in> {syncOutputStartSeq, syncOutputEndSeq} \<Longrightarrow> \<not> occurs_at b seq i"
  using occurs_at_bound [of b seq i]
  by (auto simp: unmarked_def bytes_contains_iff occurs_at_def)

lemma render_frames_head: "render_frames fs = [] \<or> hd (render_frames fs) = 0x1B"
  by (cases fs) (auto simp: render_frames_def syncOutputStartSeq_def)

lemma render_frames_Cons [simp]:
  "render_frames ((c, t) # fs) = syncOutputStartSeq @ c @ syncOutputEndSeq @ t @ render_frames fs"
  by (simp add: render_frames_def)

lemma marks_ge: "(s, e) \<in> set (marks p fs) \<Longrightarrow> p \<le> s \<and> s + 8 \<le> e"
  by (induction p fs rule: marks.induct) auto

lemma occurs_render_frames:
  assumes "\<forall>(c, t) \<in> set fs. unmarked c \<and> unmarked t"
  shows "occurs_at (render_frames fs) syncOutputStartSeq i \<longleftrightarrow> p + i \<in> fst ` set (marks p fs)"
    and "occurs_at (render_frames fs) syncOutputEndSeq i \<longleftrightarrow> p + i \<in> snd ` set (marks p fs)"
  using assms
proof (induction fs arbitrary: p i)
  case Nil
  {
    case 1
    then show ?case using occurs_at_bound [of "[]" syncOutputStartSeq i] by (auto simp: render_frames_def)
  next
    case 2
    then show ?case using occurs_at_bound [of "[]" syncOutputEndSeq i] by (auto simp: render_frames_def)
  }
next
  case (Cons f fs)
  obtain c t where f: "f = (c, t)" by (cases f)
  have neq: "syncOutputStartSeq \<noteq> syncOutputEndSeq" by (simp add: seq_defs)
  have step: "occurs_at (render_frames ((c, t) # fs)) seq i \<longleftrightarrow>
      (i = 0 \<and> seq = syncOutputStartSeq) \<or> (i = 8 + length c \<and> seq = syncOutputEndSeq) \<or>
      (16 + length c + length t \<le> i \<and> occurs_at (render_frames fs) seq (i - (16 + length c + length t)))"
    if "unmarked c" "unmarked t" "seq \<in> {syncOutputStartSeq, syncOutputEndSeq}" for seq i
  proof -
    have esc: "esc_headed seq" using that(3) by auto
    have hd_end: "hd (syncOutputEndSeq @ ys) = 0x1B" for ys by (simp add: syncOutputEndSeq_def)
    show ?thesis
      unfolding render_frames_Cons
      using that unmarked_occurs [OF that(1,3)] unmarked_occurs [OF that(2,3)]
      by (auto simp: occurs_at_marker occurs_at_append [OF esc] hd_end render_frames_head
          algebra_simps)
  qed
  define n where "n = 16 + length c + length t"
  have shift: "p + n + (i - n) = p + i" if "n \<le> i" for i p using that by simp
  have far: "p + n \<le> s \<and> p + n + 8 \<le> e" if "(s, e) \<in> set (marks (p + n) fs)" for s e p
    using marks_ge [OF that] by simp
  have pn: "p + 16 + length c + length t = p + n" "n > 8 + length c" for p by (simp_all add: n_def)
  {
    case 1
    then have ok: "unmarked c" "unmarked t" "\<forall>(c, t) \<in> set fs. unmarked c \<and> unmarked t" using f by auto
    show ?case
    proof (cases "n \<le> i")
      case True
      then show ?thesis
        using Cons.IH(1) [OF ok(3), of "i - n" "p + n"] step [OF ok(1,2), of syncOutputStartSeq i] shift neq pn
        by (simp add: f n_def add.assoc)
    next
      case False
      then have "p + i \<notin> fst ` set (marks (p + n) fs)" using False by (auto dest!: far)
      then show ?thesis
        unfolding f marks.simps pn using False step [OF ok(1,2), of syncOutputStartSeq i, folded n_def] neq pn(2)
        by (auto simp del: render_frames_Cons)
    qed
  next
    case 2
    then have ok: "unmarked c" "unmarked t" "\<forall>(c, t) \<in> set fs. unmarked c \<and> unmarked t" using f by auto
    show ?case
    proof (cases "n \<le> i")
      case True
      then show ?thesis
        using Cons.IH(2) [OF ok(3), of "i - n" "p + n"] step [OF ok(1,2), of syncOutputEndSeq i] shift neq pn
        by (simp add: f n_def add.assoc)
    next
      case False
      then have "p + i \<notin> snd ` set (marks (p + n) fs)" using False by (auto dest!: far)
      then show ?thesis
        unfolding f marks.simps pn using False step [OF ok(1,2), of syncOutputEndSeq i, folded n_def] neq pn(2)
        by (auto simp del: render_frames_Cons)
    qed
  }
qed

section \<open>The search finds the frames\<close>

lemma sorted_marks:
  "sorted_wrt (<) (map fst (marks p fs))" "sorted_wrt (<) (map snd (marks p fs))"
  by (induction p fs rule: marks.induct) (auto dest!: marks_ge)

lemma occurs_render:
  assumes "stream_ok (pre, fs)"
  shows "occurs_at (render (pre, fs)) syncOutputStartSeq i \<longleftrightarrow> i \<in> fst ` set (marks (length pre) fs)"
    and "occurs_at (render (pre, fs)) syncOutputEndSeq i \<longleftrightarrow> i \<in> snd ` set (marks (length pre) fs)"
proof -
  have ok: "unmarked pre" "\<forall>(c, t) \<in> set fs. unmarked c \<and> unmarked t"
    using assms by (auto simp: stream_ok_def)
  have far: "i \<notin> fst ` set (marks (length pre) fs)" "i \<notin> snd ` set (marks (length pre) fs)"
    if "i < length pre"
    using that by (fastforce dest!: marks_ge)+
  show "occurs_at (render (pre, fs)) syncOutputStartSeq i \<longleftrightarrow> i \<in> fst ` set (marks (length pre) fs)"
    using unmarked_occurs [OF ok(1)] occurs_render_frames(1) [OF ok(2), of "i - length pre" "length pre"] far
    by (cases "length pre \<le> i") (auto simp: render_def occurs_at_append render_frames_head)
  show "occurs_at (render (pre, fs)) syncOutputEndSeq i \<longleftrightarrow> i \<in> snd ` set (marks (length pre) fs)"
    using unmarked_occurs [OF ok(1)] occurs_render_frames(2) [OF ok(2), of "i - length pre" "length pre"] far
    by (cases "length pre \<le> i") (auto simp: render_def occurs_at_append render_frames_head)
qed

lemma sorted_unique: "sorted_wrt (<) xs \<Longrightarrow> sorted_wrt (<) ys \<Longrightarrow> set xs = set ys \<Longrightarrow> xs = (ys :: nat list)"
  by (simp add: strict_sorted_equal)

lemma findAllPositions_render:
  assumes "stream_ok (pre, fs)"
  shows "findAllPositions (render (pre, fs)) syncOutputStartSeq = map fst (marks (length pre) fs)"
    and "findAllPositions (render (pre, fs)) syncOutputEndSeq = map snd (marks (length pre) fs)"
  by (rule sorted_unique; simp add: sorted_findAllPositions sorted_marks set_findAllPositions
      occurs_render [OF assms] set_eq_iff)+

text \<open>In a well-formed stream each start is matched with the end of its own frame.\<close>

lemma find_skip: "\<forall>x \<in> set xs. \<not> P x \<Longrightarrow> find P (xs @ ys) = find P ys"
  by (induction xs) auto

lemma match_marks:
  "\<forall>e \<in> set old. e \<le> p \<Longrightarrow> set used \<subseteq> set old \<Longrightarrow>
     match_frames (map fst (marks p fs)) (old @ map snd (marks p fs)) used =
       map (\<lambda>(s, e). (s, Some e)) (marks p fs)"
proof (induction fs arbitrary: p old used)
  case Nil
  then show ?case by simp
next
  case (Cons f fs)
  obtain c t where f: "f = (c, t)" by (cases f)
  let ?e = "p + 8 + length c" and ?q = "p + 16 + length c + length t"
  have "find (\<lambda>e. e > p \<and> e \<notin> set used) (old @ ?e # map snd (marks ?q fs)) = Some ?e"
  proof (subst find_skip)
    show "\<forall>x \<in> set old. \<not> (p < x \<and> x \<notin> set used)" using Cons.prems(1) by auto
    have "?e \<notin> set used" using Cons.prems by fastforce
    then show "find (\<lambda>e. e > p \<and> e \<notin> set used) (?e # map snd (marks ?q fs)) = Some ?e" by simp
  qed
  moreover have "match_frames (map fst (marks ?q fs)) ((old @ [?e]) @ map snd (marks ?q fs)) (?e # used) =
      map (\<lambda>(s, e). (s, Some e)) (marks ?q fs)"
    by (rule Cons.IH) (use Cons.prems in auto)
  ultimately show ?case by (simp add: f)
qed

lemma frame_ranges_render:
  assumes "stream_ok (pre, fs)"
  shows "frame_ranges (render (pre, fs)) = map (\<lambda>(s, e). (s + 8, e)) (marks (length pre) fs)"
  using match_marks [of "[]" "length pre" "[]" fs]
  by (simp add: frame_ranges_def findAllPositions_render [OF assms] case_prod_beta comp_def)

section \<open>Stripping\<close>

lemma strip_frames_render:
  "data = before @ gap @ render_frames fs \<Longrightarrow>
     strip_frames data (length before) (map (\<lambda>(s, e). (s + 8, e)) (marks (length before + length gap) fs)) =
       Some (gap @ render_frames (map (\<lambda>(c, t). (stripSequences c redundantSeqs, t)) fs))"
proof (induction fs arbitrary: before gap)
  case Nil
  then show ?case by (auto simp: render_frames_def)
next
  case (Cons f fs)
  obtain c t where f: "f = (c, t)" by (cases f)
  let ?before = "before @ gap @ syncOutputStartSeq @ c" and ?gap = "syncOutputEndSeq @ t"
  have "data = ?before @ ?gap @ render_frames fs" using Cons.prems by (simp add: f)
  note ih = Cons.IH [OF this]
  have rest: "strip_frames data (length before + length gap + 8 + length c)
      (map (\<lambda>(s, e). (s + 8, e)) (marks (length before + length gap + 16 + length c + length t) fs)) =
      Some (syncOutputEndSeq @ t @ render_frames (map (\<lambda>(c, t). (stripSequences c redundantSeqs, t)) fs))"
    using ih by (simp add: ac_simps)
  have "go_slice data (length before) (length before + length gap + 8) = Some (gap @ syncOutputStartSeq)"
    using Cons.prems by (simp add: f go_slice_def)
  moreover have "go_slice data (length before + length gap + 8) (length before + length gap + 8 + length c) =
      Some c"
    using Cons.prems by (simp add: f go_slice_def)
  ultimately show ?case using rest by (simp add: f)
qed

lemma remove_all_absent: "\<not> bytes_contains s sep \<Longrightarrow> remove_all sep s = s"
proof (induction s)
  case (Cons x xs)
  have "\<not> prefix sep (x # xs)" "\<not> bytes_contains xs sep"
    using Cons.prems by (auto simp: bytes_contains_def split: if_splits)
  then show ?case using Cons.IH by (simp add: remove_all_no_match)
qed simp

lemma stripSequences_absent:
  "\<forall>seq \<in> set seqs. \<not> bytes_contains s seq \<Longrightarrow> stripSequences s seqs = s"
  by (induction seqs) (auto simp: stripSequences_def remove_all_absent)

lemma marks_content:
  "data = before @ render_frames fs \<Longrightarrow> (c, t) \<in> set fs \<Longrightarrow>
     \<exists>(s, e) \<in> set (marks (length before) fs). e = s + 8 + length c \<and> drop (s + 8) (take e data) = c"
proof (induction fs arbitrary: before)
  case (Cons f fs)
  obtain c' t' where f: "f = (c', t')" by (cases f)
  show ?case
  proof (cases "(c, t) = (c', t')")
    case True
    then show ?thesis using Cons.prems by (simp add: f)
  next
    case False
    then have "(c, t) \<in> set fs" using Cons.prems f by auto
    with Cons.IH [of "before @ syncOutputStartSeq @ c' @ syncOutputEndSeq @ t'"] Cons.prems
    show ?thesis by (simp add: f ac_simps)
  qed
qed simp

lemma needs_strip_render:
  assumes ok: "stream_ok (pre, fs)"
    and no: "\<not> needs_strip (render (pre, fs)) (frame_ranges (render (pre, fs)))"
  shows "map (\<lambda>(c, t). (stripSequences c redundantSeqs, t)) fs = fs"
proof (rule map_idI)
  fix f assume "f \<in> set fs"
  moreover obtain c t where f: "f = (c, t)" by (cases f)
  ultimately obtain s e where m: "(s, e) \<in> set (marks (length pre) fs)" "e = s + 8 + length c"
    and slice: "drop (s + 8) (take e (render (pre, fs))) = c"
    using marks_content [of "render (pre, fs)" pre fs c t] by (auto simp: render_def)
  have "stripSequences c redundantSeqs = c"
  proof (cases "c = []")
    case True
    then show ?thesis using subseq_stripSequences [of c redundantSeqs] by simp
  next
    case False
    have "(s + 8, e) \<in> set (frame_ranges (render (pre, fs)))"
      using m(1) by (force simp: frame_ranges_render [OF ok])
    moreover have "s + 8 < e" using False m(2) by simp
    ultimately have "\<forall>seq \<in> set redundantSeqs. \<not> bytes_contains c seq"
      using no slice unfolding needs_strip_def by blast
    then show ?thesis by (rule stripSequences_absent)
  qed
  then show "(\<lambda>(c, t). (stripSequences c redundantSeqs, t)) f = f" by (simp add: f)
qed

lemma strip_render:
  assumes "stream_ok (pre, fs)"
  shows "StripRedundantSequencesInFrames (render (pre, fs)) = Some (render (strip_content (pre, fs)))"
proof (cases "fs = []")
  case True
  have "\<not> bytes_contains pre syncOutputStartSeq" using assms by (simp add: stream_ok_def unmarked_def)
  then show ?thesis
    using True by (simp add: StripRedundantSequencesInFrames_def render_def strip_content_def render_frames_def)
next
  case False
  then have frames: "frame_ranges (render (pre, fs)) \<noteq> []"
    by (subst frame_ranges_render [OF assms]) (cases fs, auto)
  have "length pre \<in> fst ` set (marks (length pre) fs)" using False by (cases fs) auto
  then have occ: "occurs_at (render (pre, fs)) syncOutputStartSeq (length pre)"
    by (simp add: occurs_render(1) [OF assms])
  then have "bytes_contains (render (pre, fs)) syncOutputStartSeq" "render (pre, fs) \<noteq> []"
    using occurs_at_bound [OF occ] by (auto simp: bytes_contains_iff occurs_at_def intro!: exI [of _ "length pre"])
  then show ?thesis
    using frames needs_strip_render [OF assms] strip_frames_render [of "render (pre, fs)" "[]" pre fs]
    by (auto simp: StripRedundantSequencesInFrames_def Let_def strip_content_def render_def
        frame_ranges_render [OF assms, unfolded render_def fst_conv snd_conv])
qed

section \<open>Properties\<close>

text \<open>
  The marker search is complete and ordered: it returns, in increasing order, exactly the offsets at
  which the start sequence occurs.
\<close>

theorem findAllPositions_spec:
  "findAllPositions data syncOutputStartSeq =
     filter (\<lambda>i. prefix syncOutputStartSeq (drop i data)) [0..<length data]"
  by (simp add: findAllPositions_eq occurs_at_def [abs_def])

text \<open>
  Stripping never panics: whatever the order and nesting of the markers, every slice it takes is in
  bounds, and data without a start marker is returned unchanged.
\<close>

theorem StripRedundant_total:
  "\<exists>r. StripRedundantSequencesInFrames data = Some r \<and>
     (findAllPositions data syncOutputStartSeq = [] \<longrightarrow> r = data)"
  using StripRedundant_returns [of data]
  by (auto simp: StripRedundantSequencesInFrames_def frame_ranges_def Let_def)

theorem StripRedundant_total_witness:
  "\<exists>r. StripRedundantSequencesInFrames [0x1B, 0x5B, 0x48] = Some r \<and>
     (findAllPositions [0x1B, 0x5B, 0x48] syncOutputStartSeq = [] \<longrightarrow> r = [0x1B, 0x5B, 0x48])"
  by (rule StripRedundant_total)

text \<open>
  C3. On a well-formed framed stream, stripping the bytes implements stripping the frames: the text outside
  the frames and all markers are kept, and from the content of every frame the erase-screen and
  cursor-home sequences are removed.
\<close>

theorem StripRedundant_refines:
  assumes "stream_ok st"
  shows "StripRedundantSequencesInFrames (render st) = Some (render (strip_content st))"
  using strip_render [of "fst st" "snd st"] assms by simp

theorem StripRedundant_refines_witness:
  "StripRedundantSequencesInFrames (render ([0x61], [([0x1B, 0x5B, 0x32, 0x4A, 0x62], [0x1B, 0x5B, 0x48])])) =
     Some (render (strip_content ([0x61], [([0x1B, 0x5B, 0x32, 0x4A, 0x62], [0x1B, 0x5B, 0x48])])))"
  by (rule StripRedundant_refines) (simp add: stream_ok_def unmarked_def bytes_contains_def seq_defs)

section \<open>Streams the code does not handle\<close>

text \<open>
  When a frame is started inside a frame, the second start finds no unused end, its range reaches to the
  end of the data and overlaps the first one: the byte between the markers is sent twice.
\<close>

theorem nested_start_duplicates_content:
  "StripRedundantSequencesInFrames
     (syncOutputStartSeq @ eraseScreenSeq @ syncOutputStartSeq @ [0x78] @ syncOutputEndSeq) =
   Some (syncOutputStartSeq @ syncOutputStartSeq @ [0x78] @ [0x78] @ syncOutputEndSeq)"
  by code_simp

text \<open>Removing a sequence can join its neighbours into another one, which stays in the frame.\<close>

theorem stripping_can_leave_a_sequence:
  "StripRedundantSequencesInFrames
     (syncOutputStartSeq @ [0x1B, 0x5B] @ eraseScreenSeq @ [0x32, 0x4A] @ syncOutputEndSeq) =
   Some (syncOutputStartSeq @ eraseScreenSeq @ syncOutputEndSeq)"
  by code_simp

end
