(* ===== verification/Frame_Buffer.thy ===== *)
theory Frame_Buffer
  imports Frame_Strip
begin

text \<open>
  The output buffer of the aggregator (\<^verbatim>\<open>aggregator/frame_buffer.go\<close>,
  \<^verbatim>\<open>aggregator/frame_buffer_limit.go\<close> and \<^verbatim>\<open>aggregator/frame_buffer_utils.go\<close>): writing with a size limit,
  flushing complete frames and flushing everything. The size limit is a natural number. A flush returns
  \<open>None\<close> where the stripping of redundant sequences would panic, which never happens.

  The lemmas show that a write keeps the buffer within its limit and only cuts bytes off its ends, that a
  flush takes a prefix of the buffer and leaves the rest, that it never flushes a part of the open frame
  at the end, and that flushing again yields nothing.
\<close>

section \<open>UTF-8 boundaries\<close>

fun skip_continuation :: "bytes \<Rightarrow> nat" where
  "skip_continuation [] = 0"
| "skip_continuation (b # bs) = (if rune_start b then 0 else Suc (skip_continuation bs))"

definition alignToUTF8Boundary :: "bytes \<Rightarrow> nat \<Rightarrow> nat" where
  "alignToUTF8Boundary data offset =
     (if offset \<ge> length data then length data
      else offset + skip_continuation (drop offset data))"

text \<open>The two downward loops are searches over descending indices.\<close>

definition findLastValidUTF8Boundary :: "bytes \<Rightarrow> nat" where
  "findLastValidUTF8Boundary data =
     (if data = [] then 0
      else case find (\<lambda>i. rune_start (data ! i)) (rev [length data - 4..<length data]) of
             Some i \<Rightarrow>
               (let (r, size) = decode_rune (drop i data)
                in if r \<noteq> RuneError \<or> size = length data - i then length data else i)
           | None \<Rightarrow>
               (case find (\<lambda>i. rune_start (data ! i)) (rev [0..<length data]) of
                  Some i \<Rightarrow> i
                | None \<Rightarrow> length data))"

section \<open>The buffer\<close>

record frame_buffer =
  fb_data :: bytes
  fb_maxSize :: nat

definition NewFrameBuffer :: "nat \<Rightarrow> frame_buffer" where
  "NewFrameBuffer maxSize = \<lparr>fb_data = [], fb_maxSize = maxSize\<rparr>"

definition enforceLimit :: "nat \<Rightarrow> frame_buffer \<Rightarrow> frame_buffer" where
  "enforceLimit newDataLen b =
     (if length (fb_data b) + newDataLen \<le> fb_maxSize b then b
      else
        let b = b\<lparr>fb_data := snd (DiscardOldFrames (fb_data b))\<rparr>;
            targetLen = length (fb_data b) + newDataLen
        in if targetLen \<le> fb_maxSize b then b
           else
             let excess = targetLen - fb_maxSize b
             in if 0 < excess \<and> excess < length (fb_data b)
                then b\<lparr>fb_data := drop (alignToUTF8Boundary (fb_data b) excess) (fb_data b)\<rparr>
                else b\<lparr>fb_data := []\<rparr>)"

text \<open>
  The first start behind the excess with no unclosed frame before it, and the last end sequence that fits
  into the limit.
\<close>

definition safe_offset :: "nat \<Rightarrow> nat list \<Rightarrow> nat list \<Rightarrow> nat option" where
  "safe_offset excess starts ends =
     find (\<lambda>startPos. excess \<le> startPos \<and>
             \<not> (\<exists>s \<in> set starts. s < startPos \<and> \<not> (\<exists>e \<in> set ends. s < e \<and> e < startPos))) starts"

definition truncate_at :: "nat \<Rightarrow> nat list \<Rightarrow> nat" where
  "truncate_at maxSize ends =
     fold (\<lambda>endPos t. if endPos + length syncOutputEndSeq \<le> maxSize
                       then endPos + length syncOutputEndSeq else t) ends maxSize"

definition enforceLimitAfterWrite :: "frame_buffer \<Rightarrow> frame_buffer" where
  "enforceLimitAfterWrite b =
     (if length (fb_data b) \<le> fb_maxSize b then b
      else
        let data = fb_data b;
            excess = length data - fb_maxSize b;
            starts = findAllPositions data syncOutputStartSeq;
            ends = findAllPositions data syncOutputEndSeq;
            offset = (case safe_offset excess starts ends of
                        Some k \<Rightarrow> alignToUTF8Boundary data k | None \<Rightarrow> 0);
            truncateAt = findLastValidUTF8Boundary (take (truncate_at (fb_maxSize b) ends) data)
        in if HasSyncFrames (AnalyzeFrameBoundaries data) \<and> 0 < offset \<and> offset < length data
           then b\<lparr>fb_data := drop offset data\<rparr>
           else if HasSyncFrames (AnalyzeFrameBoundaries data) \<and> 0 < truncateAt \<and> truncateAt < length data
           then b\<lparr>fb_data := take truncateAt data\<rparr>
           else b\<lparr>fb_data := drop (alignToUTF8Boundary data excess) data\<rparr>)"

definition fb_Write :: "bytes \<Rightarrow> frame_buffer \<Rightarrow> frame_buffer" where
  "fb_Write data b =
     (if data = [] then b
      else
        let b = enforceLimit (length data) b;
            b = b\<lparr>fb_data := fb_data b @ data\<rparr>;
            b = b\<lparr>fb_data := snd (DiscardOldFrames (fb_data b))\<rparr>
        in enforceLimitAfterWrite b)"

text \<open>The flushed bytes, the number of bytes kept, and the new buffer.\<close>

definition FlushComplete :: "frame_buffer \<Rightarrow> (bytes \<times> nat \<times> frame_buffer) option" where
  "FlushComplete b =
     (let allData = fb_data b
      in if allData = [] then Some ([], 0, b)
         else
           let (flushEnd, keepFrom) = FindFlushBoundary allData;
               adjusted = (if flushEnd > 0 then findLastValidUTF8Boundary (take flushEnd allData)
                           else flushEnd);
               keepFrom = (if adjusted < flushEnd \<and> adjusted < keepFrom then adjusted else keepFrom)
           in if adjusted = 0 then Some ([], length allData, b)
              else do {
                data \<leftarrow> StripRedundantSequencesInFrames (take adjusted allData);
                let b' = b\<lparr>fb_data := (if keepFrom < length allData then drop keepFrom allData else [])\<rparr>;
                Some (data, length (fb_data b'), b')
              })"

definition FlushAll :: "frame_buffer \<Rightarrow> (bytes \<times> nat \<times> frame_buffer) option" where
  "FlushAll b =
     (let allData = fb_data b
      in if allData = [] then Some ([], 0, b)
         else
           let validLen = findLastValidUTF8Boundary allData
           in if validLen = 0 then Some ([], length allData, b)
              else do {
                data \<leftarrow> StripRedundantSequencesInFrames (take validLen allData);
                let b' = b\<lparr>fb_data := (if validLen < length allData then drop validLen allData else [])\<rparr>;
                Some (data, length (fb_data b'), b')
              })"

definition IsLastFrameFullRedraw :: "frame_buffer \<Rightarrow> bool" where
  "IsLastFrameFullRedraw b =
     (let data = fb_data b;
          starts = findAllPositions data syncOutputStartSeq;
          ends = findAllPositions data syncOutputEndSeq
      in if data = [] then False
         else if \<not> HasSyncFrames (AnalyzeFrameBoundaries data) then False
         else if starts = [] then False
         else case last_complete (match_frames starts ends []) of
                None \<Rightarrow> False
              | Some (s, e) \<Rightarrow> IsFullRedrawFrame (drop s (take e data)))"

section \<open>Lemmas: boundaries\<close>

lemma skip_continuation_le: "skip_continuation bs \<le> length bs"
  by (induction bs) auto

lemma alignToUTF8Boundary_bounds:
  "alignToUTF8Boundary data k \<le> length data" "k \<le> length data \<Longrightarrow> k \<le> alignToUTF8Boundary data k"
  using skip_continuation_le [of "drop k data"] by (auto simp: alignToUTF8Boundary_def)

lemma find_down:
  "find P (rev [a..<b]) = Some i \<longleftrightarrow> a \<le> i \<and> i < b \<and> P i \<and> (\<forall>j. i < j \<and> j < b \<longrightarrow> \<not> P j)"
  "find P (rev [a..<b]) = None \<longleftrightarrow> (\<forall>j. a \<le> j \<and> j < b \<longrightarrow> \<not> P j)"
  by (induction b) (auto simp: less_Suc_eq le_Suc_eq)

text \<open>
  The boundary is the end of the data, or the first byte of its last character: that character is then
  incomplete, or has too many continuation bytes.
\<close>

lemma findLast_cases:
  obtains (all) "findLastValidUTF8Boundary data = length data"
  | (cut) i where "findLastValidUTF8Boundary data = i" "i < length data" "rune_start (data ! i)"
      "\<forall>j. i < j \<and> j < length data \<longrightarrow> \<not> rune_start (data ! j)"
      "length data - i \<le> 4 \<Longrightarrow>
         fst (decode_rune (drop i data)) = RuneError \<and> snd (decode_rune (drop i data)) \<noteq> length data - i"
proof -
  let ?P = "\<lambda>i. rune_start (data ! i)"
  consider (nil) "data = []"
    | (near) i where "data \<noteq> []" "find ?P (rev [length data - 4..<length data]) = Some i"
    | (far) i where "data \<noteq> []" "find ?P (rev [length data - 4..<length data]) = None"
        "find ?P (rev [0..<length data]) = Some i"
    | (never) "data \<noteq> []" "find ?P (rev [length data - 4..<length data]) = None"
        "find ?P (rev [0..<length data]) = None"
    by (metis option.exhaust)
  then show ?thesis
  proof cases
    case nil
    then show ?thesis using all by (simp add: findLastValidUTF8Boundary_def)
  next
    case (near i)
    then have "findLastValidUTF8Boundary data = length data \<or>
        (findLastValidUTF8Boundary data = i \<and> fst (decode_rune (drop i data)) = RuneError \<and>
         snd (decode_rune (drop i data)) \<noteq> length data - i)"
      by (auto simp: findLastValidUTF8Boundary_def split: prod.split)
    moreover have "i < length data" "?P i" "\<forall>j. i < j \<and> j < length data \<longrightarrow> \<not> ?P j"
      using near(2) by (auto simp: find_down)
    ultimately show ?thesis using all cut by blast
  next
    case (far i)
    then have eq: "findLastValidUTF8Boundary data = i" by (simp add: findLastValidUTF8Boundary_def)
    have i: "i < length data" "?P i" "\<forall>j. i < j \<and> j < length data \<longrightarrow> \<not> ?P j"
      using far(3) by (auto simp: find_down)
    have "\<not> length data - i \<le> 4"
    proof
      assume "length data - i \<le> 4"
      then have "length data - 4 \<le> i" by simp
      then show False using far(2) i(1,2) unfolding find_down by blast
    qed
    then show ?thesis using cut [OF eq i] by blast
  next
    case never
    then show ?thesis using all by (simp add: findLastValidUTF8Boundary_def)
  qed
qed

lemma findLast_le: "findLastValidUTF8Boundary data \<le> length data"
  by (cases data rule: findLast_cases) auto

lemma truncate_at_le: "truncate_at m ends \<le> m"
  unfolding truncate_at_def
proof -
  have "fold (\<lambda>e t. if e + length syncOutputEndSeq \<le> m then e + length syncOutputEndSeq else t) ends t \<le> m"
    if "t \<le> m" for t
    using that by (induction ends arbitrary: t) auto
  then show "fold (\<lambda>e t. if e + length syncOutputEndSeq \<le> m then e + length syncOutputEndSeq else t) ends m \<le> m"
    by simp
qed

section \<open>Lemmas: writing\<close>

text \<open>One list is a contiguous piece of another.\<close>

definition piece_of :: "bytes \<Rightarrow> bytes \<Rightarrow> bool" where
  "piece_of xs ys \<longleftrightarrow> (\<exists>us vs. ys = us @ xs @ vs)"

lemma piece_of_refl [simp]: "piece_of xs xs"
  unfolding piece_of_def by (intro exI [of _ "[]"]) simp

lemma piece_of_drop [simp]: "piece_of (drop n xs) xs"
  unfolding piece_of_def by (intro exI [of _ "take n xs"] exI [of _ "[]"]) simp

lemma piece_of_take [simp]: "piece_of (take n xs) xs"
  unfolding piece_of_def by (intro exI [of _ "[]"] exI [of _ "drop n xs"]) simp

lemma piece_of_trans: "piece_of xs ys \<Longrightarrow> piece_of ys zs \<Longrightarrow> piece_of xs zs"
  unfolding piece_of_def by (metis append.assoc)

lemma snd_DiscardOldFrames: "\<exists>n. snd (DiscardOldFrames data) = drop n data"
  using DiscardOldFrames_drop [of data] by (metis prod.collapse)

lemma enforceLimit_drop:
  "\<exists>n. fb_data (enforceLimit k b) = drop n (fb_data b)" "fb_maxSize (enforceLimit k b) = fb_maxSize b"
proof -
  obtain n where n: "snd (DiscardOldFrames (fb_data b)) = drop n (fb_data b)"
    using snd_DiscardOldFrames by blast
  show "\<exists>n. fb_data (enforceLimit k b) = drop n (fb_data b)"
  proof -
    have "\<exists>m. fb_data b = drop m (fb_data b)" "\<exists>m. [] = drop m (fb_data b)"
      by (metis drop0, metis drop_all order_refl)
    then show ?thesis
      by (auto simp: enforceLimit_def Let_def n)
  qed
  show "fb_maxSize (enforceLimit k b) = fb_maxSize b"
    by (simp add: enforceLimit_def Let_def)
qed

lemma enforceLimitAfterWrite_props:
  "length (fb_data (enforceLimitAfterWrite b)) \<le> fb_maxSize b"
  "piece_of (fb_data (enforceLimitAfterWrite b)) (fb_data b)"
  "fb_maxSize (enforceLimitAfterWrite b) = fb_maxSize b"
proof -
  let ?data = "fb_data b" and ?max = "fb_maxSize b"
  let ?excess = "length ?data - ?max"
  let ?starts = "findAllPositions ?data syncOutputStartSeq"
  let ?ends = "findAllPositions ?data syncOutputEndSeq"
  have safe: "?excess \<le> alignToUTF8Boundary ?data k" if "safe_offset ?excess ?starts ?ends = Some k" for k
  proof -
    have "?excess \<le> k" "occurs_at ?data syncOutputStartSeq k"
      using that by (auto simp: safe_offset_def set_findAllPositions dest!: find_Some_in)
    then show ?thesis
      using alignToUTF8Boundary_bounds(2) [of k ?data] occurs_at_bound [of ?data syncOutputStartSeq k] by simp
  qed
  have trunc: "findLastValidUTF8Boundary (take (truncate_at ?max ?ends) ?data) \<le> ?max"
    using findLast_le [of "take (truncate_at ?max ?ends) ?data"] truncate_at_le [of ?max ?ends] by simp
  have fall: "?excess \<le> alignToUTF8Boundary ?data ?excess"
    by (rule alignToUTF8Boundary_bounds(2)) simp
  show "length (fb_data (enforceLimitAfterWrite b)) \<le> ?max"
    using safe trunc fall by (auto simp: enforceLimitAfterWrite_def Let_def split: option.splits)
  show "piece_of (fb_data (enforceLimitAfterWrite b)) ?data"
    by (simp add: enforceLimitAfterWrite_def Let_def)
  show "fb_maxSize (enforceLimitAfterWrite b) = ?max"
    by (simp add: enforceLimitAfterWrite_def Let_def)
qed

lemma fb_Write_limit: "fb_maxSize (fb_Write data b) = fb_maxSize b"
  by (simp add: fb_Write_def Let_def enforceLimitAfterWrite_props enforceLimit_drop)

lemma fb_Write_bound: "data \<noteq> [] \<Longrightarrow> length (fb_data (fb_Write data b)) \<le> fb_maxSize b"
  using enforceLimitAfterWrite_props(1)
  by (auto simp: fb_Write_def Let_def enforceLimit_drop(2)
      intro: order_trans [OF enforceLimitAfterWrite_props(1)])

lemma fb_Write_piece: "piece_of (fb_data (fb_Write data b)) (fb_data b @ data)"
proof (cases "data = []")
  case True
  then show ?thesis by (simp add: fb_Write_def)
next
  case False
  obtain n where n: "fb_data (enforceLimit (length data) b) = drop n (fb_data b)"
    using enforceLimit_drop(1) by blast
  have "piece_of (drop n (fb_data b) @ data) (fb_data b @ data)"
    unfolding piece_of_def by (intro exI [of _ "take n (fb_data b)"] exI [of _ "[]"]) simp
  moreover obtain m where m: "snd (DiscardOldFrames (drop n (fb_data b) @ data)) =
      drop m (drop n (fb_data b) @ data)"
    using snd_DiscardOldFrames by blast
  ultimately have "piece_of (snd (DiscardOldFrames (drop n (fb_data b) @ data))) (fb_data b @ data)"
    unfolding m by (blast intro: piece_of_trans piece_of_drop)
  then show ?thesis
    using piece_of_trans [OF enforceLimitAfterWrite_props(2) [of "enforceLimit (length data) b
        \<lparr>fb_data := snd (DiscardOldFrames (drop n (fb_data b) @ data))\<rparr>"]] False
    by (simp add: fb_Write_def Let_def n)
qed

interpretation frame_buffer: bounded_store fb_Write "\<lambda>b. length (fb_data b)" fb_maxSize
proof unfold_locales
  show "length (fb_data s) \<le> fb_maxSize s \<Longrightarrow> length (fb_data (fb_Write x s)) \<le> fb_maxSize s" for x s
    by (cases "x = []") (simp add: fb_Write_def, simp add: fb_Write_bound)
  show "fb_maxSize (fb_Write x s) = fb_maxSize s" for x s
    by (rule fb_Write_limit)
qed

section \<open>Lemmas: flushing\<close>

lemma findLast_again:
  assumes "findLastValidUTF8Boundary d = i" "i < length d"
  shows "findLastValidUTF8Boundary (drop i d) = 0"
proof (cases d rule: findLast_cases)
  case all
  then show ?thesis using assms by simp
next
  case (cut k)
  then have k: "k = i" using assms by simp
  let ?d = "drop i d"
  have first: "rune_start (?d ! 0)" and later: "\<And>j. 0 < j \<Longrightarrow> j < length ?d \<Longrightarrow> \<not> rune_start (?d ! j)"
    using cut(3,4) assms(2) by (auto simp: k)
  show ?thesis
  proof (cases "length d - i \<le> 4")
    case True
    have "find (\<lambda>j. rune_start (?d ! j)) (rev [length ?d - 4..<length ?d]) = Some 0"
      unfolding find_down using first later True assms(2) by auto
    then show ?thesis
      using cut(5) True assms(2) by (auto simp: findLastValidUTF8Boundary_def k split: prod.split)
  next
    case False
    have "find (\<lambda>j. rune_start (?d ! j)) (rev [length ?d - 4..<length ?d]) = None"
      unfolding find_down using later False by auto
    moreover have "find (\<lambda>j. rune_start (?d ! j)) (rev [0..<length ?d]) = Some 0"
      unfolding find_down using first later False by auto
    ultimately show ?thesis using assms(2) by (simp add: findLastValidUTF8Boundary_def)
  qed
qed

text \<open>How much a flush of complete frames takes.\<close>

definition flush_point :: "bytes \<Rightarrow> nat" where
  "flush_point data = findLastValidUTF8Boundary (take (fst (FindFlushBoundary data)) data)"

lemma FindFlushBoundary_eq: "FindFlushBoundary data = (k, k') \<Longrightarrow> k = k' \<and> k \<le> length data"
  by (cases data rule: FindFlushBoundary_cases) auto

lemma flush_point_le:
  "flush_point data \<le> fst (FindFlushBoundary data)" "flush_point data \<le> length data"
  using findLast_le [of "take (fst (FindFlushBoundary data)) data"]
  by (auto simp: flush_point_def)

lemma findLast_Nil [simp]: "findLastValidUTF8Boundary [] = 0"
  by (simp add: findLastValidUTF8Boundary_def)

lemma flush_point_Nil [simp]: "flush_point [] = 0"
  using flush_point_le(2) [of "[]"] by simp

lemma FlushComplete_eq:
  "FlushComplete b =
     (let k = flush_point (fb_data b)
      in if k = 0 then Some ([], length (fb_data b), b)
         else do {
           out \<leftarrow> StripRedundantSequencesInFrames (take k (fb_data b));
           Some (out, length (drop k (fb_data b)), b\<lparr>fb_data := drop k (fb_data b)\<rparr>)
         })"
proof -
  obtain f f' where f: "FindFlushBoundary (fb_data b) = (f, f')" by (cases "FindFlushBoundary (fb_data b)")
  then have f': "f' = f" using FindFlushBoundary_eq by blast
  have adj: "(if f > 0 then findLastValidUTF8Boundary (take f (fb_data b)) else f) = flush_point (fb_data b)"
    by (simp add: flush_point_def f)
  have "flush_point (fb_data b) \<le> f" using flush_point_le(1) [of "fb_data b"] f by simp
  then have keep: "(if flush_point (fb_data b) < f \<and> flush_point (fb_data b) < f then flush_point (fb_data b)
      else f) = flush_point (fb_data b)" by auto
  have rest: "(if flush_point (fb_data b) < length (fb_data b) then drop (flush_point (fb_data b)) (fb_data b)
      else []) = drop (flush_point (fb_data b)) (fb_data b)" by simp
  show ?thesis
  proof (cases "fb_data b = []")
    case True
    then have "flush_point (fb_data b) = 0" using flush_point_le(2) [of "fb_data b"] by simp
    with True show ?thesis by (simp add: FlushComplete_def)
  next
    case False
    then show ?thesis
      unfolding FlushComplete_def f f' adj Let_def prod.case keep rest
      by simp
  qed
qed

lemma flush_point_again: "flush_point (drop (flush_point data) data) = 0"
proof (cases data rule: FindFlushBoundary_cases)
  case closed
  have none: "\<forall>k. \<not> open_frame_at (drop j data) k" for j
    using closed(2) open_frame_of_drop by blast
  have fp: "flush_point data = findLastValidUTF8Boundary data"
    by (simp add: flush_point_def closed(1))
  have "flush_point (drop j data) = findLastValidUTF8Boundary (drop j data)" for j
    by (simp add: flush_point_def FindFlushBoundary_closed [OF none])
  then show ?thesis
    using findLast_again [of data "flush_point data"] findLast_le [of data] fp
    by (cases "flush_point data < length data") auto
next
  case (incomplete k)
  let ?i = "flush_point data"
  have i: "?i = findLastValidUTF8Boundary (take k data)" by (simp add: flush_point_def incomplete(1))
  have le: "?i \<le> k" using flush_point_le(1) [of data] incomplete(1) by simp
  have fb: "FindFlushBoundary (drop ?i data) = (k - ?i, k - ?i)"
    by (rule FindFlushBoundary_open [OF open_frame_at_drop [OF le incomplete(2)]])
  show ?thesis
  proof (cases "?i < k")
    case True
    have "take (k - ?i) (drop ?i data) = drop ?i (take k data)"
      by (simp add: drop_take)
    then show ?thesis
      using findLast_again [OF i [symmetric]] True incomplete(3) by (simp add: flush_point_def [of "drop ?i data"] fb)
  next
    case False
    then have eq: "?i = k" using le by simp
    with fb have "FindFlushBoundary (drop k data) = (0, 0)" by simp
    then show ?thesis unfolding eq by (simp add: flush_point_def [of "drop k data"])
  qed
qed

section \<open>Properties\<close>

text \<open>
  The output buffer never exceeds its limit, whatever is written to it and in however many pieces.
\<close>

theorem frame_buffer_bounded:
  "length (fb_data (fold fb_Write chunks (NewFrameBuffer maxSize))) \<le> maxSize"
  using frame_buffer.fold_bound [of "NewFrameBuffer maxSize" chunks] by (simp add: NewFrameBuffer_def)

text \<open>
  A write only drops bytes at the ends: the new content is a contiguous piece of the old content
  followed by the written data, so nothing is duplicated, reordered or invented.
\<close>

theorem fb_Write_contiguous:
  "\<exists>dropped cut. fb_data b @ data = dropped @ fb_data (fb_Write data b) @ cut"
  using fb_Write_piece [of data b] by (simp add: piece_of_def)

text \<open>
  C6. A flush of complete frames always returns. It takes a prefix of the buffer and keeps exactly the
  rest, it returns that prefix with the redundant sequences stripped, and it never takes a byte of the
  open frame at the end of the buffer.
\<close>

theorem FlushComplete_conserves:
  "\<exists>k out. FlushComplete b = Some (out, length (fb_data b) - k, b\<lparr>fb_data := drop k (fb_data b)\<rparr>) \<and>
     k \<le> length (fb_data b) \<and>
     StripRedundantSequencesInFrames (take k (fb_data b)) = Some out \<and>
     (\<forall>p. open_frame_at (fb_data b) p \<longrightarrow> k \<le> p)"
proof -
  let ?k = "flush_point (fb_data b)"
  obtain out where out: "StripRedundantSequencesInFrames (take ?k (fb_data b)) = Some out"
    using StripRedundant_returns by blast
  have "FlushComplete b = Some (out, length (fb_data b) - ?k, b\<lparr>fb_data := drop ?k (fb_data b)\<rparr>)"
  proof (cases "?k = 0")
    case True
    then have "out = []" using out by (simp add: StripRedundantSequencesInFrames_def)
    with True show ?thesis by (simp add: FlushComplete_eq)
  next
    case False
    then show ?thesis using out by (simp add: FlushComplete_eq Let_def)
  qed
  moreover have "\<forall>p. open_frame_at (fb_data b) p \<longrightarrow> ?k \<le> p"
    using flush_point_le(1) [of "fb_data b"] FindFlushBoundary_open by auto
  ultimately show ?thesis using out flush_point_le(2) by blast
qed

theorem FlushComplete_conserves_witness:
  "\<exists>k out. FlushComplete \<lparr>fb_data = [0x61] @ syncOutputStartSeq @ [0x62], fb_maxSize = 100\<rparr> =
       Some (out, length ([0x61] @ syncOutputStartSeq @ [0x62]) - k,
         \<lparr>fb_data = drop k ([0x61] @ syncOutputStartSeq @ [0x62]), fb_maxSize = 100\<rparr>) \<and>
     k \<le> length ([0x61] @ syncOutputStartSeq @ [0x62]) \<and>
     StripRedundantSequencesInFrames (take k ([0x61] @ syncOutputStartSeq @ [0x62])) = Some out \<and>
     (\<forall>p. open_frame_at ([0x61] @ syncOutputStartSeq @ [0x62]) p \<longrightarrow> k \<le> p)"
  using FlushComplete_conserves [of "\<lparr>fb_data = [0x61] @ syncOutputStartSeq @ [0x62], fb_maxSize = 100\<rparr>"]
  by simp

text \<open>
  A flush leaves nothing that could be flushed: flushing again at once yields no data and does not
  change the buffer. So a timer is only needed when new data arrives.
\<close>

theorem FlushComplete_exhausts:
  assumes "FlushComplete b = Some (out, remaining, b')"
  shows "FlushComplete b' = Some ([], remaining, b')"
proof -
  let ?k = "flush_point (fb_data b)"
  have "fb_data b' = drop ?k (fb_data b)" "remaining = length (fb_data b')"
    using assms by (auto simp: FlushComplete_eq Let_def bind_eq_Some_conv split: if_splits)
  then show ?thesis by (simp add: FlushComplete_eq flush_point_again)
qed

theorem FlushComplete_exhausts_witness:
  "FlushComplete \<lparr>fb_data = syncOutputStartSeq @ [0x62], fb_maxSize = 100\<rparr> =
     Some ([], 9, \<lparr>fb_data = syncOutputStartSeq @ [0x62], fb_maxSize = 100\<rparr>)"
  by (rule FlushComplete_exhausts [where b = "\<lparr>fb_data = [0x61] @ syncOutputStartSeq @ [0x62], fb_maxSize = 100\<rparr>"
      and out = "[0x61]"]) code_simp

section \<open>Inputs the code does not handle\<close>

text \<open>
  A character is not protected when only its first byte has arrived: decoding that byte alone gives an
  error of size 1, which the code takes for a complete character, so the flush cuts the character.
\<close>

theorem lone_lead_byte_is_flushed:
  "findLastValidUTF8Boundary [0x61, 0xE4] = 2 \<and> findLastValidUTF8Boundary [0x61, 0xE4, 0xBD] = 1"
  by code_simp

end
