(* ===== verification/Output_Router.thy ===== *)
theory Output_Router
  imports Go_Prelude
begin

text \<open>
  The routing of terminal output (\<^verbatim>\<open>aggregator/output_router.go\<close>): to a connected relay client, else to
  the gRPC callback, else into a bounded early buffer that is replayed when a destination is set.

  Relay clients and callbacks are numbered. Whether a client is connected and whether it accepts a message
  is the environment \<open>router_env\<close> at the time of the call; what was handed over is recorded in \<open>delivered\<close>.
  The fields are read twice in \<open>Route\<close>, first under the read lock and again under the write lock;
  \<open>route_fast\<close> and \<open>route_slow\<close> are the two critical sections.
\<close>

section \<open>State\<close>

datatype destination = RelayDest nat | GrpcDest nat

record router =
  onFlush :: "nat option"
  relay :: "nat option"
  earlyBuffer :: bytes
  earlyDone :: bool
  lastDropWarn :: int
  droppedSinceLastWarn :: nat
  delivered :: "(destination \<times> bytes) list"

record router_env =
  IsConnected :: "nat \<Rightarrow> bool"
  SendOK :: "nat \<Rightarrow> bytes \<Rightarrow> bool"
  nowNano :: int

definition earlyBufferMaxSize :: nat where "earlyBufferMaxSize = 64 * 1024"

definition dropWarnInterval :: int where "dropWarnInterval = 5 * 1000000000"

definition NewOutputRouter :: "nat option \<Rightarrow> router" where
  "NewOutputRouter f = \<lparr>onFlush = f, relay = None, earlyBuffer = [], earlyDone = False,
     lastDropWarn = 0, droppedSinceLastWarn = 0, delivered = []\<rparr>"

section \<open>Operations\<close>

definition deliver :: "destination \<Rightarrow> bytes \<Rightarrow> router \<Rightarrow> router" where
  "deliver d data r = r\<lparr>delivered := delivered r @ [(d, data)]\<rparr>"

text \<open>Calling the gRPC callback when there is one.\<close>

definition via_grpc :: "bytes \<Rightarrow> router \<Rightarrow> router" where
  "via_grpc data r = (case onFlush r of Some f \<Rightarrow> deliver (GrpcDest f) data r | None \<Rightarrow> r)"

text \<open>Sending to a relay client, with the gRPC callback as the fallback when the send fails.\<close>

definition via_relay :: "router_env \<Rightarrow> nat \<Rightarrow> bytes \<Rightarrow> router \<Rightarrow> router" where
  "via_relay env c data r =
     (if SendOK env c data then deliver (RelayDest c) data r else via_grpc data r)"

definition route_fast :: "router_env \<Rightarrow> bytes \<Rightarrow> router \<Rightarrow> router option" where
  "route_fast env data r =
     (case relay r of
        Some c \<Rightarrow>
          if IsConnected env c then Some (via_relay env c data r)
          else if onFlush r \<noteq> None then Some (via_grpc data r) else None
      | None \<Rightarrow> if onFlush r \<noteq> None then Some (via_grpc data r) else None)"

definition emitDropWarning :: "router_env \<Rightarrow> router \<Rightarrow> router" where
  "emitDropWarning env r =
     (if droppedSinceLastWarn r = 0 then r
      else if nowNano env - lastDropWarn r < dropWarnInterval then r
      else r\<lparr>lastDropWarn := nowNano env, droppedSinceLastWarn := 0\<rparr>)"

definition buffer_early :: "bytes \<Rightarrow> router \<Rightarrow> router" where
  "buffer_early data r =
     (if earlyDone r then r
      else if length (earlyBuffer r) < earlyBufferMaxSize
      then r\<lparr>earlyBuffer := earlyBuffer r @ take (earlyBufferMaxSize - length (earlyBuffer r)) data\<rparr>
      else r\<lparr>droppedSinceLastWarn := droppedSinceLastWarn r + 1\<rparr>)"

definition route_slow :: "router_env \<Rightarrow> bytes \<Rightarrow> router \<Rightarrow> router" where
  "route_slow env data r =
     (case route_fast env data r of
        Some r' \<Rightarrow> r'
      | None \<Rightarrow> emitDropWarning env (buffer_early data r))"

definition Route :: "router_env \<Rightarrow> bytes \<Rightarrow> router \<Rightarrow> router" where
  "Route env data r =
     (if data = [] then r
      else case route_fast env data r of Some r' \<Rightarrow> r' | None \<Rightarrow> route_slow env data r)"

definition drainEarlyBufferLocked :: "router \<Rightarrow> bytes \<times> router" where
  "drainEarlyBufferLocked r =
     (if earlyBuffer r = [] then ([], r\<lparr>earlyDone := True\<rparr>)
      else (earlyBuffer r, r\<lparr>earlyBuffer := [], earlyDone := True\<rparr>))"

definition SetRelayClient :: "router_env \<Rightarrow> nat option \<Rightarrow> router \<Rightarrow> router" where
  "SetRelayClient env client r0 =
     (let (buffered, r) = drainEarlyBufferLocked (r0\<lparr>relay := client\<rparr>)
      in case client of
           Some c \<Rightarrow> if IsConnected env c \<and> buffered \<noteq> [] then via_relay env c buffered r else r
         | None \<Rightarrow> if buffered \<noteq> [] then via_grpc buffered r else r)"

definition HasRelayClient :: "router \<Rightarrow> bool" where
  "HasRelayClient r = (relay r \<noteq> None)"

definition SetOnFlush :: "nat option \<Rightarrow> router \<Rightarrow> router" where
  "SetOnFlush f r0 =
     (let (buffered, r) = drainEarlyBufferLocked (r0\<lparr>onFlush := f\<rparr>)
      in if f \<noteq> None \<and> buffered \<noteq> [] then via_grpc buffered r else r)"

definition DrainEarlyBuffer :: "router \<Rightarrow> bytes \<times> router" where
  "DrainEarlyBuffer r = drainEarlyBufferLocked r"

section \<open>Lemmas\<close>

lemma Route_eq:
  "Route env d r =
     (if d = [] then r
      else case route_fast env d r of Some r' \<Rightarrow> r' | None \<Rightarrow> emitDropWarning env (buffer_early d r))"
  by (simp add: Route_def route_slow_def split: option.split)

lemma route_fast_Some:
  "route_fast env d r = Some r' \<Longrightarrow> r' = r \<or> (\<exists>x. r' = deliver x d r)"
  by (auto simp: route_fast_def via_relay_def via_grpc_def split: option.splits if_splits)

lemma route_fast_grpc:
  "onFlush r = Some f \<Longrightarrow> \<exists>x. route_fast env d r = Some (deliver x d r)"
  by (auto simp: route_fast_def via_relay_def via_grpc_def split: option.split)

lemma emitDropWarning_frame [simp]:
  "onFlush (emitDropWarning env r) = onFlush r" "relay (emitDropWarning env r) = relay r"
  "earlyDone (emitDropWarning env r) = earlyDone r" "earlyBuffer (emitDropWarning env r) = earlyBuffer r"
  "delivered (emitDropWarning env r) = delivered r"
  by (simp_all add: emitDropWarning_def)

lemma buffer_early_frame [simp]:
  "onFlush (buffer_early d r) = onFlush r" "relay (buffer_early d r) = relay r"
  "earlyDone (buffer_early d r) = earlyDone r" "delivered (buffer_early d r) = delivered r"
  by (simp_all add: buffer_early_def)

lemma deliver_frame [simp]:
  "onFlush (deliver x d r) = onFlush r" "relay (deliver x d r) = relay r"
  "earlyDone (deliver x d r) = earlyDone r" "earlyBuffer (deliver x d r) = earlyBuffer r"
  by (simp_all add: deliver_def)

lemma Route_cases:
  obtains (none) "Route env d r = r"
  | (fast) x where "Route env d r = deliver x d r"
  | (early) "Route env d r = emitDropWarning env (buffer_early d r)"
proof (cases "d = []")
  case True
  then show ?thesis using none by (simp add: Route_eq)
next
  case False
  show ?thesis
  proof (cases "route_fast env d r")
    case None
    then show ?thesis using False early by (simp add: Route_eq)
  next
    case (Some r')
    then have "Route env d r = r'" using False by (simp add: Route_eq)
    then show ?thesis using route_fast_Some [OF Some] none fast by blast
  qed
qed

lemma Route_frame [simp]:
  "onFlush (Route env d r) = onFlush r" "relay (Route env d r) = relay r"
  "earlyDone (Route env d r) = earlyDone r"
  by (cases env d r rule: Route_cases; simp)+

lemma buffer_early_bound:
  "length (earlyBuffer r) \<le> earlyBufferMaxSize \<Longrightarrow> length (earlyBuffer (buffer_early d r)) \<le> earlyBufferMaxSize"
  by (auto simp: buffer_early_def)

lemma Route_earlyBuffer_bound:
  "length (earlyBuffer r) \<le> earlyBufferMaxSize \<Longrightarrow> length (earlyBuffer (Route env d r)) \<le> earlyBufferMaxSize"
  using buffer_early_bound by (cases env d r rule: Route_cases) auto

interpretation early_buffer: bounded_store "Route env" "\<lambda>r. length (earlyBuffer r)" "\<lambda>_. earlyBufferMaxSize"
  for env
  by unfold_locales (use Route_earlyBuffer_bound in auto)

lemma Route_with_grpc:
  assumes "onFlush r = Some f" "data \<noteq> []"
  shows "\<exists>d. Route env data r = r\<lparr>delivered := delivered r @ [(d, data)]\<rparr>"
  using route_fast_grpc [OF assms(1), of env data] assms(2) by (auto simp: Route_eq deliver_def)

text \<open>While no destination is set, the early buffer holds the beginning of the output.\<close>

lemma Route_early:
  assumes "onFlush r = None" "relay r = None" "\<not> earlyDone r" "delivered r = []"
    and buf: "earlyBuffer r = take earlyBufferMaxSize out"
  shows "earlyBuffer (Route env d r) = take earlyBufferMaxSize (out @ d)" "delivered (Route env d r) = []"
proof -
  have "route_fast env d r = None" using assms by (simp add: route_fast_def)
  then have R: "Route env d r = (if d = [] then r else emitDropWarning env (buffer_early d r))"
    by (simp add: Route_eq)
  show "earlyBuffer (Route env d r) = take earlyBufferMaxSize (out @ d)"
    using assms by (cases "length out < earlyBufferMaxSize") (auto simp: R buffer_early_def)
  show "delivered (Route env d r) = []" using assms by (simp add: R)
qed

lemma fold_Route_early:
  assumes "onFlush r = None" "relay r = None" "\<not> earlyDone r" "delivered r = []"
    and "earlyBuffer r = take earlyBufferMaxSize out"
  shows "earlyBuffer (fold (Route env) chunks r) = take earlyBufferMaxSize (out @ concat chunks)"
    "delivered (fold (Route env) chunks r) = []" "onFlush (fold (Route env) chunks r) = None"
    "relay (fold (Route env) chunks r) = None"
  using assms
proof (induction chunks arbitrary: r out)
  case (Cons d chunks)
  {
    case 1
    then show ?case using Cons.IH(1) [of "Route env d r" "out @ d"] Route_early [OF 1] by simp
  next
    case 2
    then show ?case using Cons.IH(2) [of "Route env d r" "out @ d"] Route_early [OF 2] by simp
  next
    case 3
    then show ?case using Cons.IH(3) [of "Route env d r" "out @ d"] Route_early [OF 3] by simp
  next
    case 4
    then show ?case using Cons.IH(4) [of "Route env d r" "out @ d"] Route_early [OF 4] by simp
  }
qed simp_all

section \<open>Properties\<close>

text \<open>
  The early buffer never grows beyond 64 KiB, whatever is routed and whichever destinations come and
  go between the calls.
\<close>

theorem early_buffer_bounded:
  "length (earlyBuffer (fold (Route env) chunks (NewOutputRouter f))) \<le> earlyBufferMaxSize"
  using early_buffer.fold_bound [of "NewOutputRouter f" env chunks] by (simp add: NewOutputRouter_def)

text \<open>
  Output that is produced before a destination is set is not lost: once the gRPC callback is set, it
  receives the first 64 KiB of the output so far, in order and in one call.
\<close>

theorem early_output_is_replayed:
  assumes "concat chunks \<noteq> []"
  shows "delivered (SetOnFlush (Some f) (fold (Route env) chunks (NewOutputRouter None))) =
    [(GrpcDest f, take earlyBufferMaxSize (concat chunks))]"
proof -
  let ?r = "fold (Route env) chunks (NewOutputRouter None)"
  have "earlyBuffer ?r = take earlyBufferMaxSize (concat chunks)" "delivered ?r = []"
    using fold_Route_early [of "NewOutputRouter None" "[]" env chunks] by (simp_all add: NewOutputRouter_def)
  then show ?thesis
    using assms by (auto simp: SetOnFlush_def drainEarlyBufferLocked_def via_grpc_def deliver_def
        earlyBufferMaxSize_def)
qed

theorem early_output_is_replayed_witness:
  "delivered (SetOnFlush (Some 7) (fold (Route \<lparr>IsConnected = (\<lambda>_. False), SendOK = (\<lambda>_ _. False), nowNano = 0\<rparr>)
       [[0x61], [0x62]] (NewOutputRouter None))) =
    [(GrpcDest 7, take earlyBufferMaxSize (concat [[0x61], [0x62]]))]"
  by (rule early_output_is_replayed) simp

text \<open>
  With a gRPC callback registered no chunk is lost: however the relay client behaves (absent, not
  connected, failing), a routed chunk is handed to exactly one destination.
\<close>

theorem Route_delivers_once:
  assumes "onFlush r = Some f" and "data \<noteq> []"
  shows "\<exists>d. Route env data r = r\<lparr>delivered := delivered r @ [(d, data)]\<rparr>"
  by (rule Route_with_grpc [OF assms])

theorem Route_delivers_once_witness:
  "\<exists>d. Route \<lparr>IsConnected = (\<lambda>_. True), SendOK = (\<lambda>_ _. False), nowNano = 0\<rparr> [0x61]
         (NewOutputRouter (Some 1)\<lparr>relay := Some 5\<rparr>) =
       NewOutputRouter (Some 1)\<lparr>relay := Some 5, delivered := delivered (NewOutputRouter (Some 1)\<lparr>relay := Some 5\<rparr>) @ [(d, [0x61])]\<rparr>"
  by (rule Route_delivers_once [where f = 1]) (simp_all add: NewOutputRouter_def)

section \<open>What is lost\<close>

text \<open>
  A relay client that is registered before it is connected empties the early buffer without sending it:
  the output of the start-up phase is lost.
\<close>

theorem SetRelayClient_drops_early_output:
  assumes "\<not> IsConnected env c" "earlyBuffer r \<noteq> []"
  shows "earlyBuffer (SetRelayClient env (Some c) r) = []"
    "delivered (SetRelayClient env (Some c) r) = delivered r"
  using assms by (auto simp: SetRelayClient_def drainEarlyBufferLocked_def)

end
