(* ===== verification/Smart_Aggregator.thy ===== *)
theory Smart_Aggregator
  imports Frame_Buffer Output_Router "HOL-Library.Multiset"
begin

text \<open>
  The aggregator that collects terminal output and sends it in larger pieces
  (\<^verbatim>\<open>aggregator/smart_aggregator.go\<close>, \<^verbatim>\<open>aggregator/smart_aggregator_flush.go\<close> and
  \<^verbatim>\<open>aggregator/backpressure.go\<close>).

  Its methods run under one mutex, so each is one step of a state machine. What they ask of the outside is
  the environment \<open>agg_env\<close> of the step: the load of the queue, the verdict of the redraw throttler and the
  result of the serialize callback. \<open>ag_timer\<close> says whether the field \<open>timer\<close> is not nil. A timer that fired
  may still run after it was stopped, so a timer step is possible at any time. Every flush starts a
  goroutine that routes its data: \<open>ag_routing\<close> holds the data of the goroutines that have not run yet, and
  a routing step runs any of them. The history variable \<open>ag_flushed\<close> lists everything that was flushed.

  The lemmas show that data which could be flushed always has a timer, that the buffer stays within its
  limit, and that each flushed piece is routed exactly once; but the order of the pieces is not kept.
\<close>

section \<open>Backpressure\<close>

record backpressure =
  bp_paused :: bool
  bp_resumeCh :: bool
  bp_onPause :: bool
  bp_onResume :: bool
  bp_pauseCalls :: nat
  bp_resumeCalls :: nat

definition NewBackpressureController :: "bool \<Rightarrow> bool \<Rightarrow> backpressure" where
  "NewBackpressureController p r = \<lparr>bp_paused = False, bp_resumeCh = False, bp_onPause = p, bp_onResume = r,
     bp_pauseCalls = 0, bp_resumeCalls = 0\<rparr>"

definition bp_Pause :: "backpressure \<Rightarrow> backpressure" where
  "bp_Pause c =
     (let wasPaused = bp_paused c; c = c\<lparr>bp_paused := True\<rparr>
      in if \<not> wasPaused \<and> bp_onPause c then c\<lparr>bp_pauseCalls := bp_pauseCalls c + 1\<rparr> else c)"

definition bp_Resume :: "backpressure \<Rightarrow> backpressure \<times> bool" where
  "bp_Resume c =
     (let wasPaused = bp_paused c; c = c\<lparr>bp_paused := False\<rparr>
      in if wasPaused
         then ((if bp_onResume c then c\<lparr>bp_resumeCalls := bp_resumeCalls c + 1\<rparr> else c)\<lparr>bp_resumeCh := True\<rparr>,
               True)
         else (c, False))"

section \<open>State\<close>

record aggregator =
  ag_stopped :: bool
  ag_timer :: bool
  ag_buffer :: frame_buffer
  ag_backpressure :: backpressure
  ag_router :: router
  ag_serialize :: bool
  ag_pending :: bool
  ag_throttler :: bool
  ag_ticks :: nat
  ag_routing :: "bytes list"
  ag_flushed :: "bytes list"

record agg_env =
  IsCriticalLoad :: bool
  IsHighLoad :: bool
  ShouldFlush :: bool
  serialized :: bytes

text \<open>The options of the constructor: buffer size, serialize mode and redraw throttling.\<close>

definition NewSmartAggregator :: "nat option \<Rightarrow> nat \<Rightarrow> bool \<Rightarrow> bool \<Rightarrow> aggregator" where
  "NewSmartAggregator f maxSize serialize throttled =
     \<lparr>ag_stopped = False, ag_timer = False, ag_buffer = NewFrameBuffer maxSize,
      ag_backpressure = NewBackpressureController False False, ag_router = NewOutputRouter f,
      ag_serialize = serialize, ag_pending = False, ag_throttler = throttled, ag_ticks = 0,
      ag_routing = [], ag_flushed = []\<rparr>"

section \<open>Operations\<close>

definition spawn_route :: "bytes \<Rightarrow> aggregator \<Rightarrow> aggregator" where
  "spawn_route data a = a\<lparr>ag_routing := ag_routing a @ [data], ag_flushed := ag_flushed a @ [data]\<rparr>"

definition reset_buffer :: "aggregator \<Rightarrow> aggregator" where
  "reset_buffer a = a\<lparr>ag_buffer := (ag_buffer a)\<lparr>fb_data := []\<rparr>\<rparr>"

definition flushLocked :: "agg_env \<Rightarrow> aggregator \<Rightarrow> aggregator option" where
  "flushLocked env a0 =
     (let a = a0\<lparr>ag_timer := False\<rparr>
      in if ag_serialize a then
           (if \<not> ag_pending a then Some a
            else let a = reset_buffer (a\<lparr>ag_pending := False\<rparr>)
                 in if serialized env = [] then Some a else Some (spawn_route (serialized env) a))
         else if ag_throttler a \<and> IsLastFrameFullRedraw (ag_buffer a) \<and> \<not> ShouldFlush env
         then Some (a\<lparr>ag_timer := True\<rparr>)
         else do {
           (data, remaining, b) \<leftarrow> FlushComplete (ag_buffer a);
           let a = a\<lparr>ag_buffer := b\<rparr>;
           (if data = [] then Some (if remaining > 0 then a\<lparr>ag_timer := True\<rparr> else a)
            else Some (spawn_route data a))
         })"

definition timerFlush :: "agg_env \<Rightarrow> aggregator \<Rightarrow> aggregator option" where
  "timerFlush env a =
     (if ag_stopped a then Some a
      else if bp_paused (ag_backpressure a) then Some (a\<lparr>ag_timer := True\<rparr>)
      else if IsCriticalLoad env then Some (a\<lparr>ag_timer := True\<rparr>)
      else flushLocked env a)"

definition forceFlushLocked :: "agg_env \<Rightarrow> aggregator \<Rightarrow> aggregator option" where
  "forceFlushLocked env a0 =
     (let a = a0\<lparr>ag_timer := False\<rparr>
      in if ag_serialize a then
           (if \<not> ag_pending a then Some a
            else let a = reset_buffer (a\<lparr>ag_pending := False\<rparr>)
                 in if serialized env = [] then Some a else Some (spawn_route (serialized env) a))
         else do {
           (data, remaining, b) \<leftarrow> FlushAll (ag_buffer a);
           let a = a\<lparr>ag_buffer := b\<rparr>;
           (if data = [] then Some a else Some (spawn_route data a))
         })"

definition agg_Write :: "agg_env \<Rightarrow> bytes \<Rightarrow> aggregator \<Rightarrow> aggregator option" where
  "agg_Write env data a =
     (if ag_stopped a then Some a
      else if ag_serialize a then Some (a\<lparr>ag_pending := True, ag_timer := True\<rparr>)
      else
        let a = a\<lparr>ag_buffer := fb_Write data (ag_buffer a), ag_timer := True\<rparr>
        in if IsCriticalLoad env then Some a
           else if length (fb_data (ag_buffer a)) \<ge> fb_maxSize (ag_buffer a) \<and> \<not> IsHighLoad env
           then flushLocked env a
           else Some a)"

definition agg_Flush :: "agg_env \<Rightarrow> aggregator \<Rightarrow> aggregator option" where
  "agg_Flush env a = (if ag_stopped a then Some a else forceFlushLocked env a)"

definition agg_Stop :: "agg_env \<Rightarrow> aggregator \<Rightarrow> aggregator option" where
  "agg_Stop env a = (if ag_stopped a then Some a else forceFlushLocked env (a\<lparr>ag_stopped := True\<rparr>))"

definition agg_Pause :: "aggregator \<Rightarrow> aggregator" where
  "agg_Pause a = a\<lparr>ag_backpressure := bp_Pause (ag_backpressure a)\<rparr>"

text \<open>\<open>Resume\<close> starts a goroutine that calls \<open>timerFlush\<close>: \<open>ag_ticks\<close> counts them.\<close>

definition agg_Resume :: "aggregator \<Rightarrow> aggregator" where
  "agg_Resume a =
     (let (c, wasPaused) = bp_Resume (ag_backpressure a); a = a\<lparr>ag_backpressure := c\<rparr>
      in if wasPaused then a\<lparr>ag_ticks := ag_ticks a + 1\<rparr> else a)"

definition agg_SetRelayClient :: "router_env \<Rightarrow> nat option \<Rightarrow> aggregator \<Rightarrow> aggregator" where
  "agg_SetRelayClient renv c a = a\<lparr>ag_router := SetRelayClient renv c (ag_router a)\<rparr>"

text \<open>One of the routing goroutines runs.\<close>

definition run_route :: "router_env \<Rightarrow> nat \<Rightarrow> aggregator \<Rightarrow> aggregator option" where
  "run_route renv i a =
     (if i < length (ag_routing a)
      then Some (a\<lparr>ag_router := Route renv (ag_routing a ! i) (ag_router a),
                   ag_routing := take i (ag_routing a) @ drop (Suc i) (ag_routing a)\<rparr>)
      else None)"

text \<open>The steps of the aggregator in any interleaving.\<close>

inductive agg_step :: "aggregator \<Rightarrow> aggregator \<Rightarrow> bool" where
  step_Write: "agg_Write env data a = Some a' \<Longrightarrow> agg_step a a'"
| step_Timer: "timerFlush env a = Some a' \<Longrightarrow> agg_step a a'"
| step_Flush: "agg_Flush env a = Some a' \<Longrightarrow> agg_step a a'"
| step_Stop: "agg_Stop env a = Some a' \<Longrightarrow> agg_step a a'"
| step_Pause: "agg_step a (agg_Pause a)"
| step_Resume: "agg_step a (agg_Resume a)"
| step_Relay: "agg_step a (agg_SetRelayClient renv c a)"
| step_Route: "run_route renv i a = Some a' \<Longrightarrow> agg_step a a'"

inductive_cases agg_stepE: "agg_step a a'"

abbreviation agg_reachable :: "aggregator \<Rightarrow> aggregator \<Rightarrow> bool" where
  "agg_reachable \<equiv> agg_step\<^sup>*\<^sup>*"

section \<open>Lemmas: no panic\<close>

lemma FlushComplete_returns: "\<exists>out n b'. FlushComplete b = Some (out, n, b')"
  using StripRedundant_returns [of "take (flush_point (fb_data b)) (fb_data b)"]
  by (auto simp: FlushComplete_eq Let_def)

lemma FlushAll_eq:
  "FlushAll b =
     (let k = findLastValidUTF8Boundary (fb_data b)
      in if k = 0 then Some ([], length (fb_data b), b)
         else do {
           out \<leftarrow> StripRedundantSequencesInFrames (take k (fb_data b));
           Some (out, length (drop k (fb_data b)), b\<lparr>fb_data := drop k (fb_data b)\<rparr>)
         })"
  by (cases "fb_data b = []") (auto simp: FlushAll_def Let_def)

lemma FlushAll_returns: "\<exists>out n b'. FlushAll b = Some (out, n, b')"
  using StripRedundant_returns [of "take (findLastValidUTF8Boundary (fb_data b)) (fb_data b)"]
  by (auto simp: FlushAll_eq Let_def)

lemma flushLocked_returns: "\<exists>a'. flushLocked env a = Some a'"
  using FlushComplete_returns [of "ag_buffer a"] by (auto simp: flushLocked_def Let_def)

lemma forceFlushLocked_returns: "\<exists>a'. forceFlushLocked env a = Some a'"
  using FlushAll_returns [of "ag_buffer a"] by (auto simp: forceFlushLocked_def Let_def)

section \<open>Lemmas: timers\<close>

definition woken :: "aggregator \<Rightarrow> bool" where
  "woken a \<longleftrightarrow> ag_stopped a \<or> ag_timer a \<or>
     (if ag_serialize a then \<not> ag_pending a else flush_point (fb_data (ag_buffer a)) = 0)"

lemma FlushComplete_rest:
  "FlushComplete b = Some (out, n, b') \<Longrightarrow> flush_point (fb_data b') = 0 \<and> n = length (fb_data b')"
  by (auto simp: FlushComplete_eq Let_def bind_eq_Some_conv flush_point_again split: if_splits)

text \<open>What a forced flush leaves is one incomplete character, so there is no frame in it.\<close>

lemma no_frame_in_tail:
  assumes "\<forall>j. 0 < j \<and> j < length d \<longrightarrow> \<not> rune_start (d ! j)"
  shows "\<not> occurs_at d syncOutputStartSeq i"
proof
  assume o: "occurs_at d syncOutputStartSeq i"
  have "i + 1 < length d" "d ! (i + 1) = syncOutputStartSeq ! 1"
    using occurs_at_nth [OF o, of 1] by simp_all
  then have "rune_start (d ! (i + 1))" by (simp add: syncOutputStartSeq_def rune_start_def)
  then show False using assms \<open>i + 1 < length d\<close> by auto
qed

lemma flush_point_tail:
  "flush_point (drop (findLastValidUTF8Boundary data) data) = 0"
proof (cases data rule: findLast_cases)
  case all
  then show ?thesis by simp
next
  case (cut i)
  have "\<forall>j. 0 < j \<and> j < length (drop i data) \<longrightarrow> \<not> rune_start (drop i data ! j)"
    using cut(2,4) by auto
  then have "\<forall>k. \<not> open_frame_at (drop i data) k"
    using no_frame_in_tail by (auto simp: open_frame_at_def)
  then show ?thesis
    using findLast_again [OF cut(1,2)] cut(1) by (simp add: flush_point_def FindFlushBoundary_closed)
qed

lemma FlushAll_rest:
  "FlushAll b = Some (out, n, b') \<Longrightarrow> flush_point (fb_data b') = 0"
  using flush_point_tail [of "fb_data b"]
  by (auto simp: FlushAll_eq Let_def bind_eq_Some_conv split: if_splits)

text \<open>The outcomes of a flush and of a forced flush.\<close>

lemma flushLockedE:
  assumes "flushLocked env a = Some a'"
  obtains (idle) "ag_serialize a" "\<not> ag_pending a" "a' = a\<lparr>ag_timer := False\<rparr>"
  | (empty) "ag_serialize a" "a' = reset_buffer (a\<lparr>ag_timer := False, ag_pending := False\<rparr>)"
  | (screen) d where "ag_serialize a" "d \<noteq> []"
      "a' = spawn_route d (reset_buffer (a\<lparr>ag_timer := False, ag_pending := False\<rparr>))"
  | (throttled) "\<not> ag_serialize a" "a' = a\<lparr>ag_timer := True\<rparr>"
  | (kept) n b where "\<not> ag_serialize a" "FlushComplete (ag_buffer a) = Some ([], n, b)"
      "a' = a\<lparr>ag_timer := (n > 0), ag_buffer := b\<rparr>"
  | (data) d n b where "\<not> ag_serialize a" "FlushComplete (ag_buffer a) = Some (d, n, b)" "d \<noteq> []"
      "a' = spawn_route d (a\<lparr>ag_timer := False, ag_buffer := b\<rparr>)"
proof (cases "ag_serialize a")
  case True
  then show ?thesis
    using assms idle empty screen by (auto simp: flushLocked_def Let_def split: if_splits)
next
  case False
  obtain d n b where f: "FlushComplete (ag_buffer a) = Some (d, n, b)"
    using FlushComplete_returns by blast
  show ?thesis
  proof (cases "ag_throttler a \<and> IsLastFrameFullRedraw (ag_buffer a) \<and> \<not> ShouldFlush env")
    case True
    then show ?thesis using assms False throttled by (simp add: flushLocked_def Let_def)
  next
    case no: False
    show ?thesis
    proof (cases "d = []")
      case True
      have "a' = a\<lparr>ag_timer := (n > 0), ag_buffer := b\<rparr>"
        using assms False no f True by (cases "n > 0") (auto simp: flushLocked_def Let_def)
      then show ?thesis using kept [OF False, of n b] f True by blast
    next
      case ne: False
      have "a' = spawn_route d (a\<lparr>ag_timer := False, ag_buffer := b\<rparr>)"
        using assms False no f ne by (auto simp: flushLocked_def Let_def)
      then show ?thesis by (rule data [OF False f ne])
    qed
  qed
qed

lemma forceFlushLockedE:
  assumes "forceFlushLocked env a = Some a'"
  obtains (idle) "ag_serialize a" "\<not> ag_pending a" "a' = a\<lparr>ag_timer := False\<rparr>"
  | (empty) "ag_serialize a" "a' = reset_buffer (a\<lparr>ag_timer := False, ag_pending := False\<rparr>)"
  | (screen) d where "ag_serialize a" "d \<noteq> []"
      "a' = spawn_route d (reset_buffer (a\<lparr>ag_timer := False, ag_pending := False\<rparr>))"
  | (kept) n b where "\<not> ag_serialize a" "FlushAll (ag_buffer a) = Some ([], n, b)"
      "a' = a\<lparr>ag_timer := False, ag_buffer := b\<rparr>"
  | (data) d n b where "\<not> ag_serialize a" "FlushAll (ag_buffer a) = Some (d, n, b)" "d \<noteq> []"
      "a' = spawn_route d (a\<lparr>ag_timer := False, ag_buffer := b\<rparr>)"
proof (cases "ag_serialize a")
  case True
  then show ?thesis
    using assms idle empty screen by (auto simp: forceFlushLocked_def Let_def split: if_splits)
next
  case False
  obtain d n b where f: "FlushAll (ag_buffer a) = Some (d, n, b)" using FlushAll_returns by blast
  show ?thesis
  proof (cases "d = []")
    case True
    have "a' = a\<lparr>ag_timer := False, ag_buffer := b\<rparr>"
      using assms False f True by (auto simp: forceFlushLocked_def Let_def)
    then show ?thesis using kept [OF False, of n b] f True by blast
  next
    case ne: False
    have "a' = spawn_route d (a\<lparr>ag_timer := False, ag_buffer := b\<rparr>)"
      using assms False f ne by (auto simp: forceFlushLocked_def Let_def)
    then show ?thesis by (rule data [OF False f ne])
  qed
qed

lemma flushLocked_woken: "flushLocked env a = Some a' \<Longrightarrow> woken a'"
  by (erule flushLockedE)
    (auto simp: woken_def spawn_route_def reset_buffer_def dest!: FlushComplete_rest)

lemma forceFlushLocked_woken: "forceFlushLocked env a = Some a' \<Longrightarrow> woken a'"
  by (erule forceFlushLockedE)
    (auto simp: woken_def spawn_route_def reset_buffer_def dest!: FlushAll_rest)

lemma agg_step_woken: "agg_step a a' \<Longrightarrow> woken a \<Longrightarrow> woken a'"
proof (induction rule: agg_step.induct)
  case (step_Write env data a a')
  then show ?case
    by (auto simp: agg_Write_def Let_def dest: flushLocked_woken split: if_splits) (auto simp: woken_def)
next
  case (step_Timer env a a')
  then show ?case
    by (auto simp: timerFlush_def dest: flushLocked_woken split: if_splits) (auto simp: woken_def)
next
  case (step_Flush env a a')
  then show ?case by (auto simp: agg_Flush_def dest: forceFlushLocked_woken split: if_splits)
next
  case (step_Stop env a a')
  then show ?case by (auto simp: agg_Stop_def dest: forceFlushLocked_woken split: if_splits)
qed (auto simp: woken_def agg_Pause_def agg_Resume_def agg_SetRelayClient_def run_route_def Let_def
    split: prod.splits if_splits)

section \<open>Lemmas: the buffer\<close>

definition buffer_ok :: "aggregator \<Rightarrow> bool" where
  "buffer_ok a \<longleftrightarrow> length (fb_data (ag_buffer a)) \<le> fb_maxSize (ag_buffer a)"

lemma FlushComplete_buffer:
  "FlushComplete b = Some (out, n, b') \<Longrightarrow>
     length (fb_data b') \<le> length (fb_data b) \<and> fb_maxSize b' = fb_maxSize b"
  by (auto simp: FlushComplete_eq Let_def bind_eq_Some_conv split: if_splits)

lemma FlushAll_buffer:
  "FlushAll b = Some (out, n, b') \<Longrightarrow>
     length (fb_data b') \<le> length (fb_data b) \<and> fb_maxSize b' = fb_maxSize b"
  by (auto simp: FlushAll_eq Let_def bind_eq_Some_conv split: if_splits)

lemma flushLocked_buffer:
  "flushLocked env a = Some a' \<Longrightarrow> length (fb_data (ag_buffer a')) \<le> length (fb_data (ag_buffer a)) \<and>
     fb_maxSize (ag_buffer a') = fb_maxSize (ag_buffer a)"
  by (erule flushLockedE) (auto simp: spawn_route_def reset_buffer_def dest!: FlushComplete_buffer)

lemma forceFlushLocked_buffer:
  "forceFlushLocked env a = Some a' \<Longrightarrow> length (fb_data (ag_buffer a')) \<le> length (fb_data (ag_buffer a)) \<and>
     fb_maxSize (ag_buffer a') = fb_maxSize (ag_buffer a)"
  by (erule forceFlushLockedE) (auto simp: spawn_route_def reset_buffer_def dest!: FlushAll_buffer)

lemma agg_step_buffer:
  "agg_step a a' \<Longrightarrow> buffer_ok a \<Longrightarrow> buffer_ok a' \<and> fb_maxSize (ag_buffer a') = fb_maxSize (ag_buffer a)"
proof (induction rule: agg_step.induct)
  case (step_Write env data a a')
  let ?b = "fb_Write data (ag_buffer a)"
  have ok: "length (fb_data ?b) \<le> fb_maxSize (ag_buffer a)" "fb_maxSize ?b = fb_maxSize (ag_buffer a)"
    using step_Write.prems frame_buffer.put_bound fb_Write_limit by (auto simp: buffer_ok_def)
  show ?case
    using step_Write ok
    by (auto simp: agg_Write_def Let_def buffer_ok_def dest!: flushLocked_buffer split: if_splits)
next
  case (step_Timer env a a')
  then show ?case
    by (auto simp: timerFlush_def buffer_ok_def dest!: flushLocked_buffer split: if_splits)
next
  case (step_Flush env a a')
  then show ?case
    by (auto simp: agg_Flush_def buffer_ok_def dest!: forceFlushLocked_buffer split: if_splits)
next
  case (step_Stop env a a')
  then show ?case
    by (auto simp: agg_Stop_def buffer_ok_def dest!: forceFlushLocked_buffer split: if_splits)
qed (auto simp: buffer_ok_def agg_Pause_def agg_Resume_def agg_SetRelayClient_def run_route_def Let_def
    split: prod.splits if_splits)

section \<open>Lemmas: routing\<close>

text \<open>
  The fate of the pieces that have been routed: the pieces \<open>direct\<close> were handed over whole, the pieces \<open>early\<close> went
  into the early buffer, in this order, the pieces \<open>lost\<close> were dropped. What was handed over are the direct pieces
  and, once a client has been set, at most one replay of the early buffer.
\<close>

definition fate :: "router \<Rightarrow> bytes list \<Rightarrow> bytes list \<Rightarrow> bytes list \<Rightarrow> bool" where
  "fate r direct early lost \<longleftrightarrow>
     (if earlyDone r then earlyBuffer r = [] \<and>
        (mset (map snd (delivered r)) = mset direct \<or>
         mset (map snd (delivered r)) = add_mset (take earlyBufferMaxSize (concat early)) (mset direct))
      else relay r = None \<and> earlyBuffer r = take earlyBufferMaxSize (concat early) \<and>
        mset (map snd (delivered r)) = mset direct \<and> (lost \<noteq> [] \<longrightarrow> earlyBufferMaxSize \<le> length (concat early)) \<and>
        (onFlush r = None \<longrightarrow> direct = [])) \<and>
     (onFlush r \<noteq> None \<longrightarrow> early = [] \<and> lost = [] \<and> mset (map snd (delivered r)) = mset direct)"

lemma fate_grpc: "fate r direct early lost \<Longrightarrow> onFlush r \<noteq> None \<Longrightarrow> earlyBuffer r = []"
  by (auto simp: fate_def split: if_splits)

lemma fate_Route:
  assumes fate: "fate r direct early lost" and p: "p \<noteq> []"
  shows "fate (Route env p r) (direct @ [p]) early lost \<or> fate (Route env p r) direct (early @ [p]) lost \<or>
    fate (Route env p r) direct early (lost @ [p])"
proof (cases "onFlush r")
  case (Some f)
  then obtain x where "Route env p r = r\<lparr>delivered := delivered r @ [(x, p)]\<rparr>" using Route_with_grpc p by blast
  then have "fate (Route env p r) (direct @ [p]) early lost"
    using fate Some by (auto simp: fate_def fate_grpc [OF fate] split: if_splits)
  then show ?thesis by blast
next
  case None
  show ?thesis
  proof (cases "earlyDone r")
    case True
    show ?thesis
    proof (cases env p r rule: Route_cases)
      case none
      then have "fate (Route env p r) direct early (lost @ [p])" using fate None True by (simp add: fate_def)
      then show ?thesis by blast
    next
      case (fast x)
      have "fate (deliver x p r) (direct @ [p]) early lost" using fate None True by (auto simp: fate_def deliver_def)
      then show ?thesis using fast by simp
    next
      case early
      have "buffer_early p r = r" using True by (simp add: buffer_early_def)
      then have R: "Route env p r = emitDropWarning env r" using early by simp
      have "fate (emitDropWarning env r) direct es (lost @ [p])" if "fate r direct es lost" for es
        using that None True by (simp add: fate_def)
      then show ?thesis using fate unfolding R by blast
    qed
  next
    case False
    have r: "relay r = None" "earlyBuffer r = take earlyBufferMaxSize (concat early)"
      "mset (map snd (delivered r)) = mset direct" "lost \<noteq> [] \<longrightarrow> earlyBufferMaxSize \<le> length (concat early)" "direct = []"
      using fate False None by (simp_all add: fate_def)
    then have "route_fast env p r = None" using None by (simp add: route_fast_def)
    then have R: "Route env p r = emitDropWarning env (buffer_early p r)" using p by (simp add: Route_eq)
    show ?thesis
    proof (cases "length (concat early) < earlyBufferMaxSize")
      case True
      then have "fate (Route env p r) direct (early @ [p]) lost"
        using False None r unfolding R by (auto simp: fate_def buffer_early_def)
      then show ?thesis by blast
    next
      case full: False
      then have "fate (Route env p r) direct early (lost @ [p])"
        using False None r unfolding R by (auto simp: fate_def buffer_early_def)
      then show ?thesis by blast
    qed
  qed
qed

lemma fate_SetRelayClient:
  assumes "fate r direct early lost"
  shows "fate (SetRelayClient env c r) direct early lost"
proof -
  let ?M = "take earlyBufferMaxSize (concat early)"
  have drained: "earlyDone (SetRelayClient env c r)" "earlyBuffer (SetRelayClient env c r) = []"
    "onFlush (SetRelayClient env c r) = onFlush r"
    by (auto simp: SetRelayClient_def drainEarlyBufferLocked_def via_relay_def via_grpc_def split: option.split)
  have same: "delivered (SetRelayClient env c r) = delivered r" if "earlyBuffer r = []"
    using that by (auto simp: SetRelayClient_def drainEarlyBufferLocked_def split: option.split)
  have once: "delivered (SetRelayClient env c r) = delivered r \<or>
      (\<exists>x. delivered (SetRelayClient env c r) = delivered r @ [(x, earlyBuffer r)])"
    by (auto simp: SetRelayClient_def drainEarlyBufferLocked_def via_relay_def via_grpc_def deliver_def split: option.split)
  show ?thesis
  proof (cases "earlyBuffer r = []")
    case True
    then show ?thesis using assms drained same by (auto simp: fate_def split: if_splits)
  next
    case False
    then have "\<not> earlyDone r" "onFlush r = None" "earlyBuffer r = ?M" "mset (map snd (delivered r)) = mset direct"
      using assms fate_grpc [OF assms] by (auto simp: fate_def split: if_splits)
    then show ?thesis using drained once by (auto simp: fate_def)
  qed
qed

definition accounted :: "aggregator \<Rightarrow> bool" where
  "accounted a \<longleftrightarrow> [] \<notin> set (ag_routing a) \<and>
     (\<exists>direct early lost. fate (ag_router a) direct early lost \<and>
        mset (ag_flushed a) = mset direct + mset early + mset lost + mset (ag_routing a))"

lemma accounted_spawn: "accounted a \<Longrightarrow> data \<noteq> [] \<Longrightarrow> accounted (spawn_route data a)"
  by (auto simp: accounted_def spawn_route_def)

lemma accounted_update [simp]:
  "accounted (a\<lparr>ag_timer := t\<rparr>) = accounted a" "accounted (a\<lparr>ag_buffer := b\<rparr>) = accounted a"
  "accounted (a\<lparr>ag_pending := p\<rparr>) = accounted a" "accounted (a\<lparr>ag_stopped := s\<rparr>) = accounted a"
  "accounted (a\<lparr>ag_backpressure := c\<rparr>) = accounted a" "accounted (a\<lparr>ag_ticks := n\<rparr>) = accounted a"
  "accounted (reset_buffer a) = accounted a"
  by (simp_all add: accounted_def reset_buffer_def)

lemma flushLocked_accounted: "flushLocked env a = Some a' \<Longrightarrow> accounted a \<Longrightarrow> accounted a'"
  by (erule flushLockedE) (simp_all add: accounted_spawn)

lemma forceFlushLocked_accounted: "forceFlushLocked env a = Some a' \<Longrightarrow> accounted a \<Longrightarrow> accounted a'"
  by (erule forceFlushLockedE) (simp_all add: accounted_spawn)

lemma mset_remove_index:
  "i < length xs \<Longrightarrow> mset xs = mset (take i xs @ drop (Suc i) xs) + {#xs ! i#}"
  by (metis add.commute append_Cons append_take_drop_id id_take_nth_drop mset.simps(2) mset_append
      union_mset_add_mset_right add_mset_add_single)

lemma run_route_accounted:
  assumes "run_route renv i a = Some a'" "accounted a"
  shows "accounted a'"
proof -
  let ?d = "ag_routing a ! i" and ?rest = "take i (ag_routing a) @ drop (Suc i) (ag_routing a)"
  have i: "i < length (ag_routing a)"
    and a': "a' = a\<lparr>ag_router := Route renv ?d (ag_router a), ag_routing := ?rest\<rparr>"
    using assms(1) by (auto simp: run_route_def split: if_splits)
  have d: "?d \<noteq> []" using assms(2) i nth_mem by (fastforce simp: accounted_def)
  obtain direct early lost where fate: "fate (ag_router a) direct early lost"
    and sum: "mset (ag_flushed a) = mset direct + mset early + mset lost + mset (ag_routing a)"
    using assms(2) by (auto simp: accounted_def)
  have flushed: "mset (ag_flushed a) = mset direct + mset early + mset lost + mset ?rest + {#?d#}"
    unfolding sum mset_remove_index [OF i] by simp
  have "[] \<notin> set ?rest" using assms(2) by (auto simp: accounted_def dest: in_set_takeD in_set_dropD)
  moreover have "\<exists>direct early lost. fate (Route renv ?d (ag_router a)) direct early lost \<and>
      mset (ag_flushed a) = mset direct + mset early + mset lost + mset ?rest"
    using fate_Route [OF fate d, of renv]
  proof (elim disjE)
    assume "fate (Route renv ?d (ag_router a)) (direct @ [?d]) early lost"
    then show ?thesis using flushed by (intro exI [of _ "direct @ [?d]"] exI [of _ early] exI [of _ lost]) simp
  next
    assume "fate (Route renv ?d (ag_router a)) direct (early @ [?d]) lost"
    then show ?thesis using flushed by (intro exI [of _ direct] exI [of _ "early @ [?d]"] exI [of _ lost]) simp
  next
    assume "fate (Route renv ?d (ag_router a)) direct early (lost @ [?d])"
    then show ?thesis using flushed by (intro exI [of _ direct] exI [of _ early] exI [of _ "lost @ [?d]"]) simp
  qed
  ultimately show ?thesis by (simp add: accounted_def a')
qed

lemma SetRelayClient_accounted: "accounted a \<Longrightarrow> accounted (agg_SetRelayClient renv c a)"
  unfolding accounted_def agg_SetRelayClient_def by (auto intro: fate_SetRelayClient)

text \<open>The callback is never replaced, and a connected client that accepts a piece gets it.\<close>

lemma onFlush_constant: "agg_step a a' \<Longrightarrow> onFlush (ag_router a') = onFlush (ag_router a)"
proof (induction rule: agg_step.induct)
  case (step_Write env data a a')
  then show ?case by (auto simp: agg_Write_def Let_def spawn_route_def reset_buffer_def elim!: flushLockedE split: if_splits)
next
  case (step_Timer env a a')
  then show ?case by (auto simp: timerFlush_def spawn_route_def reset_buffer_def elim!: flushLockedE split: if_splits)
next
  case (step_Flush env a a')
  then show ?case by (auto simp: agg_Flush_def spawn_route_def reset_buffer_def elim!: forceFlushLockedE split: if_splits)
next
  case (step_Stop env a a')
  then show ?case by (auto simp: agg_Stop_def spawn_route_def reset_buffer_def elim!: forceFlushLockedE split: if_splits)
next
  case (step_Relay a renv c)
  then show ?case
    by (auto simp: agg_SetRelayClient_def SetRelayClient_def drainEarlyBufferLocked_def via_relay_def via_grpc_def split: option.split)
next
  case (step_Route renv i a a')
  then show ?case by (auto simp: run_route_def split: if_splits)
qed (auto simp: agg_Pause_def agg_Resume_def Let_def split: prod.splits)

lemma onFlush_reachable: "agg_reachable a a' \<Longrightarrow> onFlush (ag_router a') = onFlush (ag_router a)"
  by (induction rule: rtranclp_induct) (simp_all add: onFlush_constant)

lemma run_route_accepted:
  assumes "run_route renv i a = Some a'" "relay (ag_router a) = Some c" "IsConnected renv c" "SendOK renv c (ag_routing a ! i)"
    and "[] \<notin> set (ag_routing a)"
  shows "delivered (ag_router a') = delivered (ag_router a) @ [(RelayDest c, ag_routing a ! i)]"
proof -
  have i: "i < length (ag_routing a)" "a' = a\<lparr>ag_router := Route renv (ag_routing a ! i) (ag_router a),
      ag_routing := take i (ag_routing a) @ drop (Suc i) (ag_routing a)\<rparr>"
    using assms(1) by (auto simp: run_route_def split: if_splits)
  have "ag_routing a ! i \<noteq> []" using assms(5) i(1) nth_mem by metis
  then show ?thesis using assms(2-4) i(2) by (simp add: Route_eq route_fast_def via_relay_def deliver_def)
qed

lemma agg_step_accounted: "agg_step a a' \<Longrightarrow> accounted a \<Longrightarrow> accounted a'"
proof (induction rule: agg_step.induct)
  case (step_Write env data a a')
  then show ?case by (auto simp: agg_Write_def Let_def dest!: flushLocked_accounted split: if_splits)
next
  case (step_Timer env a a')
  then show ?case by (auto simp: timerFlush_def dest!: flushLocked_accounted split: if_splits)
next
  case (step_Flush env a a')
  then show ?case by (auto simp: agg_Flush_def dest!: forceFlushLocked_accounted split: if_splits)
next
  case (step_Stop env a a')
  then show ?case by (auto simp: agg_Stop_def dest!: forceFlushLocked_accounted split: if_splits)
next
  case (step_Relay a renv c)
  then show ?case by (simp add: SetRelayClient_accounted)
next
  case (step_Route renv i a a')
  then show ?case by (rule run_route_accounted)
qed (auto simp: agg_Pause_def agg_Resume_def Let_def split: prod.splits)

section \<open>The aggregator as a state machine\<close>

definition agg_initial :: "aggregator \<Rightarrow> bool" where
  "agg_initial a \<longleftrightarrow> (\<exists>f m s t. a = NewSmartAggregator f m s t)"

lemma agg_initialI [simp]: "agg_initial (NewSmartAggregator f m s t)"
  unfolding agg_initial_def by blast

lemmas agg_init_defs = agg_initial_def NewSmartAggregator_def NewFrameBuffer_def
  NewOutputRouter_def

interpretation agg_wakeup: state_machine agg_initial agg_step woken
  by unfold_locales (auto simp: agg_init_defs woken_def dest: agg_step_woken)

interpretation agg_bound: state_machine agg_initial agg_step buffer_ok
  by unfold_locales (auto simp: agg_init_defs buffer_ok_def dest: agg_step_buffer)

interpretation agg_account: state_machine agg_initial agg_step accounted
proof
  show "accounted a" if "agg_initial a" for a
    using that by (auto simp: agg_init_defs accounted_def fate_def intro: exI [of _ "[]"])
  show "accounted a'" if "agg_step a a'" "accounted a" for a a' by (rule agg_step_accounted [OF that])
qed

section \<open>Properties\<close>

text \<open>
  C5. No lost wake-up: in every reachable state of a running aggregator without a timer there is nothing to
  send. In serialize mode no data is pending, in legacy mode a flush of the buffer yields nothing.
\<close>

theorem aggregator_no_lost_wakeup:
  assumes "agg_reachable (NewSmartAggregator f maxSize serialize throttled) a"
    and "\<not> ag_stopped a" and "\<not> ag_timer a"
  shows "(ag_serialize a \<longrightarrow> \<not> ag_pending a) \<and>
    (\<not> ag_serialize a \<longrightarrow>
       FlushComplete (ag_buffer a) = Some ([], length (fb_data (ag_buffer a)), ag_buffer a))"
proof -
  have "woken a" by (rule agg_wakeup.inv_reachable [OF _ assms(1)]) simp
  then show ?thesis using assms(2,3) by (simp add: woken_def FlushComplete_eq split: if_splits)
qed

theorem aggregator_no_lost_wakeup_witness:
  "let a = (NewSmartAggregator (Some 1) 100 False False)\<lparr>
       ag_buffer := \<lparr>fb_data = [], fb_maxSize = 100\<rparr>,
       ag_routing := [[0x61]], ag_flushed := [[0x61]]\<rparr>
   in (ag_serialize a \<longrightarrow> \<not> ag_pending a) \<and>
    (\<not> ag_serialize a \<longrightarrow>
       FlushComplete (ag_buffer a) = Some ([], length (fb_data (ag_buffer a)), ag_buffer a))"
  unfolding Let_def
proof (rule aggregator_no_lost_wakeup [where f = "Some 1" and maxSize = 100 and serialize = False and throttled = False])
  let ?e = "\<lparr>IsCriticalLoad = False, IsHighLoad = False, ShouldFlush = True, serialized = []\<rparr>"
  let ?a0 = "NewSmartAggregator (Some 1) 100 False False"
  let ?a1 = "?a0\<lparr>ag_buffer := \<lparr>fb_data = [0x61], fb_maxSize = 100\<rparr>, ag_timer := True\<rparr>"
  let ?a2 = "?a0\<lparr>ag_buffer := \<lparr>fb_data = [], fb_maxSize = 100\<rparr>, ag_routing := [[0x61]], ag_flushed := [[0x61]]\<rparr>"
  have "agg_Write ?e [0x61] ?a0 = Some ?a1" by code_simp
  then have "agg_step ?a0 ?a1" by (rule step_Write)
  moreover have "timerFlush ?e ?a1 = Some ?a2" by code_simp
  then have "agg_step ?a1 ?a2" by (rule step_Timer)
  ultimately show "agg_reachable ?a0 ?a2" by simp
  show "\<not> ag_stopped ?a2" "\<not> ag_timer ?a2" by (simp_all add: NewSmartAggregator_def)
qed

text \<open>
  Whatever is written and whenever it is flushed, paused or resumed, the buffer of the aggregator stays
  within the size it was created with, and no method panics.
\<close>

theorem aggregator_bounded_and_total:
  assumes "agg_reachable (NewSmartAggregator f maxSize serialize throttled) a"
  shows "length (fb_data (ag_buffer a)) \<le> maxSize \<and>
    (\<exists>a'. agg_Write env data a = Some a') \<and> (\<exists>a'. timerFlush env a = Some a') \<and>
    (\<exists>a'. agg_Flush env a = Some a') \<and> (\<exists>a'. agg_Stop env a = Some a')"
proof -
  let ?a0 = "NewSmartAggregator f maxSize serialize throttled"
  have ok: "buffer_ok ?a0" by (simp add: buffer_ok_def agg_init_defs)
  have "fb_maxSize (ag_buffer a) = fb_maxSize (ag_buffer ?a0) \<and> buffer_ok a"
    using assms
  proof (induction rule: rtranclp_induct)
    case base
    then show ?case using ok by simp
  next
    case (step y z)
    then show ?case using agg_step_buffer [of y z] by simp
  qed
  moreover have "\<exists>a'. agg_Write env data a = Some a'" "\<exists>a'. timerFlush env a = Some a'"
    "\<exists>a'. agg_Flush env a = Some a'" "\<exists>a'. agg_Stop env a = Some a'"
    using flushLocked_returns forceFlushLocked_returns
    by (auto simp: agg_Write_def timerFlush_def agg_Flush_def agg_Stop_def Let_def)
  ultimately show ?thesis by (simp add: buffer_ok_def agg_init_defs)
qed

theorem aggregator_bounded_and_total_witness:
  "let a = NewSmartAggregator None 4 False False;
       env = \<lparr>IsCriticalLoad = True, IsHighLoad = False, ShouldFlush = True, serialized = []\<rparr>
   in length (fb_data (ag_buffer a)) \<le> 4 \<and>
    (\<exists>a'. agg_Write env [0x61] a = Some a') \<and> (\<exists>a'. timerFlush env a = Some a') \<and>
    (\<exists>a'. agg_Flush env a = Some a') \<and> (\<exists>a'. agg_Stop env a = Some a')"
  unfolding Let_def by (rule aggregator_bounded_and_total [OF rtranclp.rtrancl_refl])

text \<open>
  An aggregator as the runner makes it, without a callback: the first piece is routed before a relay client is set and
  replayed by setting one, the second is flushed and not routed yet.
\<close>

definition flushed_env :: agg_env where
  "flushed_env = \<lparr>IsCriticalLoad = False, IsHighLoad = False, ShouldFlush = True, serialized = []\<rparr>"

definition relay_env :: "bool \<Rightarrow> router_env" where
  "relay_env up = \<lparr>IsConnected = (\<lambda>_. up), SendOK = (\<lambda>_ _. up), nowNano = 0\<rparr>"

definition flushed_aggregator :: aggregator where
  "flushed_aggregator = (NewSmartAggregator None 100 False False)\<lparr>ag_routing := [[0x61]], ag_flushed := [[0x61]]\<rparr>"

definition early_aggregator :: aggregator where
  "early_aggregator = flushed_aggregator\<lparr>ag_routing := [],
     ag_router := (ag_router flushed_aggregator)\<lparr>earlyBuffer := [0x61]\<rparr>\<rparr>"

definition attached_router :: router where
  "attached_router = (ag_router flushed_aggregator)\<lparr>relay := Some 3, earlyDone := True, delivered := [(RelayDest 3, [0x61])]\<rparr>"

definition attached_aggregator :: aggregator where
  "attached_aggregator = flushed_aggregator\<lparr>ag_routing := [[0x62]], ag_flushed := [[0x61], [0x62]], ag_router := attached_router\<rparr>"

definition routed_aggregator :: aggregator where
  "routed_aggregator = attached_aggregator\<lparr>ag_routing := [],
     ag_router := attached_router\<lparr>delivered := [(RelayDest 3, [0x61]), (RelayDest 3, [0x62])]\<rparr>\<rparr>"

lemmas sample_aggregators = flushed_aggregator_def early_aggregator_def attached_router_def attached_aggregator_def
  routed_aggregator_def NewSmartAggregator_def NewOutputRouter_def relay_env_def

lemma attached_reachable: "agg_reachable (NewSmartAggregator None 100 False False) attached_aggregator"
proof -
  let ?on = "relay_env True"
  let ?set = "agg_SetRelayClient ?on (Some 3) early_aggregator"
  have "Option.bind (agg_Write flushed_env [0x61] (NewSmartAggregator None 100 False False)) (agg_Flush flushed_env) = Some flushed_aggregator"
    by code_simp
  then obtain a1 where a1: "agg_Write flushed_env [0x61] (NewSmartAggregator None 100 False False) = Some a1"
    "agg_Flush flushed_env a1 = Some flushed_aggregator" by (auto simp: bind_eq_Some_conv)
  have early: "run_route (relay_env False) 0 flushed_aggregator = Some early_aggregator"
    by (simp add: run_route_def Route_eq route_fast_def buffer_early_def emitDropWarning_def earlyBufferMaxSize_def sample_aggregators)
  have set: "?set = flushed_aggregator\<lparr>ag_routing := [], ag_router := attached_router\<rparr>"
    by (simp add: agg_SetRelayClient_def SetRelayClient_def drainEarlyBufferLocked_def via_relay_def deliver_def sample_aggregators)
  have "Option.bind (agg_Write flushed_env [0x62] (flushed_aggregator\<lparr>ag_routing := [], ag_router := attached_router\<rparr>))
      (agg_Flush flushed_env) = Some attached_aggregator" by code_simp
  then obtain a2 where a2: "agg_Write flushed_env [0x62] ?set = Some a2" "agg_Flush flushed_env a2 = Some attached_aggregator"
    unfolding set by (auto simp: bind_eq_Some_conv)
  note steps = step_Write [OF a1(1)] step_Flush [OF a1(2)] step_Route [OF early]
    step_Relay [of early_aggregator ?on "Some 3"] step_Write [OF a2(1)] step_Flush [OF a2(2)]
  show ?thesis
    by (rule converse_rtranclp_into_rtranclp [where r = agg_step, OF steps(1)],
        rule converse_rtranclp_into_rtranclp [where r = agg_step, OF steps(2)],
        rule converse_rtranclp_into_rtranclp [where r = agg_step, OF steps(3)],
        rule converse_rtranclp_into_rtranclp [where r = agg_step, OF steps(4)],
        rule converse_rtranclp_into_rtranclp [where r = agg_step, OF steps(5)],
        rule r_into_rtranclp [where r = agg_step, OF steps(6)])
qed



text \<open>
  Backpressure reaches the terminal exactly on transitions: after any sequence of pauses (\<open>True\<close>) and
  resumes (\<open>False\<close>), the number of pause callbacks exceeds the number of resume callbacks by one when the
  controller is paused, and equals it otherwise.
\<close>

definition bp_signal :: "bool \<Rightarrow> backpressure \<Rightarrow> backpressure" where
  "bp_signal p c = (if p then bp_Pause c else fst (bp_Resume c))"

lemma bp_signal_balanced:
  assumes "bp_onPause c" "bp_onResume c" "bp_pauseCalls c = bp_resumeCalls c + (if bp_paused c then 1 else 0)"
  shows "bp_onPause (bp_signal p c) \<and> bp_onResume (bp_signal p c) \<and>
    bp_pauseCalls (bp_signal p c) = bp_resumeCalls (bp_signal p c) + (if bp_paused (bp_signal p c) then 1 else 0)"
  using assms by (auto simp: bp_signal_def bp_Pause_def bp_Resume_def Let_def)

theorem backpressure_on_transitions:
  "bp_pauseCalls (fold bp_signal ps (NewBackpressureController True True)) =
   bp_resumeCalls (fold bp_signal ps (NewBackpressureController True True)) +
     (if bp_paused (fold bp_signal ps (NewBackpressureController True True)) then 1 else 0)"
proof -
  have "bp_pauseCalls (fold bp_signal ps c) =
      bp_resumeCalls (fold bp_signal ps c) + (if bp_paused (fold bp_signal ps c) then 1 else 0)"
    if "bp_onPause c" "bp_onResume c" "bp_pauseCalls c = bp_resumeCalls c + (if bp_paused c then 1 else 0)" for c
    using that
  proof (induction ps arbitrary: c)
    case (Cons p ps)
    show ?case using Cons.IH [of "bp_signal p c"] bp_signal_balanced [OF Cons.prems, of p] by simp
  qed simp
  then show ?thesis by (simp add: NewBackpressureController_def)
qed

section \<open>The order of the output\<close>

text \<open>
  Each flush starts its own goroutine, and nothing orders them: a reachable state has delivered two
  pieces in the opposite order of the flushes.
\<close>

theorem flushed_pieces_can_be_reordered:
  "\<exists>a. agg_reachable (NewSmartAggregator (Some 1) 100 False False) a \<and>
     ag_flushed a = [[0x61], [0x62]] \<and> map snd (delivered (ag_router a)) = [[0x62], [0x61]]"
proof -
  let ?e = "\<lparr>IsCriticalLoad = False, IsHighLoad = False, ShouldFlush = True, serialized = []\<rparr>"
  let ?r = "\<lparr>IsConnected = (\<lambda>_. False), SendOK = (\<lambda>_ _. False), nowNano = 0\<rparr>"
  let ?a0 = "NewSmartAggregator (Some 1) 100 False False"
  have "do {
      a1 \<leftarrow> agg_Write ?e [0x61] ?a0;
      a2 \<leftarrow> agg_Flush ?e a1;
      a3 \<leftarrow> agg_Write ?e [0x62] a2;
      a4 \<leftarrow> agg_Flush ?e a3;
      a5 \<leftarrow> run_route ?r 1 a4;
      a6 \<leftarrow> run_route ?r 0 a5;
      Some (ag_flushed a6, map snd (delivered (ag_router a6))) } = Some ([[0x61], [0x62]], [[0x62], [0x61]])"
    by code_simp
  then obtain a1 a2 a3 a4 a5 a6 where
    s: "agg_Write ?e [0x61] ?a0 = Some a1" "agg_Flush ?e a1 = Some a2" "agg_Write ?e [0x62] a2 = Some a3"
      "agg_Flush ?e a3 = Some a4" "run_route ?r 1 a4 = Some a5" "run_route ?r 0 a5 = Some a6"
    and out: "ag_flushed a6 = [[0x61], [0x62]]" "map snd (delivered (ag_router a6)) = [[0x62], [0x61]]"
    by (auto simp: bind_eq_Some_conv)
  note steps = step_Write [OF s(1)] step_Flush [OF s(2)] step_Write [OF s(3)] step_Flush [OF s(4)]
    step_Route [OF s(5)] step_Route [OF s(6)]
  have "agg_reachable ?a0 a6"
    by (rule converse_rtranclp_into_rtranclp [where r = agg_step, OF steps(1)],
        rule converse_rtranclp_into_rtranclp [where r = agg_step, OF steps(2)],
        rule converse_rtranclp_into_rtranclp [where r = agg_step, OF steps(3)],
        rule converse_rtranclp_into_rtranclp [where r = agg_step, OF steps(4)],
        rule converse_rtranclp_into_rtranclp [where r = agg_step, OF steps(5)],
        rule r_into_rtranclp [where r = agg_step, OF steps(6)])
  then show ?thesis using out by (intro exI [of _ a6] conjI)
qed

end
