(* ===== verification/Autopilot_Decision.thy ===== *)
theory Autopilot_Decision
  imports Go_Runes
begin

text \<open>
  How the runner's autopilot reads the answer of its control agent: \<^verbatim>\<open>runner/internal/autopilot/decision_types.go\<close>,
  \<^verbatim>\<open>decision_utils.go\<close>, \<^verbatim>\<open>decision_parser.go\<close>, \<open>sanitizeUTF8String\<close> of \<^verbatim>\<open>iteration_controller.go\<close> and
  \<^verbatim>\<open>runner/internal/textutil\<close>.

  Text is a list of bytes. The functions of the package \<open>strings\<close> that depend on the alphabet (\<open>ToUpper\<close>,
  \<open>ToLower\<close>, \<open>TrimSpace\<close>) are given for ASCII, on other bytes they are the identity. The JSON decoder is not part of the repository: what the code asks it for is
  the record \<open>json_lib\<close>, an argument of the functions that decode.
\<close>

section \<open>Types\<close>

datatype decision_type = DecisionCompleted | DecisionContinue | DecisionNeedHumanHelp | DecisionGiveUp

record decision_progress =
  prog_Summary :: bytes
  CompletedSteps :: "bytes list"
  RemainingSteps :: "bytes list"
  Percent :: int

record decision_action =
  act_Type :: bytes
  act_Content :: bytes
  act_Reason :: bytes

record help_request =
  help_Reason :: bytes
  help_Context :: bytes
  TerminalExcerpt :: bytes
  Suggestions :: "(bytes \<times> bytes) list"

text \<open>\<open>Confidence\<close> is the bit pattern of a \<open>float64\<close>; the code only passes it on.\<close>

record control_decision =
  dec_Type :: decision_type
  dec_Summary :: bytes
  Reasoning :: bytes
  Confidence :: "64 word"
  FilesChanged :: "bytes list"
  dec_Progress :: "decision_progress option"
  dec_Action :: "decision_action option"
  dec_HelpRequest :: "help_request option"

record structured_output =
  so_Type :: bytes
  so_Confidence :: "64 word"
  so_Reasoning :: bytes
  so_Progress :: decision_progress
  so_Action :: decision_action
  so_HelpRequest :: "help_request option"
  so_FilesChanged :: "bytes list"

text \<open>
  What the code decodes: the string fields \<open>result\<close> and \<open>session_id\<close> of an object, the object as a map (whether
  it has the key \<open>decision\<close>, and the strings in its array \<open>files_changed\<close>), and the structured decision. \<open>None\<close> is
  a decoding error.
\<close>

record json_lib =
  json_result :: "bytes \<Rightarrow> bytes option"
  json_session_id :: "bytes \<Rightarrow> bytes option"
  json_map :: "bytes \<Rightarrow> (bool \<times> bytes list) option"
  json_structured :: "bytes \<Rightarrow> structured_output option"

section \<open>Text\<close>

definition ascii :: "string \<Rightarrow> bytes" where
  "ascii s = map of_char s"

definition ToUpper :: "bytes \<Rightarrow> bytes" where
  "ToUpper s = map (\<lambda>c. if 0x61 \<le> c \<and> c \<le> 0x7A then c - 0x20 else c) s"

definition ToLower :: "bytes \<Rightarrow> bytes" where
  "ToLower s = map (\<lambda>c. if 0x41 \<le> c \<and> c \<le> 0x5A then c + 0x20 else c) s"

definition is_space :: "byte \<Rightarrow> bool" where
  "is_space c \<longleftrightarrow> c = 0x20 \<or> (0x09 \<le> c \<and> c \<le> 0x0D)"

definition TrimSpace :: "bytes \<Rightarrow> bytes" where
  "TrimSpace s = rev (dropWhile is_space (rev (dropWhile is_space s)))"

fun NormalizeLineEndings :: "bytes \<Rightarrow> bytes" where
  "NormalizeLineEndings (a # b # s) =
     (if a = 0x0D \<and> b = 0x0A then 0x0A # NormalizeLineEndings s else a # NormalizeLineEndings (b # s))"
| "NormalizeLineEndings s = s"

text \<open>\<open>strings.Split\<close> at newlines, and \<open>strings.Join\<close> with a space.\<close>

fun split_newlines :: "bytes \<Rightarrow> bytes list" where
  "split_newlines [] = [[]]"
| "split_newlines (c # s) =
     (if c = 0x0A then [] # split_newlines s
      else case split_newlines s of [] \<Rightarrow> [[c]] | l # ls \<Rightarrow> (c # l) # ls)"

definition SplitLines :: "bytes \<Rightarrow> bytes list" where
  "SplitLines s = split_newlines (NormalizeLineEndings s)"

fun join_space :: "bytes list \<Rightarrow> bytes" where
  "join_space [] = []"
| "join_space [l] = l"
| "join_space (l # ls) = l @ [0x20] @ join_space ls"

section \<open>Decisions in plain text\<close>

definition line_marker :: "bytes \<Rightarrow> decision_type option" where
  "line_marker line =
     (let upperLine = ToUpper (TrimSpace line)
      in if prefix (ascii ''TASK_COMPLETED'') upperLine then Some DecisionCompleted
         else if prefix (ascii ''NEED_HUMAN_HELP'') upperLine then Some DecisionNeedHumanHelp
         else if prefix (ascii ''GIVE_UP'') upperLine then Some DecisionGiveUp
         else if prefix (ascii ''CONTINUE'') upperLine then Some DecisionContinue
         else None)"

text \<open>The search from the last line on: the marker and the index of its line.\<close>

fun last_marker :: "bytes list \<Rightarrow> (nat \<times> decision_type) option" where
  "last_marker [] = None"
| "last_marker (l # ls) =
     (case last_marker ls of
        Some (i, t) \<Rightarrow> Some (Suc i, t)
      | None \<Rightarrow> map_option (Pair 0) (line_marker l))"

definition FindDecisionMarker :: "bytes \<Rightarrow> decision_type option" where
  "FindDecisionMarker output = map_option snd (last_marker (SplitLines output))"

definition truncateSummary :: "bytes \<Rightarrow> nat \<Rightarrow> bytes" where
  "truncateSummary s maxLen = (if length s \<le> maxLen then s else take maxLen s @ ascii ''...'')"

definition summary_lines :: "bytes list \<Rightarrow> bytes list" where
  "summary_lines lines = filter (\<lambda>l. l \<noteq> [] \<and> \<not> prefix (ascii ''{'') l) (map TrimSpace lines)"

definition ExtractSummary :: "bytes \<Rightarrow> bytes" where
  "ExtractSummary output =
     (let lines = SplitLines output;
          after = (case last_marker lines of
                     None \<Rightarrow> []
                   | Some (i, _) \<Rightarrow> summary_lines (take 3 (drop (Suc i) lines)))
      in if after \<noteq> [] then truncateSummary (join_space after) 200
         else let found = summary_lines lines
              in truncateSummary (join_space (drop (length found - 3) found)) 200)"

section \<open>Decisions in JSON\<close>

text \<open>The number of bytes up to the brace that closes the first one, from a given depth on.\<close>

fun closing_brace :: "bytes \<Rightarrow> int \<Rightarrow> nat option" where
  "closing_brace [] depth = None"
| "closing_brace (c # s) depth =
     (if c = 0x7B then map_option Suc (closing_brace s (depth + 1))
      else if c = 0x7D then
        (if depth - 1 = 0 then Some 1 else map_option Suc (closing_brace s (depth - 1)))
      else map_option Suc (closing_brace s depth))"

definition extractJSONString :: "bytes \<Rightarrow> bytes" where
  "extractJSONString content =
     (case bytes_index content (ascii ''{'') of
        None \<Rightarrow> []
      | Some start \<Rightarrow>
          (case closing_brace (drop start content) 0 of
             None \<Rightarrow> []
           | Some n \<Rightarrow> take n (drop start content)))"

text \<open>The same search, and decoding of the block it finds.\<close>

definition ExtractJSONBlock :: "json_lib \<Rightarrow> bytes \<Rightarrow> (bool \<times> bytes list) option" where
  "ExtractJSONBlock js output =
     (case bytes_index output (ascii ''{'') of
        None \<Rightarrow> None
      | Some start \<Rightarrow>
          (case closing_brace (drop start output) 0 of
             None \<Rightarrow> None
           | Some n \<Rightarrow> json_map js (take n (drop start output))))"

definition ExtractResultFromJSON :: "json_lib \<Rightarrow> bytes \<Rightarrow> bytes" where
  "ExtractResultFromJSON js output = (case json_result js output of None \<Rightarrow> [] | Some r \<Rightarrow> r)"

definition ExtractSessionID :: "json_lib \<Rightarrow> bytes \<Rightarrow> bytes" where
  "ExtractSessionID js output =
     (case json_session_id js output of
        Some (b # bs) \<Rightarrow> b # bs
      | _ \<Rightarrow>
          (case bytes_index output (ascii ''\"session_id\"'') of
             None \<Rightarrow> []
           | Some idx \<Rightarrow>
               (let remaining = drop idx output
                in case bytes_index remaining (ascii '':'') of
                     None \<Rightarrow> []
                   | Some colonIdx \<Rightarrow>
                       (case TrimSpace (drop (colonIdx + 1) remaining) of
                          [] \<Rightarrow> []
                        | c # rest \<Rightarrow>
                            if c \<noteq> 0x22 then []
                            else case bytes_index rest (ascii ''\"'') of
                                   None \<Rightarrow> []
                                 | Some endQuote \<Rightarrow> take endQuote rest))))"

definition mapDecisionType :: "bytes \<Rightarrow> decision_type" where
  "mapDecisionType typeStr =
     (let t = ToLower typeStr
      in if t \<in> {ascii ''completed'', ascii ''task_completed''} then DecisionCompleted
         else if t = ascii ''continue'' then DecisionContinue
         else if t \<in> {ascii ''need_help'', ascii ''need_human_help''} then DecisionNeedHumanHelp
         else if t \<in> {ascii ''give_up'', ascii ''giveup''} then DecisionGiveUp
         else DecisionContinue)"

definition parseStructuredDecision :: "json_lib \<Rightarrow> bytes \<Rightarrow> control_decision option" where
  "parseStructuredDecision js content =
     (case ExtractJSONBlock js content of
        None \<Rightarrow> None
      | Some (hasDecision, _) \<Rightarrow>
          if \<not> hasDecision then None
          else let jsonStr = extractJSONString content
               in if jsonStr = [] then None
                  else case json_structured js jsonStr of
                         None \<Rightarrow> None
                       | Some s \<Rightarrow>
                           Some \<lparr>dec_Type = mapDecisionType (so_Type s),
                             dec_Summary = (if so_Reasoning s \<noteq> [] then truncateSummary (so_Reasoning s) 200 else []),
                             Reasoning = so_Reasoning s, Confidence = so_Confidence s,
                             FilesChanged = so_FilesChanged s,
                             dec_Progress = (if prog_Summary (so_Progress s) \<noteq> [] \<or> CompletedSteps (so_Progress s) \<noteq> []
                                             then Some (so_Progress s) else None),
                             dec_Action = (if act_Type (so_Action s) \<noteq> [] then Some (so_Action s) else None),
                             dec_HelpRequest = so_HelpRequest s\<rparr>)"

definition parseKeywordDecision :: "json_lib \<Rightarrow> bytes \<Rightarrow> bytes \<Rightarrow> control_decision" where
  "parseKeywordDecision js textContent originalOutput =
     \<lparr>dec_Type = (case FindDecisionMarker textContent of None \<Rightarrow> DecisionContinue | Some t \<Rightarrow> t),
      dec_Summary = ExtractSummary textContent, Reasoning = [], Confidence = 0,
      FilesChanged = (case ExtractJSONBlock js originalOutput of None \<Rightarrow> [] | Some (_, files) \<Rightarrow> files),
      dec_Progress = None, dec_Action = None, dec_HelpRequest = None\<rparr>"

definition ParseDecision :: "json_lib \<Rightarrow> bytes \<Rightarrow> control_decision" where
  "ParseDecision js output =
     (let r = ExtractResultFromJSON js output;
          textContent = (if r = [] then output else r)
      in case parseStructuredDecision js textContent of
           Some decision \<Rightarrow> decision
         | None \<Rightarrow> parseKeywordDecision js textContent output)"

section \<open>Texts for reports\<close>

function shrink_to :: "nat \<Rightarrow> rune list \<Rightarrow> bytes" where
  "shrink_to maxLen runes =
     (if length (string_of_runes runes) > maxLen then shrink_to maxLen (butlast runes) else string_of_runes runes)"
  by pat_completeness auto
termination
proof (relation "measure (\<lambda>(_, rs). length rs)")
  fix maxLen :: nat and rs :: "rune list"
  assume "maxLen < length (string_of_runes rs)"
  then have "rs \<noteq> []" by (auto simp: string_of_runes_def)
  then show "((maxLen, butlast rs), maxLen, rs) \<in> measure (\<lambda>(_, rs). length rs)" by simp
qed simp

declare shrink_to.simps [simp del]

definition sanitizeUTF8String :: "bytes \<Rightarrow> nat \<Rightarrow> bytes" where
  "sanitizeUTF8String s maxLen =
     (let s = (if \<not> ValidString s then string_of_runes (runes_of s) else s)
      in if length s > maxLen then shrink_to maxLen (take maxLen (runes_of s)) else s)"

section \<open>Lemmas: braces\<close>

text \<open>How many braces a text leaves open.\<close>

fun brace_depth :: "bytes \<Rightarrow> int" where
  "brace_depth [] = 0"
| "brace_depth (c # s) = (if c = 0x7B then 1 else if c = 0x7D then -1 else 0) + brace_depth s"

lemma brace_step: "-1 \<le> brace_depth [c]" "brace_depth [c] = -1 \<longleftrightarrow> c = 0x7D"
  by auto

lemma all_less_Suc: "(\<forall>k<Suc n. P k) \<longleftrightarrow> P 0 \<and> (\<forall>k<n. P (Suc k))"
  by (auto simp: less_Suc_eq_0_disj)

text \<open>The search stops where the depth first returns to zero.\<close>

lemma closing_brace_iff:
  "1 \<le> d \<Longrightarrow> closing_brace s d = Some n \<longleftrightarrow>
     n \<le> length s \<and> d + brace_depth (take n s) = 0 \<and> (\<forall>k<n. 0 < d + brace_depth (take k s))"
proof (induction s arbitrary: d n)
  case Nil
  then show ?case by auto
next
  case (Cons c s)
  show ?case
  proof (cases n)
    case 0
    then show ?thesis using Cons.prems by (auto split: if_splits)
  next
    case (Suc m)
    let ?d = "d + brace_depth [c]"
    have IH: "1 \<le> ?d \<Longrightarrow> closing_brace s ?d = Some m \<longleftrightarrow>
        m \<le> length s \<and> ?d + brace_depth (take m s) = 0 \<and> (\<forall>k<m. 0 < ?d + brace_depth (take k s))"
      by (rule Cons.IH)
    have rhs: "n \<le> length (c # s) \<and> d + brace_depth (take n (c # s)) = 0 \<and> (\<forall>k<n. 0 < d + brace_depth (take k (c # s))) \<longleftrightarrow>
        m \<le> length s \<and> ?d + brace_depth (take m s) = 0 \<and> (\<forall>k<m. 0 < ?d + brace_depth (take k s))"
      using Cons.prems unfolding Suc all_less_Suc by (auto simp: algebra_simps)
    show ?thesis
    proof (cases "1 \<le> ?d")
      case True
      then have "closing_brace (c # s) d = map_option Suc (closing_brace s ?d)" by auto
      then show ?thesis using IH [OF True] unfolding rhs by (auto simp: Suc)
    next
      case False
      then have c: "c = 0x7D" "d = 1" using Cons.prems by (auto split: if_splits)
      then have "closing_brace (c # s) d = Some 1" by simp
      then show ?thesis unfolding rhs using c by (cases m) (auto simp: Suc)
    qed
  qed
qed

text \<open>From an opening brace on: the shortest balanced text.\<close>

definition first_block :: "bytes \<Rightarrow> bool" where
  "first_block r \<longleftrightarrow> r \<noteq> [] \<and> brace_depth r = 0 \<and> (\<forall>k. 0 < k \<and> k < length r \<longrightarrow> 0 < brace_depth (take k r))"

lemma closing_brace_block:
  "closing_brace (0x7B # s) 0 = Some n \<longleftrightarrow> n \<le> Suc (length s) \<and> first_block (take n (0x7B # s))"
proof (cases n)
  case 0
  then show ?thesis by (auto simp: first_block_def)
next
  case (Suc m)
  have all: "(\<forall>k. 0 < k \<and> k < Suc m \<longrightarrow> P k) \<longleftrightarrow> (\<forall>k<m. P (Suc k))" for P
    by (metis Suc_less_eq gr0_implies_Suc zero_less_Suc)
  show ?thesis
  proof (cases "m \<le> length s")
    case True
    then have "first_block (take (Suc m) (0x7B # s)) \<longleftrightarrow>
        1 + brace_depth (take m s) = 0 \<and> (\<forall>k<m. 0 < 1 + brace_depth (take k s))"
      unfolding first_block_def by (simp add: all min_def cong: conj_cong)
    then show ?thesis using closing_brace_iff [of 1 s m] True by (auto simp: Suc)
  next
    case False
    then show ?thesis using closing_brace_iff [of 1 s m] by (auto simp: Suc)
  qed
qed

lemma bytes_index_char:
  "bytes_index s [c] = Some i \<longleftrightarrow> (\<exists>pre post. s = pre @ c # post \<and> length pre = i \<and> c \<notin> set pre)"
proof (induction s arbitrary: i)
  case (Cons x s)
  show ?case
  proof (cases "x = c")
    case True
    then show ?thesis by (auto simp: Cons_eq_append_conv)
  next
    case False
    then have "bytes_index (x # s) [c] = map_option Suc (bytes_index s [c])" by simp
    moreover have "(\<exists>pre post. x # s = pre @ c # post \<and> length pre = i \<and> c \<notin> set pre) \<longleftrightarrow>
        (\<exists>j pre post. i = Suc j \<and> s = pre @ c # post \<and> length pre = j \<and> c \<notin> set pre)"
      using False by (force simp: Cons_eq_append_conv)
    ultimately show ?thesis using Cons.IH by auto
  qed
qed simp

lemma brace_char: "ascii ''{'' = [0x7B]"
  by (simp add: ascii_def)

section \<open>Properties\<close>

text \<open>
  C38. What the search for a JSON object cuts out, exactly: a non-empty text is returned if and only if it starts at
  the first opening brace, its braces are balanced, and those of no shorter non-empty part from there are. Every brace
  counts, also one inside a JSON string or one that starts no object, so this is the first complete JSON object of the
  content only if there are no such braces.
\<close>

theorem extractJSONString_exact:
  "extractJSONString content = r \<and> r \<noteq> [] \<longleftrightarrow>
     (\<exists>pre post. content = pre @ r @ post \<and> 0x7B \<notin> set pre \<and> prefix [0x7B] r \<and> first_block r)"
proof
  assume r: "extractJSONString content = r \<and> r \<noteq> []"
  then obtain i n where "bytes_index content [0x7B] = Some i" "closing_brace (drop i content) 0 = Some n"
    "r = take n (drop i content)"
    by (auto simp: extractJSONString_def brace_char split: option.splits)
  then obtain pre post where p: "content = pre @ 0x7B # post" "0x7B \<notin> set pre"
    "closing_brace (0x7B # post) 0 = Some n" "r = take n (0x7B # post)"
    by (auto simp: bytes_index_char)
  then have "first_block r" using closing_brace_block [of post n] by (simp del: closing_brace.simps)
  moreover have "content = pre @ r @ drop n (0x7B # post)" using p by simp
  moreover have "prefix [0x7B] r" using p(4) calculation(1) by (cases n) (auto simp: first_block_def)
  ultimately show "\<exists>pre post. content = pre @ r @ post \<and> 0x7B \<notin> set pre \<and> prefix [0x7B] r \<and> first_block r"
    using p(2) by blast
next
  assume "\<exists>pre post. content = pre @ r @ post \<and> 0x7B \<notin> set pre \<and> prefix [0x7B] r \<and> first_block r"
  then obtain pre post r' where p: "content = pre @ 0x7B # r' @ post" "0x7B \<notin> set pre" "r = 0x7B # r'"
    "first_block (0x7B # r')" by (auto simp: prefix_def)
  have "bytes_index content [0x7B] = Some (length pre)" using p by (auto simp: bytes_index_char)
  moreover have "closing_brace (0x7B # r' @ post) 0 = Some (Suc (length r'))"
    using p(4) by (simp add: closing_brace_block del: closing_brace.simps)
  ultimately show "extractJSONString content = r \<and> r \<noteq> []"
    using p by (simp add: extractJSONString_def brace_char del: closing_brace.simps)
qed

text \<open>
  Texts for reports are safe: the result is valid UTF-8, no longer than the limit, and consists of the first
  characters of the text, where a malformed byte counts as the replacement character.
\<close>

theorem sanitizeUTF8String_safe:
  "length (sanitizeUTF8String s maxLen) \<le> maxLen \<and> ValidString (sanitizeUTF8String s maxLen) \<and>
   prefix (runes_of (sanitizeUTF8String s maxLen)) (runes_of s)"
proof -
  define s1 where "s1 = (if \<not> ValidString s then string_of_runes (runes_of s) else s)"
  have s1: "ValidString s1" "runes_of s1 = runes_of s"
    using runes_string [OF runes_of_scalar [of s]] by (auto simp: s1_def)
  have shrink: "length (shrink_to maxLen rs) \<le> maxLen \<and> ValidString (shrink_to maxLen rs) \<and>
      prefix (runes_of (shrink_to maxLen rs)) rs" if "\<forall>r \<in> set rs. scalar r" for rs
    using that
  proof (induction maxLen rs rule: shrink_to.induct)
    case (1 maxLen rs)
    show ?case
    proof (cases "maxLen < length (string_of_runes rs)")
      case True
      have "\<forall>r \<in> set (butlast rs). scalar r" using 1(2) by (auto dest: in_set_butlastD)
      then have "length (shrink_to maxLen (butlast rs)) \<le> maxLen \<and> ValidString (shrink_to maxLen (butlast rs)) \<and>
          prefix (runes_of (shrink_to maxLen (butlast rs))) (butlast rs)" by (rule 1(1) [OF True])
      then show ?thesis
        using True prefix_order.trans [OF _ prefixeq_butlast [of rs]] by (simp add: shrink_to.simps [of maxLen rs])
    next
      case False
      then show ?thesis using runes_string [OF 1(2)] by (simp add: shrink_to.simps [of maxLen rs])
    qed
  qed
  have "\<forall>r \<in> set (take maxLen (runes_of s)). scalar r" using runes_of_scalar [of s] by (auto dest: in_set_takeD)
  from shrink [OF this] show ?thesis
    using s1 take_is_prefix [of maxLen "runes_of s"]
    by (auto simp: sanitizeUTF8String_def s1_def [symmetric] Let_def intro: prefix_order.trans)
qed

section \<open>Where the code differs from its comments\<close>

text \<open>
  The comment of \<open>extractJSONString\<close> promises the first complete JSON object of the content. The closing brace inside a
  string ends the object too early: the object with the field \<open>a\<close> whose value is a closing brace is cut before the
  end of that string. An opening brace without a partner hides the object that follows it.
\<close>

theorem extracted_text_is_no_object:
  "extractJSONString [0x7B, 0x22, 0x61, 0x22, 0x3A, 0x22, 0x7D, 0x22, 0x7D] = [0x7B, 0x22, 0x61, 0x22, 0x3A, 0x22, 0x7D]"
  "extractJSONString (ascii ''{ {x}'') = []"
  by code_simp+

end
