(* ===== verification/Autopilot_Controller.thy ===== *)
theory Autopilot_Controller
  imports Autopilot_Decision
begin

text \<open>
  The controller that drives a pod without a user: \<^verbatim>\<open>runner/internal/autopilot/phase_manager.go\<close>,
  \<^verbatim>\<open>iteration_controller.go\<close>, \<^verbatim>\<open>user_interaction.go\<close>, \<^verbatim>\<open>autopilot_controller.go\<close>,
  \<^verbatim>\<open>autopilot_controller_logic.go\<close>, \<^verbatim>\<open>autopilot_decision.go\<close>, \<^verbatim>\<open>autopilot_lifecycle.go\<close> and \<^verbatim>\<open>control_runner.go\<close>.

  The components share one record. What the controller learns from its surroundings at a moment (the clock, the
  status of the pod, the files git reports as changed) is the record \<open>pod_env\<close>; the control agent is a command
  whose output is an argument, and the prompts, built from text templates by \<^verbatim>\<open>prompt_builder.go\<close>, are arguments
  too. Reported events are collected in \<open>reports\<close>.

  The goroutines are part of the state: \<open>triggers\<close> are the calls of \<open>OnPodWaiting\<close> under way, split where the code
  releases its locks, \<open>decisions\<close> the running decision loops by iteration, \<open>resumes\<close> the number of resume callbacks
  that wait. The step relation runs their pieces in any order. Two ghost fields: \<open>launched\<close> lists the
  iterations of all decision loops ever started, \<open>started\<close> tells whether \<open>Start\<close> has been called.
\<close>

section \<open>State\<close>

datatype phase =
    PhaseInitializing | PhaseRunning | PhasePaused | PhaseUserTakeover | PhaseWaitingApproval
  | PhaseCompleted | PhaseFailed | PhaseStopped | PhaseMaxIterations

datatype ap_event =
    StatusEvent phase int int string
  | IterationEvent int string bytes "bytes list"
  | CreatedEvent
  | TerminatedEvent string
  | ThinkingEvent control_decision int

text \<open>A call of \<open>OnPodWaiting\<close> after its checks, and after its increment.\<close>

datatype trigger = Checked | Incremented int

record pod_env =
  now :: int
  AgentStatus :: string
  gitFiles :: "bytes list"

record autopilot =
  ap_phase :: phase
  hasReporter :: bool
  currentIter :: int
  maxIterations :: int
  lastIterationAt :: "int option"
  lastTriggerTime :: "int option"
  minTriggerGap :: int
  consecutiveErrors :: int
  maxConsecutiveErrors :: int
  userTakeover :: bool
  lastDecision :: "(decision_type \<times> bytes) option"
  sessionID :: bytes
  ap_stopped :: bool
  cancelled :: bool
  reports :: "ap_event list"
  triggers :: "trigger list"
  decisions :: "int list"
  resumes :: nat
  launched :: "int list"
  started :: bool

text \<open>\<open>int32(x)\<close>, and times in nanoseconds.\<close>

definition wrap32 :: "int \<Rightarrow> int" where
  "wrap32 x = signed_take_bit 31 x"

definition second :: int where "second = 1000000000"
definition DefaultMaxIterations :: int where "DefaultMaxIterations = 10"
definition DefaultMinTriggerGap :: int where "DefaultMinTriggerGap = 5 * second"
definition DefaultMaxConsecutiveErrors :: int where "DefaultMaxConsecutiveErrors = 3"
definition MinRetryDelay :: int where "MinRetryDelay = 2 * second"
definition MaxRetryDelay :: int where "MaxRetryDelay = 30 * second"

section \<open>Phases\<close>

definition report :: "ap_event \<Rightarrow> autopilot \<Rightarrow> autopilot" where
  "report e a = (if hasReporter a then a\<lparr>reports := reports a @ [e]\<rparr> else a)"

definition reportStatusForPhase :: "pod_env \<Rightarrow> phase \<Rightarrow> autopilot \<Rightarrow> autopilot" where
  "reportStatusForPhase env ph a =
     report (StatusEvent ph (wrap32 (currentIter a)) (wrap32 (maxIterations a)) (AgentStatus env)) a"

definition SetPhase :: "pod_env \<Rightarrow> phase \<Rightarrow> autopilot \<Rightarrow> autopilot" where
  "SetPhase env ph a =
     (if ap_phase a = ph then a else reportStatusForPhase env ph (a\<lparr>ap_phase := ph\<rparr>))"

definition SetPhaseWithoutReport :: "phase \<Rightarrow> autopilot \<Rightarrow> autopilot" where
  "SetPhaseWithoutReport ph a = a\<lparr>ap_phase := ph\<rparr>"

definition IsTerminalPhase :: "autopilot \<Rightarrow> bool" where
  "IsTerminalPhase a \<longleftrightarrow> ap_phase a \<in> {PhaseCompleted, PhaseFailed, PhaseStopped, PhaseMaxIterations}"

definition CanProcessIteration :: "autopilot \<Rightarrow> bool" where
  "CanProcessIteration a \<longleftrightarrow>
     ap_phase a \<notin> {PhasePaused, PhaseStopped, PhaseCompleted, PhaseFailed, PhaseWaitingApproval, PhaseMaxIterations}"

definition TransitionToRunning :: "pod_env \<Rightarrow> autopilot \<Rightarrow> bool \<times> autopilot" where
  "TransitionToRunning env a =
     (if ap_phase a = PhaseInitializing \<or> ap_phase a = PhasePaused
      then (True, reportStatusForPhase env PhaseRunning (a\<lparr>ap_phase := PhaseRunning\<rparr>))
      else (False, a))"

section \<open>Iterations\<close>

definition NewAutopilotController :: "bool \<Rightarrow> int \<Rightarrow> autopilot" where
  "NewAutopilotController rep maxIters =
     \<lparr>ap_phase = PhaseInitializing, hasReporter = rep, currentIter = 0,
      maxIterations = (if maxIters = 0 then DefaultMaxIterations else maxIters), lastIterationAt = None,
      lastTriggerTime = None, minTriggerGap = DefaultMinTriggerGap, consecutiveErrors = 0,
      maxConsecutiveErrors = DefaultMaxConsecutiveErrors, userTakeover = False, lastDecision = None, sessionID = [],
      ap_stopped = False, cancelled = False, reports = [], triggers = [], decisions = [], resumes = 0, launched = [],
      started = False\<rparr>"

definition AddMaxIterations :: "int \<Rightarrow> autopilot \<Rightarrow> autopilot" where
  "AddMaxIterations additional a = a\<lparr>maxIterations := maxIterations a + additional\<rparr>"

text \<open>The zero time is so long ago that any gap has passed.\<close>

definition CheckTriggerDedup :: "pod_env \<Rightarrow> autopilot \<Rightarrow> bool \<times> autopilot" where
  "CheckTriggerDedup env a =
     (if (case lastTriggerTime a of None \<Rightarrow> False | Some t \<Rightarrow> now env - t < minTriggerGap a)
      then (False, a)
      else (True, a\<lparr>lastTriggerTime := Some (now env)\<rparr>))"

definition UpdateTriggerTime :: "pod_env \<Rightarrow> autopilot \<Rightarrow> autopilot" where
  "UpdateTriggerTime env a = a\<lparr>lastTriggerTime := Some (now env)\<rparr>"

definition HasReachedMaxIterations :: "autopilot \<Rightarrow> bool" where
  "HasReachedMaxIterations a \<longleftrightarrow> currentIter a \<ge> maxIterations a"

definition IncrementIteration :: "pod_env \<Rightarrow> autopilot \<Rightarrow> bool \<times> autopilot" where
  "IncrementIteration env a =
     (if currentIter a \<ge> maxIterations a then (False, a)
      else (True, a\<lparr>currentIter := currentIter a + 1, lastIterationAt := Some (now env)\<rparr>))"

definition SetInitialIteration :: "pod_env \<Rightarrow> autopilot \<Rightarrow> autopilot" where
  "SetInitialIteration env a = a\<lparr>currentIter := 1, lastIterationAt := Some (now env)\<rparr>"

definition ReportIterationEvent :: "int \<Rightarrow> string \<Rightarrow> bytes \<Rightarrow> bytes list \<Rightarrow> autopilot \<Rightarrow> autopilot" where
  "ReportIterationEvent iteration ph summary files a =
     report (IterationEvent (wrap32 iteration) ph (sanitizeUTF8String summary 1000) files) a"

definition RecordError :: "autopilot \<Rightarrow> bool \<times> autopilot" where
  "RecordError a =
     (let a = a\<lparr>consecutiveErrors := consecutiveErrors a + 1\<rparr>
      in (consecutiveErrors a \<ge> maxConsecutiveErrors a, a))"

definition ResetErrors :: "autopilot \<Rightarrow> autopilot" where
  "ResetErrors a = (if consecutiveErrors a > 0 then a\<lparr>consecutiveErrors := 0\<rparr> else a)"

text \<open>\<open>1 << errors\<close> and the product are computed in 64 bits.\<close>

definition GetRetryDelay :: "autopilot \<Rightarrow> int" where
  "GetRetryDelay a =
     (if consecutiveErrors a = 0 then MinRetryDelay
      else let delay = wrap64 (wrap64 (2 ^ nat (consecutiveErrors a)) * second)
           in if delay > MaxRetryDelay then MaxRetryDelay else delay)"

section \<open>The control process\<close>

definition startArgs :: "bytes \<Rightarrow> bytes \<Rightarrow> bytes list" where
  "startArgs prompt mcpConfigPath =
     [ascii ''--dangerously-skip-permissions'', ascii ''-p'', prompt, ascii ''--output-format'', ascii ''json'']
     @ (if mcpConfigPath \<noteq> [] then [ascii ''--mcp-config'', mcpConfigPath] else [])"

definition resumeArgs :: "bytes \<Rightarrow> bytes \<Rightarrow> bytes \<Rightarrow> bytes list" where
  "resumeArgs session prompt mcpConfigPath =
     [ascii ''--dangerously-skip-permissions'', ascii ''--resume'', session, ascii ''-p'', prompt,
      ascii ''--output-format'', ascii ''json'']
     @ (if mcpConfigPath \<noteq> [] then [ascii ''--mcp-config'', mcpConfigPath] else [])"

text \<open>\<open>exec\<close> runs the agent with its arguments and gives its output or an error.\<close>

definition startControlProcess ::
  "json_lib \<Rightarrow> (bytes list \<Rightarrow> bytes + bytes) \<Rightarrow> bytes \<Rightarrow> bytes \<Rightarrow> autopilot \<Rightarrow> (bytes + control_decision) \<times> autopilot" where
  "startControlProcess js exec prompt mcpConfigPath a =
     (case exec (startArgs prompt mcpConfigPath) of
        Inl err \<Rightarrow> (Inl err, a)
      | Inr output \<Rightarrow>
          (Inr (ParseDecision js output),
           if ExtractSessionID js output \<noteq> [] then a\<lparr>sessionID := ExtractSessionID js output\<rparr> else a))"

definition resumeControlProcess ::
  "json_lib \<Rightarrow> (bytes list \<Rightarrow> bytes + bytes) \<Rightarrow> bytes \<Rightarrow> bytes \<Rightarrow> autopilot \<Rightarrow> (bytes + control_decision) \<times> autopilot" where
  "resumeControlProcess js exec prompt mcpConfigPath a =
     (case exec (resumeArgs (sessionID a) prompt mcpConfigPath) of
        Inl err \<Rightarrow> (Inl err, a)
      | Inr output \<Rightarrow> (Inr (ParseDecision js output), a))"

definition RunControlProcess ::
  "json_lib \<Rightarrow> (bytes list \<Rightarrow> bytes + bytes) \<Rightarrow> bytes \<Rightarrow> bytes \<Rightarrow> bytes \<Rightarrow> autopilot \<Rightarrow>
     (bytes + control_decision) \<times> autopilot" where
  "RunControlProcess js exec initialPrompt resumePrompt mcpConfigPath a =
     (if sessionID a = [] then startControlProcess js exec initialPrompt mcpConfigPath a
      else resumeControlProcess js exec resumePrompt mcpConfigPath a)"

section \<open>Decisions\<close>

definition handleDecision :: "pod_env \<Rightarrow> control_decision \<Rightarrow> int \<Rightarrow> autopilot \<Rightarrow> autopilot" where
  "handleDecision env d iteration a =
     (let a = report (ThinkingEvent d (wrap32 iteration)) a
      in case dec_Type d of
           DecisionCompleted \<Rightarrow>
             report (TerminatedEvent ''completed'')
               (ReportIterationEvent iteration ''completed'' (dec_Summary d) (FilesChanged d) (SetPhase env PhaseCompleted a))
         | DecisionNeedHumanHelp \<Rightarrow>
             ReportIterationEvent iteration ''need_human_help'' (dec_Summary d) [] (SetPhase env PhaseWaitingApproval a)
         | DecisionGiveUp \<Rightarrow>
             report (TerminatedEvent ''failed'')
               (ReportIterationEvent iteration ''give_up'' (dec_Summary d) [] (SetPhase env PhaseFailed a))
         | DecisionContinue \<Rightarrow> ReportIterationEvent iteration ''action_sent'' (dec_Summary d) (FilesChanged d) a)"

definition processSuccessfulDecision :: "pod_env \<Rightarrow> control_decision \<Rightarrow> int \<Rightarrow> autopilot \<Rightarrow> autopilot" where
  "processSuccessfulDecision env d iteration a =
     (let d = (if FilesChanged d = [] \<and> gitFiles env \<noteq> [] then d\<lparr>FilesChanged := gitFiles env\<rparr> else d)
      in handleDecision env d iteration (a\<lparr>lastDecision := Some (dec_Type d, dec_Summary d)\<rparr>))"

text \<open>
  Whether to stop retrying, and the delay before the next attempt. \<open>elapsed\<close> tells whether the delay passed before
  the controller was stopped.
\<close>

definition handleDecisionError :: "pod_env \<Rightarrow> bool \<Rightarrow> bytes \<Rightarrow> int \<Rightarrow> autopilot \<Rightarrow> bool \<times> int list \<times> autopilot" where
  "handleDecisionError env elapsed err iteration a =
     (let (exceeded, a) = RecordError (ReportIterationEvent iteration ''error'' err [] a)
      in if exceeded then
           (True, [], report (TerminatedEvent ''max_consecutive_errors'') (SetPhase env PhaseFailed a))
         else if AgentStatus env \<noteq> ''waiting'' then (True, [], a)
         else (\<not> elapsed, [GetRetryDelay a], a))"

record attempt =
  at_env :: pod_env
  at_cancelled :: bool
  at_result :: "bytes + control_decision"
  at_elapsed :: bool

text \<open>One round of the retry loop: whether to go on, the delays waited, and the new state.\<close>

definition decisionAttempt :: "attempt \<Rightarrow> int \<Rightarrow> autopilot \<Rightarrow> bool \<times> int list \<times> autopilot" where
  "decisionAttempt t iteration a =
     (if at_cancelled t then (False, [], a)
      else case at_result t of
             Inl err \<Rightarrow>
               let (stop, delays, a) = handleDecisionError (at_env t) (at_elapsed t) err iteration a
               in (\<not> stop, delays, a)
           | Inr d \<Rightarrow> (False, [], processSuccessfulDecision (at_env t) d iteration (ResetErrors a)))"

text \<open>
  The whole loop without interference from other goroutines: the attempts are numbered, the result is the number of
  rounds, the delays between them and the final state.
\<close>

function runSingleDecision :: "(nat \<Rightarrow> attempt) \<Rightarrow> nat \<Rightarrow> int \<Rightarrow> autopilot \<Rightarrow> nat \<times> int list \<times> autopilot" where
  "runSingleDecision ts n iteration a =
     (case decisionAttempt (ts n) iteration a of
        (goOn, delays, a') \<Rightarrow>
          if goOn then
            (case runSingleDecision ts (Suc n) iteration a' of
               (rounds, ds, a'') \<Rightarrow> (Suc rounds, delays @ ds, a''))
          else (1, delays, a'))"
  by pat_completeness auto

text \<open>Every round that goes on has counted one more error and stayed below the limit.\<close>

lemma report_simps [simp]:
  "ap_phase (report e a) = ap_phase a" "currentIter (report e a) = currentIter a"
  "maxIterations (report e a) = maxIterations a" "consecutiveErrors (report e a) = consecutiveErrors a"
  "maxConsecutiveErrors (report e a) = maxConsecutiveErrors a" "userTakeover (report e a) = userTakeover a"
  "ap_stopped (report e a) = ap_stopped a" "triggers (report e a) = triggers a" "decisions (report e a) = decisions a"
  "launched (report e a) = launched a" "hasReporter (report e a) = hasReporter a" "cancelled (report e a) = cancelled a"
  "resumes (report e a) = resumes a" "lastTriggerTime (report e a) = lastTriggerTime a"
  "started (report e a) = started a"
  by (simp_all add: report_def)

lemma decisionAttempt_goes_on:
  assumes "decisionAttempt t iteration a = (True, delays, a')"
  shows "consecutiveErrors a' = consecutiveErrors a + 1 \<and> consecutiveErrors a' < maxConsecutiveErrors a \<and>
    maxConsecutiveErrors a' = maxConsecutiveErrors a \<and> delays = [GetRetryDelay a']"
  using assms
  by (auto simp: decisionAttempt_def handleDecisionError_def RecordError_def ReportIterationEvent_def Let_def
      split: if_splits sum.splits prod.splits)

termination runSingleDecision
  by (relation "measure (\<lambda>(ts, n, iteration, a). nat (maxConsecutiveErrors a - consecutiveErrors a))")
    (auto dest!: sym [THEN decisionAttempt_goes_on])

declare runSingleDecision.simps [simp del]

section \<open>Triggers\<close>

definition reachMaxIterations :: "pod_env \<Rightarrow> autopilot \<Rightarrow> autopilot" where
  "reachMaxIterations env a = report (TerminatedEvent ''max_iterations'') (SetPhase env PhaseMaxIterations a)"

text \<open>The checks at the beginning of \<open>OnPodWaiting\<close>: whether an iteration may start.\<close>

definition podWaitingChecks :: "pod_env \<Rightarrow> autopilot \<Rightarrow> bool \<times> autopilot" where
  "podWaitingChecks env a =
     (let (ok, a) = CheckTriggerDedup env a
      in if \<not> ok then (False, a)
         else if userTakeover a then (False, a)
         else if \<not> CanProcessIteration a then (False, a)
         else if HasReachedMaxIterations a then (False, reachMaxIterations env a)
         else (True, a))"

definition podWaitingIncrement :: "pod_env \<Rightarrow> autopilot \<Rightarrow> int option \<times> autopilot" where
  "podWaitingIncrement env a =
     (let (ok, a) = IncrementIteration env a
      in if \<not> ok then (None, reachMaxIterations env a)
         else (Some (currentIter a), ReportIterationEvent (currentIter a) ''started'' [] [] a))"

definition launchDecision :: "int \<Rightarrow> autopilot \<Rightarrow> autopilot" where
  "launchDecision iteration a =
     (if ap_stopped a then a
      else a\<lparr>decisions := decisions a @ [iteration], launched := launched a @ [iteration]\<rparr>)"

definition OnPodWaiting :: "pod_env \<Rightarrow> autopilot \<Rightarrow> autopilot" where
  "OnPodWaiting env a =
     (case podWaitingChecks env a of
        (False, a) \<Rightarrow> a
      | (True, a) \<Rightarrow>
          (case podWaitingIncrement env a of
             (None, a) \<Rightarrow> a
           | (Some iteration, a) \<Rightarrow> launchDecision iteration a))"

definition sendInitialPrompt :: "pod_env \<Rightarrow> autopilot \<Rightarrow> autopilot" where
  "sendInitialPrompt env a =
     (let a = SetInitialIteration env (UpdateTriggerTime env a)
      in launchDecision 1 (ReportIterationEvent 1 ''started'' [] [] a))"

section \<open>Life cycle and user\<close>

text \<open>\<open>Start\<close> up to the initial prompt, and its last statement.\<close>

definition Start_begin :: "pod_env \<Rightarrow> autopilot \<Rightarrow> autopilot" where
  "Start_begin env a =
     (let a = report CreatedEvent a in if AgentStatus env = ''waiting'' then sendInitialPrompt env a else a)"

definition Start :: "pod_env \<Rightarrow> autopilot \<Rightarrow> autopilot" where
  "Start env a = SetPhase env PhaseRunning (Start_begin env a)"

text \<open>\<open>Stop\<close> up to the wait for the goroutines, and what it does after the wait or its timeout.\<close>

definition Stop_begin :: "autopilot \<Rightarrow> autopilot" where
  "Stop_begin a =
     (if ap_stopped a then a
      else (SetPhaseWithoutReport PhaseStopped a)\<lparr>ap_stopped := True, cancelled := True\<rparr>)"

definition Stop_end :: "autopilot \<Rightarrow> autopilot" where
  "Stop_end a = report (TerminatedEvent ''stopped'') a"

definition ap_Stop :: "autopilot \<Rightarrow> autopilot" where
  "ap_Stop a = (if ap_stopped a then a else Stop_end (Stop_begin a))"

definition ap_Pause :: "pod_env \<Rightarrow> autopilot \<Rightarrow> autopilot" where
  "ap_Pause env a = (if ap_phase a = PhaseRunning then SetPhase env PhasePaused a else a)"

definition ap_Resume :: "pod_env \<Rightarrow> autopilot \<Rightarrow> autopilot" where
  "ap_Resume env a = (if ap_phase a = PhasePaused then SetPhase env PhaseRunning a else a)"

definition Takeover :: "pod_env \<Rightarrow> autopilot \<Rightarrow> autopilot" where
  "Takeover env a = SetPhase env PhaseUserTakeover (a\<lparr>userTakeover := True\<rparr>)"

definition Handback :: "pod_env \<Rightarrow> autopilot \<Rightarrow> autopilot" where
  "Handback env a =
     (let a = SetPhase env PhaseRunning (a\<lparr>userTakeover := False\<rparr>) in a\<lparr>resumes := resumes a + 1\<rparr>)"

definition Approve :: "pod_env \<Rightarrow> bool \<Rightarrow> int \<Rightarrow> autopilot \<Rightarrow> autopilot" where
  "Approve env continueExecution additionalIterations a =
     (if ap_phase a \<noteq> PhaseWaitingApproval then a
      else if \<not> continueExecution then SetPhase env PhaseStopped a
      else
        let a = (if additionalIterations > 0 then AddMaxIterations additionalIterations a else a);
            a = SetPhase env PhaseRunning a
        in a\<lparr>resumes := resumes a + 1\<rparr>)"

text \<open>\<open>elapsed\<close> tells whether the resume delay passed before the controller was stopped.\<close>

definition onResumeFromUserInteraction :: "pod_env \<Rightarrow> bool \<Rightarrow> autopilot \<Rightarrow> autopilot" where
  "onResumeFromUserInteraction env elapsed a =
     (if elapsed \<and> AgentStatus env = ''waiting'' then OnPodWaiting env a else a)"

section \<open>Steps\<close>

text \<open>
  The pieces of all goroutines and the calls from outside, in any order. \<open>Start\<close> is called once; its last statement
  is a step of its own. A waiting resume callback either gives up or triggers like the state detector does.
\<close>

inductive ap_step :: "autopilot \<Rightarrow> autopilot \<Rightarrow> bool" where
  ap_start: "\<not> started a \<Longrightarrow> ap_step a ((Start_begin env a)\<lparr>started := True\<rparr>)"
| ap_started: "started a \<Longrightarrow> ap_step a (SetPhase env PhaseRunning a)"
| ap_trigger_checked:
    "podWaitingChecks env a = (True, a') \<Longrightarrow> ap_step a (a'\<lparr>triggers := Checked # triggers a'\<rparr>)"
| ap_trigger_skipped: "podWaitingChecks env a = (False, a') \<Longrightarrow> ap_step a a'"
| ap_increment:
    "Checked \<in> set (triggers a) \<Longrightarrow> podWaitingIncrement env a = (Some i, a') \<Longrightarrow>
     ap_step a (a'\<lparr>triggers := Incremented i # remove1 Checked (triggers a')\<rparr>)"
| ap_increment_refused:
    "Checked \<in> set (triggers a) \<Longrightarrow> podWaitingIncrement env a = (None, a') \<Longrightarrow>
     ap_step a (a'\<lparr>triggers := remove1 Checked (triggers a')\<rparr>)"
| ap_launch:
    "Incremented i \<in> set (triggers a) \<Longrightarrow>
     ap_step a (launchDecision i (a\<lparr>triggers := remove1 (Incremented i) (triggers a)\<rparr>))"
| ap_attempt:
    "i \<in> set (decisions a) \<Longrightarrow> (at_cancelled t \<longrightarrow> cancelled a) \<Longrightarrow> decisionAttempt t i a = (goOn, delays, a') \<Longrightarrow>
     ap_step a (if goOn then a' else a'\<lparr>decisions := remove1 i (decisions a')\<rparr>)"
| ap_resume_elapsed:
    "0 < resumes a \<Longrightarrow> ap_step a (a\<lparr>resumes := resumes a - 1\<rparr>)"
| ap_session: "ap_step a (a\<lparr>sessionID := sid\<rparr>)"
| ap_stop_begin: "ap_step a (Stop_begin a)"
| ap_stop_end: "ap_stopped a \<Longrightarrow> ap_step a (Stop_end a)"
| ap_pause: "ap_step a (ap_Pause env a)"
| ap_resume: "ap_step a (ap_Resume env a)"
| ap_takeover: "ap_step a (Takeover env a)"
| ap_handback: "ap_step a (Handback env a)"
| ap_approve: "ap_step a (Approve env cont additional a)"

section \<open>Lemmas: what the operations leave alone\<close>

text \<open>The fields the quota speaks of.\<close>

definition quota where
  "quota a = (currentIter a, maxIterations a, launched a, triggers a, decisions a, ap_stopped a, started a)"

lemma quota_report [simp]: "quota (report e a) = quota a"
  by (simp add: quota_def)

lemma quota_SetPhase [simp]: "quota (SetPhase env ph a) = quota a"
  by (simp add: SetPhase_def reportStatusForPhase_def) (simp add: quota_def)

lemma quota_update [simp]:
  "quota (a\<lparr>ap_phase := p\<rparr>) = quota a" "quota (a\<lparr>consecutiveErrors := e\<rparr>) = quota a"
  "quota (a\<lparr>userTakeover := u\<rparr>) = quota a" "quota (a\<lparr>resumes := n\<rparr>) = quota a"
  "quota (a\<lparr>lastTriggerTime := t\<rparr>) = quota a" "quota (a\<lparr>lastDecision := d\<rparr>) = quota a"
  "quota (a\<lparr>sessionID := sid\<rparr>) = quota a" "quota (a\<lparr>cancelled := c\<rparr>) = quota a"
  by (simp_all add: quota_def)

lemma quota_ops:
  "quota (Stop_end a) = quota a" "quota (ap_Pause env a) = quota a" "quota (ap_Resume env a) = quota a"
  "quota (Takeover env a) = quota a" "quota (Handback env a) = quota a" "quota (SetPhase env ph a) = quota a"
  "quota (a\<lparr>resumes := n\<rparr>) = quota a" "quota (a\<lparr>sessionID := sid\<rparr>) = quota a"
  by (simp_all add: Stop_end_def ap_Pause_def ap_Resume_def Takeover_def Handback_def Let_def)

lemma quota_decisionAttempt:
  assumes "decisionAttempt t i a = (goOn, delays, a')"
  shows "quota a' = quota a"
proof -
  have h: "quota (handleDecision env d i a) = quota a" for env d a
    by (simp add: handleDecision_def ReportIterationEvent_def Let_def split: decision_type.split)
  have "quota (processSuccessfulDecision env d i (ResetErrors a)) = quota a" for env d
    by (simp add: processSuccessfulDecision_def h Let_def ResetErrors_def)
  moreover have "quota a1 = quota a" if "handleDecisionError env el err i a = (stop, ds, a1)" for env el err stop ds a1
    using that
    by (auto simp: handleDecisionError_def RecordError_def ReportIterationEvent_def Let_def split: if_splits)
  ultimately show ?thesis
    using assms by (auto simp: decisionAttempt_def split: if_splits sum.splits prod.splits)
qed

lemma quota_podWaitingChecks:
  "podWaitingChecks env a = (ok, a') \<Longrightarrow> quota a' = quota a"
  by (auto simp: podWaitingChecks_def CheckTriggerDedup_def reachMaxIterations_def Let_def split: if_splits option.splits)

lemma podWaitingIncrement_cases:
  assumes "podWaitingIncrement env a = (r, a')"
  shows "r = None \<and> quota a' = quota a \<or>
    r = Some (currentIter a + 1) \<and> currentIter a < maxIterations a \<and>
    quota a' = quota (a\<lparr>currentIter := currentIter a + 1\<rparr>)"
  using assms
  by (auto simp: podWaitingIncrement_def IncrementIteration_def reachMaxIterations_def ReportIterationEvent_def Let_def
      split: if_splits) (simp_all add: quota_def)

definition incremented :: "autopilot \<Rightarrow> trigger list" where
  "incremented a = filter (\<lambda>t. t \<noteq> Checked) (triggers a)"

text \<open>The quota: iterations are counted, and a decision loop needs an iteration of its own.\<close>

definition ap_ok :: "autopilot \<Rightarrow> bool" where
  "ap_ok a \<longleftrightarrow> 0 \<le> currentIter a \<and> currentIter a \<le> maxIterations a \<and> 1 \<le> maxIterations a \<and>
     int (length (launched a) + length (incremented a)) \<le> currentIter a + (if started a then maxIterations a else 0)"

lemma ap_ok_quota: "quota a' = quota a \<Longrightarrow> ap_ok a' = ap_ok a"
  by (simp add: ap_ok_def quota_def incremented_def)

lemmas ap_ok_ops = quota_ops [THEN ap_ok_quota]

lemma length_remove1_le: "length (filter P (remove1 x xs)) \<le> length (filter P xs)"
  by (induction xs) auto

lemma length_remove1_less: "x \<in> set xs \<Longrightarrow> P x \<Longrightarrow> Suc (length (filter P (remove1 x xs))) = length (filter P xs)"
  by (induction xs) auto

text \<open>Starting a loop moves an incremented trigger to the launched iterations, or drops it.\<close>

lemma launch_ok:
  assumes "ap_ok a" "Incremented i \<in> set (triggers a)"
  shows "ap_ok (launchDecision i (a\<lparr>triggers := remove1 (Incremented i) (triggers a)\<rparr>))"
  using assms length_remove1_less [of "Incremented i" "triggers a" "\<lambda>t. t \<noteq> Checked"]
  by (auto simp: ap_ok_def launchDecision_def incremented_def)

lemma Start_begin_ok:
  assumes ok: "ap_ok a" and "\<not> started a"
  shows "ap_ok ((Start_begin env a)\<lparr>started := True\<rparr>)"
proof (cases "AgentStatus env = ''waiting''")
  case True
  let ?a = "ReportIterationEvent 1 ''started'' [] [] (SetInitialIteration env (UpdateTriggerTime env (report CreatedEvent a)))"
  have "currentIter ?a = 1" "maxIterations ?a = maxIterations a" "launched ?a = launched a" "triggers ?a = triggers a"
    by (simp_all add: ReportIterationEvent_def SetInitialIteration_def UpdateTriggerTime_def)
  then show ?thesis
    using assms True
    by (simp add: Start_begin_def sendInitialPrompt_def Let_def launchDecision_def ap_ok_def incremented_def)
next
  case False
  then have "quota (Start_begin env a) = quota a" by (simp add: Start_begin_def)
  then show ?thesis using assms by (auto simp: ap_ok_def quota_def incremented_def)
qed

lemma increment_ok:
  assumes ok: "ap_ok a" and "Checked \<in> set (triggers a)" and eq: "podWaitingIncrement env a = (Some i, a')"
  shows "ap_ok (a'\<lparr>triggers := Incremented i # remove1 Checked (triggers a')\<rparr>)"
proof -
  have q: "currentIter a < maxIterations a" "quota a' = quota (a\<lparr>currentIter := currentIter a + 1\<rparr>)"
    using podWaitingIncrement_cases [OF eq] by auto
  then have "currentIter a' = currentIter a + 1" "maxIterations a' = maxIterations a" "launched a' = launched a"
    "triggers a' = triggers a" "started a' = started a" by (simp_all add: quota_def)
  then show ?thesis
    using ok q(1) length_remove1_le [of "\<lambda>t. t \<noteq> Checked" Checked "triggers a"]
    by (auto simp: ap_ok_def incremented_def)
qed

lemma triggers_ok:
  "ap_ok a \<Longrightarrow> ap_ok (a\<lparr>triggers := Checked # triggers a\<rparr>)"
  "ap_ok a \<Longrightarrow> ap_ok (a\<lparr>triggers := remove1 Checked (triggers a)\<rparr>)"
  "ap_ok a \<Longrightarrow> ap_ok (a\<lparr>decisions := ds\<rparr>)"
  using length_remove1_le [of "\<lambda>t. t \<noteq> Checked" Checked "triggers a"] by (auto simp: ap_ok_def incremented_def)

lemma Approve_ok:
  assumes "ap_ok a"
  shows "ap_ok (Approve env cont additional a)"
proof -
  let ?a = "if additional > 0 then AddMaxIterations additional a else a"
  have "ap_ok ?a" using assms by (auto simp: ap_ok_def AddMaxIterations_def incremented_def)
  then have "ap_ok ((SetPhase env PhaseRunning ?a)\<lparr>resumes := n\<rparr>)" for n
    using ap_ok_quota [of "(SetPhase env PhaseRunning ?a)\<lparr>resumes := n\<rparr>" ?a] by simp
  moreover have "ap_ok (SetPhase env PhaseStopped a)" using assms ap_ok_quota [of "SetPhase env PhaseStopped a" a] by simp
  ultimately show ?thesis using assms by (auto simp: Approve_def Let_def)
qed

lemma ap_step_ok: "ap_step a a' \<Longrightarrow> ap_ok a \<Longrightarrow> ap_ok a'"
proof (induction rule: ap_step.induct)
  case (ap_trigger_checked env a a')
  then show ?case using ap_ok_quota [OF quota_podWaitingChecks] triggers_ok(1) by blast
next
  case (ap_trigger_skipped env a a')
  then show ?case using ap_ok_quota [OF quota_podWaitingChecks] by blast
next
  case (ap_increment_refused a env a')
  then have "ap_ok a'" using podWaitingIncrement_cases [of env a None a'] ap_ok_quota by blast
  then show ?case by (rule triggers_ok(2))
next
  case (ap_attempt i a t goOn delays a')
  then have "ap_ok a'" using ap_ok_quota [OF quota_decisionAttempt] by blast
  then show ?case using triggers_ok(3) by simp
next
  case (ap_stop_begin a)
  then show ?case
    by (auto simp: Stop_begin_def SetPhaseWithoutReport_def ap_ok_def incremented_def)
qed (simp_all add: ap_ok_ops Start_begin_ok increment_ok launch_ok Approve_ok)

text \<open>A stopped controller starts nothing.\<close>

definition frozen :: "int list \<Rightarrow> autopilot \<Rightarrow> bool" where
  "frozen ls a \<longleftrightarrow> ap_stopped a \<and> launched a = ls"

lemma frozen_quota: "quota a' = quota a \<Longrightarrow> frozen ls a' = frozen ls a"
  by (simp add: frozen_def quota_def)

lemma frozen_update:
  "frozen ls (a\<lparr>triggers := ts\<rparr>) = frozen ls a" "frozen ls (a\<lparr>decisions := ds\<rparr>) = frozen ls a"
  "frozen ls (a\<lparr>started := b\<rparr>) = frozen ls a" "frozen ls (a\<lparr>currentIter := i\<rparr>) = frozen ls a"
  "frozen ls (report e a) = frozen ls a" "frozen ls (SetPhase env ph a) = frozen ls a"
  "frozen ls (a\<lparr>resumes := n\<rparr>) = frozen ls a"
  using frozen_quota [OF quota_SetPhase, of ls env ph a] by (simp_all add: frozen_def)

lemma launch_frozen: "frozen ls a \<Longrightarrow> launchDecision i a = a"
  by (simp add: launchDecision_def frozen_def)

lemma ap_step_frozen: "ap_step a a' \<Longrightarrow> frozen ls a \<Longrightarrow> frozen ls a'"
proof (induction rule: ap_step.induct)
  case (ap_start a env)
  have "frozen ls (SetInitialIteration env (UpdateTriggerTime env a))" if "frozen ls a" for a
    using that by (simp add: SetInitialIteration_def UpdateTriggerTime_def frozen_def)
  then have f: "frozen ls (ReportIterationEvent 1 p s fs (SetInitialIteration env (UpdateTriggerTime env (report e a))))" for p s fs e
    using ap_start by (simp add: frozen_update ReportIterationEvent_def)
  then show ?case
    using ap_start by (simp add: Start_begin_def sendInitialPrompt_def Let_def launch_frozen [OF f] frozen_update)
next
  case (ap_trigger_checked env a a')
  then show ?case using frozen_quota [OF quota_podWaitingChecks] by (simp add: frozen_update)
next
  case (ap_trigger_skipped env a a')
  then show ?case using frozen_quota [OF quota_podWaitingChecks] by blast
next
  case (ap_increment a env i a')
  then have "frozen ls a'" using podWaitingIncrement_cases [of env a "Some i" a'] by (auto simp: frozen_def quota_def)
  then show ?case by (simp add: frozen_update)
next
  case (ap_increment_refused a env a')
  then have "frozen ls a'" using podWaitingIncrement_cases [of env a None a'] frozen_quota by blast
  then show ?case by (simp add: frozen_update)
next
  case (ap_launch i a)
  then show ?case by (simp add: launch_frozen frozen_update)
next
  case (ap_attempt i a t goOn delays a')
  then have "frozen ls a'" using frozen_quota [OF quota_decisionAttempt] by blast
  then show ?case by (simp add: frozen_update)
next
  case (ap_stop_begin a)
  then show ?case by (simp add: Stop_begin_def frozen_def)
next
  case (ap_approve a env cont additional)
  then show ?case by (simp add: Approve_def Let_def frozen_update) (simp add: AddMaxIterations_def frozen_def)
qed (simp_all add: quota_ops [THEN frozen_quota])

definition ap_initial :: "autopilot \<Rightarrow> bool" where
  "ap_initial a \<longleftrightarrow> (\<exists>rep n. 0 \<le> n \<and> a = NewAutopilotController rep n)"

lemma ap_initial_ok: "ap_initial a \<Longrightarrow> ap_ok a"
  by (auto simp: ap_initial_def NewAutopilotController_def ap_ok_def incremented_def DefaultMaxIterations_def)

interpretation ap_quota: state_machine ap_initial ap_step ap_ok
  by unfold_locales (erule ap_initial_ok, erule (1) ap_step_ok)

interpretation ap_frozen: state_machine "frozen ls" ap_step "frozen ls" for ls
  by unfold_locales (assumption, erule (1) ap_step_frozen)

section \<open>Lemmas: retries\<close>

lemma GetRetryDelay_exact:
  assumes "1 \<le> consecutiveErrors a" "consecutiveErrors a \<le> 33"
  shows "GetRetryDelay a = min (2 ^ nat (consecutiveErrors a) * second) MaxRetryDelay"
proof -
  define p where "p = (2::int) ^ nat (consecutiveErrors a)"
  have "nat (consecutiveErrors a) \<le> 33" using assms(2) by simp
  then have p: "0 < p" "p \<le> 8589934592"
    using power_increasing [of "nat (consecutiveErrors a)" 33 "2::int"] by (simp_all add: p_def)
  have "p * second \<le> 8589934592 * second" using p(2) by (intro mult_right_mono) (simp_all add: second_def)
  then have s: "p * second < 2 ^ 63" "0 \<le> p * second" using p(1) by (simp_all add: second_def)
  have "wrap64 p = p" using p by (intro wrap64_id) simp_all
  moreover have "wrap64 (p * second) = p * second" using s by (intro wrap64_id) simp_all
  ultimately show ?thesis using assms(1) by (auto simp: GetRetryDelay_def Let_def min_def p_def [symmetric])
qed

lemma GetRetryDelay_range:
  assumes "1 \<le> consecutiveErrors a" "consecutiveErrors a \<le> 33"
  shows "MinRetryDelay \<le> GetRetryDelay a \<and> GetRetryDelay a \<le> MaxRetryDelay"
proof -
  have "(2::int) ^ 1 \<le> 2 ^ nat (consecutiveErrors a)" using assms(1) by (intro power_increasing) auto
  then show ?thesis
    by (auto simp: GetRetryDelay_exact [OF assms] MinRetryDelay_def MaxRetryDelay_def second_def)
qed

lemma decisionAttempt_delays:
  assumes "decisionAttempt t i a = (goOn, delays, a')" "0 \<le> consecutiveErrors a" "maxConsecutiveErrors a \<le> 34"
  shows "\<forall>d \<in> set delays. MinRetryDelay \<le> d \<and> d \<le> MaxRetryDelay"
proof -
  have "delays = [] \<or> delays = [GetRetryDelay a'] \<and> consecutiveErrors a' = consecutiveErrors a + 1 \<and>
      consecutiveErrors a' < maxConsecutiveErrors a"
    using assms(1)
    by (auto simp: decisionAttempt_def handleDecisionError_def RecordError_def ReportIterationEvent_def Let_def
        split: if_splits sum.splits prod.splits)
  then show ?thesis using GetRetryDelay_range [of a'] assms(2,3) by auto
qed

section \<open>Properties\<close>

text \<open>
  C35. The iteration quota holds under every interleaving of triggers, decisions, users and restarts: the iteration
  number never exceeds the limit, and the number of control loops ever started is at most twice the limit (the
  initial prompt resets the counter once).
\<close>

theorem autopilot_quota:
  assumes "ap_step\<^sup>*\<^sup>* (NewAutopilotController rep n) a" "0 \<le> n"
  shows "currentIter a \<le> maxIterations a \<and> int (length (launched a)) \<le> 2 * maxIterations a"
proof -
  have "ap_ok a"
    using assms(2) by (intro ap_quota.inv_reachable [OF _ assms(1)]) (auto simp: ap_initial_def)
  then show ?thesis by (auto simp: ap_ok_def split: if_splits)
qed

text \<open>
  C37. Stopping is final for the pod: once the controller has been stopped, no control loop is started again, whatever
  else happens.
\<close>

theorem stopped_autopilot_starts_nothing:
  assumes "ap_step\<^sup>*\<^sup>* (Stop_begin a) a'"
  shows "launched a' = launched a"
proof -
  have "frozen (launched a) (Stop_begin a)" by (simp add: frozen_def Stop_begin_def SetPhaseWithoutReport_def)
  then have "frozen (launched a) a'" using assms by (rule ap_frozen.inv_from [rotated])
  then show ?thesis by (simp add: frozen_def)
qed

text \<open>
  When a waiting pod starts an iteration: exactly if enough time has passed since the last trigger, the user has not
  taken over, the phase allows it, the limit is not reached and the controller is not stopped. Otherwise nothing is
  started, and only reaching the limit changes the phase.
\<close>

theorem OnPodWaiting_exact:
  "launched (OnPodWaiting env a) =
     (if (\<forall>t. lastTriggerTime a = Some t \<longrightarrow> minTriggerGap a \<le> now env - t) \<and> \<not> userTakeover a \<and>
         CanProcessIteration a \<and> currentIter a < maxIterations a \<and> \<not> ap_stopped a
      then launched a @ [currentIter a + 1] else launched a) \<and>
   (ap_phase (OnPodWaiting env a) \<noteq> ap_phase a \<longrightarrow>
      ap_phase (OnPodWaiting env a) = PhaseMaxIterations \<and> maxIterations a \<le> currentIter a)"
  by (auto simp: OnPodWaiting_def podWaitingChecks_def CheckTriggerDedup_def podWaitingIncrement_def IncrementIteration_def
      reachMaxIterations_def HasReachedMaxIterations_def ReportIterationEvent_def SetPhase_def reportStatusForPhase_def
      launchDecision_def CanProcessIteration_def Let_def split: option.splits)

text \<open>
  C36. The retry loop of a decision that runs without interference ends: it runs the control process at most as often
  as the limit of consecutive errors leaves room for (but once), and every wait in between is between two and thirty
  seconds. The limit is at most 34 (the controller uses 3); above, the delay overflows. Without interference means that no
  other goroutine changes the controller meanwhile: the counter of errors is shared, and another decision that
  succeeds resets it, which allows this loop more rounds.
\<close>

theorem runSingleDecision_ends:
  assumes "runSingleDecision ts n i a = (rounds, delays, a')" "0 \<le> consecutiveErrors a" "maxConsecutiveErrors a \<le> 34"
  shows "1 \<le> rounds \<and> int rounds \<le> max 1 (maxConsecutiveErrors a - consecutiveErrors a) \<and>
    (\<forall>d \<in> set delays. MinRetryDelay \<le> d \<and> d \<le> MaxRetryDelay)"
  using assms
proof (induction ts n i a arbitrary: rounds delays a' rule: runSingleDecision.induct)
  case (1 ts n i a)
  obtain goOn ds a1 where t: "decisionAttempt (ts n) i a = (goOn, ds, a1)" by (cases "decisionAttempt (ts n) i a")
  note ds = decisionAttempt_delays [OF t 1(3,4)]
  show ?case
  proof (cases goOn)
    case False
    then show ?thesis using 1(2) t ds by (auto simp: runSingleDecision.simps [of ts n i a])
  next
    case True
    obtain r1 ds1 a2 where r: "runSingleDecision ts (Suc n) i a1 = (r1, ds1, a2)"
      by (cases "runSingleDecision ts (Suc n) i a1")
    have e: "consecutiveErrors a1 = consecutiveErrors a + 1" "consecutiveErrors a1 < maxConsecutiveErrors a"
      "maxConsecutiveErrors a1 = maxConsecutiveErrors a"
      using decisionAttempt_goes_on [of "ts n" i a ds a1] t True by simp_all
    have "1 \<le> r1 \<and> int r1 \<le> max 1 (maxConsecutiveErrors a1 - consecutiveErrors a1) \<and>
        (\<forall>d \<in> set ds1. MinRetryDelay \<le> d \<and> d \<le> MaxRetryDelay)"
      using t True r e 1(3,4) by (intro 1(1) [of _ _ ds a1]) auto
    moreover have "rounds = Suc r1" "delays = ds @ ds1"
      using 1(2) t True r by (simp_all add: runSingleDecision.simps [of ts n i a])
    ultimately show ?thesis using ds e by auto
  qed
qed

section \<open>Witnesses\<close>

definition sample_env :: pod_env where
  "sample_env = \<lparr>now = 100, AgentStatus = ''waiting'', gitFiles = []\<rparr>"

definition started_autopilot :: autopilot where
  "started_autopilot = (Start_begin sample_env (NewAutopilotController True 3))\<lparr>started := True\<rparr>"

theorem autopilot_quota_witness:
  "launched started_autopilot = [1] \<and> currentIter started_autopilot \<le> 3 \<and> int (length (launched started_autopilot)) \<le> 2 * 3"
proof -
  have "ap_step\<^sup>*\<^sup>* (NewAutopilotController True 3) started_autopilot"
    unfolding started_autopilot_def
    by (intro r_into_rtranclp ap_start) (simp add: NewAutopilotController_def)
  moreover have "maxIterations started_autopilot = 3" "launched started_autopilot = [1]" by code_simp+
  ultimately show ?thesis using autopilot_quota [of True 3 started_autopilot] by simp
qed

theorem stopped_autopilot_starts_nothing_witness:
  "launched (Handback sample_env (Stop_begin started_autopilot)) = [1]"
proof -
  have "launched started_autopilot = [1]" by code_simp
  then show ?thesis
    using stopped_autopilot_starts_nothing [OF r_into_rtranclp [of ap_step, OF ap_handback]] by simp
qed

theorem OnPodWaiting_exact_witness:
  "launched (OnPodWaiting sample_env (NewAutopilotController True 3)) = [1]"
proof -
  have "lastTriggerTime (NewAutopilotController True 3) = None" "\<not> userTakeover (NewAutopilotController True 3)"
    "CanProcessIteration (NewAutopilotController True 3)" "\<not> ap_stopped (NewAutopilotController True 3)"
    "currentIter (NewAutopilotController True 3) = 0" "maxIterations (NewAutopilotController True 3) = 3"
    "launched (NewAutopilotController True 3) = []" by code_simp+
  then show ?thesis using OnPodWaiting_exact [of sample_env "NewAutopilotController True 3"] by simp
qed

definition failing :: "nat \<Rightarrow> attempt" where
  "failing n = \<lparr>at_env = sample_env, at_cancelled = False, at_result = Inl [], at_elapsed = True\<rparr>"

theorem runSingleDecision_ends_witness:
  "fst (runSingleDecision failing 0 1 started_autopilot) \<le> 3"
proof -
  obtain r ds a' where r: "runSingleDecision failing 0 1 started_autopilot = (r, ds, a')"
    by (cases "runSingleDecision failing 0 1 started_autopilot")
  have "consecutiveErrors started_autopilot = 0" "maxConsecutiveErrors started_autopilot = 3" by code_simp+
  then show ?thesis using runSingleDecision_ends [OF r] r by simp
qed

section \<open>Limits of the code\<close>

text \<open>
  Handing back is not guarded by the phase: a completed controller goes back to running and starts another iteration
  as soon as the pod waits.
\<close>

definition completed_autopilot :: autopilot where
  "completed_autopilot = (SetPhase sample_env PhaseCompleted started_autopilot)\<lparr>decisions := []\<rparr>"

theorem handback_revives_completed:
  "IsTerminalPhase completed_autopilot \<and>
   launched (OnPodWaiting (sample_env\<lparr>now := 10 * second\<rparr>) (Handback sample_env completed_autopilot)) = [1, 2]"
  by code_simp

text \<open>A decision that ends after the controller was stopped overwrites the phase.\<close>

theorem late_decision_overwrites_stopped:
  "ap_phase (Stop_begin started_autopilot) = PhaseStopped \<and>
   ap_phase (handleDecision sample_env \<lparr>dec_Type = DecisionNeedHumanHelp, dec_Summary = [], Reasoning = [], Confidence = 0,
     FilesChanged = [], dec_Progress = None, dec_Action = None, dec_HelpRequest = None\<rparr> 1 (Stop_begin started_autopilot))
   = PhaseWaitingApproval"
  by code_simp

text \<open>With a limit above 34 consecutive errors the delay overflows and is negative.\<close>

theorem retry_delay_overflows: "GetRetryDelay (started_autopilot\<lparr>consecutiveErrors := 34\<rparr>) < 0"
  by (simp add: GetRetryDelay_def wrap64_def second_def MaxRetryDelay_def)

end
