(* ===== verification/Pod_Binding.thy ===== *)
theory Pod_Binding
  imports Go_Prelude
begin

text \<open>
  Bindings between pods, which let one pod observe or control another: the domain type of
  \<^verbatim>\<open>backend/internal/domain/channel/channel.go\<close>, the service \<^verbatim>\<open>backend/internal/service/binding\<close> and its
  repository \<^verbatim>\<open>backend/internal/infra/binding_repo.go\<close>.

  The database library is not part of the repository: \<open>gorm\<close> is a parameter with the operations that the
  code calls, and \<open>gorm_ok\<close> states what the documentation of the library says of them. Its state has any type.
  The lookup of a pod's owner is a parameter too, and so is the time (nanoseconds).

  A request reads a row, checks it and writes it back without a transaction. The functions \<open>prepare\<dots>\<close> are the
  part of each operation before the write. The step relation \<open>binding_step\<close> lets any number of requests stand
  between the two, so every interleaving of requests is covered; \<open>consents\<close> records who agreed to a scope.
\<close>

section \<open>Bindings\<close>

definition BindingStatusPending :: string where "BindingStatusPending = ''pending''"
definition BindingStatusActive :: string where "BindingStatusActive = ''active''"
definition BindingStatusRejected :: string where "BindingStatusRejected = ''rejected''"
definition BindingStatusInactive :: string where "BindingStatusInactive = ''inactive''"
definition BindingStatusExpired :: string where "BindingStatusExpired = ''expired''"

definition BindingScopePodRead :: string where "BindingScopePodRead = ''pod:read''"
definition BindingScopePodWrite :: string where "BindingScopePodWrite = ''pod:write''"

definition BindingPolicySameUserAuto :: string where "BindingPolicySameUserAuto = ''same_user_auto''"
definition BindingPolicySameProjectAuto :: string where "BindingPolicySameProjectAuto = ''same_project_auto''"
definition BindingPolicyExplicitOnly :: string where "BindingPolicyExplicitOnly = ''explicit_only''"

lemmas binding_constants =
  BindingStatusPending_def BindingStatusActive_def BindingStatusRejected_def BindingStatusInactive_def
  BindingStatusExpired_def BindingScopePodRead_def BindingScopePodWrite_def BindingPolicySameUserAuto_def
  BindingPolicySameProjectAuto_def BindingPolicyExplicitOnly_def

definition ValidBindingScopes :: "string list" where
  "ValidBindingScopes = [BindingScopePodRead, BindingScopePodWrite]"

record pod_binding =
  binding_ID :: int
  OrganizationID :: int
  InitiatorPod :: string
  TargetPod :: string
  GrantedScopes :: "string list"
  PendingScopes :: "string list"
  Status :: string
  RequestedAt :: "int option"
  RespondedAt :: "int option"
  ExpiresAt :: "int option"
  RejectionReason :: "string option"

definition HasScope_binding :: "string \<Rightarrow> pod_binding \<Rightarrow> bool" where
  "HasScope_binding scope b \<longleftrightarrow> scope \<in> set (GrantedScopes b)"

definition HasPendingScope :: "string \<Rightarrow> pod_binding \<Rightarrow> bool" where
  "HasPendingScope scope b \<longleftrightarrow> scope \<in> set (PendingScopes b)"

definition IsActive :: "pod_binding \<Rightarrow> bool" where
  "IsActive b \<longleftrightarrow> Status b = BindingStatusActive"

definition IsPending :: "pod_binding \<Rightarrow> bool" where
  "IsPending b \<longleftrightarrow> Status b = BindingStatusPending"

definition CanObserve :: "pod_binding \<Rightarrow> bool" where
  "CanObserve b \<longleftrightarrow> IsActive b \<and> HasScope_binding BindingScopePodRead b"

definition CanControl :: "pod_binding \<Rightarrow> bool" where
  "CanControl b \<longleftrightarrow> IsActive b \<and> HasScope_binding BindingScopePodWrite b"

section \<open>The repository\<close>

datatype binding_error =
  DatabaseError string | ErrBindingNotFound | ErrSelfBinding | ErrInvalidScope | ErrNotAuthorized
| ErrBindingNotPending | ErrBindingNotActive | ErrNoValidPendingScopes

text \<open>The calls of the database library; \<open>g_rows\<close> is the content of the table.\<close>

record 'd gorm =
  g_rows :: "'d \<Rightarrow> pod_binding set"
  g_first :: "(pod_binding \<Rightarrow> bool) \<Rightarrow> 'd \<Rightarrow> binding_error + pod_binding option"
  g_find :: "(pod_binding \<Rightarrow> bool) \<Rightarrow> 'd \<Rightarrow> binding_error + pod_binding list"
  g_create :: "pod_binding \<Rightarrow> 'd \<Rightarrow> 'd \<times> (binding_error + pod_binding)"
  g_save :: "pod_binding \<Rightarrow> 'd \<Rightarrow> 'd \<times> binding_error option"
  g_update :: "(pod_binding \<Rightarrow> bool) \<Rightarrow> string \<Rightarrow> 'd \<Rightarrow> 'd \<times> (binding_error + int)"

text \<open>
  \<open>First\<close> finds a row of the table that meets the condition and fails with "not found" (here \<open>None\<close>) only when
  there is none; \<open>Find\<close> returns all of them; \<open>Create\<close> adds the row under a new key, \<open>Save\<close> replaces the row with
  the same key, \<open>Update\<close> sets the column in the selected rows. A call that fails leaves the table as it was.
\<close>

definition gorm_ok :: "'d gorm \<Rightarrow> bool" where
  "gorm_ok g \<longleftrightarrow>
     (\<forall>p d b. g_first g p d = Inr (Some b) \<longrightarrow> b \<in> g_rows g d \<and> p b) \<and>
     (\<forall>p d. g_first g p d = Inr None \<longrightarrow> (\<forall>b \<in> g_rows g d. \<not> p b)) \<and>
     (\<forall>p d bs. g_find g p d = Inr bs \<longrightarrow> set bs = {b \<in> g_rows g d. p b}) \<and>
     (\<forall>b d d' b'. g_create g b d = (d', Inr b') \<longrightarrow>
        (\<exists>i. b' = b\<lparr>binding_ID := i\<rparr> \<and> (\<forall>x \<in> g_rows g d. binding_ID x \<noteq> i)) \<and> g_rows g d' = insert b' (g_rows g d)) \<and>
     (\<forall>b d d' e. g_create g b d = (d', Inl e) \<longrightarrow> g_rows g d' = g_rows g d) \<and>
     (\<forall>b d d'. g_save g b d = (d', None) \<longrightarrow>
        g_rows g d' = insert b {x \<in> g_rows g d. binding_ID x \<noteq> binding_ID b}) \<and>
     (\<forall>b d d' e. g_save g b d = (d', Some e) \<longrightarrow> g_rows g d' = g_rows g d) \<and>
     (\<forall>p s d d' n. g_update g p s d = (d', Inr n) \<longrightarrow>
        g_rows g d' = (\<lambda>b. if p b then b\<lparr>Status := s\<rparr> else b) ` g_rows g d) \<and>
     (\<forall>p s d d' e. g_update g p s d = (d', Inl e) \<longrightarrow> g_rows g d' = g_rows g d)"

definition GetByID :: "'d gorm \<Rightarrow> int \<Rightarrow> 'd \<Rightarrow> binding_error + pod_binding option" where
  "GetByID g bindingID d = g_first g (\<lambda>b. binding_ID b = bindingID) d"

definition GetActive :: "'d gorm \<Rightarrow> string \<Rightarrow> string \<Rightarrow> 'd \<Rightarrow> binding_error + pod_binding option" where
  "GetActive g initiatorPod targetPod d = g_first g (\<lambda>b. InitiatorPod b = initiatorPod \<and>
     TargetPod b = targetPod \<and> Status b = BindingStatusActive) d"

definition GetExisting :: "'d gorm \<Rightarrow> string \<Rightarrow> string \<Rightarrow> 'd \<Rightarrow> binding_error + pod_binding option" where
  "GetExisting g initiatorPod targetPod d = g_first g (\<lambda>b. InitiatorPod b = initiatorPod \<and>
     TargetPod b = targetPod \<and> Status b \<in> {BindingStatusActive, BindingStatusPending}) d"

definition ListForPod :: "'d gorm \<Rightarrow> string \<Rightarrow> string option \<Rightarrow> 'd \<Rightarrow> binding_error + pod_binding list" where
  "ListForPod g podKey st d = g_find g (\<lambda>b. (InitiatorPod b = podKey \<or> TargetPod b = podKey) \<and>
     (case st of None \<Rightarrow> True | Some s \<Rightarrow> Status b = s)) d"

definition ListPending :: "'d gorm \<Rightarrow> string \<Rightarrow> 'd \<Rightarrow> binding_error + pod_binding list" where
  "ListPending g targetPod d = g_find g (\<lambda>b. TargetPod b = targetPod \<and> Status b = BindingStatusPending) d"

definition binding_Create :: "'d gorm \<Rightarrow> pod_binding \<Rightarrow> 'd \<Rightarrow> 'd \<times> (binding_error + pod_binding)" where
  "binding_Create g b d = g_create g b d"

definition binding_Save :: "'d gorm \<Rightarrow> pod_binding \<Rightarrow> 'd \<Rightarrow> 'd \<times> binding_error option" where
  "binding_Save g b d = g_save g b d"

definition MarkExpired :: "'d gorm \<Rightarrow> int \<Rightarrow> 'd \<Rightarrow> 'd \<times> (binding_error + int)" where
  "MarkExpired g now d = g_update g (\<lambda>b. Status b = BindingStatusPending \<and>
     (case ExpiresAt b of None \<Rightarrow> False | Some t \<Rightarrow> t < now)) BindingStatusExpired d"

section \<open>Lookups of the service\<close>

definition validateScopes :: "string list \<Rightarrow> binding_error option" where
  "validateScopes scopes = (if \<exists>s \<in> set scopes. s \<notin> set ValidBindingScopes then Some ErrInvalidScope else None)"

text \<open>A row that is not there is an error for the caller.\<close>

definition found :: "binding_error + pod_binding option \<Rightarrow> binding_error + pod_binding" where
  "found r = (case r of Inl e \<Rightarrow> Inl e | Inr None \<Rightarrow> Inl ErrBindingNotFound | Inr (Some b) \<Rightarrow> Inr b)"

definition GetBinding :: "'d gorm \<Rightarrow> int \<Rightarrow> 'd \<Rightarrow> binding_error + pod_binding" where
  "GetBinding g bindingID d = found (GetByID g bindingID d)"

definition GetActiveBinding :: "'d gorm \<Rightarrow> string \<Rightarrow> string \<Rightarrow> 'd \<Rightarrow> binding_error + pod_binding" where
  "GetActiveBinding g initiatorPod targetPod d = found (GetActive g initiatorPod targetPod d)"

definition GetExistingBinding :: "'d gorm \<Rightarrow> string \<Rightarrow> string \<Rightarrow> 'd \<Rightarrow> binding_error + pod_binding" where
  "GetExistingBinding g initiatorPod targetPod d = found (GetExisting g initiatorPod targetPod d)"

definition GetBoundPods :: "'d gorm \<Rightarrow> string \<Rightarrow> 'd \<Rightarrow> binding_error + string list" where
  "GetBoundPods g podKey d =
     (case ListForPod g podKey (Some BindingStatusActive) d of
        Inl e \<Rightarrow> Inl e
      | Inr bs \<Rightarrow> Inr (map (\<lambda>b. if InitiatorPod b = podKey then TargetPod b else InitiatorPod b) bs))"

definition IsBound :: "'d gorm \<Rightarrow> string \<Rightarrow> string \<Rightarrow> 'd \<Rightarrow> binding_error + bool" where
  "IsBound g podA podB d =
     (if isl (GetActiveBinding g podA podB d)
      then (case GetActiveBinding g podB podA d of
              Inr _ \<Rightarrow> Inr True
            | Inl ErrBindingNotFound \<Rightarrow> Inr False
            | Inl e \<Rightarrow> Inl e)
      else Inr True)"

definition HasScope :: "'d gorm \<Rightarrow> string \<Rightarrow> string \<Rightarrow> string \<Rightarrow> 'd \<Rightarrow> binding_error + bool" where
  "HasScope g initiatorPod targetPod scope d =
     (case GetActiveBinding g initiatorPod targetPod d of
        Inl ErrBindingNotFound \<Rightarrow> Inr False
      | Inl e \<Rightarrow> Inl e
      | Inr b \<Rightarrow> Inr (HasScope_binding scope b))"

section \<open>The policy\<close>

text \<open>
  What is known of a pod: the fields of the map that \<open>GetPodInfo\<close> returns. \<open>querier\<close> is \<open>None\<close> when the service
  was created without one; \<open>Inl\<close> is an error.
\<close>

datatype info_value = Info_int int | Info_string string | Info_pointer nat

type_synonym pod_info = "(string \<times> info_value) list"
type_synonym pod_querier = "(string \<Rightarrow> string + pod_info) option"

definition same_field :: "string \<Rightarrow> pod_info \<Rightarrow> pod_info \<Rightarrow> bool" where
  "same_field k a b \<longleftrightarrow> map_of a k \<noteq> None \<and> map_of b k \<noteq> None \<and> map_of a k = map_of b k"

definition evaluatePolicy :: "pod_querier \<Rightarrow> string \<Rightarrow> string \<Rightarrow> string \<Rightarrow> bool \<times> string" where
  "evaluatePolicy querier initiatorPod targetPod policy =
     (if policy = BindingPolicyExplicitOnly then (False, BindingStatusPending)
      else case querier of
        None \<Rightarrow> (False, BindingStatusPending)
      | Some q \<Rightarrow>
          (case q initiatorPod of
             Inl _ \<Rightarrow> (False, BindingStatusPending)
           | Inr a \<Rightarrow>
               (case q targetPod of
                  Inl _ \<Rightarrow> (False, BindingStatusPending)
                | Inr b \<Rightarrow>
                    if same_field ''user_id'' a b then (True, BindingStatusActive)
                    else if policy = BindingPolicySameProjectAuto \<and> same_field ''project_id'' a b
                      then (True, BindingStatusActive)
                    else (False, BindingStatusPending))))"

text \<open>What \<open>GetPodInfo\<close> of the pod service puts into the map.\<close>

definition GetPodInfo :: "int \<Rightarrow> int \<Rightarrow> nat \<Rightarrow> string \<Rightarrow> pod_info" where
  "GetPodInfo createdBy organization ticket status =
     [(''user_id'', Info_int createdBy), (''organization_id'', Info_int organization),
      (''ticket_id'', Info_pointer ticket), (''status'', Info_string status)]"

section \<open>Operations\<close>

text \<open>The write a request ends with, and the part of a request before it.\<close>

datatype row_write = CreateRow pod_binding | SaveRow pod_binding
datatype prepared = Done "binding_error + pod_binding" | Write row_write

definition commit :: "'d gorm \<Rightarrow> row_write \<Rightarrow> 'd \<Rightarrow> 'd \<times> (binding_error + pod_binding)" where
  "commit g w d =
     (case w of
        CreateRow b \<Rightarrow> binding_Create g b d
      | SaveRow b \<Rightarrow>
          (case binding_Save g b d of
             (d', None) \<Rightarrow> (d', Inr b)
           | (d', Some e) \<Rightarrow> (d', Inl e)))"

definition run :: "'d gorm \<Rightarrow> prepared \<Rightarrow> 'd \<Rightarrow> 'd \<times> (binding_error + pod_binding)" where
  "run g p d = (case p of Done r \<Rightarrow> (d, r) | Write w \<Rightarrow> commit g w d)"

text \<open>\<open>PendingExpiryHours\<close>, as a duration in nanoseconds.\<close>

definition PendingExpiry :: int where
  "PendingExpiry = 24 * 3600 * 10 ^ 9"

definition new_binding :: "int \<Rightarrow> string \<Rightarrow> string \<Rightarrow> pod_binding" where
  "new_binding orgID initiatorPod targetPod =
     \<lparr>binding_ID = 0, OrganizationID = orgID, InitiatorPod = initiatorPod, TargetPod = targetPod,
      GrantedScopes = [], PendingScopes = [], Status = [], RequestedAt = None, RespondedAt = None,
      ExpiresAt = None, RejectionReason = None\<rparr>"

definition requested_row :: "pod_querier \<Rightarrow> int \<Rightarrow> int \<Rightarrow> int \<Rightarrow> string \<Rightarrow> string \<Rightarrow> string list \<Rightarrow> string \<Rightarrow> pod_binding" where
  "requested_row querier now0 now orgID initiatorPod targetPod scopes policy =
     (let (autoApprove, initialStatus) = evaluatePolicy querier initiatorPod targetPod policy
      in (new_binding orgID initiatorPod targetPod)\<lparr>
           GrantedScopes := (if autoApprove then scopes else []),
           PendingScopes := (if autoApprove then [] else scopes),
           Status := initialStatus, RequestedAt := Some now,
           ExpiresAt := (if initialStatus = BindingStatusPending then Some (now0 + PendingExpiry) else None),
           RespondedAt := (if autoApprove then Some now else None)\<rparr>)"

text \<open>The checks that \<open>RequestBinding\<close> and \<open>CreateAutoBinding\<close> share; an error of the lookup is ignored.\<close>

definition request_checks :: "'d gorm \<Rightarrow> string \<Rightarrow> string \<Rightarrow> string list \<Rightarrow> 'd \<Rightarrow> (binding_error + pod_binding) option" where
  "request_checks g initiatorPod targetPod scopes d =
     (case validateScopes scopes of
        Some e \<Rightarrow> Some (Inl e)
      | None \<Rightarrow>
          if initiatorPod = targetPod then Some (Inl ErrSelfBinding)
          else (case GetExistingBinding g initiatorPod targetPod d of
                  Inr b \<Rightarrow> Some (Inr b)
                | Inl _ \<Rightarrow> None))"

definition prepareRequestBinding ::
  "'d gorm \<Rightarrow> pod_querier \<Rightarrow> int \<Rightarrow> int \<Rightarrow> int \<Rightarrow> string \<Rightarrow> string \<Rightarrow> string list \<Rightarrow> string \<Rightarrow> 'd \<Rightarrow> prepared" where
  "prepareRequestBinding g querier now0 now orgID initiatorPod targetPod scopes policy d =
     (case request_checks g initiatorPod targetPod scopes d of
        Some r \<Rightarrow> Done r
      | None \<Rightarrow> Write (CreateRow (requested_row querier now0 now orgID initiatorPod targetPod scopes policy)))"

definition RequestBinding ::
  "'d gorm \<Rightarrow> pod_querier \<Rightarrow> int \<Rightarrow> int \<Rightarrow> int \<Rightarrow> string \<Rightarrow> string \<Rightarrow> string list \<Rightarrow> string \<Rightarrow> 'd \<Rightarrow>
     'd \<times> (binding_error + pod_binding)" where
  "RequestBinding g querier now0 now orgID initiatorPod targetPod scopes policy d =
     run g (prepareRequestBinding g querier now0 now orgID initiatorPod targetPod scopes policy d) d"

definition prepareCreateAutoBinding ::
  "'d gorm \<Rightarrow> int \<Rightarrow> int \<Rightarrow> string \<Rightarrow> string \<Rightarrow> string list \<Rightarrow> 'd \<Rightarrow> prepared" where
  "prepareCreateAutoBinding g now orgID initiatorPod targetPod scopes d =
     (case request_checks g initiatorPod targetPod scopes d of
        Some r \<Rightarrow> Done r
      | None \<Rightarrow> Write (CreateRow ((new_binding orgID initiatorPod targetPod)\<lparr>GrantedScopes := scopes,
                  Status := BindingStatusActive, RequestedAt := Some now, RespondedAt := Some now\<rparr>)))"

definition CreateAutoBinding ::
  "'d gorm \<Rightarrow> int \<Rightarrow> int \<Rightarrow> string \<Rightarrow> string \<Rightarrow> string list \<Rightarrow> 'd \<Rightarrow> 'd \<times> (binding_error + pod_binding)" where
  "CreateAutoBinding g now orgID initiatorPod targetPod scopes d =
     run g (prepareCreateAutoBinding g now orgID initiatorPod targetPod scopes d) d"

text \<open>The checks that \<open>AcceptBinding\<close> and \<open>RejectBinding\<close> share.\<close>

definition respond_checks :: "'d gorm \<Rightarrow> int \<Rightarrow> string \<Rightarrow> 'd \<Rightarrow> binding_error + pod_binding" where
  "respond_checks g bindingID targetPod d =
     (case GetBinding g bindingID d of
        Inl e \<Rightarrow> Inl e
      | Inr b \<Rightarrow>
          if TargetPod b \<noteq> targetPod then Inl ErrNotAuthorized
          else if \<not> IsPending b then Inl ErrBindingNotPending
          else Inr b)"

definition prepareAcceptBinding :: "'d gorm \<Rightarrow> int \<Rightarrow> int \<Rightarrow> string \<Rightarrow> 'd \<Rightarrow> prepared" where
  "prepareAcceptBinding g now bindingID targetPod d =
     (case respond_checks g bindingID targetPod d of
        Inl e \<Rightarrow> Done (Inl e)
      | Inr b \<Rightarrow> Write (SaveRow (b\<lparr>GrantedScopes := GrantedScopes b @ PendingScopes b, PendingScopes := [],
                  Status := BindingStatusActive, RespondedAt := Some now, ExpiresAt := None\<rparr>)))"

definition AcceptBinding :: "'d gorm \<Rightarrow> int \<Rightarrow> int \<Rightarrow> string \<Rightarrow> 'd \<Rightarrow> 'd \<times> (binding_error + pod_binding)" where
  "AcceptBinding g now bindingID targetPod d = run g (prepareAcceptBinding g now bindingID targetPod d) d"

definition prepareRejectBinding :: "'d gorm \<Rightarrow> int \<Rightarrow> int \<Rightarrow> string \<Rightarrow> string \<Rightarrow> 'd \<Rightarrow> prepared" where
  "prepareRejectBinding g now bindingID targetPod reason d =
     (case respond_checks g bindingID targetPod d of
        Inl e \<Rightarrow> Done (Inl e)
      | Inr b \<Rightarrow> Write (SaveRow (b\<lparr>Status := BindingStatusRejected, RespondedAt := Some now,
                  RejectionReason := (if reason \<noteq> [] then Some reason else RejectionReason b)\<rparr>)))"

definition RejectBinding :: "'d gorm \<Rightarrow> int \<Rightarrow> int \<Rightarrow> string \<Rightarrow> string \<Rightarrow> 'd \<Rightarrow> 'd \<times> (binding_error + pod_binding)" where
  "RejectBinding g now bindingID targetPod reason d = run g (prepareRejectBinding g now bindingID targetPod reason d) d"

text \<open>\<open>Unbind\<close> tries both directions; the row to save, if there is one.\<close>

definition prepareUnbind :: "'d gorm \<Rightarrow> string \<Rightarrow> string \<Rightarrow> 'd \<Rightarrow> pod_binding option" where
  "prepareUnbind g initiatorPod targetPod d =
     (case GetActiveBinding g initiatorPod targetPod d of
        Inr b \<Rightarrow> Some (b\<lparr>Status := BindingStatusInactive\<rparr>)
      | Inl _ \<Rightarrow>
          (case GetActiveBinding g targetPod initiatorPod d of
             Inr b \<Rightarrow> Some (b\<lparr>Status := BindingStatusInactive\<rparr>)
           | Inl _ \<Rightarrow> None))"

definition Unbind :: "'d gorm \<Rightarrow> string \<Rightarrow> string \<Rightarrow> 'd \<Rightarrow> 'd \<times> (binding_error + bool)" where
  "Unbind g initiatorPod targetPod d =
     (case prepareUnbind g initiatorPod targetPod d of
        None \<Rightarrow> (d, Inr False)
      | Some b \<Rightarrow>
          (case binding_Save g b d of
             (d', None) \<Rightarrow> (d', Inr True)
           | (d', Some e) \<Rightarrow> (d', Inl e)))"

definition CleanupExpiredBindings :: "'d gorm \<Rightarrow> int \<Rightarrow> 'd \<Rightarrow> 'd \<times> (binding_error + int)" where
  "CleanupExpiredBindings g now d = MarkExpired g now d"

definition prepareRequestScopes ::
  "'d gorm \<Rightarrow> pod_querier \<Rightarrow> int \<Rightarrow> string \<Rightarrow> string list \<Rightarrow> 'd \<Rightarrow> prepared" where
  "prepareRequestScopes g querier bindingID requesterPod scopes d =
     (case validateScopes scopes of
        Some e \<Rightarrow> Done (Inl e)
      | None \<Rightarrow>
          (case GetBinding g bindingID d of
             Inl e \<Rightarrow> Done (Inl e)
           | Inr b \<Rightarrow>
               if InitiatorPod b \<noteq> requesterPod then Done (Inl ErrNotAuthorized)
               else if \<not> IsActive b then Done (Inl ErrBindingNotActive)
               else let newScopes = filter (\<lambda>s. \<not> HasScope_binding s b \<and> \<not> HasPendingScope s b) scopes
                    in if newScopes = [] then Done (Inr b)
                       else if fst (evaluatePolicy querier (InitiatorPod b) (TargetPod b) [])
                         then Write (SaveRow (b\<lparr>GrantedScopes := GrantedScopes b @ newScopes\<rparr>))
                         else Write (SaveRow (b\<lparr>PendingScopes := PendingScopes b @ newScopes\<rparr>))))"

definition RequestScopes ::
  "'d gorm \<Rightarrow> pod_querier \<Rightarrow> int \<Rightarrow> string \<Rightarrow> string list \<Rightarrow> 'd \<Rightarrow> 'd \<times> (binding_error + pod_binding)" where
  "RequestScopes g querier bindingID requesterPod scopes d =
     run g (prepareRequestScopes g querier bindingID requesterPod scopes d) d"

definition prepareApproveScopes :: "'d gorm \<Rightarrow> int \<Rightarrow> string \<Rightarrow> string list \<Rightarrow> 'd \<Rightarrow> prepared" where
  "prepareApproveScopes g bindingID approverPod scopes d =
     (case GetBinding g bindingID d of
        Inl e \<Rightarrow> Done (Inl e)
      | Inr b \<Rightarrow>
          if TargetPod b \<noteq> approverPod then Done (Inl ErrNotAuthorized)
          else let approved = filter (\<lambda>s. HasPendingScope s b) scopes
               in if approved = [] then Done (Inl ErrNoValidPendingScopes)
                  else Write (SaveRow (b\<lparr>
                    GrantedScopes := GrantedScopes b @ filter (\<lambda>s. s \<in> set approved) (PendingScopes b),
                    PendingScopes := filter (\<lambda>s. s \<notin> set approved) (PendingScopes b)\<rparr>)))"

definition ApproveScopes :: "'d gorm \<Rightarrow> int \<Rightarrow> string \<Rightarrow> string list \<Rightarrow> 'd \<Rightarrow> 'd \<times> (binding_error + pod_binding)" where
  "ApproveScopes g bindingID approverPod scopes d = run g (prepareApproveScopes g bindingID approverPod scopes d) d"

section \<open>Interleaved requests\<close>

text \<open>
  Why a pod may have a scope: the target pod called a function that grants it, the policy approved it, or the
  system created the binding.
\<close>

datatype consent = Called string | PolicyApproved | SystemCreated

record 'd binding_world =
  db :: 'd
  inflight :: "row_write list"
  consents :: "(consent \<times> string \<times> string \<times> string) set"

definition agree :: "consent \<Rightarrow> string \<Rightarrow> string \<Rightarrow> string list \<Rightarrow> row_write \<Rightarrow> 'd binding_world \<Rightarrow> 'd binding_world" where
  "agree c i t scopes x w =
     w\<lparr>inflight := x # inflight w, consents := consents w \<union> (\<lambda>s. (c, i, t, s)) ` set scopes\<rparr>"

definition begin_write :: "row_write \<Rightarrow> 'd binding_world \<Rightarrow> 'd binding_world" where
  "begin_write x w = w\<lparr>inflight := x # inflight w\<rparr>"

inductive binding_step :: "'d gorm \<Rightarrow> 'd binding_world \<Rightarrow> 'd binding_world \<Rightarrow> bool" for g where
  request_auto: "prepareRequestBinding g q n0 n orgID i t scopes policy (db w) = Write x \<Longrightarrow>
    fst (evaluatePolicy q i t policy) \<Longrightarrow> binding_step g w (agree PolicyApproved i t scopes x w)"
| request_pending: "prepareRequestBinding g q n0 n orgID i t scopes policy (db w) = Write x \<Longrightarrow>
    \<not> fst (evaluatePolicy q i t policy) \<Longrightarrow> binding_step g w (begin_write x w)"
| create_auto: "prepareCreateAutoBinding g n orgID i t scopes (db w) = Write x \<Longrightarrow>
    binding_step g w (agree SystemCreated i t scopes x w)"
| accept: "GetBinding g k (db w) = Inr b \<Longrightarrow> prepareAcceptBinding g n k caller (db w) = Write x \<Longrightarrow>
    binding_step g w (agree (Called caller) (InitiatorPod b) (TargetPod b) (PendingScopes b) x w)"
| reject: "prepareRejectBinding g n k caller reason (db w) = Write x \<Longrightarrow> binding_step g w (begin_write x w)"
| unbind: "prepareUnbind g i t (db w) = Some b \<Longrightarrow> binding_step g w (begin_write (SaveRow b) w)"
| scopes_auto: "GetBinding g k (db w) = Inr b \<Longrightarrow> prepareRequestScopes g q k caller scopes (db w) = Write x \<Longrightarrow>
    fst (evaluatePolicy q (InitiatorPod b) (TargetPod b) []) \<Longrightarrow>
    binding_step g w (agree PolicyApproved (InitiatorPod b) (TargetPod b) scopes x w)"
| scopes_pending: "GetBinding g k (db w) = Inr b \<Longrightarrow> prepareRequestScopes g q k caller scopes (db w) = Write x \<Longrightarrow>
    \<not> fst (evaluatePolicy q (InitiatorPod b) (TargetPod b) []) \<Longrightarrow> binding_step g w (begin_write x w)"
| approve: "GetBinding g k (db w) = Inr b \<Longrightarrow> prepareApproveScopes g k caller scopes (db w) = Write x \<Longrightarrow>
    binding_step g w (agree (Called caller) (InitiatorPod b) (TargetPod b) scopes x w)"
| finish: "inflight w = xs @ x # ys \<Longrightarrow>
    binding_step g w (w\<lparr>db := fst (commit g x (db w)), inflight := xs @ ys\<rparr>)"
| cleanup: "binding_step g w (w\<lparr>db := fst (CleanupExpiredBindings g n (db w))\<rparr>)"

definition binding_initial :: "'d gorm \<Rightarrow> 'd binding_world \<Rightarrow> bool" where
  "binding_initial g w \<longleftrightarrow> g_rows g (db w) = {} \<and> inflight w = [] \<and> consents w = {}"

section \<open>Lemmas\<close>

text \<open>A row whose granted scopes all have a reason.\<close>

definition row_ok :: "(consent \<times> string \<times> string \<times> string) set \<Rightarrow> pod_binding \<Rightarrow> bool" where
  "row_ok C b \<longleftrightarrow> InitiatorPod b \<noteq> TargetPod b \<and>
     set (GrantedScopes b) \<union> set (PendingScopes b) \<subseteq> set ValidBindingScopes \<and>
     (\<forall>s \<in> set (GrantedScopes b). \<exists>c \<in> {Called (TargetPod b), PolicyApproved, SystemCreated}.
        (c, InitiatorPod b, TargetPod b, s) \<in> C)"

fun row_of :: "row_write \<Rightarrow> pod_binding" where
  "row_of (CreateRow b) = b"
| "row_of (SaveRow b) = b"

definition binding_inv :: "'d gorm \<Rightarrow> 'd binding_world \<Rightarrow> bool" where
  "binding_inv g w \<longleftrightarrow> (\<forall>b \<in> g_rows g (db w) \<union> row_of ` set (inflight w). row_ok (consents w) b)"

lemma row_ok_mono: "row_ok C b \<Longrightarrow> C \<subseteq> D \<Longrightarrow> row_ok D b"
  unfolding row_ok_def by blast

lemma row_ok_update [simp]:
  "row_ok C (b\<lparr>Status := st\<rparr>) = row_ok C b" "row_ok C (b\<lparr>binding_ID := i\<rparr>) = row_ok C b"
  by (simp_all add: row_ok_def)

lemma found_Inr: "found r = Inr b \<longleftrightarrow> r = Inr (Some b)"
  by (auto simp: found_def split: sum.splits option.splits)

lemma gorm_laws:
  assumes "gorm_ok g"
  shows "\<forall>p d b. g_first g p d = Inr (Some b) \<longrightarrow> b \<in> g_rows g d \<and> p b"
    and "\<forall>p d. g_first g p d = Inr None \<longrightarrow> (\<forall>b \<in> g_rows g d. \<not> p b)"
    and "\<forall>p d bs. g_find g p d = Inr bs \<longrightarrow> set bs = {b \<in> g_rows g d. p b}"
    and "\<forall>b d d' b'. g_create g b d = (d', Inr b') \<longrightarrow>
        (\<exists>i. b' = b\<lparr>binding_ID := i\<rparr> \<and> (\<forall>x \<in> g_rows g d. binding_ID x \<noteq> i)) \<and> g_rows g d' = insert b' (g_rows g d)"
    and "\<forall>b d d' e. g_create g b d = (d', Inl e) \<longrightarrow> g_rows g d' = g_rows g d"
    and "\<forall>b d d'. g_save g b d = (d', None) \<longrightarrow>
        g_rows g d' = insert b {x \<in> g_rows g d. binding_ID x \<noteq> binding_ID b}"
    and "\<forall>b d d' e. g_save g b d = (d', Some e) \<longrightarrow> g_rows g d' = g_rows g d"
    and "\<forall>p s d d' n. g_update g p s d = (d', Inr n) \<longrightarrow>
        g_rows g d' = (\<lambda>b. if p b then b\<lparr>Status := s\<rparr> else b) ` g_rows g d"
    and "\<forall>p s d d' e. g_update g p s d = (d', Inl e) \<longrightarrow> g_rows g d' = g_rows g d"
  by (insert assms [unfolded gorm_ok_def], (elim conjE, assumption)+)

lemmas gorm_first = gorm_laws(1) [rule_format]
lemmas gorm_first_None = gorm_laws(2) [rule_format]
lemmas gorm_find = gorm_laws(3) [rule_format]
lemmas gorm_create = gorm_laws(4) [rule_format]
lemmas gorm_create_fails = gorm_laws(5) [rule_format]
lemmas gorm_save = gorm_laws(6) [rule_format]
lemmas gorm_save_fails = gorm_laws(7) [rule_format]
lemmas gorm_update = gorm_laws(8) [rule_format]
lemmas gorm_update_fails = gorm_laws(9) [rule_format]

lemma GetBinding_row: "gorm_ok g \<Longrightarrow> GetBinding g k d = Inr b \<Longrightarrow> b \<in> g_rows g d \<and> binding_ID b = k"
  by (auto simp: GetBinding_def GetByID_def found_Inr dest: gorm_first)

lemma GetActiveBinding_row:
  "gorm_ok g \<Longrightarrow> GetActiveBinding g i t d = Inr b \<Longrightarrow>
     b \<in> g_rows g d \<and> InitiatorPod b = i \<and> TargetPod b = t \<and> Status b = BindingStatusActive"
  by (auto simp: GetActiveBinding_def GetActive_def found_Inr dest: gorm_first)

lemma validateScopes_None: "validateScopes scopes = None \<longleftrightarrow> set scopes \<subseteq> set ValidBindingScopes"
  by (auto simp: validateScopes_def)

lemma request_checks_None:
  "request_checks g i t scopes d = None \<Longrightarrow> i \<noteq> t \<and> set scopes \<subseteq> set ValidBindingScopes"
  by (auto simp: request_checks_def validateScopes_None split: option.splits if_splits sum.splits)

text \<open>A write leaves only rows that were there or that it writes.\<close>

lemma commit_rows:
  assumes ok: "gorm_ok g" and b: "b \<in> g_rows g (fst (commit g x d))"
  shows "b \<in> g_rows g d \<or> (\<exists>i. b = (row_of x)\<lparr>binding_ID := i\<rparr>)"
proof (cases x)
  case (CreateRow r)
  obtain d' res where c: "g_create g r d = (d', res)" by (cases "g_create g r d")
  show ?thesis
  proof (cases res)
    case (Inl e)
    show ?thesis using b gorm_create_fails [OF ok c [unfolded Inl]] c CreateRow
      by (simp add: commit_def binding_Create_def)
  next
    case (Inr b')
    show ?thesis using b gorm_create [OF ok c [unfolded Inr]] c CreateRow
      by (auto simp: commit_def binding_Create_def)
  qed
next
  case (SaveRow r)
  have same: "r = r\<lparr>binding_ID := binding_ID r\<rparr>" by simp
  obtain d' res where c: "g_save g r d = (d', res)" by (cases "g_save g r d")
  show ?thesis
  proof (cases res)
    case None
    have "b = r \<or> b \<in> g_rows g d" using b gorm_save [OF ok c [unfolded None]] c SaveRow None
      by (auto simp: commit_def binding_Save_def)
    then show ?thesis using SaveRow same by (metis row_of.simps(2))
  next
    case (Some e)
    show ?thesis using b gorm_save_fails [OF ok c [unfolded Some]] c SaveRow Some
      by (simp add: commit_def binding_Save_def)
  qed
qed

lemma cleanup_rows:
  assumes ok: "gorm_ok g" and b: "b \<in> g_rows g (fst (CleanupExpiredBindings g n d))"
  shows "\<exists>b0 st. b0 \<in> g_rows g d \<and> b = b0\<lparr>Status := st\<rparr>"
proof -
  have same: "b = b\<lparr>Status := Status b\<rparr>" by simp
  obtain p st where def: "CleanupExpiredBindings g n d = g_update g p st d"
    unfolding CleanupExpiredBindings_def MarkExpired_def by blast
  obtain d' res where c: "g_update g p st d = (d', res)" by (cases "g_update g p st d")
  show ?thesis
  proof (cases res)
    case (Inl e)
    show ?thesis using b gorm_update_fails [OF ok c [unfolded Inl]] c def same by (metis fst_conv)
  next
    case (Inr k)
    have "b \<in> (\<lambda>b. if p b then b\<lparr>Status := st\<rparr> else b) ` g_rows g d"
      using b gorm_update [OF ok c [unfolded Inr]] c def by simp
    then obtain b0 where "b0 \<in> g_rows g d" "b = (if p b0 then b0\<lparr>Status := st\<rparr> else b0)" by blast
    then show ?thesis by (intro exI [of _ b0] exI [of _ "if p b0 then st else Status b0"]) simp
  qed
qed

text \<open>The row a request prepares is as good as the row it was read from.\<close>

lemma binding_inv_agree:
  "binding_inv g w \<Longrightarrow> row_ok (consents w \<union> (\<lambda>s. (c, i, t, s)) ` set scopes) (row_of x) \<Longrightarrow>
     binding_inv g (agree c i t scopes x w)"
  unfolding binding_inv_def agree_def by (auto intro: row_ok_mono)

lemma binding_inv_begin: "binding_inv g w \<Longrightarrow> row_ok (consents w) (row_of x) \<Longrightarrow> binding_inv g (begin_write x w)"
  by (auto simp: binding_inv_def begin_write_def)

text \<open>The steps keep the invariant.\<close>

lemma binding_inv_row:
  "gorm_ok g \<Longrightarrow> binding_inv g w \<Longrightarrow> GetBinding g k (db w) = Inr b \<Longrightarrow> row_ok (consents w) b"
  by (auto simp: binding_inv_def dest: GetBinding_row)

lemma binding_inv_active:
  "gorm_ok g \<Longrightarrow> binding_inv g w \<Longrightarrow> GetActiveBinding g i t (db w) = Inr b \<Longrightarrow> row_ok (consents w) b"
  by (auto simp: binding_inv_def dest: GetActiveBinding_row)

lemma request_row_ok:
  assumes "prepareRequestBinding g q n0 n orgID i t scopes policy d = Write x"
  shows "fst (evaluatePolicy q i t policy) \<Longrightarrow> row_ok (C \<union> (\<lambda>s. (PolicyApproved, i, t, s)) ` set scopes) (row_of x)"
    and "\<not> fst (evaluatePolicy q i t policy) \<Longrightarrow> row_ok C (row_of x)"
  using assms
  by (auto simp: prepareRequestBinding_def requested_row_def new_binding_def row_ok_def
      split: option.splits prod.splits dest!: request_checks_None)

lemma create_auto_row_ok:
  assumes "prepareCreateAutoBinding g n orgID i t scopes d = Write x"
  shows "row_ok (C \<union> (\<lambda>s. (SystemCreated, i, t, s)) ` set scopes) (row_of x)"
  using assms
  by (auto simp: prepareCreateAutoBinding_def new_binding_def row_ok_def split: option.splits dest!: request_checks_None)

lemma accept_row_ok:
  assumes "GetBinding g k d = Inr b" "row_ok C b" "prepareAcceptBinding g n k caller d = Write x"
  shows "row_ok (C \<union> (\<lambda>s. (Called caller, InitiatorPod b, TargetPod b, s)) ` set (PendingScopes b)) (row_of x)"
  using assms by (auto simp: prepareAcceptBinding_def respond_checks_def row_ok_def split: if_splits)

lemma reject_row_ok:
  assumes "\<And>b. GetBinding g k d = Inr b \<Longrightarrow> row_ok C b" "prepareRejectBinding g n k caller reason d = Write x"
  shows "row_ok C (row_of x)"
  using assms by (auto simp: prepareRejectBinding_def respond_checks_def row_ok_def split: if_splits sum.splits)

lemma unbind_row_ok:
  assumes "\<And>i t b. GetActiveBinding g i t d = Inr b \<Longrightarrow> row_ok C b" "prepareUnbind g i t d = Some b"
  shows "row_ok C b"
  using assms by (auto simp: prepareUnbind_def split: sum.splits)

lemma scopes_row_ok:
  assumes "GetBinding g k d = Inr b" "row_ok C b" "prepareRequestScopes g q k caller scopes d = Write x"
  shows "fst (evaluatePolicy q (InitiatorPod b) (TargetPod b) []) \<Longrightarrow>
      row_ok (C \<union> (\<lambda>s. (PolicyApproved, InitiatorPod b, TargetPod b, s)) ` set scopes) (row_of x)"
    and "\<not> fst (evaluatePolicy q (InitiatorPod b) (TargetPod b) []) \<Longrightarrow> row_ok C (row_of x)"
  using assms
  by (auto simp: prepareRequestScopes_def row_ok_def Let_def validateScopes_None split: if_splits option.splits)

lemma approve_row_ok:
  assumes "GetBinding g k d = Inr b" "row_ok C b" "prepareApproveScopes g k caller scopes d = Write x"
  shows "row_ok (C \<union> (\<lambda>s. (Called caller, InitiatorPod b, TargetPod b, s)) ` set scopes) (row_of x)"
  using assms
  by (auto simp: prepareApproveScopes_def row_ok_def Let_def HasPendingScope_def split: if_splits)

lemma binding_inv_finish:
  assumes "gorm_ok g" "binding_inv g w" "inflight w = xs @ x # ys"
  shows "binding_inv g (w\<lparr>db := fst (commit g x (db w)), inflight := xs @ ys\<rparr>)"
  using assms commit_rows [OF assms(1), of _ x "db w"] by (fastforce simp: binding_inv_def)

lemma binding_inv_cleanup:
  assumes "gorm_ok g" "binding_inv g w"
  shows "binding_inv g (w\<lparr>db := fst (CleanupExpiredBindings g n (db w))\<rparr>)"
  using assms cleanup_rows [OF assms(1), of _ n "db w"] by (fastforce simp: binding_inv_def)

lemma binding_inv_step:
  assumes step: "binding_step g w w'" and ok: "gorm_ok g" and inv: "binding_inv g w"
  shows "binding_inv g w'"
  using step
proof cases
  case (request_auto q n0 n orgID i t scopes policy x)
  show ?thesis unfolding request_auto(1)
    by (rule binding_inv_agree [OF inv request_row_ok(1) [OF request_auto(2,3)]])
next
  case (request_pending q n0 n orgID i t scopes policy x)
  show ?thesis unfolding request_pending(1)
    by (rule binding_inv_begin [OF inv request_row_ok(2) [OF request_pending(2,3)]])
next
  case (create_auto n orgID i t scopes x)
  show ?thesis unfolding create_auto(1)
    by (rule binding_inv_agree [OF inv create_auto_row_ok [OF create_auto(2)]])
next
  case (accept k b n caller x)
  show ?thesis unfolding accept(1)
    by (rule binding_inv_agree [OF inv accept_row_ok [OF accept(2) binding_inv_row [OF ok inv accept(2)] accept(3)]])
next
  case (reject n k caller reason x)
  show ?thesis unfolding reject(1)
    by (rule binding_inv_begin [OF inv reject_row_ok [OF binding_inv_row [OF ok inv] reject(2)]])
next
  case (unbind i t b)
  have "row_ok (consents w) b" by (rule unbind_row_ok [OF binding_inv_active [OF ok inv] unbind(2)])
  then show ?thesis using unbind(1) binding_inv_begin [OF inv, of "SaveRow b"] by simp
next
  case (scopes_auto k b q caller scopes x)
  note row = binding_inv_row [OF ok inv scopes_auto(2)]
  show ?thesis unfolding scopes_auto(1)
    by (rule binding_inv_agree [OF inv scopes_row_ok(1) [OF scopes_auto(2) row scopes_auto(3,4)]])
next
  case (scopes_pending k b q caller scopes x)
  note row = binding_inv_row [OF ok inv scopes_pending(2)]
  show ?thesis unfolding scopes_pending(1)
    by (rule binding_inv_begin [OF inv scopes_row_ok(2) [OF scopes_pending(2) row scopes_pending(3,4)]])
next
  case (approve k b caller scopes x)
  show ?thesis unfolding approve(1)
    by (rule binding_inv_agree [OF inv approve_row_ok [OF approve(2) binding_inv_row [OF ok inv approve(2)] approve(3)]])
next
  case (finish xs x ys)
  then show ?thesis using binding_inv_finish [OF ok inv] by simp
next
  case (cleanup n)
  then show ?thesis using binding_inv_cleanup [OF ok inv] by simp
qed

lemma binding_reachable:
  assumes "gorm_ok g" "binding_initial g w0" "(binding_step g)\<^sup>*\<^sup>* w0 w"
  shows "binding_inv g w"
proof (rule state_machine.inv_reachable [of "binding_initial g" "binding_step g", OF state_machine.intro assms(2,3)])
  show "binding_initial g s \<Longrightarrow> binding_inv g s" for s by (simp add: binding_initial_def binding_inv_def)
  show "binding_step g s s' \<Longrightarrow> binding_inv g s \<Longrightarrow> binding_inv g s'" for s s'
    by (rule binding_inv_step [OF _ assms(1)])
qed

lemma HasScope_True:
  assumes "gorm_ok g" "HasScope g i t s d = Inr True"
  obtains b where "b \<in> g_rows g d" "InitiatorPod b = i" "TargetPod b = t" "s \<in> set (GrantedScopes b)"
  using assms GetActiveBinding_row [OF assms(1), of i t d]
  by (auto simp: HasScope_def HasScope_binding_def split: sum.splits binding_error.splits)

section \<open>A table\<close>

text \<open>A table that meets the laws: the list of its rows.\<close>

definition next_ID :: "pod_binding list \<Rightarrow> int" where
  "next_ID d = foldr (\<lambda>b m. max (binding_ID b + 1) m) d 1"

definition list_gorm :: "pod_binding list gorm" where
  "list_gorm =
     \<lparr>g_rows = set,
      g_first = (\<lambda>p d. Inr (find p d)),
      g_find = (\<lambda>p d. Inr (filter p d)),
      g_create = (\<lambda>b d. let b' = b\<lparr>binding_ID := next_ID d\<rparr> in (d @ [b'], Inr b')),
      g_save = (\<lambda>b d. (filter (\<lambda>x. binding_ID x \<noteq> binding_ID b) d @ [b], None)),
      g_update = (\<lambda>p s d. (map (\<lambda>b. if p b then b\<lparr>Status := s\<rparr> else b) d, Inr (int (length (filter p d)))))\<rparr>"

lemma next_ID_fresh: "b \<in> set d \<Longrightarrow> binding_ID b < next_ID d"
  by (induction d) (auto simp: next_ID_def)

lemma list_gorm_ok: "gorm_ok list_gorm"
  unfolding gorm_ok_def list_gorm_def
  by (auto simp: Let_def find_Some_iff find_None_iff dest: next_ID_fresh intro!: exI [of _ "next_ID _"])

lemma list_gorm_simps [simp]:
  "g_rows list_gorm = set"
  "g_first list_gorm p d = Inr (find p d)"
  "g_find list_gorm p d = Inr (filter p d)"
  "g_create list_gorm b d = (d @ [b\<lparr>binding_ID := next_ID d\<rparr>], Inr (b\<lparr>binding_ID := next_ID d\<rparr>))"
  "g_save list_gorm b d = (filter (\<lambda>x. binding_ID x \<noteq> binding_ID b) d @ [b], None)"
  by (simp_all add: list_gorm_def Let_def)

lemmas binding_operations =
  next_ID_def commit_def run_def binding_Create_def binding_Save_def found_def GetBinding_def GetByID_def
  GetActiveBinding_def GetActive_def GetExistingBinding_def GetExisting_def validateScopes_def ValidBindingScopes_def
  request_checks_def respond_checks_def requested_row_def new_binding_def evaluatePolicy_def IsPending_def IsActive_def
  HasScope_def HasScope_binding_def HasPendingScope_def PendingExpiry_def binding_constants

section \<open>Properties\<close>

text \<open>
  C30. No scope without consent: whatever requests run and however they interleave, when \<open>HasScope\<close> says that a
  pod may use a scope on another pod, the scope is a valid one, the pods are different, and the target pod itself
  agreed to that scope for that pod, or the policy approved it, or the system created the binding with it.
\<close>

theorem scope_needs_consent:
  assumes "gorm_ok g" "binding_initial g w0" "(binding_step g)\<^sup>*\<^sup>* w0 w"
    and "HasScope g i t s (db w) = Inr True"
  shows "i \<noteq> t \<and> s \<in> set ValidBindingScopes \<and>
    (\<exists>c \<in> {Called t, PolicyApproved, SystemCreated}. (c, i, t, s) \<in> consents w)"
proof -
  obtain b where b: "b \<in> g_rows g (db w)" "InitiatorPod b = i" "TargetPod b = t" "s \<in> set (GrantedScopes b)"
    by (rule HasScope_True [OF assms(1,4)])
  then have "row_ok (consents w) b" using binding_reachable [OF assms(1-3)] by (simp add: binding_inv_def)
  then show ?thesis using b by (auto simp: row_ok_def)
qed

definition witness_request :: row_write where
  "witness_request = CreateRow (requested_row None 0 0 1 ''a'' ''b'' [''pod:read''] ''explicit_only'')"

definition witness_row :: pod_binding where
  "witness_row = (row_of witness_request)\<lparr>binding_ID := 1\<rparr>"

definition witness_accept :: row_write where
  "witness_accept = SaveRow (witness_row\<lparr>GrantedScopes := [''pod:read''], PendingScopes := [],
     Status := BindingStatusActive, RespondedAt := Some 5, ExpiresAt := None\<rparr>)"

lemmas witness_defs = witness_request_def witness_row_def witness_accept_def

lemma witness_run:
  "(binding_step list_gorm)\<^sup>*\<^sup>* \<lparr>db = [], inflight = [], consents = {}\<rparr>
     \<lparr>db = [row_of witness_accept], inflight = [], consents = {(Called ''b'', ''a'', ''b'', ''pod:read'')}\<rparr>"
proof -
  let ?w1 = "\<lparr>db = [], inflight = [witness_request], consents = {}\<rparr>"
  let ?w2 = "\<lparr>db = [witness_row], inflight = [], consents = {}\<rparr>"
  let ?w3 = "\<lparr>db = [witness_row], inflight = [witness_accept], consents = {(Called ''b'', ''a'', ''b'', ''pod:read'')}\<rparr>"
  have "binding_step list_gorm \<lparr>db = [], inflight = [], consents = {}\<rparr> ?w1"
    using request_pending [of list_gorm None 0 0 1 "''a''" "''b''" "[''pod:read'']" "''explicit_only''"
        "\<lparr>db = [], inflight = [], consents = {}\<rparr>" witness_request]
    by (simp add: prepareRequestBinding_def begin_write_def binding_operations witness_defs)
  moreover have "binding_step list_gorm ?w1 ?w2"
    using finish [of ?w1 "[]" witness_request "[]" list_gorm]
    by (simp add: binding_operations witness_defs)
  moreover have "binding_step list_gorm ?w2 ?w3"
    using accept [of list_gorm 1 ?w2 witness_row 5 "''b''" witness_accept]
    by (simp add: prepareAcceptBinding_def agree_def binding_operations witness_defs)
  moreover have "binding_step list_gorm ?w3
      \<lparr>db = [row_of witness_accept], inflight = [], consents = {(Called ''b'', ''a'', ''b'', ''pod:read'')}\<rparr>"
    using finish [of ?w3 "[]" witness_accept "[]" list_gorm]
    by (simp add: binding_operations witness_defs)
  ultimately show ?thesis by (meson converse_rtranclp_into_rtranclp rtranclp.rtrancl_refl)
qed

theorem scope_needs_consent_witness:
  "HasScope list_gorm ''a'' ''b'' ''pod:read'' [row_of witness_accept] = Inr True \<and>
   ''a'' \<noteq> ''b'' \<and> ''pod:read'' \<in> set ValidBindingScopes \<and>
   (\<exists>c \<in> {Called ''b'', PolicyApproved, SystemCreated}.
      (c, ''a'', ''b'', ''pod:read'') \<in> {(Called ''b'', ''a'', ''b'', ''pod:read'')})"
proof -
  have scope: "HasScope list_gorm ''a'' ''b'' ''pod:read'' [row_of witness_accept] = Inr True"
    by (simp add: binding_operations witness_defs)
  show ?thesis
    using scope_needs_consent [OF list_gorm_ok _ witness_run, of "''a''" "''b''" "''pod:read''"] scope
    by (simp add: binding_initial_def)
qed

section \<open>Where the code and its comments differ\<close>

text \<open>
  A request is given an expiry time, but \<open>AcceptBinding\<close> does not look at it: until \<open>CleanupExpiredBindings\<close> has
  run, which no code calls, a request of any age can be accepted.
\<close>

theorem expired_request_accepted:
  assumes "gorm_ok g" "GetBinding g k d = Inr b" "TargetPod b = caller" "IsPending b" "ExpiresAt b = Some e" "e < now"
  shows "prepareAcceptBinding g now k caller d = Write (SaveRow (b\<lparr>GrantedScopes := GrantedScopes b @ PendingScopes b,
    PendingScopes := [], Status := BindingStatusActive, RespondedAt := Some now, ExpiresAt := None\<rparr>))"
  using assms by (simp add: prepareAcceptBinding_def respond_checks_def)

text \<open>
  \<open>GetPodInfo\<close> has no field \<open>project_id\<close>, so the policy \<open>same_project_auto\<close> approves what \<open>same_user_auto\<close> approves
  and nothing more.
\<close>

theorem project_policy_never_approves:
  assumes "\<And>p. \<exists>c org tk st. q p = Inr (GetPodInfo c org tk st)"
  shows "evaluatePolicy (Some q) i t BindingPolicySameProjectAuto = evaluatePolicy (Some q) i t BindingPolicySameUserAuto"
proof -
  obtain c org tk st c' org' tk' st' where
    "q i = Inr (GetPodInfo c org tk st)" "q t = Inr (GetPodInfo c' org' tk' st')"
    using assms [of i] assms [of t] by blast
  then show ?thesis by (simp add: evaluatePolicy_def same_field_def GetPodInfo_def binding_constants)
qed

text \<open>
  An unbinding can be lost: \<open>ApproveScopes\<close> reads the row, \<open>Unbind\<close> reads and writes it, and then \<open>ApproveScopes\<close>
  writes back all the columns it read, the status among them. The binding is active again.
\<close>

theorem unbind_is_undone:
  defines "b \<equiv> (new_binding 1 ''a'' ''b'')\<lparr>binding_ID := 1, GrantedScopes := [''pod:read''],
      PendingScopes := [''pod:write''], Status := BindingStatusActive\<rparr>"
  shows "\<exists>x. prepareApproveScopes list_gorm 1 ''b'' [''pod:write''] [b] = Write x \<and>
    snd (Unbind list_gorm ''a'' ''b'' [b]) = Inr True \<and>
    HasScope list_gorm ''a'' ''b'' ''pod:read'' (fst (Unbind list_gorm ''a'' ''b'' [b])) = Inr False \<and>
    HasScope list_gorm ''a'' ''b'' ''pod:read'' (fst (commit list_gorm x (fst (Unbind list_gorm ''a'' ''b'' [b])))) = Inr True"
  by (simp add: b_def prepareApproveScopes_def prepareUnbind_def Unbind_def Let_def binding_operations)

text \<open>
  Two requests for the same pair of pods that both look for an existing binding before either creates one leave
  two rows in the table.
\<close>

theorem concurrent_requests_duplicate:
  defines "req \<equiv> \<lambda>d. prepareRequestBinding list_gorm None 0 0 1 ''a'' ''b'' [''pod:read''] [] d"
  shows "\<exists>x y. req [] = Write x \<and> req [] = Write y \<and>
    length (fst (commit list_gorm y (fst (commit list_gorm x [])))) = 2"
  by (simp add: req_def prepareRequestBinding_def binding_operations)

end
