(* ===== verification/Loop_Domain.thy ===== *)
theory Loop_Domain
  imports Go_Prelude
begin

text \<open>
  Loops (automated tasks that are run again and again) and their runs: the data of
  \<^verbatim>\<open>backend/internal/domain/loop\<close> and the parts of \<^verbatim>\<open>backend/internal/domain/agentpod\<close> it uses. Times are
  nanoseconds. JSON columns are kept as text.

  Once a run has a pod, its status follows from the pod and its autopilot: \<open>DeriveRunStatus\<close>.
\<close>

section \<open>Pods and autopilots\<close>

definition StatusInitializing :: string where "StatusInitializing = ''initializing''"
definition StatusRunning :: string where "StatusRunning = ''running''"
definition StatusPaused :: string where "StatusPaused = ''paused''"
definition StatusDisconnected :: string where "StatusDisconnected = ''disconnected''"
definition StatusOrphaned :: string where "StatusOrphaned = ''orphaned''"
definition StatusCompleted :: string where "StatusCompleted = ''completed''"
definition StatusTerminated :: string where "StatusTerminated = ''terminated''"
definition StatusError :: string where "StatusError = ''error''"

definition AgentStatusWaiting :: string where "AgentStatusWaiting = ''waiting''"

definition AutopilotPhaseWaitingApproval :: string where "AutopilotPhaseWaitingApproval = ''waiting_approval''"
definition AutopilotPhaseMaxIterations :: string where "AutopilotPhaseMaxIterations = ''max_iterations''"
definition AutopilotPhaseCompleted :: string where "AutopilotPhaseCompleted = ''completed''"
definition AutopilotPhaseFailed :: string where "AutopilotPhaseFailed = ''failed''"
definition AutopilotPhaseStopped :: string where "AutopilotPhaseStopped = ''stopped''"

lemmas pod_constants =
  StatusInitializing_def StatusRunning_def StatusPaused_def StatusDisconnected_def StatusOrphaned_def
  StatusCompleted_def StatusTerminated_def StatusError_def AgentStatusWaiting_def AutopilotPhaseWaitingApproval_def
  AutopilotPhaseMaxIterations_def AutopilotPhaseCompleted_def AutopilotPhaseFailed_def AutopilotPhaseStopped_def

definition ActiveStatuses :: "string list" where
  "ActiveStatuses = [StatusInitializing, StatusRunning, StatusPaused, StatusDisconnected]"

definition IsPodStatusActive :: "string \<Rightarrow> bool" where
  "IsPodStatusActive status \<longleftrightarrow> status = StatusRunning \<or> status = StatusInitializing \<or> status = StatusPaused \<or>
     status = StatusDisconnected"

definition IsPodStatusTerminal :: "string \<Rightarrow> bool" where
  "IsPodStatusTerminal status \<longleftrightarrow> status = StatusTerminated \<or> status = StatusOrphaned \<or> status = StatusError"

definition IsPodStatusFinished :: "string \<Rightarrow> bool" where
  "IsPodStatusFinished status \<longleftrightarrow> status = StatusCompleted \<or> IsPodStatusTerminal status"

definition IsAutopilotPhaseTerminal :: "string \<Rightarrow> bool" where
  "IsAutopilotPhaseTerminal phase \<longleftrightarrow> phase = AutopilotPhaseCompleted \<or> phase = AutopilotPhaseFailed \<or>
     phase = AutopilotPhaseStopped \<or> phase = AutopilotPhaseMaxIterations"

text \<open>The columns of a pod and of an autopilot controller that the loops read.\<close>

record pod_row =
  pod_PodKey :: string
  pod_Status :: string
  pod_FinishedAt :: "int option"
  pod_AgentStatus :: string
  pod_AgentWaitingSince :: "int option"

record autopilot_row =
  ap_Key :: string
  ap_PodKey :: string
  ap_OrganizationID :: int
  ap_Phase :: string
  ap_ApprovalRequestAt :: "int option"
  ap_ApprovalTimeoutMin :: int

section \<open>Loops\<close>

definition StatusEnabled :: string where "StatusEnabled = ''enabled''"
definition StatusDisabled :: string where "StatusDisabled = ''disabled''"
definition StatusArchived :: string where "StatusArchived = ''archived''"
definition ExecutionModeAutopilot :: string where "ExecutionModeAutopilot = ''autopilot''"
definition ExecutionModeDirect :: string where "ExecutionModeDirect = ''direct''"
definition SandboxStrategyPersistent :: string where "SandboxStrategyPersistent = ''persistent''"
definition SandboxStrategyFresh :: string where "SandboxStrategyFresh = ''fresh''"
definition ConcurrencyPolicySkip :: string where "ConcurrencyPolicySkip = ''skip''"
definition ConcurrencyPolicyQueue :: string where "ConcurrencyPolicyQueue = ''queue''"
definition ConcurrencyPolicyReplace :: string where "ConcurrencyPolicyReplace = ''replace''"

lemmas loop_constants =
  StatusEnabled_def StatusDisabled_def StatusArchived_def ExecutionModeAutopilot_def ExecutionModeDirect_def
  SandboxStrategyPersistent_def SandboxStrategyFresh_def ConcurrencyPolicySkip_def ConcurrencyPolicyQueue_def
  ConcurrencyPolicyReplace_def

text \<open>
  The columns that are only copied from a request into a loop and from there into the request for a pod are
  together in \<open>loop_settings\<close>.
\<close>

record loop_settings =
  Name :: string
  Description :: "string option"
  AgentTypeID :: "int option"
  CustomAgentTypeID :: "int option"
  RepositoryID :: "int option"
  BranchName :: "string option"
  CredentialProfileID :: "int option"
  ConfigOverrides :: string

record loop =
  loop_ID :: int
  loop_OrganizationID :: int
  Slug :: string
  settings :: loop_settings
  RunnerID :: "int option"
  PermissionMode :: string
  PromptTemplate :: string
  PromptVariables :: string
  TicketID :: "int option"
  ExecutionMode :: string
  CronExpression :: "string option"
  AutopilotConfig :: string
  CallbackURL :: "string option"
  loop_Status :: string
  SandboxStrategy :: string
  SessionPersistence :: bool
  ConcurrencyPolicy :: string
  MaxConcurrentRuns :: int
  MaxRetainedRuns :: int
  TimeoutMinutes :: int
  IdleTimeoutSec :: int
  SandboxPath :: "string option"
  LastPodKey :: "string option"
  CreatedByID :: int
  TotalRuns :: int
  SuccessfulRuns :: int
  FailedRuns :: int
  LastRunAt :: "int option"
  NextRunAt :: "int option"

definition IsEnabled :: "loop \<Rightarrow> bool" where
  "IsEnabled l \<longleftrightarrow> loop_Status l = StatusEnabled"

definition HasCron :: "loop \<Rightarrow> bool" where
  "HasCron l \<longleftrightarrow> (case CronExpression l of None \<Rightarrow> False | Some e \<Rightarrow> e \<noteq> [])"

definition IsAutopilot :: "loop \<Rightarrow> bool" where
  "IsAutopilot l \<longleftrightarrow> ExecutionMode l = ExecutionModeAutopilot"

definition IsPersistent :: "loop \<Rightarrow> bool" where
  "IsPersistent l \<longleftrightarrow> SandboxStrategy l = SandboxStrategyPersistent"

section \<open>Runs\<close>

definition RunStatusPending :: string where "RunStatusPending = ''pending''"
definition RunStatusRunning :: string where "RunStatusRunning = ''running''"
definition RunStatusCompleted :: string where "RunStatusCompleted = ''completed''"
definition RunStatusFailed :: string where "RunStatusFailed = ''failed''"
definition RunStatusTimeout :: string where "RunStatusTimeout = ''timeout''"
definition RunStatusCancelled :: string where "RunStatusCancelled = ''cancelled''"
definition RunStatusSkipped :: string where "RunStatusSkipped = ''skipped''"

lemmas run_constants =
  RunStatusPending_def RunStatusRunning_def RunStatusCompleted_def RunStatusFailed_def RunStatusTimeout_def
  RunStatusCancelled_def RunStatusSkipped_def

record loop_run =
  run_ID :: int
  run_OrganizationID :: int
  run_LoopID :: int
  RunNumber :: int
  run_Status :: string
  run_PodKey :: "string option"
  AutopilotControllerKey :: "string option"
  TriggerType :: string
  TriggerSource :: "string option"
  TriggerParams :: string
  ResolvedPrompt :: "string option"
  StartedAt :: "int option"
  run_FinishedAt :: "int option"
  DurationSec :: "int option"
  ErrorMessage :: "string option"
  run_CreatedAt :: int

definition isPodDoneForLoop :: "string \<Rightarrow> bool" where
  "isPodDoneForLoop podStatus \<longleftrightarrow> podStatus = StatusCompleted \<or> podStatus = StatusTerminated \<or> podStatus = StatusError"

definition deriveFromPodStatus :: "string \<Rightarrow> string" where
  "deriveFromPodStatus podStatus =
     (if podStatus = StatusCompleted then RunStatusCompleted
      else if podStatus = StatusTerminated then RunStatusCancelled
      else if podStatus = StatusError then RunStatusFailed
      else RunStatusFailed)"

definition DeriveRunStatus :: "string \<Rightarrow> string \<Rightarrow> string" where
  "DeriveRunStatus podStatus autopilotPhase =
     (if autopilotPhase \<noteq> []
      then if autopilotPhase = AutopilotPhaseCompleted then RunStatusCompleted
           else if autopilotPhase = AutopilotPhaseFailed then RunStatusFailed
           else if autopilotPhase = AutopilotPhaseStopped then RunStatusCancelled
           else if autopilotPhase = AutopilotPhaseMaxIterations then RunStatusCompleted
           else if isPodDoneForLoop podStatus then deriveFromPodStatus podStatus
           else RunStatusRunning
      else if isPodDoneForLoop podStatus then deriveFromPodStatus podStatus
      else RunStatusRunning)"

text \<open>
  \<open>int(d.Seconds())\<close>: whole seconds, towards zero. The code divides in floating point, which gives the same
  number for durations below \<open>2^22\<close> seconds (48 days).
\<close>

definition seconds_of :: "int \<Rightarrow> int" where
  "seconds_of d = (if d < 0 then - (- d div 10 ^ 9) else d div 10 ^ 9)"

definition ResolveStatus :: "string \<Rightarrow> string \<Rightarrow> int option \<Rightarrow> loop_run \<Rightarrow> loop_run" where
  "ResolveStatus podStatus autopilotPhase podFinishedAt r =
     (if run_PodKey r = None then r
      else let r = r\<lparr>run_Status := DeriveRunStatus podStatus autopilotPhase\<rparr>
           in case podFinishedAt of
                None \<Rightarrow> r
              | Some t \<Rightarrow>
                  (let r = r\<lparr>run_FinishedAt := Some t\<rparr>
                   in case StartedAt r of
                        None \<Rightarrow> r
                      | Some t0 \<Rightarrow> r\<lparr>DurationSec := Some (seconds_of (t - t0))\<rparr>))"

definition IsTerminal_run :: "loop_run \<Rightarrow> bool" where
  "IsTerminal_run r \<longleftrightarrow> run_Status r = RunStatusCompleted \<or> run_Status r = RunStatusFailed \<or>
     run_Status r = RunStatusTimeout \<or> run_Status r = RunStatusCancelled \<or> run_Status r = RunStatusSkipped"

definition IsActive_run :: "loop_run \<Rightarrow> bool" where
  "IsActive_run r \<longleftrightarrow> run_Status r = RunStatusPending \<or> run_Status r = RunStatusRunning"

section \<open>Lemmas\<close>

lemma ActiveStatuses_IsPodStatusActive: "status \<in> set ActiveStatuses \<longleftrightarrow> IsPodStatusActive status"
  by (auto simp: ActiveStatuses_def IsPodStatusActive_def)

lemma active_not_finished: "IsPodStatusActive status \<Longrightarrow> \<not> IsPodStatusFinished status"
  by (auto simp: IsPodStatusActive_def IsPodStatusFinished_def IsPodStatusTerminal_def pod_constants)

text \<open>A derived status is running, completed, failed or cancelled: never pending, timeout or skipped.\<close>

lemma DeriveRunStatus_range:
  "DeriveRunStatus p a \<in> {RunStatusRunning, RunStatusCompleted, RunStatusFailed, RunStatusCancelled}"
  by (simp add: DeriveRunStatus_def deriveFromPodStatus_def)

lemma DeriveRunStatus_running:
  "DeriveRunStatus p a = RunStatusRunning \<longleftrightarrow> \<not> IsAutopilotPhaseTerminal a \<and> \<not> isPodDoneForLoop p"
  by (auto simp: DeriveRunStatus_def deriveFromPodStatus_def IsAutopilotPhaseTerminal_def run_constants pod_constants)

lemma DeriveRunStatus_terminal_phase:
  "IsAutopilotPhaseTerminal a \<Longrightarrow> DeriveRunStatus p a = DeriveRunStatus q a"
  by (auto simp: DeriveRunStatus_def IsAutopilotPhaseTerminal_def pod_constants)

end
