(* ===== verification/Go_Tasks.thy ===== *)
theory Go_Tasks
  imports Go_Prelude "HOL-Library.Multiset"
begin

text \<open>
  Goroutines that share a store. A task is what is left of a goroutine: its next atomic access to the store, which
  may depend on an answer of the environment, and the tasks that follow. No task is a goroutine that has ended,
  two are a goroutine that has started another one. A pool of tasks runs in any order.

  The locale \<open>task_pool\<close> is the proof rule: if every goroutine can account for what it does with the resources it
  holds, whatever the others hold, then the store and the resources of all tasks agree in every reachable state.
\<close>

section \<open>Tasks\<close>

text \<open>What the environment answers to an access: an error, a result, or a panic of the called code.\<close>

datatype answer = Fails string | Returns string | Panics string

datatype 's task = Task "answer \<Rightarrow> 's \<Rightarrow> 's \<times> 's task list"

type_synonym 's goroutine = "'s task list"

text \<open>One access and what is done with its result.\<close>

definition access :: "(answer \<Rightarrow> 's \<Rightarrow> 's \<times> 'r) \<Rightarrow> ('r \<Rightarrow> 's goroutine) \<Rightarrow> 's goroutine" where
  "access f k = [Task (\<lambda>a s. case f a s of (s', r) \<Rightarrow> (s', k r))]"

text \<open>A goroutine that runs alone: \<open>as\<close> are the answers of the environment.\<close>

primrec run_task :: "'s task \<Rightarrow> (nat \<Rightarrow> answer) \<times> 's \<Rightarrow> (nat \<Rightarrow> answer) \<times> 's" where
  "run_task (Task f) = (\<lambda>(as, s).
     case map_prod id (map run_task) (f (as 0) s) of
       (s', gs) \<Rightarrow> foldl (\<lambda>st g. g st) (\<lambda>n. as (Suc n), s') gs)"

definition run_alone :: "'s goroutine \<Rightarrow> (nat \<Rightarrow> answer) \<times> 's \<Rightarrow> (nat \<Rightarrow> answer) \<times> 's" where
  "run_alone ts st = foldl (\<lambda>st g. g st) st (map run_task ts)"

abbreviation all_succeed :: "nat \<Rightarrow> answer" where
  "all_succeed \<equiv> \<lambda>_. Returns []"

lemma run_alone_Nil [simp]: "run_alone [] st = st"
  by (simp add: run_alone_def)

lemma run_alone_access [simp]:
  "run_alone (access f k) (as, s) =
     run_alone (k (snd (f (as 0) s))) (\<lambda>n. as (Suc n), fst (f (as 0) s))"
  by (simp add: run_alone_def access_def split: prod.splits)

lemma run_alone_append [simp]: "run_alone (p @ q) st = run_alone q (run_alone p st)"
  by (simp add: run_alone_def)

text \<open>
  The pool: a task is taken anywhere, the environment may change the store, and a goroutine of \<open>starts\<close> may begin
  at any time.
\<close>

inductive pool_step ::
  "'s goroutine set \<Rightarrow> ('s \<Rightarrow> 's \<Rightarrow> bool) \<Rightarrow> 's \<times> 's goroutine \<Rightarrow> 's \<times> 's goroutine \<Rightarrow> bool"
  for starts env where
  run: "pool_step starts env (s, xs @ Task f # ys) (fst (f a s), xs @ snd (f a s) @ ys)"
| start: "p \<in> starts \<Longrightarrow> pool_step starts env (s, ts) (s, ts @ p)"
| environment: "env s s' \<Longrightarrow> pool_step starts env (s, ts) (s', ts)"

text \<open>A goroutine that runs alone is one of the schedules.\<close>

lemma run_task_steps:
  "run_task t (as, s) = (as', s') \<Longrightarrow> (pool_step starts env)\<^sup>*\<^sup>* (s, xs @ t # ys) (s', xs @ ys)"
proof (induction t arbitrary: as s as' s' xs ys)
  case (Task f)
  have kids: "foldl (\<lambda>st g. g st) (bs, u) (map run_task ts) = (bs', u') \<Longrightarrow>
      (pool_step starts env)\<^sup>*\<^sup>* (u, xs @ ts @ ys) (u', xs @ ys)" if "set ts \<subseteq> set (snd (f (as 0) s))" for ts bs u bs' u'
    using that
  proof (induction ts arbitrary: bs u)
    case (Cons t ts)
    obtain bs1 u1 where t: "run_task t (bs, u) = (bs1, u1)" by fastforce
    have "(pool_step starts env)\<^sup>*\<^sup>* (u, xs @ t # (ts @ ys)) (u1, xs @ (ts @ ys))"
      by (rule Task.IH [of "f (as 0)" "f (as 0) s" "snd (f (as 0) s)" t, OF _ _ _ _ t]) (use Cons.prems(2) in \<open>auto simp: prod_set_defs\<close>)
    moreover have "(pool_step starts env)\<^sup>*\<^sup>* (u1, xs @ ts @ ys) (u', xs @ ys)"
      using Cons.IH [of bs1 u1] Cons.prems t by simp
    ultimately show ?case by simp
  qed simp
  obtain s1 ts where f: "f (as 0) s = (s1, ts)" by fastforce
  have "pool_step starts env (s, xs @ Task f # ys) (s1, xs @ ts @ ys)"
    using pool_step.run [of starts env s xs f ys "as 0"] f by simp
  moreover have "(pool_step starts env)\<^sup>*\<^sup>* (s1, xs @ ts @ ys) (s', xs @ ys)"
    using kids [of ts "\<lambda>n. as (Suc n)" s1 as' s'] Task.prems f by simp
  ultimately show ?case by (rule converse_rtranclp_into_rtranclp)
qed

lemma run_alone_steps:
  assumes "p \<in> starts" "snd (run_alone p (as, s)) = s'"
  shows "(pool_step starts env)\<^sup>*\<^sup>* (s, ts) (s', ts)"
proof -
  have "(pool_step starts env)\<^sup>*\<^sup>* (u, ts @ p) (snd (run_alone p (bs, u)), ts)" for p bs u
  proof (induction p arbitrary: bs u)
    case (Cons t p)
    obtain bs1 u1 where t: "run_task t (bs, u) = (bs1, u1)" by fastforce
    have "snd (run_alone (t # p) (bs, u)) = snd (run_alone p (bs1, u1))" by (simp add: run_alone_def t)
    then show ?case using rtranclp_trans [OF run_task_steps [OF t, of starts env ts p] Cons.IH [of u1 bs1]] by simp
  qed simp
  moreover have "pool_step starts env (s, ts) (s, ts @ p)" using assms(1) by (rule pool_step.start)
  ultimately show ?thesis using assms(2) converse_rtranclp_into_rtranclp [of "pool_step starts env"] by metis
qed

text \<open>
  A goroutine that is interrupted: \<open>run_for as\<close> runs as many accesses as there are answers.
\<close>

fun run_for :: "answer list \<Rightarrow> 's \<times> 's goroutine \<Rightarrow> 's \<times> 's goroutine" where
  "run_for (a # as) (s, Task f # ts) = run_for as (fst (f a s), snd (f a s) @ ts)"
| "run_for as c = c"

lemma run_for_access [simp]: "run_for (a # as) (s, access f k) = run_for as (fst (f a s), k (snd (f a s)))"
  by (simp add: access_def split: prod.splits)

lemma run_for_steps: "(pool_step starts env)\<^sup>*\<^sup>* c (run_for as c)"
proof (induction as c rule: run_for.induct)
  case (1 a as s f ts)
  have "pool_step starts env (s, [] @ Task f # ts) (fst (f a s), [] @ snd (f a s) @ ts)" by (rule pool_step.run)
  then show ?case using 1 by (simp add: converse_rtranclp_into_rtranclp)
qed simp_all

section \<open>Resources\<close>

text \<open>
  A task is safe with the resources \<open>R\<close> if, whatever else is held (\<open>F\<close>), its next access turns \<open>R\<close> into the
  resources of the tasks that follow.
\<close>

inductive safe :: "('s \<Rightarrow> 'r multiset \<Rightarrow> bool) \<Rightarrow> 'r multiset \<Rightarrow> 's task \<Rightarrow> bool" for ok where
  "(\<And>a s F. ok s (R + F) \<Longrightarrow>
      \<exists>Rs. list_all2 (safe ok) Rs (snd (f a s)) \<and> ok (fst (f a s)) (sum_list Rs + F)) \<Longrightarrow> safe ok R (Task f)"
  monos list.rel_mono

inductive_cases safeE: "safe ok R (Task f)"

text \<open>A goroutine may hold more than it needs.\<close>

definition safe_go :: "('s \<Rightarrow> 'r multiset \<Rightarrow> bool) \<Rightarrow> 'r multiset \<Rightarrow> 's goroutine \<Rightarrow> bool" where
  "safe_go ok R p \<longleftrightarrow> (\<exists>Rs. list_all2 (safe ok) Rs p \<and> sum_list Rs \<subseteq># R)"

lemma safe_go_Nil [simp]: "safe_go ok R []"
  by (simp add: safe_go_def)

lemma safe_go_mono: "safe_go ok R p \<Longrightarrow> R \<subseteq># R' \<Longrightarrow> safe_go ok R' p"
  unfolding safe_go_def using subset_mset.order_trans by blast

lemma safe_go_append: "safe_go ok R p \<Longrightarrow> safe_go ok R' q \<Longrightarrow> safe_go ok (R + R') (p @ q)"
  unfolding safe_go_def by (metis list_all2_appendI sum_list_append subset_mset.add_mono)

locale resources =
  fixes ok :: "'s \<Rightarrow> 'r multiset \<Rightarrow> bool"
  assumes weaken: "ok s (R + F) \<Longrightarrow> ok s F"
begin

lemma safe_access:
  assumes "\<And>a s F. ok s (R + F) \<Longrightarrow>
    \<exists>R'. safe_go ok R' (k (snd (f a s))) \<and> ok (fst (f a s)) (R' + F)"
  shows "safe_go ok R (access f k)"
proof -
  have "safe ok R (Task (\<lambda>a s. case f a s of (s', r) \<Rightarrow> (s', k r)))"
  proof (rule safe.intros)
    fix a s F
    assume "ok s (R + F)"
    then obtain R' where R': "safe_go ok R' (k (snd (f a s)))" "ok (fst (f a s)) (R' + F)" using assms by blast
    then obtain Rs D where Rs: "list_all2 (safe ok) Rs (k (snd (f a s)))" "R' = sum_list Rs + D"
      unfolding safe_go_def by (metis subset_mset.le_iff_add)
    then have "ok (fst (f a s)) (D + (sum_list Rs + F))" using R'(2) by (simp add: ac_simps)
    then have "ok (fst (f a s)) (sum_list Rs + F)" by (rule weaken)
    then show "\<exists>Rs. list_all2 (safe ok) Rs (snd (case f a s of (s', r) \<Rightarrow> (s', k r))) \<and>
        ok (fst (case f a s of (s', r) \<Rightarrow> (s', k r))) (sum_list Rs + F)"
      using Rs(1) by (auto split: prod.splits)
  qed
  then show ?thesis unfolding access_def safe_go_def by (intro exI [of _ "[R]"]) simp
qed

text \<open>An access that any resources survive.\<close>

lemma safe_neutral:
  assumes "\<And>a s R. ok s R \<Longrightarrow> ok (fst (f a s)) R" and "\<And>r. safe_go ok R (k r)"
  shows "safe_go ok R (access f k)"
  using assms by (intro safe_access) blast

end

locale task_pool = resources ok
  for ok :: "'s \<Rightarrow> 'r multiset \<Rightarrow> bool" +
  fixes starts :: "'s goroutine set"
    and env :: "'s \<Rightarrow> 's \<Rightarrow> bool"
  assumes start_safe: "p \<in> starts \<Longrightarrow> safe_go ok {#} p"
    and env_safe: "env s s' \<Longrightarrow> ok s R \<Longrightarrow> ok s' R"
begin

text \<open>\<open>F\<close> is what is held outside the pool; it is not lost.\<close>

lemma step_safe:
  assumes "pool_step starts env c c'" and "safe_go ok R (snd c)" "ok (fst c) (R + F)"
  shows "\<exists>R'. safe_go ok R' (snd c') \<and> ok (fst c') (R' + F)"
  using assms
proof (induction rule: pool_step.induct)
  case (run s xs f ys a)
  then obtain Rs D where Rs: "list_all2 (safe ok) Rs (xs @ Task f # ys)" "R = sum_list Rs + D"
    unfolding safe_go_def by (metis snd_conv subset_mset.le_iff_add)
  then obtain As B Bs where split: "Rs = As @ B # Bs" "list_all2 (safe ok) As xs" "safe ok B (Task f)"
      "list_all2 (safe ok) Bs ys"
    by (auto simp: list_all2_append2 list_all2_Cons2)
  have "ok s (D + (B + (sum_list As + sum_list Bs + F)))" using Rs(2) run(2) split(1) by (simp add: ac_simps)
  then have "ok s (B + (sum_list As + sum_list Bs + F))" by (rule weaken)
  then obtain Cs where Cs: "list_all2 (safe ok) Cs (snd (f a s))"
      "ok (fst (f a s)) (sum_list Cs + (sum_list As + sum_list Bs + F))"
    using safeE [OF split(3)] by metis
  have "list_all2 (safe ok) (As @ Cs @ Bs) (xs @ snd (f a s) @ ys)"
    using split(2,4) Cs(1) by (simp add: list_all2_appendI)
  then have "safe_go ok (sum_list Cs + (sum_list As + sum_list Bs)) (xs @ snd (f a s) @ ys)"
    unfolding safe_go_def by (intro exI [of _ "As @ Cs @ Bs"]) (simp add: ac_simps)
  then show ?case using Cs(2) by (auto simp: add.assoc)
next
  case (start p s ts)
  then show ?case using safe_go_append [of ok R ts "{#}" p] start_safe by auto
next
  case (environment s s' ts)
  then show ?case using env_safe by auto
qed

lemma steps_safe:
  assumes "(pool_step starts env)\<^sup>*\<^sup>* c c'" and "safe_go ok R (snd c)" "ok (fst c) (R + F)"
  shows "\<exists>R'. safe_go ok R' (snd c') \<and> ok (fst c') (R' + F)"
  using assms(1)
proof (induction rule: rtranclp_induct)
  case base
  show ?case using assms(2,3) by blast
next
  case (step c' c'')
  then show ?case using step_safe by blast
qed

lemma reachable_safe:
  assumes "(pool_step starts env)\<^sup>*\<^sup>* (s0, []) (s, ts)" and "ok s0 {#}"
  shows "\<exists>R. safe_go ok R ts \<and> ok s R"
  using steps_safe [OF assms(1), of "{#}" "{#}"] assms(2) by simp

lemma reachable_ok:
  assumes "(pool_step starts env)\<^sup>*\<^sup>* (s0, []) (s, ts)" and "ok s0 {#}"
  shows "ok s {#}"
  using reachable_safe [OF assms] weaken [of s _ "{#}"] by auto

end

end
