(* ===== verification/Loop_Store.thy ===== *)
theory Loop_Store
  imports Loop_Domain Go_Tasks
begin

text \<open>
  The tables behind the loops and the statements of \<^verbatim>\<open>backend/internal/infra/loop_repo.go\<close> and
  \<^verbatim>\<open>loop_run_repo.go\<close>. A table is the list of its rows in the order of their keys, and a statement means what its SQL
  says. Every statement can fail, which the answer of the environment decides; a failed statement, or a
  transaction in which a statement fails, changes nothing. A transaction that locks the row of the loop is one
  access.

  The fields from \<open>published\<close> on are not in the database: they record what the code told the rest of the system,
  and the history of the runs (\<open>born\<close>: the run, its loop and its number, \<open>ended\<close>: the loop,
  the run and the outcome).
\<close>

section \<open>The tables\<close>

definition default :: "string \<Rightarrow> string \<Rightarrow> string" where
  "default d s = (if s = [] then d else s)"

datatype loop_error = ErrNotFound | ErrDisabled | ErrActiveRuns | DbError string

datatype event_type = EventLoopRunStarted | EventLoopRunCompleted | EventLoopRunFailed | EventLoopRunWarning

text \<open>The request for a pod; what is copied from the loop is read from \<open>req_loop\<close>.\<close>

record pod_request =
  req_loop :: loop
  req_UserID :: int
  req_RunnerID :: int
  req_InitialPrompt :: string
  req_PermissionMode :: string
  req_SourcePodKey :: string
  req_ResumeAgentSession :: "bool option"

record loop_db =
  loops :: "loop list"
  loop_runs :: "loop_run list"
  pods :: "pod_row list"
  autopilots :: "autopilot_row list"
  next_run_ID :: int
  clock :: int
  published :: "(event_type \<times> int) list"
  terminations :: "string list"
  pod_requests :: "pod_request list"
  callbacks :: "(string \<times> int \<times> string) list"
  comments :: "(int \<times> int \<times> string) list"
  born :: "(int \<times> int \<times> int) list"
  ended :: "(int \<times> int \<times> string) list"

definition query :: "(loop_db \<Rightarrow> loop_error + 'r) \<Rightarrow> answer \<Rightarrow> loop_db \<Rightarrow> loop_db \<times> (loop_error + 'r)" where
  "query q a d = (case a of Returns _ \<Rightarrow> (d, q d) | Fails e \<Rightarrow> (d, Inl (DbError e)) | Panics e \<Rightarrow> (d, Inl (DbError e)))"

definition execute :: "(loop_db \<Rightarrow> loop_db \<times> (loop_error + 'r)) \<Rightarrow> answer \<Rightarrow> loop_db \<Rightarrow> loop_db \<times> (loop_error + 'r)" where
  "execute f a d = (case a of Returns _ \<Rightarrow> f d | Fails e \<Rightarrow> (d, Inl (DbError e)) | Panics e \<Rightarrow> (d, Inl (DbError e)))"

definition first_row :: "('a \<Rightarrow> bool) \<Rightarrow> 'a list \<Rightarrow> loop_error + 'a" where
  "first_row p xs = (case find p xs of None \<Rightarrow> Inl ErrNotFound | Some x \<Rightarrow> Inr x)"

definition in_orgs :: "int list \<Rightarrow> int \<Rightarrow> bool" where
  "in_orgs orgIDs org \<longleftrightarrow> orgIDs = [] \<or> org \<in> set orgIDs"

text \<open>\<open>LEFT JOIN pods ON pods.pod_key = loop_runs.pod_key\<close>: the pods of a run, \<open>NULL\<close> when there is none.\<close>

definition join_pods :: "loop_db \<Rightarrow> loop_run \<Rightarrow> pod_row option list" where
  "join_pods d r =
     (case filter (\<lambda>p. run_PodKey r = Some (pod_PodKey p)) (pods d) of
        [] \<Rightarrow> [None]
      | ps \<Rightarrow> map Some ps)"

section \<open>Runs\<close>

definition run_GetByID :: "int \<Rightarrow> loop_db \<Rightarrow> loop_error + loop_run" where
  "run_GetByID i d = first_row (\<lambda>r. run_ID r = i) (loop_runs d)"

definition run_Update :: "int \<Rightarrow> (loop_run \<Rightarrow> loop_run) \<Rightarrow> loop_db \<Rightarrow> loop_db \<times> (loop_error + unit)" where
  "run_Update runID upd d =
     (d\<lparr>loop_runs := map (\<lambda>r. if run_ID r = runID then upd r else r) (loop_runs d)\<rparr>, Inr ())"

definition unfinished :: "int \<Rightarrow> loop_run \<Rightarrow> bool" where
  "unfinished runID r \<longleftrightarrow> run_ID r = runID \<and> run_FinishedAt r = None"

definition FinishRun :: "int \<Rightarrow> (loop_run \<Rightarrow> loop_run) \<Rightarrow> loop_db \<Rightarrow> loop_db \<times> (loop_error + bool)" where
  "FinishRun runID upd d =
     (let rows = filter (unfinished runID) (loop_runs d)
      in (d\<lparr>loop_runs := map (\<lambda>r. if unfinished runID r then upd r else r) (loop_runs d),
            ended := ended d @ map (\<lambda>r. (run_LoopID r, run_ID r, run_Status (upd r))) rows\<rparr>,
          Inr (rows \<noteq> [])))"

definition GetMaxRunNumber :: "int \<Rightarrow> loop_db \<Rightarrow> int" where
  "GetMaxRunNumber loopID d =
     (let ns = map RunNumber (filter (\<lambda>r. run_LoopID r = loopID) (loop_runs d))
      in if ns = [] then 0 else Max (set ns))"

definition GetByAutopilotKey :: "string \<Rightarrow> loop_db \<Rightarrow> loop_error + loop_run" where
  "GetByAutopilotKey k d =
     first_row (\<lambda>r. AutopilotControllerKey r = Some k \<and> run_FinishedAt r = None) (loop_runs d)"

definition GetActiveRunByPodKey :: "string \<Rightarrow> loop_db \<Rightarrow> loop_error + loop_run" where
  "GetActiveRunByPodKey k d = first_row (\<lambda>r. run_PodKey r = Some k \<and> run_FinishedAt r = None) (loop_runs d)"

text \<open>The condition \<open>CountActiveRuns\<close>, \<open>CountActiveRunsByLoopIDs\<close> and \<open>TriggerRunAtomic\<close> put on a joined row.\<close>

definition counts_active :: "loop_run \<Rightarrow> pod_row option \<Rightarrow> bool" where
  "counts_active r p \<longleftrightarrow> (run_PodKey r = None \<and> run_Status r = RunStatusPending) \<or>
     (run_PodKey r \<noteq> None \<and> (case p of None \<Rightarrow> False | Some p \<Rightarrow> pod_Status p \<in> set ActiveStatuses))"

definition CountActiveRuns :: "int \<Rightarrow> loop_db \<Rightarrow> int" where
  "CountActiveRuns loopID d =
     (\<Sum>r \<leftarrow> filter (\<lambda>r. run_LoopID r = loopID) (loop_runs d). int (length (filter (counts_active r) (join_pods d r))))"

definition CountActiveRunsByLoopIDs :: "int list \<Rightarrow> loop_db \<Rightarrow> (int \<times> int) list" where
  "CountActiveRunsByLoopIDs loopIDs d =
     filter (\<lambda>(i, n). n > 0) (map (\<lambda>i. (i, CountActiveRuns i d)) (remdups loopIDs))"

definition minutes :: "int \<Rightarrow> int" where
  "minutes n = n * 60 * 10 ^ 9"

definition GetTimedOutRuns :: "int list \<Rightarrow> loop_db \<Rightarrow> loop_run list" where
  "GetTimedOutRuns orgIDs d =
     [r. r \<leftarrow> loop_runs d, l \<leftarrow> loops d, p \<leftarrow> join_pods d r,
       loop_ID l = run_LoopID r \<and> run_PodKey r \<noteq> None \<and> run_FinishedAt r = None \<and>
       (case p of None \<Rightarrow> False | Some p \<Rightarrow> pod_Status p \<in> {StatusInitializing, StatusRunning, StatusPaused}) \<and>
       (case StartedAt r of None \<Rightarrow> False | Some t \<Rightarrow> t < clock d - minutes (TimeoutMinutes l)) \<and>
       in_orgs orgIDs (run_OrganizationID r)]"

definition GetOrphanPendingRuns :: "int list \<Rightarrow> loop_db \<Rightarrow> loop_run list" where
  "GetOrphanPendingRuns orgIDs d =
     filter (\<lambda>r. run_PodKey r = None \<and> run_Status r = RunStatusPending \<and> run_FinishedAt r = None \<and>
       run_CreatedAt r < clock d - minutes 5 \<and> in_orgs orgIDs (run_OrganizationID r)) (loop_runs d)"

definition GetIdleLoopPods :: "int list \<Rightarrow> loop_db \<Rightarrow> loop_run list" where
  "GetIdleLoopPods orgIDs d =
     [r. r \<leftarrow> loop_runs d, l \<leftarrow> loops d, p \<leftarrow> pods d,
       loop_ID l = run_LoopID r \<and> run_PodKey r = Some (pod_PodKey p) \<and> run_FinishedAt r = None \<and>
       pod_Status p = StatusRunning \<and> pod_AgentStatus p = AgentStatusWaiting \<and> IdleTimeoutSec l > 0 \<and>
       (case pod_AgentWaitingSince p of None \<Rightarrow> False | Some t \<Rightarrow> t < clock d - IdleTimeoutSec l * 10 ^ 9) \<and>
       in_orgs orgIDs (run_OrganizationID r)]"

text \<open>
  \<open>LEFT JOIN autopilot_controllers\<close>; the condition \<open>counts_failed\<close> is the one of the statement and of the switch.
\<close>

definition join_phases :: "loop_db \<Rightarrow> loop_run \<Rightarrow> string option list" where
  "join_phases d r =
     (case filter (\<lambda>c. AutopilotControllerKey r = Some (ap_Key c)) (autopilots d) of
        [] \<Rightarrow> [None]
      | cs \<Rightarrow> map (Some \<circ> ap_Phase) cs)"

definition counts_failed :: "string \<Rightarrow> bool" where
  "counts_failed status \<longleftrightarrow> status \<in> {RunStatusFailed, RunStatusTimeout, RunStatusCancelled}"

definition effective_status :: "loop_run \<Rightarrow> pod_row option \<Rightarrow> string option \<Rightarrow> string" where
  "effective_status r p phase =
     (if run_PodKey r = None then run_Status r
      else DeriveRunStatus (case p of None \<Rightarrow> [] | Some p \<Rightarrow> pod_Status p) (case phase of None \<Rightarrow> [] | Some f \<Rightarrow> f))"

definition ComputeLoopStats :: "int \<Rightarrow> loop_db \<Rightarrow> int \<times> int \<times> int" where
  "ComputeLoopStats loopID d =
     (let finished = [run_Status r. r \<leftarrow> loop_runs d, run_LoopID r = loopID \<and> run_FinishedAt r \<noteq> None];
          active = [effective_status r p phase. r \<leftarrow> loop_runs d, p \<leftarrow> join_pods d r, phase \<leftarrow> join_phases d r,
                     run_LoopID r = loopID \<and> run_FinishedAt r = None];
          count = (\<lambda>f. int (length (filter f finished)) + int (length (filter f active)))
      in (count (\<lambda>_. True), count (\<lambda>st. st = RunStatusCompleted), count counts_failed))"

definition GetLatestPodKey :: "int \<Rightarrow> loop_db \<Rightarrow> string option" where
  "GetLatestPodKey loopID d =
     (case filter (\<lambda>r. run_LoopID r = loopID \<and> run_PodKey r \<noteq> None) (rev (loop_runs d)) of
        [] \<Rightarrow> None
      | r # _ \<Rightarrow> if run_PodKey r = Some [] then None else run_PodKey r)"

definition BatchGetPodStatuses :: "string list \<Rightarrow> loop_db \<Rightarrow> pod_row list" where
  "BatchGetPodStatuses podKeys d = filter (\<lambda>p. pod_PodKey p \<in> set podKeys) (pods d)"

definition BatchGetAutopilotPhases :: "string list \<Rightarrow> loop_db \<Rightarrow> (string \<times> string) list" where
  "BatchGetAutopilotPhases autopilotKeys d =
     [(ap_Key c, ap_Phase c). c \<leftarrow> autopilots d, ap_Key c \<in> set autopilotKeys]"

text \<open>The finished runs of a loop with the largest keys.\<close>

definition newest_finished :: "int \<Rightarrow> int \<Rightarrow> loop_db \<Rightarrow> int list" where
  "newest_finished loopID keep d =
     take (nat keep) (rev (sort [run_ID r. r \<leftarrow> loop_runs d, run_LoopID r = loopID \<and> run_FinishedAt r \<noteq> None]))"

definition DeleteOldFinishedRuns :: "int \<Rightarrow> int \<Rightarrow> loop_db \<Rightarrow> loop_db \<times> (loop_error + int)" where
  "DeleteOldFinishedRuns loopID keep d =
     (if keep \<le> 0 then (d, Inr 0)
      else let old = (\<lambda>r. run_LoopID r = loopID \<and> run_FinishedAt r \<noteq> None \<and> run_ID r \<notin> set (newest_finished loopID keep d))
           in (d\<lparr>loop_runs := filter (\<lambda>r. \<not> old r) (loop_runs d)\<rparr>, Inr (int (length (filter old (loop_runs d))))))"

section \<open>Loops\<close>

definition loop_GetByID :: "int \<Rightarrow> loop_db \<Rightarrow> loop_error + loop" where
  "loop_GetByID i d = first_row (\<lambda>l. loop_ID l = i) (loops d)"

definition loop_Update :: "int \<Rightarrow> (loop \<Rightarrow> loop) \<Rightarrow> loop_db \<Rightarrow> loop_db \<times> (loop_error + unit)" where
  "loop_Update i upd d = (d\<lparr>loops := map (\<lambda>l. if loop_ID l = i then upd l else l) (loops d)\<rparr>, Inr ())"

definition count_run :: "string \<Rightarrow> int \<Rightarrow> loop \<Rightarrow> loop" where
  "count_run status lastRunAt l =
     l\<lparr>TotalRuns := TotalRuns l + 1, LastRunAt := Some lastRunAt,
       SuccessfulRuns := SuccessfulRuns l + (if status = RunStatusCompleted then 1 else 0),
       FailedRuns := FailedRuns l + (if counts_failed status then 1 else 0)\<rparr>"

definition IncrementRunStats :: "int \<Rightarrow> string \<Rightarrow> int \<Rightarrow> loop_db \<Rightarrow> loop_db \<times> (loop_error + unit)" where
  "IncrementRunStats loopID status lastRunAt d = loop_Update loopID (count_run status lastRunAt) d"

text \<open>A loop whose cron time has come.\<close>

definition cron_due :: "int \<Rightarrow> loop \<Rightarrow> bool" where
  "cron_due now l \<longleftrightarrow> loop_Status l = StatusEnabled \<and> HasCron l \<and>
     (case NextRunAt l of None \<Rightarrow> False | Some t \<Rightarrow> t \<le> now)"

definition GetDueCronLoops :: "int list \<Rightarrow> loop_db \<Rightarrow> loop list" where
  "GetDueCronLoops orgIDs d = filter (\<lambda>l. cron_due (clock d) l \<and> in_orgs orgIDs (loop_OrganizationID l)) (loops d)"

definition FindLoopsNeedingNextRun :: "int list \<Rightarrow> loop_db \<Rightarrow> loop list" where
  "FindLoopsNeedingNextRun orgIDs d =
     filter (\<lambda>l. loop_Status l = StatusEnabled \<and> HasCron l \<and> NextRunAt l = None \<and>
       in_orgs orgIDs (loop_OrganizationID l)) (loops d)"

text \<open>
  \<open>Fails\<close> is a row that another transaction has locked or a lookup that failed: nothing is claimed. \<open>Panics\<close> is a
  transaction that cannot be committed.
\<close>

definition ClaimCronLoop :: "int \<Rightarrow> int option \<Rightarrow> answer \<Rightarrow> loop_db \<Rightarrow> loop_db \<times> (loop_error + bool)" where
  "ClaimCronLoop loopID nextRunAt a d =
     (case a of
        Fails _ \<Rightarrow> (d, Inr False)
      | Panics e \<Rightarrow> (d, Inl (DbError e))
      | Returns _ \<Rightarrow>
          if \<exists>l \<in> set (loops d). loop_ID l = loopID \<and> cron_due (clock d) l
          then let t = (case nextRunAt of Some t \<Rightarrow> t | None \<Rightarrow> clock d + minutes 60)
               in (fst (loop_Update loopID (\<lambda>l. l\<lparr>NextRunAt := Some t\<rparr>) d), Inr True)
          else (d, Inr False))"

text \<open>
  The statements of \<open>Delete\<close>: a loop without a run under way, the number of loops with a slug, and the deletion of
  the runs and of the loop. The transaction does not lock the loop, so other transactions commit between its
  statements. The runs a \<open>DELETE\<close> removes are those it found, although the removal takes effect with the commit.
\<close>

definition deletable :: "int \<Rightarrow> string \<Rightarrow> loop_db \<Rightarrow> loop_error + loop" where
  "deletable orgID slug d =
     first_row (\<lambda>l. loop_OrganizationID l = orgID \<and> Slug l = slug \<and>
       \<not> (\<exists>r \<in> set (loop_runs d). run_LoopID r = loop_ID l \<and>
           run_Status r \<in> {RunStatusPending, RunStatusRunning} \<and> run_FinishedAt r = None)) (loops d)"

definition count_slug :: "int \<Rightarrow> string \<Rightarrow> loop_db \<Rightarrow> loop_error + int" where
  "count_slug orgID slug d = Inr (int (length (filter (\<lambda>l. loop_OrganizationID l = orgID \<and> Slug l = slug) (loops d))))"

definition runs_of_loop :: "int \<Rightarrow> loop_db \<Rightarrow> loop_error + int list" where
  "runs_of_loop loopID d = Inr (map run_ID (filter (\<lambda>r. run_LoopID r = loopID) (loop_runs d)))"

definition delete_rows :: "int \<Rightarrow> int list \<Rightarrow> loop_db \<Rightarrow> loop_db \<times> (loop_error + int)" where
  "delete_rows loopID runIDs d =
     (d\<lparr>loops := filter (\<lambda>x. loop_ID x \<noteq> loopID) (loops d),
        loop_runs := filter (\<lambda>r. \<not> (run_LoopID r = loopID \<and> run_ID r \<in> set runIDs)) (loop_runs d)\<rparr>, Inr 1)"

section \<open>Triggering a run\<close>

record trigger_params =
  tp_LoopID :: int
  tp_TriggerType :: string
  tp_TriggerSource :: string
  tp_TriggerParams :: string

record trigger_result =
  tr_Run :: loop_run
  tr_Loop :: loop
  Skipped :: bool
  Reason :: string

text \<open>A new row; a column without a value takes the default of its \<open>gorm\<close> tag.\<close>

definition new_run :: "loop \<Rightarrow> trigger_params \<Rightarrow> loop_db \<Rightarrow> loop_run" where
  "new_run l params d =
     \<lparr>run_ID = next_run_ID d, run_OrganizationID = loop_OrganizationID l, run_LoopID = loop_ID l,
      RunNumber = GetMaxRunNumber (loop_ID l) d + 1, run_Status = RunStatusPending, run_PodKey = None,
      AutopilotControllerKey = None, TriggerType = tp_TriggerType params,
      TriggerSource = Some (tp_TriggerSource params), TriggerParams = default ''{}'' (tp_TriggerParams params),
      ResolvedPrompt = Some (PromptTemplate l), StartedAt = Some (clock d), run_FinishedAt = None, DurationSec = None,
      ErrorMessage = None, run_CreatedAt = clock d\<rparr>"

definition skipped_run :: "loop \<Rightarrow> trigger_params \<Rightarrow> loop_db \<Rightarrow> loop_run" where
  "skipped_run l params d =
     (new_run l params d)\<lparr>run_Status := RunStatusSkipped, TriggerParams := ''{}'', ResolvedPrompt := None,
       StartedAt := None, run_FinishedAt := Some (clock d)\<rparr>"

definition insert_run :: "loop_run \<Rightarrow> loop_db \<Rightarrow> loop_db" where
  "insert_run r d =
     d\<lparr>loop_runs := loop_runs d @ [r], next_run_ID := next_run_ID d + 1, 
       born := born d @ [(run_ID r, run_LoopID r, RunNumber r)],
       ended := ended d @ (if run_FinishedAt r = None then [] else [(run_LoopID r, run_ID r, run_Status r)])\<rparr>"

definition handleConcurrencyPolicy :: "loop \<Rightarrow> trigger_params \<Rightarrow> loop_db \<Rightarrow> loop_db \<times> (loop_error + trigger_result)" where
  "handleConcurrencyPolicy l params d =
     (let r = skipped_run l params d;
          reason = (if ConcurrencyPolicy l = ConcurrencyPolicyQueue then ''queued (not yet implemented)''
                    else if ConcurrencyPolicy l = ConcurrencyPolicyReplace then ''replace (not yet implemented)''
                    else ''max concurrent runs reached'')
      in (insert_run r d, Inr \<lparr>tr_Run = r, tr_Loop = l, Skipped = True, Reason = reason\<rparr>))"

definition TriggerRunAtomic :: "trigger_params \<Rightarrow> loop_db \<Rightarrow> loop_db \<times> (loop_error + trigger_result)" where
  "TriggerRunAtomic params d =
     (case loop_GetByID (tp_LoopID params) d of
        Inl e \<Rightarrow> (d, Inl e)
      | Inr l \<Rightarrow>
          if \<not> IsEnabled l then (d, Inl ErrDisabled)
          else if CountActiveRuns (loop_ID l) d \<ge> MaxConcurrentRuns l then handleConcurrencyPolicy l params d
          else let r = new_run l params d
               in (insert_run r d, Inr \<lparr>tr_Run = r, tr_Loop = l, Skipped = False, Reason = []\<rparr>))"

end
