(* ===== verification/Loop_Orchestrator.thy ===== *)
theory Loop_Orchestrator
  imports Loop_Store "HOL-Library.AList"
begin

text \<open>
  The services of \<^verbatim>\<open>backend/internal/service/loop\<close>: \<open>LoopRunService\<close>, \<open>LoopOrchestrator\<close> and \<open>LoopScheduler\<close>, the
  subscriptions of \<^verbatim>\<open>backend/cmd/server/eventbus_loop.go\<close> and the request that cancels a run. Each method is a
  goroutine in the sense of \<open>Go_Tasks\<close>, with the rest of the computation as its last argument: between any two
  statements other goroutines may run, on this server or another one.

  Parameters: the JSON decoder and the order in which Go goes through a map (\<open>vars_of\<close>), the cron parser
  (\<open>next_run\<close>), and the answers of the pod orchestrator, the autopilot service and the pod coordinator, which are
  other parts of the backend. What they do to pods and autopilots later is the environment of the pool.
\<close>

section \<open>Dependencies\<close>

text \<open>Which of the injected dependencies are there.\<close>

record dependencies =
  has_eventBus :: bool
  has_podOrchestrator :: bool
  has_autopilotSvc :: bool
  has_podTerminator :: bool
  has_ticketService :: bool

type_synonym go = "loop_db goroutine"

definition time_Now :: "(int \<Rightarrow> go) \<Rightarrow> go" where
  "time_Now k = access (\<lambda>a d. (d, clock d)) k"

definition publishRunEvent :: "dependencies \<Rightarrow> event_type \<Rightarrow> loop_run \<Rightarrow> go \<Rightarrow> go" where
  "publishRunEvent deps eventType r k =
     (if has_eventBus deps
      then access (\<lambda>a d. (d\<lparr>published := published d @ [(eventType, run_ID r)]\<rparr>, ())) (\<lambda>_. k)
      else k)"

definition TerminatePod :: "string \<Rightarrow> (loop_error + unit \<Rightarrow> go) \<Rightarrow> go" where
  "TerminatePod podKey k = access (execute (\<lambda>d. (d\<lparr>terminations := terminations d @ [podKey]\<rparr>, Inr ()))) k"

definition terminate_if_any :: "dependencies \<Rightarrow> string option \<Rightarrow> go \<Rightarrow> go" where
  "terminate_if_any deps podKey k =
     (case podKey of
        Some key \<Rightarrow> if has_podTerminator deps then TerminatePod key (\<lambda>_. k) else k
      | None \<Rightarrow> k)"

section \<open>Reading runs\<close>

definition resolve_one :: "pod_row list \<Rightarrow> (string \<times> string) list \<Rightarrow> loop_run \<Rightarrow> loop_run" where
  "resolve_one podInfos phases r =
     (case run_PodKey r of
        None \<Rightarrow> r
      | Some key \<Rightarrow>
          if run_FinishedAt r \<noteq> None then r
          else case map_of (rev (map (\<lambda>p. (pod_PodKey p, p)) podInfos)) key of
                 None \<Rightarrow> r\<lparr>run_Status := RunStatusFailed\<rparr>
               | Some p \<Rightarrow>
                   let phase = (case AutopilotControllerKey r of
                                  None \<Rightarrow> []
                                | Some ak \<Rightarrow> (case map_of (rev phases) ak of None \<Rightarrow> [] | Some f \<Rightarrow> f))
                   in ResolveStatus (pod_Status p) phase (pod_FinishedAt p) r)"

text \<open>A lookup that failed leaves the list empty.\<close>

definition or_empty :: "loop_error + 'a list \<Rightarrow> 'a list" where
  "or_empty r = (case r of Inl _ \<Rightarrow> [] | Inr xs \<Rightarrow> xs)"

definition resolveRunStatuses :: "loop_run list \<Rightarrow> (loop_run list \<Rightarrow> go) \<Rightarrow> go" where
  "resolveRunStatuses runs k =
     (let podKeys = List.map_filter run_PodKey runs;
          autopilotKeys = List.map_filter AutopilotControllerKey runs
      in if podKeys = [] then k runs
         else access (query (\<lambda>d. Inr (BatchGetPodStatuses podKeys d))) (\<lambda>p.
              if autopilotKeys = [] then k (map (resolve_one (or_empty p) []) runs)
              else access (query (\<lambda>d. Inr (BatchGetAutopilotPhases autopilotKeys d))) (\<lambda>m.
                   k (map (resolve_one (or_empty p) (or_empty m)) runs))))"

definition resolveRunStatus :: "loop_run \<Rightarrow> (loop_run \<Rightarrow> go) \<Rightarrow> go" where
  "resolveRunStatus r k = (if run_PodKey r = None then k r else resolveRunStatuses [r] (\<lambda>rs. k (hd rs)))"

definition GetRun :: "int \<Rightarrow> (loop_error + loop_run \<Rightarrow> go) \<Rightarrow> go" where
  "GetRun runID k =
     access (query (run_GetByID runID)) (\<lambda>r.
       case r of Inl e \<Rightarrow> k (Inl e) | Inr run \<Rightarrow> resolveRunStatus run (\<lambda>run. k (Inr run)))"

definition GetAutopilotPhase :: "string \<Rightarrow> (string \<Rightarrow> go) \<Rightarrow> go" where
  "GetAutopilotPhase key k =
     access (query (\<lambda>d. Inr (BatchGetAutopilotPhases [key] d))) (\<lambda>m.
       k (case map_of (rev (or_empty m)) key of None \<Rightarrow> [] | Some f \<Rightarrow> f))"

section \<open>Completing a run\<close>

definition SetRunPodKey :: "int \<Rightarrow> string \<Rightarrow> string \<Rightarrow> (loop_error + unit \<Rightarrow> go) \<Rightarrow> go" where
  "SetRunPodKey runID podKey autopilotKey k =
     access (execute (run_Update runID (\<lambda>r. r\<lparr>run_PodKey := Some podKey,
       AutopilotControllerKey := (if autopilotKey \<noteq> [] then Some autopilotKey else AutopilotControllerKey r)\<rparr>))) k"

definition UpdateRunStats :: "int \<Rightarrow> string \<Rightarrow> int \<Rightarrow> go \<Rightarrow> go" where
  "UpdateRunStats loopID status lastRunAt k = access (execute (IncrementRunStats loopID status lastRunAt)) (\<lambda>_. k)"

definition markRunTerminal ::
  "dependencies \<Rightarrow> int \<Rightarrow> string \<Rightarrow> string \<Rightarrow> (loop_error + unit \<Rightarrow> go) \<Rightarrow> go" where
  "markRunTerminal deps runID status errorMessage k =
     time_Now (\<lambda>now.
     access (execute (FinishRun runID (\<lambda>r. r\<lparr>run_Status := status, run_FinishedAt := Some now,
        ErrorMessage := Some errorMessage\<rparr>))) (\<lambda>updated.
     case updated of
       Inl e \<Rightarrow> k (Inl e)
     | Inr u \<Rightarrow>
         if \<not> u then k (Inr ())
         else GetRun runID (\<lambda>r.
              case r of
                Inl _ \<Rightarrow> k (Inr ())
              | Inr run \<Rightarrow>
                  publishRunEvent deps EventLoopRunFailed run
                    (UpdateRunStats (run_LoopID run) status now (k (Inr ()))))))"

definition MarkRunFailed :: "dependencies \<Rightarrow> int \<Rightarrow> string \<Rightarrow> (loop_error + unit \<Rightarrow> go) \<Rightarrow> go" where
  "MarkRunFailed deps runID errorMessage k = markRunTerminal deps runID RunStatusFailed errorMessage k"

definition MarkRunCancelled :: "dependencies \<Rightarrow> int \<Rightarrow> string \<Rightarrow> (loop_error + unit \<Rightarrow> go) \<Rightarrow> go" where
  "MarkRunCancelled deps runID reason k = markRunTerminal deps runID RunStatusCancelled reason k"

definition ClearRuntimeState :: "int \<Rightarrow> go \<Rightarrow> go" where
  "ClearRuntimeState loopID k =
     access (execute (loop_Update loopID (\<lambda>l. l\<lparr>SandboxPath := None, LastPodKey := None\<rparr>))) (\<lambda>_. k)"

definition UpdateRuntimeState :: "int \<Rightarrow> string option \<Rightarrow> string option \<Rightarrow> go \<Rightarrow> go" where
  "UpdateRuntimeState loopID sandboxPath lastPodKey k =
     (if sandboxPath = None \<and> lastPodKey = None then k
      else access (execute (loop_Update loopID (\<lambda>l. l\<lparr>
             SandboxPath := (if sandboxPath = None then SandboxPath l else sandboxPath),
             LastPodKey := (if lastPodKey = None then LastPodKey l else lastPodKey)\<rparr>))) (\<lambda>_. k))"

definition update_runtime :: "loop_run \<Rightarrow> loop_error + loop \<Rightarrow> string \<Rightarrow> go \<Rightarrow> go" where
  "update_runtime run l effectiveStatus k =
     (case l of
        Inl _ \<Rightarrow> k
      | Inr lp \<Rightarrow>
          if run_PodKey run = None \<or> \<not> IsPersistent lp then k
          else if effectiveStatus = RunStatusCompleted then UpdateRuntimeState (run_LoopID run) None (run_PodKey run) k
          else if effectiveStatus = RunStatusFailed then ClearRuntimeState (run_LoopID run) k
          else k)"

text \<open>The callback and the comment are sent by goroutines of their own.\<close>

definition notify :: "dependencies \<Rightarrow> loop_run \<Rightarrow> loop_error + loop \<Rightarrow> string \<Rightarrow> go \<Rightarrow> go" where
  "notify deps run l effectiveStatus k =
     (case l of
        Inl _ \<Rightarrow> k
      | Inr lp \<Rightarrow>
          (case CallbackURL lp of
             Some url \<Rightarrow> if url \<noteq> []
               then access (\<lambda>a d. (d\<lparr>callbacks := callbacks d @ [(url, run_ID run, effectiveStatus)]\<rparr>, ())) (\<lambda>_. [])
               else []
           | None \<Rightarrow> []) @
          (case TicketID lp of
             Some t \<Rightarrow> if has_ticketService deps
               then access (\<lambda>a d. (d\<lparr>comments := comments d @ [(t, run_ID run, effectiveStatus)]\<rparr>, ())) (\<lambda>_. [])
               else []
           | None \<Rightarrow> []) @
          (if MaxRetainedRuns lp > 0
           then access (execute (DeleteOldFinishedRuns (loop_ID lp) (MaxRetainedRuns lp))) (\<lambda>_. k)
           else k))"

definition HandleRunCompleted :: "dependencies \<Rightarrow> loop_run \<Rightarrow> string \<Rightarrow> go \<Rightarrow> go" where
  "HandleRunCompleted deps run effectiveStatus k =
     time_Now (\<lambda>now.
     access (execute (FinishRun (run_ID run) (\<lambda>r. r\<lparr>run_Status := effectiveStatus, run_FinishedAt := Some now,
        DurationSec := (case StartedAt run of None \<Rightarrow> DurationSec r | Some t \<Rightarrow> Some (seconds_of (now - t)))\<rparr>)))
     (\<lambda>updated.
     case updated of
       Inl _ \<Rightarrow> k
     | Inr u \<Rightarrow>
         if \<not> u then k
         else let run = run\<lparr>run_Status := effectiveStatus, run_FinishedAt := Some now\<rparr>;
                  eventType = (if counts_failed effectiveStatus then EventLoopRunFailed else EventLoopRunCompleted)
              in UpdateRunStats (run_LoopID run) effectiveStatus now
                 (access (query (loop_GetByID (run_LoopID run))) (\<lambda>l.
                    update_runtime run l effectiveStatus
                      (publishRunEvent deps eventType run
                        (notify deps run l effectiveStatus k))))))"

section \<open>Events\<close>

definition HandlePodTerminated :: "dependencies \<Rightarrow> string \<Rightarrow> string \<Rightarrow> go \<Rightarrow> go" where
  "HandlePodTerminated deps podKey podStatus k =
     access (query (GetActiveRunByPodKey podKey)) (\<lambda>r.
       case r of
         Inl _ \<Rightarrow> k
       | Inr run \<Rightarrow>
           let continue = (\<lambda>phase.
                 let effectiveStatus = DeriveRunStatus podStatus phase
                 in if effectiveStatus = RunStatusRunning then k else HandleRunCompleted deps run effectiveStatus k)
           in case AutopilotControllerKey run of
                None \<Rightarrow> continue []
              | Some key \<Rightarrow> GetAutopilotPhase key continue)"

definition HandleAutopilotTerminated :: "dependencies \<Rightarrow> string \<Rightarrow> string \<Rightarrow> go \<Rightarrow> go" where
  "HandleAutopilotTerminated deps autopilotKey phase k =
     (if \<not> IsAutopilotPhaseTerminal phase then k
      else access (query (GetByAutopilotKey autopilotKey)) (\<lambda>r.
           case r of
             Inl _ \<Rightarrow> k
           | Inr run \<Rightarrow> HandleRunCompleted deps run (DeriveRunStatus [] phase) k))"

definition on_PodStatusChanged :: "dependencies \<Rightarrow> string \<Rightarrow> string \<Rightarrow> go" where
  "on_PodStatusChanged deps podKey status =
     (if status \<in> {StatusCompleted, StatusError} then HandlePodTerminated deps podKey status [] else [])"

definition on_AutopilotStatusChanged :: "dependencies \<Rightarrow> string \<Rightarrow> string \<Rightarrow> go" where
  "on_AutopilotStatusChanged deps autopilotKey phase =
     (if phase \<in> {AutopilotPhaseCompleted, AutopilotPhaseFailed, AutopilotPhaseStopped}
      then HandleAutopilotTerminated deps autopilotKey phase [] else [])"

section \<open>Monitoring\<close>

fun complete_each :: "dependencies \<Rightarrow> string \<Rightarrow> loop_run list \<Rightarrow> go \<Rightarrow> go" where
  "complete_each deps status [] k = k"
| "complete_each deps status (run # runs) k =
     HandleRunCompleted deps run status (terminate_if_any deps (run_PodKey run) (complete_each deps status runs k))"

definition CheckTimeoutRuns :: "dependencies \<Rightarrow> int list \<Rightarrow> go \<Rightarrow> go" where
  "CheckTimeoutRuns deps orgIDs k =
     access (query (\<lambda>d. Inr (GetTimedOutRuns orgIDs d))) (\<lambda>r. complete_each deps RunStatusTimeout (or_empty r) k)"

definition CheckIdleLoopPods :: "dependencies \<Rightarrow> int list \<Rightarrow> go \<Rightarrow> go" where
  "CheckIdleLoopPods deps orgIDs k =
     access (query (\<lambda>d. Inr (GetIdleLoopPods orgIDs d))) (\<lambda>r. complete_each deps RunStatusCompleted (or_empty r) k)"

definition GetApprovalTimedOut :: "int list \<Rightarrow> loop_db \<Rightarrow> autopilot_row list" where
  "GetApprovalTimedOut orgIDs d =
     filter (\<lambda>c. ap_Phase c = AutopilotPhaseWaitingApproval \<and>
       (case ap_ApprovalRequestAt c of None \<Rightarrow> False | Some t \<Rightarrow> t < clock d - minutes (ap_ApprovalTimeoutMin c)) \<and>
       in_orgs orgIDs (ap_OrganizationID c)) (autopilots d)"

definition stop_autopilot :: "string \<Rightarrow> loop_db \<Rightarrow> loop_db \<times> (loop_error + unit)" where
  "stop_autopilot key d =
     (d\<lparr>autopilots := map (\<lambda>c. if ap_Key c = key then c\<lparr>ap_Phase := AutopilotPhaseStopped\<rparr> else c) (autopilots d)\<rparr>, Inr ())"

fun stop_each :: "dependencies \<Rightarrow> autopilot_row list \<Rightarrow> go \<Rightarrow> go" where
  "stop_each deps [] k = k"
| "stop_each deps (c # cs) k =
     access (execute (stop_autopilot (ap_Key c))) (\<lambda>r.
       case r of
         Inl _ \<Rightarrow> stop_each deps cs k
       | Inr _ \<Rightarrow> terminate_if_any deps (Some (ap_PodKey c)) (stop_each deps cs k))"

definition CheckApprovalTimeouts :: "dependencies \<Rightarrow> int list \<Rightarrow> go \<Rightarrow> go" where
  "CheckApprovalTimeouts deps orgIDs k =
     (if \<not> has_autopilotSvc deps then k
      else access (query (\<lambda>d. Inr (GetApprovalTimedOut orgIDs d))) (\<lambda>r. stop_each deps (or_empty r) k))"

definition orphan_message :: string where
  "orphan_message = ''Orphan pending run: Pod was never created (server restart or StartRun failure)''"

fun fail_each :: "dependencies \<Rightarrow> loop_run list \<Rightarrow> go \<Rightarrow> go" where
  "fail_each deps [] k = k"
| "fail_each deps (run # runs) k = MarkRunFailed deps (run_ID run) orphan_message (\<lambda>_. fail_each deps runs k)"

definition CleanupOrphanPendingRuns :: "dependencies \<Rightarrow> int list \<Rightarrow> go \<Rightarrow> go" where
  "CleanupOrphanPendingRuns deps orgIDs k =
     access (query (\<lambda>d. Inr (GetOrphanPendingRuns orgIDs d))) (\<lambda>r. fail_each deps (or_empty r) k)"

definition RefreshLoopStats :: "int \<Rightarrow> (loop_error + unit \<Rightarrow> go) \<Rightarrow> go" where
  "RefreshLoopStats loopID k =
     access (query (\<lambda>d. Inr (ComputeLoopStats loopID d))) (\<lambda>r.
       case r of
         Inl e \<Rightarrow> k (Inl e)
       | Inr (runs, successful, failed) \<Rightarrow>
           access (execute (loop_Update loopID (\<lambda>l. l\<lparr>TotalRuns := runs, SuccessfulRuns := successful,
             FailedRuns := failed\<rparr>))) k)"

section \<open>Starting a run\<close>

text \<open>
  What the decoder makes of a JSON text that should be an object: an error, \<open>null\<close>, or the members with their
  values as \<open>%v\<close> prints them.
\<close>

datatype json_vars = JInvalid | JNull | JObject "(string \<times> string) list"

text \<open>\<open>strings.ReplaceAll\<close> for a pattern that is not empty.\<close>

fun replaceAll :: "string \<Rightarrow> string \<Rightarrow> string \<Rightarrow> string" where
  "replaceAll old new [] = []"
| "replaceAll old new (c # cs) =
     (if old \<noteq> [] \<and> take (length old) (c # cs) = old then new @ replaceAll old new (drop (length old - 1) cs)
      else c # replaceAll old new cs)"

definition placeholder :: "string \<Rightarrow> string" where
  "placeholder key = ''{{'' @ key @ ''}}''"

text \<open>
  The variables: \<open>None\<close> is the panic of a write to a map that \<open>null\<close> has made \<open>nil\<close>. \<open>order\<close> is the order in which Go
  goes through the map.
\<close>

definition prompt_vars :: "(string \<Rightarrow> json_vars) \<Rightarrow> string \<Rightarrow> string \<Rightarrow> (string \<times> string) list option" where
  "prompt_vars json defaults overrides =
     (let vars = (if defaults = [] then Some []
                  else case json defaults of JInvalid \<Rightarrow> Some [] | JNull \<Rightarrow> None | JObject kvs \<Rightarrow> Some kvs);
          ov = (if overrides = [] then []
                else case json overrides of JInvalid \<Rightarrow> [] | JNull \<Rightarrow> [] | JObject kvs \<Rightarrow> kvs)
      in case vars of
           None \<Rightarrow> if ov = [] then Some [] else None
         | Some kvs \<Rightarrow> Some (fold (\<lambda>(k, v) m. AList.update k v m) ov kvs))"

definition resolvePrompt ::
  "(string \<Rightarrow> json_vars) \<Rightarrow> ((string \<times> string) list \<Rightarrow> (string \<times> string) list) \<Rightarrow> string \<Rightarrow> string \<Rightarrow> string \<Rightarrow> string option" where
  "resolvePrompt json order template defaults overrides =
     map_option (\<lambda>vars. fold (\<lambda>(k, v) result. replaceAll (placeholder k) v result) (order vars) template)
       (prompt_vars json defaults overrides)"

text \<open>A new pod starts with the status initializing.\<close>

definition CreatePod :: "pod_request \<Rightarrow> answer \<Rightarrow> loop_db \<Rightarrow> loop_db \<times> answer" where
  "CreatePod req a d =
     (let d = d\<lparr>pod_requests := pod_requests d @ [req]\<rparr>
      in case a of
           Returns key \<Rightarrow>
             (d\<lparr>pods := pods d @ [\<lparr>pod_PodKey = key, pod_Status = StatusInitializing, pod_FinishedAt = None,
                pod_AgentStatus = ''idle'', pod_AgentWaitingSince = None\<rparr>]\<rparr>, a)
         | _ \<Rightarrow> (d, a))"

definition CreateAndStart :: "answer \<Rightarrow> loop_db \<Rightarrow> loop_db \<times> answer" where
  "CreateAndStart a d = (d, a)"

definition recovered :: "dependencies \<Rightarrow> loop_run \<Rightarrow> string \<Rightarrow> go" where
  "recovered deps run e = MarkRunFailed deps (run_ID run) (''Internal error: '' @ e) (\<lambda>_. [])"

definition pod_started :: "dependencies \<Rightarrow> loop \<Rightarrow> loop_run \<Rightarrow> string \<Rightarrow> go" where
  "pod_started deps l run podKey =
     (if IsAutopilot l \<and> has_autopilotSvc deps
      then access CreateAndStart (\<lambda>r.
           case r of
             Returns key \<Rightarrow> SetRunPodKey (run_ID run) podKey key (\<lambda>_. [])
           | Fails e \<Rightarrow> terminate_if_any deps (Some podKey)
               (MarkRunFailed deps (run_ID run)
                  (''Autopilot creation failed: failed to create autopilot controller: '' @ e) (\<lambda>_. []))
           | Panics e \<Rightarrow> recovered deps run e)
      else SetRunPodKey (run_ID run) podKey [] (\<lambda>_. []))"

definition start_request :: "loop \<Rightarrow> int \<Rightarrow> string \<Rightarrow> pod_request" where
  "start_request l userID prompt =
     \<lparr>req_loop = l, req_UserID = userID, req_RunnerID = (case RunnerID l of None \<Rightarrow> 0 | Some i \<Rightarrow> i),
      req_InitialPrompt = prompt,
      req_PermissionMode = (if PermissionMode l = [] then ''bypassPermissions'' else PermissionMode l),
      req_SourcePodKey = (case LastPodKey l of Some k \<Rightarrow> if IsPersistent l then k else [] | None \<Rightarrow> []),
      req_ResumeAgentSession = Some (SessionPersistence l)\<rparr>"

text \<open>The request that gives up resuming.\<close>

definition fresh_request :: "pod_request \<Rightarrow> pod_request" where
  "fresh_request req = req\<lparr>req_SourcePodKey := [], req_ResumeAgentSession := None\<rparr>"

definition publishWarningEvent :: "dependencies \<Rightarrow> loop_run \<Rightarrow> go \<Rightarrow> go" where
  "publishWarningEvent deps run k = publishRunEvent deps EventLoopRunWarning run k"

definition create_pod_for :: "dependencies \<Rightarrow> loop \<Rightarrow> loop_run \<Rightarrow> pod_request \<Rightarrow> go" where
  "create_pod_for deps l run req =
     access (CreatePod req) (\<lambda>r.
       case r of
         Returns key \<Rightarrow> pod_started deps l run key
       | Panics e \<Rightarrow> recovered deps run e
       | Fails e \<Rightarrow>
           if req_SourcePodKey req = []
           then MarkRunFailed deps (run_ID run) (''Pod creation failed: '' @ e) (\<lambda>_. [])
           else publishWarningEvent deps run
             (access (CreatePod (fresh_request req)) (\<lambda>r.
                case r of
                  Returns key \<Rightarrow> ClearRuntimeState (loop_ID l) (pod_started deps l run key)
                | Panics e \<Rightarrow> recovered deps run e
                | Fails e \<Rightarrow> MarkRunFailed deps (run_ID run)
                    (''Pod creation failed (after resume degradation): '' @ e) (\<lambda>_. []))))"

definition StartRun ::
  "dependencies \<Rightarrow> (string \<Rightarrow> json_vars) \<Rightarrow> ((string \<times> string) list \<Rightarrow> (string \<times> string) list) \<Rightarrow> loop \<Rightarrow> loop_run \<Rightarrow> int \<Rightarrow> go" where
  "StartRun deps json order l run userID =
     (if \<not> has_podOrchestrator deps
      then MarkRunFailed deps (run_ID run) ''Pod orchestrator not configured'' (\<lambda>_. [])
      else GetRun (run_ID run) (\<lambda>r.
           case r of
             Inl _ \<Rightarrow> []
           | Inr currentRun \<Rightarrow>
               if run_FinishedAt currentRun \<noteq> None \<or> IsTerminal_run currentRun then []
               else case resolvePrompt json order (PromptTemplate l) (PromptVariables l) (TriggerParams run) of
                      None \<Rightarrow> recovered deps run ''assignment to entry in nil map''
                    | Some prompt \<Rightarrow>
                        access (execute (run_Update (run_ID run) (\<lambda>r. r\<lparr>ResolvedPrompt := Some prompt\<rparr>))) (\<lambda>_.
                          create_pod_for deps l run (start_request l userID prompt))))"

section \<open>Triggering\<close>

definition TriggerRun :: "dependencies \<Rightarrow> trigger_params \<Rightarrow> (loop_error + trigger_result \<Rightarrow> go) \<Rightarrow> go" where
  "TriggerRun deps params k =
     access (execute (TriggerRunAtomic params)) (\<lambda>r.
       case r of
         Inl e \<Rightarrow> k (Inl e)
       | Inr result \<Rightarrow>
           if Skipped result
           then time_Now (\<lambda>now. UpdateRunStats (loop_ID (tr_Loop result)) RunStatusSkipped now (k (Inr result)))
           else publishRunEvent deps EventLoopRunStarted (tr_Run result) (k (Inr result)))"

definition cron_params :: "int \<Rightarrow> trigger_params" where
  "cron_params loopID =
     \<lparr>tp_LoopID = loopID, tp_TriggerType = ''cron'', tp_TriggerSource = ''cron'', tp_TriggerParams = []\<rparr>"

fun trigger_each ::
  "dependencies \<Rightarrow> (string \<Rightarrow> json_vars) \<Rightarrow> ((string \<times> string) list \<Rightarrow> (string \<times> string) list) \<Rightarrow>
     (string \<Rightarrow> int \<Rightarrow> int option) \<Rightarrow> loop list \<Rightarrow> go" where
  "trigger_each deps json order next_run [] = []"
| "trigger_each deps json order next_run (l # ls) =
     time_Now (\<lambda>now.
       let next = (case CronExpression l of None \<Rightarrow> Some None | Some e \<Rightarrow> map_option Some (next_run e now));
           more = trigger_each deps json order next_run ls
       in case next of
            None \<Rightarrow> more
          | Some nextRunAt \<Rightarrow>
              access (ClaimCronLoop (loop_ID l) nextRunAt) (\<lambda>claimed.
                case claimed of
                  Inl _ \<Rightarrow> more
                | Inr c \<Rightarrow>
                    if \<not> c then more
                    else TriggerRun deps (cron_params (loop_ID l)) (\<lambda>r.
                         case r of
                           Inl _ \<Rightarrow> more
                         | Inr result \<Rightarrow>
                             (if Skipped result then []
                              else StartRun deps json order (tr_Loop result) (tr_Run result) (CreatedByID (tr_Loop result))) @
                             more)))"

definition CheckAndTriggerCronLoops ::
  "dependencies \<Rightarrow> (string \<Rightarrow> json_vars) \<Rightarrow> ((string \<times> string) list \<Rightarrow> (string \<times> string) list) \<Rightarrow>
     (string \<Rightarrow> int \<Rightarrow> int option) \<Rightarrow> int list \<Rightarrow> go" where
  "CheckAndTriggerCronLoops deps json order next_run orgIDs =
     access (query (\<lambda>d. Inr (GetDueCronLoops orgIDs d))) (\<lambda>r. trigger_each deps json order next_run (or_empty r))"

fun initialize_each :: "(string \<Rightarrow> int \<Rightarrow> int option) \<Rightarrow> loop list \<Rightarrow> go" where
  "initialize_each next_run [] = []"
| "initialize_each next_run (l # ls) =
     (case CronExpression l of
        None \<Rightarrow> initialize_each next_run ls
      | Some e \<Rightarrow>
          time_Now (\<lambda>now.
            case next_run e now of
              None \<Rightarrow> initialize_each next_run ls
            | Some t \<Rightarrow> access (execute (loop_Update (loop_ID l) (\<lambda>l. l\<lparr>NextRunAt := Some t\<rparr>)))
                (\<lambda>_. initialize_each next_run ls)))"

definition InitializeNextRunTimes :: "(string \<Rightarrow> int \<Rightarrow> int option) \<Rightarrow> int list \<Rightarrow> go" where
  "InitializeNextRunTimes next_run orgIDs =
     access (query (\<lambda>d. Inr (FindLoopsNeedingNextRun orgIDs d))) (\<lambda>r. initialize_each next_run (or_empty r))"

definition runTimeoutLoop :: "dependencies \<Rightarrow> int list \<Rightarrow> go" where
  "runTimeoutLoop deps orgIDs =
     CheckTimeoutRuns deps orgIDs (CheckApprovalTimeouts deps orgIDs (CheckIdleLoopPods deps orgIDs
       (CleanupOrphanPendingRuns deps orgIDs [])))"

section \<open>Requests\<close>

text \<open>The requests that start and cancel a run; the checks of the URL and the answers are not modelled.\<close>

definition TriggerLoop ::
  "dependencies \<Rightarrow> (string \<Rightarrow> json_vars) \<Rightarrow> ((string \<times> string) list \<Rightarrow> (string \<times> string) list) \<Rightarrow> int \<Rightarrow> trigger_params \<Rightarrow> go" where
  "TriggerLoop deps json order userID params =
     TriggerRun deps params (\<lambda>r.
       case r of
         Inl _ \<Rightarrow> []
       | Inr result \<Rightarrow> if Skipped result then []
           else StartRun deps json order (tr_Loop result) (tr_Run result) userID)"

definition CancelRun :: "dependencies \<Rightarrow> int \<Rightarrow> int \<Rightarrow> go" where
  "CancelRun deps loopID runID =
     GetRun runID (\<lambda>r.
       case r of
         Inl _ \<Rightarrow> []
       | Inr run \<Rightarrow>
           if run_LoopID run \<noteq> loopID \<or> IsTerminal_run run then []
           else if run_PodKey run \<noteq> None \<and> has_podTerminator deps
             then terminate_if_any deps (run_PodKey run) []
             else MarkRunCancelled deps runID ''Cancelled by user'' (\<lambda>_. []))"

end
