(* ===== verification/Loop_Service.thy ===== *)
theory Loop_Service
  imports Loop_Orchestrator
begin

text \<open>
  Creating and editing loops: \<^verbatim>\<open>backend/internal/service/loop/loop_service.go\<close> and the handlers of
  \<^verbatim>\<open>api/rest/v1/loop_handler.go\<close> that call it. Strings are sequences of bytes. The parser of URLs and of addresses, the cron
  parser and the mapping of a string to lower case are fields of \<open>loop_lib\<close>; an address that is an IPv4 address in IPv6
  notation is one of version 4, as the methods of Go's \<open>net.IP\<close> treat it.
\<close>

section \<open>Slugs\<close>

definition slug_char :: "char \<Rightarrow> bool" where
  "slug_char c \<longleftrightarrow> (97 \<le> (of_char c :: nat) \<and> (of_char c :: nat) \<le> 122) \<or> (48 \<le> (of_char c :: nat) \<and> (of_char c :: nat) \<le> 57)"

text \<open>The regular expression \<open>slugRegex\<close>.\<close>

definition slug_ok :: "string \<Rightarrow> bool" where
  "slug_ok s \<longleftrightarrow> 3 \<le> length s \<and> length s \<le> 100 \<and> slug_char (hd s) \<and> slug_char (last s) \<and>
     list_all (\<lambda>c. slug_char c \<or> c = CHR ''-'') s"

text \<open>Every run of other bytes becomes a hyphen.\<close>

function replace_runs :: "string \<Rightarrow> string" where
  "replace_runs [] = []"
| "replace_runs (c # cs) =
     (if slug_char c then c # replace_runs cs else CHR ''-'' # replace_runs (dropWhile (Not \<circ> slug_char) cs))"
  by pat_completeness auto
termination
  by (relation "measure length") (auto simp: le_imp_less_Suc length_dropWhile_le)

definition TrimRight :: "string \<Rightarrow> string" where
  "TrimRight s = rev (dropWhile (\<lambda>c. c = CHR ''-'') (rev s))"

definition Trim :: "string \<Rightarrow> string" where
  "Trim s = TrimRight (dropWhile (\<lambda>c. c = CHR ''-'') s)"

fun decimal :: "nat \<Rightarrow> string" where
  "decimal n = (if n < 10 then [char_of (48 + n)] else decimal (n div 10) @ [char_of (48 + n mod 10)])"

declare decimal.simps [simp del]

definition generateSlug :: "(string \<Rightarrow> string) \<Rightarrow> int \<Rightarrow> string \<Rightarrow> string" where
  "generateSlug to_lower now name =
     (let slug = Trim (replace_runs (to_lower name));
          slug = (if length slug > 100 then TrimRight (take 100 slug) else slug)
      in if slug = [] then ''loop-'' @ decimal (nat (now div 10 ^ 6))
         else if length slug < 3 then slug @ ''-loop'' else slug)"

section \<open>Validation\<close>

text \<open>An address: four bytes, or eight groups of sixteen bits.\<close>

datatype ip = IP4 nat nat nat nat | IP6 "nat list"

fun IsLoopback :: "ip \<Rightarrow> bool" where
  "IsLoopback (IP4 a b c d) \<longleftrightarrow> a = 127"
| "IsLoopback (IP6 g) \<longleftrightarrow> g = [0, 0, 0, 0, 0, 0, 0, 1]"

fun IsPrivate :: "ip \<Rightarrow> bool" where
  "IsPrivate (IP4 a b c d) \<longleftrightarrow> a = 10 \<or> (a = 172 \<and> b div 16 = 1) \<or> (a = 192 \<and> b = 168)"
| "IsPrivate (IP6 g) \<longleftrightarrow> g \<noteq> [] \<and> hd g div 512 = 126"

fun IsLinkLocalUnicast :: "ip \<Rightarrow> bool" where
  "IsLinkLocalUnicast (IP4 a b c d) \<longleftrightarrow> a = 169 \<and> b = 254"
| "IsLinkLocalUnicast (IP6 g) \<longleftrightarrow> g \<noteq> [] \<and> hd g div 64 = 1018"

fun IsLinkLocalMulticast :: "ip \<Rightarrow> bool" where
  "IsLinkLocalMulticast (IP4 a b c d) \<longleftrightarrow> a = 224 \<and> b = 0 \<and> c = 0"
| "IsLinkLocalMulticast (IP6 g) \<longleftrightarrow> g \<noteq> [] \<and> hd g div 256 = 255 \<and> hd g mod 16 = 2"

record loop_lib =
  url_Parse :: "string \<Rightarrow> (string \<times> string) option"
  ParseIP :: "string \<Rightarrow> ip option"
  CronNext :: "string \<Rightarrow> int \<Rightarrow> int option"
  ToLower :: "string \<Rightarrow> string"

text \<open>
  Case folding as far as it matters for the names below: ASCII letters, and the long s (two bytes), which folds to s.
\<close>

definition fold_ascii :: "char \<Rightarrow> char" where
  "fold_ascii c = (if 65 \<le> (of_char c :: nat) \<and> (of_char c :: nat) \<le> 90 then char_of ((of_char c :: nat) + 32) else c)"

fun fold_case :: "string \<Rightarrow> string" where
  "fold_case (c # d # cs) =
     (if (of_char c :: nat) = 0xC5 \<and> (of_char d :: nat) = 0xBF then CHR ''s'' # fold_case cs else fold_ascii c # fold_case (d # cs))"
| "fold_case [c] = [fold_ascii c]"
| "fold_case [] = []"

definition blockedHosts :: "string list" where
  "blockedHosts = [''localhost'', ''127.0.0.1'', ''::1'', ''0.0.0.0'', ''[::1]'']"

definition validateCallbackURL :: "loop_lib \<Rightarrow> string \<Rightarrow> bool" where
  "validateCallbackURL lib rawURL \<longleftrightarrow>
     (if rawURL = [] then True
      else case url_Parse lib rawURL of
          None \<Rightarrow> False
        | Some (scheme, host) \<Rightarrow>
            if scheme \<noteq> ''http'' \<and> scheme \<noteq> ''https'' then False
            else if host = [] then False
            else if fold_case host \<in> set blockedHosts then False
            else case ParseIP lib host of
                None \<Rightarrow> True
              | Some a \<Rightarrow> \<not> (IsLoopback a \<or> IsPrivate a \<or> IsLinkLocalUnicast a \<or> IsLinkLocalMulticast a))"

definition validExecutionModes :: "string list" where
  "validExecutionModes = [ExecutionModeAutopilot, ExecutionModeDirect]"

definition validSandboxStrategies :: "string list" where
  "validSandboxStrategies = [SandboxStrategyPersistent, SandboxStrategyFresh]"

definition validateEnumFields :: "string \<Rightarrow> string \<Rightarrow> string \<Rightarrow> bool" where
  "validateEnumFields executionMode sandboxStrategy concurrencyPolicy \<longleftrightarrow>
     \<not> (executionMode \<noteq> [] \<and> executionMode \<notin> set validExecutionModes) \<and>
     \<not> (sandboxStrategy \<noteq> [] \<and> sandboxStrategy \<notin> set validSandboxStrategies) \<and>
     \<not> (concurrencyPolicy \<noteq> [] \<and> concurrencyPolicy \<noteq> ConcurrencyPolicySkip)"

definition validStatuses :: "string list" where
  "validStatuses = [StatusEnabled, StatusDisabled]"

section \<open>The service\<close>

datatype service_error =
    ErrLoopNotFound | ErrDuplicateSlug | ErrInvalidCron | ErrInvalidSlug | ErrInvalidEnumValue | ErrInvalidCallbackURL
  | ErrHasActiveRuns | ServiceDbError string

definition service_error_of :: "loop_error \<Rightarrow> service_error" where
  "service_error_of e = (case e of ErrNotFound \<Rightarrow> ErrLoopNotFound | ErrActiveRuns \<Rightarrow> ErrHasActiveRuns
     | DbError m \<Rightarrow> ServiceDbError m | ErrDisabled \<Rightarrow> ServiceDbError [])"

text \<open>The key of a new row has not been used before, also not by a loop that has been deleted.\<close>

definition next_loop_ID :: "loop_db \<Rightarrow> int" where
  "next_loop_ID d = fold max (map loop_ID (loops d) @ map (\<lambda>b. fst (snd b)) (born d)) 0 + 1"

text \<open>
  \<open>Create\<close> of GORM replaces a field that has its zero value by the default in the field's \<open>gorm\<close> tag, in the row and in
  the struct: the tags of \<^verbatim>\<open>domain/loop/loop.go\<close>. The objects in JSON are never empty here.
\<close>

definition nonzero :: "int \<Rightarrow> int \<Rightarrow> int" where
  "nonzero d n = (if n = 0 then d else n)"

definition gorm_defaults :: "loop \<Rightarrow> loop" where
  "gorm_defaults l =
     l\<lparr>PermissionMode := default ''bypassPermissions'' (PermissionMode l),
       ExecutionMode := default ExecutionModeAutopilot (ExecutionMode l),
       loop_Status := default StatusEnabled (loop_Status l),
       SandboxStrategy := default SandboxStrategyPersistent (SandboxStrategy l),
       SessionPersistence := (if SessionPersistence l then SessionPersistence l else True),
       ConcurrencyPolicy := default ConcurrencyPolicySkip (ConcurrencyPolicy l),
       MaxConcurrentRuns := nonzero 1 (MaxConcurrentRuns l), MaxRetainedRuns := nonzero 0 (MaxRetainedRuns l),
       TimeoutMinutes := nonzero 60 (TimeoutMinutes l), IdleTimeoutSec := nonzero 30 (IdleTimeoutSec l)\<rparr>"

text \<open>The unique index \<open>idx_loops_org_slug\<close>, which the error names.\<close>

definition loop_Create :: "loop \<Rightarrow> loop_db \<Rightarrow> loop_db \<times> (loop_error + loop)" where
  "loop_Create l d =
     (if \<exists>x \<in> set (loops d). loop_OrganizationID x = loop_OrganizationID l \<and> Slug x = Slug l
      then (d, Inl (DbError ''idx_loops_org_slug''))
      else let l' = (gorm_defaults l)\<lparr>loop_ID := next_loop_ID d\<rparr> in (d\<lparr>loops := loops d @ [l']\<rparr>, Inr l'))"

definition loop_GetBySlug :: "int \<Rightarrow> string \<Rightarrow> loop_db \<Rightarrow> loop_error + loop" where
  "loop_GetBySlug orgID slug d = first_row (\<lambda>l. loop_OrganizationID l = orgID \<and> Slug l = slug) (loops d)"

definition strings_Contains :: "string \<Rightarrow> string \<Rightarrow> bool" where
  "strings_Contains s t \<longleftrightarrow> (\<exists>n \<in> set [0..<Suc (length s)]. take (length t) (drop n s) = t)"

record create_loop_request =
  cl_OrganizationID :: int
  cl_CreatedByID :: int
  cl_Slug :: string
  cl_settings :: loop_settings
  cl_PermissionMode :: string
  cl_PromptTemplate :: string
  cl_PromptVariables :: "string option"
  cl_RunnerID :: "int option"
  cl_TicketID :: "int option"
  cl_ConfigOverrides :: "string option"
  cl_ExecutionMode :: string
  cl_CronExpression :: "string option"
  cl_AutopilotConfig :: "string option"
  cl_CallbackURL :: "string option"
  cl_SandboxStrategy :: string
  cl_SessionPersistence :: bool
  cl_ConcurrencyPolicy :: string
  cl_MaxConcurrentRuns :: int
  cl_MaxRetainedRuns :: int
  cl_TimeoutMinutes :: int
  cl_IdleTimeoutSec :: int

definition or_empty_object :: "string option \<Rightarrow> string" where
  "or_empty_object j = (case j of None \<Rightarrow> ''{}'' | Some s \<Rightarrow> s)"

definition new_loop :: "create_loop_request \<Rightarrow> string \<Rightarrow> int option \<Rightarrow> loop" where
  "new_loop req slug nextRunAt =
     \<lparr>loop_ID = 0, loop_OrganizationID = cl_OrganizationID req, Slug = slug,
      settings = (cl_settings req)\<lparr>ConfigOverrides := or_empty_object (cl_ConfigOverrides req)\<rparr>,
      RunnerID = cl_RunnerID req, PermissionMode = default ''bypassPermissions'' (cl_PermissionMode req),
      PromptTemplate = cl_PromptTemplate req, PromptVariables = or_empty_object (cl_PromptVariables req),
      TicketID = cl_TicketID req, ExecutionMode = default ExecutionModeAutopilot (cl_ExecutionMode req),
      CronExpression = cl_CronExpression req, AutopilotConfig = or_empty_object (cl_AutopilotConfig req),
      CallbackURL = cl_CallbackURL req, loop_Status = StatusEnabled,
      SandboxStrategy = default SandboxStrategyPersistent (cl_SandboxStrategy req),
      SessionPersistence = cl_SessionPersistence req,
      ConcurrencyPolicy = default ConcurrencyPolicySkip (cl_ConcurrencyPolicy req),
      MaxConcurrentRuns = (if cl_MaxConcurrentRuns req = 0 then 1 else cl_MaxConcurrentRuns req),
      MaxRetainedRuns = cl_MaxRetainedRuns req,
      TimeoutMinutes = (if cl_TimeoutMinutes req = 0 then 60 else cl_TimeoutMinutes req),
      IdleTimeoutSec = cl_IdleTimeoutSec req, SandboxPath = None, LastPodKey = None, CreatedByID = cl_CreatedByID req,
      TotalRuns = 0, SuccessfulRuns = 0, FailedRuns = 0, LastRunAt = None, NextRunAt = nextRunAt\<rparr>"

text \<open>The next time of a cron expression, if there is one.\<close>

definition next_time :: "loop_lib \<Rightarrow> string option \<Rightarrow> go \<Rightarrow> (int option \<Rightarrow> go) \<Rightarrow> go" where
  "next_time lib expr invalid k =
     (case expr of
        Some (c # cs) \<Rightarrow> time_Now (\<lambda>now. case CronNext lib (c # cs) now of None \<Rightarrow> invalid | Some t \<Rightarrow> k (Some t))
      | _ \<Rightarrow> k None)"

definition insert_loop :: "loop \<Rightarrow> (service_error + loop \<Rightarrow> go) \<Rightarrow> go" where
  "insert_loop l k =
     access (execute (loop_Create l)) (\<lambda>r. case r of
         Inl e \<Rightarrow> k (Inl (case e of
             DbError m \<Rightarrow> if strings_Contains m ''idx_loops_org_slug'' then ErrDuplicateSlug else ServiceDbError m
           | _ \<Rightarrow> service_error_of e))
       | Inr l \<Rightarrow> k (Inr l))"

definition create_slugged ::
  "loop_lib \<Rightarrow> create_loop_request \<Rightarrow> string \<Rightarrow> (service_error + loop \<Rightarrow> go) \<Rightarrow> go" where
  "create_slugged lib req slug k =
     (let l = new_loop req slug None
      in if \<not> slug_ok slug then k (Inl ErrInvalidSlug)
         else if \<not> validateEnumFields (ExecutionMode l) (SandboxStrategy l) (ConcurrencyPolicy l) then k (Inl ErrInvalidEnumValue)
         else if \<not> (case cl_CallbackURL req of None \<Rightarrow> True | Some u \<Rightarrow> validateCallbackURL lib u) then k (Inl ErrInvalidCallbackURL)
         else next_time lib (cl_CronExpression req) (k (Inl ErrInvalidCron)) (\<lambda>t. insert_loop (new_loop req slug t) k))"

definition LoopService_Create :: "loop_lib \<Rightarrow> create_loop_request \<Rightarrow> (service_error + loop \<Rightarrow> go) \<Rightarrow> go" where
  "LoopService_Create lib req k =
     (if cl_Slug req = []
      then time_Now (\<lambda>now. create_slugged lib req (generateSlug (ToLower lib) now (Name (cl_settings req))) k)
      else create_slugged lib req (cl_Slug req) k)"

definition LoopService_GetBySlug :: "int \<Rightarrow> string \<Rightarrow> (service_error + loop \<Rightarrow> go) \<Rightarrow> go" where
  "LoopService_GetBySlug orgID slug k =
     access (query (loop_GetBySlug orgID slug)) (\<lambda>r. case r of Inl e \<Rightarrow> k (Inl (service_error_of e)) | Inr l \<Rightarrow> k (Inr l))"

record update_loop_request =
  ul_Name :: "string option"
  ul_Description :: "string option"
  ul_AgentTypeID :: "int option"
  ul_CustomAgentTypeID :: "int option"
  ul_PermissionMode :: "string option"
  ul_PromptTemplate :: "string option"
  ul_PromptVariables :: "string option"
  ul_RepositoryID :: "int option"
  ul_RunnerID :: "int option"
  ul_BranchName :: "string option"
  ul_TicketID :: "int option"
  ul_CredentialProfileID :: "int option"
  ul_ConfigOverrides :: "string option"
  ul_ExecutionMode :: "string option"
  ul_CronExpression :: "string option"
  ul_AutopilotConfig :: "string option"
  ul_CallbackURL :: "string option"
  ul_SandboxStrategy :: "string option"
  ul_SessionPersistence :: "bool option"
  ul_ConcurrencyPolicy :: "string option"
  ul_MaxConcurrentRuns :: "int option"
  ul_MaxRetainedRuns :: "int option"
  ul_TimeoutMinutes :: "int option"
  ul_IdleTimeoutSec :: "int option"

definition set_to :: "'a option \<Rightarrow> 'a \<Rightarrow> 'a" where
  "set_to new old = (case new of None \<Rightarrow> old | Some x \<Rightarrow> x)"

definition set_some :: "'a option \<Rightarrow> 'a option \<Rightarrow> 'a option" where
  "set_some new old = (case new of None \<Rightarrow> old | Some x \<Rightarrow> Some x)"

text \<open>Whether the next run starts in a new sandbox; \<open>old\<close> is the row as it was read.\<close>

definition breaks_chain :: "update_loop_request \<Rightarrow> loop \<Rightarrow> bool" where
  "breaks_chain req old \<longleftrightarrow>
     (case ul_RunnerID req of
        None \<Rightarrow> False
      | Some r \<Rightarrow> r \<noteq> (case RunnerID old of None \<Rightarrow> 0 | Some i \<Rightarrow> i) \<and> IsPersistent old \<and> LastPodKey old \<noteq> None) \<or>
     (ul_SandboxStrategy req = Some SandboxStrategyFresh \<and> SandboxStrategy old = SandboxStrategyPersistent)"

definition update_settings :: "update_loop_request \<Rightarrow> loop_settings \<Rightarrow> loop_settings" where
  "update_settings req s =
     s\<lparr>Name := set_to (ul_Name req) (Name s), Description := set_some (ul_Description req) (Description s),
       AgentTypeID := set_some (ul_AgentTypeID req) (AgentTypeID s),
       CustomAgentTypeID := set_some (ul_CustomAgentTypeID req) (CustomAgentTypeID s),
       RepositoryID := set_some (ul_RepositoryID req) (RepositoryID s),
       BranchName := set_some (ul_BranchName req) (BranchName s),
       CredentialProfileID := set_some (ul_CredentialProfileID req) (CredentialProfileID s),
       ConfigOverrides := set_to (ul_ConfigOverrides req) (ConfigOverrides s)\<rparr>"

text \<open>The columns of the statement: \<open>next\<close> is the time computed for a new cron expression.\<close>

definition updates :: "update_loop_request \<Rightarrow> loop \<Rightarrow> int option \<Rightarrow> loop \<Rightarrow> loop" where
  "updates req old nextRunAt l =
     l\<lparr>settings := update_settings req (settings l),
       RunnerID := set_some (ul_RunnerID req) (RunnerID l),
       PermissionMode := set_to (ul_PermissionMode req) (PermissionMode l),
       PromptTemplate := set_to (ul_PromptTemplate req) (PromptTemplate l),
       PromptVariables := set_to (ul_PromptVariables req) (PromptVariables l),
       TicketID := set_some (ul_TicketID req) (TicketID l),
       ExecutionMode := set_to (ul_ExecutionMode req) (ExecutionMode l),
       CronExpression := set_some (ul_CronExpression req) (CronExpression l),
       NextRunAt := (if ul_CronExpression req \<noteq> None then nextRunAt else NextRunAt l),
       AutopilotConfig := set_to (ul_AutopilotConfig req) (AutopilotConfig l),
       CallbackURL := (case ul_CallbackURL req of None \<Rightarrow> CallbackURL l | Some u \<Rightarrow> if u = [] then None else Some u),
       SandboxStrategy := set_to (ul_SandboxStrategy req) (SandboxStrategy l),
       SessionPersistence := set_to (ul_SessionPersistence req) (SessionPersistence l),
       ConcurrencyPolicy := set_to (ul_ConcurrencyPolicy req) (ConcurrencyPolicy l),
       MaxConcurrentRuns := set_to (ul_MaxConcurrentRuns req) (MaxConcurrentRuns l),
       MaxRetainedRuns := set_to (ul_MaxRetainedRuns req) (MaxRetainedRuns l),
       TimeoutMinutes := set_to (ul_TimeoutMinutes req) (TimeoutMinutes l),
       IdleTimeoutSec := set_to (ul_IdleTimeoutSec req) (IdleTimeoutSec l),
       LastPodKey := (if breaks_chain req old then None else LastPodKey l),
       SandboxPath := (if breaks_chain req old then None else SandboxPath l)\<rparr>"

text \<open>A request without a field sends no statement.\<close>

definition no_updates :: "update_loop_request \<Rightarrow> bool" where
  "no_updates req \<longleftrightarrow> ul_Name req = None \<and> ul_Description req = None \<and> ul_AgentTypeID req = None \<and>
     ul_CustomAgentTypeID req = None \<and> ul_PermissionMode req = None \<and> ul_PromptTemplate req = None \<and>
     ul_PromptVariables req = None \<and> ul_RepositoryID req = None \<and> ul_RunnerID req = None \<and> ul_BranchName req = None \<and>
     ul_TicketID req = None \<and> ul_CredentialProfileID req = None \<and> ul_ConfigOverrides req = None \<and>
     ul_ExecutionMode req = None \<and> ul_CronExpression req = None \<and> ul_AutopilotConfig req = None \<and>
     ul_CallbackURL req = None \<and> ul_SandboxStrategy req = None \<and> ul_SessionPersistence req = None \<and>
     ul_ConcurrencyPolicy req = None \<and> ul_MaxConcurrentRuns req = None \<and> ul_MaxRetainedRuns req = None \<and>
     ul_TimeoutMinutes req = None \<and> ul_IdleTimeoutSec req = None"

definition update_row ::
  "int \<Rightarrow> (loop \<Rightarrow> loop) \<Rightarrow> int \<Rightarrow> string \<Rightarrow> (service_error + loop \<Rightarrow> go) \<Rightarrow> go" where
  "update_row loopID upd orgID slug k =
     access (execute (loop_Update loopID upd)) (\<lambda>r. case r of
         Inl e \<Rightarrow> k (Inl (service_error_of e))
       | Inr _ \<Rightarrow> LoopService_GetBySlug orgID slug k)"

definition LoopService_Update ::
  "loop_lib \<Rightarrow> int \<Rightarrow> string \<Rightarrow> update_loop_request \<Rightarrow> (service_error + loop \<Rightarrow> go) \<Rightarrow> go" where
  "LoopService_Update lib orgID slug req k =
     LoopService_GetBySlug orgID slug (\<lambda>r. case r of
         Inl e \<Rightarrow> k (Inl e)
       | Inr old \<Rightarrow>
           next_time lib (ul_CronExpression req) (k (Inl ErrInvalidCron)) (\<lambda>t.
             if \<not> (case ul_CallbackURL req of None \<Rightarrow> True | Some u \<Rightarrow> u = [] \<or> validateCallbackURL lib u)
             then k (Inl ErrInvalidCallbackURL)
             else if \<not> validateEnumFields (set_to (ul_ExecutionMode req) []) (set_to (ul_SandboxStrategy req) [])
                 (set_to (ul_ConcurrencyPolicy req) [])
             then k (Inl ErrInvalidEnumValue)
             else if no_updates req then LoopService_GetBySlug orgID slug k
             else update_row (loop_ID old) (updates req old t) orgID slug k))"

text \<open>
  The transaction that deletes a loop together with its runs, unless one of them is not finished; whether the second
  count fails is not looked at.
\<close>

definition loop_Delete :: "int \<Rightarrow> string \<Rightarrow> (loop_error + int \<Rightarrow> go) \<Rightarrow> go" where
  "loop_Delete orgID slug k =
     access (query (deletable orgID slug)) (\<lambda>r. case r of
         Inl ErrNotFound \<Rightarrow>
           access (query (count_slug orgID slug)) (\<lambda>r. case r of
               Inl _ \<Rightarrow> k (Inr 0)
             | Inr n \<Rightarrow> if n > 0 then k (Inl ErrActiveRuns) else k (Inr 0))
       | Inl e \<Rightarrow> k (Inl e)
       | Inr l \<Rightarrow>
           access (query (runs_of_loop (loop_ID l))) (\<lambda>r. case r of
               Inl e \<Rightarrow> k (Inl e)
             | Inr runIDs \<Rightarrow> access (execute (delete_rows (loop_ID l) runIDs)) k))"

definition LoopService_Delete :: "int \<Rightarrow> string \<Rightarrow> (service_error + unit \<Rightarrow> go) \<Rightarrow> go" where
  "LoopService_Delete orgID slug k =
     loop_Delete orgID slug (\<lambda>r. case r of
         Inl e \<Rightarrow> k (Inl (service_error_of e))
       | Inr affected \<Rightarrow> if affected = 0 then k (Inl ErrLoopNotFound) else k (Inr ()))"

definition LoopService_SetStatus ::
  "loop_lib \<Rightarrow> int \<Rightarrow> string \<Rightarrow> string \<Rightarrow> (service_error + loop \<Rightarrow> go) \<Rightarrow> go" where
  "LoopService_SetStatus lib orgID slug status k =
     (if status \<notin> set validStatuses then k (Inl ErrInvalidEnumValue)
      else LoopService_GetBySlug orgID slug (\<lambda>r. case r of
          Inl e \<Rightarrow> k (Inl e)
        | Inr l \<Rightarrow>
            if status = StatusEnabled \<and> HasCron l
            then next_time lib (CronExpression l)
              (update_row (loop_ID l) (\<lambda>x. x\<lparr>loop_Status := status\<rparr>) orgID slug k)
              (\<lambda>t. update_row (loop_ID l) (\<lambda>x. x\<lparr>loop_Status := status, NextRunAt := t\<rparr>) orgID slug k)
            else update_row (loop_ID l) (\<lambda>x. x\<lparr>loop_Status := status\<rparr>) orgID slug k))"

section \<open>Requests\<close>

datatype api_answer = ApiInvalid | ApiConflict | ApiNotFound | ApiInternal | ApiLoop loop | ApiDeleted

definition api_error :: "service_error \<Rightarrow> api_answer" where
  "api_error e =
     (if e = ErrDuplicateSlug then ApiConflict
      else if e \<in> {ErrInvalidSlug, ErrInvalidCron, ErrInvalidCallbackURL, ErrInvalidEnumValue} then ApiInvalid
      else ApiInternal)"

text \<open>The decoded body: \<open>cb_request\<close> holds what is copied, the rest is optional. A missing object is marshalled to \<open>null\<close>.\<close>

record create_body =
  cb_request :: create_loop_request
  cb_AutopilotConfig :: "string option"
  cb_ConfigOverrides :: "string option"
  cb_PromptVariables :: "string option"
  cb_MaxConcurrentRuns :: "int option"
  cb_MaxRetainedRuns :: "int option"
  cb_TimeoutMinutes :: "int option"
  cb_SessionPersistence :: "bool option"
  cb_IdleTimeoutSec :: "int option"

definition marshal :: "string option \<Rightarrow> string" where
  "marshal m = (case m of None \<Rightarrow> ''null'' | Some s \<Rightarrow> s)"

definition CreateLoop :: "loop_lib \<Rightarrow> int \<Rightarrow> int \<Rightarrow> create_body \<Rightarrow> (api_answer \<Rightarrow> go) \<Rightarrow> go" where
  "CreateLoop lib orgID userID body k =
     (let maxConcurrentRuns = set_to (cb_MaxConcurrentRuns body) 1;
          maxRetainedRuns = set_to (cb_MaxRetainedRuns body) 0;
          timeoutMinutes = set_to (cb_TimeoutMinutes body) 60;
          idleTimeoutSec = set_to (cb_IdleTimeoutSec body) 30
      in if maxConcurrentRuns < 1 \<or> maxConcurrentRuns > 10 then k ApiInvalid
         else if maxRetainedRuns < 0 \<or> maxRetainedRuns > 10000 then k ApiInvalid
         else if timeoutMinutes < 1 \<or> timeoutMinutes > 1440 then k ApiInvalid
         else if idleTimeoutSec < 0 \<or> idleTimeoutSec > 3600 then k ApiInvalid
         else LoopService_Create lib ((cb_request body)\<lparr>cl_OrganizationID := orgID, cl_CreatedByID := userID,
             cl_PromptVariables := Some (marshal (cb_PromptVariables body)),
             cl_ConfigOverrides := Some (marshal (cb_ConfigOverrides body)),
             cl_AutopilotConfig := Some (marshal (cb_AutopilotConfig body)),
             cl_SessionPersistence := set_to (cb_SessionPersistence body) True,
             cl_MaxConcurrentRuns := maxConcurrentRuns, cl_MaxRetainedRuns := maxRetainedRuns,
             cl_TimeoutMinutes := timeoutMinutes, cl_IdleTimeoutSec := idleTimeoutSec\<rparr>)
           (\<lambda>r. case r of Inl e \<Rightarrow> k (api_error e) | Inr l \<Rightarrow> k (ApiLoop l)))"

definition out_of :: "int \<Rightarrow> int \<Rightarrow> int option \<Rightarrow> bool" where
  "out_of lo hi x \<longleftrightarrow> (case x of None \<Rightarrow> False | Some n \<Rightarrow> n < lo \<or> n > hi)"

definition not_found_or :: "service_error \<Rightarrow> api_answer" where
  "not_found_or e = (if e = ErrLoopNotFound then ApiNotFound else ApiInternal)"

definition UpdateLoop :: "loop_lib \<Rightarrow> int \<Rightarrow> string \<Rightarrow> update_loop_request \<Rightarrow> (api_answer \<Rightarrow> go) \<Rightarrow> go" where
  "UpdateLoop lib orgID slug req k =
     (if out_of 1 10 (ul_MaxConcurrentRuns req) then k ApiInvalid
      else if out_of 1 1440 (ul_TimeoutMinutes req) then k ApiInvalid
      else if out_of 0 10000 (ul_MaxRetainedRuns req) then k ApiInvalid
      else if out_of 0 3600 (ul_IdleTimeoutSec req) then k ApiInvalid
      else LoopService_Update lib orgID slug req (\<lambda>r. case r of
          Inl e \<Rightarrow> k (if e = ErrLoopNotFound then ApiNotFound
            else if e \<in> {ErrInvalidCron, ErrInvalidCallbackURL, ErrInvalidEnumValue} then ApiInvalid else ApiInternal)
        | Inr l \<Rightarrow> k (ApiLoop l)))"

definition DeleteLoop :: "int \<Rightarrow> string \<Rightarrow> (api_answer \<Rightarrow> go) \<Rightarrow> go" where
  "DeleteLoop orgID slug k =
     LoopService_Delete orgID slug (\<lambda>r. case r of
         Inl e \<Rightarrow> k (if e = ErrHasActiveRuns then ApiInvalid else not_found_or e)
       | Inr _ \<Rightarrow> k ApiDeleted)"

definition set_loop_status :: "loop_lib \<Rightarrow> int \<Rightarrow> string \<Rightarrow> string \<Rightarrow> (api_answer \<Rightarrow> go) \<Rightarrow> go" where
  "set_loop_status lib orgID slug status k =
     LoopService_SetStatus lib orgID slug status (\<lambda>r. case r of Inl e \<Rightarrow> k (not_found_or e) | Inr l \<Rightarrow> k (ApiLoop l))"

definition EnableLoop :: "loop_lib \<Rightarrow> int \<Rightarrow> string \<Rightarrow> (api_answer \<Rightarrow> go) \<Rightarrow> go" where
  "EnableLoop lib orgID slug k = set_loop_status lib orgID slug StatusEnabled k"

definition DisableLoop :: "loop_lib \<Rightarrow> int \<Rightarrow> string \<Rightarrow> (api_answer \<Rightarrow> go) \<Rightarrow> go" where
  "DisableLoop lib orgID slug k = set_loop_status lib orgID slug StatusDisabled k"

end
