(* ===== verification/Loop_Safety.thy ===== *)
theory Loop_Safety
  imports Loop_Service
begin

text \<open>
  What holds of the loops and their runs under every interleaving: the rule of \<open>Go_Tasks\<close> for the goroutines of
  \<open>Loop_Orchestrator\<close> and \<open>Loop_Service\<close>. A goroutine that has finished a run holds a \<open>Credit\<close> for one entry in the statistics of its
  loop; a goroutine that has read a run \<open>Known\<close>s which loop it belongs to. \<open>Past\<close> remembers the end of a run.
\<close>

section \<open>The invariant\<close>

datatype resource = Known int int | Credit int string | Past int int string

definition run_before :: "loop_run \<Rightarrow> loop_run \<Rightarrow> bool" where
  "run_before r r' \<longleftrightarrow> run_ID r < run_ID r' \<and> (run_LoopID r = run_LoopID r' \<longrightarrow> RunNumber r < RunNumber r')"

text \<open>Keys and numbers: the rows of the runs are ordered, and the newest run of a loop is kept.\<close>

definition keys_ok :: "loop_db \<Rightarrow> bool" where
  "keys_ok d \<longleftrightarrow> distinct (map loop_ID (loops d)) \<and> sorted_wrt run_before (loop_runs d) \<and>
     (\<forall>r \<in> set (loop_runs d). (run_ID r, run_LoopID r, RunNumber r) \<in> set (born d)) \<and>
     (\<forall>b \<in> set (born d). fst b < next_run_ID d) \<and>
     (\<forall>b \<in> set (born d). \<forall>b' \<in> set (born d). fst b = fst b' \<longrightarrow> b = b') \<and>
     (\<forall>b \<in> set (born d). fst (snd b) \<in> loop_ID ` set (loops d) \<longrightarrow>
        (\<exists>r \<in> set (loop_runs d). run_LoopID r = fst (snd b) \<and> snd (snd b) \<le> RunNumber r))"

text \<open>A run ends once, and its row says how.\<close>

definition ends_ok :: "loop_db \<Rightarrow> bool" where
  "ends_ok d \<longleftrightarrow> distinct (map (fst \<circ> snd) (ended d)) \<and>
     (\<forall>e \<in> set (ended d). fst (snd e) < next_run_ID d) \<and>
     (\<forall>r \<in> set (loop_runs d). run_FinishedAt r \<noteq> None \<longrightarrow> (run_LoopID r, run_ID r, run_Status r) \<in> set (ended d)) \<and>
     (\<forall>r \<in> set (loop_runs d). run_FinishedAt r = None \<longrightarrow> run_ID r \<notin> (fst \<circ> snd) ` set (ended d))"

text \<open>The counters of a loop with the outcomes they count.\<close>

definition counters :: "((loop \<Rightarrow> int) \<times> string set) set" where
  "counters = {(TotalRuns, UNIV), (SuccessfulRuns, {RunStatusCompleted}), (FailedRuns, {s. counts_failed s})}"

definition counter_sum :: "(loop \<Rightarrow> int) \<Rightarrow> int \<Rightarrow> loop_db \<Rightarrow> int" where
  "counter_sum c l d = (\<Sum>x \<leftarrow> filter (\<lambda>x. loop_ID x = l) (loops d). c x)"

definition outcomes :: "string set \<Rightarrow> int \<Rightarrow> loop_db \<Rightarrow> int" where
  "outcomes S l d = int (length (filter (\<lambda>e. fst e = l \<and> snd (snd e) \<in> S) (ended d)))"

definition is_credit :: "string set \<Rightarrow> int \<Rightarrow> resource \<Rightarrow> bool" where
  "is_credit S l \<rho> = (case \<rho> of Credit l' st \<Rightarrow> l' = l \<and> st \<in> S | _ \<Rightarrow> False)"

definition credits :: "string set \<Rightarrow> int \<Rightarrow> resource multiset \<Rightarrow> int" where
  "credits S l R = int (size (filter_mset (is_credit S l) R))"

definition counts_ok :: "loop_db \<Rightarrow> resource multiset \<Rightarrow> bool" where
  "counts_ok d R \<longleftrightarrow> (\<forall>(c, S) \<in> counters. (\<forall>x \<in> set (loops d). 0 \<le> c x) \<and>
     (\<forall>l. counter_sum c l d + credits S l R \<le> outcomes S l d))"

definition known_ok :: "loop_db \<Rightarrow> resource multiset \<Rightarrow> bool" where
  "known_ok d R \<longleftrightarrow> (\<forall>i l. Known i l \<in># R \<longrightarrow> (\<exists>n. (i, l, n) \<in> set (born d))) \<and>
     (\<forall>l i st. Past l i st \<in># R \<longrightarrow> (l, i, st) \<in> set (ended d))"

definition loops_ok :: "loop_db \<Rightarrow> resource multiset \<Rightarrow> bool" where
  "loops_ok d R \<longleftrightarrow> keys_ok d \<and> ends_ok d \<and> counts_ok d R \<and> known_ok d R"

section \<open>Resources\<close>

lemma credits_union [simp]: "credits S l (R + F) = credits S l R + credits S l F"
  by (simp add: credits_def)

lemma credits_simps [simp]:
  "credits S l {#} = 0"
  "credits S l (add_mset (Known i l') R) = credits S l R"
  "credits S l (add_mset (Past l' i st) R) = credits S l R"
  "credits S l (add_mset (Credit l' st) R) = credits S l R + (if l' = l \<and> st \<in> S then 1 else 0)"
  by (simp_all add: credits_def is_credit_def)

lemma credits_nonneg [simp]: "credits S l R \<ge> 0"
  by (simp add: credits_def)

lemma known_ok_simps [simp]:
  "known_ok d {#}"
  "known_ok d (add_mset (Credit l st) R) = known_ok d R"
  "known_ok d (add_mset (Past l i st) R) \<longleftrightarrow> (l, i, st) \<in> set (ended d) \<and> known_ok d R"
  "known_ok d (add_mset (Known i l) R) \<longleftrightarrow> (\<exists>n. (i, l, n) \<in> set (born d)) \<and> known_ok d R"
  "known_ok d (R + F) \<longleftrightarrow> known_ok d R \<and> known_ok d F"
  by (auto simp: known_ok_def)

lemma known_ok_grow:
  "known_ok d R \<Longrightarrow> set (born d) \<subseteq> set (born d') \<Longrightarrow> set (ended d) \<subseteq> set (ended d') \<Longrightarrow> known_ok d' R"
  unfolding known_ok_def by blast

lemma counts_okI:
  assumes "\<And>c S x. (c, S) \<in> counters \<Longrightarrow> x \<in> set (loops d) \<Longrightarrow> 0 \<le> c x"
    and "\<And>c S l. (c, S) \<in> counters \<Longrightarrow> counter_sum c l d + credits S l R \<le> outcomes S l d"
  shows "counts_ok d R"
  using assms by (auto simp: counts_ok_def)

lemma counts_okD:
  assumes "counts_ok d R" "(c, S) \<in> counters"
  shows "x \<in> set (loops d) \<Longrightarrow> 0 \<le> c x" and "counter_sum c l d + credits S l R \<le> outcomes S l d"
  using assms by (auto simp: counts_ok_def)

lemma counts_ok_weaken:
  assumes "counts_ok d (R + F)"
  shows "counts_ok d F"
proof (rule counts_okI)
  show "(c, S) \<in> counters \<Longrightarrow> x \<in> set (loops d) \<Longrightarrow> 0 \<le> c x" for c S x by (rule counts_okD(1) [OF assms])
  show "counter_sum c l d + credits S l F \<le> outcomes S l d" if "(c, S) \<in> counters" for c S l
    using counts_okD(2) [OF assms that, of l] credits_nonneg [of S l R] unfolding credits_union by linarith
qed

lemma loops_ok_weaken: "loops_ok d (R + F) \<Longrightarrow> loops_ok d F"
  unfolding loops_ok_def using counts_ok_weaken by auto

text \<open>Only five fields matter.\<close>

definition same_view :: "loop_db \<Rightarrow> loop_db \<Rightarrow> bool" where
  "same_view d d' \<longleftrightarrow> loops d' = loops d \<and> loop_runs d' = loop_runs d \<and> next_run_ID d' = next_run_ID d \<and>
     born d' = born d \<and> ended d' = ended d"

lemma loops_ok_same_view: "same_view d d' \<Longrightarrow> loops_ok d R \<Longrightarrow> loops_ok d' R"
  by (simp add: same_view_def loops_ok_def keys_ok_def ends_ok_def counts_ok_def known_ok_def counter_sum_def outcomes_def)

section \<open>Statements\<close>

lemma run_before_inj:
  "sorted_wrt run_before rs \<Longrightarrow> r \<in> set rs \<Longrightarrow> r' \<in> set rs \<Longrightarrow> run_ID r = run_ID r' \<Longrightarrow> r = r'"
  by (induction rs) (auto simp: run_before_def)

lemma filter_unfinished:
  "sorted_wrt run_before rs \<Longrightarrow> filter (unfinished i) rs = [] \<or> (\<exists>r. filter (unfinished i) rs = [r] \<and> r \<in> set rs)"
proof (induction rs)
  case (Cons r rs)
  have "unfinished i r \<Longrightarrow> filter (unfinished i) rs = []"
    using Cons.prems by (auto simp: filter_empty_conv unfinished_def run_before_def)
  then show ?case using Cons by auto
qed simp

lemma rows_irrelevant [simp]:
  "counts_ok (d\<lparr>loop_runs := rs\<rparr>) R = counts_ok d R"
  "known_ok (d\<lparr>loop_runs := rs\<rparr>) R = known_ok d R"
  by (simp_all add: counts_ok_def counter_sum_def outcomes_def known_ok_def)

lemma row_born: "keys_ok d \<Longrightarrow> r \<in> set (loop_runs d) \<Longrightarrow> (run_ID r, run_LoopID r, RunNumber r) \<in> set (born d)"
  by (simp add: keys_ok_def)

lemma born_unique: "keys_ok d \<Longrightarrow> (i, b) \<in> set (born d) \<Longrightarrow> (i, b') \<in> set (born d) \<Longrightarrow> b = b'"
  unfolding keys_ok_def by (metis fst_conv snd_conv)

lemma row_below: "keys_ok d \<Longrightarrow> r \<in> set (loop_runs d) \<Longrightarrow> run_ID r < next_run_ID d"
  unfolding keys_ok_def by (metis fst_conv)

text \<open>A change of the rows that keeps the identity of the runs, and one that keeps their outcome too.\<close>

definition keeps_ID :: "(loop_run \<Rightarrow> loop_run) \<Rightarrow> bool" where
  "keeps_ID f \<longleftrightarrow> (\<forall>r. run_ID (f r) = run_ID r \<and> run_LoopID (f r) = run_LoopID r \<and> RunNumber (f r) = RunNumber r)"

definition keeps_end :: "(loop_run \<Rightarrow> loop_run) \<Rightarrow> bool" where
  "keeps_end f \<longleftrightarrow> (\<forall>r. run_Status (f r) = run_Status r \<and> run_FinishedAt (f r) = run_FinishedAt r)"

lemma keys_ok_map:
  assumes "keys_ok d" "keeps_ID f"
  shows "keys_ok (d\<lparr>loop_runs := map f (loop_runs d)\<rparr>)"
proof -
  have f: "run_ID (f r) = run_ID r" "run_LoopID (f r) = run_LoopID r" "RunNumber (f r) = RunNumber r" for r
    using assms(2) by (simp_all add: keeps_ID_def)
  have "run_before (f r) (f r') = run_before r r'" for r r' by (simp add: run_before_def f)
  then show ?thesis using assms(1) unfolding keys_ok_def by (simp add: sorted_wrt_map f)
qed

lemma ends_ok_map:
  assumes "ends_ok d" "keeps_ID f" "keeps_end f"
  shows "ends_ok (d\<lparr>loop_runs := map f (loop_runs d)\<rparr>)"
proof -
  have f: "run_ID (f r) = run_ID r" "run_LoopID (f r) = run_LoopID r" "run_Status (f r) = run_Status r"
    "run_FinishedAt (f r) = run_FinishedAt r" for r
    using assms(2,3) by (simp_all add: keeps_ID_def keeps_end_def)
  show ?thesis using assms(1) unfolding ends_ok_def by (simp add: f)
qed

lemma loops_ok_run_Update:
  assumes "loops_ok d R" "keeps_ID upd" "keeps_end upd"
  shows "loops_ok (fst (run_Update i upd d)) R"
proof -
  let ?f = "\<lambda>r. if run_ID r = i then upd r else r"
  have "keeps_ID ?f" "keeps_end ?f" using assms(2,3) by (simp_all add: keeps_ID_def keeps_end_def)
  then show ?thesis using assms(1)
    by (simp add: loops_ok_def run_Update_def keys_ok_map ends_ok_map)
qed

text \<open>Finishing a run: it ends exactly if it had not ended, and the goroutine gets the credit.\<close>

definition finishes :: "string \<Rightarrow> (loop_run \<Rightarrow> loop_run) \<Rightarrow> bool" where
  "finishes st upd \<longleftrightarrow> keeps_ID upd \<and> (\<forall>r. run_Status (upd r) = st \<and> run_FinishedAt (upd r) \<noteq> None)"

lemma map_one:
  assumes "sorted_wrt run_before rs" "filter (unfinished i) rs = [x]" "r \<in> set rs"
  shows "unfinished i r \<longleftrightarrow> r = x"
proof -
  have "r \<in> set (filter (unfinished i) rs) \<longleftrightarrow> r = x" using assms(2) by simp
  then show ?thesis using assms(3) by simp
qed

lemma loops_ok_FinishRun:
  assumes ok: "loops_ok d R" and upd: "finishes st upd"
  shows "filter (unfinished i) (loop_runs d) = [] \<Longrightarrow> loops_ok (fst (FinishRun i upd d)) R"
    and "filter (unfinished i) (loop_runs d) = [x] \<Longrightarrow>
      loops_ok (fst (FinishRun i upd d)) (add_mset (Known i (run_LoopID x)) (add_mset (Credit (run_LoopID x) st) R))"
proof -
  have keys: "keys_ok d" and ends: "ends_ok d" and counts: "counts_ok d R" and known: "known_ok d R"
    using ok by (simp_all add: loops_ok_def)
  have sorted: "sorted_wrt run_before (loop_runs d)" using keys by (simp add: keys_ok_def)
  let ?f = "\<lambda>r. if unfinished i r then upd r else r"
  have f: "keeps_ID ?f" using upd by (simp add: keeps_ID_def finishes_def)
  have ID: "run_ID (upd r) = run_ID r" "run_LoopID (upd r) = run_LoopID r" "run_Status (upd r) = st"
    "run_FinishedAt (upd r) \<noteq> None" for r
    using upd by (simp_all add: keeps_ID_def finishes_def)
  show "loops_ok (fst (FinishRun i upd d)) R" if none: "filter (unfinished i) (loop_runs d) = []"
  proof -
    have "map ?f (loop_runs d) = loop_runs d" using none by (intro map_idI) (auto simp: filter_empty_conv)
    then show ?thesis using ok none by (simp add: FinishRun_def)
  qed
  assume one: "filter (unfinished i) (loop_runs d) = [x]"
  have "x \<in> set (filter (unfinished i) (loop_runs d))" using one by simp
  then have x: "x \<in> set (loop_runs d)" "unfinished i x" by simp_all
  have d': "fst (FinishRun i upd d) =
      d\<lparr>loop_runs := map ?f (loop_runs d)\<rparr>\<lparr>ended := ended d @ [(run_LoopID x, i, st)]\<rparr>"
    using one x(2) ID by (simp add: FinishRun_def unfinished_def)
  have "keys_ok (fst (FinishRun i upd d))"
    using keys_ok_map [OF keys f] unfolding d' keys_ok_def by simp
  moreover have "ends_ok (fst (FinishRun i upd d))"
  proof -
    have "i \<notin> (fst \<circ> snd) ` set (ended d)" "i < next_run_ID d"
      using ends x row_below [OF keys x(1)] by (auto simp: ends_ok_def unfinished_def)
    moreover have "r \<in> set (loop_runs d) \<Longrightarrow> \<not> unfinished i r \<Longrightarrow> run_ID r \<noteq> i" for r
      using run_before_inj [OF sorted _ x(1), of r] x(2) by (auto simp: unfinished_def)
    ultimately show ?thesis using ends map_one [OF sorted one] x
      unfolding d' ends_ok_def by (auto simp: ID unfinished_def)
  qed
  moreover have "counts_ok (fst (FinishRun i upd d)) (add_mset (Known i (run_LoopID x)) (add_mset (Credit (run_LoopID x) st) R))"
    using counts unfolding d' counts_ok_def by (auto simp: outcomes_def counter_sum_def)
  moreover have "known_ok (fst (FinishRun i upd d)) (add_mset (Known i (run_LoopID x)) (add_mset (Credit (run_LoopID x) st) R))"
    using known x row_born [OF keys x(1)] unfolding d' by (auto simp: unfinished_def known_ok_def)
  ultimately show "loops_ok (fst (FinishRun i upd d)) (add_mset (Known i (run_LoopID x)) (add_mset (Credit (run_LoopID x) st) R))"
    by (simp add: loops_ok_def)
qed

text \<open>A new run.\<close>

lemma GetMaxRunNumber_ge: "r \<in> set (loop_runs d) \<Longrightarrow> run_LoopID r = l \<Longrightarrow> RunNumber r \<le> GetMaxRunNumber l d"
  by (force simp: GetMaxRunNumber_def Let_def filter_empty_conv)

lemma number_never_used:
  "keys_ok d \<Longrightarrow> (i, l, n) \<in> set (born d) \<Longrightarrow> l \<in> loop_ID ` set (loops d) \<Longrightarrow> n \<le> GetMaxRunNumber l d"
  unfolding keys_ok_def using GetMaxRunNumber_ge [of _ d l] by fastforce

definition fresh_run :: "loop_run \<Rightarrow> loop_db \<Rightarrow> bool" where
  "fresh_run r d \<longleftrightarrow> run_ID r = next_run_ID d \<and> RunNumber r = GetMaxRunNumber (run_LoopID r) d + 1"

lemma keys_ok_insert:
  assumes keys: "keys_ok d" and fresh: "fresh_run r d"
  shows "keys_ok (insert_run r d)"
proof -
  have "run_before x r" if "x \<in> set (loop_runs d)" for x
    using row_below [OF keys that] GetMaxRunNumber_ge [OF that refl] fresh by (auto simp: run_before_def fresh_run_def)
  then have sorted: "sorted_wrt run_before (loop_runs d @ [r])" using keys by (simp add: keys_ok_def sorted_wrt_append)
  have below: "fst b < run_ID r" if "b \<in> set (born d)" for b
    using keys fresh that by (simp add: keys_ok_def fresh_run_def)
  have "b = b'" if "b \<in> set (born (insert_run r d))" "b' \<in> set (born (insert_run r d))" "fst b = fst b'" for b b'
    using that below [of b] below [of b'] keys by (auto simp: insert_run_def keys_ok_def)
  moreover have "\<exists>x \<in> set (loop_runs (insert_run r d)). run_LoopID x = fst (snd b) \<and> snd (snd b) \<le> RunNumber x"
    if "b \<in> set (born (insert_run r d))" "fst (snd b) \<in> loop_ID ` set (loops d)" for b
    using that keys by (auto simp: insert_run_def keys_ok_def)
  moreover have "fst b < next_run_ID (insert_run r d)" if "b \<in> set (born (insert_run r d))" for b
    using that below [of b] fresh by (auto simp: insert_run_def fresh_run_def)
  ultimately show ?thesis using keys sorted unfolding keys_ok_def by (auto simp: insert_run_def)
qed

lemma ends_ok_insert:
  assumes keys: "keys_ok d" and ends: "ends_ok d" and fresh: "fresh_run r d"
  shows "ends_ok (insert_run r d)"
proof -
  have new: "run_ID x \<noteq> run_ID r" if "x \<in> set (loop_runs d)" for x
    using row_below [OF keys that] fresh by (simp add: fresh_run_def)
  have old: "fst (snd e) < run_ID r" if "e \<in> set (ended d)" for e
    using ends fresh that by (simp add: ends_ok_def fresh_run_def)
  have "distinct (map (fst \<circ> snd) (ended (insert_run r d)))"
    using ends old by (force simp: insert_run_def ends_ok_def)
  moreover have "fst (snd e) < next_run_ID (insert_run r d)" if "e \<in> set (ended (insert_run r d))" for e
    using that old [of e] fresh by (auto simp: insert_run_def fresh_run_def split: if_splits)
  moreover have "run_ID r \<notin> (fst \<circ> snd) ` set (ended d)" using old by force
  ultimately show ?thesis using ends new unfolding ends_ok_def by (auto simp: insert_run_def)
qed

lemma counts_ok_insert:
  assumes "counts_ok d R"
  shows "counts_ok (insert_run r d) (add_mset (Known i l')
    ((if run_FinishedAt r = None then {#} else {#Credit (run_LoopID r) (run_Status r)#}) + R))"
proof (rule counts_okI)
  show "(c, S) \<in> counters \<Longrightarrow> x \<in> set (loops (insert_run r d)) \<Longrightarrow> 0 \<le> c x" for c S x
    using counts_okD(1) [OF assms] by (simp add: insert_run_def)
  show "counter_sum c l (insert_run r d) + credits S l (add_mset (Known i l')
      ((if run_FinishedAt r = None then {#} else {#Credit (run_LoopID r) (run_Status r)#}) + R))
    \<le> outcomes S l (insert_run r d)" if "(c, S) \<in> counters" for c S l
    using counts_okD(2) [OF assms that, of l] by (auto simp: insert_run_def counter_sum_def outcomes_def)
qed

lemma loops_ok_insert:
  assumes ok: "loops_ok d R" and fresh: "fresh_run r d"
  shows "loops_ok (insert_run r d) (add_mset (Known (run_ID r) (run_LoopID r))
    ((if run_FinishedAt r = None then {#} else {#Credit (run_LoopID r) (run_Status r)#}) + R))"
proof -
  have "\<exists>n. (run_ID r, run_LoopID r, n) \<in> set (born (insert_run r d))" by (auto simp: insert_run_def)
  moreover have "known_ok (insert_run r d) R"
    by (rule known_ok_grow [of d R]) (use ok in \<open>auto simp: loops_ok_def insert_run_def\<close>)
  ultimately have "known_ok (insert_run r d) (add_mset (Known (run_ID r) (run_LoopID r))
    ((if run_FinishedAt r = None then {#} else {#Credit (run_LoopID r) (run_Status r)#}) + R))" by simp
  then show ?thesis using ok keys_ok_insert [OF _ fresh] ends_ok_insert [OF _ _ fresh] counts_ok_insert
    by (simp add: loops_ok_def)
qed

text \<open>Changes of a loop: other columns, and its statistics.\<close>

definition keeps_loop :: "(loop \<Rightarrow> loop) \<Rightarrow> bool" where
  "keeps_loop f \<longleftrightarrow> (\<forall>l. loop_ID (f l) = loop_ID l \<and> TotalRuns (f l) = TotalRuns l \<and>
     SuccessfulRuns (f l) = SuccessfulRuns l \<and> FailedRuns (f l) = FailedRuns l)"

lemma keys_ok_loops:
  assumes "keys_ok d" "map loop_ID ls = map loop_ID (loops d)"
  shows "keys_ok (d\<lparr>loops := ls\<rparr>)"
proof -
  have "loop_ID ` set ls = loop_ID ` set (loops d)" using assms(2) by (metis set_map)
  then show ?thesis using assms unfolding keys_ok_def by simp
qed

lemma ends_ok_loops [simp]: "ends_ok (d\<lparr>loops := ls\<rparr>) = ends_ok d" "known_ok (d\<lparr>loops := ls\<rparr>) R = known_ok d R"
  by (simp_all add: ends_ok_def known_ok_def)

lemma loops_ok_loops:
  assumes ok: "loops_ok d R" and ids: "map loop_ID ls = map loop_ID (loops d)"
    and pos: "\<And>c S x. (c, S) \<in> counters \<Longrightarrow> x \<in> set ls \<Longrightarrow> 0 \<le> c x"
    and counts: "\<And>c S l. (c, S) \<in> counters \<Longrightarrow>
      counter_sum c l (d\<lparr>loops := ls\<rparr>) + credits S l R' \<le> counter_sum c l d + credits S l R"
    and known: "known_ok d R'"
  shows "loops_ok (d\<lparr>loops := ls\<rparr>) R'"
proof -
  have R: "counts_ok d R" using ok by (simp add: loops_ok_def)
  have "counts_ok (d\<lparr>loops := ls\<rparr>) R'"
  proof (rule counts_okI)
    show "counter_sum c l (d\<lparr>loops := ls\<rparr>) + credits S l R' \<le> outcomes S l (d\<lparr>loops := ls\<rparr>)" if "(c, S) \<in> counters" for c S l
      using counts [OF that, of l] counts_okD(2) [OF R that, of l] by (simp add: outcomes_def)
  qed (use pos in simp)
  then show ?thesis using ok keys_ok_loops [OF _ ids] known by (simp add: loops_ok_def)
qed

lemma loops_ok_loop_Update:
  assumes ok: "loops_ok d R" and upd: "keeps_loop upd"
  shows "loops_ok (fst (loop_Update i upd d)) R"
proof -
  let ?f = "\<lambda>l. if loop_ID l = i then upd l else l"
  have ID: "loop_ID (?f l) = loop_ID l" for l using upd by (simp add: keeps_loop_def)
  have c: "c (?f l) = c l" if "(c, S) \<in> counters" for c S l using upd that by (auto simp: keeps_loop_def counters_def)
  have R: "counts_ok d R" using ok by (simp add: loops_ok_def)
  have "loops_ok (d\<lparr>loops := map ?f (loops d)\<rparr>) R"
  proof (rule loops_ok_loops [OF ok])
    show "map loop_ID (map ?f (loops d)) = map loop_ID (loops d)" using ID by simp
    show "0 \<le> c x" if cS: "(c, S) \<in> counters" and x: "x \<in> set (map ?f (loops d))" for c S x
    proof -
      obtain y where "y \<in> set (loops d)" "x = ?f y" using x by auto
      then show ?thesis using c [OF cS, of y] counts_okD(1) [OF R cS, of y] by metis
    qed
    show "counter_sum c l (d\<lparr>loops := map ?f (loops d)\<rparr>) + credits S l R \<le> counter_sum c l d + credits S l R"
      if "(c, S) \<in> counters" for c S l
      using ID c [OF that] by (simp add: counter_sum_def filter_map comp_def)
    show "known_ok d R" using ok by (simp add: loops_ok_def)
  qed
  then show ?thesis by (simp add: loop_Update_def)
qed

lemma counter_count_run:
  "(c, S) \<in> counters \<Longrightarrow> c (count_run st t l) = c l + (if st \<in> S then 1 else 0)"
  by (auto simp: counters_def count_run_def)

lemma counter_sum_count_run:
  assumes "(c, S) \<in> counters" "distinct (map loop_ID ls)"
  shows "(\<Sum>x \<leftarrow> filter (\<lambda>x. loop_ID x = l) (map (\<lambda>x. if loop_ID x = i then count_run st t x else x) ls). c x) \<le>
    (\<Sum>x \<leftarrow> filter (\<lambda>x. loop_ID x = l) ls. c x) + (if i = l \<and> st \<in> S then 1 else 0)"
  using assms(2)
proof (induction ls)
  case (Cons x ls)
  have ID: "loop_ID (count_run st t x) = loop_ID x" by (simp add: count_run_def)
  show ?case
  proof (cases "loop_ID x = i")
    case True
    then have "map (\<lambda>x. if loop_ID x = i then count_run st t x else x) ls = ls"
      using Cons.prems by (intro map_idI) (metis imageI list.set_map list.simps(9) distinct.simps(2))
    then show ?thesis using True ID counter_count_run [OF assms(1), of st t x] by simp
  next
    case False
    then show ?thesis using Cons by (auto split: if_splits)
  qed
qed simp

lemma loops_ok_IncrementRunStats:
  assumes ok: "loops_ok d (add_mset (Credit i st) R)"
  shows "loops_ok (fst (IncrementRunStats i st t d)) R"
proof -
  let ?f = "\<lambda>l. if loop_ID l = i then count_run st t l else l"
  have R: "counts_ok d (add_mset (Credit i st) R)" and known: "known_ok d R"
    and dist: "distinct (map loop_ID (loops d))"
    using ok by (simp_all add: loops_ok_def keys_ok_def)
  have "loops_ok (d\<lparr>loops := map ?f (loops d)\<rparr>) R"
  proof (rule loops_ok_loops [OF ok])
    show "map loop_ID (map ?f (loops d)) = map loop_ID (loops d)" by (simp add: count_run_def)
    show "0 \<le> c x" if cS: "(c, S) \<in> counters" and x: "x \<in> set (map ?f (loops d))" for c S x
    proof -
      obtain y where "y \<in> set (loops d)" "x = ?f y" using x by auto
      then show ?thesis using counter_count_run [OF cS, of st t y] counts_okD(1) [OF R cS, of y] by auto
    qed
    show "counter_sum c l (d\<lparr>loops := map ?f (loops d)\<rparr>) + credits S l R \<le>
        counter_sum c l d + credits S l (add_mset (Credit i st) R)" if "(c, S) \<in> counters" for c S l
      using counter_sum_count_run [OF that dist, of l i st t] by (simp add: counter_sum_def)
  qed (rule known)
  then show ?thesis by (simp add: IncrementRunStats_def loop_Update_def)
qed

text \<open>Removing rows: old finished runs, or a loop with its runs.\<close>

lemma ends_ok_filter: "ends_ok d \<Longrightarrow> ends_ok (d\<lparr>loop_runs := filter p (loop_runs d)\<rparr>)"
  by (simp add: ends_ok_def)

lemma newest_is_kept:
  assumes "i \<in> set xs" "\<And>j. j \<in> set xs \<Longrightarrow> j \<le> i" "0 < n"
  shows "i \<in> set (take n (rev (sort (xs :: int list))))"
proof -
  let ?ys = "sort xs"
  have ne: "?ys \<noteq> []" using assms(1) by (metis empty_iff list.set(1) set_sort)
  then have "last ?ys \<in> set xs" by (metis last_in_set set_sort)
  moreover have "i \<le> last ?ys" using assms(1) ne sorted_sort [of xs]
    by (metis in_set_conv_nth last_conv_nth length_pos_if_in_set set_sort sorted_nth_mono Suc_pred diff_Suc_1 diff_less_mono2 lessI less_Suc_eq_le)
  ultimately have "last ?ys = i" using assms(2) by (simp add: order_antisym)
  then have "hd (rev ?ys) = i" using ne by (simp add: hd_rev)
  moreover have "rev ?ys \<noteq> []" using ne by simp
  ultimately show ?thesis using assms(3) by (metis hd_in_set hd_take take_eq_Nil neq0_conv)
qed

lemma keys_ok_filter:
  assumes keys: "keys_ok d"
    and newest: "\<And>r. r \<in> set (loop_runs d) \<Longrightarrow> run_LoopID r \<in> loop_ID ` set (loops d) \<Longrightarrow>
      (\<And>x. x \<in> set (loop_runs d) \<Longrightarrow> run_LoopID x = run_LoopID r \<Longrightarrow> run_ID x \<le> run_ID r) \<Longrightarrow> p r"
  shows "keys_ok (d\<lparr>loop_runs := filter p (loop_runs d)\<rparr>)"
proof -
  have "\<exists>r \<in> set (filter p (loop_runs d)). run_LoopID r = fst (snd b) \<and> snd (snd b) \<le> RunNumber r"
    if b: "b \<in> set (born d)" "fst (snd b) \<in> loop_ID ` set (loops d)" for b
  proof -
    let ?A = "{r \<in> set (loop_runs d). run_LoopID r = fst (snd b)}"
    obtain r where r: "r \<in> ?A" "snd (snd b) \<le> RunNumber r" using keys b unfolding keys_ok_def by auto
    define m where "m = Max (run_ID ` ?A)"
    have "m \<in> run_ID ` ?A" unfolding m_def using r by (intro Max_in) auto
    then obtain x where x: "x \<in> ?A" "run_ID x = m" by auto
    have top: "run_ID y \<le> m" if "y \<in> ?A" for y unfolding m_def using that by simp
    have "p x" using newest [of x] x top b(2) by auto
    moreover have "RunNumber r \<le> RunNumber x"
    proof (cases "r = x")
      case False
      then have "run_ID r \<noteq> run_ID x" using run_before_inj keys r(1) x(1) by (auto simp: keys_ok_def)
      then have "\<not> run_before x r" using top [OF r(1)] x(2) by (simp add: run_before_def)
      moreover have "sorted_wrt run_before (loop_runs d)" using keys by (simp add: keys_ok_def)
      ultimately have "run_before r x" using r(1) x(1) False
        by (auto simp: sorted_wrt_iff_nth_less in_set_conv_nth) (metis linorder_neqE_nat)
      then show ?thesis using r(1) x(1) by (simp add: run_before_def)
    qed simp
    ultimately show ?thesis using x(1) r(2) by force
  qed
  then show ?thesis using keys unfolding keys_ok_def by (simp add: sorted_wrt_filter)
qed

lemma loops_ok_DeleteOldFinishedRuns:
  assumes ok: "loops_ok d R"
  shows "loops_ok (fst (DeleteOldFinishedRuns l keep d)) R"
proof (cases "keep \<le> 0")
  case True
  then show ?thesis using ok by (simp add: DeleteOldFinishedRuns_def)
next
  case False
  let ?p = "\<lambda>r. \<not> (run_LoopID r = l \<and> run_FinishedAt r \<noteq> None \<and> run_ID r \<notin> set (newest_finished l keep d))"
  have "keys_ok (d\<lparr>loop_runs := filter ?p (loop_runs d)\<rparr>)"
  proof (rule keys_ok_filter)
    fix r
    assume r: "r \<in> set (loop_runs d)" and top: "\<And>x. x \<in> set (loop_runs d) \<Longrightarrow> run_LoopID x = run_LoopID r \<Longrightarrow> run_ID x \<le> run_ID r"
    have "run_ID r \<in> set (newest_finished l keep d)" if "run_LoopID r = l" "run_FinishedAt r \<noteq> None"
      unfolding newest_finished_def using r top that False by (intro newest_is_kept) auto
    then show "?p r" by blast
  qed (use ok in \<open>simp add: loops_ok_def\<close>)
  then show ?thesis using ok False ends_ok_filter [of d ?p] by (simp add: loops_ok_def DeleteOldFinishedRuns_def Let_def)
qed

lemma counter_sum_remove:
  assumes "\<And>x. x \<in> set (loops d) \<Longrightarrow> 0 \<le> c x"
  shows "counter_sum c l (d\<lparr>loops := filter q (loops d)\<rparr>) \<le> counter_sum c l d"
proof -
  have "(\<forall>x \<in> set ls. 0 \<le> c x) \<Longrightarrow> (\<Sum>x \<leftarrow> filter (\<lambda>x. loop_ID x = l) (filter q ls). c x) \<le>
      (\<Sum>x \<leftarrow> filter (\<lambda>x. loop_ID x = l) ls. c x)" for ls
    by (induction ls) auto
  then show ?thesis using assms by (simp add: counter_sum_def)
qed

lemma loops_ok_delete_rows:
  assumes ok: "loops_ok d R"
  shows "loops_ok (fst (delete_rows i runIDs d)) R"
proof -
  let ?p = "\<lambda>r. \<not> (run_LoopID r = i \<and> run_ID r \<in> set runIDs)"
  let ?d = "d\<lparr>loops := filter (\<lambda>x. loop_ID x \<noteq> i) (loops d), loop_runs := filter ?p (loop_runs d)\<rparr>"
  have keys: "keys_ok d" and ends: "ends_ok d" and R: "counts_ok d R" using ok by (simp_all add: loops_ok_def)
  have "keys_ok ?d" using keys unfolding keys_ok_def
    by (auto simp: sorted_wrt_filter distinct_map intro: inj_on_subset) fastforce
  moreover have "ends_ok ?d" using ends_ok_filter [OF ends, of ?p] unfolding ends_ok_def by simp
  moreover have "counts_ok ?d R"
  proof (rule counts_okI)
    show "(c, S) \<in> counters \<Longrightarrow> x \<in> set (loops ?d) \<Longrightarrow> 0 \<le> c x" for c S x using counts_okD(1) [OF R] by simp
    show "counter_sum c l ?d + credits S l R \<le> outcomes S l ?d" if "(c, S) \<in> counters" for c S l
      using counts_okD(2) [OF R that, of l] counter_sum_remove [of d c l "\<lambda>x. loop_ID x \<noteq> i"] counts_okD(1) [OF R that]
      by (simp add: outcomes_def counter_sum_def)
  qed
  ultimately show ?thesis using ok by (simp add: loops_ok_def known_ok_def delete_rows_def)
qed

section \<open>Goroutines\<close>

interpretation lr: resources loops_ok
  by unfold_locales (rule loops_ok_weaken)

text \<open>Accesses that do not touch the loops or the runs, and statements that keep the invariant.\<close>

lemma query_same [simp]: "fst (query q a d) = d"
  by (simp add: query_def split: answer.splits)

lemma fst_execute: "loops_ok d R \<Longrightarrow> loops_ok (fst (f d)) R' \<Longrightarrow> (loops_ok d R \<Longrightarrow> loops_ok d R') \<Longrightarrow>
    loops_ok (fst (execute f a d)) R'"
  by (simp add: execute_def split: answer.splits)

lemma safe_same_view:
  assumes "\<And>a d. same_view d (fst (f a d))" and "\<And>r. safe_go loops_ok R (k r)"
  shows "safe_go loops_ok R (access f k)"
  using assms loops_ok_same_view by (intro lr.safe_neutral) blast

lemma safe_execute:
  assumes "\<And>d R. loops_ok d R \<Longrightarrow> loops_ok (fst (f d)) R" and "\<And>r. safe_go loops_ok R (k r)"
  shows "safe_go loops_ok R (access (execute f) k)"
  using assms by (intro lr.safe_neutral) (auto intro: fst_execute)

lemma safe_query:
  assumes "\<And>r. safe_go loops_ok R (k r)"
  shows "safe_go loops_ok R (access (query q) k)"
  using assms by (intro lr.safe_neutral) simp_all

lemma safe_time_Now: "(\<And>t. safe_go loops_ok R (k t)) \<Longrightarrow> safe_go loops_ok R (time_Now k)"
  unfolding time_Now_def by (intro lr.safe_neutral) simp_all

lemma safe_publishRunEvent: "safe_go loops_ok R k \<Longrightarrow> safe_go loops_ok R (publishRunEvent deps t r k)"
  by (auto simp: publishRunEvent_def same_view_def intro!: safe_same_view)

lemma safe_terminate: "safe_go loops_ok R k \<Longrightarrow> safe_go loops_ok R (terminate_if_any deps pk k)"
  by (auto simp: terminate_if_any_def TerminatePod_def same_view_def execute_def
      intro!: safe_same_view split: option.splits answer.splits)

lemma safe_SetRunPodKey: "(\<And>r. safe_go loops_ok R (k r)) \<Longrightarrow> safe_go loops_ok R (SetRunPodKey i pk ak k)"
  unfolding SetRunPodKey_def
  by (rule safe_execute) (simp_all add: loops_ok_run_Update keeps_ID_def keeps_end_def)

lemma safe_UpdateRunStats:
  assumes "safe_go loops_ok R k"
  shows "safe_go loops_ok (add_mset (Credit l st) R) (UpdateRunStats l st t k)"
  unfolding UpdateRunStats_def
proof (rule lr.safe_access)
  fix a d F
  assume ok: "loops_ok d (add_mset (Credit l st) R + F)"
  then have "loops_ok d (add_mset (Credit l st) (R + F))" by simp
  then have "loops_ok (fst (execute (IncrementRunStats l st t) a d)) (R + F)"
    using loops_ok_IncrementRunStats loops_ok_weaken [of d "{#Credit l st#}" "R + F"] by (auto intro: fst_execute)
  then show "\<exists>R'. safe_go loops_ok R' k \<and> loops_ok (fst (execute (IncrementRunStats l st t) a d)) (R' + F)"
    using assms by blast
qed

text \<open>Reading a run.\<close>

lemma resolve_one_keeps [simp]:
  "run_ID (resolve_one p m r) = run_ID r" "run_LoopID (resolve_one p m r) = run_LoopID r"
  by (simp_all add: resolve_one_def ResolveStatus_def Let_def split: option.splits)

lemma safe_resolveRunStatuses:
  assumes "\<And>f. (\<And>r. run_ID (f r) = run_ID r) \<Longrightarrow> (\<And>r. run_LoopID (f r) = run_LoopID r) \<Longrightarrow> safe_go loops_ok R (k (map f runs))"
  shows "safe_go loops_ok R (resolveRunStatuses runs k)"
proof -
  have "safe_go loops_ok R (k runs)" using assms [of id] by simp
  moreover have "safe_go loops_ok R (k (map (resolve_one p m) runs))" for p m using assms by simp
  ultimately show ?thesis by (auto simp: resolveRunStatuses_def Let_def intro!: safe_query)
qed

lemma safe_resolveRunStatus:
  assumes "\<And>r'. run_ID r' = run_ID r \<Longrightarrow> run_LoopID r' = run_LoopID r \<Longrightarrow> safe_go loops_ok R (k r')"
  shows "safe_go loops_ok R (resolveRunStatus r k)"
  using assms by (auto simp: resolveRunStatus_def intro!: safe_resolveRunStatuses)

text \<open>What a query returns is a row of the table, so the goroutine knows its loop.\<close>

lemma first_row_Inr: "first_row p xs = Inr x \<Longrightarrow> x \<in> set xs \<and> p x"
  by (auto simp: first_row_def find_Some_iff split: option.splits)

lemma loops_ok_Known:
  "loops_ok d R \<Longrightarrow> r \<in> set (loop_runs d) \<Longrightarrow> loops_ok d (add_mset (Known (run_ID r) (run_LoopID r)) R)"
  by (auto simp: loops_ok_def counts_ok_def dest: row_born)

lemma Known_unique:
  assumes "loops_ok d (R + F)" "r \<in> set (loop_runs d)" "Known (run_ID r) l \<in># R"
  shows "l = run_LoopID r"
proof -
  obtain n where "(run_ID r, l, n) \<in> set (born d)" using assms(1,3) unfolding loops_ok_def known_ok_def by (metis union_iff)
  then show ?thesis using assms(1) born_unique [OF _ row_born [OF _ assms(2)]] by (fastforce simp: loops_ok_def)
qed

lemma loops_ok_Knowns:
  "loops_ok d R \<Longrightarrow> set rs \<subseteq> set (loop_runs d) \<Longrightarrow>
     loops_ok d (mset (map (\<lambda>r. Known (run_ID r) (run_LoopID r)) rs) + R)"
  by (induction rs) (auto intro: loops_ok_Known)

lemma query_run_cases:
  obtains e where "snd (query q a d) = Inl e" | r where "snd (query q a d) = Inr r" "q d = Inr r"
  by (cases a; cases "q d") (auto simp: query_def)

lemma safe_query_run:
  assumes "\<And>d r. q d = Inr r \<Longrightarrow> r \<in> set (loop_runs d)"
    and "\<And>e. safe_go loops_ok R (k (Inl e))"
    and "\<And>r. (\<exists>d. q d = Inr r) \<Longrightarrow> (\<forall>l. Known (run_ID r) l \<in># R \<longrightarrow> l = run_LoopID r) \<Longrightarrow>
      safe_go loops_ok (add_mset (Known (run_ID r) (run_LoopID r)) R) (k (Inr r))"
  shows "safe_go loops_ok R (access (query q) k)"
proof (rule lr.safe_access)
  fix a d F
  assume ok: "loops_ok d (R + F)"
  show "\<exists>R'. safe_go loops_ok R' (k (snd (query q a d))) \<and> loops_ok (fst (query q a d)) (R' + F)"
  proof (rule query_run_cases [of q a d])
    fix e
    assume "snd (query q a d) = Inl e"
    then show ?thesis using assms(2) [of e] ok by auto
  next
    fix r
    assume r: "snd (query q a d) = Inr r" "q d = Inr r"
    have "loops_ok d (add_mset (Known (run_ID r) (run_LoopID r)) R + F)"
      using loops_ok_Known [OF ok assms(1) [OF r(2)]] by simp
    moreover have "safe_go loops_ok (add_mset (Known (run_ID r) (run_LoopID r)) R) (k (Inr r))"
      using assms(3) [of r] r(2) Known_unique [OF ok assms(1) [OF r(2)]] by blast
    ultimately show ?thesis unfolding r(1) query_same by blast
  qed
qed

lemma safe_query_runs:
  assumes "\<And>d. set (q d) \<subseteq> set (loop_runs d)"
    and "\<And>rs. safe_go loops_ok (mset (map (\<lambda>r. Known (run_ID r) (run_LoopID r)) rs) + R) (k rs)"
  shows "safe_go loops_ok R (access (query (\<lambda>d. Inr (q d))) (\<lambda>r. k (or_empty r)))"
proof (rule lr.safe_access)
  fix a d F
  assume ok: "loops_ok d (R + F)"
  have "set (or_empty (snd (query (\<lambda>d. Inr (q d)) a d))) \<subseteq> set (loop_runs d)"
    using assms(1) by (auto simp: query_def or_empty_def split: answer.splits)
  note known = loops_ok_Knowns [OF ok this, folded add.assoc]
  show "\<exists>R'. safe_go loops_ok R' (k (or_empty (snd (query (\<lambda>d. Inr (q d)) a d)))) \<and>
      loops_ok (fst (query (\<lambda>d. Inr (q d)) a d)) (R' + F)"
    unfolding query_same by (rule exI, rule conjI, rule assms(2), rule known)
qed

text \<open>Finishing a run.\<close>

lemma safe_FinishRun:
  assumes upd: "finishes st upd"
    and fails: "\<And>e. safe_go loops_ok R (k (Inl e))"
    and already: "safe_go loops_ok R (k (Inr False))"
    and done_now: "\<And>l. (\<forall>l'. Known i l' \<in># R \<longrightarrow> l' = l) \<Longrightarrow>
      safe_go loops_ok (add_mset (Known i l) (add_mset (Credit l st) R)) (k (Inr True))"
  shows "safe_go loops_ok R (access (execute (FinishRun i upd)) k)"
proof (rule lr.safe_access)
  fix a d F
  assume ok: "loops_ok d (R + F)"
  let ?goal = "\<exists>R'. safe_go loops_ok R' (k (snd (execute (FinishRun i upd) a d))) \<and>
      loops_ok (fst (execute (FinishRun i upd) a d)) (R' + F)"
  consider e where "execute (FinishRun i upd) a d = (d, Inl e)" | "execute (FinishRun i upd) a d = FinishRun i upd d"
    by (cases a) (auto simp: execute_def)
  then show ?goal
  proof cases
    case 1
    then show ?thesis using fails ok by auto
  next
    case 2
    have sorted: "sorted_wrt run_before (loop_runs d)" using ok by (simp add: loops_ok_def keys_ok_def)
    show ?thesis
    proof (rule disjE [OF filter_unfinished [OF sorted, of i]])
      assume none: "filter (unfinished i) (loop_runs d) = []"
      then have "snd (FinishRun i upd d) = Inr False" by (simp add: FinishRun_def)
      then show ?thesis unfolding 2 using already loops_ok_FinishRun(1) [OF ok upd none] by auto
    next
      assume "\<exists>r. filter (unfinished i) (loop_runs d) = [r] \<and> r \<in> set (loop_runs d)"
      then obtain r where r: "filter (unfinished i) (loop_runs d) = [r]" "r \<in> set (loop_runs d)" by blast
      then have "r \<in> set (filter (unfinished i) (loop_runs d))" by simp
      then have ID: "run_ID r = i" by (simp add: unfinished_def)
      have "snd (FinishRun i upd d) = Inr True" using r by (simp add: FinishRun_def)
      moreover have "safe_go loops_ok (add_mset (Known i (run_LoopID r)) (add_mset (Credit (run_LoopID r) st) R)) (k (Inr True))"
        using done_now Known_unique [OF ok r(2)] ID by blast
      moreover have "loops_ok (fst (FinishRun i upd d)) (add_mset (Known i (run_LoopID r)) (add_mset (Credit (run_LoopID r) st) R) + F)"
        using loops_ok_FinishRun(2) [OF ok upd r(1)] by simp
      ultimately show ?thesis unfolding 2 by metis
    qed
  qed
qed

lemma run_GetByID_row: "run_GetByID i d = Inr r \<Longrightarrow> r \<in> set (loop_runs d) \<and> run_ID r = i"
  by (auto simp: run_GetByID_def dest: first_row_Inr)

lemma safe_GetRun:
  assumes "\<And>e. safe_go loops_ok R (k (Inl e))"
    and "\<And>r. run_ID r = i \<Longrightarrow> (\<forall>l. Known i l \<in># R \<longrightarrow> l = run_LoopID r) \<Longrightarrow> safe_go loops_ok R (k (Inr r))"
  shows "safe_go loops_ok R (GetRun i k)"
  unfolding GetRun_def
proof (rule safe_query_run)
  fix r
  assume "\<exists>d. run_GetByID i d = Inr r" and known: "\<forall>l. Known (run_ID r) l \<in># R \<longrightarrow> l = run_LoopID r"
  then have ID: "run_ID r = i" using run_GetByID_row by blast
  have "safe_go loops_ok (add_mset (Known (run_ID r) (run_LoopID r)) R) (k (Inr r'))"
    if "run_ID r' = run_ID r" "run_LoopID r' = run_LoopID r" for r'
    using assms(2) [of r'] that ID known by (auto intro: safe_go_mono)
  then show "safe_go loops_ok (add_mset (Known (run_ID r) (run_LoopID r)) R)
      (case Inr r of Inl e \<Rightarrow> k (Inl e) | Inr run \<Rightarrow> resolveRunStatus run (\<lambda>run. k (Inr run)))"
    by (auto intro: safe_resolveRunStatus)
qed (use assms(1) run_GetByID_row in auto)

lemma safe_markRunTerminal:
  assumes "\<And>r. safe_go loops_ok R (k r)"
  shows "safe_go loops_ok R (markRunTerminal deps i st msg k)"
  unfolding markRunTerminal_def
proof (intro safe_time_Now safe_FinishRun)
  show "finishes st (\<lambda>r. r\<lparr>run_Status := st, run_FinishedAt := Some now, ErrorMessage := Some msg\<rparr>)" for now
    by (simp add: finishes_def keeps_ID_def)
next
  fix now l
  let ?R = "add_mset (Known i l) (add_mset (Credit l st) R)"
  have k: "safe_go loops_ok R' (k r)" if "R \<subseteq># R'" for r R' using assms that by (auto intro: safe_go_mono)
  have "safe_go loops_ok ?R (publishRunEvent deps EventLoopRunFailed r (UpdateRunStats (run_LoopID r) st now (k (Inr ()))))"
    if "run_LoopID r = l" for r
  proof (rule safe_publishRunEvent)
    have "safe_go loops_ok (add_mset (Credit l st) (add_mset (Known i l) R)) (UpdateRunStats l st now (k (Inr ())))"
      by (intro safe_UpdateRunStats k) simp
    then show "safe_go loops_ok ?R (UpdateRunStats (run_LoopID r) st now (k (Inr ())))"
      using that by (simp add: add_mset_commute)
  qed
  moreover have "safe_go loops_ok ?R (k (Inr ()))" by (rule k) (simp add: subset_mset.le_iff_add)
  ultimately show "safe_go loops_ok ?R
      (case Inr True of Inl e \<Rightarrow> k (Inl e)
       | Inr u \<Rightarrow> if \<not> u then k (Inr ())
           else GetRun i (\<lambda>r. case r of Inl _ \<Rightarrow> k (Inr ())
                 | Inr run \<Rightarrow> publishRunEvent deps EventLoopRunFailed run (UpdateRunStats (run_LoopID run) st now (k (Inr ())))))"
    by (auto intro!: safe_GetRun)
qed (use assms in simp_all)

lemma safe_ClearRuntimeState: "safe_go loops_ok R k \<Longrightarrow> safe_go loops_ok R (ClearRuntimeState l k)"
  unfolding ClearRuntimeState_def by (rule safe_execute) (simp_all add: loops_ok_loop_Update keeps_loop_def)

lemma safe_UpdateRuntimeState: "safe_go loops_ok R k \<Longrightarrow> safe_go loops_ok R (UpdateRuntimeState l sp pk k)"
  unfolding UpdateRuntimeState_def
  by (auto intro!: safe_execute simp: loops_ok_loop_Update keeps_loop_def)

lemma safe_update_runtime: "safe_go loops_ok R k \<Longrightarrow> safe_go loops_ok R (update_runtime run l st k)"
  by (auto simp: update_runtime_def safe_ClearRuntimeState safe_UpdateRuntimeState split: sum.splits)

text \<open>A goroutine that is started on the side needs nothing.\<close>

lemma safe_fork: "safe_go loops_ok {#} p \<Longrightarrow> safe_go loops_ok R q \<Longrightarrow> safe_go loops_ok R (p @ q)"
  using safe_go_append [of loops_ok "{#}" p R q] by simp

lemma safe_notify: "safe_go loops_ok R k \<Longrightarrow> safe_go loops_ok R (notify deps run l st k)"
  by (auto simp: notify_def same_view_def loops_ok_DeleteOldFinishedRuns
      intro!: safe_fork safe_same_view safe_execute split: sum.splits option.splits)

lemma safe_HandleRunCompleted:
  assumes k: "safe_go loops_ok R k" and known: "Known (run_ID run) (run_LoopID run) \<in># R"
  shows "safe_go loops_ok R (HandleRunCompleted deps run st k)"
  unfolding HandleRunCompleted_def
proof (intro safe_time_Now safe_FinishRun)
  show "finishes st (\<lambda>r. r\<lparr>run_Status := st, run_FinishedAt := Some now,
      DurationSec := (case StartedAt run of None \<Rightarrow> DurationSec r | Some t \<Rightarrow> Some (seconds_of (now - t)))\<rparr>)" for now
    by (simp add: finishes_def keeps_ID_def)
next
  fix now l
  assume "\<forall>l'. Known (run_ID run) l' \<in># R \<longrightarrow> l' = l"
  then have l: "l = run_LoopID run" using known by blast
  let ?run = "run\<lparr>run_Status := st, run_FinishedAt := Some now\<rparr>"
  let ?rest = "access (query (loop_GetByID (run_LoopID ?run))) (\<lambda>l. update_runtime ?run l st
      (publishRunEvent deps (if counts_failed st then EventLoopRunFailed else EventLoopRunCompleted) ?run
        (notify deps ?run l st k)))"
  have "safe_go loops_ok (add_mset (Known (run_ID run) l) R) k" using k by (rule safe_go_mono) simp
  then have "safe_go loops_ok (add_mset (Known (run_ID run) l) R) ?rest"
    by (intro safe_query safe_update_runtime safe_publishRunEvent safe_notify)
  then have "safe_go loops_ok (add_mset (Credit l st) (add_mset (Known (run_ID run) l) R)) (UpdateRunStats l st now ?rest)"
    by (rule safe_UpdateRunStats)
  then show "safe_go loops_ok (add_mset (Known (run_ID run) l) (add_mset (Credit l st) R))
      (case Inr True of Inl _ \<Rightarrow> k
       | Inr u \<Rightarrow> if \<not> u then k
           else let run = run\<lparr>run_Status := st, run_FinishedAt := Some now\<rparr>;
                    eventType = (if counts_failed st then EventLoopRunFailed else EventLoopRunCompleted)
                in UpdateRunStats (run_LoopID run) st now
                   (access (query (loop_GetByID (run_LoopID run))) (\<lambda>l.
                      update_runtime run l st (publishRunEvent deps eventType run (notify deps run l st k)))))"
    using l by (simp add: Let_def add_mset_commute)
qed (use k in simp_all)

lemma safe_HandlePodTerminated:
  assumes "safe_go loops_ok R k"
  shows "safe_go loops_ok R (HandlePodTerminated deps pk st k)"
  unfolding HandlePodTerminated_def
proof (rule safe_query_run)
  show "GetActiveRunByPodKey pk d = Inr r \<Longrightarrow> r \<in> set (loop_runs d)" for d r
    by (auto simp: GetActiveRunByPodKey_def dest: first_row_Inr)
  fix r :: loop_run
  let ?R = "add_mset (Known (run_ID r) (run_LoopID r)) R"
  have "safe_go loops_ok ?R k" using assms by (rule safe_go_mono) simp
  then have "safe_go loops_ok ?R (let s = DeriveRunStatus st phase in if s = RunStatusRunning then k
      else HandleRunCompleted deps r s k)" for phase
    by (simp add: Let_def safe_HandleRunCompleted)
  then show "safe_go loops_ok ?R (case Inr r of Inl _ \<Rightarrow> k | Inr run \<Rightarrow>
      let continue = (\<lambda>phase. let s = DeriveRunStatus st phase in if s = RunStatusRunning then k
            else HandleRunCompleted deps run s k)
      in case AutopilotControllerKey run of None \<Rightarrow> continue [] | Some key \<Rightarrow> GetAutopilotPhase key continue)"
    by (cases "AutopilotControllerKey r") (simp_all add: GetAutopilotPhase_def Let_def safe_query split del: if_split)
qed (use assms in simp)

lemma safe_HandleAutopilotTerminated:
  assumes "safe_go loops_ok R k"
  shows "safe_go loops_ok R (HandleAutopilotTerminated deps ak phase k)"
proof -
  have "safe_go loops_ok R (access (query (GetByAutopilotKey ak)) (\<lambda>r. case r of Inl _ \<Rightarrow> k
      | Inr run \<Rightarrow> HandleRunCompleted deps run (DeriveRunStatus [] phase) k))"
  proof (rule safe_query_run)
    show "GetByAutopilotKey ak d = Inr r \<Longrightarrow> r \<in> set (loop_runs d)" for d r
      by (auto simp: GetByAutopilotKey_def dest: first_row_Inr)
    show "safe_go loops_ok (add_mset (Known (run_ID r) (run_LoopID r)) R) (case Inr r of Inl _ \<Rightarrow> k
      | Inr run \<Rightarrow> HandleRunCompleted deps run (DeriveRunStatus [] phase) k)" for r
      using assms by (auto intro!: safe_HandleRunCompleted intro: safe_go_mono)
  qed (use assms in simp)
  then show ?thesis using assms by (simp add: HandleAutopilotTerminated_def)
qed

lemma safe_complete_each:
  assumes "\<And>r. r \<in> set runs \<Longrightarrow> Known (run_ID r) (run_LoopID r) \<in># R" "safe_go loops_ok R k"
  shows "safe_go loops_ok R (complete_each deps st runs k)"
  using assms(1) by (induction runs) (auto intro!: safe_HandleRunCompleted safe_terminate assms(2))

lemma safe_check_runs:
  assumes "\<And>d. set (q d) \<subseteq> set (loop_runs d)" "safe_go loops_ok R k"
  shows "safe_go loops_ok R (access (query (\<lambda>d. Inr (q d))) (\<lambda>r. complete_each deps st (or_empty r) k))"
proof (rule safe_query_runs [OF assms(1)])
  show "safe_go loops_ok (mset (map (\<lambda>r. Known (run_ID r) (run_LoopID r)) rs) + R) (complete_each deps st rs k)" for rs
    using assms(2) by (intro safe_complete_each) (auto intro: safe_go_mono)
qed

lemma safe_CheckTimeoutRuns: "safe_go loops_ok R k \<Longrightarrow> safe_go loops_ok R (CheckTimeoutRuns deps orgs k)"
  unfolding CheckTimeoutRuns_def by (rule safe_check_runs) (auto simp: GetTimedOutRuns_def)

lemma safe_CheckIdleLoopPods: "safe_go loops_ok R k \<Longrightarrow> safe_go loops_ok R (CheckIdleLoopPods deps orgs k)"
  unfolding CheckIdleLoopPods_def by (rule safe_check_runs) (auto simp: GetIdleLoopPods_def)

lemma safe_stop_each: "safe_go loops_ok R k \<Longrightarrow> safe_go loops_ok R (stop_each deps cs k)"
  by (induction cs) (auto simp: stop_autopilot_def execute_def same_view_def
      intro!: safe_same_view safe_terminate split: sum.splits answer.splits)

lemma safe_CheckApprovalTimeouts: "safe_go loops_ok R k \<Longrightarrow> safe_go loops_ok R (CheckApprovalTimeouts deps orgs k)"
  by (auto simp: CheckApprovalTimeouts_def intro!: safe_query safe_stop_each)

lemma safe_MarkRunFailed: "(\<And>r. safe_go loops_ok R (k r)) \<Longrightarrow> safe_go loops_ok R (MarkRunFailed deps i msg k)"
  unfolding MarkRunFailed_def by (rule safe_markRunTerminal)

lemma safe_fail_each: "safe_go loops_ok R k \<Longrightarrow> safe_go loops_ok R (fail_each deps rs k)"
  by (induction rs) (auto intro!: safe_MarkRunFailed)

lemma safe_CleanupOrphanPendingRuns:
  "safe_go loops_ok R k \<Longrightarrow> safe_go loops_ok R (CleanupOrphanPendingRuns deps orgs k)"
  by (auto simp: CleanupOrphanPendingRuns_def intro!: safe_query safe_fail_each)

lemma safe_runTimeoutLoop: "safe_go loops_ok R (runTimeoutLoop deps orgs)"
  unfolding runTimeoutLoop_def
  by (intro safe_CheckTimeoutRuns safe_CheckApprovalTimeouts safe_CheckIdleLoopPods safe_CleanupOrphanPendingRuns) simp

lemma safe_recovered: "safe_go loops_ok R (recovered deps run e)"
  unfolding recovered_def by (rule safe_MarkRunFailed) simp

lemma safe_CreatePod: "(\<And>r. safe_go loops_ok R (k r)) \<Longrightarrow> safe_go loops_ok R (access (CreatePod req) k)"
  by (rule safe_same_view) (auto simp: CreatePod_def same_view_def Let_def split: answer.splits)

lemma safe_pod_started: "safe_go loops_ok R (pod_started deps l run key)"
  by (auto simp: pod_started_def CreateAndStart_def same_view_def
      intro!: safe_same_view safe_SetRunPodKey safe_terminate safe_MarkRunFailed safe_recovered split: answer.splits)

lemma safe_create_pod_for: "safe_go loops_ok R (create_pod_for deps l run req)"
  by (auto simp: create_pod_for_def publishWarningEvent_def
      intro!: safe_CreatePod safe_pod_started safe_recovered safe_MarkRunFailed safe_publishRunEvent
        safe_ClearRuntimeState split: answer.splits)

lemma safe_StartRun: "safe_go loops_ok R (StartRun deps json order l run user)"
  by (auto simp: StartRun_def loops_ok_run_Update keeps_ID_def keeps_end_def
      intro!: safe_MarkRunFailed safe_GetRun safe_recovered safe_execute safe_create_pod_for split: option.splits)

lemma TriggerRunAtomic_cases:
  obtains e where "TriggerRunAtomic params d = (d, Inl e)"
  | r res where "TriggerRunAtomic params d = (insert_run r d, Inr res)" "fresh_run r d" "tr_Run res = r"
      "loop_ID (tr_Loop res) = run_LoopID r" "Skipped res \<longleftrightarrow> run_FinishedAt r \<noteq> None"
      "Skipped res \<Longrightarrow> run_Status r = RunStatusSkipped"
proof (cases "loop_GetByID (tp_LoopID params) d")
  case (Inl e)
  then show thesis using that(1) by (simp add: TriggerRunAtomic_def)
next
  case (Inr l)
  show thesis
  proof (cases "IsEnabled l")
    case False
    then show thesis using that(1) Inr by (simp add: TriggerRunAtomic_def)
  next
    case True
    show thesis
    proof (cases "CountActiveRuns (loop_ID l) d \<ge> MaxConcurrentRuns l")
      case full: True
      show thesis
        by (rule that(2) [of "skipped_run l params d" "projr (snd (TriggerRunAtomic params d))"])
          (use Inr True full in \<open>simp_all add: TriggerRunAtomic_def handleConcurrencyPolicy_def Let_def fresh_run_def
            skipped_run_def new_run_def\<close>)
    next
      case free: False
      show thesis
        by (rule that(2) [of "new_run l params d" "projr (snd (TriggerRunAtomic params d))"])
          (use Inr True free in \<open>simp_all add: TriggerRunAtomic_def Let_def fresh_run_def new_run_def\<close>)
    qed
  qed
qed

lemma safe_TriggerRun:
  assumes k: "\<And>r. safe_go loops_ok R (k r)"
  shows "safe_go loops_ok R (TriggerRun deps params k)"
  unfolding TriggerRun_def
proof (rule lr.safe_access)
  fix a d F
  assume ok: "loops_ok d (R + F)"
  let ?k = "\<lambda>r. case r of Inl e \<Rightarrow> k (Inl e) | Inr result \<Rightarrow> if Skipped result
      then time_Now (\<lambda>now. UpdateRunStats (loop_ID (tr_Loop result)) RunStatusSkipped now (k (Inr result)))
      else publishRunEvent deps EventLoopRunStarted (tr_Run result) (k (Inr result))"
  consider e where "execute (TriggerRunAtomic params) a d = (d, Inl e)"
    | "execute (TriggerRunAtomic params) a d = TriggerRunAtomic params d"
    by (cases a) (auto simp: execute_def)
  then show "\<exists>R'. safe_go loops_ok R' (?k (snd (execute (TriggerRunAtomic params) a d))) \<and>
      loops_ok (fst (execute (TriggerRunAtomic params) a d)) (R' + F)"
  proof cases
    case 1
    then show ?thesis using k ok by auto
  next
    case 2
    show ?thesis
    proof (rule TriggerRunAtomic_cases [of params d])
      fix e
      assume "TriggerRunAtomic params d = (d, Inl e)"
      then show ?thesis unfolding 2 using k ok by auto
    next
      fix r res
      assume res: "TriggerRunAtomic params d = (insert_run r d, Inr res)" and fresh: "fresh_run r d"
        and l: "loop_ID (tr_Loop res) = run_LoopID r" and sk: "Skipped res \<longleftrightarrow> run_FinishedAt r \<noteq> None"
        and st: "Skipped res \<Longrightarrow> run_Status r = RunStatusSkipped"
      let ?R = "(if run_FinishedAt r = None then {#} else {#Credit (run_LoopID r) (run_Status r)#}) + R"
      have "safe_go loops_ok ?R (?k (Inr res))"
        using l sk st k by (auto intro!: safe_time_Now safe_UpdateRunStats safe_publishRunEvent)
      moreover have "loops_ok (insert_run r d) (?R + F)"
        using loops_ok_weaken [of _ "{#Known (run_ID r) (run_LoopID r)#}"] loops_ok_insert [OF ok fresh] by (simp add: add.assoc)
      ultimately show ?thesis unfolding 2 res fst_conv snd_conv by blast
    qed
  qed
qed

lemma safe_ClaimCronLoop:
  assumes "\<And>r. safe_go loops_ok R (k r)"
  shows "safe_go loops_ok R (access (ClaimCronLoop i t) k)"
proof (rule lr.safe_neutral)
  show "loops_ok d R \<Longrightarrow> loops_ok (fst (ClaimCronLoop i t a d)) R" for a d R
    by (auto simp: ClaimCronLoop_def Let_def intro: loops_ok_loop_Update simp: keeps_loop_def split: answer.splits)
qed (rule assms)

lemma safe_trigger_each: "safe_go loops_ok {#} (trigger_each deps json order next_run ls)"
  by (induction ls) (auto simp: Let_def
      intro!: safe_time_Now safe_ClaimCronLoop safe_TriggerRun safe_fork safe_StartRun split: option.splits sum.splits)

lemma safe_initialize_each: "safe_go loops_ok {#} (initialize_each next_run ls)"
  by (induction ls) (auto simp: loops_ok_loop_Update keeps_loop_def
      intro!: safe_time_Now safe_execute split: option.splits)

lemma safe_CancelRun: "safe_go loops_ok {#} (CancelRun deps l i)"
  by (auto simp: CancelRun_def MarkRunCancelled_def intro!: safe_GetRun safe_terminate safe_markRunTerminal)

section \<open>Creating and editing loops\<close>

lemma loops_ok_create:
  assumes ok: "loops_ok d R" and new: "loop_ID l \<notin> loop_ID ` set (loops d)" "loop_ID l \<notin> (fst \<circ> snd) ` set (born d)"
    and zero: "TotalRuns l = 0" "SuccessfulRuns l = 0" "FailedRuns l = 0"
  shows "loops_ok (d\<lparr>loops := loops d @ [l]\<rparr>) R"
proof -
  have R: "counts_ok d R" and keys: "keys_ok d" using ok by (simp_all add: loops_ok_def)
  have z: "c l = 0" if "(c, S) \<in> counters" for c S using that zero by (auto simp: counters_def)
  have "counts_ok (d\<lparr>loops := loops d @ [l]\<rparr>) R"
  proof (rule counts_okI)
    show "0 \<le> c x" if "(c, S) \<in> counters" "x \<in> set (loops (d\<lparr>loops := loops d @ [l]\<rparr>))" for c S x
      using counts_okD(1) [OF R that(1), of x] z [OF that(1)] that(2) by auto
    show "counter_sum c i (d\<lparr>loops := loops d @ [l]\<rparr>) + credits S i R \<le> outcomes S i (d\<lparr>loops := loops d @ [l]\<rparr>)"
      if "(c, S) \<in> counters" for c S i
      using counts_okD(2) [OF R that, of i] z [OF that] by (simp add: counter_sum_def outcomes_def)
  qed
  moreover have "keys_ok (d\<lparr>loops := loops d @ [l]\<rparr>)"
  proof -
    have "fst (snd b) \<noteq> loop_ID l" if "b \<in> set (born d)" for b using new(2) that by force
    moreover have "distinct (map loop_ID (loops d @ [l]))" using keys new(1) by (simp add: keys_ok_def)
    ultimately show ?thesis using keys unfolding keys_ok_def by simp
  qed
  ultimately show ?thesis using ok by (simp add: loops_ok_def)
qed

text \<open>The key of a new loop is new.\<close>

lemma fold_max_upper: "x \<in> set xs \<union> {m} \<Longrightarrow> x \<le> fold max xs (m :: int)"
proof (induction xs arbitrary: x m)
  case (Cons y ys)
  have "fold max (y # ys) m = fold max ys (max y m)" by simp
  moreover have "max y m \<le> fold max ys (max y m)" using Cons.IH [of "max y m" "max y m"] by simp
  ultimately show ?case using Cons by auto
qed simp

lemma next_loop_ID_fresh:
  "next_loop_ID d \<notin> loop_ID ` set (loops d)" "next_loop_ID d \<notin> (fst \<circ> snd) ` set (born d)"
proof -
  have "x < next_loop_ID d" if "x \<in> loop_ID ` set (loops d) \<union> (fst \<circ> snd) ` set (born d)" for x
    using that fold_max_upper [of x "map loop_ID (loops d) @ map (\<lambda>b. fst (snd b)) (born d)" 0] unfolding next_loop_ID_def by force
  then show "next_loop_ID d \<notin> loop_ID ` set (loops d)" "next_loop_ID d \<notin> (fst \<circ> snd) ` set (born d)" by blast+
qed

lemma loops_ok_loop_Create: "loops_ok d R \<Longrightarrow> TotalRuns l = 0 \<Longrightarrow> SuccessfulRuns l = 0 \<Longrightarrow> FailedRuns l = 0 \<Longrightarrow>
    loops_ok (fst (loop_Create l d)) R"
  using loops_ok_create [of d R "(gorm_defaults l)\<lparr>loop_ID := next_loop_ID d\<rparr>"] next_loop_ID_fresh [of d]
  by (simp add: loop_Create_def gorm_defaults_def Let_def)

lemma safe_next_time:
  "safe_go loops_ok R p \<Longrightarrow> (\<And>t. safe_go loops_ok R (k t)) \<Longrightarrow> safe_go loops_ok R (next_time lib expr p k)"
  unfolding next_time_def by (auto intro: safe_time_Now split: option.splits list.splits)

lemma safe_LoopService_Create:
  assumes "\<And>r. safe_go loops_ok R (k r)"
  shows "safe_go loops_ok R (LoopService_Create lib req k)"
proof -
  have "safe_go loops_ok R (insert_loop (new_loop req slug t) k)" for slug t
    unfolding insert_loop_def
    by (rule safe_execute) (auto simp: assms loops_ok_loop_Create new_loop_def split: sum.splits loop_error.splits)
  then have "safe_go loops_ok R (create_slugged lib req slug k)" for slug
    using assms by (simp add: create_slugged_def Let_def safe_next_time)
  then show ?thesis unfolding LoopService_Create_def by (auto intro: safe_time_Now)
qed

lemma safe_LoopService_GetBySlug:
  "(\<And>r. safe_go loops_ok R (k r)) \<Longrightarrow> safe_go loops_ok R (LoopService_GetBySlug orgID slug k)"
  unfolding LoopService_GetBySlug_def by (auto intro!: safe_query split: sum.splits)

lemma safe_update_row:
  assumes "\<And>r. safe_go loops_ok R (k r)" "keeps_loop upd"
  shows "safe_go loops_ok R (update_row loopID upd orgID slug k)"
  unfolding update_row_def
  by (rule safe_execute) (auto simp: assms loops_ok_loop_Update safe_LoopService_GetBySlug split: sum.splits)

lemma safe_LoopService_Update:
  "(\<And>r. safe_go loops_ok R (k r)) \<Longrightarrow> safe_go loops_ok R (LoopService_Update lib orgID slug req k)"
  unfolding LoopService_Update_def
  by (auto intro!: safe_LoopService_GetBySlug safe_next_time safe_update_row simp: keeps_loop_def updates_def split: sum.splits)

lemma safe_LoopService_SetStatus:
  "(\<And>r. safe_go loops_ok R (k r)) \<Longrightarrow> safe_go loops_ok R (LoopService_SetStatus lib orgID slug status k)"
  unfolding LoopService_SetStatus_def
  by (auto intro!: safe_LoopService_GetBySlug safe_next_time safe_update_row simp: keeps_loop_def split: sum.splits)

lemma safe_CreateLoop: "(\<And>r. safe_go loops_ok R (k r)) \<Longrightarrow> safe_go loops_ok R (CreateLoop lib orgID userID body k)"
  unfolding CreateLoop_def Let_def by (auto intro!: safe_LoopService_Create split: sum.splits)

lemma safe_UpdateLoop: "(\<And>r. safe_go loops_ok R (k r)) \<Longrightarrow> safe_go loops_ok R (UpdateLoop lib orgID slug req k)"
  unfolding UpdateLoop_def by (auto intro!: safe_LoopService_Update split: sum.splits)

lemma safe_loop_Delete: "(\<And>r. safe_go loops_ok R (k r)) \<Longrightarrow> safe_go loops_ok R (loop_Delete orgID slug k)"
  unfolding loop_Delete_def
  by (auto intro!: safe_query safe_execute loops_ok_delete_rows split: sum.splits loop_error.splits)

lemma safe_DeleteLoop: "(\<And>r. safe_go loops_ok R (k r)) \<Longrightarrow> safe_go loops_ok R (DeleteLoop orgID slug k)"
  unfolding DeleteLoop_def LoopService_Delete_def by (auto intro!: safe_loop_Delete split: sum.splits)

lemma safe_set_loop_status: "(\<And>r. safe_go loops_ok R (k r)) \<Longrightarrow> safe_go loops_ok R (set_loop_status lib orgID slug status k)"
  unfolding set_loop_status_def by (auto intro!: safe_LoopService_SetStatus split: sum.splits)

section \<open>The pool\<close>

text \<open>
  What may start at any time: the events of pods and autopilots, both timers, the initialization, and the requests
  that trigger and cancel a run and that create, edit, enable, disable and delete a loop.
\<close>

inductive_set loop_starts ::
  "dependencies \<Rightarrow> (string \<Rightarrow> json_vars) \<Rightarrow> ((string \<times> string) list \<Rightarrow> (string \<times> string) list) \<Rightarrow>
     loop_lib \<Rightarrow> go set" for deps json order lib where
  "HandlePodTerminated deps podKey status [] \<in> loop_starts deps json order lib"
| "on_PodStatusChanged deps podKey status \<in> loop_starts deps json order lib"
| "on_AutopilotStatusChanged deps autopilotKey phase \<in> loop_starts deps json order lib"
| "CheckAndTriggerCronLoops deps json order (CronNext lib) orgIDs \<in> loop_starts deps json order lib"
| "InitializeNextRunTimes (CronNext lib) orgIDs \<in> loop_starts deps json order lib"
| "runTimeoutLoop deps orgIDs \<in> loop_starts deps json order lib"
| "TriggerLoop deps json order userID params \<in> loop_starts deps json order lib"
| "CancelRun deps loopID runID \<in> loop_starts deps json order lib"
| "DeleteLoop orgID slug (\<lambda>_. []) \<in> loop_starts deps json order lib"
| "CreateLoop lib orgID userID body (\<lambda>_. []) \<in> loop_starts deps json order lib"
| "UpdateLoop lib orgID slug upd (\<lambda>_. []) \<in> loop_starts deps json order lib"
| "EnableLoop lib orgID slug (\<lambda>_. []) \<in> loop_starts deps json order lib"
| "DisableLoop lib orgID slug (\<lambda>_. []) \<in> loop_starts deps json order lib"

text \<open>
  The rest of the system: pods, autopilots and the clock change, and keys of runs are skipped.
\<close>

inductive loop_env :: "loop_db \<Rightarrow> loop_db \<Rightarrow> bool" where
  outside: "same_view d d' \<Longrightarrow> callbacks d' = callbacks d \<Longrightarrow> loop_env d d'"
| skip_key: "next_run_ID d \<le> n \<Longrightarrow> loop_env d (d\<lparr>next_run_ID := n\<rparr>)"

lemma loops_ok_skip: "loops_ok d R \<Longrightarrow> next_run_ID d \<le> n \<Longrightarrow> loops_ok (d\<lparr>next_run_ID := n\<rparr>) R"
  by (fastforce simp: loops_ok_def keys_ok_def ends_ok_def counts_ok_def known_ok_def counter_sum_def outcomes_def)

lemma loop_env_ok: "loop_env d d' \<Longrightarrow> loops_ok d R \<Longrightarrow> loops_ok d' R"
  by (induction rule: loop_env.induct)
    (blast intro: loops_ok_same_view loops_ok_skip)+

lemma loop_starts_safe: "p \<in> loop_starts deps json order lib \<Longrightarrow> safe_go loops_ok {#} p"
  by (induction rule: loop_starts.induct)
    (auto simp: on_PodStatusChanged_def on_AutopilotStatusChanged_def CheckAndTriggerCronLoops_def
      InitializeNextRunTimes_def TriggerLoop_def EnableLoop_def DisableLoop_def safe_runTimeoutLoop safe_CancelRun
      intro!: safe_HandlePodTerminated safe_HandleAutopilotTerminated safe_query safe_trigger_each safe_initialize_each
        safe_TriggerRun safe_StartRun safe_CreateLoop safe_UpdateLoop safe_DeleteLoop safe_set_loop_status split: sum.splits)

interpretation loop_pool: task_pool loops_ok "loop_starts deps json order lib" loop_env
  for deps json order lib
  by unfold_locales (auto intro: loop_starts_safe loop_env_ok)

end
