(* ===== verification/Loop_Properties.thy ===== *)
theory Loop_Properties
  imports Loop_Safety
begin

text \<open>The properties of loops and runs: what holds in every reachable state, and what single operations do.\<close>

section \<open>Reachable states\<close>

text \<open>At first there are loops without runs.\<close>

definition loops_initial :: "loop_db \<Rightarrow> bool" where
  "loops_initial d \<longleftrightarrow> distinct (map loop_ID (loops d)) \<and> loop_runs d = [] \<and> born d = [] \<and> ended d = [] \<and>
     (\<forall>l \<in> set (loops d). TotalRuns l = 0 \<and> SuccessfulRuns l = 0 \<and> FailedRuns l = 0)"

abbreviation loop_steps ::
  "dependencies \<Rightarrow> (string \<Rightarrow> json_vars) \<Rightarrow> ((string \<times> string) list \<Rightarrow> (string \<times> string) list) \<Rightarrow>
     loop_lib \<Rightarrow> loop_db \<times> go \<Rightarrow> loop_db \<times> go \<Rightarrow> bool" where
  "loop_steps deps json order lib \<equiv> (pool_step (loop_starts deps json order lib) loop_env)\<^sup>*\<^sup>*"

lemma loops_initial_ok: "loops_initial d \<Longrightarrow> loops_ok d {#}"
proof -
  assume init: "loops_initial d"
  have z: "c l = 0" if "(c, S) \<in> counters" "l \<in> set (loops d)" for c S l
    using init that by (auto simp: loops_initial_def counters_def)
  have "counts_ok d {#}"
  proof (rule counts_okI)
    show "0 \<le> c x" if "(c, S) \<in> counters" "x \<in> set (loops d)" for c S x using z [OF that] by simp
    show "counter_sum c l d + credits S l {#} \<le> outcomes S l d" if "(c, S) \<in> counters" for c S l
    proof -
      have "map c (filter (\<lambda>x. loop_ID x = l) (loops d)) = map (\<lambda>_. 0) (filter (\<lambda>x. loop_ID x = l) (loops d))"
        using z [OF that] by (intro map_cong) auto
      then have "counter_sum c l d = 0" unfolding counter_sum_def by (metis sum_list_0)
      then show ?thesis by (simp add: outcomes_def)
    qed
  qed
  then show ?thesis using init by (simp add: loops_ok_def loops_initial_def keys_ok_def ends_ok_def)
qed

lemma reachable_loops_ok:
  "loops_initial d0 \<Longrightarrow> loop_steps deps json order lib (d0, []) (d, ts) \<Longrightarrow> loops_ok d {#}"
  by (rule loop_pool.reachable_ok) (auto intro: loops_initial_ok)

lemma counter_sum_single:
  assumes "distinct (map loop_ID (loops d))" "l \<in> set (loops d)"
  shows "counter_sum c (loop_ID l) d = c l"
proof -
  have "distinct (map loop_ID ls) \<Longrightarrow> l \<in> set ls \<Longrightarrow> filter (\<lambda>x. loop_ID x = loop_ID l) ls = [l]" for ls
  proof (induction ls)
    case (Cons x ls)
    have "filter (\<lambda>x. loop_ID x = loop_ID l) ls = []" if "x = l"
      using Cons.prems(1) that by (simp add: filter_empty_conv) (metis imageI)
    moreover have "loop_ID x \<noteq> loop_ID l" if "x \<noteq> l" using Cons.prems that by simp (metis imageI)
    ultimately show ?case using Cons by (cases "x = l") simp_all
  qed simp
  then show ?thesis using assms by (simp add: counter_sum_def)
qed

text \<open>
  C13. No run is counted twice: whatever events, timers and requests interleave, and whichever statements fail, every
  run ends at most once, and the counters of a loop never exceed the number of its runs that ended, ended with
  success, and ended without.
\<close>

theorem run_counted_once:
  assumes "loops_initial d0" "loop_steps deps json order lib (d0, []) (d, ts)" "l \<in> set (loops d)"
  shows "distinct (map (\<lambda>(loop, run, status). run) (ended d)) \<and>
    TotalRuns l \<le> int (length (filter (\<lambda>(loop, run, status). loop = loop_ID l) (ended d))) \<and>
    SuccessfulRuns l \<le> int (length (filter (\<lambda>(loop, run, status). loop = loop_ID l \<and> status = RunStatusCompleted) (ended d))) \<and>
    FailedRuns l \<le> int (length (filter (\<lambda>(loop, run, status). loop = loop_ID l \<and> counts_failed status) (ended d)))"
proof -
  have ok: "loops_ok d {#}" by (rule reachable_loops_ok [OF assms(1,2)])
  then have R: "counts_ok d {#}" and dist: "distinct (map loop_ID (loops d))" and ends: "ends_ok d"
    by (simp_all add: loops_ok_def keys_ok_def)
  have count: "c l \<le> outcomes S (loop_ID l) d" if "(c, S) \<in> counters" for c S
    using counts_okD(2) [OF R that, of "loop_ID l"] counter_sum_single [OF dist assms(3), of c] by simp
  have "(\<lambda>(loop, run, status). run) = fst \<circ> (snd :: int \<times> int \<times> string \<Rightarrow> _)" by auto
  then have "distinct (map (\<lambda>(loop, run, status). run) (ended d))" using ends by (simp add: ends_ok_def)
  then show ?thesis using count [of TotalRuns UNIV] count [of SuccessfulRuns "{RunStatusCompleted}"]
      count [of FailedRuns "{s. counts_failed s}"]
    by (simp add: counters_def outcomes_def case_prod_unfold)
qed

text \<open>
  C14. A finished run is final: once a run has an end, no event, timer, request or late goroutine changes its
  outcome or takes its end back; its row keeps them until it is deleted.
\<close>

theorem finished_run_is_final:
  assumes init: "loops_initial d0" "loop_steps deps json order lib (d0, []) (d, ts)"
    and later: "loop_steps deps json order lib (d, ts) (d', ts')"
    and r: "r \<in> set (loop_runs d)" "run_FinishedAt r \<noteq> None"
    and r': "r' \<in> set (loop_runs d')" "run_ID r' = run_ID r"
  shows "run_FinishedAt r' \<noteq> None \<and> run_Status r' = run_Status r \<and> run_LoopID r' = run_LoopID r"
proof -
  let ?e = "(run_LoopID r, run_ID r, run_Status r)"
  obtain R where R: "safe_go loops_ok R ts" "loops_ok d R"
    using loop_pool.reachable_safe [OF init(2)] loops_initial_ok [OF init(1)] by blast
  have "loops_ok d (R + {#Past (run_LoopID r) (run_ID r) (run_Status r)#})"
    using R(2) r by (auto simp: loops_ok_def ends_ok_def counts_ok_def)
  then obtain R' where "loops_ok d' (R' + {#Past (run_LoopID r) (run_ID r) (run_Status r)#})"
    using loop_pool.steps_safe [OF later, of R] R(1) unfolding fst_conv snd_conv by blast
  then have e: "?e \<in> set (ended d')" and ends: "ends_ok d'" by (simp_all add: loops_ok_def)
  then have "run_ID r' \<in> (fst \<circ> snd) ` set (ended d')" using r'(2) by force
  then have fin: "run_FinishedAt r' \<noteq> None" using ends r'(1) unfolding ends_ok_def by blast
  then have "(run_LoopID r', run_ID r', run_Status r') \<in> set (ended d')" using ends r'(1) by (simp add: ends_ok_def)
  moreover have "inj_on (fst \<circ> snd) (set (ended d'))" using ends by (simp add: ends_ok_def distinct_map)
  ultimately have "(run_LoopID r', run_ID r', run_Status r') = ?e"
    using e r'(2) inj_onD [of "fst \<circ> snd" "set (ended d')" "(run_LoopID r', run_ID r', run_Status r')" ?e] by simp
  then show ?thesis using fin by simp
qed

text \<open>
  C32. Run numbers: in every reachable state two runs of a loop have different numbers, in the order of their keys, and
  a newly triggered run gets a number that no run of its loop ever had, although old runs are deleted.
\<close>

theorem run_numbers_never_reused:
  assumes "loops_initial d0" "loop_steps deps json order lib (d0, []) (d, ts)"
  shows "(r \<in> set (loop_runs d) \<and> r' \<in> set (loop_runs d) \<and> run_LoopID r = run_LoopID r' \<and> run_ID r < run_ID r' \<longrightarrow>
      RunNumber r < RunNumber r') \<and>
    (snd (TriggerRunAtomic params d) = Inr res \<and> (i, run_LoopID (tr_Run res), n) \<in> set (born d) \<longrightarrow>
      n < RunNumber (tr_Run res))"
proof (intro conjI impI)
  have keys: "keys_ok d" using reachable_loops_ok [OF assms] by (simp add: loops_ok_def)
  show "RunNumber r < RunNumber r'"
    if "r \<in> set (loop_runs d) \<and> r' \<in> set (loop_runs d) \<and> run_LoopID r = run_LoopID r' \<and> run_ID r < run_ID r'"
  proof -
    have "sorted_wrt run_before (loop_runs d)" using keys by (simp add: keys_ok_def)
    then have "run_before r r' \<or> run_before r' r \<or> r = r'"
      using that by (auto simp: sorted_wrt_iff_nth_less in_set_conv_nth) (metis linorder_neqE_nat)
    then show ?thesis using that by (auto simp: run_before_def)
  qed
  assume res: "snd (TriggerRunAtomic params d) = Inr res \<and> (i, run_LoopID (tr_Run res), n) \<in> set (born d)"
  then obtain l where l: "loop_GetByID (tp_LoopID params) d = Inr l"
    by (auto simp: TriggerRunAtomic_def split: sum.splits)
  then have "l \<in> set (loops d)" by (auto simp: loop_GetByID_def dest: first_row_Inr)
  moreover have run: "run_LoopID (tr_Run res) = loop_ID l \<and> RunNumber (tr_Run res) = GetMaxRunNumber (loop_ID l) d + 1"
    using res l by (auto simp: TriggerRunAtomic_def handleConcurrencyPolicy_def Let_def skipped_run_def new_run_def
        split: if_splits)
  ultimately have "n \<le> GetMaxRunNumber (loop_ID l) d" using number_never_used [OF keys] res by auto
  then show "n < RunNumber (tr_Run res)" using run by simp
qed

section \<open>The concurrency limit\<close>

lemma join_pods_insert [simp]: "join_pods (insert_run r d) x = join_pods d x"
  by (simp add: join_pods_def insert_run_def)

lemma CountActiveRuns_insert:
  "CountActiveRuns l (insert_run r d) =
     CountActiveRuns l d + (if run_LoopID r = l then int (length (filter (counts_active r) (join_pods d r))) else 0)"
  by (simp add: CountActiveRuns_def) (simp add: insert_run_def)

lemma join_pods_NULL: "run_PodKey r = None \<Longrightarrow> join_pods d r = [None]"
  by (simp add: join_pods_def)

text \<open>
  C15. The concurrency limit: triggering a run of an unknown or disabled loop is an error and changes nothing. Otherwise
  a new active run is created exactly if fewer runs are active than the loop allows, and then there is one more, so
  that the limit is kept; at the limit the run is recorded as skipped and the number of active runs stays.
\<close>

theorem TriggerRunAtomic_limit:
  assumes "TriggerRunAtomic params d = (d', res)"
  shows "case loop_GetByID (tp_LoopID params) d of
    Inl e \<Rightarrow> res = Inl e \<and> d' = d
  | Inr l \<Rightarrow>
      (if \<not> IsEnabled l then res = Inl ErrDisabled \<and> d' = d
       else \<exists>result. res = Inr result \<and> tr_Loop result = l \<and> run_LoopID (tr_Run result) = loop_ID l \<and>
         tr_Run result \<in> set (loop_runs d') \<and>
         (Skipped result \<longleftrightarrow> MaxConcurrentRuns l \<le> CountActiveRuns (loop_ID l) d) \<and>
         (\<not> Skipped result \<longrightarrow> run_Status (tr_Run result) = RunStatusPending \<and>
            CountActiveRuns (loop_ID l) d' = CountActiveRuns (loop_ID l) d + 1 \<and>
            CountActiveRuns (loop_ID l) d' \<le> MaxConcurrentRuns l) \<and>
         (Skipped result \<longrightarrow> run_Status (tr_Run result) = RunStatusSkipped \<and> run_FinishedAt (tr_Run result) = Some (clock d) \<and>
            CountActiveRuns (loop_ID l) d' = CountActiveRuns (loop_ID l) d))"
proof (cases "loop_GetByID (tp_LoopID params) d")
  case (Inl e)
  then show ?thesis using assms by (simp add: TriggerRunAtomic_def)
next
  case (Inr l)
  have new: "counts_active (new_run l params d) None" "\<not> counts_active (skipped_run l params d) None"
    "run_PodKey (new_run l params d) = None" "run_PodKey (skipped_run l params d) = None"
    "run_LoopID (new_run l params d) = loop_ID l" "run_LoopID (skipped_run l params d) = loop_ID l"
    by (simp_all add: counts_active_def new_run_def skipped_run_def run_constants)
  have ins: "r \<in> set (loop_runs (insert_run r d))" for r by (simp add: insert_run_def)
  show ?thesis
  proof (cases "IsEnabled l")
    case False
    then show ?thesis using assms Inr by (simp add: TriggerRunAtomic_def)
  next
    case enabled: True
    show ?thesis
    proof (cases "MaxConcurrentRuns l \<le> CountActiveRuns (loop_ID l) d")
      case True
      let ?r = "skipped_run l params d"
      obtain reason where "d' = insert_run ?r d" "res = Inr \<lparr>tr_Run = ?r, tr_Loop = l, Skipped = True, Reason = reason\<rparr>"
        using assms Inr enabled True by (auto simp: TriggerRunAtomic_def handleConcurrencyPolicy_def Let_def)
      moreover have "run_Status ?r = RunStatusSkipped" "run_FinishedAt ?r = Some (clock d)"
        by (simp_all add: skipped_run_def)
      ultimately show ?thesis using Inr enabled True new ins [of ?r] by (simp add: CountActiveRuns_insert join_pods_NULL)
    next
      case False
      let ?r = "new_run l params d"
      have "d' = insert_run ?r d" "res = Inr \<lparr>tr_Run = ?r, tr_Loop = l, Skipped = False, Reason = []\<rparr>"
        using assms Inr enabled False by (auto simp: TriggerRunAtomic_def Let_def)
      moreover have "run_Status ?r = RunStatusPending" by (simp add: new_run_def)
      ultimately show ?thesis using Inr enabled False new ins [of ?r] by (simp add: CountActiveRuns_insert join_pods_NULL)
    qed
  qed
qed

end
