(* ===== verification/Loop_Config.thy ===== *)
theory Loop_Config
  imports Loop_Properties
begin

text \<open>
  The settings of loops: what the checks of the requests guarantee of every loop that is stored and of every webhook that is
  sent, whatever interleaves: the rule of \<open>Go_Tasks\<close> for all goroutines that work on loops.
\<close>

section \<open>The invariant\<close>

definition callback_ok :: "loop_lib \<Rightarrow> loop \<Rightarrow> bool" where
  "callback_ok lib l \<longleftrightarrow> (case CallbackURL l of None \<Rightarrow> True | Some u \<Rightarrow> validateCallbackURL lib u)"

definition config_ok :: "loop_lib \<Rightarrow> loop \<Rightarrow> bool" where
  "config_ok lib l \<longleftrightarrow> slug_ok (Slug l) \<and> validateEnumFields (ExecutionMode l) (SandboxStrategy l) (ConcurrencyPolicy l) \<and>
     loop_Status l \<in> set validStatuses \<and> 1 \<le> MaxConcurrentRuns l \<and> MaxConcurrentRuns l \<le> 10 \<and>
     0 \<le> MaxRetainedRuns l \<and> MaxRetainedRuns l \<le> 10000 \<and> 1 \<le> TimeoutMinutes l \<and> TimeoutMinutes l \<le> 1440 \<and>
     0 \<le> IdleTimeoutSec l \<and> IdleTimeoutSec l \<le> 3600 \<and> callback_ok lib l"

definition webhook_ok :: "loop_lib \<Rightarrow> string \<Rightarrow> bool" where
  "webhook_ok lib u \<longleftrightarrow> u \<noteq> [] \<and> validateCallbackURL lib u"

lemma webhook_ok_target:
  assumes "webhook_ok lib u"
  shows "\<exists>scheme host. url_Parse lib u = Some (scheme, host) \<and> scheme \<in> {''http'', ''https''} \<and>
    host \<noteq> [] \<and> fold_case host \<notin> set blockedHosts \<and>
    (\<forall>a. ParseIP lib host = Some a \<longrightarrow>
      \<not> IsLoopback a \<and> \<not> IsPrivate a \<and> \<not> IsLinkLocalUnicast a \<and> \<not> IsLinkLocalMulticast a)"
proof -
  obtain scheme host where parsed: "url_Parse lib u = Some (scheme, host)"
    using assms by (cases "url_Parse lib u") (auto simp: webhook_ok_def validateCallbackURL_def)
  have scheme: "scheme = ''http'' \<or> scheme = ''https''" and host: "host \<noteq> []" "fold_case host \<notin> set blockedHosts"
    using assms parsed by (simp_all add: webhook_ok_def validateCallbackURL_def split: if_split_asm)
  moreover have "\<not> IsLoopback a \<and> \<not> IsPrivate a \<and> \<not> IsLinkLocalUnicast a \<and> \<not> IsLinkLocalMulticast a"
    if "ParseIP lib host = Some a" for a
    using assms parsed that by (simp add: webhook_ok_def validateCallbackURL_def split: if_split_asm)
  ultimately show ?thesis using parsed by (intro exI [of _ scheme] exI [of _ host]) simp
qed

definition configs_ok :: "loop_lib \<Rightarrow> loop_db \<Rightarrow> bool" where
  "configs_ok lib d \<longleftrightarrow> (\<forall>l \<in> set (loops d). config_ok lib l) \<and>
     distinct (map (\<lambda>l. (loop_OrganizationID l, Slug l)) (loops d)) \<and> (\<forall>(u, i, s) \<in> set (callbacks d). webhook_ok lib u)"

abbreviation cfg_ok :: "loop_lib \<Rightarrow> loop_db \<Rightarrow> unit multiset \<Rightarrow> bool" where
  "cfg_ok lib d R \<equiv> configs_ok lib d"

interpretation cfg: resources "cfg_ok lib" for lib
  by unfold_locales

abbreviation cfg_safe :: "loop_lib \<Rightarrow> go \<Rightarrow> bool" where
  "cfg_safe lib \<equiv> safe_go (cfg_ok lib) {#}"

section \<open>Accesses\<close>

named_theorems cfg_intros

lemma cfg_access:
  assumes "\<And>a d. configs_ok lib d \<Longrightarrow> configs_ok lib (fst (f a d)) \<and> cfg_safe lib (k (snd (f a d)))"
  shows "cfg_safe lib (access f k)"
  by (rule cfg.safe_access) (use assms in blast)

text \<open>What the settings of the table depend on.\<close>

lemma configs_ok_same: "loops d' = loops d \<Longrightarrow> callbacks d' = callbacks d \<Longrightarrow> configs_ok lib d' = configs_ok lib d"
  by (simp add: configs_ok_def)

lemma cfg_same:
  assumes "\<And>a d. loops (fst (f a d)) = loops d \<and> callbacks (fst (f a d)) = callbacks d" "\<And>r. cfg_safe lib (k r)"
  shows "cfg_safe lib (access f k)"
  by (rule cfg_access) (use assms configs_ok_same in blast)

lemma cfg_query [cfg_intros]: "(\<And>r. cfg_safe lib (k r)) \<Longrightarrow> cfg_safe lib (access (query q) k)"
  by (rule cfg_same) (simp_all add: query_def split: answer.splits)

lemma cfg_execute:
  assumes "\<And>d. configs_ok lib d \<Longrightarrow> configs_ok lib (fst (f d))" "\<And>r. cfg_safe lib (k r)"
  shows "cfg_safe lib (access (execute f) k)"
  by (rule cfg_access) (use assms in \<open>simp add: execute_def split: answer.splits\<close>)

lemma cfg_execute_same:
  assumes "\<And>d. loops (fst (f d)) = loops d \<and> callbacks (fst (f d)) = callbacks d" "\<And>r. cfg_safe lib (k r)"
  shows "cfg_safe lib (access (execute f) k)"
  by (rule cfg_execute) (use assms configs_ok_same in blast)+

text \<open>Statements that leave the settings of a loop, or change them to others that are valid.\<close>

definition keeps_config :: "loop_lib \<Rightarrow> (loop \<Rightarrow> loop) \<Rightarrow> bool" where
  "keeps_config lib f \<longleftrightarrow> (\<forall>l. loop_OrganizationID (f l) = loop_OrganizationID l \<and> Slug (f l) = Slug l \<and>
     (config_ok lib l \<longrightarrow> config_ok lib (f l)))"

lemma configs_ok_Update:
  assumes "configs_ok lib d" "keeps_config lib f"
  shows "configs_ok lib (fst (loop_Update i f d))"
proof -
  have "map (\<lambda>l. (loop_OrganizationID l, Slug l)) (map (\<lambda>l. if loop_ID l = i then f l else l) (loops d)) =
      map (\<lambda>l. (loop_OrganizationID l, Slug l)) (loops d)"
    using assms(2) by (auto simp: keeps_config_def)
  then have "distinct (map (\<lambda>l. (loop_OrganizationID l, Slug l)) (map (\<lambda>l. if loop_ID l = i then f l else l) (loops d)))"
    using assms(1) by (simp only: configs_ok_def)
  moreover have "\<forall>l \<in> set (map (\<lambda>l. if loop_ID l = i then f l else l) (loops d)). config_ok lib l"
    using assms by (auto simp: configs_ok_def keeps_config_def)
  ultimately show ?thesis using assms(1) by (simp add: configs_ok_def loop_Update_def del: map_map)
qed

lemma cfg_Update: "keeps_config lib f \<Longrightarrow> (\<And>r. cfg_safe lib (k r)) \<Longrightarrow> cfg_safe lib (access (execute (loop_Update i f)) k)"
  by (rule cfg_execute) (auto intro: configs_ok_Update)

lemma runtime_columns [simp]:
  "keeps_config lib (\<lambda>l. l\<lparr>SandboxPath := sp, LastPodKey := pk\<rparr>)"
  "keeps_config lib (\<lambda>l. l\<lparr>SandboxPath := f l, LastPodKey := g l\<rparr>)"
  "keeps_config lib (\<lambda>l. l\<lparr>NextRunAt := t\<rparr>)"
  "keeps_config lib (count_run st now)"
  "s \<in> set validStatuses \<Longrightarrow> keeps_config lib (\<lambda>l. l\<lparr>loop_Status := s\<rparr>)"
  "s \<in> set validStatuses \<Longrightarrow> keeps_config lib (\<lambda>l. l\<lparr>loop_Status := s, NextRunAt := t\<rparr>)"
  by (simp_all add: keeps_config_def config_ok_def callback_ok_def count_run_def)

section \<open>Runs\<close>

lemma cfg_time_Now [cfg_intros]: "(\<And>t. cfg_safe lib (k t)) \<Longrightarrow> cfg_safe lib (time_Now k)"
  unfolding time_Now_def by (rule cfg_same) simp_all

lemma cfg_publishRunEvent [cfg_intros]: "cfg_safe lib k \<Longrightarrow> cfg_safe lib (publishRunEvent deps t r k)"
  by (auto simp: publishRunEvent_def intro!: cfg_same)

lemma cfg_terminate [cfg_intros]: "cfg_safe lib k \<Longrightarrow> cfg_safe lib (terminate_if_any deps pk k)"
  by (auto simp: terminate_if_any_def TerminatePod_def intro!: cfg_execute_same split: option.splits)

lemma cfg_run_Update [cfg_intros]: "(\<And>r. cfg_safe lib (k r)) \<Longrightarrow> cfg_safe lib (access (execute (run_Update i f)) k)"
  by (rule cfg_execute_same) (simp_all add: run_Update_def)

lemma cfg_FinishRun [cfg_intros]: "(\<And>r. cfg_safe lib (k r)) \<Longrightarrow> cfg_safe lib (access (execute (FinishRun i f)) k)"
  by (rule cfg_execute_same) (simp_all add: FinishRun_def Let_def)

lemma cfg_UpdateRunStats [cfg_intros]: "cfg_safe lib k \<Longrightarrow> cfg_safe lib (UpdateRunStats l st t k)"
  unfolding UpdateRunStats_def IncrementRunStats_def by (rule cfg_Update) simp_all

lemma cfg_resolveRunStatuses [cfg_intros]: "(\<And>rs. cfg_safe lib (k rs)) \<Longrightarrow> cfg_safe lib (resolveRunStatuses runs k)"
  by (auto simp: resolveRunStatuses_def Let_def intro!: cfg_intros)

lemma cfg_GetRun [cfg_intros]: "(\<And>r. cfg_safe lib (k r)) \<Longrightarrow> cfg_safe lib (GetRun i k)"
  by (auto simp: GetRun_def resolveRunStatus_def intro!: cfg_intros split: sum.splits)

lemma cfg_markRunTerminal [cfg_intros]: "(\<And>r. cfg_safe lib (k r)) \<Longrightarrow> cfg_safe lib (markRunTerminal deps i st msg k)"
  unfolding markRunTerminal_def by (auto intro!: cfg_intros split: sum.splits)

lemma cfg_MarkRunFailed [cfg_intros]: "(\<And>r. cfg_safe lib (k r)) \<Longrightarrow> cfg_safe lib (MarkRunFailed deps i msg k)"
  unfolding MarkRunFailed_def by (rule cfg_markRunTerminal)

lemma cfg_ClearRuntimeState [cfg_intros]: "cfg_safe lib k \<Longrightarrow> cfg_safe lib (ClearRuntimeState i k)"
  unfolding ClearRuntimeState_def by (rule cfg_Update) simp_all

lemma cfg_UpdateRuntimeState [cfg_intros]: "cfg_safe lib k \<Longrightarrow> cfg_safe lib (UpdateRuntimeState i sp pk k)"
  unfolding UpdateRuntimeState_def by (auto intro!: cfg_Update)

lemma cfg_update_runtime [cfg_intros]: "cfg_safe lib k \<Longrightarrow> cfg_safe lib (update_runtime run l st k)"
  by (auto simp: update_runtime_def intro!: cfg_intros split: sum.splits)

text \<open>The webhook goes to the address of a loop that was read from the table.\<close>

lemma cfg_fork: "cfg_safe lib p \<Longrightarrow> cfg_safe lib q \<Longrightarrow> cfg_safe lib (p @ q)"
  using safe_go_append [of "cfg_ok lib" "{#}" p "{#}" q] by simp

lemma cfg_notify:
  assumes "cfg_safe lib k" "\<And>lp. l = Inr lp \<Longrightarrow> config_ok lib lp"
  shows "cfg_safe lib (notify deps run l st k)"
proof (cases l)
  case (Inr lp)
  have "cfg_safe lib (access (\<lambda>a d. (d\<lparr>callbacks := callbacks d @ [(u, run_ID run, st)]\<rparr>, ())) (\<lambda>_. []))"
    if "CallbackURL lp = Some u" "u \<noteq> []" for u
    using assms(2) [OF Inr] that by (intro cfg_access) (simp add: configs_ok_def config_ok_def callback_ok_def webhook_ok_def)
  moreover have "cfg_safe lib (access (\<lambda>a d. (d\<lparr>comments := comments d @ [(t, run_ID run, st)]\<rparr>, ())) (\<lambda>_. []))" for t
    by (rule cfg_same) simp_all
  moreover have "cfg_safe lib (access (execute (DeleteOldFinishedRuns i n)) (\<lambda>_. k))" for i n
    by (rule cfg_execute_same) (simp_all add: DeleteOldFinishedRuns_def Let_def assms(1))
  ultimately show ?thesis using assms(1) by (auto simp: notify_def Inr intro!: cfg_fork split: option.splits)
qed (simp add: notify_def assms(1))

lemma cfg_query_loop:
  assumes "\<And>r. (\<And>l. r = Inr l \<Longrightarrow> config_ok lib l) \<Longrightarrow> cfg_safe lib (k r)"
  shows "cfg_safe lib (access (query (loop_GetByID i)) k)"
proof (rule cfg_access)
  fix a d
  assume "configs_ok lib d"
  then have "config_ok lib l" if "snd (query (loop_GetByID i) a d) = Inr l" for l
    using that by (auto simp: query_def loop_GetByID_def first_row_def configs_ok_def find_Some_iff split: answer.splits option.splits)
  then show "configs_ok lib (fst (query (loop_GetByID i) a d)) \<and> cfg_safe lib (k (snd (query (loop_GetByID i) a d)))"
    using assms \<open>configs_ok lib d\<close> by (simp add: query_def split: answer.splits)
qed

lemma cfg_HandleRunCompleted [cfg_intros]: "cfg_safe lib k \<Longrightarrow> cfg_safe lib (HandleRunCompleted deps run st k)"
  unfolding HandleRunCompleted_def Let_def by (auto intro!: cfg_intros cfg_query_loop cfg_notify split: sum.splits)

lemma cfg_HandlePodTerminated [cfg_intros]: "cfg_safe lib k \<Longrightarrow> cfg_safe lib (HandlePodTerminated deps pk st k)"
  unfolding HandlePodTerminated_def GetAutopilotPhase_def Let_def by (auto intro!: cfg_intros split: sum.splits option.splits)

lemma cfg_HandleAutopilotTerminated [cfg_intros]: "cfg_safe lib k \<Longrightarrow> cfg_safe lib (HandleAutopilotTerminated deps ak phase k)"
  unfolding HandleAutopilotTerminated_def by (auto intro!: cfg_intros split: sum.splits)

lemma cfg_complete_each [cfg_intros]: "cfg_safe lib k \<Longrightarrow> cfg_safe lib (complete_each deps st runs k)"
  by (induction runs) (auto intro!: cfg_intros)

lemma cfg_stop_each [cfg_intros]: "cfg_safe lib k \<Longrightarrow> cfg_safe lib (stop_each deps cs k)"
  by (induction cs) (auto simp: stop_autopilot_def intro!: cfg_intros cfg_execute_same split: sum.splits)

lemma cfg_fail_each [cfg_intros]: "cfg_safe lib k \<Longrightarrow> cfg_safe lib (fail_each deps runs k)"
  by (induction runs) (auto intro!: cfg_intros)

lemma cfg_runTimeoutLoop: "cfg_safe lib (runTimeoutLoop deps orgs)"
  unfolding runTimeoutLoop_def CheckTimeoutRuns_def CheckApprovalTimeouts_def CheckIdleLoopPods_def CleanupOrphanPendingRuns_def
  by (auto intro!: cfg_intros)

lemma cfg_pod_started [cfg_intros]: "cfg_safe lib (pod_started deps l run key)"
  by (auto simp: pod_started_def SetRunPodKey_def recovered_def CreateAndStart_def intro!: cfg_intros cfg_same split: answer.splits)

lemma cfg_CreatePod [cfg_intros]: "(\<And>r. cfg_safe lib (k r)) \<Longrightarrow> cfg_safe lib (access (CreatePod req) k)"
  by (rule cfg_same) (simp_all add: CreatePod_def Let_def split: answer.splits)

lemma cfg_StartRun [cfg_intros]: "cfg_safe lib (StartRun deps json order l run user)"
  by (auto simp: StartRun_def create_pod_for_def publishWarningEvent_def recovered_def intro!: cfg_intros
      split: sum.splits option.splits answer.splits)

lemma cfg_TriggerRun [cfg_intros]: "(\<And>r. cfg_safe lib (k r)) \<Longrightarrow> cfg_safe lib (TriggerRun deps params k)"
  unfolding TriggerRun_def
proof (rule cfg_execute_same)
  show "loops (fst (TriggerRunAtomic params d)) = loops d \<and> callbacks (fst (TriggerRunAtomic params d)) = callbacks d" for d
    by (cases rule: TriggerRunAtomic_cases [of params d]) (simp_all add: insert_run_def)
qed (auto intro!: cfg_intros split: sum.splits)

lemma cfg_ClaimCronLoop [cfg_intros]: "(\<And>r. cfg_safe lib (k r)) \<Longrightarrow> cfg_safe lib (access (ClaimCronLoop i t) k)"
  by (rule cfg_access) (auto simp: ClaimCronLoop_def Let_def intro: configs_ok_Update split: answer.splits)

lemma cfg_trigger_each [cfg_intros]: "cfg_safe lib (trigger_each deps json order nr ls)"
  by (induction ls) (auto simp: Let_def intro!: cfg_intros cfg_fork split: option.splits sum.splits)

lemma cfg_initialize_each [cfg_intros]: "cfg_safe lib (initialize_each nr ls)"
  by (induction ls) (auto intro!: cfg_intros cfg_Update split: option.splits)

lemma cfg_CancelRun: "cfg_safe lib (CancelRun deps l i)"
  by (auto simp: CancelRun_def MarkRunCancelled_def intro!: cfg_intros split: sum.splits)

section \<open>Requests\<close>

lemma cfg_next_time [cfg_intros]:
  "cfg_safe lib p \<Longrightarrow> (\<And>t. cfg_safe lib (k t)) \<Longrightarrow> cfg_safe lib (next_time lib' expr p k)"
  unfolding next_time_def by (auto intro!: cfg_intros split: option.splits list.splits)

lemma cfg_GetBySlug [cfg_intros]: "(\<And>r. cfg_safe lib (k r)) \<Longrightarrow> cfg_safe lib (LoopService_GetBySlug orgID slug k)"
  unfolding LoopService_GetBySlug_def by (auto intro!: cfg_intros split: sum.splits)

lemma cfg_update_row:
  "keeps_config lib f \<Longrightarrow> (\<And>r. cfg_safe lib (k r)) \<Longrightarrow> cfg_safe lib (update_row i f orgID slug k)"
  unfolding update_row_def by (auto intro!: cfg_Update cfg_intros split: sum.splits)

lemma default_idem: "default d (default d s) = default d s" "default d d = d"
  by (simp_all add: default_def)

lemma gorm_defaults_keys: "loop_OrganizationID (gorm_defaults l) = loop_OrganizationID l" "Slug (gorm_defaults l) = Slug l"
  by (simp_all add: gorm_defaults_def)

lemma cfg_insert_loop:
  assumes "\<And>i. config_ok lib ((gorm_defaults l)\<lparr>loop_ID := i\<rparr>)" "\<And>r. cfg_safe lib (k r)"
  shows "cfg_safe lib (insert_loop l k)"
  unfolding insert_loop_def
proof (rule cfg_execute)
  fix d
  assume "configs_ok lib d"
  then show "configs_ok lib (fst (loop_Create l d))"
    using assms(1) by (auto simp: loop_Create_def gorm_defaults_keys Let_def configs_ok_def)
qed (use assms(2) in \<open>auto split: sum.splits loop_error.splits\<close>)

definition request_ok :: "create_loop_request \<Rightarrow> bool" where
  "request_ok req \<longleftrightarrow> 1 \<le> cl_MaxConcurrentRuns req \<and> cl_MaxConcurrentRuns req \<le> 10 \<and>
     0 \<le> cl_MaxRetainedRuns req \<and> cl_MaxRetainedRuns req \<le> 10000 \<and> 1 \<le> cl_TimeoutMinutes req \<and> cl_TimeoutMinutes req \<le> 1440 \<and>
     0 \<le> cl_IdleTimeoutSec req \<and> cl_IdleTimeoutSec req \<le> 3600"

lemma cfg_create_slugged:
  assumes "request_ok req" "\<And>r. cfg_safe lib (k r)"
  shows "cfg_safe lib (create_slugged lib req slug k)"
proof -
  have "config_ok lib ((gorm_defaults (new_loop req slug t))\<lparr>loop_ID := i\<rparr>)"
    if "slug_ok slug" "validateEnumFields (ExecutionMode (new_loop req slug None)) (SandboxStrategy (new_loop req slug None))
        (ConcurrencyPolicy (new_loop req slug None))"
      "case cl_CallbackURL req of None \<Rightarrow> True | Some u \<Rightarrow> validateCallbackURL lib u" for t i
    using that assms(1)
    by (simp add: config_ok_def new_loop_def request_ok_def callback_ok_def validStatuses_def gorm_defaults_def nonzero_def
        default_idem)
  then show ?thesis unfolding create_slugged_def Let_def using assms(2) by (auto intro!: cfg_next_time cfg_insert_loop)
qed

lemma cfg_CreateLoop: "(\<And>r. cfg_safe lib (k r)) \<Longrightarrow> cfg_safe lib (CreateLoop lib orgID userID body k)"
  unfolding CreateLoop_def Let_def LoopService_Create_def
  by (auto intro!: cfg_time_Now cfg_create_slugged simp: request_ok_def split: sum.splits)

lemma out_of_set_to: "\<not> out_of lo hi x \<Longrightarrow> lo \<le> n \<and> n \<le> hi \<Longrightarrow> lo \<le> set_to x n \<and> set_to x n \<le> hi"
  by (auto simp: out_of_def set_to_def split: option.splits)

lemma updates_keep_config:
  assumes "validateEnumFields (set_to (ul_ExecutionMode req) []) (set_to (ul_SandboxStrategy req) []) (set_to (ul_ConcurrencyPolicy req) [])"
    and "case ul_CallbackURL req of None \<Rightarrow> True | Some u \<Rightarrow> u = [] \<or> validateCallbackURL lib u"
    and bounds: "\<not> out_of 1 10 (ul_MaxConcurrentRuns req)" "\<not> out_of 1 1440 (ul_TimeoutMinutes req)"
      "\<not> out_of 0 10000 (ul_MaxRetainedRuns req)" "\<not> out_of 0 3600 (ul_IdleTimeoutSec req)"
  shows "keeps_config lib (updates req old t)"
proof -
  have "config_ok lib (updates req old t l)" if l: "config_ok lib l" for l
  proof -
    have "validateEnumFields (ExecutionMode (updates req old t l)) (SandboxStrategy (updates req old t l)) (ConcurrencyPolicy (updates req old t l))"
      using assms(1) l by (auto simp: updates_def validateEnumFields_def config_ok_def set_to_def split: option.splits)
    moreover have "callback_ok lib (updates req old t l)"
      using assms(2) l by (auto simp: updates_def config_ok_def callback_ok_def split: option.splits)
    ultimately show ?thesis using l bounds [THEN out_of_set_to] by (simp add: config_ok_def updates_def)
  qed
  then show ?thesis by (simp add: keeps_config_def updates_def)
qed

lemma cfg_UpdateLoop: "(\<And>r. cfg_safe lib (k r)) \<Longrightarrow> cfg_safe lib (UpdateLoop lib orgID slug req k)"
  unfolding UpdateLoop_def LoopService_Update_def
  by (auto intro!: cfg_GetBySlug cfg_next_time cfg_update_row updates_keep_config split: sum.splits)

lemma cfg_set_loop_status:
  "status \<in> set validStatuses \<Longrightarrow> (\<And>r. cfg_safe lib (k r)) \<Longrightarrow> cfg_safe lib (set_loop_status lib' orgID slug status k)"
  unfolding set_loop_status_def LoopService_SetStatus_def
  by (auto intro!: cfg_GetBySlug cfg_next_time cfg_update_row split: sum.splits)

lemma cfg_DeleteLoop: "(\<And>r. cfg_safe lib (k r)) \<Longrightarrow> cfg_safe lib (DeleteLoop orgID slug k)"
proof -
  have "configs_ok lib (fst (delete_rows i runIDs d))" if "configs_ok lib d" for i runIDs d
    using that by (auto simp: delete_rows_def configs_ok_def distinct_map_filter)
  moreover assume "\<And>r. cfg_safe lib (k r)"
  ultimately show ?thesis
    unfolding DeleteLoop_def LoopService_Delete_def loop_Delete_def
    by (auto intro!: cfg_query cfg_execute split: sum.splits loop_error.splits)
qed

section \<open>The pool\<close>

lemma cfg_starts: "p \<in> loop_starts deps json order lib \<Longrightarrow> cfg_safe lib p"
  by (induction rule: loop_starts.induct)
    (auto simp: on_PodStatusChanged_def on_AutopilotStatusChanged_def CheckAndTriggerCronLoops_def InitializeNextRunTimes_def
      TriggerLoop_def EnableLoop_def DisableLoop_def validStatuses_def
      intro!: cfg_intros cfg_runTimeoutLoop cfg_CancelRun cfg_CreateLoop cfg_UpdateLoop cfg_DeleteLoop cfg_set_loop_status split: sum.splits)

lemma cfg_env: "loop_env d d' \<Longrightarrow> configs_ok lib d \<Longrightarrow> configs_ok lib d'"
  by (induction rule: loop_env.induct) (auto simp: configs_ok_def same_view_def)

interpretation cfg_pool: task_pool "cfg_ok lib" "loop_starts deps json order lib" loop_env for lib deps json order
  by unfold_locales (auto intro: cfg_starts cfg_env)

section \<open>What is stored and what is sent\<close>


end
