(* ===== verification/Loop_Slugs.thy ===== *)
theory Loop_Slugs
  imports Loop_Service
begin

text \<open>
  The slugs that \<open>generateSlug\<close> makes are valid, whatever the name is: the service never refuses a slug of its own.
\<close>

lemma replace_runs_chars: "list_all (\<lambda>c. slug_char c \<or> c = CHR ''-'') (replace_runs s)"
  by (induction s rule: replace_runs.induct) auto

lemma list_all_dropWhile: "list_all P s \<Longrightarrow> list_all P (dropWhile Q s)"
  by (auto simp: list_all_iff dest: set_dropWhileD)

lemma list_all_take: "list_all P s \<Longrightarrow> list_all P (take n s)"
  by (auto simp: list_all_iff dest: in_set_takeD)

lemma TrimRight_subset: "list_all P s \<Longrightarrow> list_all P (TrimRight s)"
  by (simp add: TrimRight_def list_all_dropWhile)

lemma TrimRight_last: "TrimRight s \<noteq> [] \<Longrightarrow> last (TrimRight s) \<noteq> CHR ''-''"
  using hd_dropWhile [of "\<lambda>c. c = CHR ''-''" "rev s"] by (auto simp: TrimRight_def last_rev)

lemma TrimRight_prefix: "\<exists>t. s = TrimRight s @ t"
proof -
  have "s = rev (dropWhile (\<lambda>c. c = CHR ''-'') (rev s)) @ rev (takeWhile (\<lambda>c. c = CHR ''-'') (rev s))"
    by (metis rev_append rev_rev_ident takeWhile_dropWhile_id)
  then show ?thesis unfolding TrimRight_def by blast
qed

lemma TrimRight_hd: "TrimRight s \<noteq> [] \<Longrightarrow> hd (TrimRight s) = hd s"
  using TrimRight_prefix [of s] by (metis hd_append2)

lemma TrimRight_nonempty: "s \<noteq> [] \<Longrightarrow> hd s \<noteq> CHR ''-'' \<Longrightarrow> TrimRight s \<noteq> []"
  by (cases s) (auto simp: TrimRight_def dropWhile_eq_Nil_conv)

lemma TrimRight_length: "length (TrimRight s) \<le> length s"
  using TrimRight_prefix [of s] by (metis le_add1 length_append)

lemma Trim_hd: "Trim s \<noteq> [] \<Longrightarrow> hd (Trim s) \<noteq> CHR ''-''"
proof -
  define r where "r = dropWhile (\<lambda>c. c = CHR ''-'') s"
  assume "Trim s \<noteq> []"
  then have r: "TrimRight r \<noteq> []" by (simp add: Trim_def r_def)
  then have "r \<noteq> []" by (auto simp: TrimRight_def)
  then have "hd r \<noteq> CHR ''-''" using hd_dropWhile [of "\<lambda>c. c = CHR ''-''" s] by (simp add: r_def)
  then show ?thesis using TrimRight_hd [OF r] by (simp add: Trim_def r_def)
qed

lemma decimal_digits: "list_all slug_char (decimal n)"
proof (induction n rule: decimal.induct)
  case (1 n)
  have digit: "slug_char (char_of (48 + k))" if "k < 10" for k :: nat using that by (simp add: slug_char_def)
  show ?case using 1 digit [of n] digit [of "n mod 10"] by (subst decimal.simps) simp
qed

lemma decimal_length: "n < 10 ^ Suc k \<Longrightarrow> length (decimal n) \<le> Suc k"
proof (induction k arbitrary: n)
  case 0
  then show ?case by (subst decimal.simps) simp
next
  case (Suc k)
  then have "n div 10 < 10 ^ Suc k" by (simp add: div_less_iff_less_mult)
  then show ?case using Suc.IH [of "n div 10"] by (subst decimal.simps) simp
qed

lemma decimal_nonempty: "decimal n \<noteq> []"
  by (subst decimal.simps) simp

text \<open>A slug that is made from a name is accepted, whatever the name is.\<close>

lemma generateSlug_valid:
  assumes "now < 2 ^ 63"
  shows "slug_ok (generateSlug to_lower now name)"
proof -
  define s where "s = Trim (replace_runs (to_lower name))"
  define t where "t = (if length s > 100 then TrimRight (take 100 s) else s)"
  let ?ok = "\<lambda>c. slug_char c \<or> c = CHR ''-''"
  have s: "list_all ?ok s" using replace_runs_chars [of "to_lower name"]
    by (simp add: s_def Trim_def TrimRight_subset list_all_dropWhile)
  have ends: "hd s \<noteq> CHR ''-''" "last s \<noteq> CHR ''-''" if "s \<noteq> []"
    using that Trim_hd [of "replace_runs (to_lower name)"] TrimRight_last by (simp_all add: s_def Trim_def)
  have t: "list_all ?ok t"
    using s by (simp add: t_def TrimRight_subset list_all_take)
  have len: "length t \<le> 100" using TrimRight_length [of "take 100 s"] by (auto simp: t_def)
  have t_ends: "slug_char (hd t)" "slug_char (last t)" if "t \<noteq> []"
  proof -
    have "s \<noteq> []" using that by (auto simp: t_def TrimRight_def)
    then have "hd t \<noteq> CHR ''-''" "last t \<noteq> CHR ''-''"
      using that ends TrimRight_hd [of "take 100 s"] TrimRight_last by (auto simp: t_def hd_take split: if_splits)
    then show "slug_char (hd t)" "slug_char (last t)"
      using t that hd_in_set last_in_set unfolding list_all_iff by metis+
  qed
  have digits: "length (decimal (nat (now div 10 ^ 6))) \<le> 13"
  proof -
    have "now div 10 ^ 6 < 10 ^ 13" using assms by (simp add: div_less_iff_less_mult)
    then have "nat (now div 10 ^ 6) < 10 ^ Suc 12" by (simp add: nat_less_iff)
    then show ?thesis using decimal_length by fastforce
  qed
  have "generateSlug to_lower now name = (if t = [] then ''loop-'' @ decimal (nat (now div 10 ^ 6))
      else if length t < 3 then t @ ''-loop'' else t)"
    by (simp add: generateSlug_def Let_def t_def s_def)
  moreover have "slug_ok (''loop-'' @ decimal n)" if "length (decimal n) \<le> 13" for n
    using that decimal_digits [of n] decimal_nonempty [of n] last_in_set [of "decimal n"]
    by (auto simp: slug_ok_def slug_char_def list_all_iff)
  moreover have "slug_ok (t @ ''-loop'')" if "t \<noteq> []" "length t < 3"
    using that t t_ends by (auto simp: slug_ok_def slug_char_def)
  moreover have "slug_ok t" if "\<not> length t < 3" using that t t_ends len by (cases "t = []") (simp_all add: slug_ok_def)
  ultimately show ?thesis using digits by auto
qed

end
