(* ===== verification/Loop_Runs.thy ===== *)
theory Loop_Runs
  imports Loop_Properties
begin

text \<open>
  What the operations on runs do when nothing interferes: completing a run, the statistics computed from the pods,
  and the behaviour in the cases where the code and its comments differ.
\<close>

section \<open>Completing a run\<close>

text \<open>What a completed run does to its row and to its loop: the statistics and the pod from which the next run resumes.\<close>

definition finish_row :: "loop_run \<Rightarrow> string \<Rightarrow> int \<Rightarrow> loop_run \<Rightarrow> loop_run" where
  "finish_row run st now r = r\<lparr>run_Status := st, run_FinishedAt := Some now,
     DurationSec := (case StartedAt run of None \<Rightarrow> DurationSec r | Some t \<Rightarrow> Some (seconds_of (now - t)))\<rparr>"

definition resume_from :: "loop \<Rightarrow> loop_run \<Rightarrow> string \<Rightarrow> loop \<Rightarrow> loop" where
  "resume_from l run st x =
     (if run_PodKey run = None \<or> \<not> IsPersistent l then x
      else if st = RunStatusCompleted then x\<lparr>LastPodKey := run_PodKey run\<rparr>
      else if st = RunStatusFailed then x\<lparr>SandboxPath := None, LastPodKey := None\<rparr>
      else x)"

lemma run_alone_publish [simp]:
  "run_alone (publishRunEvent deps t r k) (all_succeed, d) =
     run_alone k (all_succeed, d\<lparr>published := published d @ (if has_eventBus deps then [(t, run_ID r)] else [])\<rparr>)"
  by (simp add: publishRunEvent_def)

lemma run_alone_update_runtime:
  "run_alone (update_runtime run (Inr l) st k) (all_succeed, d) =
     run_alone k (all_succeed, d\<lparr>loops := map (\<lambda>x. if loop_ID x = run_LoopID run then resume_from l run st x else x) (loops d)\<rparr>)"
  by (auto simp: update_runtime_def resume_from_def UpdateRuntimeState_def ClearRuntimeState_def execute_def
      loop_Update_def cong: if_cong)

text \<open>The callback and the ticket comment that tell of the end of a run.\<close>

definition callback_of :: "loop \<Rightarrow> int \<Rightarrow> string \<Rightarrow> (string \<times> int \<times> string) list" where
  "callback_of l i st = (case CallbackURL l of Some url \<Rightarrow> if url \<noteq> [] then [(url, i, st)] else [] | None \<Rightarrow> [])"

definition comment_of :: "dependencies \<Rightarrow> loop \<Rightarrow> int \<Rightarrow> string \<Rightarrow> (int \<times> int \<times> string) list" where
  "comment_of deps l i st = (case TicketID l of Some t \<Rightarrow> if has_ticketService deps then [(t, i, st)] else [] | None \<Rightarrow> [])"

lemma run_alone_notify:
  "run_alone (notify deps run (Inr l) st []) (all_succeed, d) =
     (all_succeed, fst (DeleteOldFinishedRuns (loop_ID l) (MaxRetainedRuns l)
        (d\<lparr>callbacks := callbacks d @ callback_of l (run_ID run) st,
           comments := comments d @ comment_of deps l (run_ID run) st\<rparr>)))"
  by (auto simp: notify_def execute_def DeleteOldFinishedRuns_def Let_def callback_of_def comment_of_def
      split: option.splits)

lemma finish_all:
  assumes "keys_ok d" "run \<in> set (loop_runs d)" "run_FinishedAt run = None"
  shows "map (\<lambda>r. if unfinished (run_ID run) r then f r else r) (loop_runs d) =
      map (\<lambda>r. if run_ID r = run_ID run then f r else r) (loop_runs d)"
    and "filter (unfinished (run_ID run)) (loop_runs d) \<noteq> []"
proof -
  have "unfinished (run_ID run) r \<longleftrightarrow> run_ID r = run_ID run" if "r \<in> set (loop_runs d)" for r
    using run_before_inj [of "loop_runs d" r run] that assms by (auto simp: keys_ok_def unfinished_def)
  then show "map (\<lambda>r. if unfinished (run_ID run) r then f r else r) (loop_runs d) =
      map (\<lambda>r. if run_ID r = run_ID run then f r else r) (loop_runs d)"
    by (intro map_cong) simp_all
  show "filter (unfinished (run_ID run)) (loop_runs d) \<noteq> []"
    using assms(2,3) by (auto simp: filter_empty_conv unfinished_def)
qed

lemma loop_GetByID_updated:
  assumes "loop_GetByID i d = Inr l" "\<And>x. loop_ID (f x) = loop_ID x"
  shows "loop_GetByID i (d\<lparr>loops := map (\<lambda>x. if loop_ID x = i then f x else x) (loops d)\<rparr>) = Inr (f l)"
proof -
  have "find (\<lambda>x. loop_ID x = i) ls = Some l \<Longrightarrow>
      find (\<lambda>x. loop_ID x = i) (map (\<lambda>x. if loop_ID x = i then f x else x) ls) = Some (f l)" for ls
    by (induction ls) (auto simp: assms(2) split: if_splits)
  then show ?thesis using assms(1) by (auto simp: loop_GetByID_def first_row_def split: option.splits)
qed

lemma count_run_keeps [simp]:
  "loop_ID (count_run st t l) = loop_ID l" "IsPersistent (count_run st t l) = IsPersistent l"
  "CallbackURL (count_run st t l) = CallbackURL l" "TicketID (count_run st t l) = TicketID l"
  "MaxRetainedRuns (count_run st t l) = MaxRetainedRuns l"
  by (simp_all add: count_run_def IsPersistent_def)

text \<open>The state after the row is finished, the loop updated and the event published.\<close>

definition completed :: "dependencies \<Rightarrow> loop_run \<Rightarrow> string \<Rightarrow> loop \<Rightarrow> loop_db \<Rightarrow> loop_db" where
  "completed deps run st l d =
     (fst (FinishRun (run_ID run) (finish_row run st (clock d)) d))\<lparr>
       loops := map (\<lambda>x. if loop_ID x = run_LoopID run then resume_from l run st (count_run st (clock d) x) else x) (loops d),
       published := published d @ (if has_eventBus deps
         then [(if counts_failed st then EventLoopRunFailed else EventLoopRunCompleted, run_ID run)] else []),
       callbacks := callbacks d @ callback_of l (run_ID run) st,
       comments := comments d @ comment_of deps l (run_ID run) st\<rparr>"

lemma count_run_notices [simp]:
  "callback_of (count_run st' t l) i st = callback_of l i st"
  "comment_of deps (count_run st' t l) i st = comment_of deps l i st"
  by (simp_all add: callback_of_def comment_of_def)

lemma resume_from_cong: "IsPersistent l = IsPersistent l' \<Longrightarrow> resume_from l (run\<lparr>run_Status := a, run_FinishedAt := b\<rparr>) st x = resume_from l' run st x"
  by (simp add: resume_from_def)

lemma run_alone_HandleRunCompleted:
  assumes "keys_ok d" "run \<in> set (loop_runs d)" "run_FinishedAt run = None" "loop_GetByID (run_LoopID run) d = Inr l"
  shows "run_alone (HandleRunCompleted deps run st []) (all_succeed, d) =
    (all_succeed, fst (DeleteOldFinishedRuns (loop_ID l) (MaxRetainedRuns l) (completed deps run st l d)))"
proof -
  obtain d1 where d1: "FinishRun (run_ID run) (finish_row run st (clock d)) d = (d1, Inr True)"
    using finish_all(2) [OF assms(1-3)] by (simp add: FinishRun_def Let_def)
  have loops1: "loops d1 = loops d" "published d1 = published d" "callbacks d1 = callbacks d" "comments d1 = comments d"
    using d1 by (auto simp: FinishRun_def Let_def)
  have "loop_GetByID (run_LoopID run) d1 = Inr l" using assms(4) loops1 by (simp add: loop_GetByID_def)
  note l = loop_GetByID_updated [OF this, of "count_run st (clock d)", unfolded loops1, simplified]
  have twice: "(\<lambda>x. if loop_ID (if loop_ID x = i then count_run st t x else x) = i
        then resume_from l run st (if loop_ID x = i then count_run st t x else x)
        else if loop_ID x = i then count_run st t x else x) =
      (\<lambda>x. if loop_ID x = i then resume_from l run st (count_run st t x) else x)" for i t
    by auto
  show ?thesis
    unfolding HandleRunCompleted_def time_Now_def UpdateRunStats_def finish_row_def [symmetric]
    by (simp add: execute_def d1 IncrementRunStats_def loop_Update_def Let_def query_def l loops1 run_alone_update_runtime
        run_alone_notify resume_from_cong completed_def comp_def twice cong: if_cong)
qed

lemma run_alone_already_finished:
  assumes "filter (unfinished (run_ID run)) (loop_runs d) = []"
  shows "snd (run_alone (HandleRunCompleted deps run st []) (as, d)) = d"
proof -
  have "map (\<lambda>r. if unfinished (run_ID run) r then f r else r) (loop_runs d) = loop_runs d" for f
    using assms by (intro map_idI) (auto simp: filter_empty_conv)
  then have "FinishRun (run_ID run) f d = (d, Inr False)" for f using assms by (simp add: FinishRun_def)
  then show ?thesis by (auto simp: HandleRunCompleted_def time_Now_def execute_def split: answer.splits)
qed

text \<open>The rows that stay when the runs of a loop are trimmed.\<close>

definition retained :: "loop \<Rightarrow> loop_db \<Rightarrow> loop_run list" where
  "retained l d = (if MaxRetainedRuns l \<le> 0 then loop_runs d
     else filter (\<lambda>r. \<not> (run_LoopID r = loop_ID l \<and> run_FinishedAt r \<noteq> None \<and>
       run_ID r \<notin> set (newest_finished (loop_ID l) (MaxRetainedRuns l) d))) (loop_runs d))"

lemma DeleteOldFinishedRuns_retained:
  "fst (DeleteOldFinishedRuns (loop_ID l) (MaxRetainedRuns l) d) = d\<lparr>loop_runs := retained l d\<rparr>"
  by (simp add: DeleteOldFinishedRuns_def retained_def Let_def)

lemma retained_cong: "loop_runs d = loop_runs d' \<Longrightarrow> retained l d = retained l d'"
  by (simp add: retained_def newest_finished_def)

text \<open>
  C31. Completing a run that is not finished: its row gets the outcome, the time and the duration; the counters of its
  loop go up by one; after a success the next run of a persistent loop resumes from this pod, after a failure from
  none; one event, callback and comment are sent; and of the finished runs of the loop the newest are kept. Completing
  it again, with any outcome and whatever fails, changes nothing.
\<close>

theorem HandleRunCompleted_exact:
  assumes "keys_ok d" "run \<in> set (loop_runs d)" "run_FinishedAt run = None" "loop_GetByID (run_LoopID run) d = Inr l"
    and run: "run_alone (HandleRunCompleted deps run st []) (all_succeed, d) = (as', d')"
  shows "loop_runs d' = retained l (d\<lparr>loop_runs := map (\<lambda>r. if run_ID r = run_ID run
        then finish_row run st (clock d) r else r) (loop_runs d)\<rparr>) \<and>
    loops d' = map (\<lambda>x. if loop_ID x = run_LoopID run
        then resume_from l run st (count_run st (clock d) x) else x) (loops d) \<and>
    published d' = published d @ (if has_eventBus deps
        then [(if counts_failed st then EventLoopRunFailed else EventLoopRunCompleted, run_ID run)] else []) \<and>
    callbacks d' = callbacks d @ callback_of l (run_ID run) st \<and>
    comments d' = comments d @ comment_of deps l (run_ID run) st \<and> pods d' = pods d \<and>
    snd (run_alone (HandleRunCompleted deps run st' []) (as, d')) = d'"
proof -
  have d': "d' = (completed deps run st l d)\<lparr>loop_runs := retained l (completed deps run st l d)\<rparr>"
    using run run_alone_HandleRunCompleted [OF assms(1-4)] by (simp add: DeleteOldFinishedRuns_retained)
  have rows: "loop_runs (completed deps run st l d) =
      map (\<lambda>r. if run_ID r = run_ID run then finish_row run st (clock d) r else r) (loop_runs d)"
    using finish_all(1) [OF assms(1-3)] by (simp add: completed_def FinishRun_def Let_def)
  have "filter (unfinished (run_ID run)) (loop_runs d') = []"
  proof -
    have "set (loop_runs d') \<subseteq> set (loop_runs (completed deps run st l d))" by (auto simp: d' retained_def)
    then show ?thesis using rows by (auto simp: filter_empty_conv unfinished_def finish_row_def)
  qed
  then have "snd (run_alone (HandleRunCompleted deps run st' []) (as, d')) = d'" by (rule run_alone_already_finished)
  moreover have "loop_runs d' = retained l (d\<lparr>loop_runs := map (\<lambda>r. if run_ID r = run_ID run
        then finish_row run st (clock d) r else r) (loop_runs d)\<rparr>)"
    using rows by (auto simp: d' intro: retained_cong)
  ultimately show ?thesis by (simp add: d' completed_def FinishRun_def Let_def)
qed

section \<open>Statistics\<close>

text \<open>The unique indexes of the tables of pods and of autopilot controllers.\<close>

definition keys_unique :: "loop_db \<Rightarrow> bool" where
  "keys_unique d \<longleftrightarrow> distinct (map pod_PodKey (pods d)) \<and> distinct (map ap_Key (autopilots d))"

text \<open>The status a run is shown with: \<open>resolveRunStatuses\<close> with what the database holds.\<close>

definition shown_status :: "loop_db \<Rightarrow> loop_run \<Rightarrow> string" where
  "shown_status d r = run_Status (resolve_one (pods d) (map (\<lambda>c. (ap_Key c, ap_Phase c)) (autopilots d)) r)"

text \<open>
  An unfinished run whose pod has no row any more: no foreign key of \<open>loop_runs\<close> excludes it. The statistics derive its
  status from an empty pod status.
\<close>

definition missing_pod :: "loop_db \<Rightarrow> loop_run \<Rightarrow> bool" where
  "missing_pod d r \<longleftrightarrow> run_FinishedAt r = None \<and>
     (case run_PodKey r of None \<Rightarrow> False | Some k \<Rightarrow> k \<notin> pod_PodKey ` set (pods d))"

definition phase_of :: "loop_db \<Rightarrow> loop_run \<Rightarrow> string" where
  "phase_of d r = (case AutopilotControllerKey r of None \<Rightarrow> []
     | Some ak \<Rightarrow> (case map_of (rev (map (\<lambda>c. (ap_Key c, ap_Phase c)) (autopilots d))) ak of None \<Rightarrow> [] | Some f \<Rightarrow> f))"

definition counted_status :: "loop_db \<Rightarrow> loop_run \<Rightarrow> string" where
  "counted_status d r = (if missing_pod d r then DeriveRunStatus [] (phase_of d r) else shown_status d r)"

lemma filter_key:
  "distinct (map key xs) \<Longrightarrow> x \<in> set xs \<Longrightarrow> filter (\<lambda>y. key x = key y) xs = [x]"
proof (induction xs)
  case (Cons y xs)
  have "filter (\<lambda>z. key x = key z) xs = []" if "y = x"
    using Cons.prems(1) that by (simp add: filter_empty_conv) (metis imageI)
  moreover have "key x \<noteq> key y" if "y \<noteq> x" using Cons.prems that by simp (metis imageI)
  ultimately show ?case using Cons by (cases "y = x") simp_all
qed simp

lemma map_of_rev_key: "distinct (map key xs) \<Longrightarrow> x \<in> set xs \<Longrightarrow> map_of (rev (map (\<lambda>y. (key y, g y)) xs)) (key x) = Some (g x)"
  by (intro map_of_is_SomeI) (simp_all add: rev_map [symmetric] comp_def)

lemma join_phases_phase:
  assumes "distinct (map ap_Key (autopilots d))"
  shows "\<exists>ph. join_phases d r = [ph] \<and> (case ph of None \<Rightarrow> [] | Some f \<Rightarrow> f) = phase_of d r"
proof (cases "\<exists>c \<in> set (autopilots d). AutopilotControllerKey r = Some (ap_Key c)")
  case True
  then obtain c where c: "c \<in> set (autopilots d)" "AutopilotControllerKey r = Some (ap_Key c)" by blast
  then show ?thesis
    using filter_key [OF assms c(1)] map_of_rev_key [OF assms c(1), of ap_Phase]
    by (simp add: join_phases_def phase_of_def)
next
  case False
  then have "filter (\<lambda>c. AutopilotControllerKey r = Some (ap_Key c)) (autopilots d) = []" by (simp add: filter_empty_conv)
  moreover have "map_of (rev (map (\<lambda>c. (ap_Key c, ap_Phase c)) (autopilots d))) ak = None"
    if "AutopilotControllerKey r = Some ak" for ak
    using False that by (auto simp: map_of_eq_None_iff)
  ultimately show ?thesis by (simp add: join_phases_def phase_of_def split: option.split)
qed

lemma active_row:
  assumes keys: "keys_unique d" and r: "run_FinishedAt r = None"
  shows "[effective_status r p ph. p \<leftarrow> join_pods d r, ph \<leftarrow> join_phases d r] = [counted_status d r]"
proof -
  obtain ph where ph: "join_phases d r = [ph]" "(case ph of None \<Rightarrow> [] | Some f \<Rightarrow> f) = phase_of d r"
    using join_phases_phase [of d r] keys by (auto simp: keys_unique_def)
  show ?thesis
  proof (cases "run_PodKey r")
    case None
    then show ?thesis
      using ph by (simp add: join_pods_NULL effective_status_def counted_status_def missing_pod_def shown_status_def resolve_one_def)
  next
    case (Some k)
    show ?thesis
    proof (cases "k \<in> pod_PodKey ` set (pods d)")
      case True
      then obtain p where p: "p \<in> set (pods d)" "k = pod_PodKey p" by blast
      have dist: "distinct (map pod_PodKey (pods d))" using keys by (simp add: keys_unique_def)
      have "join_pods d r = [Some p]" using filter_key [OF dist p(1)] Some p(2) by (simp add: join_pods_def)
      moreover have "map_of (rev (map (\<lambda>p. (pod_PodKey p, p)) (pods d))) k = Some p"
        using map_of_rev_key [OF dist p(1), of "\<lambda>p. p"] p(2) by simp
      moreover have "\<not> missing_pod d r" using Some True by (simp add: missing_pod_def)
      ultimately show ?thesis using ph Some r
        by (simp add: effective_status_def counted_status_def shown_status_def resolve_one_def ResolveStatus_def phase_of_def
            Let_def split: option.splits)
    next
      case False
      then have "filter (\<lambda>p. k = pod_PodKey p) (pods d) = []" by (auto simp: filter_empty_conv)
      then show ?thesis
        using ph Some r False by (simp add: join_pods_def effective_status_def counted_status_def missing_pod_def)
    qed
  qed
qed

lemma concat_map_Nil: "concat (map (\<lambda>x. []) xs) = []"
  by simp

lemma count_statuses:
  assumes "\<And>r. r \<in> set rs \<Longrightarrow> run_FinishedAt r = None \<Longrightarrow>
      [effective_status r p ph. p \<leftarrow> join_pods d r, ph \<leftarrow> join_phases d r] = [counted_status d r]"
  shows "int (length (filter f [run_Status r. r \<leftarrow> rs, run_LoopID r = l \<and> run_FinishedAt r \<noteq> None])) +
      int (length (filter f [effective_status r p ph. r \<leftarrow> rs, p \<leftarrow> join_pods d r, ph \<leftarrow> join_phases d r,
        run_LoopID r = l \<and> run_FinishedAt r = None])) =
    int (length (filter f (map (counted_status d) (filter (\<lambda>r. run_LoopID r = l) rs))))"
  using assms
proof (induction rs)
  case (Cons r rs)
  have "counted_status d r = run_Status r" if "run_FinishedAt r \<noteq> None"
    using that by (auto simp: counted_status_def missing_pod_def shown_status_def resolve_one_def split: option.splits)
  then show ?case using Cons.IH Cons.prems [of r] Cons.prems
    by (cases "run_LoopID r = l"; cases "run_FinishedAt r") (simp_all add: concat_map_Nil)
qed simp

text \<open>
  C33. The statistics of a loop computed from the tables count each of its runs once. A run counts with the status it
  is shown with: the stored outcome of a finished run, and for the others the status derived from the pod and the
  autopilot. The one exception is an unfinished run whose pod has no row: it is shown as failed, but counted with the
  status derived from an empty pod status. Pods and autopilot controllers have unique keys, as the indexes of the
  tables demand.
\<close>

theorem ComputeLoopStats_shown:
  assumes "keys_unique d"
  shows "ComputeLoopStats l d =
    (let statuses = map (\<lambda>r. if missing_pod d r then DeriveRunStatus [] (phase_of d r) else shown_status d r)
           (filter (\<lambda>r. run_LoopID r = l) (loop_runs d))
     in (int (length statuses), int (length (filter (\<lambda>s. s = RunStatusCompleted) statuses)),
         int (length (filter counts_failed statuses)))) \<and>
    (missing_pod d r \<longrightarrow> shown_status d r = RunStatusFailed)"
proof -
  have "[effective_status r p ph. p \<leftarrow> join_pods d r, ph \<leftarrow> join_phases d r] = [counted_status d r]"
    if "r \<in> set (loop_runs d)" "run_FinishedAt r = None" for r
    using active_row [OF assms that(2)] .
  note count = count_statuses [of "loop_runs d" d _ l, OF this]
  have "ComputeLoopStats l d =
      (let statuses = map (counted_status d) (filter (\<lambda>r. run_LoopID r = l) (loop_runs d))
       in (int (length statuses), int (length (filter (\<lambda>s. s = RunStatusCompleted) statuses)),
           int (length (filter counts_failed statuses))))"
    unfolding ComputeLoopStats_def Let_def prod.inject
    using count [of "\<lambda>_. True"] count [of "\<lambda>s. s = RunStatusCompleted"] count [of counts_failed]
    by (intro conjI) simp_all
  moreover have "shown_status d r = RunStatusFailed" if gone: "missing_pod d r"
  proof -
    obtain k where k: "run_PodKey r = Some k" "k \<notin> pod_PodKey ` set (pods d)" "run_FinishedAt r = None"
      using gone by (cases "run_PodKey r") (simp_all add: missing_pod_def)
    then have "map_of (rev (map (\<lambda>p. (pod_PodKey p, p)) (pods d))) k = None" by (auto simp: map_of_eq_None_iff)
    then show ?thesis using k by (simp add: shown_status_def resolve_one_def)
  qed
  ultimately show ?thesis by (simp add: counted_status_def [abs_def])
qed

end
