(* ===== verification/Loop_Examples.thy ===== *)
theory Loop_Examples
  imports Loop_Runs
begin

text \<open>
  A loop that is run: examples of the properties of loops, and the behaviours in which the code differs from its
  comments or from what it means to do.
\<close>

section \<open>A run of a loop\<close>

text \<open>A loop that allows one run at a time, triggered by a user.\<close>

definition sample_settings :: loop_settings where
  "sample_settings = \<lparr>Name = ''nightly'', Description = None, AgentTypeID = Some 1, CustomAgentTypeID = None,
     RepositoryID = Some 2, BranchName = None, CredentialProfileID = None, ConfigOverrides = []\<rparr>"

definition sample_loop :: loop where
  "sample_loop = \<lparr>loop_ID = 1, loop_OrganizationID = 1, Slug = ''nightly'', settings = sample_settings,
     RunnerID = Some 3, PermissionMode = [], PromptTemplate = ''fix {{what}}'', PromptVariables = [],
     TicketID = Some 9, ExecutionMode = ExecutionModeDirect, CronExpression = None, AutopilotConfig = [],
     CallbackURL = Some ''http://c'', loop_Status = StatusEnabled, SandboxStrategy = SandboxStrategyPersistent,
     SessionPersistence = True, ConcurrencyPolicy = ConcurrencyPolicySkip, MaxConcurrentRuns = 1,
     MaxRetainedRuns = 2, TimeoutMinutes = 60, IdleTimeoutSec = 30, SandboxPath = None, LastPodKey = None,
     CreatedByID = 5, TotalRuns = 0, SuccessfulRuns = 0, FailedRuns = 0, LastRunAt = None, NextRunAt = None\<rparr>"

definition sample_db :: loop_db where
  "sample_db = \<lparr>loops = [sample_loop], loop_runs = [], pods = [], autopilots = [], next_run_ID = 1,
     clock = 0, published = [], terminations = [], pod_requests = [], callbacks = [], comments = [], born = [],
     ended = []\<rparr>"

definition sample_deps :: dependencies where
  "sample_deps = \<lparr>has_eventBus = True, has_podOrchestrator = True, has_autopilotSvc = False,
     has_podTerminator = True, has_ticketService = True\<rparr>"

definition sample_params :: trigger_params where
  "sample_params = \<lparr>tp_LoopID = 1, tp_TriggerType = ''manual'', tp_TriggerSource = ''user:5'', tp_TriggerParams = []\<rparr>"

abbreviation answers :: "nat \<Rightarrow> answer" where
  "answers \<equiv> \<lambda>_. Returns ''pod''"

definition sample_json :: "string \<Rightarrow> json_vars" where
  "sample_json s = JInvalid"

definition sample_lib :: loop_lib where
  "sample_lib = \<lparr>url_Parse = (\<lambda>u. if u = ''http://c'' then Some (''http'', ''c'') else if u = ''http://[::]/'' then Some (''http'', ''::'') else None),
     ParseIP = (\<lambda>h. if h = ''::'' then Some (IP6 (replicate 8 0)) else None), CronNext = (\<lambda>_ _. None), ToLower = id\<rparr>"

abbreviation sample_steps :: "loop_db \<times> go \<Rightarrow> loop_db \<times> go \<Rightarrow> bool" where
  "sample_steps \<equiv> loop_steps sample_deps sample_json id sample_lib"

lemmas sample_defs = default_def sample_db_def sample_loop_def sample_settings_def sample_deps_def sample_params_def sample_json_def

lemmas loop_operations =
  TriggerLoop_def TriggerRun_def execute_def query_def TriggerRunAtomic_def loop_GetByID_def first_row_def IsEnabled_def
  CountActiveRuns_def handleConcurrencyPolicy_def new_run_def skipped_run_def insert_run_def GetMaxRunNumber_def
  publishRunEvent_def StartRun_def GetRun_def run_GetByID_def resolveRunStatus_def resolveRunStatuses_def 
  resolvePrompt_def prompt_vars_def run_Update_def create_pod_for_def CreatePod_def start_request_def pod_started_def
  SetRunPodKey_def IsAutopilot_def IsPersistent_def IsTerminal_run_def UpdateRunStats_def time_Now_def
  join_pods_def counts_active_def Let_def

text \<open>The state after the request: a run whose pod is starting.\<close>

definition running_run :: loop_run where
  "running_run = \<lparr>run_ID = 1, run_OrganizationID = 1, run_LoopID = 1, RunNumber = 1, run_Status = RunStatusPending,
     run_PodKey = Some ''pod'', AutopilotControllerKey = None, TriggerType = ''manual'', TriggerSource = Some ''user:5'',
     TriggerParams = ''{}'', ResolvedPrompt = Some ''fix {{what}}'', StartedAt = Some 0, run_FinishedAt = None,
     DurationSec = None, ErrorMessage = None, run_CreatedAt = 0\<rparr>"

definition starting_pod :: pod_row where
  "starting_pod = \<lparr>pod_PodKey = ''pod'', pod_Status = StatusInitializing, pod_FinishedAt = None,
     pod_AgentStatus = ''idle'', pod_AgentWaitingSince = None\<rparr>"

definition running_db :: loop_db where
  "running_db = sample_db\<lparr>loop_runs := [running_run], pods := [starting_pod], next_run_ID := 2,
     published := [(EventLoopRunStarted, 1)], pod_requests := [start_request sample_loop 5 ''fix {{what}}''],
     born := [(1, 1, 1)]\<rparr>"

lemma TriggerLoop_sample:
  "snd (run_alone (TriggerLoop sample_deps sample_json id 5 sample_params) (answers, sample_db)) = running_db"
  by (simp add: running_db_def running_run_def starting_pod_def sample_defs loop_operations loop_constants run_constants
      pod_constants)

lemma running_reached: "sample_steps (sample_db, []) (running_db, [])"
  by (rule run_alone_steps [OF loop_starts.intros(7) TriggerLoop_sample])

text \<open>The pod completes.\<close>

definition done_db :: loop_db where
  "done_db = running_db\<lparr>
     loops := [sample_loop\<lparr>LastPodKey := Some ''pod'', TotalRuns := 1, SuccessfulRuns := 1, LastRunAt := Some 0\<rparr>],
     loop_runs := [running_run\<lparr>run_Status := RunStatusCompleted, run_FinishedAt := Some 0, DurationSec := Some 0\<rparr>],
     published := [(EventLoopRunStarted, 1), (EventLoopRunCompleted, 1)],
     callbacks := [(''http://c'', 1, RunStatusCompleted)], comments := [(9, 1, RunStatusCompleted)],
     ended := [(1, 1, RunStatusCompleted)]\<rparr>"

lemma pod_completed_sample:
  "snd (run_alone (on_PodStatusChanged sample_deps ''pod'' StatusCompleted) (answers, running_db)) = done_db"
  by (simp add: done_db_def running_db_def running_run_def starting_pod_def sample_defs loop_operations loop_constants
      run_constants pod_constants on_PodStatusChanged_def HandlePodTerminated_def GetActiveRunByPodKey_def
      DeriveRunStatus_def isPodDoneForLoop_def deriveFromPodStatus_def HandleRunCompleted_def FinishRun_def
      unfinished_def seconds_of_def IncrementRunStats_def loop_Update_def count_run_def counts_failed_def
      update_runtime_def UpdateRuntimeState_def notify_def DeleteOldFinishedRuns_def newest_finished_def)

lemma done_reached: "sample_steps (running_db, []) (done_db, [])"
  by (rule run_alone_steps [OF loop_starts.intros(2) pod_completed_sample])

lemma sample_initial: "loops_initial sample_db"
  by (simp add: loops_initial_def sample_db_def sample_loop_def)

text \<open>A second request while the row of the pod still says that it is starting: the run is skipped.\<close>

definition skipped_db :: loop_db where
  "skipped_db = (insert_run (skipped_run sample_loop sample_params done_db) done_db)\<lparr>
     loops := [sample_loop\<lparr>LastPodKey := Some ''pod'', TotalRuns := 2, SuccessfulRuns := 1, LastRunAt := Some 0\<rparr>]\<rparr>"

lemma TriggerLoop_skipped:
  "snd (run_alone (TriggerLoop sample_deps sample_json id 5 sample_params) (answers, done_db)) = skipped_db"
  by (simp add: skipped_db_def done_db_def running_db_def running_run_def starting_pod_def sample_defs loop_operations
      loop_constants run_constants pod_constants ActiveStatuses_def IncrementRunStats_def loop_Update_def count_run_def
      counts_failed_def)

lemma skipped_reached: "sample_steps (done_db, []) (skipped_db, [])"
  by (rule run_alone_steps [OF loop_starts.intros(7) TriggerLoop_skipped])

lemma sample_reached: "sample_steps (sample_db, []) (done_db, [])" "sample_steps (sample_db, []) (skipped_db, [])"
  using running_reached done_reached skipped_reached rtranclp_trans [of "pool_step _ loop_env"] by metis+

section \<open>The properties on these runs\<close>

theorem run_counted_once_witness:
  "loops_initial sample_db \<and> sample_steps (sample_db, []) (skipped_db, []) \<and>
   (\<exists>l \<in> set (loops skipped_db). TotalRuns l = 2 \<and> SuccessfulRuns l = 1 \<and>
     TotalRuns l \<le> int (length (filter (\<lambda>(loop, run, status). loop = loop_ID l) (ended skipped_db))))"
proof -
  define l where "l = hd (loops skipped_db)"
  have l: "l \<in> set (loops skipped_db)" "TotalRuns l = 2" "SuccessfulRuns l = 1" by (simp_all add: l_def skipped_db_def)
  show ?thesis using run_counted_once [OF sample_initial sample_reached(2) l(1)] l sample_initial sample_reached(2) by blast
qed

theorem finished_run_is_final_witness:
  "\<exists>r \<in> set (loop_runs done_db). \<exists>r' \<in> set (loop_runs skipped_db). run_FinishedAt r \<noteq> None \<and> run_ID r' = run_ID r \<and>
     run_FinishedAt r' \<noteq> None \<and> run_Status r' = run_Status r \<and> run_LoopID r' = run_LoopID r"
proof -
  define r where "r = hd (loop_runs done_db)"
  have r: "r \<in> set (loop_runs done_db)" "run_FinishedAt r \<noteq> None" "r \<in> set (loop_runs skipped_db)"
    by (simp_all add: r_def done_db_def skipped_db_def insert_run_def)
  show ?thesis
    using finished_run_is_final [OF sample_initial sample_reached(1) skipped_reached r(1,2) r(3) refl] r by blast
qed

theorem run_numbers_never_reused_witness:
  "\<exists>res r r'. snd (TriggerRunAtomic sample_params skipped_db) = Inr res \<and> (2, 1, 2) \<in> set (born skipped_db) \<and>
     run_LoopID (tr_Run res) = 1 \<and> 2 < RunNumber (tr_Run res) \<and>
     r \<in> set (loop_runs skipped_db) \<and> r' \<in> set (loop_runs skipped_db) \<and> run_LoopID r = run_LoopID r' \<and>
     run_ID r < run_ID r' \<and> RunNumber r < RunNumber r'"
proof -
  obtain res where res: "snd (TriggerRunAtomic sample_params skipped_db) = Inr res" "run_LoopID (tr_Run res) = 1"
    by (simp add: skipped_db_def done_db_def running_db_def running_run_def starting_pod_def sample_defs loop_operations
        loop_constants run_constants pod_constants ActiveStatuses_def)
  define r where "r = hd (loop_runs skipped_db)"
  define r' where "r' = loop_runs skipped_db ! 1"
  have r: "r \<in> set (loop_runs skipped_db)" "r' \<in> set (loop_runs skipped_db)" "run_LoopID r = run_LoopID r'" "run_ID r < run_ID r'"
    "(2, 1, 2) \<in> set (born skipped_db)"
    by (simp_all add: r_def r'_def skipped_db_def insert_run_def done_db_def running_run_def skipped_run_def new_run_def
        sample_defs running_db_def GetMaxRunNumber_def)
  show ?thesis
    using run_numbers_never_reused [OF sample_initial sample_reached(2), of r r' sample_params res 2 2] r res by metis
qed

theorem TriggerRunAtomic_limit_witness:
  "TriggerRunAtomic sample_params done_db = (insert_run (skipped_run sample_loop sample_params done_db) done_db,
     snd (TriggerRunAtomic sample_params done_db)) \<and>
   MaxConcurrentRuns sample_loop \<le> CountActiveRuns 1 done_db \<and>
   CountActiveRuns 1 (insert_run (skipped_run sample_loop sample_params done_db) done_db) = CountActiveRuns 1 done_db"
proof -
  let ?d = "insert_run (skipped_run sample_loop sample_params done_db) done_db"
  have l: "loop_GetByID (tp_LoopID sample_params) done_db = Inr (hd (loops done_db))" "IsEnabled (hd (loops done_db))"
    "loop_ID (hd (loops done_db)) = 1" "MaxConcurrentRuns sample_loop = MaxConcurrentRuns (hd (loops done_db))"
    by (simp_all add: done_db_def running_db_def sample_defs loop_GetByID_def first_row_def IsEnabled_def)
  have full: "MaxConcurrentRuns (hd (loops done_db)) \<le> CountActiveRuns 1 done_db"
    by (simp add: done_db_def running_db_def sample_defs loop_operations running_run_def starting_pod_def
      run_constants pod_constants ActiveStatuses_def)
  have eq: "TriggerRunAtomic sample_params done_db = (?d, snd (TriggerRunAtomic sample_params done_db))"
    by (simp add: done_db_def running_db_def running_run_def starting_pod_def sample_defs loop_operations
      loop_constants run_constants pod_constants ActiveStatuses_def)
  show ?thesis using TriggerRunAtomic_limit [OF eq] l full eq by auto
qed

theorem HandleRunCompleted_exact_witness:
  "\<exists>d'. run_alone (HandleRunCompleted sample_deps running_run RunStatusTimeout []) (all_succeed, running_db) = (all_succeed, d') \<and>
     published d' = [(EventLoopRunStarted, 1), (EventLoopRunFailed, 1)] \<and> callbacks d' = [(''http://c'', 1, RunStatusTimeout)] \<and>
     map TotalRuns (loops d') = [1] \<and>
     snd (run_alone (HandleRunCompleted sample_deps running_run RunStatusCompleted []) (answers, d')) = d'"
proof -
  have keys: "keys_ok running_db" using reachable_loops_ok [OF sample_initial running_reached] by (simp add: loops_ok_def)
  have run: "running_run \<in> set (loop_runs running_db)" "run_FinishedAt running_run = None"
    "loop_GetByID (run_LoopID running_run) running_db = Inr sample_loop"
    by (simp_all add: running_db_def running_run_def sample_db_def sample_loop_def loop_GetByID_def first_row_def)
  obtain d' where d': "run_alone (HandleRunCompleted sample_deps running_run RunStatusTimeout []) (all_succeed, running_db) =
      (all_succeed, d')"
    using run_alone_HandleRunCompleted [OF keys run] by blast
  show ?thesis
    using d' HandleRunCompleted_exact [OF keys run d', of RunStatusCompleted answers]
    by (intro exI [of _ d']) (simp add: running_db_def sample_defs callback_of_def running_run_def counts_failed_def resume_from_def
      count_run_def IsPersistent_def run_constants)
qed

theorem ComputeLoopStats_shown_witness:
  "keys_unique skipped_db \<and> map (shown_status skipped_db) (loop_runs skipped_db) = [RunStatusCompleted, RunStatusSkipped] \<and>
   ComputeLoopStats 1 skipped_db = (2, 1, 0) \<and>
   missing_pod (running_db\<lparr>pods := []\<rparr>) running_run \<and> shown_status (running_db\<lparr>pods := []\<rparr>) running_run = RunStatusFailed \<and>
   ComputeLoopStats 1 (running_db\<lparr>pods := []\<rparr>) = (1, 0, 0)"
proof -
  let ?d = "running_db\<lparr>pods := []\<rparr>"
  have runs: "run_LoopID r = 1" if "r \<in> set (loop_runs skipped_db)" for r
    using that by (auto simp: skipped_db_def done_db_def running_run_def insert_run_def skipped_run_def new_run_def sample_loop_def)
  have keys: "keys_unique skipped_db" "keys_unique ?d"
    by (simp_all add: keys_unique_def skipped_db_def done_db_def running_db_def sample_db_def running_run_def starting_pod_def
        insert_run_def skipped_run_def new_run_def)
  have shown: "map (shown_status skipped_db) (loop_runs skipped_db) = [RunStatusCompleted, RunStatusSkipped]"
    by (simp add: shown_status_def resolve_one_def skipped_db_def done_db_def running_run_def insert_run_def skipped_run_def
        new_run_def)
  have present: "\<not> missing_pod skipped_db r" if "r \<in> set (loop_runs skipped_db)" for r
    using that by (auto simp: missing_pod_def skipped_db_def done_db_def running_run_def insert_run_def skipped_run_def)
  have missing: "missing_pod ?d running_run" by (simp add: missing_pod_def running_run_def)
  have "filter (\<lambda>r. run_LoopID r = 1) (loop_runs skipped_db) = loop_runs skipped_db" using runs by simp
  moreover have "map (\<lambda>r. if missing_pod skipped_db r then DeriveRunStatus [] (phase_of skipped_db r)
      else shown_status skipped_db r) (loop_runs skipped_db) = map (shown_status skipped_db) (loop_runs skipped_db)"
    using present by (intro map_cong) simp_all
  ultimately have "ComputeLoopStats 1 skipped_db = (2, 1, 0)"
    using ComputeLoopStats_shown [OF keys(1), THEN conjunct1, of 1] shown by (simp add: Let_def counts_failed_def run_constants)
  moreover have "filter (\<lambda>r. run_LoopID r = 1) (loop_runs ?d) = [running_run]" by (simp add: running_db_def running_run_def)
  then have "ComputeLoopStats 1 ?d = (1, 0, 0)"
    using ComputeLoopStats_shown [OF keys(2), THEN conjunct1, of 1] missing
    by (simp add: Let_def counts_failed_def DeriveRunStatus_def isPodDoneForLoop_def phase_of_def running_run_def
        run_constants pod_constants)
  ultimately show ?thesis
    using ComputeLoopStats_shown [OF keys(2), THEN conjunct2, of running_run] keys(1) shown missing by blast
qed

section \<open>Where the code does not do what it means to\<close>

text \<open>
  A run that is cancelled after its pod was created and before the key of the pod is stored ends with the status
  cancelled, and then gets the key. Its pod is not terminated. No periodic check finds the run, however late, and
  the pod counts as an active run, so that a loop with a limit of one run skips every further trigger.
\<close>

definition cancelled_db :: loop_db where
  "cancelled_db = running_db\<lparr>
     loops := [sample_loop\<lparr>TotalRuns := 1, FailedRuns := 1, LastRunAt := Some 0\<rparr>],
     loop_runs := [running_run\<lparr>run_Status := RunStatusCancelled, run_FinishedAt := Some 0,
       ErrorMessage := Some ''Cancelled by user''\<rparr>],
     published := [(EventLoopRunStarted, 1), (EventLoopRunFailed, 1)], ended := [(1, 1, RunStatusCancelled)]\<rparr>"

lemma cancelled_reached: "sample_steps (sample_db, []) (cancelled_db, [])"
proof -
  let ?d = "running_db\<lparr>loop_runs := [running_run\<lparr>run_PodKey := None\<rparr>]\<rparr>"
  let ?e = "cancelled_db\<lparr>loop_runs := map (run_PodKey_update (\<lambda>_. None)) (loop_runs cancelled_db)\<rparr>"
  let ?k = "SetRunPodKey 1 ''pod'' [] (\<lambda>_. [])"
  let ?t = "TriggerLoop sample_deps sample_json id 5 sample_params"
  let ?r = "Returns ''pod''"
  let ?S = "loop_starts sample_deps sample_json id sample_lib"
  have created: "run_for [?r, ?r, ?r, ?r, ?r] (sample_db, ?t) = (?d, ?k)"
    by (simp add: running_db_def running_run_def starting_pod_def sample_defs loop_operations loop_constants run_constants
      pod_constants)
  have cancelled: "snd (run_alone (CancelRun sample_deps 1 1) (answers, ?d)) = ?e"
    by (simp add: CancelRun_def MarkRunCancelled_def markRunTerminal_def FinishRun_def unfinished_def cancelled_db_def
      running_db_def running_run_def starting_pod_def sample_defs loop_operations loop_constants run_constants
      pod_constants IncrementRunStats_def loop_Update_def count_run_def counts_failed_def)
  have set_key: "run_for [?r] (?e, ?k) = (cancelled_db, [])"
    by (simp add: cancelled_db_def running_run_def SetRunPodKey_def execute_def run_Update_def)
  have 1: "sample_steps (sample_db, []) (sample_db, ?t)"
    using pool_step.start [of ?t ?S loop_env sample_db "[]"] by (simp add: loop_starts.intros(7) r_into_rtranclp)
  have 2: "sample_steps (sample_db, ?t) (?d, ?k)"
    using run_for_steps [of ?S loop_env "(sample_db, ?t)" "[?r, ?r, ?r, ?r, ?r]"] created by simp
  have 3: "sample_steps (?d, ?k) (?e, ?k)" by (rule run_alone_steps [OF loop_starts.intros(8) cancelled])
  have 4: "sample_steps (?e, ?k) (cancelled_db, [])"
    using run_for_steps [of ?S loop_env "(?e, ?k)" "[?r]"] set_key by simp
  show ?thesis by (rule rtranclp_trans [OF 1 rtranclp_trans [OF 2 rtranclp_trans [OF 3 4]]])
qed

theorem cancelled_run_blocks_loop:
  "loops_initial sample_db \<and> sample_steps (sample_db, []) (cancelled_db, []) \<and>
   terminations cancelled_db = [] \<and> CountActiveRuns 1 cancelled_db = 1 \<and>
   (\<forall>t. GetTimedOutRuns [] (cancelled_db\<lparr>clock := t\<rparr>) = [] \<and> GetIdleLoopPods [] (cancelled_db\<lparr>clock := t\<rparr>) = [] \<and>
     GetOrphanPendingRuns [] (cancelled_db\<lparr>clock := t\<rparr>) = [] \<and>
     map_sum id Skipped (snd (TriggerRunAtomic sample_params (cancelled_db\<lparr>clock := t\<rparr>))) = Inr True)"
proof (intro conjI allI)
  fix t
  let ?d = "cancelled_db\<lparr>clock := t\<rparr>"
  have row: "loop_runs ?d = [running_run\<lparr>run_Status := RunStatusCancelled, run_FinishedAt := Some 0,
       ErrorMessage := Some ''Cancelled by user''\<rparr>]" by (simp add: cancelled_db_def)
  show "GetTimedOutRuns [] ?d = []" using row by (simp add: GetTimedOutRuns_def concat_map_Nil)
  show "GetIdleLoopPods [] ?d = []" using row by (simp add: GetIdleLoopPods_def concat_map_Nil)
  show "GetOrphanPendingRuns [] ?d = []" using row by (simp add: GetOrphanPendingRuns_def)
  show "map_sum id Skipped (snd (TriggerRunAtomic sample_params ?d)) = Inr True"
    by (simp add: cancelled_db_def running_db_def running_run_def starting_pod_def sample_defs loop_operations
      loop_constants run_constants pod_constants ActiveStatuses_def)
qed (simp_all add: sample_initial cancelled_reached, simp_all add: cancelled_db_def running_db_def running_run_def
    starting_pod_def sample_defs loop_operations run_constants pod_constants ActiveStatuses_def)

text \<open>
  Deleting a loop looks for runs under way before it deletes, but it does not lock the loop: a run that is triggered
  in between is deleted with the loop although it is under way, and its pod keeps running for no loop. A run that is
  triggered after the runs have been deleted and before the loop is, survives without a loop.
\<close>

definition deleted_db :: loop_db where
  "deleted_db = running_db\<lparr>loops := [], loop_runs := []\<rparr>"

definition orphaned_db :: loop_db where
  "orphaned_db = running_db\<lparr>loops := []\<rparr>"

lemma deleted_between:
  assumes "run_for as (sample_db, DeleteLoop 1 ''nightly'' (\<lambda>_. [])) = (sample_db, k)"
    and "run_for bs (running_db, k) = (d, [])"
  shows "sample_steps (sample_db, []) (d, [])"
proof -
  let ?S = "loop_starts sample_deps sample_json id sample_lib" and ?u = "DeleteLoop 1 ''nightly'' (\<lambda>_. [])"
  have 1: "sample_steps (sample_db, []) (sample_db, ?u)"
    using pool_step.start [of ?u ?S loop_env sample_db "[]"] by (simp add: loop_starts.intros r_into_rtranclp)
  have 2: "sample_steps (sample_db, ?u) (sample_db, k)" using run_for_steps [of ?S loop_env "(sample_db, ?u)" as] assms(1) by simp
  have 3: "sample_steps (sample_db, k) (running_db, k)" by (rule run_alone_steps [OF loop_starts.intros(7) TriggerLoop_sample])
  have 4: "sample_steps (running_db, k) (d, [])" using run_for_steps [of ?S loop_env "(running_db, k)" bs] assms(2) by simp
  show ?thesis by (rule rtranclp_trans [OF 1 rtranclp_trans [OF 2 rtranclp_trans [OF 3 4]]])
qed

lemmas delete_operations =
  DeleteLoop_def LoopService_Delete_def loop_Delete_def deletable_def runs_of_loop_def delete_rows_def first_row_def
  query_def execute_def

theorem deleted_while_running:
  "sample_steps (sample_db, []) (deleted_db, []) \<and> pods deleted_db = [starting_pod] \<and> terminations deleted_db = [] \<and>
   loops deleted_db = [] \<and> loop_runs deleted_db = [] \<and> born deleted_db = [(1, 1, 1)] \<and> ended deleted_db = []"
proof -
  let ?c = "run_for [Returns []] (sample_db, DeleteLoop 1 ''nightly'' (\<lambda>_. []))"
  have "?c = (sample_db, snd ?c)" by (simp add: delete_operations sample_defs)
  then have "sample_steps (sample_db, []) (deleted_db, [])"
    by (rule deleted_between [where bs = "[Returns [], Returns []]"])
      (simp add: delete_operations deleted_db_def running_db_def running_run_def sample_defs)
  then show ?thesis by (simp add: deleted_db_def running_db_def sample_db_def)
qed

theorem orphaned_by_delete:
  "sample_steps (sample_db, []) (orphaned_db, []) \<and> loops orphaned_db = [] \<and> loop_runs orphaned_db = [running_run] \<and>
   run_FinishedAt running_run = None"
proof -
  let ?c = "run_for [Returns [], Returns []] (sample_db, DeleteLoop 1 ''nightly'' (\<lambda>_. []))"
  have "?c = (sample_db, snd ?c)" by (simp add: delete_operations sample_defs)
  then have "sample_steps (sample_db, []) (orphaned_db, [])"
    by (rule deleted_between [where bs = "[Returns []]"])
      (simp add: delete_operations orphaned_db_def running_db_def running_run_def sample_defs)
  then show ?thesis by (simp add: orphaned_db_def running_db_def running_run_def sample_db_def)
qed

text \<open>
  The phase \<open>max_iterations\<close> is terminal and means success, but the subscription does not pass it on: the run is not
  finished by the event.
\<close>

theorem max_iterations_not_handled:
  "IsAutopilotPhaseTerminal AutopilotPhaseMaxIterations \<and>
   DeriveRunStatus podStatus AutopilotPhaseMaxIterations = RunStatusCompleted \<and>
   on_AutopilotStatusChanged deps key AutopilotPhaseMaxIterations = [] \<and>
   HandleAutopilotTerminated deps key AutopilotPhaseMaxIterations [] \<noteq> []"
  by (simp add: IsAutopilotPhaseTerminal_def DeriveRunStatus_def on_AutopilotStatusChanged_def HandleAutopilotTerminated_def
      access_def pod_constants)

text \<open>A loop without prompt variables stores \<open>null\<close>; a trigger that sends variables then writes to a \<open>nil\<close> map.\<close>

theorem resolvePrompt_null_panics:
  assumes "json ''null'' = JNull" "overrides \<noteq> []" "json overrides = JObject (v # vs)"
  shows "resolvePrompt json order template ''null'' overrides = None"
  using assms by (simp add: resolvePrompt_def prompt_vars_def)

text \<open>A value that contains the placeholder of another variable is replaced or not, depending on the order of the map.\<close>

theorem resolvePrompt_order_matters:
  fixes vars :: string
  defines "json \<equiv> \<lambda>_. JObject [(''a'', ''{{b}}''), (''b'', ''x'')]"
  assumes "vars \<noteq> []"
  shows "resolvePrompt json id ''{{a}}'' vars [] = Some ''x'' \<and> resolvePrompt json rev ''{{a}}'' vars [] = Some ''{{b}}''"
  using assms by (simp add: resolvePrompt_def prompt_vars_def placeholder_def)

text \<open>
  A run whose pod is orphaned is shown as running, for ever: it does not count as active, no check times it out or finds
  it idle, and no event ends it.
\<close>

theorem orphaned_run_never_ends:
  assumes "run_PodKey r = Some k" "run_FinishedAt r = None" "AutopilotControllerKey r = None"
    and "distinct (map pod_PodKey (pods d))" "p \<in> set (pods d)" "pod_PodKey p = k" "pod_Status p = StatusOrphaned"
  shows "shown_status d r = RunStatusRunning \<and> filter (counts_active r) (join_pods d r) = [] \<and>
    r \<notin> set (GetTimedOutRuns orgs d) \<and> r \<notin> set (GetIdleLoopPods orgs d) \<and> r \<notin> set (GetOrphanPendingRuns orgs d) \<and>
    on_PodStatusChanged deps k StatusOrphaned = []"
proof -
  have p: "join_pods d r = [Some p]" using filter_key [OF assms(4,5)] assms(1,6) by (simp add: join_pods_def)
  have derive: "DeriveRunStatus StatusOrphaned [] = RunStatusRunning"
    by (simp add: DeriveRunStatus_def isPodDoneForLoop_def pod_constants)
  have "map_of (rev (map (\<lambda>p. (pod_PodKey p, p)) (pods d))) k = Some p"
    using map_of_rev_key [OF assms(4,5), of "\<lambda>p. p"] assms(6) by simp
  then have "shown_status d r = RunStatusRunning" using assms(1,2,3,7) derive
    by (simp add: shown_status_def resolve_one_def ResolveStatus_def Let_def split: option.splits)
  moreover have "filter (counts_active r) (join_pods d r) = []"
    using p assms(1,7) by (simp add: counts_active_def ActiveStatuses_def pod_constants)
  moreover have "r \<notin> set (GetTimedOutRuns orgs d)" using p assms(7) by (auto simp: GetTimedOutRuns_def pod_constants)
  moreover have "q = p" if "q \<in> set (pods d)" "pod_PodKey q = k" for q
    using assms(4-6) that by (metis distinct_map inj_onD)
  then have "r \<notin> set (GetIdleLoopPods orgs d)" using assms(1,7) by (auto simp: GetIdleLoopPods_def pod_constants)
  moreover have "r \<notin> set (GetOrphanPendingRuns orgs d)" using assms(1) by (simp add: GetOrphanPendingRuns_def)
  moreover have "on_PodStatusChanged deps k StatusOrphaned = []" by (simp add: on_PodStatusChanged_def pod_constants)
  ultimately show ?thesis by blast
qed

text \<open>
  A failed lookup of the pods shows a run that is not finished as failed, whatever its pod does; a request to cancel it
  then leaves the pod alone.
\<close>

theorem failed_lookup_shows_failed:
  assumes "run_PodKey r = Some k" "run_FinishedAt r = None" "AutopilotControllerKey r = None"
  shows "run_for [Fails e] (d, resolveRunStatus r c) = (d, c (r\<lparr>run_Status := RunStatusFailed\<rparr>))"
  using assms by (simp add: resolveRunStatus_def resolveRunStatuses_def query_def or_empty_def resolve_one_def map_filter_simps)

text \<open>A run whose pod has no row is failed when it is shown and running when it is counted.\<close>

theorem missing_pod_status_differs:
  assumes "run_PodKey r = Some k" "run_FinishedAt r = None" "AutopilotControllerKey r = None" "k \<notin> pod_PodKey ` set (pods d)"
  shows "shown_status d r = RunStatusFailed \<and>
    [effective_status r p ph. p \<leftarrow> join_pods d r, ph \<leftarrow> join_phases d r] = [RunStatusRunning]"
proof -
  have "filter (\<lambda>p. k = pod_PodKey p) (pods d) = []" using assms(4) by (auto simp: filter_empty_conv)
  then have "join_pods d r = [None]" using assms(1) by (simp add: join_pods_def)
  moreover have "join_phases d r = [None]" using assms(3) by (simp add: join_phases_def)
  moreover have "map_of (rev (map (\<lambda>p. (pod_PodKey p, p)) (pods d))) k = None" using assms(4) by (auto simp: map_of_eq_None_iff)
  ultimately show ?thesis using assms
    by (simp add: shown_status_def resolve_one_def effective_status_def DeriveRunStatus_def isPodDoneForLoop_def pod_constants)
qed

end
