(* ===== verification/Loop_Config_Examples.thy ===== *)
theory Loop_Config_Examples
  imports Loop_Config Loop_Slugs Loop_Examples
begin

text \<open>
  Requests that create and edit loops: examples, and the requests that the checks do not stop.
\<close>

section \<open>A loop that is created and one that runs\<close>

lemma sample_config: "config_ok sample_lib sample_loop"
  by (simp add: config_ok_def callback_ok_def sample_loop_def slug_ok_def slug_char_def validateEnumFields_def
      validExecutionModes_def validSandboxStrategies_def validStatuses_def validateCallbackURL_def sample_lib_def
      blockedHosts_def fold_ascii_def loop_constants)

lemma sample_configs: "configs_ok sample_lib sample_db"
  using sample_config by (simp add: configs_ok_def sample_db_def)


definition no_change :: update_loop_request where
  "no_change = \<lparr>ul_Name = None, ul_Description = None, ul_AgentTypeID = None, ul_CustomAgentTypeID = None,
     ul_PermissionMode = None, ul_PromptTemplate = None, ul_PromptVariables = None, ul_RepositoryID = None,
     ul_RunnerID = None, ul_BranchName = None, ul_TicketID = None, ul_CredentialProfileID = None,
     ul_ConfigOverrides = None, ul_ExecutionMode = None, ul_CronExpression = None, ul_AutopilotConfig = None,
     ul_CallbackURL = None, ul_SandboxStrategy = None, ul_SessionPersistence = None, ul_ConcurrencyPolicy = None,
     ul_MaxConcurrentRuns = None, ul_MaxRetainedRuns = None, ul_TimeoutMinutes = None, ul_IdleTimeoutSec = None\<rparr>"

definition sample_body :: create_body where
  "sample_body = \<lparr>cb_request = \<lparr>cl_OrganizationID = 0, cl_CreatedByID = 0, cl_Slug = [],
       cl_settings = sample_settings\<lparr>Name := ''nightly build''\<rparr>, cl_PermissionMode = [], cl_PromptTemplate = ''fix {{what}}'',
       cl_PromptVariables = None, cl_RunnerID = None, cl_TicketID = None, cl_ConfigOverrides = None, cl_ExecutionMode = [],
       cl_CronExpression = None, cl_AutopilotConfig = None, cl_CallbackURL = None, cl_SandboxStrategy = [],
       cl_SessionPersistence = False, cl_ConcurrencyPolicy = [], cl_MaxConcurrentRuns = 0, cl_MaxRetainedRuns = 0,
       cl_TimeoutMinutes = 0, cl_IdleTimeoutSec = 0\<rparr>,
     cb_AutopilotConfig = None, cb_ConfigOverrides = None, cb_PromptVariables = None, cb_MaxConcurrentRuns = None,
     cb_MaxRetainedRuns = None, cb_TimeoutMinutes = None, cb_SessionPersistence = None, cb_IdleTimeoutSec = None\<rparr>"

lemma sample_slug: "generateSlug id now ''nightly build'' = ''nightly-build''"
  by (simp add: generateSlug_def Trim_def TrimRight_def slug_char_def)

text \<open>
  The handler sends \<open>null\<close> for a missing object, so that the service never stores its default \<open>{}\<close>.
\<close>

theorem create_stores_null:
  "map (\<lambda>l. (loop_ID l, Slug l, PromptVariables l, AutopilotConfig l, TimeoutMinutes l))
     (loops (snd (run_alone (CreateLoop sample_lib 1 5 sample_body (\<lambda>_. [])) (answers, sample_db)))) =
   [(1, ''nightly'', [], [], 60), (2, ''nightly-build'', ''null'', ''null'', 60)]"
  by (simp add: CreateLoop_def LoopService_Create_def create_slugged_def sample_slug sample_body_def sample_lib_def
      sample_defs set_to_def marshal_def new_loop_def slug_ok_def slug_char_def default_def validateEnumFields_def
      validExecutionModes_def validSandboxStrategies_def next_time_def insert_loop_def loop_Create_def gorm_defaults_def nonzero_def next_loop_ID_def
      execute_def time_Now_def or_empty_object_def loop_constants Let_def)

text \<open>
  A request may switch the idle timeout off (0) or the persistence of sessions, but GORM takes both values for missing
  ones when the row is created: the loop is stored, and returned, with 30 seconds and with persistent sessions. An
  update can set them.
\<close>

theorem create_ignores_zero_settings:
  "map (\<lambda>l. (Slug l, IdleTimeoutSec l, SessionPersistence l))
     (loops (snd (run_alone (CreateLoop sample_lib 1 5
        (sample_body\<lparr>cb_IdleTimeoutSec := Some 0, cb_SessionPersistence := Some False\<rparr>) (\<lambda>_. [])) (answers, sample_db)))) =
   [(''nightly'', 30, True), (''nightly-build'', 30, True)]"
  by (simp add: CreateLoop_def LoopService_Create_def create_slugged_def sample_slug sample_body_def sample_lib_def
      sample_defs set_to_def marshal_def new_loop_def slug_ok_def slug_char_def validateEnumFields_def
      validExecutionModes_def validSandboxStrategies_def next_time_def insert_loop_def loop_Create_def gorm_defaults_def
      nonzero_def next_loop_ID_def execute_def time_Now_def or_empty_object_def loop_constants Let_def)

theorem update_stores_zero_settings:
  "map (\<lambda>l. (IdleTimeoutSec l, SessionPersistence l))
     (loops (snd (run_alone (UpdateLoop sample_lib 1 ''nightly''
        (no_change\<lparr>ul_IdleTimeoutSec := Some 0, ul_SessionPersistence := Some False\<rparr>) (\<lambda>_. [])) (answers, sample_db)))) =
   [(0, False)]"
  by (simp add: UpdateLoop_def LoopService_Update_def LoopService_GetBySlug_def loop_GetBySlug_def first_row_def query_def
      execute_def update_row_def loop_Update_def updates_def no_updates_def no_change_def out_of_def set_to_def set_some_def
      next_time_def validateEnumFields_def sample_defs)

section \<open>What the checks do not stop\<close>

text \<open>
  An update may set a mode to the empty string, which creating a loop replaces by the default: the loop is then neither
  an autopilot nor persistent.
\<close>

theorem update_stores_empty_mode:
  "map (\<lambda>l. (ExecutionMode l, SandboxStrategy l))
     (loops (snd (run_alone (UpdateLoop sample_lib 1 ''nightly''
        (no_change\<lparr>ul_ExecutionMode := Some [], ul_SandboxStrategy := Some []\<rparr>) (\<lambda>_. [])) (answers, sample_db)))) = [([], [])]"
  by (simp add: UpdateLoop_def LoopService_Update_def LoopService_GetBySlug_def loop_GetBySlug_def first_row_def query_def
      execute_def update_row_def loop_Update_def updates_def no_updates_def no_change_def out_of_def set_to_def set_some_def
      next_time_def validateEnumFields_def sample_defs)

text \<open>
  The unspecified address of IPv6 reaches the same host as \<open>0.0.0.0\<close>, which is blocked, and a name that ends in a dot
  the same as the name without.
\<close>

theorem unspecified_address_accepted:
  assumes "url_Parse lib ''http://[::]/'' = Some (''http'', ''::'')" "ParseIP lib ''::'' = Some (IP6 [0, 0, 0, 0, 0, 0, 0, 0])"
    and "url_Parse lib ''http://localhost./'' = Some (''http'', ''localhost.'')" "ParseIP lib ''localhost.'' = None"
  shows "validateCallbackURL lib ''http://[::]/'' \<and> validateCallbackURL lib ''http://localhost./''"
  using assms by (simp add: validateCallbackURL_def blockedHosts_def fold_ascii_def)

text \<open>
  A change of the runner resets the sandbox that the next run resumes, but decides so on the row as it was read: a run
  that completes between the reading and the writing leaves a loop on the new runner that resumes on the old one.
\<close>

definition moved_db :: loop_db where
  "moved_db = done_db\<lparr>loops := map (\<lambda>l. l\<lparr>RunnerID := Some 4\<rparr>) (loops done_db)\<rparr>"

lemma moved_reached: "sample_steps (sample_db, []) (moved_db, [])"
proof -
  let ?u = "UpdateLoop sample_lib 1 ''nightly'' (no_change\<lparr>ul_RunnerID := Some 4\<rparr>) (\<lambda>_. [])"
  let ?k = "update_row 1 (updates (no_change\<lparr>ul_RunnerID := Some 4\<rparr>) sample_loop None) 1 ''nightly''
    (\<lambda>r. case r of Inl e \<Rightarrow> [] | Inr l \<Rightarrow> [])"
  let ?r = "Returns ''pod''"
  let ?S = "loop_starts sample_deps sample_json id sample_lib"
  have read: "run_for [?r] (sample_db, ?u) = (sample_db, ?k)"
    by (simp add: UpdateLoop_def LoopService_Update_def LoopService_GetBySlug_def loop_GetBySlug_def first_row_def query_def
      no_updates_def no_change_def out_of_def set_to_def next_time_def validateEnumFields_def sample_db_def sample_loop_def)
  have written: "run_for [?r, ?r] (done_db, ?k) = (moved_db, [])"
    by (simp add: update_row_def LoopService_GetBySlug_def loop_GetBySlug_def first_row_def query_def execute_def
      loop_Update_def updates_def update_settings_def breaks_chain_def no_change_def set_to_def set_some_def moved_db_def
      done_db_def sample_loop_def)
  have 1: "sample_steps (sample_db, []) (sample_db, ?u)"
    using pool_step.start [of ?u ?S loop_env sample_db "[]"] by (simp add: loop_starts.intros r_into_rtranclp)
  have 2: "sample_steps (sample_db, ?u) (sample_db, ?k)"
    using run_for_steps [of ?S loop_env "(sample_db, ?u)" "[?r]"] read by simp
  have 3: "sample_steps (sample_db, ?k) (running_db, ?k)" "sample_steps (running_db, ?k) (done_db, ?k)"
    by (rule run_alone_steps [OF loop_starts.intros(7) TriggerLoop_sample],
      rule run_alone_steps [OF loop_starts.intros(2) pod_completed_sample])
  have 4: "sample_steps (done_db, ?k) (moved_db, [])"
    using run_for_steps [of ?S loop_env "(done_db, ?k)" "[?r, ?r]"] written by simp
  show ?thesis using 1 2 3 4 rtranclp_trans [of "pool_step ?S loop_env"] by metis
qed

theorem moved_loop_resumes_on_old_runner:
  "sample_steps (sample_db, []) (moved_db, []) \<and>
   map (\<lambda>l. (RunnerID l, LastPodKey l)) (loops moved_db) = [(Some 4, Some ''pod'')] \<and>
   map req_RunnerID (pod_requests moved_db) = [3]"
  by (simp add: moved_reached) (simp add: moved_db_def done_db_def running_db_def sample_defs start_request_def)

end
