(* ===== verification/Relay_Selection.thy ===== *)
theory Relay_Selection
  imports Go_Prelude Complex_Main "HOL-Library.List_Lexorder" "HOL-Library.Char_ord" "HOL-Library.Product_Lexorder"
begin

unbundle bit_operations_syntax

text \<open>
  How the backend chooses a relay server for a terminal: \<^verbatim>\<open>backend/internal/service/relay\<close>, files
  \<^verbatim>\<open>relay_info.go\<close>, \<^verbatim>\<open>affinity.go\<close>, \<^verbatim>\<open>load_balancer.go\<close> and \<^verbatim>\<open>load_balancer_geo.go\<close>.

  A Go map is an association list with distinct keys, in the order in which the loop happens to visit it. Floating-point
  numbers are the special values and the rational numbers they stand for: comparisons are exact, and the two
  operations on distances go through a parameter \<open>fl\<close>, the rounding to the nearest number. The distance between two
  points (trigonometry) is a parameter.
\<close>

section \<open>Floating-point numbers\<close>

datatype float64 = NaN | NegInf | PosInf | Finite rat

fun f_less :: "float64 \<Rightarrow> float64 \<Rightarrow> bool" where
  "f_less (Finite a) (Finite b) \<longleftrightarrow> a < b"
| "f_less NegInf (Finite b) \<longleftrightarrow> True"
| "f_less NegInf PosInf \<longleftrightarrow> True"
| "f_less (Finite a) PosInf \<longleftrightarrow> True"
| "f_less _ _ \<longleftrightarrow> False"

definition f_le :: "float64 \<Rightarrow> float64 \<Rightarrow> bool" where
  "f_le x y \<longleftrightarrow> f_less x y \<or> (x = y \<and> x \<noteq> NaN)"

text \<open>An operation with a positive constant: infinities and \<open>NaN\<close> stay, other results are rounded.\<close>

definition f_op :: "(rat \<Rightarrow> float64) \<Rightarrow> (rat \<Rightarrow> rat) \<Rightarrow> float64 \<Rightarrow> float64" where
  "f_op fl g x = (case x of Finite r \<Rightarrow> fl (g r) | _ \<Rightarrow> x)"

section \<open>Relay servers\<close>

record relay_info =
  ri_ID :: string
  ri_URL :: string
  Region :: string
  Capacity :: int
  CurrentConnections :: int
  CPUUsage :: float64
  MemoryUsage :: float64
  LastHeartbeat :: int
  Healthy :: bool
  AvgLatencyMs :: int
  ri_Latitude :: float64
  ri_Longitude :: float64

type_synonym relay_map = "(string \<times> relay_info) list"

definition HasGeoCoords :: "relay_info \<Rightarrow> bool" where
  "HasGeoCoords r \<longleftrightarrow> ri_Latitude r \<noteq> Finite 0 \<or> ri_Longitude r \<noteq> Finite 0"

definition strictCPUThreshold :: float64 where "strictCPUThreshold = Finite 80"
definition strictMemThreshold :: float64 where "strictMemThreshold = Finite 80"

definition isRelayReachable :: "relay_info \<Rightarrow> bool" where
  "isRelayReachable r \<longleftrightarrow> Healthy r \<and> \<not> (Capacity r > 0 \<and> CurrentConnections r \<ge> Capacity r)"

definition isRelayAvailable :: "relay_info \<Rightarrow> bool" where
  "isRelayAvailable r \<longleftrightarrow> isRelayReachable r \<and> f_le (CPUUsage r) strictCPUThreshold \<and> f_le (MemoryUsage r) strictMemThreshold"

section \<open>Rendezvous hashing\<close>

definition fnv_step :: "32 word \<Rightarrow> char \<Rightarrow> 32 word" where
  "fnv_step h c = (h XOR of_char c) * 16777619"

definition hashString :: "string \<Rightarrow> 32 word" where
  "hashString s = foldl fnv_step 2166136261 s"

definition hashStringPair :: "string \<Rightarrow> string \<Rightarrow> 32 word" where
  "hashStringPair a b = foldl fnv_step (foldl fnv_step 2166136261 a) b"

text \<open>The hash of the pair is the hash of the two strings one after the other.\<close>

lemma hashStringPair_append: "hashStringPair a b = hashString (a @ b)"
  by (simp add: hashStringPair_def hashString_def)

record relay_priority =
  rp_id :: string
  rp_priority :: "32 word"

definition priority_before :: "relay_priority \<Rightarrow> 32 word \<times> string" where
  "priority_before p = (rp_priority p, rp_id p)"

definition sortRelayPriorities :: "relay_priority list \<Rightarrow> relay_priority list" where
  "sortRelayPriorities ps = sort_key priority_before ps"

definition selectFromCandidatesLocked :: "relay_map \<Rightarrow> string \<Rightarrow> string list \<Rightarrow> relay_info option" where
  "selectFromCandidatesLocked relays orgSlug candidateIDs =
     (let priorities = map (\<lambda>i. \<lparr>rp_id = i, rp_priority = hashStringPair orgSlug i\<rparr>) candidateIDs
      in case List.map_filter (\<lambda>p. map_of relays (rp_id p)) (sortRelayPriorities priorities) of
           [] \<Rightarrow> None
         | r # _ \<Rightarrow> Some r)"

text \<open>The two tiers of candidates, collected in one pass.\<close>

definition strict_relays :: "relay_map \<Rightarrow> relay_map" where
  "strict_relays relays = filter (\<lambda>(i, r). isRelayAvailable r) relays"

definition lenient_relays :: "relay_map \<Rightarrow> relay_map" where
  "lenient_relays relays = filter (\<lambda>(i, r). \<not> isRelayAvailable r \<and> isRelayReachable r) relays"

definition SelectRelayWithAffinity :: "relay_map \<Rightarrow> string \<Rightarrow> relay_info option" where
  "SelectRelayWithAffinity relays orgSlug =
     (if relays = [] then None
      else let strictIDs = map fst (strict_relays relays);
               lenientIDs = map fst (lenient_relays relays);
               ids = (if strictIDs = [] then lenientIDs else strictIDs)
           in selectFromCandidatesLocked relays orgSlug ids)"

section \<open>Selection by distance\<close>

record geo_select_options =
  OrgSlug :: string
  Latitude :: float64
  Longitude :: float64
  HasUserLocation :: bool

definition maxNearbyGap :: rat where "maxNearbyGap = 2000"
definition minNearbyThresholdKm :: float64 where "minNearbyThresholdKm = Finite 500"
definition earthCircumferenceKm :: float64 where "earthCircumferenceKm = Finite 40075"

record relay_dist =
  rd_id :: string
  distance :: float64

type_synonym haversine = "float64 \<Rightarrow> float64 \<Rightarrow> float64 \<Rightarrow> float64 \<Rightarrow> float64"

definition relay_distance :: "haversine \<Rightarrow> geo_select_options \<Rightarrow> relay_info \<Rightarrow> float64" where
  "relay_distance hav opts r =
     (if HasGeoCoords r then hav (Latitude opts) (Longitude opts) (ri_Latitude r) (ri_Longitude r) else earthCircumferenceKm)"

definition collectCandidatesByTierLocked ::
  "haversine \<Rightarrow> relay_map \<Rightarrow> geo_select_options \<Rightarrow> relay_dist list \<times> relay_dist list" where
  "collectCandidatesByTierLocked hav relays opts =
     (let dist = map (\<lambda>(i, r). \<lparr>rd_id = i, distance = relay_distance hav opts r\<rparr>)
      in (dist (strict_relays relays), dist (lenient_relays relays)))"

fun min_distance :: "float64 \<Rightarrow> relay_dist list \<Rightarrow> float64" where
  "min_distance m [] = m"
| "min_distance m (c # cs) = min_distance (if f_less (distance c) m then distance c else m) cs"

definition nearby_threshold :: "(rat \<Rightarrow> float64) \<Rightarrow> float64 \<Rightarrow> float64" where
  "nearby_threshold fl minDist =
     (let threshold = f_op fl (\<lambda>d. d * (3 / 2)) minDist;
          threshold = (if f_less threshold minNearbyThresholdKm then minNearbyThresholdKm else threshold);
          cap = f_op fl (\<lambda>d. d + maxNearbyGap) minDist
      in if f_less cap threshold then cap else threshold)"

definition select_nearby :: "(rat \<Rightarrow> float64) \<Rightarrow> relay_map \<Rightarrow> string \<Rightarrow> relay_dist list \<Rightarrow> relay_info option" where
  "select_nearby fl relays orgSlug cands =
     (case cands of
        [] \<Rightarrow> None
      | c # cs \<Rightarrow>
          (let threshold = nearby_threshold fl (min_distance (distance c) cs);
               nearbyIDs = map rd_id (filter (\<lambda>c. f_le (distance c) threshold) cands)
           in selectFromCandidatesLocked relays orgSlug nearbyIDs))"

definition SelectRelayForPodGeo ::
  "(rat \<Rightarrow> float64) \<Rightarrow> haversine \<Rightarrow> relay_map \<Rightarrow> geo_select_options \<Rightarrow> relay_info option" where
  "SelectRelayForPodGeo fl hav relays opts =
     (if \<not> HasUserLocation opts then SelectRelayWithAffinity relays (OrgSlug opts)
      else if relays = [] then None
      else let (strict, lenient) = collectCandidatesByTierLocked hav relays opts
           in select_nearby fl relays (OrgSlug opts) (if strict = [] then lenient else strict))"

section \<open>The chosen candidate\<close>

definition affinity :: "string \<Rightarrow> string \<Rightarrow> 32 word \<times> string" where
  "affinity orgSlug i = (hashStringPair orgSlug i, i)"

lemma map_filter_total: "(\<And>x. x \<in> set xs \<Longrightarrow> f x = Some (g x)) \<Longrightarrow> List.map_filter f xs = map g xs"
  by (induction xs) (simp_all add: map_filter_simps)

lemma hd_sort_key_min:
  assumes "xs \<noteq> []"
  shows "hd (sort_key f xs) \<in> set xs" "x \<in> set xs \<Longrightarrow> f (hd (sort_key f xs)) \<le> f x"
proof -
  have ne: "sort_key f xs \<noteq> []" using assms by (metis length_0_conv length_sort)
  then show "hd (sort_key f xs) \<in> set xs" using hd_in_set [OF ne] by simp
  show "f (hd (sort_key f xs)) \<le> f x" if "x \<in> set xs"
  proof -
    have "sorted (map f (sort_key f xs))" by simp
    moreover have "x \<in> set (sort_key f xs)" using that by simp
    ultimately show ?thesis using ne by (cases "sort_key f xs") auto
  qed
qed

text \<open>Among candidates that are in the map the one with the least hash is chosen, and ties go to the lesser name.\<close>

lemma selectFromCandidates_least:
  assumes "set ids \<subseteq> fst ` set relays" "i \<in> set ids" "\<And>j. j \<in> set ids \<Longrightarrow> affinity org i \<le> affinity org j"
  shows "selectFromCandidatesLocked relays org ids = map_of relays i"
proof -
  define p where "p = (\<lambda>i. \<lparr>rp_id = i, rp_priority = hashStringPair org i\<rparr>)"
  define S where "S = sortRelayPriorities (map p ids)"
  have p: "rp_id (p j) = j" "priority_before (p j) = affinity org j" for j
    by (simp_all add: p_def priority_before_def affinity_def)
  have ne: "map p ids \<noteq> []" using assms(2) by auto
  have S: "set S = p ` set ids" by (simp add: S_def sortRelayPriorities_def)
  have hd: "hd S \<in> set (map p ids)" "priority_before (hd S) \<le> priority_before (p i)"
    unfolding S_def sortRelayPriorities_def using hd_sort_key_min [OF ne] assms(2) by auto
  then obtain j where j: "j \<in> set ids" "hd S = p j" by auto
  then have "affinity org j = affinity org i" using hd(2) assms(3) [OF j(1)] by (simp add: p order.antisym)
  then have ji: "j = i" by (simp add: affinity_def)
  have "S \<noteq> []" using S assms(2) by auto
  then have cons: "S = p i # tl S" using j(2) ji by (cases S) simp_all
  have some: "map_of relays (rp_id q) = Some (the (map_of relays (rp_id q)))" if "q \<in> set S" for q
  proof -
    have "rp_id q \<in> dom (map_of relays)" using that assms(1) S by (auto simp: p dom_map_of_conv_image_fst)
    then show ?thesis by auto
  qed
  have "List.map_filter (\<lambda>q. map_of relays (rp_id q)) S = map (\<lambda>q. the (map_of relays (rp_id q))) S"
    by (rule map_filter_total) (rule some)
  also have "\<dots> = the (map_of relays i) # map (\<lambda>q. the (map_of relays (rp_id q))) (tl S)" by (subst cons) (simp add: p)
  finally have "selectFromCandidatesLocked relays org ids = Some (the (map_of relays i))"
    by (simp add: selectFromCandidatesLocked_def Let_def p_def [symmetric] S_def [symmetric])
  moreover have "p i \<in> set S" using S assms(2) by simp
  ultimately show ?thesis using some [of "p i"] by (simp add: p)
qed

lemma affinity_least_exists:
  assumes "ids \<noteq> []"
  obtains i where "i \<in> set ids" "\<And>j. j \<in> set ids \<Longrightarrow> affinity org i \<le> affinity org j"
proof -
  have "hd (sort_key (affinity org) ids) \<in> set ids" "\<And>j. j \<in> set ids \<Longrightarrow>
      affinity org (hd (sort_key (affinity org) ids)) \<le> affinity org j"
    using hd_sort_key_min [OF assms] by blast+
  then show ?thesis by (rule that)
qed

lemma affinity_inj: "affinity org i = affinity org j \<longleftrightarrow> i = j"
  by (auto simp: affinity_def)

section \<open>Properties of the selection\<close>

text \<open>The candidates: the relays below the load thresholds, or else those that are reachable at all.\<close>

definition candidates :: "relay_map \<Rightarrow> relay_map" where
  "candidates relays = (if strict_relays relays = [] then lenient_relays relays else strict_relays relays)"

lemma candidates_subset: "set (candidates relays) \<subseteq> set relays"
  by (auto simp: candidates_def strict_relays_def lenient_relays_def)

lemma candidates_empty: "candidates relays = [] \<longleftrightarrow> (\<forall>(i, r) \<in> set relays. \<not> isRelayReachable r)"
  by (auto simp: candidates_def strict_relays_def lenient_relays_def filter_empty_conv isRelayAvailable_def)

lemma candidates_iff:
  "(i, r) \<in> set (candidates relays) \<longleftrightarrow> (i, r) \<in> set relays \<and> isRelayReachable r \<and>
     (isRelayAvailable r \<or> (\<forall>(j, s) \<in> set relays. \<not> isRelayAvailable s))"
  by (auto simp: candidates_def strict_relays_def lenient_relays_def filter_empty_conv isRelayAvailable_def)

lemma SelectRelayWithAffinity_candidates:
  "SelectRelayWithAffinity relays org = selectFromCandidatesLocked relays org (map fst (candidates relays))"
  by (simp add: SelectRelayWithAffinity_def candidates_def strict_relays_def lenient_relays_def
      selectFromCandidatesLocked_def sortRelayPriorities_def map_filter_simps)

lemma select_empty: "selectFromCandidatesLocked relays org [] = None"
  by (simp add: selectFromCandidatesLocked_def sortRelayPriorities_def map_filter_simps)

lemma select_least:
  assumes "distinct (map fst relays)" "C \<subseteq> set relays" "set ids = fst ` C" "(i, r) \<in> C"
    and "\<And>j s. (j, s) \<in> C \<Longrightarrow> affinity org i \<le> affinity org j"
  shows "selectFromCandidatesLocked relays org ids = Some r"
proof -
  have "selectFromCandidatesLocked relays org ids = map_of relays i"
    using assms by (intro selectFromCandidates_least) force+
  then show ?thesis using assms(1,2,4) by (auto simp: map_of_eq_Some_iff)
qed

lemma select_obtain:
  assumes "distinct (map fst relays)" "C \<subseteq> set relays" "set ids = fst ` C" "C \<noteq> {}"
  obtains i r where "(i, r) \<in> C" "\<And>j s. (j, s) \<in> C \<Longrightarrow> affinity org i \<le> affinity org j"
    "selectFromCandidatesLocked relays org ids = Some r"
proof -
  have "ids \<noteq> []" using assms(3,4) by auto
  then obtain i where i: "i \<in> set ids" "\<And>j. j \<in> set ids \<Longrightarrow> affinity org i \<le> affinity org j"
    using affinity_least_exists [of ids org] by blast
  then obtain r where r: "(i, r) \<in> C" using assms(3) by auto
  moreover have least: "affinity org i \<le> affinity org j" if "(j, s) \<in> C" for j s using i(2) assms(3) that by force
  ultimately show ?thesis using select_least [OF assms(1-3) r] that by blast
qed

lemma selected_reachable:
  assumes "distinct (map fst relays)" "candidates relays \<noteq> []"
  shows "\<exists>i r. SelectRelayWithAffinity relays org = Some r \<and> (i, r) \<in> set (candidates relays) \<and> isRelayReachable r \<and>
    (\<forall>(j, s) \<in> set (candidates relays). affinity org i \<le> affinity org j)"
proof -
  have ne: "set (candidates relays) \<noteq> {}" and ids: "set (map fst (candidates relays)) = fst ` set (candidates relays)"
    using assms(2) by auto
  obtain i r where r: "(i, r) \<in> set (candidates relays)"
      "\<And>j s. (j, s) \<in> set (candidates relays) \<Longrightarrow> affinity org i \<le> affinity org j"
      "selectFromCandidatesLocked relays org (map fst (candidates relays)) = Some r"
    by (rule select_obtain [OF assms(1) candidates_subset ids ne, of org]) (rule that, blast+)
  then show ?thesis by (auto simp: SelectRelayWithAffinity_candidates candidates_iff)
qed

text \<open>
  The relay chosen for an organisation is reachable and, if any relay is below the load thresholds, it is one of
  those; among them it is the one with the least hash. No relay is chosen only if none is reachable.
\<close>

theorem SelectRelayWithAffinity_best:
  assumes "distinct (map fst relays)"
  shows "case SelectRelayWithAffinity relays org of
      None \<Rightarrow> \<forall>(i, r) \<in> set relays. \<not> isRelayReachable r
    | Some r \<Rightarrow> \<exists>i. (i, r) \<in> set relays \<and> isRelayReachable r \<and>
        (isRelayAvailable r \<or> (\<forall>(j, s) \<in> set relays. \<not> isRelayAvailable s)) \<and>
        (\<forall>(j, s) \<in> set relays. isRelayReachable s \<and> (isRelayAvailable r \<longrightarrow> isRelayAvailable s) \<longrightarrow>
           affinity org i \<le> affinity org j)"
proof (cases "candidates relays = []")
  case True
  then show ?thesis by (simp add: SelectRelayWithAffinity_candidates select_empty candidates_empty [symmetric])
next
  case False
  then obtain i r where r: "(i, r) \<in> set (candidates relays)"
      "\<And>j s. (j, s) \<in> set (candidates relays) \<Longrightarrow> affinity org i \<le> affinity org j"
      "SelectRelayWithAffinity relays org = Some r"
    using selected_reachable [OF assms, of org] by fast
  then have "affinity org i \<le> affinity org j"
    if "(j, s) \<in> set relays" "isRelayReachable s" "isRelayAvailable r \<longrightarrow> isRelayAvailable s" for j s
    using that by (fastforce simp: candidates_iff)
  then show ?thesis using r(1,3) by (auto simp: candidates_iff)
qed

lemma same_candidates_same_choice:
  assumes "distinct (map fst relays)" "distinct (map fst relays')"
    and "set (candidates relays') = set (candidates relays)"
  shows "SelectRelayWithAffinity relays' org = SelectRelayWithAffinity relays org"
proof (cases "candidates relays = []")
  case True
  then show ?thesis using assms(3) by (simp add: SelectRelayWithAffinity_candidates select_empty)
next
  case False
  then obtain i r where r: "(i, r) \<in> set (candidates relays)"
      "\<And>j s. (j, s) \<in> set (candidates relays) \<Longrightarrow> affinity org i \<le> affinity org j"
      "SelectRelayWithAffinity relays org = Some r"
    using selected_reachable [OF assms(1), of org] by fast
  have "SelectRelayWithAffinity relays' org = Some r"
    unfolding SelectRelayWithAffinity_candidates
    by (rule select_least [OF assms(2) candidates_subset]) (use r assms(3) in auto)
  then show ?thesis using r(3) by simp
qed

text \<open>
  C19. Minimal disruption: a relay that joins or leaves moves only the organisations that are sent to it. With one relay
  more the choice is the new relay or the same as before. The order in which the map is visited does not matter.
\<close>

theorem selection_minimal_disruption:
  assumes dist: "distinct (map fst relays)" and dist': "distinct (map fst relays')"
  shows "(x \<notin> fst ` set relays \<and> set relays' = insert (x, s) (set relays) \<longrightarrow>
      SelectRelayWithAffinity relays' org \<in> {Some s, SelectRelayWithAffinity relays org}) \<and>
    (set relays' = set relays \<longrightarrow> SelectRelayWithAffinity relays' org = SelectRelayWithAffinity relays org)"
proof (intro conjI impI)
  assume "set relays' = set relays"
  then show "SelectRelayWithAffinity relays' org = SelectRelayWithAffinity relays org"
    by (intro same_candidates_same_choice [OF assms]) (auto simp: candidates_iff)
next
  assume one: "x \<notin> fst ` set relays \<and> set relays' = insert (x, s) (set relays)"
  show "SelectRelayWithAffinity relays' org \<in> {Some s, SelectRelayWithAffinity relays org}"
  proof (cases "set (candidates relays') = set (candidates relays)")
    case True
    then show ?thesis using same_candidates_same_choice [OF assms] by simp
  next
    case False
    then have "candidates relays' \<noteq> []" using one by (force simp: candidates_iff candidates_empty)
    then obtain i r where r: "(i, r) \<in> set (candidates relays')"
        "\<And>j s. (j, s) \<in> set (candidates relays') \<Longrightarrow> affinity org i \<le> affinity org j"
        "SelectRelayWithAffinity relays' org = Some r"
      using selected_reachable [OF dist', of org] by fast
    show ?thesis
    proof (cases "(i, r) = (x, s)")
      case True
      then show ?thesis using r(3) by simp
    next
      case old: False
      have "set (candidates relays) \<subseteq> set (candidates relays')"
        using r(1) old False one by (auto simp: candidates_iff)
      moreover have "(i, r) \<in> set (candidates relays)" using r(1) old one by (auto simp: candidates_iff)
      ultimately have "SelectRelayWithAffinity relays org = Some r"
        unfolding SelectRelayWithAffinity_candidates
        by (intro select_least [OF dist candidates_subset]) (use r(2) in auto)
      then show ?thesis using r(3) by simp
    qed
  qed
qed

section \<open>Distances\<close>

text \<open>What the code relies on: rounding is monotone, and the distances are numbers that need no rounding.\<close>

definition rounds :: "(rat \<Rightarrow> float64) \<Rightarrow> bool" where
  "rounds fl \<longleftrightarrow> (\<forall>a b. a \<le> b \<longrightarrow> f_le (fl a) (fl b))"

definition exact_distance :: "(rat \<Rightarrow> float64) \<Rightarrow> float64 \<Rightarrow> bool" where
  "exact_distance fl x \<longleftrightarrow> (\<exists>d \<ge> 0. x = Finite d \<and> fl d = Finite d)"

lemma f_le_trans: "f_le x y \<Longrightarrow> f_le y z \<Longrightarrow> f_le x z"
  unfolding f_le_def by (cases x; cases y; cases z) auto

lemma f_le_Finite [simp]: "f_le (Finite a) (Finite b) \<longleftrightarrow> a \<le> b"
  by (auto simp: f_le_def)

lemma min_distance_least:
  assumes "\<And>c. c \<in> set cs \<Longrightarrow> \<exists>d. distance c = Finite d" "\<exists>d. m = Finite d"
  shows "min_distance m cs \<in> insert m (distance ` set cs) \<and>
    (\<forall>x \<in> insert m (distance ` set cs). f_le (min_distance m cs) x)"
  using assms
proof (induction m cs rule: min_distance.induct)
  case (2 m c cs)
  let ?m = "if f_less (distance c) m then distance c else m"
  obtain a where a: "distance c = Finite a" using 2(2) [of c] by auto
  obtain b where b: "m = Finite b" using 2(3) by auto
  note ab = a b
  have IH: "min_distance ?m cs \<in> insert ?m (distance ` set cs)" "\<forall>x \<in> insert ?m (distance ` set cs). f_le (min_distance ?m cs) x"
    using 2(1) 2(2,3) by auto
  have "f_le ?m m" "f_le ?m (distance c)" using ab by auto
  moreover have "f_le (min_distance ?m cs) ?m" using IH(2) by blast
  ultimately have "f_le (min_distance ?m cs) m" "f_le (min_distance ?m cs) (distance c)" using f_le_trans by blast+
  then show ?case using IH by (auto split: if_splits)
qed (auto simp: f_le_def)

text \<open>The nearest candidate is nearby.\<close>

lemma threshold_reached:
  assumes "rounds fl" "exact_distance fl m"
  shows "f_le m (nearby_threshold fl m)"
proof -
  obtain d where d: "d \<ge> 0" "m = Finite d" "fl d = Finite d" using assms(2) by (auto simp: exact_distance_def)
  have le: "f_le m (fl e)" if "d \<le> e" for e
    using assms(1) that d(2,3) unfolding rounds_def by (metis)
  have "f_le m (fl (d * (3 / 2)))" "f_le m (fl (d + maxNearbyGap))" using d(1) by (auto intro!: le simp: maxNearbyGap_def)
  moreover have "f_le m minNearbyThresholdKm" if "f_less (fl (d * (3 / 2))) minNearbyThresholdKm"
    using that calculation(1) f_le_trans [of m "fl (d * (3 / 2))" minNearbyThresholdKm] by (simp add: f_le_def)
  ultimately show ?thesis by (auto simp: nearby_threshold_def Let_def f_op_def d(2))
qed

lemma SelectRelayForPodGeo_candidates:
  assumes "HasUserLocation opts"
  shows "SelectRelayForPodGeo fl hav relays opts = select_nearby fl relays (OrgSlug opts)
    (map (\<lambda>(i, r). \<lparr>rd_id = i, distance = relay_distance hav opts r\<rparr>) (candidates relays))"
proof -
  have "strict_relays [] = []" "lenient_relays [] = []" by (simp_all add: strict_relays_def lenient_relays_def)
  moreover have "select_nearby fl rs org [] = None" for rs org by (simp add: select_nearby_def)
  ultimately show ?thesis using assms
    by (cases "relays = []")
      (simp_all add: SelectRelayForPodGeo_def collectCandidatesByTierLocked_def Let_def candidates_def)
qed

text \<open>
  C20. Selection by distance: for a user whose location is known the chosen relay is a candidate within the threshold of
  the nearest one, and of these the one with the least hash, whatever the order of the map. As soon as one relay is
  reachable, one is chosen.
\<close>

theorem SelectRelayForPodGeo_near:
  assumes dist: "distinct (map fst relays)" and user: "HasUserLocation opts" and fl: "rounds fl"
    and exact: "\<forall>(i, r) \<in> set relays. exact_distance fl (relay_distance hav opts r)"
  shows "case SelectRelayForPodGeo fl hav relays opts of
      None \<Rightarrow> \<forall>(i, r) \<in> set relays. \<not> isRelayReachable r
    | Some r \<Rightarrow> \<exists>i n nearest. (i, r) \<in> set (candidates relays) \<and> (n, nearest) \<in> set (candidates relays) \<and>
        (\<forall>(j, s) \<in> set (candidates relays). f_le (relay_distance hav opts nearest) (relay_distance hav opts s)) \<and>
        f_le (relay_distance hav opts r) (nearby_threshold fl (relay_distance hav opts nearest)) \<and>
        (\<forall>(j, s) \<in> set (candidates relays).
           f_le (relay_distance hav opts s) (nearby_threshold fl (relay_distance hav opts nearest)) \<longrightarrow>
           affinity (OrgSlug opts) i \<le> affinity (OrgSlug opts) j)"
proof (cases "candidates relays")
  case Nil
  then have "SelectRelayForPodGeo fl hav relays opts = None" 
    by (simp add: SelectRelayForPodGeo_candidates [OF user] select_nearby_def)
  then show ?thesis using Nil by (simp add: candidates_empty [symmetric])
next
  case (Cons c cs)
  define d where "d = (\<lambda>(j :: string, s). relay_distance hav opts s)"
  define D where "D = (\<lambda>(i, r). \<lparr>rd_id = i, distance = relay_distance hav opts r\<rparr>)"
  have D: "distance (D x) = d x" "rd_id (D x) = fst x" for x by (simp_all add: D_def d_def split: prod.split)
  define m where "m = min_distance (d c) (map D cs)"
  define near where "near = filter (\<lambda>x. f_le (d x) (nearby_threshold fl m)) (candidates relays)"
  have fin: "exact_distance fl (d x)" if "x \<in> set (candidates relays)" for x
    using exact that candidates_subset [of relays] by (cases x) (auto simp: d_def)
  then have e: "\<exists>e. d x = Finite e" if "x \<in> set (c # cs)" for x
    using that Cons by (fastforce simp: exact_distance_def)
  have "m \<in> insert (d c) (distance ` set (map D cs)) \<and> (\<forall>x \<in> insert (d c) (distance ` set (map D cs)). f_le m x)"
    unfolding m_def by (rule min_distance_least) (use e in \<open>auto simp: D\<close>)
  then have "m \<in> d ` set (candidates relays)" "\<forall>x \<in> set (candidates relays). f_le m (d x)"
    by (simp_all add: Cons D image_image)
  then obtain nearest where n: "nearest \<in> set (candidates relays)" "m = d nearest"
      "\<And>x. x \<in> set (candidates relays) \<Longrightarrow> f_le m (d x)"
    by blast
  have "map rd_id (filter (\<lambda>c. f_le (distance c) t) (map D xs)) = map fst (filter (\<lambda>x. f_le (d x) t) xs)" for t xs
    by (induction xs) (simp_all add: D)
  then have sel: "SelectRelayForPodGeo fl hav relays opts = selectFromCandidatesLocked relays (OrgSlug opts) (map fst near)"
    unfolding SelectRelayForPodGeo_candidates [OF user] D_def [symmetric] near_def m_def
    by (simp add: select_nearby_def Cons D Let_def)
  have ne: "set near \<noteq> {}" using n(1,2) threshold_reached [OF fl fin [OF n(1)]]
    by (cases nearest) (auto simp: near_def filter_empty_conv)
  have sub: "set near \<subseteq> set relays" using candidates_subset by (auto simp: near_def)
  have ids: "set (map fst near) = fst ` set near" by simp
  obtain i r where r: "(i, r) \<in> set near"
      "\<And>j s. (j, s) \<in> set near \<Longrightarrow> affinity (OrgSlug opts) i \<le> affinity (OrgSlug opts) j"
      "selectFromCandidatesLocked relays (OrgSlug opts) (map fst near) = Some r"
    by (rule select_obtain [OF dist sub ids ne, of "OrgSlug opts"]) (rule that, blast+)
  obtain j s where js: "nearest = (j, s)" by fastforce
  have "(\<forall>(j', s') \<in> set (candidates relays). f_le (relay_distance hav opts s) (relay_distance hav opts s'))"
    using n(2,3) js by (auto simp: d_def)
  moreover have "f_le (relay_distance hav opts r) (nearby_threshold fl (relay_distance hav opts s))" "(i, r) \<in> set (candidates relays)"
    using r(1) n(2) js by (auto simp: near_def d_def)
  moreover have "affinity (OrgSlug opts) i \<le> affinity (OrgSlug opts) j'" if "(j', s') \<in> set (candidates relays)"
      "f_le (relay_distance hav opts s') (nearby_threshold fl (relay_distance hav opts s))" for j' s'
    using r(2) [of j' s'] that n(2) js by (simp add: near_def d_def)
  ultimately show ?thesis using n(1) unfolding sel r(3) option.case js
    by (intro exI [of _ i] exI [of _ j] exI [of _ s]) auto
qed

section \<open>Witnesses\<close>

definition sample_relay :: "string \<Rightarrow> float64 \<Rightarrow> float64 \<Rightarrow> relay_info" where
  "sample_relay i cpu lat = \<lparr>ri_ID = i, ri_URL = ''wss://'' @ i, Region = ''default'', Capacity = 10, CurrentConnections = 1,
     CPUUsage = cpu, MemoryUsage = Finite 20, LastHeartbeat = 0, Healthy = True, AvgLatencyMs = 0,
     ri_Latitude = lat, ri_Longitude = Finite 1\<rparr>"

definition sample_relays :: relay_map where
  "sample_relays = [(''a'', sample_relay ''a'' (Finite 90) (Finite 2)), (''b'', sample_relay ''b'' (Finite 10) (Finite 900)),
     (''c'', sample_relay ''c'' (Finite 20) (Finite 3))]"

text \<open>A distance in kilometres for the example: the difference of the latitudes.\<close>

definition sample_hav :: haversine where
  "sample_hav lat lon lat' lon' = (case (lat, lat') of (Finite a, Finite b) \<Rightarrow> Finite \<bar>a - b\<bar> | _ \<Rightarrow> NaN)"

definition sample_opts :: geo_select_options where
  "sample_opts = \<lparr>OrgSlug = ''org'', Latitude = Finite 1, Longitude = Finite 1, HasUserLocation = True\<rparr>"

lemma sample_relay_simps:
  "isRelayReachable (sample_relay i c l)" "isRelayAvailable (sample_relay i (Finite q) l) \<longleftrightarrow> q \<le> 80"
  by (simp_all add: sample_relay_def isRelayAvailable_def isRelayReachable_def strictCPUThreshold_def strictMemThreshold_def)

theorem SelectRelayWithAffinity_best_witness:
  "SelectRelayWithAffinity sample_relays ''org'' \<in>
     {Some (sample_relay ''b'' (Finite 10) (Finite 900)), Some (sample_relay ''c'' (Finite 20) (Finite 3))}"
proof -
  have "distinct (map fst sample_relays)" by (simp add: sample_relays_def)
  note best = SelectRelayWithAffinity_best [OF this, of "''org''"]
  show ?thesis
  proof (cases "SelectRelayWithAffinity sample_relays ''org''")
    case None
    then show ?thesis using best by (simp add: sample_relays_def sample_relay_simps)
  next
    case (Some r)
    then obtain i where "(i, r) \<in> set sample_relays" "isRelayAvailable r \<or> (\<forall>(j, s) \<in> set sample_relays. \<not> isRelayAvailable s)"
      using best by auto
    then show ?thesis using Some by (auto simp: sample_relays_def sample_relay_simps)
  qed
qed

theorem selection_minimal_disruption_witness:
  "SelectRelayWithAffinity sample_relays ''org'' \<in>
     {Some (sample_relay ''a'' (Finite 90) (Finite 2)), SelectRelayWithAffinity (tl sample_relays) ''org''} \<and>
   SelectRelayWithAffinity (rev sample_relays) ''org'' = SelectRelayWithAffinity sample_relays ''org''"
proof -
  have "distinct (map fst sample_relays)" "distinct (map fst (tl sample_relays))" "distinct (map fst (rev sample_relays))"
    by (simp_all add: sample_relays_def)
  note d = this
  have new: "''a'' \<notin> fst ` set (tl sample_relays) \<and> set sample_relays =
      insert (''a'', sample_relay ''a'' (Finite 90) (Finite 2)) (set (tl sample_relays))" by (simp add: sample_relays_def)
  show ?thesis
    using selection_minimal_disruption [OF d(2,1), of "''a''" "sample_relay ''a'' (Finite 90) (Finite 2)" "''org''"] new
      selection_minimal_disruption [OF d(1,3), of "''a''" undefined "''org''"] by simp
qed

theorem SelectRelayForPodGeo_near_witness:
  "SelectRelayForPodGeo Finite sample_hav sample_relays sample_opts = Some (sample_relay ''c'' (Finite 20) (Finite 3))"
proof -
  have dist: "distinct (map fst sample_relays)" and user: "HasUserLocation sample_opts" and fl: "rounds Finite"
    by (simp_all add: sample_relays_def sample_opts_def rounds_def)
  have km: "relay_distance sample_hav sample_opts (sample_relay i c (Finite q)) = Finite \<bar>1 - q\<bar>" for i c q
    by (simp add: relay_distance_def sample_relay_def HasGeoCoords_def sample_hav_def sample_opts_def)
  have cands: "candidates sample_relays = tl sample_relays"
    by (simp add: candidates_def strict_relays_def sample_relays_def sample_relay_simps)
  have "\<forall>(i, r) \<in> set sample_relays. exact_distance Finite (relay_distance sample_hav sample_opts r)"
    by (auto simp: sample_relays_def km exact_distance_def)
  note near = SelectRelayForPodGeo_near [OF dist user fl this]
  show ?thesis
  proof (cases "SelectRelayForPodGeo Finite sample_hav sample_relays sample_opts")
    case None
    then show ?thesis using near by (simp add: sample_relays_def sample_relay_simps)
  next
    case (Some r)
    let ?d = "relay_distance sample_hav sample_opts"
    obtain i n nearest where r: "(i, r) \<in> set (tl sample_relays)" "(n, nearest) \<in> set (tl sample_relays)"
        "\<forall>(j, s) \<in> set (tl sample_relays). f_le (?d nearest) (?d s)" "f_le (?d r) (nearby_threshold Finite (?d nearest))"
      using near unfolding Some cands option.case by (elim exE conjE) (rule that; assumption)
    then have "nearest = sample_relay ''c'' (Finite 20) (Finite 3)" by (auto simp: sample_relays_def km)
    then have "f_le (?d r) (Finite 500)"
      using r(4) by (simp add: km nearby_threshold_def f_op_def minNearbyThresholdKm_def maxNearbyGap_def)
    then show ?thesis using r(1) Some by (auto simp: sample_relays_def km)
  qed
qed

end
