(* ===== verification/Relay_Directory.thy ===== *)
theory Relay_Directory
  imports Relay_Selection Go_Tasks "HOL-Library.AList"
begin

text \<open>
  The directory of relay servers: the \<open>Manager\<close> of \<^verbatim>\<open>backend/internal/service/relay\<close> (\<^verbatim>\<open>manager.go\<close>,
  \<^verbatim>\<open>manager_heartbeat.go\<close>, \<^verbatim>\<open>manager_unregister.go\<close>, \<^verbatim>\<open>health_checker.go\<close>, \<^verbatim>\<open>stats.go\<close>) and its Redis store
  (\<^verbatim>\<open>store_redis_relay.go\<close>).

  Every operation is a goroutine: what happens under the lock is one access, and so is every Redis command, also those of
  a pipeline, which other clients can interleave. A command may fail before it is executed (\<open>Fails\<close>) or after
  (\<open>Panics\<close>). The three kinds of Redis keys are three tables; a heartbeat key carries the time of its expiry.

  Relays are stored as JSON and read back. The copy is the relay itself: its numbers are finite where \<open>json.Marshal\<close>
  succeeds, and its texts are valid UTF-8, because the only caller of \<open>Register\<close>
  (\<^verbatim>\<open>api/rest/internal/relay_registration.go\<close>) has decoded them from a JSON request, where Go has replaced invalid bytes.
\<close>

section \<open>The state\<close>

record relay_dir =
  relays :: relay_map
  redis_info :: relay_map
  redis_list :: "string list"
  redis_alive :: "(string \<times> int) list"
  dir_clock :: int

type_synonym dir_go = "relay_dir goroutine"

datatype dir_error = EmptyRelayID | EmptyRelayURL | ErrCapacityLimitReached | PersistFailed | RelayNotFound

definition relayHeartbeatTTL :: int where "relayHeartbeatTTL = 60 * 10 ^ 9"
definition staleRelayMultiplier :: int where "staleRelayMultiplier = 10"
definition maxRelayCount :: nat where "maxRelayCount = 1000"

definition dir_Now :: "(int \<Rightarrow> dir_go) \<Rightarrow> dir_go" where
  "dir_Now k = access (\<lambda>a d. (d, dir_clock d)) k"

text \<open>A command that writes, and one that reads.\<close>

definition redis :: "(relay_dir \<Rightarrow> relay_dir) \<Rightarrow> (bool \<Rightarrow> dir_go) \<Rightarrow> dir_go" where
  "redis f k = access (\<lambda>a d. case a of Returns _ \<Rightarrow> (f d, True) | Fails _ \<Rightarrow> (d, False) | Panics _ \<Rightarrow> (f d, False)) k"

datatype 'a reply = RNil | RErr | RVal 'a

definition redis_read :: "(relay_dir \<Rightarrow> 'r reply) \<Rightarrow> ('r reply \<Rightarrow> dir_go) \<Rightarrow> dir_go" where
  "redis_read f k = access (\<lambda>a d. (d, case a of Returns _ \<Rightarrow> f d | _ \<Rightarrow> RErr)) k"

section \<open>The store\<close>

definition set_info :: "relay_info \<Rightarrow> relay_dir \<Rightarrow> relay_dir" where
  "set_info r d = d\<lparr>redis_info := AList.update (ri_ID r) r (redis_info d)\<rparr>"

definition add_to_list :: "string \<Rightarrow> relay_dir \<Rightarrow> relay_dir" where
  "add_to_list i d = d\<lparr>redis_list := List.insert i (redis_list d)\<rparr>"

definition set_alive :: "string \<Rightarrow> relay_dir \<Rightarrow> relay_dir" where
  "set_alive i d = d\<lparr>redis_alive := AList.update i (dir_clock d + relayHeartbeatTTL) (redis_alive d)\<rparr>"

text \<open>JSON has no encoding of infinities and \<open>NaN\<close>.\<close>

definition json_finite :: "float64 \<Rightarrow> bool" where
  "json_finite x \<longleftrightarrow> (case x of Finite _ \<Rightarrow> True | _ \<Rightarrow> False)"

definition json_Marshal_ok :: "relay_info \<Rightarrow> bool" where
  "json_Marshal_ok r \<longleftrightarrow> json_finite (CPUUsage r) \<and> json_finite (MemoryUsage r) \<and> json_finite (ri_Latitude r) \<and>
     json_finite (ri_Longitude r)"

definition SaveRelay :: "relay_info \<Rightarrow> (bool \<Rightarrow> dir_go) \<Rightarrow> dir_go" where
  "SaveRelay r k =
     (if \<not> json_Marshal_ok r then k False
      else redis (set_info r) (\<lambda>a. redis (add_to_list (ri_ID r)) (\<lambda>b. redis (set_alive (ri_ID r)) (\<lambda>c. k (a \<and> b \<and> c)))))"

definition DeleteRelay :: "string \<Rightarrow> dir_go \<Rightarrow> dir_go" where
  "DeleteRelay i k =
     redis (\<lambda>d. d\<lparr>redis_info := AList.delete i (redis_info d)\<rparr>) (\<lambda>_.
     redis (\<lambda>d. d\<lparr>redis_list := filter (\<lambda>j. j \<noteq> i) (redis_list d)\<rparr>) (\<lambda>_.
     redis (\<lambda>d. d\<lparr>redis_alive := AList.delete i (redis_alive d)\<rparr>) (\<lambda>_. k)))"

definition UpdateRelayHeartbeat :: "string \<Rightarrow> dir_go \<Rightarrow> dir_go" where
  "UpdateRelayHeartbeat i k = redis (set_alive i) (\<lambda>_. k)"

definition get_info :: "string \<Rightarrow> relay_dir \<Rightarrow> relay_info reply" where
  "get_info i d = (case map_of (redis_info d) i of None \<Rightarrow> RNil | Some r \<Rightarrow> RVal r)"

definition alive_exists :: "string \<Rightarrow> relay_dir \<Rightarrow> bool reply" where
  "alive_exists i d = RVal (case map_of (redis_alive d) i of None \<Rightarrow> False | Some t \<Rightarrow> dir_clock d < t)"

fun query_each :: "string list \<Rightarrow> ((string \<times> relay_info reply \<times> bool reply) list \<Rightarrow> dir_go) \<Rightarrow> dir_go" where
  "query_each [] k = k []"
| "query_each (i # is) k =
     redis_read (get_info i) (\<lambda>data. redis_read (alive_exists i) (\<lambda>alive.
       query_each is (\<lambda>rest. k ((i, data, alive) # rest))))"

text \<open>The error of a pipeline is the first one of its commands.\<close>

fun pipeline_failed :: "(string \<times> relay_info reply \<times> bool reply) list \<Rightarrow> bool" where
  "pipeline_failed [] = False"
| "pipeline_failed ((i, data, alive) # rest) =
     (case data of
        RErr \<Rightarrow> True
      | RNil \<Rightarrow> False
      | RVal _ \<Rightarrow> (case alive of RErr \<Rightarrow> True | RNil \<Rightarrow> False | RVal _ \<Rightarrow> pipeline_failed rest))"

text \<open>A relay without heartbeat key counts as silent for eleven lifetimes of such a key.\<close>

definition revive :: "int \<Rightarrow> relay_info \<Rightarrow> bool reply \<Rightarrow> relay_info" where
  "revive now r alive =
     (if alive = RVal True then r\<lparr>Healthy := True, LastHeartbeat := now\<rparr>
      else r\<lparr>Healthy := False, LastHeartbeat := now - relayHeartbeatTTL * (staleRelayMultiplier + 1)\<rparr>)"

fun revive_each :: "(string \<times> relay_info reply \<times> bool reply) list \<Rightarrow> (relay_info list \<times> string list \<Rightarrow> dir_go) \<Rightarrow> dir_go" where
  "revive_each [] k = k ([], [])"
| "revive_each ((i, data, alive) # rest) k =
     (case data of
        RVal r \<Rightarrow> dir_Now (\<lambda>now. revive_each rest (\<lambda>(rs, orphans). k (revive now r alive # rs, orphans)))
      | _ \<Rightarrow> revive_each rest (\<lambda>(rs, orphans). k (rs, i # orphans)))"

fun verify_each :: "string list \<Rightarrow> (string list \<Rightarrow> dir_go) \<Rightarrow> dir_go" where
  "verify_each [] k = k []"
| "verify_each (i # is) k =
     redis_read (get_info i) (\<lambda>data. verify_each is (\<lambda>confirmed. k (if data = RNil then i # confirmed else confirmed)))"

definition GetAllRelays :: "(relay_info list option \<Rightarrow> dir_go) \<Rightarrow> dir_go" where
  "GetAllRelays k =
     redis_read (\<lambda>d. RVal (redis_list d)) (\<lambda>ids.
       case ids of
         RVal relayIDs \<Rightarrow>
           if relayIDs = [] then k (Some [])
           else query_each relayIDs (\<lambda>cmds.
             if pipeline_failed cmds then k None
             else revive_each cmds (\<lambda>(rs, orphanIDs).
               if orphanIDs = [] then k (Some rs)
               else verify_each orphanIDs (\<lambda>confirmed.
                 if confirmed = [] then k (Some rs)
                 else redis (\<lambda>d. d\<lparr>redis_list := filter (\<lambda>i. i \<notin> set confirmed) (redis_list d)\<rparr>) (\<lambda>_. k (Some rs)))))
       | _ \<Rightarrow> k None)"

section \<open>The manager\<close>

text \<open>The manager's settings: whether it has a store, and the interval of the health check.\<close>

record dir_config =
  has_store :: bool
  healthCheckInterval :: int

definition put_relay :: "relay_info \<Rightarrow> relay_dir \<Rightarrow> relay_dir" where
  "put_relay r d = d\<lparr>relays := AList.update (ri_ID r) r (relays d)\<rparr>"

definition Register :: "dir_config \<Rightarrow> relay_info \<Rightarrow> (dir_error + unit \<Rightarrow> dir_go) \<Rightarrow> dir_go" where
  "Register cfg info k =
     (if ri_ID info = [] then k (Inl EmptyRelayID)
      else if ri_URL info = [] then k (Inl EmptyRelayURL)
      else dir_Now (\<lambda>now.
        let infoCopy = info\<lparr>LastHeartbeat := now, Healthy := True\<rparr>;
            store_in_memory = access (\<lambda>a d. (put_relay infoCopy d, ())) (\<lambda>_. k (Inr ()))
        in access (\<lambda>a d. (d, map_of (relays d) (ri_ID info) \<noteq> None, length (relays d))) (\<lambda>(isUpdate, relayCount).
             if \<not> isUpdate \<and> relayCount \<ge> maxRelayCount then k (Inl ErrCapacityLimitReached)
             else if has_store cfg
               then SaveRelay infoCopy (\<lambda>ok. if ok then store_in_memory else k (Inl PersistFailed))
               else store_in_memory)))"

text \<open>
  \<open>rnd\<close> is the rounding to the nearest floating-point number; \<open>math.Round\<close> rounds halves away from zero.
\<close>

definition math_Round :: "rat \<Rightarrow> int" where
  "math_Round q = (if q \<ge> 0 then \<lfloor>q + 1 / 2\<rfloor> else - \<lfloor>1 / 2 - q\<rfloor>)"

definition moving_average :: "(rat \<Rightarrow> rat) \<Rightarrow> int \<Rightarrow> int \<Rightarrow> int" where
  "moving_average rnd avg latencyMs =
     math_Round (rnd (rnd (of_int avg * rnd (7 / 10)) + rnd (of_int latencyMs * rnd (3 / 10))))"

definition clamp_usage :: "float64 \<Rightarrow> float64" where
  "clamp_usage x = (if x = NaN \<or> x = PosInf \<or> x = NegInf \<or> f_less x (Finite 0) then Finite 0 else x)"

definition beat :: "(rat \<Rightarrow> rat) \<Rightarrow> int \<Rightarrow> int \<Rightarrow> float64 \<Rightarrow> float64 \<Rightarrow> int \<Rightarrow> relay_info \<Rightarrow> relay_info" where
  "beat rnd now connections cpuUsage memoryUsage latencyMs r =
     r\<lparr>CurrentConnections := max 0 connections, CPUUsage := clamp_usage cpuUsage, MemoryUsage := clamp_usage memoryUsage,
       LastHeartbeat := now, Healthy := True,
       AvgLatencyMs := (if latencyMs \<le> 0 then AvgLatencyMs r
                        else if AvgLatencyMs r = 0 then latencyMs
                        else moving_average rnd (AvgLatencyMs r) latencyMs)\<rparr>"

definition HeartbeatWithLatency ::
  "(rat \<Rightarrow> rat) \<Rightarrow> dir_config \<Rightarrow> string \<Rightarrow> int \<Rightarrow> float64 \<Rightarrow> float64 \<Rightarrow> int \<Rightarrow> (dir_error + unit \<Rightarrow> dir_go) \<Rightarrow> dir_go" where
  "HeartbeatWithLatency rnd cfg relayID connections cpuUsage memoryUsage latencyMs k =
     dir_Now (\<lambda>now.
       access (\<lambda>a d. case map_of (relays d) relayID of
           None \<Rightarrow> (d, False)
         | Some r \<Rightarrow> (d\<lparr>relays := AList.update relayID (beat rnd now connections cpuUsage memoryUsage latencyMs r) (relays d)\<rparr>, True))
       (\<lambda>found.
          if \<not> found then k (Inl RelayNotFound)
          else if has_store cfg then UpdateRelayHeartbeat relayID (k (Inr ())) else k (Inr ())))"

definition deleteFromStore :: "dir_config \<Rightarrow> string \<Rightarrow> dir_go \<Rightarrow> dir_go" where
  "deleteFromStore cfg relayID k = (if has_store cfg then DeleteRelay relayID k else k)"

definition ForceUnregister :: "dir_config \<Rightarrow> string \<Rightarrow> dir_go \<Rightarrow> dir_go" where
  "ForceUnregister cfg relayID k =
     access (\<lambda>a d. (d\<lparr>relays := AList.delete relayID (relays d)\<rparr>, map_of (relays d) relayID \<noteq> None)) (\<lambda>existed.
       if existed then deleteFromStore cfg relayID k else k)"

definition GracefulUnregister :: "dir_config \<Rightarrow> string \<Rightarrow> dir_go \<Rightarrow> dir_go" where
  "GracefulUnregister cfg relayID k =
     access (\<lambda>a d. case map_of (relays d) relayID of
         None \<Rightarrow> (d, False)
       | Some _ \<Rightarrow> (d\<lparr>relays := AList.delete relayID (relays d)\<rparr>, True)) (\<lambda>found.
       if found then deleteFromStore cfg relayID k else k)"

definition markRelayUnhealthy :: "dir_config \<Rightarrow> string \<Rightarrow> relay_dir \<Rightarrow> relay_dir" where
  "markRelayUnhealthy cfg relayID d =
     (case map_of (relays d) relayID of
        None \<Rightarrow> d
      | Some r \<Rightarrow>
          if \<not> Healthy r \<or> dir_clock d - LastHeartbeat r \<le> healthCheckInterval cfg then d
          else d\<lparr>relays := AList.update relayID (r\<lparr>Healthy := False\<rparr>) (relays d)\<rparr>)"

definition staleTimeout :: "dir_config \<Rightarrow> int" where
  "staleTimeout cfg = healthCheckInterval cfg * staleRelayMultiplier"

definition remove_if_stale :: "dir_config \<Rightarrow> string \<Rightarrow> relay_dir \<Rightarrow> relay_dir \<times> bool" where
  "remove_if_stale cfg relayID d =
     (case map_of (relays d) relayID of
        None \<Rightarrow> (d, False)
      | Some r \<Rightarrow>
          if dir_clock d - LastHeartbeat r \<le> staleTimeout cfg then (d, False)
          else (d\<lparr>relays := AList.delete relayID (relays d)\<rparr>, True))"

definition removeStaleRelay :: "dir_config \<Rightarrow> string \<Rightarrow> dir_go \<Rightarrow> dir_go" where
  "removeStaleRelay cfg relayID k =
     access (\<lambda>a d. remove_if_stale cfg relayID d) (\<lambda>removed. if removed then deleteFromStore cfg relayID k else k)"

fun mark_each :: "dir_config \<Rightarrow> string list \<Rightarrow> dir_go \<Rightarrow> dir_go" where
  "mark_each cfg [] k = k"
| "mark_each cfg (i # is) k = access (\<lambda>a d. (markRelayUnhealthy cfg i d, ())) (\<lambda>_. mark_each cfg is k)"

fun remove_each :: "dir_config \<Rightarrow> string list \<Rightarrow> dir_go \<Rightarrow> dir_go" where
  "remove_each cfg [] k = k"
| "remove_each cfg (i # is) k = removeStaleRelay cfg i (remove_each cfg is k)"

definition needs_attention :: "dir_config \<Rightarrow> int \<Rightarrow> relay_map \<Rightarrow> string list \<times> string list" where
  "needs_attention cfg now rs =
     (map fst (filter (\<lambda>(i, r). now - LastHeartbeat r \<le> staleTimeout cfg \<and>
        now - LastHeartbeat r > healthCheckInterval cfg \<and> Healthy r) rs),
      map fst (filter (\<lambda>(i, r). now - LastHeartbeat r > staleTimeout cfg) rs))"

definition doHealthCheck :: "dir_config \<Rightarrow> dir_go \<Rightarrow> dir_go" where
  "doHealthCheck cfg k =
     dir_Now (\<lambda>now. access (\<lambda>a d. (d, needs_attention cfg now (relays d))) (\<lambda>(unhealthy, stale).
       mark_each cfg unhealthy (remove_each cfg stale k)))"

definition loadFromStore :: "dir_go \<Rightarrow> dir_go" where
  "loadFromStore k =
     GetAllRelays (\<lambda>res. case res of
         None \<Rightarrow> k
       | Some rs \<Rightarrow> access (\<lambda>a d. (fold put_relay rs d, ())) (\<lambda>_. k))"

text \<open>A new manager with a store, before it accepts requests.\<close>

definition NewManagerWithOptions :: "dir_config \<Rightarrow> dir_go" where
  "NewManagerWithOptions cfg = (if has_store cfg then loadFromStore (doHealthCheck cfg []) else [])"

section \<open>Statistics\<close>

record relay_stats =
  TotalRelays :: int
  HealthyRelays :: int
  TotalConnections :: int

definition GetStats :: "relay_map \<Rightarrow> relay_stats" where
  "GetStats rs = \<lparr>TotalRelays = int (length rs), HealthyRelays = int (length (filter (\<lambda>(i, r). Healthy r) rs)),
     TotalConnections = (\<Sum>(i, r) \<leftarrow> rs. CurrentConnections r)\<rparr>"

definition GetHealthyRelayCount :: "relay_map \<Rightarrow> int" where
  "GetHealthyRelayCount rs = int (length (filter (\<lambda>(i, r). Healthy r) rs))"

definition HasHealthyRelays :: "relay_map \<Rightarrow> bool" where
  "HasHealthyRelays rs \<longleftrightarrow> (\<exists>(i, r) \<in> set rs. Healthy r)"

definition GetRelayByID :: "relay_map \<Rightarrow> string \<Rightarrow> relay_info option" where
  "GetRelayByID rs relayID = map_of rs relayID"

end
