(* ===== verification/Relay_Health.thy ===== *)
theory Relay_Health
  imports Relay_Directory
begin

text \<open>
  What holds in the directory of relays however the requests, heartbeats and health checks interleave, and what a health
  check and a restart do.
\<close>

section \<open>The invariant\<close>

definition usage_ok :: "float64 \<Rightarrow> bool" where
  "usage_ok x \<longleftrightarrow> (\<exists>q \<ge> 0. x = Finite q)"

text \<open>What a registration fixes, and what holds of an entry at time \<open>now\<close>.\<close>

definition static_ok :: "relay_info \<Rightarrow> bool" where
  "static_ok r \<longleftrightarrow> ri_ID r \<noteq> [] \<and> ri_URL r \<noteq> [] \<and> 0 \<le> CurrentConnections r \<and> usage_ok (CPUUsage r) \<and> usage_ok (MemoryUsage r)"

definition entry_ok :: "dir_config \<Rightarrow> int \<Rightarrow> string \<times> relay_info \<Rightarrow> bool" where
  "entry_ok cfg now e \<longleftrightarrow> fst e = ri_ID (snd e) \<and> static_ok (snd e) \<and> LastHeartbeat (snd e) \<le> now \<and>
     (Healthy (snd e) \<or> now - LastHeartbeat (snd e) > healthCheckInterval cfg)"

text \<open>A configuration whose interval is positive and less than the assumed silence of a relay without heartbeat key.\<close>

definition interval_ok :: "dir_config \<Rightarrow> bool" where
  "interval_ok cfg \<longleftrightarrow> 0 < healthCheckInterval cfg \<and> healthCheckInterval cfg < relayHeartbeatTTL * (staleRelayMultiplier + 1)"

text \<open>The resources of a goroutine are the times it has read.\<close>

definition dir_ok :: "dir_config \<Rightarrow> relay_dir \<Rightarrow> int multiset \<Rightarrow> bool" where
  "dir_ok cfg d R \<longleftrightarrow> interval_ok cfg \<and> distinct (map fst (relays d)) \<and> (\<forall>e \<in> set (relays d). entry_ok cfg (dir_clock d) e) \<and>
     (\<forall>(i, r) \<in> set (redis_info d). i = ri_ID r \<and> static_ok r) \<and> (\<forall>t \<in># R. t \<le> dir_clock d)"

lemma dir_ok_weaken: "dir_ok cfg d (R + F) \<Longrightarrow> dir_ok cfg d F"
  by (simp add: dir_ok_def)

interpretation dr: resources "dir_ok cfg" for cfg
  by unfold_locales (rule dir_ok_weaken)

lemma set_update_subset: "set (AList.update k v al) \<subseteq> insert (k, v) (set al)"
  by (induction al) auto

lemma set_delete_subset: "set (AList.delete k al) \<subseteq> set al"
  by (induction al) auto

lemma dir_ok_put:
  assumes "dir_ok cfg d R" "entry_ok cfg (dir_clock d) (i, r)"
  shows "dir_ok cfg (d\<lparr>relays := AList.update i r (relays d)\<rparr>) R"
  using assms set_update_subset [of i r "relays d"] by (auto simp: dir_ok_def distinct_update)

lemma dir_ok_delete: "dir_ok cfg d R \<Longrightarrow> dir_ok cfg (d\<lparr>relays := AList.delete i (relays d)\<rparr>) R"
  using set_delete_subset [of i "relays d"] by (auto simp: dir_ok_def distinct_delete)

lemma dir_ok_entry: "dir_ok cfg d R \<Longrightarrow> map_of (relays d) i = Some r \<Longrightarrow> entry_ok cfg (dir_clock d) (i, r)"
  by (auto simp: dir_ok_def dest: map_of_SomeD)

lemma dir_ok_time: "dir_ok cfg d ({#t#} + R) \<longleftrightarrow> dir_ok cfg d R \<and> t \<le> dir_clock d"
  by (auto simp: dir_ok_def)

section \<open>Goroutines keep it\<close>

lemma safe_dir_Now: "(\<And>t. safe_go (dir_ok cfg) (add_mset t R) (k t)) \<Longrightarrow> safe_go (dir_ok cfg) R (dir_Now k)"
  unfolding dir_Now_def
proof (rule dr.safe_access)
  fix a d F
  assume k: "\<And>t. safe_go (dir_ok cfg) (add_mset t R) (k t)" and d: "dir_ok cfg d (R + F)"
  have "dir_ok cfg d (add_mset (dir_clock d) R + F)" using d by (simp add: dir_ok_def)
  then show "\<exists>R'. safe_go (dir_ok cfg) R' (k (snd (d, dir_clock d))) \<and> dir_ok cfg (fst (d, dir_clock d)) (R' + F)"
    using k by (intro exI [of _ "add_mset (dir_clock d) R"]) simp
qed

lemma safe_redis:
  assumes "\<And>d R. dir_ok cfg d R \<Longrightarrow> dir_ok cfg (f d) R" "\<And>b. safe_go (dir_ok cfg) R (k b)"
  shows "safe_go (dir_ok cfg) R (redis f k)"
  unfolding redis_def by (rule dr.safe_neutral) (use assms in \<open>auto split: answer.splits\<close>)

lemma safe_redis_read:
  assumes "\<And>d. dir_ok cfg d {#} \<Longrightarrow> safe_go (dir_ok cfg) R (k (f d))" "safe_go (dir_ok cfg) R (k RErr)"
  shows "safe_go (dir_ok cfg) R (redis_read f k)"
  unfolding redis_read_def
proof (rule dr.safe_access)
  fix a d F
  assume d: "dir_ok cfg d (R + F)"
  then have "dir_ok cfg d {#}" by (simp add: dir_ok_def)
  then have "safe_go (dir_ok cfg) R (k (case a of Returns _ \<Rightarrow> f d | _ \<Rightarrow> RErr))"
    using assms by (cases a) simp_all
  then show "\<exists>R'. safe_go (dir_ok cfg) R' (k (snd (d, case a of Returns _ \<Rightarrow> f d | _ \<Rightarrow> RErr))) \<and>
      dir_ok cfg (fst (d, case a of Returns _ \<Rightarrow> f d | _ \<Rightarrow> RErr)) (R' + F)"
    using d by auto
qed

lemma safe_DeleteRelay: "safe_go (dir_ok cfg) R k \<Longrightarrow> safe_go (dir_ok cfg) R (DeleteRelay i k)"
  unfolding DeleteRelay_def using set_delete_subset by (intro safe_redis) (fastforce simp: dir_ok_def)+

lemma safe_deleteFromStore: "safe_go (dir_ok cfg) R k \<Longrightarrow> safe_go (dir_ok cfg) R (deleteFromStore cfg i k)"
  by (simp add: deleteFromStore_def safe_DeleteRelay)

lemma dir_ok_alive: "dir_ok cfg d R \<Longrightarrow> dir_ok cfg (set_alive i d) R"
  by (simp add: dir_ok_def set_alive_def)

lemma safe_SaveRelay:
  assumes "static_ok r" "\<And>b. safe_go (dir_ok cfg) R (k b)"
  shows "safe_go (dir_ok cfg) R (SaveRelay r k)"
proof -
  have "dir_ok cfg (set_info r d) R" if "dir_ok cfg d R" for d R
    using that assms(1) set_update_subset [of "ri_ID r" r "redis_info d"] by (auto simp: dir_ok_def set_info_def)
  moreover have "dir_ok cfg (add_to_list i d) R" if "dir_ok cfg d R" for d R i
    using that by (simp add: dir_ok_def add_to_list_def)
  ultimately show ?thesis using assms(2) by (auto simp: SaveRelay_def intro!: safe_redis dir_ok_alive)
qed

lemma safe_put:
  assumes "static_ok r" "LastHeartbeat r = t" "Healthy r" "safe_go (dir_ok cfg) R k"
  shows "safe_go (dir_ok cfg) (add_mset t R) (access (\<lambda>a d. (put_relay r d, ())) (\<lambda>_. k))"
proof (rule dr.safe_access)
  fix a d F
  assume "dir_ok cfg d (add_mset t R + F)"
  then have "dir_ok cfg (put_relay r d) (R + F)"
    unfolding put_relay_def using assms by (intro dir_ok_put) (auto simp: dir_ok_def entry_ok_def)
  then show "\<exists>R'. safe_go (dir_ok cfg) R' k \<and> dir_ok cfg (fst (put_relay r d, ())) (R' + F)" using assms(4) by auto
qed

text \<open>A request registers a relay without load figures.\<close>

definition fresh_relay :: "relay_info \<Rightarrow> bool" where
  "fresh_relay r \<longleftrightarrow> CurrentConnections r = 0 \<and> CPUUsage r = Finite 0 \<and> MemoryUsage r = Finite 0"

lemma safe_Register:
  assumes "fresh_relay info" "\<And>x. safe_go (dir_ok cfg) {#} (k x)"
  shows "safe_go (dir_ok cfg) {#} (Register cfg info k)"
proof (cases "ri_ID info = [] \<or> ri_URL info = []")
  case True
  then show ?thesis using assms(2) by (auto simp: Register_def)
next
  case False
  let ?i = "\<lambda>t. info\<lparr>LastHeartbeat := t, Healthy := True\<rparr>"
  have st: "static_ok (?i t)" for t using False assms(1) by (simp add: static_ok_def fresh_relay_def usage_ok_def)
  have k: "safe_go (dir_ok cfg) {#t#} (k x)" for t x by (rule safe_go_mono [OF assms(2)]) simp
  have put: "safe_go (dir_ok cfg) {#t#} (access (\<lambda>a d. (put_relay (?i t) d, ())) (\<lambda>_. k (Inr ())))" for t
    using safe_put [OF st [of t], of t cfg "{#}"] assms(2) by simp
  have "safe_go (dir_ok cfg) {#t#} (SaveRelay (?i t) (\<lambda>ok. if ok
      then access (\<lambda>a d. (put_relay (?i t) d, ())) (\<lambda>_. k (Inr ())) else k (Inl PersistFailed)))" for t
    by (rule safe_SaveRelay [OF st]) (simp add: put k)
  then show ?thesis unfolding Register_def Let_def using False
    by (auto intro!: safe_dir_Now dr.safe_neutral simp: k put)
qed

lemma usage_ok_clamp: "usage_ok (clamp_usage x)"
  by (cases x) (auto simp: clamp_usage_def usage_ok_def)

lemma entry_ok_beat:
  assumes "entry_ok cfg now (i, r)" "t \<le> now"
  shows "entry_ok cfg now (i, beat rnd t n c m l r)"
  using assms by (auto simp: entry_ok_def beat_def static_ok_def usage_ok_clamp)

lemma safe_Heartbeat:
  assumes "\<And>x. safe_go (dir_ok cfg) {#} (k x)"
  shows "safe_go (dir_ok cfg) {#} (HeartbeatWithLatency rnd cfg i n c m l k)"
  unfolding HeartbeatWithLatency_def
proof (rule safe_dir_Now, rule dr.safe_access)
  fix t a F and d :: relay_dir
  let ?f = "case map_of (relays d) i of None \<Rightarrow> (d, False)
    | Some r \<Rightarrow> (d\<lparr>relays := AList.update i (beat rnd t n c m l r) (relays d)\<rparr>, True)"
  assume d: "dir_ok cfg d (add_mset t {#} + F)"
  have "safe_go (dir_ok cfg) {#} (UpdateRelayHeartbeat i (k (Inr ())))"
    unfolding UpdateRelayHeartbeat_def by (rule safe_redis) (simp_all add: dir_ok_alive assms)
  moreover have "dir_ok cfg (fst ?f) F"
  proof (cases "map_of (relays d) i")
    case (Some r)
    have "dir_ok cfg d F" "t \<le> dir_clock d" using d by (simp_all add: dir_ok_def)
    then show ?thesis using Some dir_ok_put [OF _ entry_ok_beat [OF dir_ok_entry [OF _ Some]]] by auto
  qed (use d in \<open>simp add: dir_ok_def\<close>)
  ultimately show "\<exists>R'. safe_go (dir_ok cfg) R' (if \<not> snd ?f then k (Inl RelayNotFound)
      else if has_store cfg then UpdateRelayHeartbeat i (k (Inr ())) else k (Inr ())) \<and> dir_ok cfg (fst ?f) (R' + F)"
    using assms by (intro exI [of _ "{#}"]) simp
qed

lemma safe_Unregister:
  assumes "safe_go (dir_ok cfg) R k"
  shows "safe_go (dir_ok cfg) R (ForceUnregister cfg i k)" "safe_go (dir_ok cfg) R (GracefulUnregister cfg i k)"
  unfolding ForceUnregister_def GracefulUnregister_def
  using assms by (auto intro!: dr.safe_neutral safe_deleteFromStore dir_ok_delete split: option.split)

lemma dir_ok_mark: "dir_ok cfg d R \<Longrightarrow> dir_ok cfg (markRelayUnhealthy cfg i d) R"
  using dir_ok_entry [of cfg d R i] by (auto simp: markRelayUnhealthy_def entry_ok_def static_ok_def intro!: dir_ok_put split: option.split)

lemma safe_mark_each: "safe_go (dir_ok cfg) R k \<Longrightarrow> safe_go (dir_ok cfg) R (mark_each cfg is k)"
  by (induction cfg "is" k rule: mark_each.induct) (auto intro!: dr.safe_neutral dir_ok_mark)

lemma safe_remove_each: "safe_go (dir_ok cfg) R k \<Longrightarrow> safe_go (dir_ok cfg) R (remove_each cfg is k)"
proof (induction cfg "is" k rule: remove_each.induct)
  case (2 cfg i "is" k)
  have "dir_ok cfg (fst (remove_if_stale cfg i d)) R" if "dir_ok cfg d R" for d R
    using that by (auto simp: remove_if_stale_def intro: dir_ok_delete split: option.split)
  then show ?case using 2 by (auto simp: removeStaleRelay_def intro!: dr.safe_neutral safe_deleteFromStore)
qed simp

lemma safe_doHealthCheck:
  assumes "safe_go (dir_ok cfg) {#} k"
  shows "safe_go (dir_ok cfg) {#} (doHealthCheck cfg k)"
  unfolding doHealthCheck_def
  by (rule safe_dir_Now, rule dr.safe_neutral)
    (auto intro!: safe_mark_each safe_remove_each safe_go_mono [OF assms])

text \<open>Loading the store: what is read there has the form a registration gives it.\<close>

definition read_ok :: "string \<times> relay_info reply \<times> bool reply \<Rightarrow> bool" where
  "read_ok c \<longleftrightarrow> (case fst (snd c) of RVal r \<Rightarrow> ri_ID r = fst c \<and> static_ok r | _ \<Rightarrow> True)"

lemma dir_ok_get_info: "dir_ok cfg d R \<Longrightarrow> read_ok (i, get_info i d, alive)"
  by (auto simp: dir_ok_def read_ok_def get_info_def split: option.splits dest!: map_of_SomeD)

lemma safe_query_each:
  "(\<And>cmds. \<forall>c \<in> set cmds. read_ok c \<Longrightarrow> safe_go (dir_ok cfg) R (k cmds)) \<Longrightarrow> safe_go (dir_ok cfg) R (query_each is k)"
proof (induction "is" arbitrary: k)
  case (Cons i "is")
  have one: "safe_go (dir_ok cfg) R (query_each is (\<lambda>rest. k ((i, data, alive) # rest)))" if "read_ok (i, data, alive)" for data alive
    using that by (intro Cons.IH Cons.prems) auto
  have "read_ok (i, RErr, alive)" for alive by (simp add: read_ok_def)
  then show ?case by (auto intro!: safe_redis_read one dir_ok_get_info)
qed simp

lemma entry_ok_later: "entry_ok cfg t e \<Longrightarrow> t \<le> t' \<Longrightarrow> entry_ok cfg t' e"
  by (auto simp: entry_ok_def)

lemma entry_ok_revive:
  assumes "static_ok r" "healthCheckInterval cfg < relayHeartbeatTTL * (staleRelayMultiplier + 1)"
  shows "entry_ok cfg now (ri_ID r, revive now r alive)"
  using assms by (auto simp: entry_ok_def revive_def static_ok_def relayHeartbeatTTL_def staleRelayMultiplier_def)

text \<open>All that is loaded is as good as the latest of the times at which it was read.\<close>

lemma safe_revive_each:
  assumes "healthCheckInterval cfg < relayHeartbeatTTL * (staleRelayMultiplier + 1)" "\<forall>c \<in> set cmds. read_ok c"
    and "\<And>rs orphans T. \<forall>r \<in> set rs. \<exists>t \<in># T. entry_ok cfg t (ri_ID r, r) \<Longrightarrow> safe_go (dir_ok cfg) (T + R) (k (rs, orphans))"
  shows "safe_go (dir_ok cfg) R (revive_each cmds k)"
  using assms(2,3)
proof (induction cmds arbitrary: k R)
  case Nil
  then show ?case using Nil(2) [of "[]" "{#}" "[]"] by simp
next
  case (Cons c cmds)
  obtain i data alive where c: "c = (i, data, alive)" by (cases c) auto
  show ?case
  proof (cases data)
    case (RVal r)
    have st: "static_ok r" using Cons.prems(1) by (simp add: c RVal read_ok_def)
    have "safe_go (dir_ok cfg) (add_mset now R) (revive_each cmds (\<lambda>(rs, orphans). k (revive now r alive # rs, orphans)))" for now
    proof (rule Cons.IH)
      fix rs orphans T
      assume "\<forall>r \<in> set rs. \<exists>t \<in># T. entry_ok cfg t (ri_ID r, r)"
      moreover have "ri_ID (revive now r alive) = ri_ID r" by (simp add: revive_def)
      ultimately have "\<forall>x \<in> set (revive now r alive # rs). \<exists>t \<in># add_mset now T. entry_ok cfg t (ri_ID x, x)"
        using entry_ok_revive [OF st assms(1), of now alive] by auto
      from Cons.prems(2) [OF this]
      show "safe_go (dir_ok cfg) (T + add_mset now R) (case (rs, orphans) of (rs, orphans) \<Rightarrow> k (revive now r alive # rs, orphans))"
        by simp
    qed (use Cons.prems(1) in auto)
    then show ?thesis unfolding c RVal by (auto intro!: safe_dir_Now)
  qed (use Cons in \<open>auto simp: c intro!: Cons.IH\<close>)
qed

lemma safe_verify_each:
  "(\<And>c. safe_go (dir_ok cfg) R (k c)) \<Longrightarrow> safe_go (dir_ok cfg) R (verify_each is k)"
  by (induction "is" arbitrary: k) (auto intro!: safe_redis_read)

lemma dir_ok_put_all:
  "dir_ok cfg d R \<Longrightarrow> \<forall>r \<in> set rs. entry_ok cfg (dir_clock d) (ri_ID r, r) \<Longrightarrow> dir_ok cfg (fold put_relay rs d) R"
proof (induction rs arbitrary: d)
  case (Cons r rs)
  have "dir_ok cfg (put_relay r d) R" unfolding put_relay_def using Cons.prems by (intro dir_ok_put) auto
  then show ?case using Cons.IH [of "put_relay r d"] Cons.prems by (simp add: put_relay_def)
qed simp

lemma safe_GetAllRelays:
  assumes k: "\<And>rs T. \<forall>r \<in> set rs. \<exists>t \<in># T. entry_ok cfg t (ri_ID r, r) \<Longrightarrow> safe_go (dir_ok cfg) T (k (Some rs))"
    and none: "safe_go (dir_ok cfg) {#} (k None)"
  shows "safe_go (dir_ok cfg) {#} (GetAllRelays k)"
proof -
  have srem: "dir_ok cfg (d\<lparr>redis_list := l\<rparr>) R" if "dir_ok cfg d R" for d R l using that by (simp add: dir_ok_def)
  have loaded: "safe_go (dir_ok cfg) T (verify_each orphanIDs (\<lambda>confirmed. if confirmed = [] then k (Some rs)
        else redis (\<lambda>d. d\<lparr>redis_list := filter (\<lambda>i. i \<notin> set confirmed) (redis_list d)\<rparr>) (\<lambda>_. k (Some rs))))"
    if "\<forall>r \<in> set rs. \<exists>t \<in># T. entry_ok cfg t (ri_ID r, r)" for rs orphanIDs T
    using k [OF that] by (auto intro!: safe_verify_each safe_redis srem)
  show ?thesis unfolding GetAllRelays_def
    by (intro safe_redis_read) (auto simp: k none dir_ok_def interval_ok_def intro!: safe_query_each safe_revive_each loaded)
qed

lemma safe_loadFromStore:
  assumes k: "safe_go (dir_ok cfg) {#} k"
  shows "safe_go (dir_ok cfg) {#} (loadFromStore k)"
proof -
  have "safe_go (dir_ok cfg) T (access (\<lambda>a d. (fold put_relay rs d, ())) (\<lambda>_. k))"
    if rs: "\<forall>r \<in> set rs. \<exists>t \<in># T. entry_ok cfg t (ri_ID r, r)" for T rs
  proof (rule dr.safe_access)
    fix a F and d :: relay_dir
    assume d: "dir_ok cfg d (T + F)"
    have "\<forall>r \<in> set rs. entry_ok cfg (dir_clock d) (ri_ID r, r)"
      using rs d entry_ok_later unfolding dir_ok_def by (metis union_iff)
    then have "dir_ok cfg (fold put_relay rs d) F" using dir_ok_put_all dir_ok_weaken [OF d] by blast
    then show "\<exists>R'. safe_go (dir_ok cfg) R' k \<and> dir_ok cfg (fst (fold put_relay rs d, ())) (R' + F)"
      using k by (intro exI [of _ "{#}"]) simp
  qed
  then show ?thesis unfolding loadFromStore_def using k by (intro safe_GetAllRelays) simp_all
qed

section \<open>Interleavings\<close>

text \<open>The goroutines of a backend server, and the rest of the world: time passes, and other servers write to the store.\<close>

inductive_set dir_starts :: "(rat \<Rightarrow> rat) \<Rightarrow> dir_config \<Rightarrow> dir_go set" for rnd cfg where
  "fresh_relay info \<Longrightarrow> Register cfg info (\<lambda>_. []) \<in> dir_starts rnd cfg"
| "HeartbeatWithLatency rnd cfg i connections cpu memory latency (\<lambda>_. []) \<in> dir_starts rnd cfg"
| "ForceUnregister cfg i [] \<in> dir_starts rnd cfg"
| "GracefulUnregister cfg i [] \<in> dir_starts rnd cfg"
| "doHealthCheck cfg [] \<in> dir_starts rnd cfg"
| "NewManagerWithOptions cfg \<in> dir_starts rnd cfg"

inductive dir_env :: "relay_dir \<Rightarrow> relay_dir \<Rightarrow> bool" where
  time: "dir_clock d \<le> t \<Longrightarrow> dir_env d (d\<lparr>dir_clock := t\<rparr>)"
| others: "\<forall>(i, r) \<in> set info. i = ri_ID r \<and> static_ok r \<Longrightarrow>
    dir_env d (d\<lparr>redis_info := info, redis_list := l, redis_alive := alive\<rparr>)"

lemma dir_env_ok: "dir_env d d' \<Longrightarrow> dir_ok cfg d R \<Longrightarrow> dir_ok cfg d' R"
proof (induction rule: dir_env.induct)
  case (time d t)
  then show ?case using entry_ok_later unfolding dir_ok_def by fastforce
qed (simp add: dir_ok_def)

lemma dir_starts_safe: "p \<in> dir_starts rnd cfg \<Longrightarrow> safe_go (dir_ok cfg) {#} p"
  by (erule dir_starts.cases)
    (auto simp: NewManagerWithOptions_def
      intro!: safe_Register safe_Heartbeat safe_Unregister safe_doHealthCheck safe_loadFromStore)

interpretation dir_pool: task_pool "dir_ok cfg" "dir_starts rnd cfg" dir_env for cfg rnd
  by unfold_locales (auto intro: dir_starts_safe dir_env_ok)

abbreviation dir_steps :: "(rat \<Rightarrow> rat) \<Rightarrow> dir_config \<Rightarrow> relay_dir \<times> dir_go \<Rightarrow> relay_dir \<times> dir_go \<Rightarrow> bool" where
  "dir_steps rnd cfg \<equiv> (pool_step (dir_starts rnd cfg) dir_env)\<^sup>*\<^sup>*"

text \<open>A server starts with an empty directory; what the store holds has been registered.\<close>

definition dir_initial :: "relay_dir \<Rightarrow> bool" where
  "dir_initial d \<longleftrightarrow> relays d = [] \<and> (\<forall>(i, r) \<in> set (redis_info d). i = ri_ID r \<and> static_ok r)"

text \<open>
  C17. Health is honest: however registrations, heartbeats, removals, restarts and health checks interleave, and whatever
  the store does, every entry of the directory is valid and unhealthy only if it has been silent for longer than the
  interval. So a relay with free capacity whose heartbeat is recent can be chosen, and a terminal is always given a relay
  that is reachable.
\<close>

theorem recent_relay_is_selectable:
  assumes "interval_ok cfg" "dir_initial d0" "dir_steps rnd cfg (d0, []) (d, ts)"
  shows "distinct (map fst (relays d)) \<and>
    (\<forall>(i, r) \<in> set (relays d). i = ri_ID r \<and> static_ok r \<and> LastHeartbeat r \<le> dir_clock d \<and>
       (\<not> Healthy r \<longrightarrow> dir_clock d - LastHeartbeat r > healthCheckInterval cfg)) \<and>
    ((\<exists>(i, r) \<in> set (relays d). dir_clock d - LastHeartbeat r \<le> healthCheckInterval cfg \<and>
        CurrentConnections r < Capacity r) \<longrightarrow>
      (\<exists>r. SelectRelayWithAffinity (relays d) org = Some r \<and> isRelayReachable r))"
proof -
  have "dir_ok cfg d0 {#}" using assms(1,2) by (auto simp: dir_ok_def dir_initial_def)
  from dir_pool.reachable_ok [OF assms(3) this] have ok: "dir_ok cfg d {#}" .
  then have dist: "distinct (map fst (relays d))" by (simp add: dir_ok_def)
  have entry: "entry_ok cfg (dir_clock d) e" if "e \<in> set (relays d)" for e using ok that by (simp add: dir_ok_def)
  have "\<exists>r. SelectRelayWithAffinity (relays d) org = Some r \<and> isRelayReachable r"
    if "(i, r) \<in> set (relays d)" "dir_clock d - LastHeartbeat r \<le> healthCheckInterval cfg" "CurrentConnections r < Capacity r" for i r
  proof -
    have "isRelayReachable r" using entry [OF that(1)] that(2,3) by (auto simp: entry_ok_def isRelayReachable_def)
    then have "candidates (relays d) \<noteq> []" using that(1) by (auto simp: candidates_empty)
    then show ?thesis using selected_reachable [OF dist] by blast
  qed
  then show ?thesis using dist entry by (fastforce simp: entry_ok_def)
qed

end
