(* ===== verification/Relay_Restart.thy ===== *)
theory Relay_Restart
  imports Relay_Health
begin

text \<open>
  What a health check and a restart of the backend do to the directory of relays, and a case in which the directory and
  its store disagree.
\<close>

section \<open>The health check\<close>

lemma update_as_map:
  "distinct (map fst al) \<Longrightarrow> map_of al i = Some r \<Longrightarrow> AList.update i v al = map (\<lambda>(j, x). (j, if j = i then v else x)) al"
proof (induction al)
  case (Cons e al)
  have "map (\<lambda>(j, x). (j, if j = i then v else x)) al = al" if "i \<notin> fst ` set al"
    using that by (intro map_idI) (auto simp: rev_image_eqI)
  then show ?case using Cons by (cases e) (auto split: if_splits)
qed simp

definition silent :: "dir_config \<Rightarrow> int \<Rightarrow> relay_info \<Rightarrow> bool" where
  "silent cfg now r \<longleftrightarrow> now - LastHeartbeat r > healthCheckInterval cfg"

definition stale :: "dir_config \<Rightarrow> int \<Rightarrow> relay_info \<Rightarrow> bool" where
  "stale cfg now r \<longleftrightarrow> now - LastHeartbeat r > staleTimeout cfg"

definition marked :: "dir_config \<Rightarrow> int \<Rightarrow> string set \<Rightarrow> relay_map \<Rightarrow> relay_map" where
  "marked cfg now I rs = map (\<lambda>(j, r). (j, if j \<in> I \<and> silent cfg now r then r\<lparr>Healthy := False\<rparr> else r)) rs"

lemma markRelayUnhealthy_marked:
  assumes "distinct (map fst (relays d))"
  shows "markRelayUnhealthy cfg i d = d\<lparr>relays := marked cfg (dir_clock d) {i} (relays d)\<rparr>"
proof (cases "map_of (relays d) i")
  case None
  then have "i \<notin> fst ` set (relays d)" by (simp add: map_of_eq_None_iff)
  then have "marked cfg (dir_clock d) {i} (relays d) = relays d"
    unfolding marked_def by (intro map_idI) (auto simp: rev_image_eqI)
  then show ?thesis using None by (simp add: markRelayUnhealthy_def)
next
  case (Some r)
  have r: "x = r" if "(i, x) \<in> set (relays d)" for x using Some that assms by (simp add: map_of_eq_Some_iff)
  show ?thesis
  proof (cases "\<not> Healthy r \<or> \<not> silent cfg (dir_clock d) r")
    case True
    then have "marked cfg (dir_clock d) {i} (relays d) = relays d"
      unfolding marked_def using r by (intro map_idI) auto
    then show ?thesis using Some True by (auto simp: markRelayUnhealthy_def silent_def)
  next
    case False
    have "marked cfg (dir_clock d) {i} (relays d) =
        map (\<lambda>(j, x). (j, if j = i then r\<lparr>Healthy := False\<rparr> else x)) (relays d)"
      unfolding marked_def using r False by (intro map_cong) auto
    then show ?thesis using Some False update_as_map [OF assms Some] by (simp add: markRelayUnhealthy_def silent_def)
  qed
qed

lemma keys_marked [simp]: "map fst (marked cfg now I rs) = map fst rs"
  by (simp add: marked_def comp_def case_prod_unfold)

lemma marked_marked: "marked cfg now I (marked cfg now J rs) = marked cfg now (I \<union> J) rs"
  by (auto simp: marked_def silent_def)

lemma marked_empty [simp]: "marked cfg now {} rs = rs"
  by (simp add: marked_def case_prod_unfold)

lemma run_alone_mark_each:
  "distinct (map fst (relays d)) \<Longrightarrow> \<exists>as'. (as = all_succeed \<longrightarrow> as' = all_succeed) \<and>
     run_alone (mark_each cfg is k) (as, d) =
       run_alone k (as', d\<lparr>relays := marked cfg (dir_clock d) (set is) (relays d)\<rparr>)"
proof (induction "is" arbitrary: as d)
  case (Cons i "is")
  let ?d = "d\<lparr>relays := marked cfg (dir_clock d) {i} (relays d)\<rparr>"
  obtain as' where as': "(\<lambda>n. as (Suc n)) = all_succeed \<longrightarrow> as' = all_succeed"
    "run_alone (mark_each cfg is k) (\<lambda>n. as (Suc n), ?d) =
      run_alone k (as', ?d\<lparr>relays := marked cfg (dir_clock ?d) (set is) (relays ?d)\<rparr>)"
    using Cons.IH [of ?d "\<lambda>n. as (Suc n)"] Cons.prems by auto
  then show ?case using Cons.prems by (auto simp: markRelayUnhealthy_marked marked_marked insert_commute)
qed auto

text \<open>Removing a relay from the store.\<close>

definition forget :: "string \<Rightarrow> relay_dir \<Rightarrow> relay_dir" where
  "forget i d = d\<lparr>redis_info := AList.delete i (redis_info d), redis_list := filter (\<lambda>j. j \<noteq> i) (redis_list d),
     redis_alive := AList.delete i (redis_alive d)\<rparr>"

definition after_redis :: "(relay_dir \<Rightarrow> relay_dir) \<Rightarrow> answer \<Rightarrow> relay_dir \<Rightarrow> relay_dir" where
  "after_redis f a d = (case a of Fails _ \<Rightarrow> d | _ \<Rightarrow> f d)"

lemma run_alone_redis [simp]:
  "run_alone (redis f k) (as, d) =
     run_alone (k (case as 0 of Returns _ \<Rightarrow> True | _ \<Rightarrow> False)) (\<lambda>n. as (Suc n), after_redis f (as 0) d)"
  by (simp add: redis_def after_redis_def split: answer.splits)

lemma after_redis_keeps:
  "(\<And>d. relays (f d) = relays d) \<Longrightarrow> relays (after_redis f a d) = relays d"
  "(\<And>d. dir_clock (f d) = dir_clock d) \<Longrightarrow> dir_clock (after_redis f a d) = dir_clock d"
  "after_redis f (Returns x) d = f d"
  by (simp_all add: after_redis_def split: answer.split)

lemma run_alone_deleteFromStore:
  "\<exists>as' d'. run_alone (deleteFromStore cfg i k) (as, d) = run_alone k (as', d') \<and> relays d' = relays d \<and>
     dir_clock d' = dir_clock d \<and> (as = all_succeed \<longrightarrow> as' = all_succeed \<and> d' = (if has_store cfg then forget i d else d))"
proof (cases "has_store cfg")
  case True
  let ?f = "\<lambda>d. d\<lparr>redis_info := AList.delete i (redis_info d)\<rparr>"
  let ?g = "\<lambda>d. d\<lparr>redis_list := filter (\<lambda>j. j \<noteq> i) (redis_list d)\<rparr>"
  let ?h = "\<lambda>d. d\<lparr>redis_alive := AList.delete i (redis_alive d)\<rparr>"
  let ?d = "after_redis ?h (as 2) (after_redis ?g (as 1) (after_redis ?f (as 0) d))"
  have "run_alone (deleteFromStore cfg i k) (as, d) = run_alone k (\<lambda>n. as (Suc (Suc (Suc n))), ?d)"
    using True by (simp add: deleteFromStore_def DeleteRelay_def numeral_2_eq_2)
  moreover have "relays ?d = relays d" "dir_clock ?d = dir_clock d" by (simp_all add: after_redis_keeps)
  moreover have "?d = forget i d" if "as = all_succeed" using that by (simp add: after_redis_keeps forget_def)
  ultimately show ?thesis using True by fastforce
qed (auto simp: deleteFromStore_def)

lemma delete_filter: "AList.delete i al = filter (\<lambda>(j, r). j \<noteq> i) al"
  unfolding AList.delete_eq by (rule filter_cong) auto

lemma run_alone_remove_each:
  assumes "distinct is" "\<And>i. i \<in> set is \<Longrightarrow> \<exists>r. map_of (relays d) i = Some r \<and> stale cfg (dir_clock d) r"
  shows "\<exists>as' d'. run_alone (remove_each cfg is k) (as, d) = run_alone k (as', d') \<and>
    relays d' = filter (\<lambda>(j, r). j \<notin> set is) (relays d) \<and> dir_clock d' = dir_clock d \<and>
    (as = all_succeed \<and> has_store cfg \<longrightarrow> as' = all_succeed \<and>
       redis_info d' = filter (\<lambda>(j, r). j \<notin> set is) (redis_info d) \<and> redis_list d' = filter (\<lambda>j. j \<notin> set is) (redis_list d))"
  using assms
proof (induction "is" arbitrary: as d)
  case (Cons i "is")
  let ?d = "d\<lparr>relays := filter (\<lambda>(j, r). j \<noteq> i) (relays d)\<rparr>"
  obtain r where r: "map_of (relays d) i = Some r" "stale cfg (dir_clock d) r" using Cons.prems(2) [of i] by auto
  have step: "run_alone (remove_each cfg (i # is) k) (as, d) =
      run_alone (deleteFromStore cfg i (remove_each cfg is k)) (\<lambda>n. as (Suc n), ?d)"
    using r by (simp add: removeStaleRelay_def remove_if_stale_def stale_def delete_filter)
  obtain as1 d1 where d1: "run_alone (deleteFromStore cfg i (remove_each cfg is k)) (\<lambda>n. as (Suc n), ?d) =
      run_alone (remove_each cfg is k) (as1, d1)" "relays d1 = relays ?d" "dir_clock d1 = dir_clock d"
      "(\<lambda>n. as (Suc n)) = all_succeed \<longrightarrow> as1 = all_succeed \<and> d1 = (if has_store cfg then forget i ?d else ?d)"
    using run_alone_deleteFromStore [of cfg i "remove_each cfg is k" "\<lambda>n. as (Suc n)" ?d] by auto
  have "\<exists>r. map_of (relays d1) j = Some r \<and> stale cfg (dir_clock d1) r" if "j \<in> set is" for j
  proof -
    have "j \<noteq> i" using Cons.prems(1) that by auto
    then have "map_of (relays d1) j = map_of (relays d) j"
      using d1(2) by (simp add: map_of_filter_in [of _ j] delete_filter [symmetric] AList.delete_conv')
    then show ?thesis using Cons.prems(2) [of j] that d1(3) by simp
  qed
  then obtain as' d' where "run_alone (remove_each cfg is k) (as1, d1) = run_alone k (as', d')"
      "relays d' = filter (\<lambda>(j, r). j \<notin> set is) (relays d1)" "dir_clock d' = dir_clock d1"
      "as1 = all_succeed \<and> has_store cfg \<longrightarrow> as' = all_succeed \<and>
        redis_info d' = filter (\<lambda>(j, r). j \<notin> set is) (redis_info d1) \<and> redis_list d' = filter (\<lambda>j. j \<notin> set is) (redis_list d1)"
    using Cons.IH [of d1 as1] Cons.prems(1) by auto
  moreover have "filter (\<lambda>(j, r). j \<notin> set is) (filter (\<lambda>(j, r). j \<noteq> i) xs) = filter (\<lambda>(j, r). j \<notin> set (i # is)) xs" for xs :: relay_map
    by (auto intro: filter_cong)
  moreover have "filter (\<lambda>j. j \<notin> set is) (filter (\<lambda>j. j \<noteq> i) xs) = filter (\<lambda>j. j \<notin> set (i # is)) xs" for xs :: "string list"
    by (auto intro: filter_cong)
  ultimately show ?case using step d1 by (intro exI [of _ as'] exI [of _ d']) (auto simp: forget_def delete_filter)
qed auto

lemma marked_filter: "filter (\<lambda>(j, r). j \<notin> J) (marked cfg now I rs) = marked cfg now I (filter (\<lambda>(j, r). j \<notin> J) rs)"
  by (auto simp: marked_def filter_map comp_def case_prod_unfold)

text \<open>
  C21. A health check that is not interrupted removes exactly the relays that have been silent for ten intervals and marks
  exactly those unhealthy, of the others, that have been silent for more than one, whatever the store answers. What
  it removes it also removes from a store that works.
\<close>

theorem doHealthCheck_exact:
  assumes dist: "distinct (map fst (relays d))" and run: "run_alone (doHealthCheck cfg []) (as, d) = (as', d')"
  shows "relays d' = map (\<lambda>(i, r). (i, if silent cfg (dir_clock d) r then r\<lparr>Healthy := False\<rparr> else r))
        (filter (\<lambda>(i, r). \<not> stale cfg (dir_clock d) r) (relays d)) \<and>
    dir_clock d' = dir_clock d \<and>
    (as = all_succeed \<and> has_store cfg \<longrightarrow>
      redis_info d' = filter (\<lambda>(i, r). \<not> (\<exists>s. (i, s) \<in> set (relays d) \<and> stale cfg (dir_clock d) s)) (redis_info d))"
proof -
  let ?now = "dir_clock d"
  define U where "U = map fst (filter (\<lambda>(i, r). \<not> stale cfg ?now r \<and> silent cfg ?now r \<and> Healthy r) (relays d))"
  define S where "S = map fst (filter (\<lambda>(i, r). stale cfg ?now r) (relays d))"
  let ?d1 = "d\<lparr>relays := marked cfg ?now (set U) (relays d)\<rparr>"
  have att: "needs_attention cfg ?now (relays d) = (U, S)"
    by (simp add: needs_attention_def U_def S_def stale_def silent_def linorder_not_less)
  have val: "r = s" if "(i, r) \<in> set (relays d)" "(i, s) \<in> set (relays d)" for i r s
    using that dist by (metis map_of_eq_Some_iff option.inject)
  have S: "i \<in> set S \<longleftrightarrow> (\<exists>r. (i, r) \<in> set (relays d) \<and> stale cfg ?now r)" for i by (force simp: S_def)
  obtain as1 where as1: "(\<lambda>n. as (Suc (Suc n))) = all_succeed \<longrightarrow> as1 = all_succeed"
      "run_alone (mark_each cfg U (remove_each cfg S [])) (\<lambda>n. as (Suc (Suc n)), d) = run_alone (remove_each cfg S []) (as1, ?d1)"
    using run_alone_mark_each [OF dist] by blast
  have "\<exists>r. map_of (relays ?d1) i = Some r \<and> stale cfg (dir_clock ?d1) r" if i: "i \<in> set S" for i
  proof -
    obtain r where "(i, r) \<in> set (relays d)" "stale cfg ?now r" using S i by blast
    moreover from this have "i \<notin> set U" using val by (force simp: U_def)
    ultimately have "(i, r) \<in> set (relays ?d1)" by (force simp: marked_def)
    then show ?thesis using \<open>stale cfg ?now r\<close> dist by (auto simp: map_of_eq_Some_iff)
  qed
  moreover have "distinct S" using dist by (simp add: S_def distinct_map_filter)
  ultimately obtain as2 d2 where d2: "run_alone (remove_each cfg S []) (as1, ?d1) = run_alone [] (as2, d2)"
      "relays d2 = filter (\<lambda>(j, r). j \<notin> set S) (relays ?d1)" "dir_clock d2 = dir_clock ?d1"
      "as1 = all_succeed \<and> has_store cfg \<longrightarrow> redis_info d2 = filter (\<lambda>(j, r). j \<notin> set S) (redis_info ?d1)"
    using run_alone_remove_each [of S ?d1 cfg "[]" as1] by blast
  have "run_alone (doHealthCheck cfg []) (as, d) = (as2, d2)"
    using as1(2) d2(1) by (simp add: doHealthCheck_def dir_Now_def att)
  then have d': "d' = d2" using run by simp
  have "filter (\<lambda>(j, r). j \<notin> set S) (relays d) = filter (\<lambda>(i, r). \<not> stale cfg ?now r) (relays d)"
    using S val by (intro filter_cong) auto
  moreover have "marked cfg ?now (set U) (filter (\<lambda>(i, r). \<not> stale cfg ?now r) (relays d)) =
      map (\<lambda>(i, r). (i, if silent cfg ?now r then r\<lparr>Healthy := False\<rparr> else r)) (filter (\<lambda>(i, r). \<not> stale cfg ?now r) (relays d))"
  proof -
    have same: "r\<lparr>Healthy := False\<rparr> = r" if "\<not> Healthy r" for r :: relay_info using that by (cases r) simp
    have "i \<in> set U" if "(i, r) \<in> set (relays d)" "\<not> stale cfg ?now r" "silent cfg ?now r" "Healthy r" for i r
      using that by (force simp: U_def)
    then have "(if i \<in> set U \<and> silent cfg ?now r then r\<lparr>Healthy := False\<rparr> else r) =
        (if silent cfg ?now r then r\<lparr>Healthy := False\<rparr> else r)" if "(i, r) \<in> set (relays d)" "\<not> stale cfg ?now r" for i r
      using that same [of r] by (cases "Healthy r") auto
    then show ?thesis unfolding marked_def by (intro map_cong) auto
  qed
  ultimately have "relays d' = map (\<lambda>(i, r). (i, if silent cfg ?now r then r\<lparr>Healthy := False\<rparr> else r))
        (filter (\<lambda>(i, r). \<not> stale cfg ?now r) (relays d))"
    using d2(2) by (simp add: d' marked_filter)
  moreover have "redis_info d' = filter (\<lambda>(i, r). \<not> (\<exists>s. (i, s) \<in> set (relays d) \<and> stale cfg ?now s)) (redis_info d)"
    if "as = all_succeed \<and> has_store cfg"
    using that as1(1) d2(4) by (simp add: d' S)
  ultimately show ?thesis using d2(3) d' by simp
qed

section \<open>Restart\<close>

lemma run_alone_redis_read [simp]:
  "run_alone (redis_read f k) (as, d) =
     run_alone (k (case as 0 of Returns _ \<Rightarrow> f d | _ \<Rightarrow> RErr)) (\<lambda>n. as (Suc n), d)"
  by (simp add: redis_read_def)

lemma run_alone_query_each:
  "run_alone (query_each is k) (all_succeed, d) =
     run_alone (k (map (\<lambda>i. (i, get_info i d, alive_exists i d)) is)) (all_succeed, d)"
  by (induction "is" arbitrary: k) simp_all

lemma pipeline_succeeds: "\<not> pipeline_failed (map (\<lambda>i. (i, get_info i d, alive_exists i d)) is)"
  by (induction "is") (auto simp: get_info_def alive_exists_def split: option.split)

text \<open>What the store holds of a relay, and whether its heartbeat key is alive.\<close>

definition stored :: "relay_dir \<Rightarrow> string \<Rightarrow> relay_info list" where
  "stored d i = (case map_of (redis_info d) i of None \<Rightarrow> [] | Some r \<Rightarrow> [r])"

definition alive :: "relay_dir \<Rightarrow> string \<Rightarrow> bool" where
  "alive d i \<longleftrightarrow> (case map_of (redis_alive d) i of None \<Rightarrow> False | Some t \<Rightarrow> dir_clock d < t)"

lemma run_alone_revive_each:
  "run_alone (revive_each (map (\<lambda>i. (i, get_info i d, alive_exists i d)) is) k) (all_succeed, d) =
     run_alone (k ([revive (dir_clock d) r (RVal (alive d i)). i \<leftarrow> is, r \<leftarrow> stored d i], filter (\<lambda>i. stored d i = []) is)) (all_succeed, d)"
  by (induction "is" arbitrary: k)
    (simp_all add: get_info_def stored_def dir_Now_def alive_def alive_exists_def split: option.split)

lemma run_alone_verify_each:
  "run_alone (verify_each is k) (all_succeed, d) = run_alone (k (filter (\<lambda>i. stored d i = []) is)) (all_succeed, d)"
  by (induction "is" arbitrary: k) (simp_all add: get_info_def stored_def split: option.split)

lemma fold_put_relay:
  "distinct (map ri_ID rs) \<Longrightarrow> fst ` set (relays d) \<inter> ri_ID ` set rs = {} \<Longrightarrow>
     fold put_relay rs d = d\<lparr>relays := relays d @ map (\<lambda>r. (ri_ID r, r)) rs\<rparr>"
proof (induction rs arbitrary: d)
  case (Cons r rs)
  have "AList.update i v al = al @ [(i, v)]" if "i \<notin> fst ` set al" for i v and al :: relay_map
    using that by (induction al) auto
  then have "put_relay r d = d\<lparr>relays := relays d @ [(ri_ID r, r)]\<rparr>" using Cons.prems(2) by (auto simp: put_relay_def)
  then show ?case using Cons.IH [of "put_relay r d"] Cons.prems by auto
qed simp

lemma ri_ID_revive [simp]: "ri_ID (revive now r b) = ri_ID r"
  by (simp add: revive_def)

lemma stored_cases:
  assumes "\<forall>(i, r) \<in> set (redis_info d). i = ri_ID r"
  shows "stored d i = [] \<or> (\<exists>r. stored d i = [r] \<and> ri_ID r = i)"
proof (cases "map_of (redis_info d) i")
  case (Some r)
  then have "ri_ID r = i" using assms map_of_SomeD by fastforce
  then show ?thesis using Some by (simp add: stored_def)
qed (simp add: stored_def)

lemma run_alone_loadFromStore:
  assumes "relays d = []" "distinct (redis_list d)" "\<forall>(i, r) \<in> set (redis_info d). i = ri_ID r"
  shows "\<exists>l. run_alone (loadFromStore k) (all_succeed, d) =
    run_alone k (all_succeed, d\<lparr>relays := [(i, revive (dir_clock d) r (RVal (alive d i))). i \<leftarrow> redis_list d, r \<leftarrow> stored d i], redis_list := l\<rparr>)"
proof -
  let ?rs = "[revive (dir_clock d) r (RVal (alive d i)). i \<leftarrow> redis_list d, r \<leftarrow> stored d i]"
  let ?l = "filter (\<lambda>i. stored d i \<noteq> []) (redis_list d)"
  have ids: "map ri_ID [revive (dir_clock d) r (RVal (alive d i)). i \<leftarrow> is, r \<leftarrow> stored d i] = filter (\<lambda>i. stored d i \<noteq> []) is"
    and pairs: "map (\<lambda>r. (ri_ID r, r)) [revive (dir_clock d) r (RVal (alive d i)). i \<leftarrow> is, r \<leftarrow> stored d i] =
      [(i, revive (dir_clock d) r (RVal (alive d i))). i \<leftarrow> is, r \<leftarrow> stored d i]" for "is"
  proof (induction "is")
    case (Cons i "is")
    show "map ri_ID [revive (dir_clock d) r (RVal (alive d i)). i \<leftarrow> i # is, r \<leftarrow> stored d i] = filter (\<lambda>i. stored d i \<noteq> []) (i # is)"
      and "map (\<lambda>r. (ri_ID r, r)) [revive (dir_clock d) r (RVal (alive d i)). i \<leftarrow> i # is, r \<leftarrow> stored d i] =
        [(i, revive (dir_clock d) r (RVal (alive d i))). i \<leftarrow> i # is, r \<leftarrow> stored d i]"
      using Cons stored_cases [OF assms(3), of i] by auto
  qed simp_all
  have put: "fold put_relay ?rs (d\<lparr>redis_list := l\<rparr>) =
      d\<lparr>relays := [(i, revive (dir_clock d) r (RVal (alive d i))). i \<leftarrow> redis_list d, r \<leftarrow> stored d i], redis_list := l\<rparr>" for l
    using assms(1,2) by (subst fold_put_relay) (simp_all add: ids pairs)
  then have put0: "fold put_relay ?rs d = d\<lparr>relays := [(i, revive (dir_clock d) r (RVal (alive d i))). i \<leftarrow> redis_list d, r \<leftarrow> stored d i], redis_list := redis_list d\<rparr>"
    using put [of "redis_list d"] by simp
  have same: "d\<lparr>relays := []\<rparr> = d" using assms(1) by (cases d) simp
  show ?thesis
  proof (cases "filter (\<lambda>i. stored d i = []) (redis_list d) = []")
    case True
    then show ?thesis
      by (intro exI [of _ "redis_list d"])
        (simp add: loadFromStore_def GetAllRelays_def run_alone_query_each pipeline_succeeds run_alone_revive_each put0 same)
  next
    case False
    then have "redis_list d \<noteq> []" by auto
    then show ?thesis using False
      by (intro exI [of _ "filter (\<lambda>i. i \<notin> set (filter (\<lambda>i. stored d i = []) (redis_list d))) (redis_list d)"])
        (simp add: loadFromStore_def GetAllRelays_def run_alone_query_each pipeline_succeeds run_alone_revive_each
          run_alone_verify_each after_redis_keeps put)
  qed
qed

lemma restart_exact:
  assumes "relays d = []" "distinct (redis_list d)" "\<forall>(i, r) \<in> set (redis_info d). i = ri_ID r"
    and cfg: "has_store cfg" "0 < healthCheckInterval cfg" "staleTimeout cfg < relayHeartbeatTTL * (staleRelayMultiplier + 1)"
    and run: "run_alone (NewManagerWithOptions cfg) (all_succeed, d) = (as', d')"
  shows "relays d' = [(i, r\<lparr>Healthy := True, LastHeartbeat := dir_clock d\<rparr>). i \<leftarrow> redis_list d, alive d i, r \<leftarrow> stored d i]"
proof -
  let ?now = "dir_clock d"
  obtain l where l: "run_alone (loadFromStore (doHealthCheck cfg [])) (all_succeed, d) =
      run_alone (doHealthCheck cfg []) (all_succeed,
        d\<lparr>relays := [(i, revive ?now r (RVal (alive d i))). i \<leftarrow> redis_list d, r \<leftarrow> stored d i], redis_list := l\<rparr>)"
    using run_alone_loadFromStore [OF assms(1-3)] by blast
  let ?d = "d\<lparr>relays := [(i, revive ?now r (RVal (alive d i))). i \<leftarrow> redis_list d, r \<leftarrow> stored d i], redis_list := l\<rparr>"
  have dist: "distinct (map fst (relays ?d))"
  proof -
    have "map fst [(i, revive ?now r (RVal (alive d i))). i \<leftarrow> is, r \<leftarrow> stored d i] = filter (\<lambda>i. stored d i \<noteq> []) is" for "is"
    proof (induction "is")
      case (Cons i "is")
      then show ?case using stored_cases [OF assms(3), of i] by auto
    qed simp
    then show ?thesis using assms(2) by simp
  qed
  have "run_alone (doHealthCheck cfg []) (all_succeed, ?d) = (as', d')" using run l cfg(1) by (simp add: NewManagerWithOptions_def)
  from doHealthCheck_exact [OF dist this] have d': "relays d' =
      map (\<lambda>(i, r). (i, if silent cfg ?now r then r\<lparr>Healthy := False\<rparr> else r))
        (filter (\<lambda>(i, r). \<not> stale cfg ?now r) [(i, revive ?now r (RVal (alive d i))). i \<leftarrow> redis_list d, r \<leftarrow> stored d i])"
    by simp
  have rev: "stale cfg ?now (revive ?now r (RVal False))" "\<not> stale cfg ?now (revive ?now r (RVal True))"
      "\<not> silent cfg ?now (revive ?now r (RVal True))" "revive ?now r (RVal True) = r\<lparr>Healthy := True, LastHeartbeat := ?now\<rparr>" for r
    using cfg(2,3) by (auto simp: stale_def silent_def revive_def staleTimeout_def staleRelayMultiplier_def)
  have "map (\<lambda>(i, r). (i, if silent cfg ?now r then r\<lparr>Healthy := False\<rparr> else r))
        (filter (\<lambda>(i, r). \<not> stale cfg ?now r) [(i, revive ?now r (RVal (alive d i))). i \<leftarrow> is, r \<leftarrow> stored d i]) =
      [(i, r\<lparr>Healthy := True, LastHeartbeat := ?now\<rparr>). i \<leftarrow> is, alive d i, r \<leftarrow> stored d i]" for "is"
  proof (induction "is")
    case (Cons i "is")
    then show ?case using stored_cases [OF assms(3), of i] rev by (cases "alive d i") auto
  qed simp
  then show ?thesis using d' by simp
qed

text \<open>
  C22. A registration survives a restart: a relay that registers while the store works is found again, with the same
  data, by a server that starts before the heartbeat key expires. If the key has expired, the server starts without it.
\<close>

theorem registered_relay_survives_restart:
  assumes info: "ri_ID info \<noteq> []" "ri_URL info \<noteq> []" "json_Marshal_ok info" "length (relays d) < maxRelayCount"
    and store: "distinct (redis_list d)" "\<forall>(i, r) \<in> set (redis_info d). i = ri_ID r"
    and cfg: "has_store cfg" "0 < healthCheckInterval cfg" "staleTimeout cfg < relayHeartbeatTTL * (staleRelayMultiplier + 1)"
    and reg: "run_alone (Register cfg info (\<lambda>_. [])) (all_succeed, d) = (as1, d1)"
    and start: "run_alone (NewManagerWithOptions cfg) (all_succeed, d1\<lparr>relays := [], dir_clock := t\<rparr>) = (as2, d2)"
  shows "map_of (relays d1) (ri_ID info) = Some (info\<lparr>LastHeartbeat := dir_clock d, Healthy := True\<rparr>) \<and>
    map_of (relays d2) (ri_ID info) =
      (if t < dir_clock d + relayHeartbeatTTL then Some (info\<lparr>LastHeartbeat := t, Healthy := True\<rparr>) else None)"
proof -
  let ?i = "info\<lparr>LastHeartbeat := dir_clock d, Healthy := True\<rparr>"
  have d1: "d1 = put_relay ?i (set_alive (ri_ID info) (add_to_list (ri_ID info) (set_info ?i d)))"
    using reg info cfg(1) by (simp add: Register_def dir_Now_def Let_def SaveRelay_def json_Marshal_ok_def after_redis_keeps)
  let ?d = "d1\<lparr>relays := [], dir_clock := t\<rparr>"
  have lists: "distinct (redis_list ?d)" "ri_ID info \<in> set (redis_list ?d)"
    using store(1) by (auto simp: d1 put_relay_def set_alive_def add_to_list_def set_info_def)
  have ids: "\<forall>(i, r) \<in> set (redis_info ?d). i = ri_ID r"
    using store(2) set_update_subset [of "ri_ID info" ?i "redis_info d"]
    by (auto simp: d1 put_relay_def set_alive_def add_to_list_def set_info_def)
  have st: "stored ?d (ri_ID info) = [?i]"
    by (simp add: stored_def d1 put_relay_def set_alive_def add_to_list_def set_info_def update_conv')
  have al: "alive ?d (ri_ID info) \<longleftrightarrow> t < dir_clock d + relayHeartbeatTTL"
    by (simp add: alive_def d1 put_relay_def set_alive_def add_to_list_def set_info_def update_conv')
  have d2: "relays d2 = [(i, r\<lparr>Healthy := True, LastHeartbeat := t\<rparr>). i \<leftarrow> redis_list ?d, alive ?d i, r \<leftarrow> stored ?d i]"
    using restart_exact [OF _ lists(1) ids cfg start] by (simp cong: if_cong)
  have look: "map_of [(i, r\<lparr>Healthy := True, LastHeartbeat := t\<rparr>). i \<leftarrow> is, alive ?d i, r \<leftarrow> stored ?d i] (ri_ID info) =
      (if ri_ID info \<in> set is \<and> alive ?d (ri_ID info) then Some (?i\<lparr>Healthy := True, LastHeartbeat := t\<rparr>) else None)" for "is"
  proof (induction "is")
    case (Cons i "is")
    then show ?case using stored_cases [OF ids, of i] st by (cases "i = ri_ID info") (auto simp: map_add_def)
  qed simp
  have "map_of (relays d1) (ri_ID info) = Some ?i" by (simp add: d1 put_relay_def update_conv')
  then show ?thesis using look [of "redis_list ?d"] lists(2) by (simp add: d2 al)
qed

section \<open>A relay that comes back while it is removed\<close>

definition sample_cfg :: dir_config where
  "sample_cfg = \<lparr>has_store = True, healthCheckInterval = 30 * 10 ^ 9\<rparr>"

definition sample_info :: relay_info where
  "sample_info = \<lparr>ri_ID = ''r'', ri_URL = ''wss://r'', Region = ''default'', Capacity = 1000, CurrentConnections = 0,
     CPUUsage = Finite 0, MemoryUsage = Finite 0, LastHeartbeat = 0, Healthy = True, AvgLatencyMs = 0,
     ri_Latitude = Finite 0, ri_Longitude = Finite 0\<rparr>"

definition empty_dir :: relay_dir where
  "empty_dir = \<lparr>relays = [], redis_info = [], redis_list = [], redis_alive = [], dir_clock = 0\<rparr>"

text \<open>The directory and the store with the one relay, registered at a time.\<close>

definition one_relay :: "int \<Rightarrow> relay_dir" where
  "one_relay t = \<lparr>relays = [(''r'', sample_info\<lparr>LastHeartbeat := t\<rparr>)], redis_info = [(''r'', sample_info\<lparr>LastHeartbeat := t\<rparr>)],
     redis_list = [''r''], redis_alive = [(''r'', t + relayHeartbeatTTL)], dir_clock = t\<rparr>"

lemmas dir_operations = Register_def dir_Now_def SaveRelay_def json_Marshal_ok_def json_finite_def after_redis_keeps
  set_info_def add_to_list_def set_alive_def put_relay_def Let_def maxRelayCount_def

lemma register_sample:
  "snd (run_alone (Register sample_cfg sample_info (\<lambda>_. [])) (all_succeed, empty_dir)) = one_relay 0"
  by (simp add: dir_operations sample_cfg_def sample_info_def empty_dir_def one_relay_def)

text \<open>
  The health check removes a stale relay from the directory under the lock, and from the store after that. A relay that
  registers again in between is in the directory, healthy, and not in the store: after a restart it is unknown.
\<close>

definition split_dir :: relay_dir where
  "split_dir = (one_relay (301 * 10 ^ 9))\<lparr>redis_info := [], redis_list := [], redis_alive := []\<rparr>"

lemma split_dir_reached: "dir_steps rnd sample_cfg (empty_dir, []) (split_dir, [])"
proof -
  let ?S = "dir_starts rnd sample_cfg"
  let ?r = "Returns []"
  let ?late = "(one_relay 0)\<lparr>dir_clock := 301 * 10 ^ 9\<rparr>"
  let ?del = "deleteFromStore sample_cfg ''r'' []"
  let ?gone = "?late\<lparr>relays := []\<rparr>"
  let ?again = "one_relay (301 * 10 ^ 9)"
  have fresh: "fresh_relay sample_info" by (simp add: fresh_relay_def sample_info_def)
  have "run_for [?r, ?r, ?r] (?late, doHealthCheck sample_cfg []) = (?gone, ?del)"
    by (simp add: doHealthCheck_def dir_Now_def needs_attention_def one_relay_def sample_info_def sample_cfg_def staleTimeout_def
      staleRelayMultiplier_def removeStaleRelay_def remove_if_stale_def)
  then have 3: "dir_steps rnd sample_cfg (?late, doHealthCheck sample_cfg []) (?gone, ?del)"
    using run_for_steps [of ?S dir_env "(?late, doHealthCheck sample_cfg [])" "[?r, ?r, ?r]"] by simp
  have "snd (run_alone (Register sample_cfg sample_info (\<lambda>_. [])) (all_succeed, ?gone)) = ?again"
    by (simp add: dir_operations sample_cfg_def sample_info_def one_relay_def)
  then have 4: "dir_steps rnd sample_cfg (?gone, ?del) (?again, ?del)" by (rule run_alone_steps [OF dir_starts.intros(1) [OF fresh]])
  have "run_for [?r, ?r, ?r] (?again, ?del) = (split_dir, [])"
    by (simp add: deleteFromStore_def DeleteRelay_def redis_def one_relay_def split_dir_def sample_cfg_def)
  then have 5: "dir_steps rnd sample_cfg (?again, ?del) (split_dir, [])"
    using run_for_steps [of ?S dir_env "(?again, ?del)" "[?r, ?r, ?r]"] by simp
  have 0: "dir_steps rnd sample_cfg (empty_dir, []) (one_relay 0, [])"
    by (rule run_alone_steps [OF dir_starts.intros(1) [OF fresh] register_sample])
  have "pool_step ?S dir_env (one_relay 0, []) (?late, [])"
    by (intro pool_step.environment dir_env.time) (simp add: one_relay_def)
  then have 1: "dir_steps rnd sample_cfg (one_relay 0, []) (?late, [])" by (rule r_into_rtranclp)
  have 2: "dir_steps rnd sample_cfg (?late, []) (?late, doHealthCheck sample_cfg [])"
    using pool_step.start [of "doHealthCheck sample_cfg []" ?S dir_env ?late "[]"] by (simp add: dir_starts.intros(5) r_into_rtranclp)
  show ?thesis
    by (rule rtranclp_trans [OF 0 rtranclp_trans [OF 1 rtranclp_trans [OF 2 rtranclp_trans [OF 3 rtranclp_trans [OF 4 5]]]]])
qed

theorem returning_relay_lost_from_store:
  "dir_initial empty_dir \<and> dir_steps rnd sample_cfg (empty_dir, []) (split_dir, []) \<and>
   (\<exists>r. map_of (relays split_dir) ''r'' = Some r \<and> Healthy r) \<and> map_of (redis_info split_dir) ''r'' = None"
  by (intro conjI split_dir_reached) (simp_all add: dir_initial_def empty_dir_def split_dir_def one_relay_def sample_info_def)

section \<open>Witnesses\<close>

theorem recent_relay_is_selectable_witness:
  "interval_ok sample_cfg \<and> dir_initial empty_dir \<and> dir_steps id sample_cfg (empty_dir, []) (one_relay 0, []) \<and>
   (\<exists>r. SelectRelayWithAffinity (relays (one_relay 0)) ''org'' = Some r \<and> isRelayReachable r)"
proof -
  have cfg: "interval_ok sample_cfg"
    by (simp add: interval_ok_def sample_cfg_def relayHeartbeatTTL_def staleRelayMultiplier_def)
  have init: "dir_initial empty_dir" by (simp add: dir_initial_def empty_dir_def)
  have fresh: "fresh_relay sample_info" by (simp add: fresh_relay_def sample_info_def)
  have steps: "dir_steps id sample_cfg (empty_dir, []) (one_relay 0, [])"
    by (rule run_alone_steps [OF dir_starts.intros(1) [OF fresh] register_sample])
  have "\<exists>(i, r) \<in> set (relays (one_relay 0)). dir_clock (one_relay 0) - LastHeartbeat r \<le> healthCheckInterval sample_cfg \<and>
      CurrentConnections r < Capacity r"
    by (simp add: one_relay_def sample_info_def sample_cfg_def)
  then show ?thesis using recent_relay_is_selectable [OF cfg init steps, of "''org''"] cfg init steps by blast
qed

theorem doHealthCheck_exact_witness:
  "map (\<lambda>(i, r). (i, Healthy r)) (relays (snd (run_alone (doHealthCheck sample_cfg [])
     (all_succeed, (one_relay 0)\<lparr>dir_clock := 31 * 10 ^ 9\<rparr>)))) = [(''r'', False)] \<and>
   relays (snd (run_alone (doHealthCheck sample_cfg []) (all_succeed, (one_relay 0)\<lparr>dir_clock := 301 * 10 ^ 9\<rparr>))) = []"
proof -
  let ?d = "\<lambda>t. (one_relay 0)\<lparr>dir_clock := t\<rparr>"
  have "relays (snd (run_alone (doHealthCheck sample_cfg []) (all_succeed, ?d t))) =
      map (\<lambda>(i, r). (i, if silent sample_cfg t r then r\<lparr>Healthy := False\<rparr> else r))
        (filter (\<lambda>(i, r). \<not> stale sample_cfg t r) (relays (one_relay 0)))" for t
  proof -
    have dist: "distinct (map fst (relays (?d t)))" by (simp add: one_relay_def)
    from doHealthCheck_exact [OF dist, OF prod.collapse [symmetric], of sample_cfg all_succeed] show ?thesis by simp
  qed
  then show ?thesis
    by (simp add: one_relay_def sample_info_def silent_def stale_def sample_cfg_def staleTimeout_def staleRelayMultiplier_def)
qed

theorem registered_relay_survives_restart_witness:
  "\<exists>d2. map_of (relays d2) ''r'' = Some (sample_info\<lparr>LastHeartbeat := 59 * 10 ^ 9\<rparr>) \<and>
     d2 = snd (run_alone (NewManagerWithOptions sample_cfg) (all_succeed, (one_relay 0)\<lparr>relays := [], dir_clock := 59 * 10 ^ 9\<rparr>))"
proof -
  obtain as1 where reg: "run_alone (Register sample_cfg sample_info (\<lambda>_. [])) (all_succeed, empty_dir) = (as1, one_relay 0)"
    using register_sample by (metis prod.collapse)
  obtain as2 d2 where start: "run_alone (NewManagerWithOptions sample_cfg)
      (all_succeed, (one_relay 0)\<lparr>relays := [], dir_clock := 59 * 10 ^ 9\<rparr>) = (as2, d2)" by fastforce
  have side: "ri_ID sample_info \<noteq> []" "ri_URL sample_info \<noteq> []" "json_Marshal_ok sample_info"
      "length (relays empty_dir) < maxRelayCount" "distinct (redis_list empty_dir)"
      "\<forall>(i, r) \<in> set (redis_info empty_dir). i = ri_ID r" "has_store sample_cfg" "0 < healthCheckInterval sample_cfg"
      "staleTimeout sample_cfg < relayHeartbeatTTL * (staleRelayMultiplier + 1)"
    by (simp_all add: sample_info_def sample_cfg_def empty_dir_def json_Marshal_ok_def json_finite_def maxRelayCount_def
      staleTimeout_def relayHeartbeatTTL_def staleRelayMultiplier_def)
  show ?thesis using registered_relay_survives_restart [OF side reg start] start
    by (intro exI [of _ d2]) (simp add: sample_info_def empty_dir_def relayHeartbeatTTL_def)
qed

end
