(* ===== verification/Relay_Connect.thy ===== *)
theory Relay_Connect
  imports Relay_Restart Relay_Manager Loop_Domain
begin

text \<open>
  How a terminal is connected: the handler \<open>GetTerminalConnection\<close> of
  \<^verbatim>\<open>backend/internal/api/rest/v1/pod_terminal_connect.go\<close>, the tokens of \<^verbatim>\<open>backend/internal/service/relay/token.go\<close>,
  and what the relay server makes of them. The rest of the request (its tenant and user, the pod, the location of the
  client) and the token library are parameters.
\<close>

section \<open>Tokens of the backend\<close>

record token_generator =
  gen_secretKey :: string
  gen_issuer :: string

text \<open>The constructor panics on an empty secret.\<close>

definition NewTokenGenerator :: "string \<Rightarrow> string \<Rightarrow> token_generator option" where
  "NewTokenGenerator secret iss = (if secret = [] then None else Some \<lparr>gen_secretKey = secret, gen_issuer = iss\<rparr>)"

datatype token_error = EmptyPodKey | BadExpiry | SignError

definition generator_GenerateToken ::
  "(relay_claims \<Rightarrow> string \<Rightarrow> 'e + string) \<Rightarrow> (int \<Rightarrow> int) \<Rightarrow> int \<Rightarrow> token_generator \<Rightarrow> string \<Rightarrow> 64 word \<Rightarrow> 64 word \<Rightarrow> 64 word \<Rightarrow>
     int \<Rightarrow> token_error + string" where
  "generator_GenerateToken sign numericDate now g podKey runnerID userID orgID expiry =
     (if podKey = [] then Inl EmptyPodKey
      else if expiry \<le> 0 then Inl BadExpiry
      else case sign \<lparr>claim_PodKey = podKey, RunnerID = runnerID, UserID = userID, OrgID = orgID,
             ExpiresAt = numericDate (now + expiry), IssuedAt = numericDate now, NotBefore = numericDate now,
             Issuer = gen_issuer g, Subject = podKey\<rparr> (gen_secretKey g) of
        Inl _ \<Rightarrow> Inl SignError
      | Inr t \<Rightarrow> Inr t)"

section \<open>The request\<close>

record connect_pod =
  cp_OrganizationID :: "64 word"
  cp_RunnerID :: "64 word"
  cp_Status :: string

record connect_tenant =
  ct_OrganizationID :: "64 word"
  ct_OrganizationSlug :: string

text \<open>
  The parts of a request: the pod that is found under the key, the tenant and user of the request, and the
  location of the client if there is a resolver that knows it.
\<close>

record connect_request =
  rq_podKey :: string
  rq_pod :: "connect_pod option"
  rq_tenant :: "connect_tenant option"
  rq_userID :: "64 word"
  rq_location :: "(float64 \<times> float64) option"

record subscribe_command =
  sc_RunnerID :: "64 word"
  sc_PodKey :: string
  sc_RelayURL :: string
  sc_RunnerToken :: string
  sc_IncludeSnapshot :: bool
  sc_SnapshotHistory :: int

datatype connect_response = ConnectError int string | ConnectOK string string string

record connect_deps =
  cd_relayManager :: "relay_map option"
  cd_tokenGenerator :: token_generator
  cd_commandSender :: bool

definition hour :: int where "hour = 60 * 60 * 10 ^ 9"

definition select_options :: "connect_request \<Rightarrow> connect_tenant \<Rightarrow> geo_select_options" where
  "select_options rq tenant =
     (case rq_location rq of
        None \<Rightarrow> \<lparr>OrgSlug = ct_OrganizationSlug tenant, Latitude = Finite 0, Longitude = Finite 0, HasUserLocation = False\<rparr>
      | Some (lat, lng) \<Rightarrow> \<lparr>OrgSlug = ct_OrganizationSlug tenant, Latitude = lat, Longitude = lng, HasUserLocation = True\<rparr>)"

text \<open>
  The answer and the command that is sent to the runner; whether the command arrives makes no difference. \<open>gen\<close> makes
  the runner's token and \<open>gen'\<close> the browser's: they are the generator at two moments. A runner identifier is
  positive as a signed number.
\<close>

definition GetTerminalConnection ::
  "(rat \<Rightarrow> float64) \<Rightarrow> haversine \<Rightarrow> (token_generator \<Rightarrow> string \<Rightarrow> 64 word \<Rightarrow> 64 word \<Rightarrow> 64 word \<Rightarrow> int \<Rightarrow> token_error + string) \<Rightarrow>
     (token_generator \<Rightarrow> string \<Rightarrow> 64 word \<Rightarrow> 64 word \<Rightarrow> 64 word \<Rightarrow> int \<Rightarrow> token_error + string) \<Rightarrow> connect_deps \<Rightarrow> connect_request \<Rightarrow>
     connect_response \<times> subscribe_command list" where
  "GetTerminalConnection fl hav gen gen' deps rq =
     (case cd_relayManager deps of
        None \<Rightarrow> (ConnectError 503 ''Terminal relay service is not available'', [])
      | Some rs \<Rightarrow>
          if \<not> HasHealthyRelays rs then (ConnectError 503 ''Terminal relay service is not available'', [])
          else case rq_pod rq of
            None \<Rightarrow> (ConnectError 404 ''Pod not found'', [])
          | Some pod \<Rightarrow>
              (case rq_tenant rq of
                 None \<Rightarrow> (ConnectError 401 ''Unauthorized'', [])
               | Some tenant \<Rightarrow>
                   if cp_OrganizationID pod \<noteq> ct_OrganizationID tenant then (ConnectError 403 ''Access denied'', [])
                   else if \<not> IsPodStatusActive (cp_Status pod) then (ConnectError 400 ''Pod is not active'', [])
                   else if rq_userID rq = 0 then (ConnectError 401 ''User not found'', [])
                   else case SelectRelayForPodGeo fl hav rs (select_options rq tenant) of
                     None \<Rightarrow> (ConnectError 503 ''No healthy relay available'', [])
                   | Some relayInfo \<Rightarrow>
                       let finish = (\<lambda>cmds.
                             case gen' (cd_tokenGenerator deps) (rq_podKey rq) (cp_RunnerID pod) (rq_userID rq)
                                    (ct_OrganizationID tenant) hour of
                               Inl _ \<Rightarrow> (ConnectError 500 ''Failed to generate token'', cmds)
                             | Inr token \<Rightarrow> (ConnectOK (ri_URL relayInfo) token (rq_podKey rq), cmds))
                       in if cd_commandSender deps \<and> sint (cp_RunnerID pod) > 0
                          then case gen (cd_tokenGenerator deps) (rq_podKey rq) (cp_RunnerID pod) 0 (ct_OrganizationID tenant) hour of
                                 Inl _ \<Rightarrow> (ConnectError 500 ''Failed to generate runner token'', [])
                               | Inr runnerToken \<Rightarrow>
                                   finish [\<lparr>sc_RunnerID = cp_RunnerID pod, sc_PodKey = rq_podKey rq, sc_RelayURL = ri_URL relayInfo,
                                     sc_RunnerToken = runnerToken, sc_IncludeSnapshot = True, sc_SnapshotHistory = 1000\<rparr>]
                          else finish []))"

section \<open>The chosen relay\<close>

lemma selectFromCandidates_member:
  assumes "selectFromCandidatesLocked rs org ids = Some r"
  shows "\<exists>i \<in> set ids. map_of rs i = Some r"
proof -
  let ?ps = "sortRelayPriorities (map (\<lambda>i. \<lparr>rp_id = i, rp_priority = hashStringPair org i\<rparr>) ids)"
  have "r \<in> set (List.map_filter (\<lambda>p. map_of rs (rp_id p)) ?ps)"
    using assms by (auto simp: selectFromCandidatesLocked_def Let_def split: list.splits)
  then obtain p where "p \<in> set ?ps" "map_of rs (rp_id p) = Some r" by (auto simp: List.map_filter_def)
  then show ?thesis by (auto simp: sortRelayPriorities_def)
qed

lemma chosen_relay_reachable:
  assumes dist: "distinct (map fst rs)" and sel: "SelectRelayForPodGeo fl hav rs opts = Some r"
  shows "\<exists>i. (i, r) \<in> set rs \<and> isRelayReachable r"
proof -
  have cand: "\<exists>i. (i, r) \<in> set rs \<and> isRelayReachable r"
    if ids: "selectFromCandidatesLocked rs org ids = Some r" "set ids \<subseteq> fst ` set (candidates rs)" for ids org
  proof -
    obtain i where "i \<in> set ids" "map_of rs i = Some r" using selectFromCandidates_member [OF ids(1)] by blast
    moreover from this obtain s where s: "(i, s) \<in> set (candidates rs)" using ids(2) by auto
    moreover have "s = r" using s calculation(2) dist candidates_subset [of rs] by (metis map_of_is_SomeI option.inject subsetD)
    ultimately show ?thesis by (auto simp: candidates_iff)
  qed
  show ?thesis
  proof (cases "HasUserLocation opts")
    case True
    define D where "D = map (\<lambda>(i, r). \<lparr>rd_id = i, distance = relay_distance hav opts r\<rparr>) (candidates rs)"
    have "select_nearby fl rs (OrgSlug opts) D = Some r"
      using sel unfolding SelectRelayForPodGeo_candidates [OF True] D_def .
    then obtain t where t: "selectFromCandidatesLocked rs (OrgSlug opts) (map rd_id (filter (\<lambda>c. f_le (distance c) t) D)) = Some r"
      unfolding select_nearby_def Let_def by (cases D) simp_all
    have "set (map rd_id (filter (\<lambda>c. f_le (distance c) t) D)) \<subseteq> fst ` set (candidates rs)"
      by (force simp: D_def)
    then show ?thesis by (rule cand [OF t])
  next
    case False
    then show ?thesis using sel by (intro cand) (auto simp: SelectRelayForPodGeo_def SelectRelayWithAffinity_candidates)
  qed
qed

section \<open>From the backend to the relay\<close>

lemma generated_token_validates:
  assumes jwt: "jwt_lawful parse sign now" and v: "NewTokenValidator secret iss = Some v"
    and g: "NewTokenGenerator secret iss = Some g"
    and gen: "generator_GenerateToken sign numericDate created g podKey runnerID userID orgID expiry = Inr t"
    and time: "numericDate created \<le> now" "now < numericDate (created + expiry)"
  shows "podKey \<noteq> [] \<and> ValidateToken parse v t = Inr \<lparr>claim_PodKey = podKey, RunnerID = runnerID, UserID = userID, OrgID = orgID,
    ExpiresAt = numericDate (created + expiry), IssuedAt = numericDate created, NotBefore = numericDate created,
    Issuer = iss, Subject = podKey\<rparr>"
proof -
  let ?c = "\<lparr>claim_PodKey = podKey, RunnerID = runnerID, UserID = userID, OrgID = orgID,
    ExpiresAt = numericDate (created + expiry), IssuedAt = numericDate created, NotBefore = numericDate created,
    Issuer = iss, Subject = podKey\<rparr>"
  have g': "g = \<lparr>gen_secretKey = secret, gen_issuer = iss\<rparr>" and v': "v = \<lparr>secretKey = secret, validator_issuer = iss\<rparr>"
    using g v by (simp_all add: NewTokenGenerator_def NewTokenValidator_def split: if_splits)
  have sign: "sign ?c secret = Inr t" "podKey \<noteq> []"
    using gen by (auto simp: generator_GenerateToken_def g' split: if_splits sum.splits)
  have "parse t (keyFunc v) = Inr (?c, True)"
    using jwt [unfolded jwt_lawful_def, rule_format, OF sign(1), of "keyFunc v"] time by (simp add: keyFunc_def v')
  then show ?thesis using sign(2) by (simp add: ValidateToken_def v')
qed

text \<open>
  C18. Connecting a terminal, from the backend to the relay: a user is given an address and a token only for a pod of the
  own organisation that is active, and the address is that of a reachable relay. For an hour a relay with the same
  secret lets the browser join the channel of exactly this pod with this token, and the runner with the token that
  was sent to it; neither token opens the other endpoint.
\<close>

theorem terminal_connection_end_to_end:
  assumes jwt: "jwt_lawful parse sign now" "\<And>c k t. sign c k = Inr t \<Longrightarrow> t \<noteq> []"
    and secret: "NewTokenValidator secret iss = Some v" "NewTokenGenerator secret iss = Some (cd_tokenGenerator deps)"
    and relays: "cd_relayManager deps = Some rs" "distinct (map fst rs)"
    and time: "numericDate created \<le> now" "now < numericDate (created + hour)"
      "numericDate created' \<le> now" "now < numericDate (created' + hour)"
    and ok: "GetTerminalConnection fl hav (generator_GenerateToken sign numericDate created)
      (generator_GenerateToken sign numericDate created') deps rq = (ConnectOK url token key, cmds)"
  shows "(\<exists>pod tenant. rq_pod rq = Some pod \<and> rq_tenant rq = Some tenant \<and> cp_OrganizationID pod = ct_OrganizationID tenant \<and>
      IsPodStatusActive (cp_Status pod) \<and> rq_userID rq \<noteq> 0 \<and> key = rq_podKey rq \<and>
      (\<forall>c \<in> set cmds. sc_RunnerID c = cp_RunnerID pod \<and> sc_PodKey c = key \<and> sc_RelayURL c = url)) \<and>
    (\<exists>(i, r) \<in> set rs. isRelayReachable r \<and> url = ri_URL r) \<and>
    HandleBrowserWS True parse v (Some conn) wr t sid token m =
      (case HandleSubscriberConnect wr t key sid conn m of (Inl e, m) \<Rightarrow> (Rejected e, drop_conn conn m) | (Inr _, m) \<Rightarrow> (Accepted, m)) \<and>
    HandleRunnerWS True parse v (Some conn) wr t token m = (HttpError 401 ''invalid token type'', m) \<and>
    (\<forall>c \<in> set cmds.
      HandleRunnerWS True parse v (Some conn) wr t (sc_RunnerToken c) m =
        (case HandlePublisherConnect wr t key conn m of (Inl e, m) \<Rightarrow> (Rejected e, drop_conn conn m) | (Inr _, m) \<Rightarrow> (Accepted, m)) \<and>
      HandleBrowserWS True parse v (Some conn) wr t sid (sc_RunnerToken c) m = (HttpError 401 ''invalid token type'', m))"
proof -
  let ?g = "cd_tokenGenerator deps"
  obtain pod tenant where who: "rq_pod rq = Some pod" "rq_tenant rq = Some tenant"
      "cp_OrganizationID pod = ct_OrganizationID tenant" "IsPodStatusActive (cp_Status pod)" "rq_userID rq \<noteq> 0"
    using ok relays(1) by (auto simp: GetTerminalConnection_def split: if_splits option.splits)
  then obtain r where r: "SelectRelayForPodGeo fl hav rs (select_options rq tenant) = Some r"
    using ok relays(1) by (auto simp: GetTerminalConnection_def split: if_splits option.splits)
  have browser: "generator_GenerateToken sign numericDate created' ?g (rq_podKey rq) (cp_RunnerID pod) (rq_userID rq)
      (ct_OrganizationID tenant) hour = Inr token" "url = ri_URL r" "key = rq_podKey rq"
    using ok who r relays(1)
    by (auto simp: GetTerminalConnection_def Let_def split: if_splits sum.splits)
  have runner: "generator_GenerateToken sign numericDate created ?g (rq_podKey rq) (cp_RunnerID pod) 0
      (ct_OrganizationID tenant) hour = Inr (sc_RunnerToken c)"
    "sc_RunnerID c = cp_RunnerID pod \<and> sc_PodKey c = key \<and> sc_RelayURL c = url" if "c \<in> set cmds" for c
    using ok who r relays(1) browser that
    by (auto simp: GetTerminalConnection_def Let_def split: if_splits sum.splits)
  have tok: "tok \<noteq> []" if "generator_GenerateToken sign numericDate x g a b c d h = Inr tok" for x g a b c d h tok
    using that jwt(2) by (auto simp: generator_GenerateToken_def split: if_splits sum.splits)
  note B = generated_token_validates [OF jwt(1) secret browser(1) time(3,4)]
  note R = generated_token_validates [OF jwt(1) secret runner(1) time(1,2)]
  have url: "\<exists>(i, r) \<in> set rs. isRelayReachable r \<and> url = ri_URL r"
    using chosen_relay_reachable [OF relays(2) r] browser(2) by auto
  have b: "HandleBrowserWS True parse v (Some conn) wr t sid token m =
      (case HandleSubscriberConnect wr t key sid conn m of (Inl e, m) \<Rightarrow> (Rejected e, drop_conn conn m) | (Inr _, m) \<Rightarrow> (Accepted, m))"
    "HandleRunnerWS True parse v (Some conn) wr t token m = (HttpError 401 ''invalid token type'', m)"
    using B tok [OF browser(1)] who(5) browser(3) by (simp_all add: HandleBrowserWS_def HandleRunnerWS_def)
  have c: "HandleRunnerWS True parse v (Some conn) wr t (sc_RunnerToken c) m =
      (case HandlePublisherConnect wr t key conn m of (Inl e, m) \<Rightarrow> (Rejected e, drop_conn conn m) | (Inr _, m) \<Rightarrow> (Accepted, m)) \<and>
      HandleBrowserWS True parse v (Some conn) wr t sid (sc_RunnerToken c) m = (HttpError 401 ''invalid token type'', m)"
    if "c \<in> set cmds" for c
    using R [OF that] tok [OF runner(1) [OF that]] browser(3) by (simp add: HandleBrowserWS_def HandleRunnerWS_def)
  have "\<exists>pod tenant. rq_pod rq = Some pod \<and> rq_tenant rq = Some tenant \<and> cp_OrganizationID pod = ct_OrganizationID tenant \<and>
      IsPodStatusActive (cp_Status pod) \<and> rq_userID rq \<noteq> 0 \<and> key = rq_podKey rq \<and>
      (\<forall>c \<in> set cmds. sc_RunnerID c = cp_RunnerID pod \<and> sc_PodKey c = key \<and> sc_RelayURL c = url)"
    using who browser(3) runner(2) by blast
  then show ?thesis using url b c by blast
qed

section \<open>Witness\<close>

text \<open>A library that can sign the tokens of one user and one runner.\<close>

definition connect_claims :: "64 word \<Rightarrow> relay_claims" where
  "connect_claims user = \<lparr>claim_PodKey = ''pod'', RunnerID = 5, UserID = user, OrgID = 2, ExpiresAt = hour, IssuedAt = 0,
     NotBefore = 0, Issuer = ''mesh'', Subject = ''pod''\<rparr>"

definition connect_sign :: "relay_claims \<Rightarrow> string \<Rightarrow> unit + string" where
  "connect_sign c k =
     (if k \<noteq> ''s3cret'' then Inl ()
      else if c = connect_claims 7 then Inr ''browser''
      else if c = connect_claims 0 then Inr ''runner''
      else Inl ())"

definition connect_parse :: parser where
  "connect_parse t kf =
     (if t \<notin> {''browser'', ''runner''} then Inl JwtOtherError
      else case kf SigningMethodHMAC of
        Inl e \<Rightarrow> Inl (JwtKeyError e)
      | Inr k \<Rightarrow> if k \<noteq> ''s3cret'' then Inl JwtOtherError
          else Inr (connect_claims (if t = ''browser'' then 7 else 0), True))"

lemma connect_lawful: "jwt_lawful connect_parse connect_sign 10"
  unfolding jwt_lawful_def
  by (auto simp: connect_sign_def connect_parse_def connect_claims_def hour_def split: sum.split if_splits)

definition connect_sample_deps :: connect_deps where
  "connect_sample_deps = \<lparr>cd_relayManager = Some [(''r'', sample_info)],
     cd_tokenGenerator = \<lparr>gen_secretKey = ''s3cret'', gen_issuer = ''mesh''\<rparr>, cd_commandSender = True\<rparr>"

definition connect_sample_request :: connect_request where
  "connect_sample_request = \<lparr>rq_podKey = ''pod'',
     rq_pod = Some \<lparr>cp_OrganizationID = 2, cp_RunnerID = 5, cp_Status = StatusRunning\<rparr>,
     rq_tenant = Some \<lparr>ct_OrganizationID = 2, ct_OrganizationSlug = ''org''\<rparr>, rq_userID = 7, rq_location = None\<rparr>"

theorem terminal_connection_end_to_end_witness:
  "\<exists>cmd. GetTerminalConnection Finite sample_hav (generator_GenerateToken connect_sign id 0) (generator_GenerateToken connect_sign id 0)
       connect_sample_deps connect_sample_request = (ConnectOK ''wss://r'' ''browser'' ''pod'', [cmd]) \<and>
     (\<forall>conn wr t m. HandleRunnerWS True connect_parse \<lparr>secretKey = ''s3cret'', validator_issuer = ''mesh''\<rparr> (Some conn) wr t ''browser'' m =
       (HttpError 401 ''invalid token type'', m))"
proof -
  have up: "isRelayReachable sample_info" by (simp add: isRelayReachable_def sample_info_def)
  then have "candidates [(''r'', sample_info)] \<noteq> []" by (simp add: candidates_empty)
  then have sel: "SelectRelayWithAffinity [(''r'', sample_info)] ''org'' = Some sample_info"
    using selected_reachable [of "[(''r'', sample_info)]" "''org''"] candidates_subset [of "[(''r'', sample_info)]"] by auto
  have tokens: "generator_GenerateToken connect_sign id 0 \<lparr>gen_secretKey = ''s3cret'', gen_issuer = ''mesh''\<rparr> ''pod'' 5 7 2 hour = Inr ''browser''"
    "generator_GenerateToken connect_sign id 0 \<lparr>gen_secretKey = ''s3cret'', gen_issuer = ''mesh''\<rparr> ''pod'' 5 0 2 hour = Inr ''runner''"
    by (simp_all add: generator_GenerateToken_def connect_sign_def connect_claims_def hour_def)
  let ?cmd = "\<lparr>sc_RunnerID = 5, sc_PodKey = ''pod'', sc_RelayURL = ''wss://r'', sc_RunnerToken = ''runner'',
    sc_IncludeSnapshot = True, sc_SnapshotHistory = 1000\<rparr>"
  have ok: "GetTerminalConnection Finite sample_hav (generator_GenerateToken connect_sign id 0)
      (generator_GenerateToken connect_sign id 0) connect_sample_deps connect_sample_request = (ConnectOK ''wss://r'' ''browser'' ''pod'', [?cmd])"
    using tokens sel by (simp add: GetTerminalConnection_def connect_sample_deps_def connect_sample_request_def HasHealthyRelays_def
      IsPodStatusActive_def select_options_def SelectRelayForPodGeo_def sample_info_def)
  have tok: "t \<noteq> []" if "connect_sign c k = Inr t" for c k t using that by (auto simp: connect_sign_def split: if_splits)
  have cfg: "NewTokenValidator ''s3cret'' ''mesh'' = Some \<lparr>secretKey = ''s3cret'', validator_issuer = ''mesh''\<rparr>"
    "NewTokenGenerator ''s3cret'' ''mesh'' = Some (cd_tokenGenerator connect_sample_deps)"
    "cd_relayManager connect_sample_deps = Some [(''r'', sample_info)]" "distinct (map fst [(''r'', sample_info)])"
    "id (0::int) \<le> 10" "10 < id (0 + hour)"
    by (simp_all add: NewTokenValidator_def NewTokenGenerator_def connect_sample_deps_def hour_def)
  have "HandleRunnerWS True connect_parse \<lparr>secretKey = ''s3cret'', validator_issuer = ''mesh''\<rparr> (Some conn) wr t ''browser'' m =
      (HttpError 401 ''invalid token type'', m)" for conn wr t m
    by (rule terminal_connection_end_to_end [OF connect_lawful tok cfg(1-6) cfg(5,6) ok,
        THEN conjunct2, THEN conjunct2, THEN conjunct2, THEN conjunct1])
  then show ?thesis using ok by blast
qed

end
