(* ===== verification/Pod_Store.thy ===== *)
theory Pod_Store
  imports Loop_Domain Go_Tasks "HOL-Library.AList"
begin

text \<open>
  What the backend knows about pods and runners: the tables behind \<^verbatim>\<open>backend/internal/infra/agentpod_repo.go\<close> and
  \<^verbatim>\<open>runner_repo.go\<close>, and the memory of the package \<^verbatim>\<open>backend/internal/service/runner\<close>: the pod coordinator's counters
  and caches, the acknowledgement tracker (\<^verbatim>\<open>pod_ack_tracker.go\<close>), the terminal router (\<^verbatim>\<open>terminal_router.go\<close>), the
  heartbeat batcher (\<^verbatim>\<open>heartbeat_*.go\<close>) and the cache of relay connections (\<^verbatim>\<open>relay_connections.go\<close>).

  A statement is one access to the tables. It can fail before it is executed (\<open>Fails\<close>) or after (\<open>Panics\<close>), and it
  fails without an effect if its result violates a unique index of the table \<open>pods\<close>. A critical section is one
  access to the memory. The terminal router's 64 shards are one map, because the key alone determines the shard.
\<close>

section \<open>Rows\<close>

definition AgentStatusExecuting :: string where "AgentStatusExecuting = ''executing''"
definition AgentStatusIdle :: string where "AgentStatusIdle = ''idle''"
definition RunnerStatusOnline :: string where "RunnerStatusOnline = ''online''"
definition RunnerStatusOffline :: string where "RunnerStatusOffline = ''offline''"

record pod_record = pod_row +
  pod_ID :: int
  pod_OrganizationID :: int
  pod_RunnerID :: int
  pod_AgentTypeID :: "int option"
  pod_CustomAgentTypeID :: "int option"
  pod_RepositoryID :: "int option"
  pod_TicketID :: "int option"
  pod_CreatedByID :: int
  pod_PtyPID :: "int option"
  pod_StartedAt :: "int option"
  pod_LastActivity :: "int option"
  pod_BranchName :: "string option"
  pod_SandboxPath :: "string option"
  pod_ErrorCode :: "string option"
  pod_ErrorMessage :: "string option"
  pod_SessionID :: "string option"
  pod_SourcePodKey :: "string option"

record runner_row =
  rn_ID :: int
  rn_Status :: string
  rn_LastHeartbeat :: "int option"
  rn_CurrentPods :: int

text \<open>The unique indexes of the table \<open>pods\<close>: its key, \<open>pod_key\<close>, and one active pod for each resumed pod.\<close>

definition resumes :: "pod_record \<Rightarrow> bool" where
  "resumes p \<longleftrightarrow> pod_SourcePodKey p \<noteq> None \<and> pod_Status p \<in> set ActiveStatuses"

definition pod_indexes :: "pod_record list \<Rightarrow> bool" where
  "pod_indexes ps \<longleftrightarrow> distinct (map pod_ID ps) \<and> distinct (map pod_PodKey ps) \<and>
     distinct (map pod_SourcePodKey (filter resumes ps))"

section \<open>The state\<close>

record relay_connection =
  rc_PodKey :: string
  rc_RelayURL :: string
  rc_SessionID :: string
  rc_Connected :: bool
  rc_ConnectedAt :: int

record heartbeat_item =
  hi_RunnerID :: int
  hi_CurrentPods :: int
  hi_Status :: string
  hi_Version :: string
  hi_Timestamp :: int

record redis_runner_status =
  rs_LastHeartbeat :: int
  rs_CurrentPods :: int
  rs_Status :: string
  rs_Version :: string
  rs_Expires :: int

text \<open>
  \<open>sentTerminates\<close> and the fields after it record what the coordinator told the runners and the rest of the
  backend: the time, runner and pod of every terminate command, the runner and pod of every create command, the
  calls of the two callbacks, and the events of the pod service.
\<close>

record coordinator =
  db_pods :: "pod_record list"
  db_runners :: "runner_row list"
  podMissCount :: "(string \<times> int) list"
  podMissOwner :: "(string \<times> int) list"
  initReportCount :: "(string \<times> int) list"
  terminateSentCache :: "(string \<times> int) list"
  ackPending :: "string list"
  podRunnerMap :: "(string \<times> int) list"
  ptySize :: "(string \<times> int \<times> int) list"
  relayCache :: "(int \<times> relay_connection list) list"
  hbBuffer :: "(int \<times> heartbeat_item) list"
  hbRedis :: "(int \<times> redis_runner_status) list"
  co_clock :: int
  sentTerminates :: "(int \<times> int \<times> string) list"
  sentCreates :: "(int \<times> string) list"
  statusChanges :: "(string \<times> string \<times> string) list"
  initProgress :: "(string \<times> string \<times> int \<times> string) list"
  podEvents :: "(int \<times> string \<times> string \<times> string) list"

type_synonym co_go = "coordinator goroutine"

datatype 'r db_result = DbErr | DbOK 'r

definition db_read :: "(coordinator \<Rightarrow> 'r) \<Rightarrow> ('r db_result \<Rightarrow> co_go) \<Rightarrow> co_go" where
  "db_read f k = access (\<lambda>a c. (c, case a of Returns _ \<Rightarrow> DbOK (f c) | _ \<Rightarrow> DbErr)) k"

definition db_write :: "(coordinator \<Rightarrow> coordinator \<times> 'r) \<Rightarrow> ('r db_result \<Rightarrow> co_go) \<Rightarrow> co_go" where
  "db_write f k = access (\<lambda>a c. let c' = fst (f c) in
     if \<not> pod_indexes (db_pods c') then (c, DbErr)
     else case a of
         Returns _ \<Rightarrow> (c', DbOK (snd (f c)))
       | Fails _ \<Rightarrow> (c, DbErr)
       | Panics _ \<Rightarrow> (c', DbErr)) k"

definition in_memory :: "(coordinator \<Rightarrow> coordinator) \<Rightarrow> co_go \<Rightarrow> co_go" where
  "in_memory f k = access (\<lambda>a c. (f c, ())) (\<lambda>_. k)"

definition read_memory :: "(coordinator \<Rightarrow> 'r) \<Rightarrow> ('r \<Rightarrow> co_go) \<Rightarrow> co_go" where
  "read_memory f k = access (\<lambda>a c. (c, f c)) k"

abbreviation co_Now :: "(int \<Rightarrow> co_go) \<Rightarrow> co_go" where
  "co_Now \<equiv> read_memory co_clock"

section \<open>Statements on pods\<close>

definition update_pods :: "(pod_record \<Rightarrow> bool) \<Rightarrow> (pod_record \<Rightarrow> pod_record) \<Rightarrow> coordinator \<Rightarrow> coordinator \<times> int" where
  "update_pods w u c =
     (c\<lparr>db_pods := map (\<lambda>p. if w p then u p else p) (db_pods c)\<rparr>, int (length (filter w (db_pods c))))"

definition pod_GetByKey :: "string \<Rightarrow> coordinator \<Rightarrow> pod_record option" where
  "pod_GetByKey k c = find (\<lambda>p. pod_PodKey p = k) (db_pods c)"

definition GetByKeyAndRunner :: "string \<Rightarrow> int \<Rightarrow> coordinator \<Rightarrow> pod_record option" where
  "GetByKeyAndRunner k r c = find (\<lambda>p. pod_PodKey p = k \<and> pod_RunnerID p = r) (db_pods c)"

definition UpdateByKey :: "string \<Rightarrow> (pod_record \<Rightarrow> pod_record) \<Rightarrow> coordinator \<Rightarrow> coordinator \<times> int" where
  "UpdateByKey k u = update_pods (\<lambda>p. pod_PodKey p = k) u"

definition UpdateByKeyAndStatusCounted ::
  "string \<Rightarrow> string \<Rightarrow> (pod_record \<Rightarrow> pod_record) \<Rightarrow> coordinator \<Rightarrow> coordinator \<times> int" where
  "UpdateByKeyAndStatusCounted k s u = update_pods (\<lambda>p. pod_PodKey p = k \<and> pod_Status p = s) u"

definition UpdateByKeyAndStatus ::
  "string \<Rightarrow> string \<Rightarrow> (pod_record \<Rightarrow> pod_record) \<Rightarrow> coordinator \<Rightarrow> coordinator \<times> unit" where
  "UpdateByKeyAndStatus k s u c = (fst (update_pods (\<lambda>p. pod_PodKey p = k \<and> pod_Status p = s) u c), ())"

text \<open>\<open>UpdateAgentStatus\<close> and \<open>UpdateField\<close> are the same statement with other columns.\<close>

definition UpdateField :: "string \<Rightarrow> (pod_record \<Rightarrow> pod_record) \<Rightarrow> coordinator \<Rightarrow> coordinator \<times> unit" where
  "UpdateField k u c = (fst (update_pods (\<lambda>p. pod_PodKey p = k) u c), ())"

text \<open>\<open>COALESCE(NULLIF(error_code, ''), fallback)\<close>\<close>

definition fallback_code :: "string \<Rightarrow> string option \<Rightarrow> string option" where
  "fallback_code fallback code = (case code of None \<Rightarrow> Some fallback | Some s \<Rightarrow> if s = [] then Some fallback else Some s)"

definition UpdateTerminatedWithFallbackError ::
  "string \<Rightarrow> (pod_record \<Rightarrow> pod_record) \<Rightarrow> string \<Rightarrow> coordinator \<Rightarrow> coordinator \<times> unit" where
  "UpdateTerminatedWithFallbackError k u fallback c =
     (fst (update_pods (\<lambda>p. pod_PodKey p = k) (\<lambda>p. (u p)\<lparr>pod_ErrorCode := fallback_code fallback (pod_ErrorCode p)\<rparr>) c), ())"

definition ListActiveByRunner :: "int \<Rightarrow> coordinator \<Rightarrow> pod_record list" where
  "ListActiveByRunner r c = filter (\<lambda>p. pod_RunnerID p = r \<and> pod_Status p \<in> set ActiveStatuses) (db_pods c)"

definition ListInitializingByRunner :: "int \<Rightarrow> coordinator \<Rightarrow> pod_record list" where
  "ListInitializingByRunner r c = filter (\<lambda>p. pod_RunnerID p = r \<and> pod_Status p = StatusInitializing) (db_pods c)"

text \<open>The row that was read is updated by its primary key, whatever its status is by now.\<close>

definition MarkOrphaned :: "pod_record \<Rightarrow> int \<Rightarrow> coordinator \<Rightarrow> coordinator \<times> unit" where
  "MarkOrphaned pod now c =
     (fst (update_pods (\<lambda>p. pod_ID p = pod_ID pod) (\<lambda>p. p\<lparr>pod_Status := StatusOrphaned, pod_FinishedAt := Some now\<rparr>) c), ())"

definition CountActiveByKeys :: "string list \<Rightarrow> coordinator \<Rightarrow> int" where
  "CountActiveByKeys ks c =
     int (length (filter (\<lambda>p. pod_PodKey p \<in> set ks \<and> pod_Status p \<in> {StatusRunning, StatusInitializing}) (db_pods c)))"

text \<open>A comparison with \<open>NULL\<close> is not true; only the first statement asks for \<open>NULL\<close>.\<close>

definition MarkStaleAsDisconnected :: "int \<Rightarrow> coordinator \<Rightarrow> coordinator \<times> int" where
  "MarkStaleAsDisconnected threshold =
     update_pods (\<lambda>p. pod_Status p \<in> {StatusInitializing, StatusRunning} \<and>
         (case pod_LastActivity p of None \<Rightarrow> True | Some t \<Rightarrow> t < threshold))
       (\<lambda>p. p\<lparr>pod_Status := StatusDisconnected\<rparr>)"

definition CleanupStale :: "int \<Rightarrow> int \<Rightarrow> coordinator \<Rightarrow> coordinator \<times> int" where
  "CleanupStale now threshold =
     update_pods (\<lambda>p. pod_Status p \<in> {StatusDisconnected, StatusOrphaned} \<and>
         (case pod_LastActivity p of None \<Rightarrow> False | Some t \<Rightarrow> t < threshold))
       (\<lambda>p. p\<lparr>pod_Status := StatusTerminated, pod_FinishedAt := Some now\<rparr>)"

definition GetActivePodBySourcePodKey :: "string \<Rightarrow> coordinator \<Rightarrow> pod_record option" where
  "GetActivePodBySourcePodKey k c =
     find (\<lambda>p. pod_SourcePodKey p = Some k \<and> pod_Status p \<in> set ActiveStatuses) (db_pods c)"

definition pod_Create :: "pod_record \<Rightarrow> coordinator \<Rightarrow> coordinator \<times> unit" where
  "pod_Create p c = (c\<lparr>db_pods := db_pods c @ [p]\<rparr>, ())"

section \<open>Statements on runners\<close>

definition update_runners :: "(runner_row \<Rightarrow> bool) \<Rightarrow> (runner_row \<Rightarrow> runner_row) \<Rightarrow> coordinator \<Rightarrow> coordinator \<times> unit" where
  "update_runners w u c = (c\<lparr>db_runners := map (\<lambda>r. if w r then u r else r) (db_runners c)\<rparr>, ())"

definition runner_UpdateFields :: "int \<Rightarrow> (runner_row \<Rightarrow> runner_row) \<Rightarrow> coordinator \<Rightarrow> coordinator \<times> unit" where
  "runner_UpdateFields i u = update_runners (\<lambda>r. rn_ID r = i) u"

definition IncrementPods :: "int \<Rightarrow> coordinator \<Rightarrow> coordinator \<times> unit" where
  "IncrementPods i = update_runners (\<lambda>r. rn_ID r = i) (\<lambda>r. r\<lparr>rn_CurrentPods := rn_CurrentPods r + 1\<rparr>)"

definition DecrementPods :: "int \<Rightarrow> coordinator \<Rightarrow> coordinator \<times> unit" where
  "DecrementPods i = update_runners (\<lambda>r. rn_ID r = i) (\<lambda>r. r\<lparr>rn_CurrentPods := max (rn_CurrentPods r - 1) 0\<rparr>)"

definition SetPodCount :: "int \<Rightarrow> int \<Rightarrow> coordinator \<Rightarrow> coordinator \<times> unit" where
  "SetPodCount i n = update_runners (\<lambda>r. rn_ID r = i) (\<lambda>r. r\<lparr>rn_CurrentPods := n\<rparr>)"

definition MarkOfflineRunners :: "int \<Rightarrow> coordinator \<Rightarrow> coordinator \<times> unit" where
  "MarkOfflineRunners threshold =
     update_runners (\<lambda>r. rn_Status r = RunnerStatusOnline \<and>
         (case rn_LastHeartbeat r of None \<Rightarrow> False | Some t \<Rightarrow> t < threshold))
       (\<lambda>r. r\<lparr>rn_Status := RunnerStatusOffline\<rparr>)"

definition update_heartbeat :: "heartbeat_item \<Rightarrow> coordinator \<Rightarrow> coordinator \<times> unit" where
  "update_heartbeat h = update_runners (\<lambda>r. rn_ID r = hi_RunnerID h)
     (\<lambda>r. r\<lparr>rn_LastHeartbeat := Some (hi_Timestamp h), rn_CurrentPods := hi_CurrentPods h, rn_Status := hi_Status h\<rparr>)"

text \<open>\<open>BatchUpdateHeartbeats\<close>: every item is a statement of its own, and those that fail are passed over.\<close>

fun BatchUpdateHeartbeats :: "heartbeat_item list \<Rightarrow> co_go \<Rightarrow> co_go" where
  "BatchUpdateHeartbeats [] k = k"
| "BatchUpdateHeartbeats (h # hs) k = db_write (update_heartbeat h) (\<lambda>_. BatchUpdateHeartbeats hs k)"

section \<open>The memory of the coordinator\<close>

definition incrementMissCount :: "string \<Rightarrow> int \<Rightarrow> coordinator \<Rightarrow> coordinator \<times> int" where
  "incrementMissCount k r c =
     (let n = (case map_of (podMissCount c) k of None \<Rightarrow> 0 | Some n \<Rightarrow> n) + 1
      in (c\<lparr>podMissCount := AList.update k n (podMissCount c), podMissOwner := AList.update k r (podMissOwner c)\<rparr>, n))"

definition clearMissCount :: "string \<Rightarrow> coordinator \<Rightarrow> coordinator" where
  "clearMissCount k c =
     c\<lparr>podMissCount := AList.delete k (podMissCount c), podMissOwner := AList.delete k (podMissOwner c)\<rparr>"

definition clearMissCountsForRunner :: "int \<Rightarrow> coordinator \<Rightarrow> coordinator" where
  "clearMissCountsForRunner r c =
     (let owned = map fst (filter (\<lambda>(k, i). i = r) (podMissOwner c))
      in c\<lparr>podMissCount := filter (\<lambda>(k, n). k \<notin> set owned) (podMissCount c),
           podMissOwner := filter (\<lambda>(k, n). k \<notin> set owned) (podMissOwner c)\<rparr>)"

definition incrementInitReportCount :: "string \<Rightarrow> coordinator \<Rightarrow> coordinator \<times> int" where
  "incrementInitReportCount k c =
     (let n = (case map_of (initReportCount c) k of None \<Rightarrow> 0 | Some n \<Rightarrow> n) + 1
      in (c\<lparr>initReportCount := AList.update k n (initReportCount c)\<rparr>, n))"

definition clearInitReportCount :: "string \<Rightarrow> coordinator \<Rightarrow> coordinator" where
  "clearInitReportCount k c = c\<lparr>initReportCount := AList.delete k (initReportCount c)\<rparr>"

definition terminateCooldown :: int where "terminateCooldown = 5 * 60 * 10 ^ 9"
definition terminateCacheCleanup :: int where "terminateCacheCleanup = 30 * 60 * 10 ^ 9"
definition orphanMissThreshold :: int where "orphanMissThreshold = 3"
definition initRecoverThreshold :: int where "initRecoverThreshold = 2"

definition isTerminateCooldown :: "string \<Rightarrow> coordinator \<Rightarrow> bool" where
  "isTerminateCooldown k c \<longleftrightarrow>
     (case map_of (terminateSentCache c) k of None \<Rightarrow> False | Some t \<Rightarrow> co_clock c - t < terminateCooldown)"

definition recordTerminateSent :: "string \<Rightarrow> coordinator \<Rightarrow> coordinator" where
  "recordTerminateSent k c =
     c\<lparr>terminateSentCache := filter (\<lambda>(i, t). co_clock c - t \<le> terminateCacheCleanup)
         (AList.update k (co_clock c) (terminateSentCache c))\<rparr>"

definition ack_Register :: "string \<Rightarrow> coordinator \<Rightarrow> coordinator" where
  "ack_Register k c = c\<lparr>ackPending := List.insert k (ackPending c)\<rparr>"

definition ack_Resolve :: "string \<Rightarrow> coordinator \<Rightarrow> coordinator" where
  "ack_Resolve k c = c\<lparr>ackPending := removeAll k (ackPending c)\<rparr>"

definition ack_Remove :: "string \<Rightarrow> coordinator \<Rightarrow> coordinator" where
  "ack_Remove k c = c\<lparr>ackPending := removeAll k (ackPending c)\<rparr>"

definition onStatusChange :: "string \<Rightarrow> string \<Rightarrow> string \<Rightarrow> coordinator \<Rightarrow> coordinator" where
  "onStatusChange k status agentStatus c = c\<lparr>statusChanges := statusChanges c @ [(k, status, agentStatus)]\<rparr>"

definition onInitProgress :: "string \<Rightarrow> string \<Rightarrow> int \<Rightarrow> string \<Rightarrow> coordinator \<Rightarrow> coordinator" where
  "onInitProgress k phase n msg c = c\<lparr>initProgress := initProgress c @ [(k, phase, n, msg)]\<rparr>"

text \<open>The command sender: whether a command can be sent is an answer of the environment.\<close>

definition SendTerminatePod :: "int \<Rightarrow> string \<Rightarrow> (bool \<Rightarrow> co_go) \<Rightarrow> co_go" where
  "SendTerminatePod r k q =
     access (\<lambda>a c. (c\<lparr>sentTerminates := sentTerminates c @ [(co_clock c, r, k)]\<rparr>, a \<in> range Returns)) q"

definition SendCreatePod :: "int \<Rightarrow> string \<Rightarrow> (bool \<Rightarrow> co_go) \<Rightarrow> co_go" where
  "SendCreatePod r k q =
     access (\<lambda>a c. if a \<in> range Returns then (c\<lparr>sentCreates := sentCreates c @ [(r, k)]\<rparr>, True) else (c, False)) q"

section \<open>The terminal router\<close>

definition DefaultTerminalCols :: int where "DefaultTerminalCols = 80"
definition DefaultTerminalRows :: int where "DefaultTerminalRows = 24"

definition RegisterPodWithSize :: "string \<Rightarrow> int \<Rightarrow> int \<Rightarrow> int \<Rightarrow> coordinator \<Rightarrow> coordinator" where
  "RegisterPodWithSize k r cols rows c =
     c\<lparr>podRunnerMap := AList.update k r (podRunnerMap c), ptySize := AList.update k (cols, rows) (ptySize c)\<rparr>"

definition RegisterPod :: "string \<Rightarrow> int \<Rightarrow> coordinator \<Rightarrow> coordinator" where
  "RegisterPod k r = RegisterPodWithSize k r DefaultTerminalCols DefaultTerminalRows"

definition EnsurePodRegistered :: "string \<Rightarrow> int \<Rightarrow> coordinator \<Rightarrow> coordinator" where
  "EnsurePodRegistered k r c = c\<lparr>podRunnerMap := AList.update k r (podRunnerMap c)\<rparr>"

definition UnregisterPod :: "string \<Rightarrow> coordinator \<Rightarrow> coordinator" where
  "UnregisterPod k c = c\<lparr>podRunnerMap := AList.delete k (podRunnerMap c), ptySize := AList.delete k (ptySize c)\<rparr>"

definition handlePtyResized :: "int \<Rightarrow> string \<Rightarrow> int \<Rightarrow> int \<Rightarrow> co_go" where
  "handlePtyResized r k cols rows = in_memory (\<lambda>c.
     c\<lparr>ptySize := AList.update k (cols, rows) (ptySize c),
       podRunnerMap := (case map_of (podRunnerMap c) k of
           None \<Rightarrow> AList.update k r (podRunnerMap c)
         | Some _ \<Rightarrow> podRunnerMap c)\<rparr>) []"

definition GetRunnerID :: "string \<Rightarrow> coordinator \<Rightarrow> int option" where
  "GetRunnerID k c = map_of (podRunnerMap c) k"

definition IsPodRegistered :: "string \<Rightarrow> coordinator \<Rightarrow> bool" where
  "IsPodRegistered k c \<longleftrightarrow> map_of (podRunnerMap c) k \<noteq> None"

definition GetRegisteredPodCount :: "coordinator \<Rightarrow> nat" where
  "GetRegisteredPodCount c = length (podRunnerMap c)"

definition GetPtySize :: "string \<Rightarrow> coordinator \<Rightarrow> int \<times> int \<times> bool" where
  "GetPtySize k c = (case map_of (ptySize c) k of
       Some (cols, rows) \<Rightarrow> (cols, rows, True)
     | None \<Rightarrow> (DefaultTerminalCols, DefaultTerminalRows, False))"

text \<open>Where input goes: the runner the command is sent to, or an error.\<close>

definition RouteInput :: "string \<Rightarrow> coordinator \<Rightarrow> int option" where
  "RouteInput k c = map_of (podRunnerMap c) k"

definition RouteResize :: "string \<Rightarrow> coordinator \<Rightarrow> int option" where
  "RouteResize k c = map_of (podRunnerMap c) k"

section \<open>Relay connections\<close>

definition relayCache_Update :: "int \<Rightarrow> relay_connection list \<Rightarrow> coordinator \<Rightarrow> coordinator" where
  "relayCache_Update r conns c =
     c\<lparr>relayCache := (if conns = [] then AList.delete r (relayCache c) else AList.update r conns (relayCache c))\<rparr>"

definition relayCache_Get :: "int \<Rightarrow> coordinator \<Rightarrow> relay_connection list option" where
  "relayCache_Get r c = map_of (relayCache c) r"

definition relayCache_Delete :: "int \<Rightarrow> coordinator \<Rightarrow> coordinator" where
  "relayCache_Delete r c = c\<lparr>relayCache := AList.delete r (relayCache c)\<rparr>"

definition TotalConnections :: "coordinator \<Rightarrow> nat" where
  "TotalConnections c = sum_list (map (length \<circ> snd) (relayCache c))"

section \<open>The heartbeat batcher\<close>

definition DefaultHeartbeatTTL :: int where "DefaultHeartbeatTTL = 90 * 10 ^ 9"
definition HeartbeatOnlineThreshold :: int where "HeartbeatOnlineThreshold = 90 * 10 ^ 9"
definition DefaultBatchSize :: nat where "DefaultBatchSize = 100"

text \<open>\<open>HSET\<close> keeps the fields it does not name, here the version.\<close>

definition redis_set_status :: "int \<Rightarrow> int \<Rightarrow> int \<Rightarrow> string \<Rightarrow> string \<Rightarrow> coordinator \<Rightarrow> coordinator" where
  "redis_set_status now r n status version c =
     (let old = (case map_of (hbRedis c) r of Some s \<Rightarrow> if co_clock c < rs_Expires s then rs_Version s else [] | None \<Rightarrow> [])
      in c\<lparr>hbRedis := AList.update r \<lparr>rs_LastHeartbeat = now div 10 ^ 9, rs_CurrentPods = n, rs_Status = status,
             rs_Version = (if version \<noteq> [] then version else old), rs_Expires = co_clock c + DefaultHeartbeatTTL\<rparr> (hbRedis c)\<rparr>)"

definition RecordHeartbeat :: "int \<Rightarrow> int \<Rightarrow> string \<Rightarrow> string \<Rightarrow> co_go \<Rightarrow> co_go" where
  "RecordHeartbeat r n status version k =
     co_Now (\<lambda>now.
       access (\<lambda>a c. (case a of Fails _ \<Rightarrow> c | _ \<Rightarrow> redis_set_status now r n status version c, ())) (\<lambda>_.
         in_memory (\<lambda>c. c\<lparr>hbBuffer := AList.update r
           \<lparr>hi_RunnerID = r, hi_CurrentPods = n, hi_Status = status, hi_Version = version, hi_Timestamp = now\<rparr> (hbBuffer c)\<rparr>) k))"

definition GetRunnerStatus :: "int \<Rightarrow> coordinator \<Rightarrow> redis_runner_status option" where
  "GetRunnerStatus r c =
     (case map_of (hbRedis c) r of Some s \<Rightarrow> if co_clock c < rs_Expires s then Some s else None | None \<Rightarrow> None)"

definition IsRunnerOnline :: "int \<Rightarrow> coordinator \<Rightarrow> bool" where
  "IsRunnerOnline r c \<longleftrightarrow> (case GetRunnerStatus r c of
       None \<Rightarrow> False
     | Some s \<Rightarrow> co_clock c div 10 ^ 9 - rs_LastHeartbeat s < HeartbeatOnlineThreshold div 10 ^ 9)"

function flush_batches :: "heartbeat_item list \<Rightarrow> co_go \<Rightarrow> co_go" where
  "flush_batches [] k = k"
| "flush_batches (h # hs) k =
     BatchUpdateHeartbeats (take DefaultBatchSize (h # hs)) (flush_batches (drop DefaultBatchSize (h # hs)) k)"
  by pat_completeness auto
termination
  by (relation "measure (length \<circ> fst)") (auto simp: DefaultBatchSize_def)

text \<open>The swapped buffer is visited in the order of a map, \<open>order\<close>.\<close>

definition hb_flush :: "((int \<times> heartbeat_item) list \<Rightarrow> (int \<times> heartbeat_item) list) \<Rightarrow> co_go \<Rightarrow> co_go" where
  "hb_flush order k =
     access (\<lambda>a c. (c\<lparr>hbBuffer := []\<rparr>, hbBuffer c)) (\<lambda>batch. flush_batches (map snd (order batch)) k)"

end
