(* ===== verification/Pod_Coordinator.thy ===== *)
theory Pod_Coordinator
  imports Pod_Store
begin

text \<open>
  The pod coordinator of \<^verbatim>\<open>backend/internal/service/runner\<close> (\<^verbatim>\<open>pod_coordinator.go\<close> and the files
  \<^verbatim>\<open>pod_*_handler.go\<close>), which keeps the table of pods in step with what the runners report. Every handler is a
  goroutine of accesses to tables and memory. The messages of one runner are handled one after the other, those of
  different runners, the requests of users and the periodic tasks interleave.
\<close>

section \<open>Commands\<close>

definition coordinator_CreatePod :: "int \<Rightarrow> string \<Rightarrow> (bool \<Rightarrow> co_go) \<Rightarrow> co_go" where
  "coordinator_CreatePod runnerID podKey q =
     db_write (IncrementPods runnerID) (\<lambda>res. case res of
         DbErr \<Rightarrow> q False
       | DbOK _ \<Rightarrow>
           in_memory (ack_Register podKey) (SendCreatePod runnerID podKey (\<lambda>ok.
             if ok then q True
             else in_memory (ack_Remove podKey) (db_write (DecrementPods runnerID) (\<lambda>_. q False)))))"

definition completed_at :: "int \<Rightarrow> pod_record \<Rightarrow> pod_record" where
  "completed_at now p = p\<lparr>pod_Status := StatusCompleted, pod_FinishedAt := Some now\<rparr>"

definition coordinator_TerminatePod :: "string \<Rightarrow> (bool \<Rightarrow> co_go) \<Rightarrow> co_go" where
  "coordinator_TerminatePod podKey q =
     db_read (pod_GetByKey podKey) (\<lambda>res. case res of
         DbOK (Some pod) \<Rightarrow>
           SendTerminatePod (pod_RunnerID pod) podKey (\<lambda>_. co_Now (\<lambda>now.
             db_write (UpdateByKey podKey (completed_at now)) (\<lambda>res. case res of
                 DbErr \<Rightarrow> q False
               | DbOK _ \<Rightarrow>
                   in_memory (UnregisterPod podKey) (in_memory (clearMissCount podKey)
                     (db_write (DecrementPods (pod_RunnerID pod)) (\<lambda>res. q (res \<noteq> DbErr)))))))
       | _ \<Rightarrow> q False)"

definition coordinator_UpdateActivity :: "string \<Rightarrow> co_go" where
  "coordinator_UpdateActivity podKey =
     co_Now (\<lambda>now. db_write (UpdateField podKey (\<lambda>p. p\<lparr>pod_LastActivity := Some now\<rparr>)) (\<lambda>_. []))"

definition coordinator_MarkDisconnected :: "string \<Rightarrow> co_go" where
  "coordinator_MarkDisconnected podKey =
     db_write (UpdateByKeyAndStatus podKey StatusRunning (\<lambda>p. p\<lparr>pod_Status := StatusDisconnected\<rparr>)) (\<lambda>_. [])"

definition coordinator_MarkReconnected :: "string \<Rightarrow> co_go" where
  "coordinator_MarkReconnected podKey =
     co_Now (\<lambda>now. db_write (UpdateByKeyAndStatus podKey StatusDisconnected
       (\<lambda>p. p\<lparr>pod_Status := StatusRunning, pod_LastActivity := Some now\<rparr>)) (\<lambda>_. []))"

section \<open>Events of a pod\<close>

record pod_created =
  pc_PodKey :: string
  pc_Pid :: int
  pc_SandboxPath :: string
  pc_BranchName :: string

definition created :: "int \<Rightarrow> pod_created \<Rightarrow> pod_record \<Rightarrow> pod_record" where
  "created now data p = p\<lparr>pod_PtyPID := Some (pc_Pid data), pod_Status := StatusRunning,
     pod_StartedAt := Some now, pod_LastActivity := Some now,
     pod_SandboxPath := (if pc_SandboxPath data \<noteq> [] then Some (pc_SandboxPath data) else pod_SandboxPath p),
     pod_BranchName := (if pc_BranchName data \<noteq> [] then Some (pc_BranchName data) else pod_BranchName p)\<rparr>"

definition handlePodCreated :: "int \<Rightarrow> pod_created \<Rightarrow> co_go" where
  "handlePodCreated runnerID data =
     in_memory (ack_Resolve (pc_PodKey data)) (in_memory (clearInitReportCount (pc_PodKey data)) (co_Now (\<lambda>now.
       db_write (UpdateByKey (pc_PodKey data) (created now data)) (\<lambda>res. case res of
           DbErr \<Rightarrow> []
         | DbOK _ \<Rightarrow>
             in_memory (RegisterPod (pc_PodKey data) runnerID)
               (in_memory (onStatusChange (pc_PodKey data) StatusRunning []) [])))))"

record pod_terminated =
  pt_PodKey :: string
  pt_ErrorMessage :: string

definition exited :: "int \<Rightarrow> pod_terminated \<Rightarrow> pod_record \<Rightarrow> pod_record" where
  "exited now data p =
     (let p = p\<lparr>pod_AgentStatus := AgentStatusIdle, pod_FinishedAt := Some now, pod_PtyPID := None\<rparr>
      in if pt_ErrorMessage data \<noteq> []
         then p\<lparr>pod_ErrorMessage := Some (pt_ErrorMessage data), pod_Status := StatusError\<rparr>
         else p\<lparr>pod_Status := StatusCompleted\<rparr>)"

definition pod_exited :: "int \<Rightarrow> pod_terminated \<Rightarrow> string \<Rightarrow> co_go" where
  "pod_exited runnerID data status =
     db_write (DecrementPods runnerID) (\<lambda>_. in_memory (UnregisterPod (pt_PodKey data))
       (in_memory (clearMissCount (pt_PodKey data)) (in_memory (onStatusChange (pt_PodKey data) status []) [])))"

definition handlePodTerminated :: "int \<Rightarrow> pod_terminated \<Rightarrow> co_go" where
  "handlePodTerminated runnerID data =
     co_Now (\<lambda>now.
       if pt_ErrorMessage data \<noteq> []
       then db_write (UpdateTerminatedWithFallbackError (pt_PodKey data) (exited now data) ''process_exit'')
         (\<lambda>res. case res of DbErr \<Rightarrow> [] | DbOK _ \<Rightarrow> pod_exited runnerID data StatusError)
       else db_write (UpdateByKey (pt_PodKey data) (exited now data))
         (\<lambda>res. case res of DbErr \<Rightarrow> [] | DbOK _ \<Rightarrow> pod_exited runnerID data StatusCompleted))"

record pod_error =
  pe_PodKey :: string
  pe_Code :: string
  pe_Message :: string

definition failed_at :: "int \<Rightarrow> string \<Rightarrow> string \<Rightarrow> pod_record \<Rightarrow> pod_record" where
  "failed_at now code msg p = p\<lparr>pod_Status := StatusError, pod_ErrorCode := Some code, pod_ErrorMessage := Some msg,
     pod_FinishedAt := Some now\<rparr>"

definition handlePodError :: "int \<Rightarrow> pod_error \<Rightarrow> co_go" where
  "handlePodError runnerID data =
     (let podKey = pe_PodKey data
      in if podKey = [] then []
         else in_memory (ack_Resolve podKey) (co_Now (\<lambda>now.
           db_write (UpdateByKeyAndStatusCounted podKey StatusInitializing (failed_at now (pe_Code data) (pe_Message data)))
             (\<lambda>res. case res of
                DbErr \<Rightarrow> []
              | DbOK n \<Rightarrow>
                  if n > 0
                  then db_write (DecrementPods runnerID) (\<lambda>_. in_memory (onStatusChange podKey StatusError []) [])
                  else db_write (UpdateByKeyAndStatusCounted podKey StatusRunning
                    (\<lambda>p. p\<lparr>pod_ErrorCode := Some (pe_Code data), pod_ErrorMessage := Some (pe_Message data)\<rparr>)) (\<lambda>_. [])))))"

definition valid_agent_status :: "string \<Rightarrow> bool" where
  "valid_agent_status s \<longleftrightarrow> s = AgentStatusExecuting \<or> s = AgentStatusWaiting \<or> s = AgentStatusIdle"

definition handleAgentStatus :: "string \<Rightarrow> string \<Rightarrow> co_go" where
  "handleAgentStatus podKey status =
     (if \<not> valid_agent_status status then []
      else co_Now (\<lambda>now. db_write (UpdateField podKey (\<lambda>p. p\<lparr>pod_AgentStatus := status,
          pod_AgentWaitingSince := (if status = AgentStatusWaiting then Some now else None)\<rparr>)) (\<lambda>res. case res of
            DbErr \<Rightarrow> []
          | DbOK _ \<Rightarrow> in_memory (onStatusChange podKey [] status) [])))"

definition handlePodInitProgress :: "string \<Rightarrow> string \<Rightarrow> int \<Rightarrow> string \<Rightarrow> co_go" where
  "handlePodInitProgress podKey phase progress msg =
     (let report = in_memory (onInitProgress podKey phase progress msg) []
      in if phase = ''received'' then in_memory (ack_Resolve podKey) report else report)"

section \<open>A runner that disconnects\<close>

fun fail_initializing :: "int \<Rightarrow> int \<Rightarrow> pod_record list \<Rightarrow> co_go" where
  "fail_initializing now runnerID [] = []"
| "fail_initializing now runnerID (pod # pods) =
     db_write (UpdateByKeyAndStatusCounted (pod_PodKey pod) StatusInitializing
         (failed_at now ''RUNNER_DISCONNECTED'' ''Runner disconnected during pod initialization.''))
       (\<lambda>res. case res of
          DbErr \<Rightarrow> fail_initializing now runnerID pods
        | DbOK n \<Rightarrow>
            if n > 0
            then db_write (DecrementPods runnerID) (\<lambda>_. in_memory (ack_Remove (pod_PodKey pod))
              (in_memory (onStatusChange (pod_PodKey pod) StatusError []) (fail_initializing now runnerID pods)))
            else fail_initializing now runnerID pods)"

definition failInitializingPodsForRunner :: "int \<Rightarrow> co_go" where
  "failInitializingPodsForRunner runnerID =
     db_read (ListInitializingByRunner runnerID) (\<lambda>res. case res of
         DbErr \<Rightarrow> []
       | DbOK pods \<Rightarrow> co_Now (\<lambda>now. fail_initializing now runnerID pods))"

definition handleRunnerDisconnect :: "int \<Rightarrow> co_go" where
  "handleRunnerDisconnect runnerID =
     db_write (runner_UpdateFields runnerID (\<lambda>r. r\<lparr>rn_Status := RunnerStatusOffline\<rparr>)) (\<lambda>_.
       in_memory (relayCache_Delete runnerID) (in_memory (clearMissCountsForRunner runnerID)
         (failInitializingPodsForRunner runnerID)))"

section \<open>Reconciliation\<close>

definition recovered_row :: "string \<Rightarrow> int \<Rightarrow> pod_record \<Rightarrow> pod_record" where
  "recovered_row fromStatus now p =
     p\<lparr>pod_Status := StatusRunning, pod_LastActivity := Some now,
       pod_FinishedAt := (if fromStatus = StatusOrphaned then None else pod_FinishedAt p),
       pod_StartedAt := (if fromStatus = StatusInitializing then Some now else pod_StartedAt p)\<rparr>"

definition recoverPodStatus :: "string \<Rightarrow> string \<Rightarrow> int \<Rightarrow> co_go \<Rightarrow> co_go" where
  "recoverPodStatus podKey fromStatus now k =
     db_write (UpdateByKeyAndStatusCounted podKey fromStatus (recovered_row fromStatus now)) (\<lambda>res. case res of
         DbErr \<Rightarrow> k
       | DbOK n \<Rightarrow>
           if n > 0
           then let tell = in_memory (onStatusChange podKey StatusRunning []) k
             in if fromStatus = StatusInitializing then in_memory (ack_Resolve podKey) tell else tell
           else k)"

definition terminate_reported :: "int \<Rightarrow> string \<Rightarrow> co_go \<Rightarrow> co_go" where
  "terminate_reported runnerID podKey k =
     read_memory (isTerminateCooldown podKey) (\<lambda>cool.
       if cool then k
       else in_memory (recordTerminateSent podKey) (SendTerminatePod runnerID podKey (\<lambda>_. k)))"

definition reported_pod :: "int \<Rightarrow> int \<Rightarrow> string \<Rightarrow> co_go \<Rightarrow> co_go" where
  "reported_pod now runnerID podKey k =
     db_read (GetByKeyAndRunner podKey runnerID) (\<lambda>res. case res of
         DbErr \<Rightarrow> k
       | DbOK None \<Rightarrow>
           access (\<lambda>a c. incrementMissCount podKey runnerID c) (\<lambda>missCount.
             if missCount < orphanMissThreshold then k
             else in_memory (clearMissCount podKey) (terminate_reported runnerID podKey k))
       | DbOK (Some pod) \<Rightarrow>
           if pod_Status pod = StatusCompleted \<or> pod_Status pod = StatusTerminated
           then terminate_reported runnerID podKey k
           else in_memory (EnsurePodRegistered podKey runnerID)
             (if pod_Status pod = StatusOrphaned then recoverPodStatus podKey StatusOrphaned now k
              else if pod_Status pod = StatusInitializing
              then access (\<lambda>a c. incrementInitReportCount podKey c) (\<lambda>count.
                if count \<ge> initRecoverThreshold
                then in_memory (clearInitReportCount podKey) (recoverPodStatus podKey StatusInitializing now k)
                else k)
              else k))"

fun reported_pods :: "int \<Rightarrow> int \<Rightarrow> string list \<Rightarrow> co_go \<Rightarrow> co_go" where
  "reported_pods now runnerID [] k = k"
| "reported_pods now runnerID (podKey # ks) k = reported_pod now runnerID podKey (reported_pods now runnerID ks k)"

definition missing_pod :: "int \<Rightarrow> int \<Rightarrow> string set \<Rightarrow> pod_record \<Rightarrow> co_go \<Rightarrow> co_go" where
  "missing_pod now runnerID reported p k =
     (if pod_PodKey p \<in> reported then in_memory (clearMissCount (pod_PodKey p)) k
      else access (\<lambda>a c. incrementMissCount (pod_PodKey p) runnerID c) (\<lambda>missCount.
        if missCount < orphanMissThreshold then k
        else in_memory (clearMissCount (pod_PodKey p)) (db_write (MarkOrphaned p now) (\<lambda>res. case res of
            DbErr \<Rightarrow> k
          | DbOK _ \<Rightarrow> in_memory (UnregisterPod (pod_PodKey p))
              (in_memory (onStatusChange (pod_PodKey p) StatusOrphaned []) k)))))"

fun missing_pods :: "int \<Rightarrow> int \<Rightarrow> string set \<Rightarrow> pod_record list \<Rightarrow> co_go \<Rightarrow> co_go" where
  "missing_pods now runnerID reported [] k = k"
| "missing_pods now runnerID reported (p # ps) k =
     missing_pod now runnerID reported p (missing_pods now runnerID reported ps k)"

definition reconcileMissingPods :: "int \<Rightarrow> string set \<Rightarrow> int \<Rightarrow> co_go \<Rightarrow> co_go" where
  "reconcileMissingPods runnerID reported now k =
     db_read (ListActiveByRunner runnerID) (\<lambda>res. case res of
         DbErr \<Rightarrow> k
       | DbOK activePods \<Rightarrow> missing_pods now runnerID reported activePods k)"

text \<open>Without reported pods no statement is sent for the count.\<close>

definition syncPodCount :: "int \<Rightarrow> string list \<Rightarrow> co_go" where
  "syncPodCount runnerID reportedKeys =
     (let set_count = (\<lambda>res. case res of DbErr \<Rightarrow> [] | DbOK n \<Rightarrow> db_write (SetPodCount runnerID n) (\<lambda>_. []))
      in if reportedKeys = [] then set_count (DbOK 0) else db_read (CountActiveByKeys reportedKeys) set_count)"

definition reconcilePods :: "int \<Rightarrow> string list \<Rightarrow> co_go" where
  "reconcilePods runnerID reportedKeys =
     co_Now (\<lambda>now. reported_pods now runnerID reportedKeys
       (reconcileMissingPods runnerID (set reportedKeys) now (syncPodCount runnerID reportedKeys)))"

section \<open>Heartbeats\<close>

record heartbeat_data =
  hb_Pods :: "(string \<times> string) list"
  hb_RelayConnections :: "relay_connection list option"

fun sync_agent_status :: "(string \<times> string) list \<Rightarrow> co_go \<Rightarrow> co_go" where
  "sync_agent_status [] k = k"
| "sync_agent_status ((podKey, status) # ps) k =
     (if status \<noteq> [] then db_write (UpdateField podKey (\<lambda>p. p\<lparr>pod_AgentStatus := status\<rparr>)) (\<lambda>_. sync_agent_status ps k)
      else sync_agent_status ps k)"

text \<open>\<open>order\<close> is the order in which the set of reported keys is visited.\<close>

definition handleHeartbeat :: "(string list \<Rightarrow> string list) \<Rightarrow> int \<Rightarrow> heartbeat_data \<Rightarrow> co_go" where
  "handleHeartbeat order runnerID data =
     RecordHeartbeat runnerID (int (length (hb_Pods data))) RunnerStatusOnline []
       (let reconcile = sync_agent_status (hb_Pods data) (reconcilePods runnerID (order (remdups (map fst (hb_Pods data)))))
        in case hb_RelayConnections data of
            None \<Rightarrow> reconcile
          | Some conns \<Rightarrow> in_memory (relayCache_Update runnerID conns) reconcile)"

end
