(* ===== verification/Pod_Service.thy ===== *)
theory Pod_Service
  imports Pod_Coordinator
begin

text \<open>
  The service behind the requests of users, \<^verbatim>\<open>backend/internal/service/agentpod\<close>: the files \<^verbatim>\<open>pod_service.go\<close>,
  \<^verbatim>\<open>pod_lifecycle.go\<close> and \<^verbatim>\<open>pod_update.go\<close>, the creation of a pod in \<^verbatim>\<open>pod_orchestrator.go\<close> and the periodic task of
  \<^verbatim>\<open>service/tasks/manager.go\<close> that looks for stale pods. It works on the same tables as the coordinator.

  The services the orchestrator calls (billing, tickets, selection of a runner, identifiers) are functions of
  \<open>orchestrator_deps\<close>; whether the command for the runner can be built (\<open>buildPodCommand\<close>) is an answer of the environment.
  A failed dispatch is stored without the text of the sender's error, and the columns that only say how to start the
  agent (prompt, model, permission mode, credentials, alias) are left out.
\<close>

section \<open>The life of a pod\<close>

datatype pod_error_kind =
    ErrPodNotFound | ErrPodTerminated | ErrSandboxAlreadyResumed | PodDbError
  | ErrMissingRunnerID | ErrMissingAgentTypeID | ErrNoAvailableRunner | ErrQuota
  | ErrSourcePodNotFound | ErrSourcePodAccessDenied | ErrSourcePodNotTerminated | ErrSourcePodAlreadyResumed
  | ErrResumeRunnerMismatch | ErrConfigBuildFailed | ErrRunnerDispatchFailed

definition service_HandlePodCreated :: "pod_created \<Rightarrow> co_go" where
  "service_HandlePodCreated data =
     co_Now (\<lambda>now. db_write (UpdateByKey (pc_PodKey data) (created now data)) (\<lambda>_. []))"

definition terminated_at :: "int \<Rightarrow> pod_record \<Rightarrow> pod_record" where
  "terminated_at now p = p\<lparr>pod_Status := StatusTerminated, pod_FinishedAt := Some now\<rparr>"

definition service_HandlePodTerminated :: "string \<Rightarrow> co_go" where
  "service_HandlePodTerminated podKey =
     co_Now (\<lambda>now. db_write (UpdateByKey podKey (\<lambda>p. (terminated_at now p)\<lparr>pod_PtyPID := None\<rparr>)) (\<lambda>_. []))"

definition with_status :: "string \<Rightarrow> int \<Rightarrow> pod_record \<Rightarrow> pod_record" where
  "with_status status now p =
     (if status = StatusRunning then p\<lparr>pod_Status := status, pod_StartedAt := Some now\<rparr>
      else if status = StatusTerminated \<or> status = StatusOrphaned then p\<lparr>pod_Status := status, pod_FinishedAt := Some now\<rparr>
      else p\<lparr>pod_Status := status\<rparr>)"

definition UpdatePodStatus :: "string \<Rightarrow> string \<Rightarrow> (pod_error_kind + unit \<Rightarrow> co_go) \<Rightarrow> co_go" where
  "UpdatePodStatus podKey status q =
     co_Now (\<lambda>now. db_write (UpdateByKey podKey (with_status status now)) (\<lambda>res. case res of
         DbErr \<Rightarrow> q (Inl PodDbError)
       | DbOK n \<Rightarrow>
           if n = 0 then q (Inl ErrPodNotFound)
           else if status = StatusTerminated \<or> status = StatusOrphaned
           then db_read (pod_GetByKey podKey) (\<lambda>res. case res of
               DbOK (Some pod) \<Rightarrow> db_write (DecrementPods (pod_RunnerID pod)) (\<lambda>_. q (Inr ()))
             | _ \<Rightarrow> q (Inr ()))
           else q (Inr ())))"

definition PublishPodEvent :: "int \<Rightarrow> string \<Rightarrow> string \<Rightarrow> string \<Rightarrow> coordinator \<Rightarrow> coordinator" where
  "PublishPodEvent orgID podKey status previous c = c\<lparr>podEvents := podEvents c @ [(orgID, podKey, status, previous)]\<rparr>"

definition service_TerminatePod :: "string \<Rightarrow> (pod_error_kind + unit \<Rightarrow> co_go) \<Rightarrow> co_go" where
  "service_TerminatePod podKey q =
     db_read (pod_GetByKey podKey) (\<lambda>res. case res of
         DbOK (Some pod) \<Rightarrow>
           if \<not> IsPodStatusActive (pod_Status pod) then q (Inl ErrPodTerminated)
           else UpdatePodStatus podKey StatusTerminated (\<lambda>res. case res of
               Inl e \<Rightarrow> q (Inl e)
             | Inr _ \<Rightarrow> in_memory (PublishPodEvent (pod_OrganizationID pod) podKey StatusTerminated (pod_Status pod)) (q (Inr ())))
       | _ \<Rightarrow> q (Inl ErrPodNotFound))"

definition service_UpdateAgentStatus :: "string \<Rightarrow> string \<Rightarrow> co_go" where
  "service_UpdateAgentStatus podKey agentStatus =
     co_Now (\<lambda>now. db_write (UpdateField podKey (\<lambda>p. p\<lparr>pod_AgentStatus := agentStatus, pod_LastActivity := Some now\<rparr>)) (\<lambda>_. []))"

definition UpdatePodPTY :: "string \<Rightarrow> int \<Rightarrow> co_go" where
  "UpdatePodPTY podKey pid = db_write (UpdateField podKey (\<lambda>p. p\<lparr>pod_PtyPID := Some pid\<rparr>)) (\<lambda>_. [])"

definition UpdateSandboxPath :: "string \<Rightarrow> string \<Rightarrow> string \<Rightarrow> co_go" where
  "UpdateSandboxPath podKey path branch =
     db_write (UpdateByKey podKey (\<lambda>p. p\<lparr>pod_SandboxPath := Some path,
       pod_BranchName := (if branch \<noteq> [] then Some branch else pod_BranchName p)\<rparr>)) (\<lambda>_. [])"

fun orphan_each :: "int \<Rightarrow> string set \<Rightarrow> pod_record list \<Rightarrow> co_go" where
  "orphan_each now reported [] = []"
| "orphan_each now reported (p # ps) =
     (if pod_PodKey p \<notin> reported then db_write (MarkOrphaned p now) (\<lambda>_. orphan_each now reported ps)
      else orphan_each now reported ps)"

definition service_ReconcilePods :: "int \<Rightarrow> string list \<Rightarrow> co_go" where
  "service_ReconcilePods runnerID reportedPodKeys =
     db_read (ListActiveByRunner runnerID) (\<lambda>res. case res of
         DbErr \<Rightarrow> []
       | DbOK dbPods \<Rightarrow> co_Now (\<lambda>now. orphan_each now (set reportedPodKeys) dbPods))"

definition CleanupStalePods :: "int \<Rightarrow> co_go" where
  "CleanupStalePods maxIdleHours =
     co_Now (\<lambda>now. co_Now (\<lambda>now'. db_write (CleanupStale now' (now - maxIdleHours * 60 * 60 * 10 ^ 9)) (\<lambda>_. [])))"

definition MarkInitFailed :: "string \<Rightarrow> string \<Rightarrow> string \<Rightarrow> co_go \<Rightarrow> co_go" where
  "MarkInitFailed podKey code msg k =
     co_Now (\<lambda>now. db_write (UpdateByKeyAndStatusCounted podKey StatusInitializing (failed_at now code msg)) (\<lambda>_. k))"

text \<open>The periodic task of the task manager.\<close>

definition cleanupStalePods :: co_go where
  "cleanupStalePods = co_Now (\<lambda>now. db_write (MarkStaleAsDisconnected (now - 30 * 60 * 10 ^ 9)) (\<lambda>_. []))"

section \<open>Creation\<close>

record create_request =
  cr_OrganizationID :: int
  cr_UserID :: int
  cr_RunnerID :: int
  cr_AgentTypeID :: "int option"
  cr_CustomAgentTypeID :: "int option"
  cr_RepositoryID :: "int option"
  cr_TicketID :: "int option"
  cr_TicketSlug :: "string option"
  cr_BranchName :: "string option"
  cr_SourcePodKey :: string
  cr_ResumeAgentSession :: "bool option"
  cr_ConfigOverrides :: "(string \<times> string) list"

definition next_pod_ID :: "coordinator \<Rightarrow> int" where
  "next_pod_ID c = fold (\<lambda>p n. max (pod_ID p) n) (db_pods c) 0 + 1"

definition new_pod :: "create_request \<Rightarrow> string \<Rightarrow> string \<Rightarrow> pod_record" where
  "new_pod req podKey sessionID =
     \<lparr>pod_PodKey = podKey, pod_Status = StatusInitializing, pod_FinishedAt = None, pod_AgentStatus = AgentStatusIdle,
      pod_AgentWaitingSince = None, pod_ID = 0, pod_OrganizationID = cr_OrganizationID req, pod_RunnerID = cr_RunnerID req,
      pod_AgentTypeID = cr_AgentTypeID req, pod_CustomAgentTypeID = cr_CustomAgentTypeID req,
      pod_RepositoryID = cr_RepositoryID req, pod_TicketID = cr_TicketID req, pod_CreatedByID = cr_UserID req,
      pod_PtyPID = None, pod_StartedAt = None, pod_LastActivity = None, pod_BranchName = cr_BranchName req,
      pod_SandboxPath = None, pod_ErrorCode = None, pod_ErrorMessage = None,
      pod_SessionID = (if sessionID \<noteq> [] then Some sessionID else None),
      pod_SourcePodKey = (if cr_SourcePodKey req \<noteq> [] then Some (cr_SourcePodKey req) else None)\<rparr>"

definition pod_key :: "(int \<Rightarrow> string) \<Rightarrow> create_request \<Rightarrow> string \<Rightarrow> string" where
  "pod_key show_int req rnd =
     show_int (cr_UserID req) @ ''-'' @
     (case cr_TicketID req of None \<Rightarrow> ''standalone'' | Some t \<Rightarrow> show_int t) @ ''-'' @ rnd"

text \<open>
  \<open>Create\<close> and the error of the index on \<open>source_pod_key\<close>; another violation, of the key, is a general error. The random
  suffix of the key is an answer of the environment.
\<close>

definition service_CreatePod ::
  "(int \<Rightarrow> string) \<Rightarrow> create_request \<Rightarrow> string \<Rightarrow> (pod_error_kind + pod_record \<Rightarrow> co_go) \<Rightarrow> co_go" where
  "service_CreatePod show_int req sessionID q =
     access (\<lambda>a c. (c, case a of Returns s \<Rightarrow> Some s | _ \<Rightarrow> None)) (\<lambda>rnd. case rnd of
         None \<Rightarrow> q (Inl PodDbError)
       | Some rnd \<Rightarrow>
           access (\<lambda>a c.
             let p = (new_pod req (pod_key show_int req rnd) sessionID)\<lparr>pod_ID := next_pod_ID c\<rparr>;
                 c' = fst (pod_Create p c)
             in if pod_PodKey p \<in> pod_PodKey ` set (db_pods c) then (c, Inl PodDbError)
                else if \<not> pod_indexes (db_pods c') then (c, Inl ErrSandboxAlreadyResumed)
                else case a of
                    Returns _ \<Rightarrow> (c', Inr p)
                  | Fails _ \<Rightarrow> (c, Inl PodDbError)
                  | Panics _ \<Rightarrow> (c', Inl PodDbError)) q)"

record orchestrator_deps =
  selectRunner :: "(int \<Rightarrow> int \<Rightarrow> int \<Rightarrow> pod_error_kind + int) option"
  checkQuota :: "int \<Rightarrow> bool"
  ticketBySlug :: "int \<Rightarrow> string \<Rightarrow> int option"
  has_coordinator :: bool
  showInt :: "int \<Rightarrow> string"

definition or_inherit :: "'a option \<Rightarrow> 'a option \<Rightarrow> 'a option" where
  "or_inherit x y = (case x of None \<Rightarrow> y | Some _ \<Rightarrow> x)"

definition resume_config :: "create_request \<Rightarrow> string \<Rightarrow> (string \<times> string) list \<Rightarrow> (string \<times> string) list" where
  "resume_config req sessionID conf =
     (if cr_ResumeAgentSession req = None \<or> cr_ResumeAgentSession req = Some True
      then AList.update ''resume_session'' sessionID (AList.update ''resume_enabled'' ''true'' conf) else conf)"

definition inherit :: "pod_record \<Rightarrow> string \<Rightarrow> create_request \<Rightarrow> create_request" where
  "inherit src sessionID req =
     req\<lparr>cr_RunnerID := (if cr_RunnerID req = 0 then pod_RunnerID src else cr_RunnerID req),
         cr_AgentTypeID := or_inherit (cr_AgentTypeID req) (pod_AgentTypeID src),
         cr_CustomAgentTypeID := or_inherit (cr_CustomAgentTypeID req) (pod_CustomAgentTypeID src),
         cr_RepositoryID := or_inherit (cr_RepositoryID req) (pod_RepositoryID src),
         cr_TicketID := or_inherit (cr_TicketID req) (pod_TicketID src),
         cr_BranchName := or_inherit (cr_BranchName req) (pod_BranchName src),
         cr_ConfigOverrides := resume_config req sessionID (cr_ConfigOverrides req)\<rparr>"

definition handleResumeMode ::
  "create_request \<Rightarrow> (pod_error_kind + create_request \<times> string \<Rightarrow> co_go) \<Rightarrow> co_go" where
  "handleResumeMode req q =
     db_read (pod_GetByKey (cr_SourcePodKey req)) (\<lambda>res. case res of
         DbOK (Some src) \<Rightarrow>
           if pod_OrganizationID src \<noteq> cr_OrganizationID req then q (Inl ErrSourcePodAccessDenied)
           else if pod_Status src \<noteq> StatusTerminated \<and> pod_Status src \<noteq> StatusCompleted \<and> pod_Status src \<noteq> StatusOrphaned
           then q (Inl ErrSourcePodNotTerminated)
           else db_read (GetActivePodBySourcePodKey (cr_SourcePodKey req)) (\<lambda>res. case res of
               DbOK (Some _) \<Rightarrow> q (Inl ErrSourcePodAlreadyResumed)
             | _ \<Rightarrow>
                 if cr_RunnerID req \<noteq> 0 \<and> pod_RunnerID src \<noteq> cr_RunnerID req then q (Inl ErrResumeRunnerMismatch)
                 else (case pod_SessionID src of
                     Some (s # ss) \<Rightarrow> q (Inr (inherit src (s # ss) req, s # ss))
                   | _ \<Rightarrow> access (\<lambda>a c. (c, case a of Returns u \<Rightarrow> u | Fails u \<Rightarrow> u | Panics u \<Rightarrow> u))
                       (\<lambda>uuid. q (Inr (inherit src uuid req, uuid)))))
       | _ \<Rightarrow> q (Inl ErrSourcePodNotFound))"

definition normal_mode :: "orchestrator_deps \<Rightarrow> create_request \<Rightarrow> pod_error_kind + create_request" where
  "normal_mode deps req =
     (case cr_AgentTypeID req of
        None \<Rightarrow> Inl ErrMissingAgentTypeID
      | Some agentType \<Rightarrow>
          if cr_RunnerID req \<noteq> 0 then Inr req
          else case selectRunner deps of
              None \<Rightarrow> Inl ErrMissingRunnerID
            | Some select \<Rightarrow> (case select (cr_OrganizationID req) (cr_UserID req) agentType of
                Inl e \<Rightarrow> Inl e
              | Inr runnerID \<Rightarrow> Inr (req\<lparr>cr_RunnerID := runnerID\<rparr>)))"

definition resolve_ticket :: "orchestrator_deps \<Rightarrow> create_request \<Rightarrow> create_request" where
  "resolve_ticket deps req =
     (case (cr_TicketID req, cr_TicketSlug req) of
        (None, Some slug) \<Rightarrow>
          if slug \<noteq> [] then req\<lparr>cr_TicketID := ticketBySlug deps (cr_OrganizationID req) slug\<rparr> else req
      | _ \<Rightarrow> req)"

definition dispatch ::
  "orchestrator_deps \<Rightarrow> create_request \<Rightarrow> pod_record \<Rightarrow> (pod_error_kind + pod_record \<Rightarrow> co_go) \<Rightarrow> co_go" where
  "dispatch deps req pod q =
     access (\<lambda>a c. (c, a \<in> range Returns)) (\<lambda>built.
       if \<not> built then q (Inl ErrConfigBuildFailed)
       else if \<not> has_coordinator deps then q (Inr pod)
       else coordinator_CreatePod (cr_RunnerID req) (pod_PodKey pod) (\<lambda>ok.
         if ok then q (Inr pod)
         else MarkInitFailed (pod_PodKey pod) ''RUNNER_UNREACHABLE'' ''Failed to dispatch pod to runner''
           (q (Inl ErrRunnerDispatchFailed))))"

definition create_in_mode ::
  "orchestrator_deps \<Rightarrow> create_request \<Rightarrow> string \<Rightarrow> (pod_error_kind + pod_record \<Rightarrow> co_go) \<Rightarrow> co_go" where
  "create_in_mode deps req sessionID q =
     (if \<not> checkQuota deps (cr_OrganizationID req) then q (Inl ErrQuota)
      else let req = resolve_ticket deps req
        in service_CreatePod (showInt deps) req sessionID (\<lambda>res. case res of
            Inl e \<Rightarrow> q (Inl e)
          | Inr pod \<Rightarrow> dispatch deps req pod q))"

definition orchestrator_CreatePod ::
  "orchestrator_deps \<Rightarrow> create_request \<Rightarrow> (pod_error_kind + pod_record \<Rightarrow> co_go) \<Rightarrow> co_go" where
  "orchestrator_CreatePod deps req q =
     (if cr_SourcePodKey req \<noteq> []
      then handleResumeMode req (\<lambda>res. case res of
          Inl e \<Rightarrow> q (Inl e)
        | Inr (req, sessionID) \<Rightarrow> create_in_mode deps req sessionID q)
      else case normal_mode deps req of
          Inl e \<Rightarrow> q (Inl e)
        | Inr req \<Rightarrow> access (\<lambda>a c. (c, case a of Returns u \<Rightarrow> u | Fails u \<Rightarrow> u | Panics u \<Rightarrow> u)) (\<lambda>uuid.
            create_in_mode deps (req\<lparr>cr_ConfigOverrides := AList.update ''session_id'' uuid (cr_ConfigOverrides req)\<rparr>) uuid q))"

end
