(* ===== verification/Pod_Safety.thy ===== *)
theory Pod_Safety
  imports Pod_Service
begin

text \<open>
  What holds of the tables and the memory of the coordinator under every interleaving of its handlers, the requests of
  users and the periodic tasks, whichever statements and commands fail: the rule of \<open>Go_Tasks\<close> for the goroutines of
  \<open>Pod_Coordinator\<close> and \<open>Pod_Service\<close>.
\<close>

section \<open>The invariant\<close>

definition pod_statuses :: "string list" where
  "pod_statuses = [StatusInitializing, StatusRunning, StatusPaused, StatusDisconnected, StatusOrphaned, StatusCompleted,
     StatusTerminated, StatusError]"

text \<open>A row has a status of the list, and an end if the status says that the pod has ended.\<close>

definition pod_ok :: "pod_record \<Rightarrow> bool" where
  "pod_ok p \<longleftrightarrow> pod_Status p \<in> set pod_statuses \<and> (IsPodStatusFinished (pod_Status p) \<longrightarrow> pod_FinishedAt p \<noteq> None)"

text \<open>The counters, the terminal router and the buffer of the heartbeats.\<close>

definition misses_ok :: "(string \<times> int) list \<Rightarrow> (string \<times> int) list \<Rightarrow> bool" where
  "misses_ok ms os \<longleftrightarrow> map fst ms = map fst os \<and> distinct (map fst ms) \<and> (\<forall>(k, n) \<in> set ms. 1 \<le> n)"

definition reports_ok :: "(string \<times> int) list \<Rightarrow> bool" where
  "reports_ok rs \<longleftrightarrow> distinct (map fst rs) \<and> (\<forall>(k, n) \<in> set rs. 1 \<le> n)"

definition routes_ok :: "(string \<times> int) list \<Rightarrow> (string \<times> int \<times> int) list \<Rightarrow> bool" where
  "routes_ok rs ss \<longleftrightarrow> distinct (map fst rs) \<and> distinct (map fst ss) \<and> fst ` set ss \<subseteq> fst ` set rs"

definition buffer_ok :: "(int \<times> heartbeat_item) list \<Rightarrow> bool" where
  "buffer_ok hs \<longleftrightarrow> (\<forall>(i, h) \<in> set hs. hi_RunnerID h = i \<and> 0 \<le> hi_CurrentPods h)"

definition memory_ok :: "coordinator \<Rightarrow> bool" where
  "memory_ok c \<longleftrightarrow> misses_ok (podMissCount c) (podMissOwner c) \<and> reports_ok (initReportCount c) \<and>
     routes_ok (podRunnerMap c) (ptySize c) \<and> buffer_ok (hbBuffer c)"

definition pods_ok :: "coordinator \<Rightarrow> bool" where
  "pods_ok c \<longleftrightarrow> pod_indexes (db_pods c) \<and> (\<forall>p \<in> set (db_pods c). pod_ok p) \<and>
     (\<forall>r \<in> set (db_runners c). 0 \<le> rn_CurrentPods r) \<and> memory_ok c"

text \<open>No goroutine holds anything: every access preserves the invariant on its own.\<close>

abbreviation co_ok :: "coordinator \<Rightarrow> unit multiset \<Rightarrow> bool" where
  "co_ok c R \<equiv> pods_ok c"

interpretation co: resources co_ok
  by unfold_locales

abbreviation co_safe :: "co_go \<Rightarrow> bool" where
  "co_safe \<equiv> safe_go co_ok {#}"

section \<open>Accesses\<close>

lemma safe_co_access:
  assumes "\<And>a c. pods_ok c \<Longrightarrow> pods_ok (fst (f a c)) \<and> co_safe (k (snd (f a c)))"
  shows "co_safe (access f k)"
  by (rule co.safe_access) (use assms in blast)

lemma safe_in_memory: "(\<And>c. pods_ok c \<Longrightarrow> pods_ok (f c)) \<Longrightarrow> co_safe k \<Longrightarrow> co_safe (in_memory f k)"
  unfolding in_memory_def by (rule safe_co_access) simp

lemma safe_read_memory: "(\<And>x. co_safe (k x)) \<Longrightarrow> co_safe (read_memory f k)"
  unfolding read_memory_def by (rule safe_co_access) simp

lemma safe_db_read:
  assumes "\<And>c. pods_ok c \<Longrightarrow> co_safe (k (DbOK (f c)))" "co_safe (k DbErr)"
  shows "co_safe (db_read f k)"
  unfolding db_read_def by (rule safe_co_access) (use assms in \<open>auto split: answer.splits\<close>)

lemma safe_db_write:
  assumes "\<And>c. pods_ok c \<Longrightarrow> pod_indexes (db_pods (fst (f c))) \<Longrightarrow> pods_ok (fst (f c))"
    and "\<And>x. co_safe (k x)"
  shows "co_safe (db_write f k)"
  unfolding db_write_def by (rule safe_co_access) (use assms in \<open>auto simp: Let_def split: answer.splits\<close>)

section \<open>Single operations\<close>

lemma pods_ok_update:
  assumes "pods_ok c" "pod_indexes (db_pods (fst (update_pods w u c)))" "\<And>p. p \<in> set (db_pods c) \<Longrightarrow> w p \<Longrightarrow> pod_ok p \<Longrightarrow> pod_ok (u p)"
  shows "pods_ok (fst (update_pods w u c))"
  using assms by (auto simp: pods_ok_def update_pods_def memory_ok_def)

lemmas pod_statements = UpdateByKey_def UpdateByKeyAndStatusCounted_def UpdateByKeyAndStatus_def UpdateField_def
  UpdateTerminatedWithFallbackError_def MarkOrphaned_def MarkStaleAsDisconnected_def CleanupStale_def

lemmas status_simps = pod_ok_def pod_statuses_def IsPodStatusFinished_def IsPodStatusTerminal_def pod_constants

lemma rows_ok:
  "pod_ok p \<Longrightarrow> pod_ok (completed_at now p)" "pod_ok p \<Longrightarrow> pod_ok (created now data p)"
  "pod_ok p \<Longrightarrow> pod_ok (exited now ev p)" "pod_ok p \<Longrightarrow> pod_ok (failed_at now code msg p)"
  "pod_ok p \<Longrightarrow> pod_ok (recovered_row s now p)" "pod_ok p \<Longrightarrow> pod_ok (terminated_at now p)"
  "pod_ok p \<Longrightarrow> pod_ok (with_status StatusTerminated now p)"
  by (simp_all add: status_simps completed_at_def created_def exited_def failed_at_def recovered_row_def
      terminated_at_def with_status_def Let_def)

lemma pods_ok_runners:
  assumes "pods_ok c" "\<And>r. 0 \<le> rn_CurrentPods r \<Longrightarrow> 0 \<le> rn_CurrentPods (u r)"
  shows "pods_ok (fst (update_runners w u c))"
  using assms by (auto simp: pods_ok_def update_runners_def memory_ok_def)

lemma runners_ok [simp]:
  "pods_ok c \<Longrightarrow> pods_ok (fst (IncrementPods i c))" "pods_ok c \<Longrightarrow> pods_ok (fst (DecrementPods i c))"
  "pods_ok c \<Longrightarrow> 0 \<le> n \<Longrightarrow> pods_ok (fst (SetPodCount i n c))"
  "pods_ok c \<Longrightarrow> pods_ok (fst (runner_UpdateFields i (\<lambda>r. r\<lparr>rn_Status := s\<rparr>) c))"
  "pods_ok c \<Longrightarrow> pods_ok (fst (MarkOfflineRunners t c))"
  "pods_ok c \<Longrightarrow> 0 \<le> hi_CurrentPods h \<Longrightarrow> pods_ok (fst (update_heartbeat h c))"
  unfolding IncrementPods_def DecrementPods_def SetPodCount_def runner_UpdateFields_def MarkOfflineRunners_def update_heartbeat_def
  by (erule pods_ok_runners; simp)+

lemma map_fst_filter: "map fst (filter (\<lambda>(k, x). P k) xs) = filter P (map fst xs)"
  by (induction xs) auto

lemma update_all: "(\<forall>(k, x) \<in> set xs. P k x) \<Longrightarrow> P k x \<Longrightarrow> \<forall>(k, x) \<in> set (AList.update k x xs). P k x"
  by (induction xs) auto

lemma keys_update_set: "fst ` set (AList.update k x xs) = insert k (fst ` set xs)"
  by (induction xs) auto

lemma delete_all: "(\<forall>(k, x) \<in> set xs. P k x) \<Longrightarrow> \<forall>(k, x) \<in> set (AList.delete k xs). P k x"
  by (auto simp: AList.delete_eq)

lemma keys_delete_set: "fst ` set (AList.delete k xs) = fst ` set xs - {k}"
  by (induction xs) auto

lemma delete_keys_filter: "map fst (AList.delete k xs) = filter (\<lambda>i. i \<noteq> k) (map fst xs)"
  by (induction xs) auto

lemma count_update:
  "(\<forall>(k, n) \<in> set xs. (1::int) \<le> n) \<Longrightarrow>
     \<forall>(k, n) \<in> set (AList.update k ((case map_of xs k of None \<Rightarrow> 0 | Some n \<Rightarrow> n) + 1) xs). 1 \<le> n"
  by (rule update_all) (fastforce split: option.splits dest: map_of_SomeD)+

lemma memory_okI:
  assumes "pods_ok c" "db_pods c' = db_pods c" "db_runners c' = db_runners c" "memory_ok c \<Longrightarrow> memory_ok c'"
  shows "pods_ok c'"
  using assms by (simp add: pods_ok_def)

lemma misses_ok_update:
  assumes "misses_ok ms os"
  shows "misses_ok (AList.update k ((case map_of ms k of None \<Rightarrow> 0 | Some n \<Rightarrow> n) + 1) ms) (AList.update k r os)"
proof -
  have "map fst ms = map fst os" "distinct (map fst ms)" "\<forall>(k, n) \<in> set ms. 1 \<le> n" using assms unfolding misses_ok_def by blast+
  then show ?thesis unfolding misses_ok_def using count_update [of ms k] distinct_update [of ms] by (simp add: AList.update_keys)
qed

lemma misses_ok_filter: "misses_ok ms os \<Longrightarrow> misses_ok (filter (\<lambda>(k, n). P k) ms) (filter (\<lambda>(k, n). P k) os)"
  unfolding misses_ok_def map_fst_filter by (auto intro: distinct_filter)

lemma misses_ok_delete: "misses_ok ms os \<Longrightarrow> misses_ok (AList.delete k ms) (AList.delete k os)"
  unfolding misses_ok_def delete_keys_filter by (auto dest: delete_all)

lemma reports_ok_update:
  assumes "reports_ok rs"
  shows "reports_ok (AList.update k ((case map_of rs k of None \<Rightarrow> 0 | Some n \<Rightarrow> n) + 1) rs)"
proof -
  have "distinct (map fst rs)" "\<forall>(k, n) \<in> set rs. 1 \<le> n" using assms unfolding reports_ok_def by blast+
  then show ?thesis unfolding reports_ok_def using count_update [of rs k] distinct_update [of rs] by simp
qed

lemma reports_ok_delete: "reports_ok rs \<Longrightarrow> reports_ok (AList.delete k rs)"
  unfolding reports_ok_def delete_keys_filter by (auto dest: delete_all)

lemma routes_ok_update:
  assumes "routes_ok rs ss"
  shows "routes_ok (AList.update k r rs) ss" "routes_ok (AList.update k r rs) (AList.update k s ss)"
  using assms unfolding routes_ok_def keys_update_set by (auto simp: distinct_update)

lemma routes_ok_delete: "routes_ok rs ss \<Longrightarrow> routes_ok (AList.delete k rs) (AList.delete k ss)"
  unfolding routes_ok_def keys_delete_set delete_keys_filter by auto

lemma buffer_ok_update:
  "buffer_ok hs \<Longrightarrow> hi_RunnerID h = i \<Longrightarrow> 0 \<le> hi_CurrentPods h \<Longrightarrow> buffer_ok (AList.update i h hs)"
  unfolding buffer_ok_def by (rule update_all) auto

lemmas memory_lemmas = misses_ok_update misses_ok_filter misses_ok_delete reports_ok_update reports_ok_delete
  routes_ok_update routes_ok_delete buffer_ok_update

lemma memory_operations_ok [simp]:
  assumes "pods_ok c"
  shows "pods_ok (fst (incrementMissCount k r c))" "pods_ok (fst (incrementInitReportCount k c))"
    "pods_ok (clearMissCount k c)" "pods_ok (clearInitReportCount k c)" "pods_ok (clearMissCountsForRunner r c)"
    "pods_ok (RegisterPod k r c)" "pods_ok (EnsurePodRegistered k r c)" "pods_ok (UnregisterPod k c)"
  using assms by (auto simp: pods_ok_def memory_ok_def memory_lemmas incrementMissCount_def incrementInitReportCount_def Let_def
      clearMissCount_def clearInitReportCount_def clearMissCountsForRunner_def RegisterPod_def RegisterPodWithSize_def
      EnsurePodRegistered_def UnregisterPod_def)

lemma neutral_ok [simp]:
  assumes "pods_ok c"
  shows "pods_ok (ack_Register k c)" "pods_ok (ack_Resolve k c)" "pods_ok (ack_Remove k c)"
    "pods_ok (onStatusChange k s t c)" "pods_ok (onInitProgress k s n m c)" "pods_ok (recordTerminateSent k c)"
    "pods_ok (relayCache_Update r conns c)" "pods_ok (relayCache_Delete r c)" "pods_ok (PublishPodEvent o' k s t c)"
    "pods_ok (redis_set_status now r n s v c)" "pods_ok (c\<lparr>sentTerminates := x\<rparr>)" "pods_ok (c\<lparr>sentCreates := y\<rparr>)"
  using assms by (auto simp: ack_Register_def ack_Resolve_def ack_Remove_def onStatusChange_def onInitProgress_def
      recordTerminateSent_def relayCache_Update_def relayCache_Delete_def PublishPodEvent_def redis_set_status_def Let_def
      pods_ok_def memory_ok_def)

section \<open>Goroutines\<close>

lemma safe_write_pods:
  assumes "\<And>p. w p \<Longrightarrow> pod_ok p \<Longrightarrow> pod_ok (u p)"
  shows "(\<And>x. co_safe (k x)) \<Longrightarrow> co_safe (db_write (update_pods w u) k)"
    and "(\<And>x. co_safe (k' x)) \<Longrightarrow> co_safe (db_write (\<lambda>c. (fst (update_pods w u c), ())) k')"
proof -
  have "pods_ok (fst (update_pods w u c))" if "pods_ok c" "pod_indexes (db_pods (fst (update_pods w u c)))" for c
    by (rule pods_ok_update [OF that]) (use assms in blast)
  then show "(\<And>x. co_safe (k x)) \<Longrightarrow> co_safe (db_write (update_pods w u) k)"
    and "(\<And>x. co_safe (k' x)) \<Longrightarrow> co_safe (db_write (\<lambda>c. (fst (update_pods w u c), ())) k')"
    by (auto intro: safe_db_write)
qed

text \<open>The statements of the repository, with the condition on the new row.\<close>

lemma safe_statements:
  assumes "\<And>p. pod_ok p \<Longrightarrow> pod_ok (u p)"
  shows "(\<And>x. co_safe (k x)) \<Longrightarrow> co_safe (db_write (UpdateByKey key u) k)"
    and "(\<And>x. co_safe (k x)) \<Longrightarrow> co_safe (db_write (UpdateByKeyAndStatusCounted key s u) k)"
    and "(\<And>x. co_safe (k' x)) \<Longrightarrow> co_safe (db_write (UpdateByKeyAndStatus key s u) k')"
    and "(\<And>x. co_safe (k' x)) \<Longrightarrow> co_safe (db_write (UpdateField key u) k')"
    and "(\<And>x. co_safe (k' x)) \<Longrightarrow> co_safe (db_write (UpdateTerminatedWithFallbackError key u code) k')"
  unfolding pod_statements by (rule safe_write_pods; use assms in \<open>simp add: pod_ok_def\<close>)+

lemma safe_fixed_statements:
  shows "(\<And>x. co_safe (k' x)) \<Longrightarrow> co_safe (db_write (MarkOrphaned p now) k')"
    and "(\<And>x. co_safe (k x)) \<Longrightarrow> co_safe (db_write (MarkStaleAsDisconnected t) k)"
    and "(\<And>x. co_safe (k x)) \<Longrightarrow> co_safe (db_write (CleanupStale now t) k)"
  unfolding pod_statements by (rule safe_write_pods; auto simp: status_simps)+

lemma safe_runner_statements:
  shows "(\<And>x. co_safe (k x)) \<Longrightarrow> co_safe (db_write (IncrementPods i) k)"
    and "(\<And>x. co_safe (k x)) \<Longrightarrow> co_safe (db_write (DecrementPods i) k)"
    and "(\<And>x. co_safe (k x)) \<Longrightarrow> 0 \<le> n \<Longrightarrow> co_safe (db_write (SetPodCount i n) k)"
    and "(\<And>x. co_safe (k x)) \<Longrightarrow> co_safe (db_write (runner_UpdateFields i (\<lambda>r. r\<lparr>rn_Status := s\<rparr>)) k)"
    and "(\<And>x. co_safe (k x)) \<Longrightarrow> co_safe (db_write (MarkOfflineRunners t) k)"
    and "(\<And>x. co_safe (k x)) \<Longrightarrow> 0 \<le> hi_CurrentPods h \<Longrightarrow> co_safe (db_write (update_heartbeat h) k)"
  by (rule safe_db_write; simp)+

lemma safe_send:
  shows "(\<And>x. co_safe (q x)) \<Longrightarrow> co_safe (SendTerminatePod r key q)"
    and "(\<And>x. co_safe (q x)) \<Longrightarrow> co_safe (SendCreatePod r key q)"
  unfolding SendTerminatePod_def SendCreatePod_def by (rule safe_co_access; simp)+

lemma safe_counts:
  shows "(\<And>n. co_safe (k n)) \<Longrightarrow> co_safe (access (\<lambda>a c. incrementMissCount key r c) k)"
    and "(\<And>n. co_safe (k n)) \<Longrightarrow> co_safe (access (\<lambda>a c. incrementInitReportCount key c) k)"
  by (rule safe_co_access; simp)+

lemmas co_intros = safe_in_memory safe_read_memory safe_db_read safe_statements safe_fixed_statements safe_runner_statements
  safe_send safe_counts rows_ok

lemma safe_commands:
  shows "(\<And>x. co_safe (q x)) \<Longrightarrow> co_safe (coordinator_CreatePod r key q)"
    and "(\<And>x. co_safe (q x)) \<Longrightarrow> co_safe (coordinator_TerminatePod key q)"
    and "co_safe (coordinator_UpdateActivity key)"
    and "co_safe (coordinator_MarkDisconnected key)"
    and "co_safe (coordinator_MarkReconnected key)"
  unfolding coordinator_CreatePod_def coordinator_TerminatePod_def coordinator_UpdateActivity_def coordinator_MarkDisconnected_def
    coordinator_MarkReconnected_def
  by (auto intro!: co_intros simp: status_simps split: db_result.splits option.splits)

lemma resize_ok:
  assumes "pods_ok c"
  shows "pods_ok (c\<lparr>ptySize := AList.update key s (ptySize c), podRunnerMap := (case map_of (podRunnerMap c) key of
      None \<Rightarrow> AList.update key r (podRunnerMap c) | Some x \<Rightarrow> podRunnerMap c)\<rparr>)"
proof (cases "map_of (podRunnerMap c) key")
  case None
  then show ?thesis using assms by (simp add: pods_ok_def memory_ok_def memory_lemmas)
next
  case (Some x)
  then have "key \<in> fst ` set (podRunnerMap c)" by (force dest: map_of_SomeD)
  then show ?thesis using assms Some by (simp add: pods_ok_def memory_ok_def routes_ok_def keys_update_set distinct_update)
qed

lemma safe_pod_events:
  shows "co_safe (handlePodCreated r data)" "co_safe (handlePodTerminated r ev)" "co_safe (handlePodError r err)"
    "co_safe (handleAgentStatus key s)" "co_safe (handlePodInitProgress key phase n msg)" "co_safe (handlePtyResized r key cols rows)"
  unfolding handlePodCreated_def handlePodTerminated_def pod_exited_def handlePodError_def handleAgentStatus_def
    handlePodInitProgress_def handlePtyResized_def Let_def
  by (auto intro!: co_intros resize_ok simp: pod_ok_def split: db_result.splits)

lemma safe_fail_initializing: "co_safe (fail_initializing now r pods)"
  by (induction pods) (auto intro!: co_intros split: db_result.splits)

lemma safe_handleRunnerDisconnect: "co_safe (handleRunnerDisconnect r)"
  unfolding handleRunnerDisconnect_def failInitializingPodsForRunner_def
  by (auto intro!: co_intros safe_fail_initializing split: db_result.splits)

lemma safe_terminate_reported: "co_safe k \<Longrightarrow> co_safe (terminate_reported r key k)"
  unfolding terminate_reported_def by (auto intro!: co_intros)

lemma safe_recoverPodStatus: "co_safe k \<Longrightarrow> co_safe (recoverPodStatus key s now k)"
  unfolding recoverPodStatus_def Let_def by (auto intro!: co_intros split: db_result.splits)

lemma safe_reported_pod: "co_safe k \<Longrightarrow> co_safe (reported_pod now r key k)"
  unfolding reported_pod_def
  by (auto intro!: co_intros safe_terminate_reported safe_recoverPodStatus split: db_result.splits option.splits)

lemma safe_reported_pods: "co_safe k \<Longrightarrow> co_safe (reported_pods now r ks k)"
  by (induction ks) (auto intro: safe_reported_pod)

lemma safe_missing_pods: "co_safe k \<Longrightarrow> co_safe (missing_pods now r reported ps k)"
  by (induction ps) (auto simp: missing_pod_def intro!: co_intros split: db_result.splits)

lemma safe_syncPodCount: "co_safe (syncPodCount r ks)"
  unfolding syncPodCount_def Let_def
  by (auto intro!: co_intros simp: CountActiveByKeys_def split: db_result.splits)

lemma safe_reconcilePods: "co_safe (reconcilePods r ks)"
  unfolding reconcilePods_def reconcileMissingPods_def
  by (auto intro!: co_intros safe_reported_pods safe_missing_pods safe_syncPodCount split: db_result.splits)

lemma safe_sync_agent_status: "co_safe k \<Longrightarrow> co_safe (sync_agent_status ps k)"
  by (induction ps k rule: sync_agent_status.induct) (auto intro!: co_intros simp: pod_ok_def)

lemma buffer_step_ok:
  assumes "pods_ok c" "hi_RunnerID h = i" "0 \<le> hi_CurrentPods h"
  shows "pods_ok (c\<lparr>hbBuffer := AList.update i h (hbBuffer c)\<rparr>)"
  using assms by (simp add: pods_ok_def memory_ok_def memory_lemmas)

lemma safe_RecordHeartbeat: "0 \<le> n \<Longrightarrow> co_safe k \<Longrightarrow> co_safe (RecordHeartbeat r n s v k)"
  unfolding RecordHeartbeat_def
  by (auto intro!: safe_read_memory safe_in_memory safe_co_access buffer_step_ok split: answer.splits)

lemma safe_handleHeartbeat: "co_safe (handleHeartbeat order r data)"
  unfolding handleHeartbeat_def Let_def
  by (auto intro!: safe_RecordHeartbeat co_intros safe_sync_agent_status safe_reconcilePods split: option.splits)

lemma safe_BatchUpdateHeartbeats: "\<forall>h \<in> set hs. 0 \<le> hi_CurrentPods h \<Longrightarrow> co_safe k \<Longrightarrow> co_safe (BatchUpdateHeartbeats hs k)"
  by (induction hs) (auto intro!: co_intros)

lemma safe_flush_batches: "\<forall>h \<in> set hs. 0 \<le> hi_CurrentPods h \<Longrightarrow> co_safe k \<Longrightarrow> co_safe (flush_batches hs k)"
proof (induction hs k rule: flush_batches.induct)
  case (2 h hs k)
  then have "co_safe (flush_batches (drop DefaultBatchSize (h # hs)) k)" by (meson in_set_dropD)
  moreover have "\<forall>h' \<in> set (take DefaultBatchSize (h # hs)). 0 \<le> hi_CurrentPods h'" using 2(2) by (meson in_set_takeD)
  ultimately show ?case by (simp add: safe_BatchUpdateHeartbeats)
qed simp

text \<open>The order in which the swapped buffer is visited is the order of some list with the same elements.\<close>

lemma safe_hb_flush:
  assumes "\<And>xs. set (order xs) = set xs" "co_safe k"
  shows "co_safe (hb_flush order k)"
  unfolding hb_flush_def
proof (rule safe_co_access)
  fix a c
  assume ok: "pods_ok c"
  then have "\<forall>h \<in> set (map snd (order (hbBuffer c))). 0 \<le> hi_CurrentPods h"
    using assms(1) by (fastforce simp: pods_ok_def memory_ok_def buffer_ok_def)
  moreover have "pods_ok (c\<lparr>hbBuffer := []\<rparr>)" using ok by (simp add: pods_ok_def memory_ok_def buffer_ok_def)
  ultimately show "pods_ok (fst (c\<lparr>hbBuffer := []\<rparr>, hbBuffer c)) \<and>
      co_safe (flush_batches (map snd (order (snd (c\<lparr>hbBuffer := []\<rparr>, hbBuffer c)))) k)"
    using safe_flush_batches assms(2) by simp
qed

section \<open>The service\<close>

lemma safe_UpdatePodStatus:
  assumes "\<And>x. co_safe (q x)"
  shows "co_safe (UpdatePodStatus key StatusTerminated q)"
  unfolding UpdatePodStatus_def using assms by (auto intro!: co_intros split: db_result.splits option.splits)

lemma safe_service_TerminatePod:
  assumes "\<And>x. co_safe (q x)"
  shows "co_safe (service_TerminatePod key q)"
  unfolding service_TerminatePod_def
  using assms by (auto intro!: co_intros safe_UpdatePodStatus split: db_result.splits option.splits sum.splits)

lemma safe_orphan_each: "co_safe (orphan_each now reported ps)"
  by (induction ps) (auto intro!: co_intros)

lemma safe_service_operations:
  shows "co_safe (service_HandlePodCreated data)" "co_safe (service_HandlePodTerminated key)"
    "co_safe (service_UpdateAgentStatus key s)" "co_safe (UpdatePodPTY key pid)" "co_safe (UpdateSandboxPath key path branch)"
    "co_safe (service_ReconcilePods r ks)" "co_safe (CleanupStalePods n)" "co_safe cleanupStalePods"
  unfolding service_HandlePodCreated_def service_HandlePodTerminated_def service_UpdateAgentStatus_def UpdatePodPTY_def
    UpdateSandboxPath_def service_ReconcilePods_def CleanupStalePods_def cleanupStalePods_def
  by (auto intro!: co_intros safe_orphan_each simp: pod_ok_def terminated_at_def status_simps split: db_result.splits)

lemma safe_MarkInitFailed: "co_safe k \<Longrightarrow> co_safe (MarkInitFailed key code msg k)"
  unfolding MarkInitFailed_def by (auto intro!: co_intros)

lemma pod_ok_new: "pod_ok ((new_pod req key session)\<lparr>pod_ID := i\<rparr>)"
  by (simp add: new_pod_def status_simps)

lemma safe_service_CreatePod:
  assumes "\<And>x. co_safe (q x)"
  shows "co_safe (service_CreatePod show_int req session q)"
proof -
  have insert: "pods_ok (fst (pod_Create p c))" if "pods_ok c" "pod_ok p" "pod_indexes (db_pods (fst (pod_Create p c)))" for p c
    using that by (simp add: pods_ok_def pod_Create_def memory_ok_def)
  have "co_safe (q (Inl e))" "co_safe (q (Inr p))" for e p using assms by auto
  then show ?thesis unfolding service_CreatePod_def Let_def
    by (intro safe_co_access conjI) (auto intro!: safe_co_access insert pod_ok_new split: option.splits answer.splits)
qed

lemma safe_dispatch:
  assumes "\<And>x. co_safe (q x)"
  shows "co_safe (dispatch deps req pod q)"
  unfolding dispatch_def using assms by (auto intro!: safe_co_access safe_commands safe_MarkInitFailed)

lemma safe_create_in_mode:
  assumes "\<And>x. co_safe (q x)"
  shows "co_safe (create_in_mode deps req session q)"
  unfolding create_in_mode_def Let_def
  using assms by (auto intro!: safe_service_CreatePod safe_dispatch split: sum.splits)

lemma safe_handleResumeMode:
  assumes "\<And>x. co_safe (q x)"
  shows "co_safe (handleResumeMode req q)"
  unfolding handleResumeMode_def using assms
  by (auto intro!: co_intros safe_co_access split: db_result.splits option.splits list.splits)

lemma safe_orchestrator_CreatePod:
  assumes "\<And>x. co_safe (q x)"
  shows "co_safe (orchestrator_CreatePod deps req q)"
  unfolding orchestrator_CreatePod_def
  using assms by (auto intro!: safe_handleResumeMode safe_create_in_mode safe_co_access split: sum.splits)

section \<open>The pool\<close>

text \<open>
  What may run: the handlers of the messages of the runners, the requests, the periodic tasks and the flush of the
  heartbeats. Besides, time passes and runners are added.
\<close>

abbreviation visits_all :: "('a list \<Rightarrow> 'a list) \<Rightarrow> bool" where
  "visits_all order \<equiv> \<forall>xs. set (order xs) = set xs"

inductive_set co_starts :: "co_go set" where
  "visits_all order \<Longrightarrow> handleHeartbeat order r data \<in> co_starts"
| "handlePodCreated r created_data \<in> co_starts"
| "handlePodTerminated r ev \<in> co_starts"
| "handlePodError r err \<in> co_starts"
| "handleAgentStatus key s \<in> co_starts"
| "handlePodInitProgress key phase n msg \<in> co_starts"
| "handlePtyResized r key cols rows \<in> co_starts"
| "handleRunnerDisconnect r \<in> co_starts"
| "visits_all flush_order \<Longrightarrow> hb_flush flush_order [] \<in> co_starts"
| "coordinator_TerminatePod key (\<lambda>_. []) \<in> co_starts"
| "coordinator_UpdateActivity key \<in> co_starts"
| "coordinator_MarkDisconnected key \<in> co_starts"
| "coordinator_MarkReconnected key \<in> co_starts"
| "orchestrator_CreatePod deps req (\<lambda>_. []) \<in> co_starts"
| "service_TerminatePod key (\<lambda>_. []) \<in> co_starts"
| "service_HandlePodCreated created_data \<in> co_starts"
| "service_HandlePodTerminated key \<in> co_starts"
| "service_UpdateAgentStatus key s \<in> co_starts"
| "UpdatePodPTY key pid \<in> co_starts"
| "UpdateSandboxPath key path branch \<in> co_starts"
| "service_ReconcilePods r ks \<in> co_starts"
| "CleanupStalePods hours \<in> co_starts"
| "cleanupStalePods \<in> co_starts"

inductive co_env :: "coordinator \<Rightarrow> coordinator \<Rightarrow> bool" where
  time: "co_clock c \<le> t \<Longrightarrow> co_env c (c\<lparr>co_clock := t\<rparr>)"
| runner: "rn_CurrentPods r = 0 \<Longrightarrow> rn_ID r \<notin> rn_ID ` set (db_runners c) \<Longrightarrow> co_env c (c\<lparr>db_runners := db_runners c @ [r]\<rparr>)"
| offline: "co_env c (fst (MarkOfflineRunners t c))"

lemma co_starts_safe: "p \<in> co_starts \<Longrightarrow> co_safe p"
  by (induction rule: co_starts.induct)
    (auto intro: safe_handleHeartbeat safe_pod_events safe_handleRunnerDisconnect safe_commands safe_hb_flush
      safe_orchestrator_CreatePod safe_service_TerminatePod safe_service_operations)

lemma co_env_ok: "co_env c c' \<Longrightarrow> pods_ok c \<Longrightarrow> pods_ok c'"
  by (induction rule: co_env.induct) (auto simp: pods_ok_def memory_ok_def MarkOfflineRunners_def update_runners_def)

interpretation co_pool: task_pool co_ok co_starts co_env
  by unfold_locales (auto intro: co_starts_safe co_env_ok)

abbreviation co_steps :: "coordinator \<times> co_go \<Rightarrow> coordinator \<times> co_go \<Rightarrow> bool" where
  "co_steps \<equiv> (pool_step co_starts co_env)\<^sup>*\<^sup>*"

text \<open>A server starts with empty memory; the rows are what an earlier one has left.\<close>

definition co_initial :: "coordinator \<Rightarrow> bool" where
  "co_initial c \<longleftrightarrow> pod_indexes (db_pods c) \<and> (\<forall>p \<in> set (db_pods c). pod_ok p) \<and>
     (\<forall>r \<in> set (db_runners c). 0 \<le> rn_CurrentPods r) \<and> podMissCount c = [] \<and> podMissOwner c = [] \<and>
     initReportCount c = [] \<and> terminateSentCache c = [] \<and> ackPending c = [] \<and> podRunnerMap c = [] \<and> ptySize c = [] \<and>
     relayCache c = [] \<and> hbBuffer c = []"

lemma co_initial_ok: "co_initial c \<Longrightarrow> pods_ok c"
  by (simp add: co_initial_def pods_ok_def memory_ok_def misses_ok_def reports_ok_def routes_ok_def buffer_ok_def)

text \<open>
  C12. The shape of the data, whatever interleaves and whichever statements and commands fail: the rows keep their unique
  keys, have a known status and an end as soon as the status says that the pod has ended; only one active pod resumes
  another; no count of pods is negative; every counted miss is attributed to a runner, and no counter of misses or
  reports is kept at zero; a terminal whose size is known has a runner to send input to.
\<close>

theorem pods_well_formed:
  assumes "co_initial c0" "co_steps (c0, []) (c, ts)"
  shows "distinct (map pod_PodKey (db_pods c)) \<and>
    (\<forall>p \<in> set (db_pods c). pod_Status p \<in> set pod_statuses \<and> (IsPodStatusFinished (pod_Status p) \<longrightarrow> pod_FinishedAt p \<noteq> None)) \<and>
    (\<forall>p \<in> set (db_pods c). \<forall>q \<in> set (db_pods c). resumes p \<and> resumes q \<and> pod_SourcePodKey p = pod_SourcePodKey q \<longrightarrow> p = q) \<and>
    (\<forall>r \<in> set (db_runners c). 0 \<le> rn_CurrentPods r) \<and>
    dom (map_of (podMissCount c)) = dom (map_of (podMissOwner c)) \<and>
    (\<forall>k n. map_of (podMissCount c) k = Some n \<or> map_of (initReportCount c) k = Some n \<longrightarrow> 1 \<le> n) \<and>
    (\<forall>k. snd (snd (GetPtySize k c)) \<longrightarrow> RouteInput k c \<noteq> None)"
proof -
  have ok: "pods_ok c" using co_pool.reachable_ok [OF assms(2)] co_initial_ok [OF assms(1)] by simp
  then have m: "misses_ok (podMissCount c) (podMissOwner c)" "reports_ok (initReportCount c)" "routes_ok (podRunnerMap c) (ptySize c)"
    by (simp_all add: pods_ok_def memory_ok_def)
  have "distinct (map pod_PodKey (db_pods c))" "inj_on pod_SourcePodKey {p \<in> set (db_pods c). resumes p}"
    "\<forall>p \<in> set (db_pods c). pod_ok p" "\<forall>r \<in> set (db_runners c). 0 \<le> rn_CurrentPods r"
    using ok by (simp_all add: pods_ok_def pod_indexes_def distinct_map)
  moreover have "dom (map_of (podMissCount c)) = dom (map_of (podMissOwner c))"
    using m(1) unfolding misses_ok_def dom_map_of_conv_image_fst by (metis list.set_map)
  moreover have "RouteInput k c \<noteq> None" if size: "snd (snd (GetPtySize k c))" for k
  proof -
    have "k \<in> fst ` set (ptySize c)" using size by (force simp: GetPtySize_def split: option.splits dest: map_of_SomeD)
    then have "k \<in> fst ` set (podRunnerMap c)" using m(3) by (auto simp: routes_ok_def)
    then show ?thesis by (simp add: RouteInput_def map_of_eq_None_iff)
  qed
  moreover have "1 \<le> n" if "map_of (podMissCount c) k = Some n \<or> map_of (initReportCount c) k = Some n" for k n
    using that m(1,2) by (auto simp: misses_ok_def reports_ok_def dest!: map_of_SomeD)
  ultimately show ?thesis unfolding pod_ok_def inj_on_def by (intro conjI) blast+
qed

end
