(* ===== verification/Pod_Heartbeats.thy ===== *)
theory Pod_Heartbeats
  imports Pod_Safety
begin

text \<open>
  What a heartbeat does to a single pod. \<open>heartbeat_spec\<close> is the contract of the reconciliation: a machine for one pod
  with its status, the heartbeats that missed it, those that reported it while it was starting, and whether input for
  it is routed. The handler, which works on the tables and the memory of all pods, implements it for every pod of the
  runner and leaves the pods of other runners alone. One transition can fail: a pod that was orphaned is not recovered
  when the table already holds an active pod that resumes the same pod, because a unique index forbids it.
\<close>

section \<open>The machine of one pod\<close>

record pod_view =
  v_Status :: string
  v_Misses :: int
  v_Reports :: int
  v_Routed :: bool

definition report_spec :: "pod_view \<Rightarrow> pod_view" where
  "report_spec v =
     (if v_Status v = StatusCompleted \<or> v_Status v = StatusTerminated then v
      else if v_Status v = StatusOrphaned then v\<lparr>v_Status := StatusRunning, v_Misses := 0, v_Routed := True\<rparr>
      else if v_Status v = StatusInitializing
      then (if v_Reports v + 1 \<ge> initRecoverThreshold
        then v\<lparr>v_Status := StatusRunning, v_Misses := 0, v_Reports := 0, v_Routed := True\<rparr>
        else v\<lparr>v_Misses := 0, v_Reports := v_Reports v + 1, v_Routed := True\<rparr>)
      else if v_Status v \<in> set ActiveStatuses then v\<lparr>v_Misses := 0, v_Routed := True\<rparr>
      else v\<lparr>v_Routed := True\<rparr>)"

definition miss_spec :: "pod_view \<Rightarrow> pod_view" where
  "miss_spec v =
     (if v_Status v \<notin> set ActiveStatuses then v
      else if v_Misses v + 1 < orphanMissThreshold then v\<lparr>v_Misses := v_Misses v + 1\<rparr>
      else v\<lparr>v_Status := StatusOrphaned, v_Misses := 0, v_Routed := False\<rparr>)"

definition heartbeat_spec :: "bool \<Rightarrow> pod_view \<Rightarrow> pod_view" where
  "heartbeat_spec reported v = (if reported then report_spec v else miss_spec v)"

section \<open>The view of a pod\<close>

definition counted :: "(string \<times> int) list \<Rightarrow> string \<Rightarrow> int" where
  "counted ns k = (case map_of ns k of None \<Rightarrow> 0 | Some n \<Rightarrow> n)"

definition view :: "string \<Rightarrow> coordinator \<Rightarrow> pod_view" where
  "view k c = \<lparr>v_Status = (case pod_GetByKey k c of None \<Rightarrow> [] | Some p \<Rightarrow> pod_Status p),
     v_Misses = counted (podMissCount c) k, v_Reports = counted (initReportCount c) k, v_Routed = IsPodRegistered k c\<rparr>"

definition ident :: "pod_record \<Rightarrow> int \<times> string \<times> int \<times> string option" where
  "ident p = (pod_ID p, pod_PodKey p, pod_RunnerID p, pod_SourcePodKey p)"

definition idents :: "coordinator \<Rightarrow> (int \<times> string \<times> int \<times> string option) list" where
  "idents c = map ident (db_pods c)"

text \<open>
  The indexes of the table hold in every reachable state: two pods that resume the same pod are not both active. A pod
  shares its source if another pod resumes the same pod, at whatever time.
\<close>

definition indexes_ok :: "coordinator \<Rightarrow> bool" where
  "indexes_ok c \<longleftrightarrow> pod_indexes (db_pods c)"

definition shares_source :: "string \<Rightarrow> coordinator \<Rightarrow> bool" where
  "shares_source key c \<longleftrightarrow> (\<exists>p \<in> set (db_pods c). \<exists>q \<in> set (db_pods c). pod_PodKey p = key \<and> pod_PodKey q \<noteq> key \<and>
     pod_SourcePodKey p \<noteq> None \<and> pod_SourcePodKey q = pod_SourcePodKey p)"

lemma shares_source_idents:
  "shares_source key c \<longleftrightarrow> (\<exists>x \<in> set (idents c). \<exists>y \<in> set (idents c). fst (snd x) = key \<and> fst (snd y) \<noteq> key \<and>
     snd (snd (snd x)) \<noteq> None \<and> snd (snd (snd y)) = snd (snd (snd x)))"
  by (simp add: shares_source_def idents_def ident_def)

lemma pod_indexes_inj:
  "pod_indexes ps \<longleftrightarrow> distinct (map pod_ID ps) \<and> distinct (map pod_PodKey ps) \<and>
     inj_on pod_SourcePodKey {p \<in> set ps. resumes p}"
  by (auto simp: pod_indexes_def distinct_map)

text \<open>A statement that keeps the identity of the rows keeps the indexes, if the active pods still have different sources.\<close>

lemma pod_indexes_map:
  assumes ps: "pod_indexes ps" and ident: "\<And>p. ident (u p) = ident p" and inj: "inj_on pod_SourcePodKey {p \<in> set ps. resumes (u p)}"
  shows "pod_indexes (map u ps)"
proof -
  have fields: "pod_ID (u p) = pod_ID p" "pod_PodKey (u p) = pod_PodKey p" "pod_SourcePodKey (u p) = pod_SourcePodKey p" for p
    using ident [of p] by (simp_all add: ident_def)
  have "distinct ps" using ps by (simp add: pod_indexes_def distinct_map)
  then have "distinct (map pod_SourcePodKey (filter (\<lambda>p. resumes (u p)) ps))" using inj by (simp add: distinct_map)
  then have "distinct (map pod_SourcePodKey (filter resumes (map u ps)))" by (simp add: filter_map comp_def fields)
  then show ?thesis using ps by (simp add: pod_indexes_def comp_def fields)
qed

lemma update_pods_indexes:
  assumes ok: "indexes_ok c" and ident: "\<And>p. ident (u p) = ident p"
    and shrink: "\<And>p. p \<in> set (db_pods c) \<Longrightarrow> w p \<Longrightarrow> resumes (u p) \<Longrightarrow> resumes p"
  shows "indexes_ok (fst (update_pods w u c))"
proof -
  have "inj_on pod_SourcePodKey {p \<in> set (db_pods c). resumes p}" using ok by (simp add: indexes_ok_def pod_indexes_inj)
  then have "inj_on pod_SourcePodKey {p \<in> set (db_pods c). resumes (if w p then u p else p)}"
    by (rule inj_on_subset) (use shrink in auto)
  then have "pod_indexes (map (\<lambda>p. if w p then u p else p) (db_pods c))"
    using ok ident by (intro pod_indexes_map) (simp_all add: indexes_ok_def)
  then show ?thesis by (simp add: indexes_ok_def update_pods_def)
qed

lemma key_unique:
  assumes "indexes_ok c"
  shows "pod_GetByKey k c = Some p \<longleftrightarrow> p \<in> set (db_pods c) \<and> pod_PodKey p = k"
proof
  assume "pod_GetByKey k c = Some p"
  then show "p \<in> set (db_pods c) \<and> pod_PodKey p = k" by (auto simp: pod_GetByKey_def find_Some_iff)
next
  assume p: "p \<in> set (db_pods c) \<and> pod_PodKey p = k"
  then obtain q where q: "pod_GetByKey k c = Some q" by (fastforce simp: pod_GetByKey_def find_None_iff not_None_eq [symmetric])
  then have "q \<in> set (db_pods c)" "pod_PodKey q = k" by (auto simp: pod_GetByKey_def find_Some_iff)
  moreover have "inj_on pod_PodKey (set (db_pods c))"
    using assms by (simp add: indexes_ok_def pod_indexes_inj distinct_map)
  ultimately show "pod_GetByKey k c = Some p" using p q by (auto dest: inj_onD)
qed

lemma GetByKeyAndRunner_view:
  assumes "indexes_ok c"
  shows "GetByKeyAndRunner k r c = (case pod_GetByKey k c of None \<Rightarrow> None | Some p \<Rightarrow> if pod_RunnerID p = r then Some p else None)"
proof (cases "GetByKeyAndRunner k r c")
  case None
  then have "pod_RunnerID p \<noteq> r" if "pod_GetByKey k c = Some p" for p
    using that by (auto simp: GetByKeyAndRunner_def find_None_iff key_unique [OF assms])
  then show ?thesis using None by (simp split: option.splits)
next
  case (Some p)
  then have "p \<in> set (db_pods c)" "pod_PodKey p = k" "pod_RunnerID p = r" by (auto simp: GetByKeyAndRunner_def find_Some_iff)
  then show ?thesis using Some key_unique [OF assms, of k p] by simp
qed

section \<open>Steps that concern some pods only\<close>

text \<open>All rows stay, the indexes hold on, and for pods outside of \<open>K\<close> nothing changes.\<close>

definition only :: "string set \<Rightarrow> coordinator \<Rightarrow> coordinator \<Rightarrow> bool" where
  "only K c c' \<longleftrightarrow> idents c' = idents c \<and> (indexes_ok c \<longrightarrow> indexes_ok c') \<and>
     (\<forall>k. k \<notin> K \<longrightarrow> pod_GetByKey k c' = pod_GetByKey k c \<and> view k c' = view k c)"

lemma only_refl [simp]: "only K c c"
  by (simp add: only_def)

lemma only_trans: "only K c c' \<Longrightarrow> only L c' c'' \<Longrightarrow> only (K \<union> L) c c''"
  by (simp add: only_def)

lemma only_rows: "only K c c' \<Longrightarrow> indexes_ok c \<Longrightarrow> indexes_ok c'"
  by (simp add: only_def)

lemma only_shares: "only K c c' \<Longrightarrow> shares_source k c' = shares_source k c"
  by (simp add: only_def shares_source_idents)

lemma only_view: "only K c c' \<Longrightarrow> k \<notin> K \<Longrightarrow> view k c' = view k c"
  by (simp add: only_def)

text \<open>The identity of a row stays: its runner does not change.\<close>

lemma only_row:
  assumes "only K c c'" "indexes_ok c" "pod_GetByKey k c = Some p"
  shows "\<exists>p'. pod_GetByKey k c' = Some p' \<and> ident p' = ident p"
proof -
  have "ident p \<in> set (idents c')" using assms key_unique [of c k p] by (force simp: only_def idents_def)
  then obtain p' where p': "p' \<in> set (db_pods c')" "ident p' = ident p" by (auto simp: idents_def)
  then have "pod_PodKey p' = k" using assms(2,3) key_unique [of c k p] by (simp add: ident_def)
  then show ?thesis using p' key_unique [OF only_rows [OF assms(1,2)], of k p'] by blast
qed

lemma update_pods_GetByKey:
  assumes "\<And>p. ident (u p) = ident p"
  shows "pod_GetByKey k (fst (update_pods w u c)) = map_option (\<lambda>p. if w p then u p else p) (pod_GetByKey k c)"
proof -
  have "pod_PodKey (u p) = pod_PodKey p" for p using assms [of p] by (simp add: ident_def)
  then have "find (\<lambda>p. pod_PodKey p = k) (map (\<lambda>p. if w p then u p else p) ps) =
      map_option (\<lambda>p. if w p then u p else p) (find (\<lambda>p. pod_PodKey p = k) ps)" for ps
    by (induction ps) auto
  then show ?thesis by (simp add: pod_GetByKey_def update_pods_def)
qed

lemma update_pods_idents:
  assumes "\<And>p. ident (u p) = ident p"
  shows "idents (fst (update_pods w u c)) = idents c"
  using assms by (simp add: idents_def update_pods_def)

lemma update_pods_only:
  assumes "\<And>p. ident (u p) = ident p" "\<And>p. p \<in> set (db_pods c) \<Longrightarrow> w p \<Longrightarrow> pod_PodKey p \<in> K"
    and "indexes_ok c \<Longrightarrow> indexes_ok (fst (update_pods w u c))"
  shows "only K c (fst (update_pods w u c))"
proof -
  have "pod_GetByKey k (fst (update_pods w u c)) = pod_GetByKey k c" if "k \<notin> K" for k
  proof (cases "pod_GetByKey k c")
    case (Some p)
    then have "p \<in> set (db_pods c)" "pod_PodKey p = k" by (auto simp: pod_GetByKey_def find_Some_iff)
    then have "\<not> w p" using assms(2) that by blast
    then show ?thesis using Some by (simp add: update_pods_GetByKey [OF assms(1)])
  qed (simp add: update_pods_GetByKey [OF assms(1)])
  moreover have "podMissCount (fst (update_pods w u c)) = podMissCount c" "initReportCount (fst (update_pods w u c)) = initReportCount c"
    "podRunnerMap (fst (update_pods w u c)) = podRunnerMap c" by (simp_all add: update_pods_def)
  ultimately show ?thesis
    using assms(3) by (simp add: only_def view_def IsPodRegistered_def update_pods_idents [OF assms(1)])
qed

section \<open>Undisturbed accesses\<close>

lemma alone_db_read [simp]:
  "run_alone (db_read f k) (all_succeed, c) = run_alone (k (DbOK (f c))) (all_succeed, c)"
  by (simp add: db_read_def)

lemma alone_in_memory [simp]:
  "run_alone (in_memory f k) (all_succeed, c) = run_alone k (all_succeed, f c)"
  by (simp add: in_memory_def)

lemma alone_read_memory [simp]:
  "run_alone (read_memory f k) (all_succeed, c) = run_alone (k (f c)) (all_succeed, c)"
  by (simp add: read_memory_def)

lemma alone_db_write:
  "indexes_ok (fst (f c)) \<Longrightarrow>
     run_alone (db_write f k) (all_succeed, c) = run_alone (k (DbOK (snd (f c)))) (all_succeed, fst (f c))"
  by (simp add: db_write_def Let_def indexes_ok_def)

lemma alone_db_write_blocked:
  "\<not> indexes_ok (fst (f c)) \<Longrightarrow> run_alone (db_write f k) (all_succeed, c) = run_alone (k DbErr) (all_succeed, c)"
  by (simp add: db_write_def Let_def indexes_ok_def)

lemma alone_SendTerminatePod [simp]:
  "run_alone (SendTerminatePod r key q) (all_succeed, c) =
     run_alone (q True) (all_succeed, c\<lparr>sentTerminates := sentTerminates c @ [(co_clock c, r, key)]\<rparr>)"
  by (simp add: SendTerminatePod_def)

text \<open>The memory as it appears in the view.\<close>

lemma counted_simps [simp]:
  "counted (AList.update k n ns) k' = (if k' = k then n else counted ns k')"
  "counted (AList.delete k ns) k' = (if k' = k then 0 else counted ns k')"
  by (simp_all add: counted_def AList.update_conv' AList.delete_conv')

lemma same_pods:
  "db_pods c' = db_pods c \<Longrightarrow> pod_GetByKey k c' = pod_GetByKey k c"
  "db_pods c' = db_pods c \<Longrightarrow> idents c' = idents c"
  by (simp_all add: pod_GetByKey_def idents_def)

lemma memory_pods [simp]:
  "db_pods (fst (incrementMissCount key r c)) = db_pods c"
  "db_pods (fst (incrementInitReportCount key c)) = db_pods c"
  "db_pods (clearMissCount key c) = db_pods c"
  "db_pods (clearInitReportCount key c) = db_pods c"
  "db_pods (EnsurePodRegistered key r c) = db_pods c"
  "db_pods (UnregisterPod key c) = db_pods c"
  "db_pods (ack_Resolve key c) = db_pods c"
  "db_pods (onStatusChange key s t c) = db_pods c"
  "db_pods (recordTerminateSent key c) = db_pods c"
  by (simp_all add: incrementMissCount_def incrementInitReportCount_def Let_def clearMissCount_def clearInitReportCount_def
      EnsurePodRegistered_def UnregisterPod_def ack_Resolve_def onStatusChange_def recordTerminateSent_def)

lemma memory_view [simp]:
  "view k (fst (incrementMissCount key r c)) = (if k = key then (view k c)\<lparr>v_Misses := v_Misses (view k c) + 1\<rparr> else view k c)"
  "view k (fst (incrementInitReportCount key c)) = (if k = key then (view k c)\<lparr>v_Reports := v_Reports (view k c) + 1\<rparr> else view k c)"
  "view k (clearMissCount key c) = (if k = key then (view k c)\<lparr>v_Misses := 0\<rparr> else view k c)"
  "view k (clearInitReportCount key c) = (if k = key then (view k c)\<lparr>v_Reports := 0\<rparr> else view k c)"
  "view k (EnsurePodRegistered key r c) = (if k = key then (view k c)\<lparr>v_Routed := True\<rparr> else view k c)"
  "view k (UnregisterPod key c) = (if k = key then (view k c)\<lparr>v_Routed := False\<rparr> else view k c)"
  "view k (ack_Resolve key c) = view k c"
  "view k (onStatusChange key s t c) = view k c"
  "view k (recordTerminateSent key c) = view k c"
  "view k (c\<lparr>sentTerminates := x\<rparr>) = view k c"
  by (auto simp: view_def incrementMissCount_def incrementInitReportCount_def Let_def clearMissCount_def clearInitReportCount_def
      EnsurePodRegistered_def UnregisterPod_def ack_Resolve_def onStatusChange_def recordTerminateSent_def IsPodRegistered_def
      AList.update_conv' AList.delete_conv' counted_def [symmetric] pod_GetByKey_def)

lemma increments_counted:
  "snd (incrementMissCount key r c) = v_Misses (view key c) + 1"
  "snd (incrementInitReportCount key c) = v_Reports (view key c) + 1"
  by (simp_all add: incrementMissCount_def incrementInitReportCount_def Let_def view_def counted_def)

lemma onlyI:
  assumes "db_pods c' = db_pods c" "\<And>k. k \<notin> K \<Longrightarrow> view k c' = view k c"
  shows "only K c c'"
  using assms same_pods [OF assms(1)] by (simp add: only_def indexes_ok_def)

section \<open>One reported pod\<close>

lemma statuses_differ [simp]:
  "StatusOrphaned \<noteq> StatusCompleted" "StatusOrphaned \<noteq> StatusTerminated" "StatusInitializing \<noteq> StatusCompleted"
  "StatusInitializing \<noteq> StatusTerminated" "StatusInitializing \<noteq> StatusOrphaned" "StatusRunning \<noteq> StatusCompleted"
  "StatusRunning \<noteq> StatusTerminated" "StatusRunning \<noteq> StatusOrphaned" "StatusRunning \<noteq> StatusInitializing"
  by (simp_all add: pod_constants)

text \<open>What the first loop does; the counter of misses is cleared by the second.\<close>

definition report_part :: "pod_view \<Rightarrow> pod_view" where
  "report_part v =
     (if v_Status v = StatusCompleted \<or> v_Status v = StatusTerminated then v
      else if v_Status v = StatusOrphaned then v\<lparr>v_Status := StatusRunning, v_Routed := True\<rparr>
      else if v_Status v = StatusInitializing
      then (if v_Reports v + 1 \<ge> initRecoverThreshold then v\<lparr>v_Status := StatusRunning, v_Reports := 0, v_Routed := True\<rparr>
        else v\<lparr>v_Reports := v_Reports v + 1, v_Routed := True\<rparr>)
      else v\<lparr>v_Routed := True\<rparr>)"

lemma terminate_alone:
  assumes "indexes_ok c"
  shows "\<exists>c'. (\<forall>k. run_alone (terminate_reported r key k) (all_succeed, c) = run_alone k (all_succeed, c')) \<and> only {} c c'"
proof (cases "isTerminateCooldown key c")
  case True
  then show ?thesis by (intro exI [of _ c]) (simp add: terminate_reported_def)
next
  case False
  let ?c = "recordTerminateSent key c"
  show ?thesis using False
    by (intro exI [of _ "?c\<lparr>sentTerminates := sentTerminates ?c @ [(co_clock ?c, r, key)]\<rparr>"])
      (auto simp: terminate_reported_def intro: onlyI)
qed

text \<open>The statement of a recovery violates an index only if an orphaned pod shares its source.\<close>

lemma recover_indexes:
  assumes ok: "indexes_ok c" and allowed: "s = StatusInitializing \<or> \<not> shares_source key c"
  shows "indexes_ok (fst (UpdateByKeyAndStatusCounted key s (recovered_row s now) c))"
proof -
  let ?w = "\<lambda>p. pod_PodKey p = key \<and> pod_Status p = s" and ?u = "recovered_row s now"
  have ident: "ident (?u p) = ident p" for p by (simp add: ident_def recovered_row_def)
  have stay: "resumes (?u p) \<longrightarrow> pod_SourcePodKey p \<noteq> None" for p by (simp add: resumes_def recovered_row_def)
  show ?thesis
  proof (cases "s = StatusInitializing")
    case True
    then show ?thesis unfolding UpdateByKeyAndStatusCounted_def
      using ok ident by (intro update_pods_indexes) (auto simp: resumes_def recovered_row_def ActiveStatuses_def)
  next
    case False
    let ?v = "\<lambda>p. if ?w p then ?u p else p"
    have inj: "inj_on pod_SourcePodKey {p \<in> set (db_pods c). resumes p}" "inj_on pod_PodKey (set (db_pods c))"
      using ok by (simp_all add: indexes_ok_def pod_indexes_inj distinct_map)
    have "p = q" if p: "p \<in> set (db_pods c)" "resumes (?v p)" and q: "q \<in> set (db_pods c)" "resumes (?v q)"
      and same: "pod_SourcePodKey p = pod_SourcePodKey q" for p q
    proof (cases "?w p \<or> ?w q")
      case True
      have "pod_SourcePodKey p \<noteq> None" using p(2) stay [of p] by (auto simp: resumes_def split: if_splits)
      then have "pod_PodKey p = pod_PodKey q"
        using True p(1) q(1) same allowed False unfolding shares_source_def by metis
      then show ?thesis using inj(2) p(1) q(1) by (auto dest: inj_onD)
    next
      case False
      then have "resumes p" "resumes q" using p(2) q(2) by (simp_all split: if_splits)
      then show ?thesis using inj(1) p(1) q(1) same by (auto dest: inj_onD)
    qed
    then have "inj_on pod_SourcePodKey {p \<in> set (db_pods c). resumes (?v p)}" by (intro inj_onI) blast
    then have "pod_indexes (map ?v (db_pods c))"
      using ok ident by (intro pod_indexes_map) (simp_all add: indexes_ok_def)
    then show ?thesis by (simp add: indexes_ok_def UpdateByKeyAndStatusCounted_def update_pods_def)
  qed
qed

lemma recover_alone:
  assumes rows: "indexes_ok c" and row: "pod_GetByKey key c = Some p" "pod_Status p = s"
    and s: "s = StatusOrphaned \<or> s = StatusInitializing"
  shows "\<exists>c'. (\<forall>k. run_alone (recoverPodStatus key s now k) (all_succeed, c) = run_alone k (all_succeed, c')) \<and> only {key} c c' \<and>
    (view key c' = (view key c)\<lparr>v_Status := StatusRunning\<rparr> \<or>
     s = StatusOrphaned \<and> shares_source key c \<and> view key c' = view key c)"
proof (cases "indexes_ok (fst (UpdateByKeyAndStatusCounted key s (recovered_row s now) c))")
  case False
  then have "s = StatusOrphaned \<and> shares_source key c" using recover_indexes [OF rows] s by blast
  moreover have "run_alone (recoverPodStatus key s now k) (all_succeed, c) = run_alone k (all_succeed, c)" for k
    using False by (simp add: recoverPodStatus_def alone_db_write_blocked)
  ultimately show ?thesis by (intro exI [of _ c]) simp
next
  case True
  let ?f = "UpdateByKeyAndStatusCounted key s (recovered_row s now)"
  have ident: "ident (recovered_row s now p) = ident p" for p by (simp add: ident_def recovered_row_def)
  let ?w = "\<lambda>p. pod_PodKey p = key \<and> pod_Status p = s"
  let ?c = "fst (?f c)"
  have f: "?f = update_pods ?w (recovered_row s now)" by (simp add: UpdateByKeyAndStatusCounted_def fun_eq_iff)
  have p: "p \<in> set (db_pods c)" "pod_PodKey p = key" using row key_unique [OF rows] by auto
  have n: "snd (?f c) > 0" using p row(2) by (auto simp: f update_pods_def filter_empty_conv)
  have o1: "only {key} c ?c" unfolding f by (rule update_pods_only) (use True f in \<open>auto simp: ident\<close>)
  have v: "view key ?c = (view key c)\<lparr>v_Status := StatusRunning\<rparr>"
  proof -
    have "pod_GetByKey key ?c = Some (recovered_row s now p)" using row p by (simp add: f update_pods_GetByKey [OF ident])
    then show ?thesis by (simp add: view_def recovered_row_def) (simp add: f update_pods_def IsPodRegistered_def)
  qed
  have w: "run_alone (db_write ?f k) (all_succeed, c) = run_alone (k (DbOK (snd (?f c)))) (all_succeed, ?c)" for k
    using True by (rule alone_db_write)
  define c' where "c' = (if s = StatusInitializing then onStatusChange key StatusRunning [] (ack_Resolve key ?c)
    else onStatusChange key StatusRunning [] ?c)"
  have "only {} ?c c'" by (rule onlyI) (simp_all add: c'_def)
  then have "only {key} c c'" using only_trans [OF o1, of "{}" c'] by simp
  moreover have "view key c' = (view key c)\<lparr>v_Status := StatusRunning\<rparr>"
    using v unfolding c'_def by (cases "s = StatusInitializing") simp_all
  moreover have "run_alone (recoverPodStatus key s now k) (all_succeed, c) = run_alone k (all_succeed, c')" for k
    using n by (simp add: recoverPodStatus_def w Let_def c'_def)
  ultimately show ?thesis by blast
qed

text \<open>What the first loop does with a reported pod of the runner, a blocked recovery included.\<close>

definition handled :: "bool \<Rightarrow> pod_view \<Rightarrow> pod_view \<Rightarrow> bool" where
  "handled shared v v' \<longleftrightarrow> v' = report_part v \<or> (shared \<and> v_Status v = StatusOrphaned \<and> v' = v\<lparr>v_Routed := True\<rparr>)"

lemma reported_alone:
  assumes rows: "indexes_ok c"
  shows "\<exists>c'. (\<forall>k. run_alone (reported_pod now r key k) (all_succeed, c) = run_alone k (all_succeed, c')) \<and> only {key} c c' \<and>
    (\<forall>p. pod_GetByKey key c = Some p \<longrightarrow> pod_RunnerID p = r \<longrightarrow> handled (shares_source key c) (view key c) (view key c'))"
proof (cases "\<exists>p. pod_GetByKey key c = Some p \<and> pod_RunnerID p = r")
  case False
  then have none: "GetByKeyAndRunner key r c = None" by (auto simp: GetByKeyAndRunner_view [OF rows] split: option.splits)
  let ?c1 = "fst (incrementMissCount key r c)"
  have o1: "only {key} c ?c1" "only {key} c (clearMissCount key ?c1)" by (rule onlyI; simp)+
  obtain c2 where c2: "\<And>k. run_alone (terminate_reported r key k) (all_succeed, clearMissCount key ?c1) = run_alone k (all_succeed, c2)"
      "only {} (clearMissCount key ?c1) c2"
    using terminate_alone [OF only_rows [OF o1(2) rows]] by blast
  have "only {key} c c2" using only_trans [OF o1(2) c2(2)] by simp
  then show ?thesis using False o1(1)
    by (intro exI [of _ "if snd (incrementMissCount key r c) < orphanMissThreshold then ?c1 else c2"])
      (auto simp: reported_pod_def none c2(1))
next
  case True
  then obtain p where p: "pod_GetByKey key c = Some p" "pod_RunnerID p = r" by blast
  then have some: "GetByKeyAndRunner key r c = Some p" by (simp add: GetByKeyAndRunner_view [OF rows])
  have v: "v_Status (view key c) = pod_Status p" using p by (simp add: view_def)
  let ?e = "EnsurePodRegistered key r c"
  have e0: "only {key} c ?e" by (rule onlyI) simp_all
  have e: "only {key} c ?e" "indexes_ok ?e" "pod_GetByKey key ?e = Some p"
    using p(1) e0 only_rows [OF e0 rows] by (simp_all add: same_pods(1) [of ?e c])
  consider (ended) "pod_Status p = StatusCompleted \<or> pod_Status p = StatusTerminated" | (orphaned) "pod_Status p = StatusOrphaned"
    | (init) "pod_Status p = StatusInitializing" | (other) "pod_Status p \<notin> {StatusCompleted, StatusTerminated, StatusOrphaned, StatusInitializing}"
    by blast
  then show ?thesis
  proof cases
    case ended
    obtain c2 where c2: "\<And>k. run_alone (terminate_reported r key k) (all_succeed, c) = run_alone k (all_succeed, c2)" "only {} c c2"
      using terminate_alone [OF rows] by blast
    have "view key c2 = view key c" "only {key} c c2" using only_view [OF c2(2)] only_trans [OF c2(2), of "{key}" c2] by auto
    then show ?thesis using ended v by (intro exI [of _ c2]) (simp add: reported_pod_def some c2(1) handled_def report_part_def)
  next
    case orphaned
    have shares: "shares_source key ?e = shares_source key c" by (rule only_shares [OF e(1)])
    obtain c2 where c2: "\<And>k. run_alone (recoverPodStatus key StatusOrphaned now k) (all_succeed, ?e) = run_alone k (all_succeed, c2)"
        "only {key} ?e c2" "view key c2 = (view key ?e)\<lparr>v_Status := StatusRunning\<rparr> \<or>
          shares_source key ?e \<and> view key c2 = view key ?e"
      using recover_alone [OF e(2,3) orphaned] by blast
    have "only {key} c c2" using only_trans [OF e(1) c2(2)] by simp
    moreover have "handled (shares_source key c) (view key c) (view key c2)"
      using c2(3) orphaned v shares by (auto simp: handled_def report_part_def)
    ultimately show ?thesis using orphaned v by (intro exI [of _ c2]) (simp add: reported_pod_def some c2(1))
  next
    case init
    let ?n = "snd (incrementInitReportCount key ?e)"
    let ?i = "fst (incrementInitReportCount key ?e)"
    let ?j = "clearInitReportCount key ?i"
    have n: "?n = v_Reports (view key c) + 1" by (simp add: increments_counted)
    have i: "only {key} ?e ?i" "only {key} ?e ?j" by (rule onlyI; simp)+
    have j: "pod_GetByKey key ?j = Some p" using e(3) by (simp add: same_pods(1) [of ?j ?e])
    obtain c2 where c2: "\<And>k. run_alone (recoverPodStatus key StatusInitializing now k) (all_succeed, ?j) = run_alone k (all_succeed, c2)"
        "only {key} ?j c2" "view key c2 = (view key ?j)\<lparr>v_Status := StatusRunning\<rparr>"
      using recover_alone [OF only_rows [OF i(2) e(2)] j init] by auto
    have "only {key} c c2" "only {key} c ?i" using only_trans [OF only_trans [OF e(1) i(2)] c2(2)] only_trans [OF e(1) i(1)] by simp_all
    then show ?thesis using init v n
      by (intro exI [of _ "if ?n \<ge> initRecoverThreshold then c2 else ?i"])
        (simp add: reported_pod_def some c2(1,3) handled_def report_part_def)
  next
    case other
    then show ?thesis using v e(1) by (intro exI [of _ ?e]) (simp add: reported_pod_def some handled_def report_part_def)
  qed
qed

lemma reported_loop:
  assumes "indexes_ok c" "distinct ks"
  shows "\<exists>c'. (\<forall>k. run_alone (reported_pods now r ks k) (all_succeed, c) = run_alone k (all_succeed, c')) \<and> only (set ks) c c' \<and>
    (\<forall>key p. key \<in> set ks \<longrightarrow> pod_GetByKey key c = Some p \<longrightarrow> pod_RunnerID p = r \<longrightarrow>
       handled (shares_source key c) (view key c) (view key c'))"
  using assms
proof (induction ks arbitrary: c)
  case (Cons key ks)
  obtain c1 where c1: "\<And>k. run_alone (reported_pod now r key k) (all_succeed, c) = run_alone k (all_succeed, c1)" "only {key} c c1"
      "\<And>p. pod_GetByKey key c = Some p \<Longrightarrow> pod_RunnerID p = r \<Longrightarrow>
        handled (shares_source key c) (view key c) (view key c1)"
    using reported_alone [OF Cons.prems(1)] by blast
  obtain c2 where c2: "\<And>k. run_alone (reported_pods now r ks k) (all_succeed, c1) = run_alone k (all_succeed, c2)" "only (set ks) c1 c2"
      "\<And>key p. key \<in> set ks \<Longrightarrow> pod_GetByKey key c1 = Some p \<Longrightarrow> pod_RunnerID p = r \<Longrightarrow>
        handled (shares_source key c1) (view key c1) (view key c2)"
    using Cons.IH [OF only_rows [OF c1(2) Cons.prems(1)]] Cons.prems(2) by auto
  have "only (set (key # ks)) c c2" using only_trans [OF c1(2) c2(2)] by simp
  moreover have "handled (shares_source k c) (view k c) (view k c2)"
    if "k \<in> set (key # ks)" "pod_GetByKey k c = Some p" "pod_RunnerID p = r" for k p
  proof (cases "k = key")
    case True
    then show ?thesis using that c1(3) only_view [OF c2(2), of key] Cons.prems(2) by auto
  next
    case False
    then have "pod_GetByKey k c1 = Some p" "view k c1 = view k c" using c1(2) that(2) by (auto simp: only_def)
    then show ?thesis using c2(3) [of k p] only_shares [OF c1(2), of k] that False by simp
  qed
  ultimately show ?case using c1(1) c2(1) by (intro exI [of _ c2]) simp
qed (auto intro: exI [of _ c])

section \<open>The second loop\<close>

definition miss_part :: "pod_view \<Rightarrow> pod_view" where
  "miss_part v =
     (if v_Misses v + 1 < orphanMissThreshold then v\<lparr>v_Misses := v_Misses v + 1\<rparr>
      else v\<lparr>v_Status := StatusOrphaned, v_Misses := 0, v_Routed := False\<rparr>)"

definition active_part :: "bool \<Rightarrow> pod_view \<Rightarrow> pod_view" where
  "active_part reported v = (if reported then v\<lparr>v_Misses := 0\<rparr> else miss_part v)"

lemma orphan_alone:
  assumes rows: "indexes_ok c" and row: "pod_GetByKey (pod_PodKey p) c = Some p'" "ident p' = ident p"
  shows "\<exists>c'. (\<forall>k. run_alone (db_write (MarkOrphaned p now) k) (all_succeed, c) = run_alone (k (DbOK ())) (all_succeed, c')) \<and>
    only {pod_PodKey p} c c' \<and> view (pod_PodKey p) c' = (view (pod_PodKey p) c)\<lparr>v_Status := StatusOrphaned\<rparr>"
proof -
  let ?w = "\<lambda>q. pod_ID q = pod_ID p" and ?u = "\<lambda>q. q\<lparr>pod_Status := StatusOrphaned, pod_FinishedAt := Some now\<rparr>"
  let ?c = "fst (update_pods ?w ?u c)"
  have ident: "ident (?u q) = ident q" for q by (simp add: ident_def)
  have f: "MarkOrphaned p now c = (?c, ())" by (simp add: MarkOrphaned_def)
  have p': "p' \<in> set (db_pods c)" "pod_ID p' = pod_ID p" using row key_unique [OF rows] by (auto simp: ident_def)
  have "inj_on pod_ID (set (db_pods c))" using rows by (simp add: indexes_ok_def pod_indexes_inj distinct_map)
  then have unique: "q = p'" if "q \<in> set (db_pods c)" "?w q" for q using that p' by (metis inj_onD)
  have index: "indexes_ok ?c"
    using rows ident by (intro update_pods_indexes) (auto simp: resumes_def ActiveStatuses_def pod_constants)
  have o1: "only {pod_PodKey p} c ?c"
    using unique row(2) ident index by (intro update_pods_only) (auto simp: ident_def)
  have "pod_GetByKey (pod_PodKey p) ?c = Some (?u p')" using row(1) p' by (simp add: update_pods_GetByKey [OF ident])
  then have "view (pod_PodKey p) ?c = (view (pod_PodKey p) c)\<lparr>v_Status := StatusOrphaned\<rparr>"
    by (simp add: view_def) (simp add: update_pods_def IsPodRegistered_def)
  moreover have "run_alone (db_write (MarkOrphaned p now) k) (all_succeed, c) = run_alone (k (DbOK ())) (all_succeed, ?c)" for k
    using alone_db_write [of "MarkOrphaned p now" c k] index by (simp add: f)
  ultimately show ?thesis using o1 by blast
qed

lemma missing_alone:
  assumes rows: "indexes_ok c" and row: "pod_GetByKey (pod_PodKey p) c = Some p'" "ident p' = ident p"
  shows "\<exists>c'. (\<forall>k. run_alone (missing_pod now r reported p k) (all_succeed, c) = run_alone k (all_succeed, c')) \<and>
    only {pod_PodKey p} c c' \<and> view (pod_PodKey p) c' = active_part (pod_PodKey p \<in> reported) (view (pod_PodKey p) c)"
proof (cases "pod_PodKey p \<in> reported")
  case True
  have "only {pod_PodKey p} c (clearMissCount (pod_PodKey p) c)" by (rule onlyI) simp_all
  then show ?thesis using True
    by (intro exI [of _ "clearMissCount (pod_PodKey p) c"]) (simp add: missing_pod_def active_part_def)
next
  case False
  let ?key = "pod_PodKey p"
  let ?c1 = "fst (incrementMissCount ?key r c)"
  let ?c2 = "clearMissCount ?key ?c1"
  have o: "only {?key} c ?c1" "only {?key} c ?c2" by (rule onlyI; simp)+
  have "pod_GetByKey ?key ?c2 = Some p'" using row(1) by (simp add: same_pods(1) [of ?c2 c])
  then obtain c3 where c3: "\<And>k. run_alone (db_write (MarkOrphaned p now) k) (all_succeed, ?c2) = run_alone (k (DbOK ())) (all_succeed, c3)"
      "only {?key} ?c2 c3" "view ?key c3 = (view ?key ?c2)\<lparr>v_Status := StatusOrphaned\<rparr>"
    using orphan_alone [OF only_rows [OF o(2) rows] _ row(2), of now] by blast
  let ?c4 = "onStatusChange ?key StatusOrphaned [] (UnregisterPod ?key c3)"
  have "only {?key} c3 ?c4" by (rule onlyI) simp_all
  then have "only {?key} c ?c4" using only_trans [OF only_trans [OF o(2) c3(2)], of "{?key}" ?c4] by simp
  then show ?thesis using False o(1)
    by (intro exI [of _ "if snd (incrementMissCount ?key r c) < orphanMissThreshold then ?c1 else ?c4"])
      (simp add: missing_pod_def c3(1,3) increments_counted active_part_def miss_part_def)
qed

lemma missing_loop:
  assumes "indexes_ok c" "distinct (map pod_PodKey ps)"
    and "\<And>p. p \<in> set ps \<Longrightarrow> \<exists>p'. pod_GetByKey (pod_PodKey p) c = Some p' \<and> ident p' = ident p"
  shows "\<exists>c'. (\<forall>k. run_alone (missing_pods now r reported ps k) (all_succeed, c) = run_alone k (all_succeed, c')) \<and>
    only (pod_PodKey ` set ps) c c' \<and>
    (\<forall>p \<in> set ps. view (pod_PodKey p) c' = active_part (pod_PodKey p \<in> reported) (view (pod_PodKey p) c))"
  using assms
proof (induction ps arbitrary: c)
  case (Cons p ps)
  obtain p' where p': "pod_GetByKey (pod_PodKey p) c = Some p'" "ident p' = ident p" using Cons.prems(3) [of p] by auto
  obtain c1 where c1: "\<And>k. run_alone (missing_pod now r reported p k) (all_succeed, c) = run_alone k (all_succeed, c1)"
      "only {pod_PodKey p} c c1" "view (pod_PodKey p) c1 = active_part (pod_PodKey p \<in> reported) (view (pod_PodKey p) c)"
    using missing_alone [OF Cons.prems(1) p'] by blast
  have other: "pod_PodKey q \<noteq> pod_PodKey p" if "q \<in> set ps" for q using Cons.prems(2) that by (auto simp: image_iff)
  have "\<exists>q'. pod_GetByKey (pod_PodKey q) c1 = Some q' \<and> ident q' = ident q" if "q \<in> set ps" for q
    using Cons.prems(3) [of q] other [OF that] c1(2) that by (simp add: only_def)
  then obtain c2 where c2: "\<And>k. run_alone (missing_pods now r reported ps k) (all_succeed, c1) = run_alone k (all_succeed, c2)"
      "only (pod_PodKey ` set ps) c1 c2"
      "\<And>q. q \<in> set ps \<Longrightarrow> view (pod_PodKey q) c2 = active_part (pod_PodKey q \<in> reported) (view (pod_PodKey q) c1)"
    using Cons.IH [OF only_rows [OF c1(2) Cons.prems(1)]] Cons.prems(2) by auto
  have "only (pod_PodKey ` set (p # ps)) c c2" using only_trans [OF c1(2) c2(2)] by simp
  moreover have "view (pod_PodKey q) c2 = active_part (pod_PodKey q \<in> reported) (view (pod_PodKey q) c)" if "q \<in> set (p # ps)" for q
  proof (cases "q \<in> set ps")
    case True
    then show ?thesis using c2(3) only_view [OF c1(2)] other by simp
  next
    case False
    then have "q = p" "pod_PodKey p \<notin> pod_PodKey ` set ps" using that Cons.prems(2) by auto
    then show ?thesis using c1(3) only_view [OF c2(2)] by simp
  qed
  ultimately show ?case using c1(1) c2(1) by (intro exI [of _ c2]) simp
qed (auto intro: exI [of _ c])

section \<open>A heartbeat\<close>

text \<open>What becomes of a pod of the runner: a blocked recovery leaves it orphaned, although its input is routed.\<close>

definition after_heartbeat :: "bool \<Rightarrow> bool \<Rightarrow> pod_view \<Rightarrow> pod_view \<Rightarrow> bool" where
  "after_heartbeat shared reported v v' \<longleftrightarrow> v' = heartbeat_spec reported v \<or>
     (shared \<and> reported \<and> v_Status v = StatusOrphaned \<and> v' = v\<lparr>v_Routed := True\<rparr>)"

abbreviation reorders :: "('a list \<Rightarrow> 'a list) \<Rightarrow> bool" where
  "reorders order \<equiv> \<forall>xs. mset (order xs) = mset xs"

lemma sync_alone:
  assumes "indexes_ok c"
  shows "\<exists>c'. (\<forall>k. run_alone (sync_agent_status ps k) (all_succeed, c) = run_alone k (all_succeed, c')) \<and>
    only (fst ` set ps) c c' \<and> (\<forall>k. view k c' = view k c)"
  using assms
proof (induction ps arbitrary: c)
  case (Cons x ps)
  obtain key s where x: "x = (key, s)" by fastforce
  let ?u = "\<lambda>p. p\<lparr>pod_AgentStatus := s\<rparr>"
  let ?c = "if s \<noteq> [] then fst (update_pods (\<lambda>p. pod_PodKey p = key) ?u c) else c"
  have ident: "ident (?u q) = ident q" for q by (simp add: ident_def)
  have index: "indexes_ok (fst (update_pods (\<lambda>p. pod_PodKey p = key) ?u c))"
    using Cons.prems ident by (intro update_pods_indexes) (auto simp: resumes_def)
  have o1: "only {key} c ?c" using update_pods_only [of ?u c "\<lambda>p. pod_PodKey p = key" "{key}"] ident index by simp
  have v: "view k ?c = view k c" for k
    by (auto simp: view_def update_pods_GetByKey [OF ident] split: option.splits) (simp_all add: update_pods_def IsPodRegistered_def)
  obtain c2 where c2: "\<And>k. run_alone (sync_agent_status ps k) (all_succeed, ?c) = run_alone k (all_succeed, c2)"
      "only (fst ` set ps) ?c c2" "\<And>k. view k c2 = view k ?c"
    using Cons.IH [OF only_rows [OF o1 Cons.prems]] by blast
  have "run_alone (sync_agent_status (x # ps) k) (all_succeed, c) = run_alone (sync_agent_status ps k) (all_succeed, ?c)" for k
  proof (cases "s = []")
    case False
    then have "fst (UpdateField key ?u c) = ?c" by (simp add: UpdateField_def)
    then show ?thesis using alone_db_write [of "UpdateField key ?u" c "\<lambda>_. sync_agent_status ps k"] index False
      by (simp add: x)
  qed (simp add: x)
  then show ?case using c2 only_trans [OF o1 c2(2)] v by (intro exI [of _ c2]) (simp add: x)
qed (auto intro: exI [of _ c])

lemma record_alone:
  "\<exists>c'. (\<forall>k. run_alone (RecordHeartbeat r n status version k) (all_succeed, c) = run_alone k (all_succeed, c')) \<and> only {} c c'"
proof -
  let ?c = "redis_set_status (co_clock c) r n status version c"
  let ?h = "\<lparr>hi_RunnerID = r, hi_CurrentPods = n, hi_Status = status, hi_Version = version, hi_Timestamp = co_clock c\<rparr>"
  have "only {} c (?c\<lparr>hbBuffer := AList.update r ?h (hbBuffer ?c)\<rparr>)"
    by (rule onlyI) (simp_all add: redis_set_status_def Let_def view_def pod_GetByKey_def IsPodRegistered_def)
  then show ?thesis by (intro exI [of _ "?c\<lparr>hbBuffer := AList.update r ?h (hbBuffer ?c)\<rparr>"]) (simp add: RecordHeartbeat_def)
qed

text \<open>The count is that of the last state: the statement that stores it does not change a pod.\<close>

lemma sync_count_alone:
  assumes rows: "indexes_ok c"
  shows "\<exists>c'. run_alone (syncPodCount r ks) (all_succeed, c) = (all_succeed, c') \<and> only {} c c' \<and>
    (\<forall>rn \<in> set (db_runners c'). rn_ID rn = r \<longrightarrow> rn_CurrentPods rn = CountActiveByKeys ks c')"
proof -
  let ?n = "CountActiveByKeys ks c"
  let ?c = "fst (SetPodCount r ?n c)"
  have o: "only {} c ?c"
    by (rule onlyI) (simp_all add: SetPodCount_def update_runners_def view_def pod_GetByKey_def IsPodRegistered_def)
  have "indexes_ok ?c" using o rows by (simp add: only_def)
  then have w: "run_alone (db_write (SetPodCount r ?n) (\<lambda>_. [])) (all_succeed, c) = (all_succeed, ?c)"
    using alone_db_write [of "SetPodCount r ?n" c "\<lambda>_. []"] by simp
  have "run_alone (syncPodCount r ks) (all_succeed, c) = run_alone (db_write (SetPodCount r ?n) (\<lambda>_. [])) (all_succeed, c)"
  proof (cases "ks = []")
    case True
    then have "?n = 0" by (simp add: CountActiveByKeys_def)
    then show ?thesis using True by (simp add: syncPodCount_def)
  qed (simp add: syncPodCount_def)
  then have "run_alone (syncPodCount r ks) (all_succeed, c) = (all_succeed, ?c)" unfolding w .
  moreover have "rn_CurrentPods rn = CountActiveByKeys ks ?c" if "rn \<in> set (db_runners ?c)" "rn_ID rn = r" for rn
  proof -
    have same: "CountActiveByKeys ks (fst (SetPodCount r n c)) = CountActiveByKeys ks c" for n
      by (simp add: CountActiveByKeys_def SetPodCount_def update_runners_def)
    define set_count where "set_count = (\<lambda>n (x :: runner_row). if rn_ID x = r then x\<lparr>rn_CurrentPods := n\<rparr> else x)"
    have "rn_ID (set_count n x) = r \<longrightarrow> rn_CurrentPods (set_count n x) = n" for n x by (simp add: set_count_def)
    moreover have "db_runners (fst (SetPodCount r n c)) = map (set_count n) (db_runners c)" for n
      by (simp add: SetPodCount_def update_runners_def set_count_def)
    ultimately have "\<forall>x \<in> set (db_runners (fst (SetPodCount r n c))). rn_ID x = r \<longrightarrow> rn_CurrentPods x = n" for n
      by simp
    then show ?thesis using that unfolding same by blast
  qed
  ultimately show ?thesis using o by blast
qed

text \<open>The two loops together are the machine.\<close>

lemma loops_spec:
  "heartbeat_spec reported v =
     (let v' = if reported then report_part v else v
      in if v_Status v' \<in> set ActiveStatuses then active_part reported v' else v')"
proof -
  have "StatusRunning \<in> set ActiveStatuses" "StatusInitializing \<in> set ActiveStatuses" "StatusCompleted \<notin> set ActiveStatuses"
    "StatusTerminated \<notin> set ActiveStatuses" "StatusOrphaned \<notin> set ActiveStatuses"
    by (simp_all add: ActiveStatuses_def pod_constants)
  then show ?thesis
    by (simp add: heartbeat_spec_def report_spec_def miss_spec_def report_part_def active_part_def miss_part_def Let_def)
qed

lemma reconcile_alone:
  assumes rows: "indexes_ok c" and ks: "distinct ks"
  shows "\<exists>c'. run_alone (reconcilePods r ks) (all_succeed, c) = (all_succeed, c') \<and> idents c' = idents c \<and> indexes_ok c' \<and>
    (\<forall>rn \<in> set (db_runners c'). rn_ID rn = r \<longrightarrow> rn_CurrentPods rn = CountActiveByKeys ks c') \<and>
    (\<forall>key p. pod_GetByKey key c = Some p \<longrightarrow>
       (pod_RunnerID p = r \<longrightarrow> after_heartbeat (shares_source key c) (key \<in> set ks) (view key c) (view key c')) \<and>
       (pod_RunnerID p \<noteq> r \<longrightarrow> key \<notin> set ks \<longrightarrow> pod_GetByKey key c' = Some p \<and> view key c' = view key c))"
proof -
  let ?now = "co_clock c"
  obtain c1 where c1: "\<And>k. run_alone (reported_pods ?now r ks k) (all_succeed, c) = run_alone k (all_succeed, c1)" "only (set ks) c c1"
      "\<And>key p. key \<in> set ks \<Longrightarrow> pod_GetByKey key c = Some p \<Longrightarrow> pod_RunnerID p = r \<Longrightarrow>
        handled (shares_source key c) (view key c) (view key c1)"
    using reported_loop [OF rows ks, of ?now r] by blast
  have rows1: "indexes_ok c1" by (rule only_rows [OF c1(2) rows])
  define ps where "ps = ListActiveByRunner r c1"
  have "distinct (map pod_PodKey ps)"
    using rows1 by (simp add: indexes_ok_def pod_indexes_def ps_def ListActiveByRunner_def distinct_map_filter)
  moreover have ps: "p \<in> set ps \<longleftrightarrow> pod_GetByKey (pod_PodKey p) c1 = Some p \<and> pod_RunnerID p = r \<and> pod_Status p \<in> set ActiveStatuses" for p
    by (auto simp: ps_def ListActiveByRunner_def key_unique [OF rows1])
  moreover have listed: "pod_RunnerID q = r \<and> pod_Status q \<in> set ActiveStatuses"
    if "pod_GetByKey k c1 = Some q" "k \<in> pod_PodKey ` set ps" for k q
  proof -
    from that(2) obtain x where "x \<in> set ps" "pod_PodKey x = k" by blast
    then show ?thesis using ps [of x] that(1) by simp
  qed
  ultimately obtain c2 where c2:
      "\<And>k. run_alone (missing_pods ?now r (set ks) ps k) (all_succeed, c1) = run_alone k (all_succeed, c2)"
      "only (pod_PodKey ` set ps) c1 c2"
      "\<And>p. p \<in> set ps \<Longrightarrow> view (pod_PodKey p) c2 = active_part (pod_PodKey p \<in> set ks) (view (pod_PodKey p) c1)"
    using missing_loop [OF rows1, of ps ?now r "set ks"] by blast
  obtain c3 where c3: "run_alone (syncPodCount r ks) (all_succeed, c2) = (all_succeed, c3)" "only {} c2 c3"
      "\<forall>rn \<in> set (db_runners c3). rn_ID rn = r \<longrightarrow> rn_CurrentPods rn = CountActiveByKeys ks c3"
    using sync_count_alone [OF only_rows [OF c2(2) rows1]] by blast
  have "run_alone (reconcilePods r ks) (all_succeed, c) = (all_succeed, c3)"
    by (simp add: reconcilePods_def reconcileMissingPods_def c1(1) c2(1) c3(1) ps_def [symmetric])
  moreover have "idents c3 = idents c" "indexes_ok c3" using c1(2) c2(2) c3(2) rows by (simp_all add: only_def)
  moreover have "after_heartbeat (shares_source key c) (key \<in> set ks) (view key c) (view key c3)"
    if p: "pod_GetByKey key c = Some p" "pod_RunnerID p = r" for key p
  proof -
    have v1: "if key \<in> set ks then handled (shares_source key c) (view key c) (view key c1) else view key c1 = view key c"
      using c1(3) [OF _ p] only_view [OF c1(2)] by simp
    obtain q where q: "pod_GetByKey key c1 = Some q" "ident q = ident p" using only_row [OF c1(2) rows p(1)] by blast
    have q': "pod_RunnerID q = r" "pod_PodKey q = key" "v_Status (view key c1) = pod_Status q"
      using q p key_unique [OF rows1, of key q] by (simp_all add: ident_def view_def)
    have "view key c2 = (if v_Status (view key c1) \<in> set ActiveStatuses then active_part (key \<in> set ks) (view key c1) else view key c1)"
    proof (cases "pod_Status q \<in> set ActiveStatuses")
      case True
      then show ?thesis using c2(3) [of q] ps [of q] q(1) q' by simp
    next
      case False
      have "key \<notin> pod_PodKey ` set ps" using listed [OF q(1)] False by blast
      then have "view key c2 = view key c1" by (rule only_view [OF c2(2)])
      then show ?thesis using False q'(3) by simp
    qed
    moreover have "view key c3 = view key c2" using only_view [OF c3(2), of key] by simp
    ultimately have v3: "view key c3 =
        (if v_Status (view key c1) \<in> set ActiveStatuses then active_part (key \<in> set ks) (view key c1) else view key c1)"
      by simp
    show ?thesis
    proof (cases "view key c1 = (if key \<in> set ks then report_part (view key c) else view key c)")
      case True
      then have "view key c3 = heartbeat_spec (key \<in> set ks) (view key c)" using v3 unfolding loops_spec Let_def by simp
      then show ?thesis by (simp add: after_heartbeat_def)
    next
      case False
      then have blocked: "key \<in> set ks" "shares_source key c" "v_Status (view key c) = StatusOrphaned"
        "view key c1 = (view key c)\<lparr>v_Routed := True\<rparr>" using v1 by (auto simp: handled_def split: if_splits)
      then have "view key c3 = (view key c)\<lparr>v_Routed := True\<rparr>" using v3 by (simp add: ActiveStatuses_def pod_constants)
      then show ?thesis using blocked by (simp add: after_heartbeat_def)
    qed
  qed
  moreover have "pod_GetByKey key c3 = Some p \<and> view key c3 = view key c"
    if p: "pod_GetByKey key c = Some p" "pod_RunnerID p \<noteq> r" "key \<notin> set ks" for key p
  proof -
    have "pod_GetByKey key c1 = Some p" "view key c1 = view key c" using c1(2) p by (simp_all add: only_def)
    moreover have "key \<notin> pod_PodKey ` set ps" using listed [OF calculation(1)] p(2) by blast
    ultimately show ?thesis using c2(2) c3(2) by (simp add: only_def)
  qed
  ultimately show ?thesis using c3(3) by blast
qed

lemma heartbeat_alone:
  assumes "indexes_ok c" "reorders order"
    and "run_alone (handleHeartbeat order r data) (all_succeed, c) = (as, c')"
  shows "idents c' = idents c \<and> indexes_ok c' \<and>
    (\<forall>key p. pod_GetByKey key c = Some p \<longrightarrow>
       (pod_RunnerID p = r \<longrightarrow>
          after_heartbeat (shares_source key c) (key \<in> fst ` set (hb_Pods data)) (view key c) (view key c')) \<and>
       (pod_RunnerID p \<noteq> r \<longrightarrow> key \<notin> fst ` set (hb_Pods data) \<longrightarrow> pod_GetByKey key c' = Some p \<and> view key c' = view key c)) \<and>
    (\<forall>rn \<in> set (db_runners c'). rn_ID rn = r \<longrightarrow>
       rn_CurrentPods rn = CountActiveByKeys (map fst (hb_Pods data)) c')"
proof -
  let ?ks = "order (remdups (map fst (hb_Pods data)))"
  have ks: "set ?ks = fst ` set (hb_Pods data)" "distinct ?ks"
    using assms(2) by (metis set_mset_mset set_remdups list.set_map, metis distinct_remdups mset_eq_imp_distinct_iff)
  let ?reconcile = "sync_agent_status (hb_Pods data) (reconcilePods r ?ks)"
  obtain c1 where c1: "\<And>k. run_alone (RecordHeartbeat r (int (length (hb_Pods data))) RunnerStatusOnline [] k) (all_succeed, c) =
      run_alone k (all_succeed, c1)" "only {} c c1" using record_alone by blast
  define c2 where "c2 = (case hb_RelayConnections data of None \<Rightarrow> c1 | Some conns \<Rightarrow> relayCache_Update r conns c1)"
  have "only {} c1 c2"
    by (rule onlyI) (simp_all add: c2_def relayCache_Update_def view_def pod_GetByKey_def IsPodRegistered_def split: option.split)
  then have o2: "only {} c c2" using only_trans [OF c1(2), of "{}" c2] by simp
  obtain c3 where c3: "\<And>k. run_alone (sync_agent_status (hb_Pods data) k) (all_succeed, c2) = run_alone k (all_succeed, c3)"
      "only (fst ` set (hb_Pods data)) c2 c3" "\<And>k. view k c3 = view k c2"
    using sync_alone [OF only_rows [OF o2 assms(1)]] by blast
  have o3: "only (fst ` set (hb_Pods data)) c c3" "\<And>k. view k c3 = view k c"
    using only_trans [OF o2 c3(2)] c3(3) only_view [OF o2] by simp_all
  have rows: "indexes_ok c3" by (rule only_rows [OF o3(1) assms(1)])
  have "run_alone (handleHeartbeat order r data) (all_succeed, c) = run_alone (reconcilePods r ?ks) (all_succeed, c3)"
    by (simp add: handleHeartbeat_def c1(1) c2_def c3(1) [symmetric] Let_def split: option.split)
  then have run: "run_alone (reconcilePods r ?ks) (all_succeed, c3) = (as, c')" using assms(3) by simp
  have count: "CountActiveByKeys ?ks c' = CountActiveByKeys (map fst (hb_Pods data)) c'"
    using ks(1) by (simp add: CountActiveByKeys_def)
  obtain c4 where c4: "run_alone (reconcilePods r ?ks) (all_succeed, c3) = (all_succeed, c4)"
      "idents c4 = idents c3 \<and> indexes_ok c4"
      "\<forall>rn \<in> set (db_runners c4). rn_ID rn = r \<longrightarrow> rn_CurrentPods rn = CountActiveByKeys ?ks c4"
      "\<And>key p. pod_GetByKey key c3 = Some p \<Longrightarrow> pod_RunnerID p = r \<Longrightarrow>
        after_heartbeat (shares_source key c3) (key \<in> set ?ks) (view key c3) (view key c4)"
      "\<And>key p. pod_GetByKey key c3 = Some p \<Longrightarrow> pod_RunnerID p \<noteq> r \<Longrightarrow> key \<notin> set ?ks \<Longrightarrow>
        pod_GetByKey key c4 = Some p \<and> view key c4 = view key c3"
    using reconcile_alone [OF rows ks(2), of r] by blast
  have same: "c4 = c'" using run c4(1) by simp
  have "after_heartbeat (shares_source key c) (key \<in> fst ` set (hb_Pods data)) (view key c) (view key c')"
    if p: "pod_GetByKey key c = Some p" "pod_RunnerID p = r" for key p
  proof -
    obtain q where "pod_GetByKey key c3 = Some q" "ident q = ident p" using only_row [OF o3(1) assms(1) p(1)] by blast
    then show ?thesis using c4(4) [of key q] p(2) o3(2) ks(1) same only_shares [OF o3(1), of key] by (simp add: ident_def)
  qed
  moreover have "pod_GetByKey key c' = Some p \<and> view key c' = view key c"
    if "pod_GetByKey key c = Some p" "pod_RunnerID p \<noteq> r" "key \<notin> fst ` set (hb_Pods data)" for key p
    using that c4(5) [of key p] o3 ks(1) same by (simp add: only_def)
  moreover have "idents c' = idents c \<and> indexes_ok c'" using c4(2) o3(1) same by (simp add: only_def)
  ultimately show ?thesis using c4(3) count same by simp
qed

lemma heartbeat_view:
  assumes "indexes_ok c" "reorders order" "run_alone (handleHeartbeat order r data) (all_succeed, c) = (as, c')"
    and "pod_GetByKey key c = Some p" "pod_RunnerID p = r" "\<not> shares_source key c"
  shows "view key c' = heartbeat_spec (key \<in> fst ` set (hb_Pods data)) (view key c)"
  using heartbeat_alone [OF assms(1-3)] assms(4-6) unfolding after_heartbeat_def by blast

text \<open>
  C9. A heartbeat is handled as the machine says, if no statement fails but for the indexes and nothing interleaves, in
  whatever order the reported pods are visited: every pod of the runner goes to the state \<open>heartbeat_spec\<close> gives for
  its being reported or not, with one exception: an orphaned pod that is reported stays orphaned, with its input routed,
  if the unique index blocks its recovery, and then another pod resumes the same pod. A pod of another runner that is
  not reported keeps its row and its counters; and the runner's count becomes the number of reported pods that are
  running or initializing after it. The indexes of the table hold before, as they do in every reachable state.
\<close>

theorem heartbeat_refines:
  assumes "indexes_ok c" "reorders order"
    and "run_alone (handleHeartbeat order r data) (all_succeed, c) = (as, c')"
  shows "idents c' = idents c \<and>
    (\<forall>key p. pod_GetByKey key c = Some p \<longrightarrow>
       (pod_RunnerID p = r \<longrightarrow>
          view key c' = heartbeat_spec (key \<in> fst ` set (hb_Pods data)) (view key c) \<or>
          (shares_source key c \<and> key \<in> fst ` set (hb_Pods data) \<and> v_Status (view key c) = StatusOrphaned \<and>
           view key c' = (view key c)\<lparr>v_Routed := True\<rparr>)) \<and>
       (pod_RunnerID p \<noteq> r \<longrightarrow> key \<notin> fst ` set (hb_Pods data) \<longrightarrow> pod_GetByKey key c' = Some p \<and> view key c' = view key c)) \<and>
    (\<forall>rn \<in> set (db_runners c'). rn_ID rn = r \<longrightarrow>
       rn_CurrentPods rn = CountActiveByKeys (map fst (hb_Pods data)) c')"
  using heartbeat_alone [OF assms] unfolding after_heartbeat_def by blast

section \<open>A sequence of heartbeats\<close>

text \<open>The heartbeats of a runner, one after the other, each with the time at which it is handled.\<close>

definition heartbeats ::
  "(string list \<Rightarrow> string list) \<Rightarrow> int \<Rightarrow> (int \<times> heartbeat_data) list \<Rightarrow> coordinator \<Rightarrow> coordinator" where
  "heartbeats order r hs c =
     foldl (\<lambda>c (t, data). snd (run_alone (handleHeartbeat order r data) (all_succeed, c\<lparr>co_clock := t\<rparr>))) c hs"

lemma heartbeats_spec:
  assumes "indexes_ok c" "reorders order" "pod_GetByKey key c = Some p" "pod_RunnerID p = r" "\<not> shares_source key c"
  shows "idents (heartbeats order r hs c) = idents c \<and> indexes_ok (heartbeats order r hs c) \<and>
    view key (heartbeats order r hs c) =
      foldl (\<lambda>v b. heartbeat_spec b v) (view key c) (map (\<lambda>(t, data). key \<in> fst ` set (hb_Pods data)) hs)"
proof (induction hs rule: rev_induct)
  case (snoc h hs)
  obtain t data where h: "h = (t, data)" by fastforce
  let ?c = "(heartbeats order r hs c)\<lparr>co_clock := t\<rparr>"
  have o: "only {} (heartbeats order r hs c) ?c"
    by (rule onlyI) (simp_all add: view_def pod_GetByKey_def IsPodRegistered_def)
  have ids: "idents ?c = idents c" "view key ?c = view key (heartbeats order r hs c)" and rows: "indexes_ok ?c"
    using snoc o by (simp_all add: only_def)
  have alone: "\<not> shares_source key ?c" using assms(5) ids(1) by (simp add: shares_source_idents)
  have "ident p \<in> set (idents ?c)" using assms(1,3) key_unique [of c key p] ids(1) by (force simp: idents_def)
  then obtain q where "q \<in> set (db_pods ?c)" "ident q = ident p" by (auto simp: idents_def)
  then have q: "pod_GetByKey key ?c = Some q" "pod_RunnerID q = r"
    using assms(1,3,4) key_unique [of c key p] key_unique [OF rows, of key q] by (simp_all add: ident_def)
  obtain as c' where run: "run_alone (handleHeartbeat order r data) (all_succeed, ?c) = (as, c')" by fastforce
  have "heartbeats order r (hs @ [h]) c = c'" using run by (simp add: heartbeats_def h)
  moreover have "view key c' = heartbeat_spec (key \<in> fst ` set (hb_Pods data)) (view key ?c)" "idents c' = idents ?c" "indexes_ok c'"
    using heartbeat_alone [OF rows assms(2) run] heartbeat_view [OF rows assms(2) run q alone] by blast+
  ultimately show ?case using ids snoc by (simp add: h)
qed (simp add: heartbeats_def assms(1))

text \<open>
  The machine of a pod that runs: the heartbeats since it was reported last decide, and the misses counted before if it
  was never reported.
\<close>

definition missed :: "int \<Rightarrow> bool list \<Rightarrow> int" where
  "missed n bs = int (length (takeWhile Not (rev bs))) + (if True \<in> set bs then 0 else n)"

lemma missed_snoc: "missed n (bs @ [b]) = (if b then 0 else missed n bs + 1)"
  by (simp add: missed_def)

lemma machine_running:
  assumes "v_Status v = StatusRunning" "v_Misses v = n" "0 \<le> n" "n < 3"
  shows "v_Status (foldl (\<lambda>v b. heartbeat_spec b v) v bs) = (if 3 \<le> missed n bs then StatusOrphaned else StatusRunning) \<and>
    v_Misses (foldl (\<lambda>v b. heartbeat_spec b v) v bs) = (if 3 \<le> missed n bs then 0 else missed n bs)"
proof (induction bs rule: rev_induct)
  case (snoc b bs)
  have active: "StatusRunning \<in> set ActiveStatuses" "StatusOrphaned \<notin> set ActiveStatuses"
    by (simp_all add: ActiveStatuses_def pod_constants)
  show ?case
  proof (cases "3 \<le> missed n bs")
    case True
    then show ?thesis using snoc active by (simp add: missed_snoc heartbeat_spec_def report_spec_def miss_spec_def)
  next
    case False
    then show ?thesis using snoc active
      by (simp add: missed_snoc heartbeat_spec_def report_spec_def miss_spec_def orphanMissThreshold_def)
  qed
qed (use assms in \<open>simp add: missed_def\<close>)

text \<open>
  C10. A pod that runs is orphaned by the heartbeats of its runner exactly if the last three or more of them have missed
  it: one report is enough to keep it running, and enough to bring it back. If none of the heartbeats reported it, the
  misses counted before the first of them (at most two) count as well. This is so for every sequence of heartbeats,
  whatever else they report and whenever they come, if each of them is handled to its end before anything else happens
  and no statement fails, and if no other pod resumes the same pod as this one does, so that no index blocks its
  recovery. The indexes of the table hold at first, as they do in every reachable state.
\<close>

theorem orphaned_iff_three_misses:
  assumes "indexes_ok c" "reorders order"
    and "pod_GetByKey key c = Some p" "pod_RunnerID p = r" "pod_Status p = StatusRunning" "\<not> shares_source key c"
    and "counted (podMissCount c) key \<in> {0..2}"
  shows "\<exists>q. pod_GetByKey key (heartbeats order r hs c) = Some q \<and>
    (pod_Status q = StatusOrphaned \<longleftrightarrow>
       3 \<le> int (length (takeWhile (\<lambda>(t, data). key \<notin> fst ` set (hb_Pods data)) (rev hs))) +
         (if \<exists>(t, data) \<in> set hs. key \<in> fst ` set (hb_Pods data) then 0 else counted (podMissCount c) key)) \<and>
    (pod_Status q \<noteq> StatusOrphaned \<longrightarrow> pod_Status q = StatusRunning)"
proof -
  let ?c = "heartbeats order r hs c" and ?bs = "map (\<lambda>(t, data). key \<in> fst ` set (hb_Pods data)) hs"
  let ?n = "counted (podMissCount c) key"
  have v: "v_Status (view key c) = StatusRunning" "v_Misses (view key c) = ?n" "0 \<le> ?n" "?n < 3"
    using assms(3,5,7) by (simp_all add: view_def)
  have hs: "idents ?c = idents c" "view key ?c = foldl (\<lambda>v b. heartbeat_spec b v) (view key c) ?bs" and rows: "indexes_ok ?c"
    using heartbeats_spec [OF assms(1-4,6)] by blast+
  have "ident p \<in> set (idents ?c)" using assms(1,3) key_unique [of c key p] hs(1) by (force simp: idents_def)
  then obtain q where "q \<in> set (db_pods ?c)" "ident q = ident p" by (auto simp: idents_def)
  then have q: "pod_GetByKey key ?c = Some q"
    using assms(1,3) key_unique [of c key p] key_unique [OF rows, of key q] by (simp add: ident_def)
  then have status: "pod_Status q = v_Status (view key ?c)" by (simp add: view_def)
  have "missed ?n ?bs = int (length (takeWhile (\<lambda>(t, data). key \<notin> fst ` set (hb_Pods data)) (rev hs))) +
      (if \<exists>(t, data) \<in> set hs. key \<in> fst ` set (hb_Pods data) then 0 else ?n)"
    by (auto simp: missed_def rev_map takeWhile_map comp_def case_prod_unfold)
  then show ?thesis using q status machine_running [OF v, of ?bs] hs(2) by auto
qed

end
