(* ===== verification/Pod_Creation.thy ===== *)
theory Pod_Creation
  imports Pod_Heartbeats
begin

text \<open>
  A request for a pod: what the caller of the orchestrator can rely on, whatever the statements and commands answer.
\<close>

section \<open>Results\<close>

text \<open>\<open>prog\<close>, run alone, gives its continuation the result \<open>x\<close>, and from then on the answers and the state of \<open>st'\<close>.\<close>

definition gives :: "(('x \<Rightarrow> co_go) \<Rightarrow> co_go) \<Rightarrow> (nat \<Rightarrow> answer) \<times> coordinator \<Rightarrow> 'x \<Rightarrow> (nat \<Rightarrow> answer) \<times> coordinator \<Rightarrow> bool" where
  "gives prog st x st' \<longleftrightarrow> (\<forall>q. run_alone (prog q) st = run_alone (q x) st')"

lemma givesI: "(\<And>q. run_alone (prog q) st = run_alone (q x) st') \<Longrightarrow> gives prog st x st'"
  by (simp add: gives_def)

text \<open>A statement that writes: an answer without an error means that it was executed.\<close>

lemma run_write:
  "\<exists>res c'. (\<forall>k. run_alone (db_write f k) (as, c) = run_alone (k res) (\<lambda>n. as (Suc n), c')) \<and>
     (res = DbOK (snd (f c)) \<and> c' = fst (f c) \<and> pod_indexes (db_pods c') \<or> res = DbErr \<and> (c' = c \<or> c' = fst (f c)))"
proof -
  let ?ok = "pod_indexes (db_pods (fst (f c)))"
  show ?thesis
    by (intro exI [of _ "if ?ok \<and> as 0 \<in> range Returns then DbOK (snd (f c)) else DbErr"]
        exI [of _ "if ?ok \<and> as 0 \<notin> range Fails then fst (f c) else c"], cases "as 0")
      (auto simp: db_write_def Let_def)
qed

lemma run_db_read:
  "run_alone (db_read f k) (as, c) = run_alone (k (if as 0 \<in> range Returns then DbOK (f c) else DbErr)) (\<lambda>n. as (Suc n), c)"
  by (cases "as 0") (auto simp: db_read_def)

lemma run_memory [simp]:
  "run_alone (in_memory f k) (as, c) = run_alone k (\<lambda>n. as (Suc n), f c)"
  "run_alone (read_memory g j) (as, c) = run_alone (j (g c)) (\<lambda>n. as (Suc n), c)"
  by (simp_all add: in_memory_def read_memory_def)

section \<open>The command\<close>

text \<open>What a command that was sent leaves behind.\<close>

definition dispatched :: "int \<Rightarrow> string \<Rightarrow> coordinator \<Rightarrow> coordinator \<Rightarrow> bool" where
  "dispatched r key c c' \<longleftrightarrow> db_pods c' = db_pods c \<and> sentCreates c' = sentCreates c @ [(r, key)] \<and>
     db_runners c' = db_runners (fst (IncrementPods r c)) \<and> key \<in> set (ackPending c')"

lemma runner_statements [simp]:
  "db_pods (fst (IncrementPods r c)) = db_pods c" "sentCreates (fst (IncrementPods r c)) = sentCreates c"
  "db_pods (fst (DecrementPods r c)) = db_pods c" "sentCreates (fst (DecrementPods r c)) = sentCreates c"
  by (simp_all add: IncrementPods_def DecrementPods_def update_runners_def)

lemma coordinator_CreatePod_gives:
  "\<exists>ok as' c'. gives (coordinator_CreatePod r key) (as, c) ok (as', c') \<and>
     (if ok then dispatched r key c c' else db_pods c' = db_pods c \<and> sentCreates c' = sentCreates c)"
proof -
  let ?c = "fst (IncrementPods r c)"
  let ?a = "ack_Register key ?c"
  let ?d = "ack_Remove key ?a"
  obtain res c1 where w: "\<And>k. run_alone (db_write (IncrementPods r) k) (as, c) = run_alone (k res) (\<lambda>n. as (Suc n), c1)"
      "res = DbOK () \<and> c1 = ?c \<or> res = DbErr \<and> (c1 = c \<or> c1 = ?c)"
    using run_write [of "IncrementPods r" as c] by auto
  then consider (err) "res = DbErr" "c1 = c \<or> c1 = ?c" | (sent) "res = DbOK ()" "c1 = ?c" "as 2 \<in> range Returns"
    | (lost) "res = DbOK ()" "c1 = ?c" "as 2 \<notin> range Returns" by blast
  then show ?thesis
  proof cases
    case err
    then show ?thesis
      by (intro exI [of _ False] exI [of _ "\<lambda>n. as (Suc n)"] exI [of _ c1]) (auto simp: gives_def coordinator_CreatePod_def w(1))
  next
    case sent
    have "dispatched r key c (?a\<lparr>sentCreates := sentCreates ?a @ [(r, key)]\<rparr>)"
      by (simp add: dispatched_def ack_Register_def)
    then show ?thesis using sent
      by (intro exI [of _ True] exI [of _ "\<lambda>n. as (Suc (Suc (Suc n)))"] exI [of _ "?a\<lparr>sentCreates := sentCreates ?a @ [(r, key)]\<rparr>"])
        (simp add: gives_def coordinator_CreatePod_def w(1) SendCreatePod_def numeral_2_eq_2)
  next
    case lost
    have same: "db_pods ?d = db_pods c" "sentCreates ?d = sentCreates c" by (simp_all add: ack_Register_def ack_Remove_def)
    obtain res c2 where c2: "\<And>k. run_alone (db_write (DecrementPods r) k) (\<lambda>n. as (Suc (Suc (Suc (Suc n)))), ?d) =
        run_alone (k res) (\<lambda>n. as (Suc (Suc (Suc (Suc (Suc n))))), c2)" "c2 = ?d \<or> c2 = fst (DecrementPods r ?d)"
      using run_write [of "DecrementPods r" "\<lambda>n. as (Suc (Suc (Suc (Suc n))))" ?d] by auto
    show ?thesis using lost c2(2) same
      by (intro exI [of _ False] exI [of _ "\<lambda>n. as (Suc (Suc (Suc (Suc (Suc n)))))"] exI [of _ c2])
        (auto simp: gives_def coordinator_CreatePod_def w(1) c2(1) SendCreatePod_def numeral_2_eq_2)
  qed
qed

section \<open>The row\<close>

definition refused :: "coordinator \<Rightarrow> coordinator \<Rightarrow> bool" where
  "refused c c' \<longleftrightarrow> sentCreates c' = sentCreates c \<and>
     (\<exists>new. db_pods c' = db_pods c @ new \<and> length new \<le> 1 \<and> (\<forall>p \<in> set new. pod_Status p \<in> {StatusInitializing, StatusError}))"

definition accepted :: "orchestrator_deps \<Rightarrow> pod_record \<Rightarrow> coordinator \<Rightarrow> coordinator \<Rightarrow> bool" where
  "accepted deps pod c c' \<longleftrightarrow> db_pods c' = db_pods c @ [pod] \<and> pod_indexes (db_pods c') \<and> pod_Status pod = StatusInitializing \<and>
     (has_coordinator deps \<longrightarrow> sentCreates c' = sentCreates c @ [(pod_RunnerID pod, pod_PodKey pod)] \<and>
        db_runners c' = db_runners (fst (IncrementPods (pod_RunnerID pod) c)) \<and> pod_PodKey pod \<in> set (ackPending c'))"

lemma MarkInitFailed_gives:
  assumes "db_pods c = old @ [p]" "pod_PodKey p = key" "key \<notin> pod_PodKey ` set old" "pod_Status p = StatusInitializing"
  shows "\<exists>as' c'. (\<forall>k. run_alone (MarkInitFailed key code msg k) (as, c) = run_alone k (as', c')) \<and>
    sentCreates c' = sentCreates c \<and> (\<exists>p'. db_pods c' = old @ [p'] \<and> pod_Status p' \<in> {StatusInitializing, StatusError})"
proof -
  let ?u = "failed_at (co_clock c) code msg" and ?w = "\<lambda>p. pod_PodKey p = key \<and> pod_Status p = StatusInitializing"
  let ?f = "UpdateByKeyAndStatusCounted key StatusInitializing ?u"
  have "map (\<lambda>p. if ?w p then ?u p else p) old = old" using assms(3) by (intro map_idI) auto
  then have f: "db_pods (fst (?f c)) = old @ [?u p]" "sentCreates (fst (?f c)) = sentCreates c"
    using assms by (simp_all add: UpdateByKeyAndStatusCounted_def update_pods_def)
  obtain res c' where c': "\<And>k. run_alone (db_write ?f k) (\<lambda>n. as (Suc n), c) = run_alone (k res) (\<lambda>n. as (Suc (Suc n)), c')"
      "c' = c \<or> c' = fst (?f c)"
    using run_write [of ?f "\<lambda>n. as (Suc n)" c] by auto
  have "pod_Status (?u p) = StatusError" by (simp add: failed_at_def)
  then show ?thesis using c' f assms
    by (intro exI [of _ "\<lambda>n. as (Suc (Suc n))"] exI [of _ c']) (auto simp: MarkInitFailed_def)
qed

lemma dispatch_gives:
  assumes row: "db_pods c = old @ [p]" "pod_PodKey p \<notin> pod_PodKey ` set old" "pod_Status p = StatusInitializing"
    and "pod_indexes (db_pods c)" "pod_RunnerID p = cr_RunnerID req" "db_pods c0 = old" "sentCreates c0 = sentCreates c"
      "db_runners c0 = db_runners c"
  shows "\<exists>res as' c'. gives (dispatch deps req p) (as, c) res (as', c') \<and>
    (case res of Inl e \<Rightarrow> refused c0 c' | Inr pod \<Rightarrow> pod = p \<and> accepted deps pod c0 c')"
proof (cases "as 0 \<in> range Returns \<and> has_coordinator deps")
  case False
  have "refused c0 c" "\<not> has_coordinator deps \<Longrightarrow> accepted deps p c0 c"
    using assms by (auto simp: refused_def accepted_def)
  then show ?thesis using False
    by (intro exI [of _ "if as 0 \<in> range Returns then Inr p else Inl ErrConfigBuildFailed"] exI [of _ "\<lambda>n. as (Suc n)"] exI [of _ c])
      (auto simp: gives_def dispatch_def)
next
  case True
  let ?as = "\<lambda>n. as (Suc n)"
  obtain ok as1 c1 where c1: "\<And>q. run_alone (coordinator_CreatePod (cr_RunnerID req) (pod_PodKey p) q) (?as, c) = run_alone (q ok) (as1, c1)"
      "if ok then dispatched (cr_RunnerID req) (pod_PodKey p) c c1 else db_pods c1 = db_pods c \<and> sentCreates c1 = sentCreates c"
    using coordinator_CreatePod_gives [of "cr_RunnerID req" "pod_PodKey p" ?as c] by (auto simp: gives_def)
  show ?thesis
  proof (cases ok)
    case ok: True
    have "db_runners (fst (IncrementPods r c0)) = db_runners (fst (IncrementPods r c))" for r
      using assms(8) by (simp add: IncrementPods_def update_runners_def)
    then have "accepted deps p c0 c1" using ok c1(2) assms by (simp add: accepted_def dispatched_def)
    then show ?thesis using True c1(1) ok
      by (intro exI [of _ "Inr p"] exI [of _ as1] exI [of _ c1]) (simp add: gives_def dispatch_def)
  next
    case lost: False
    have "db_pods c1 = old @ [p]" using lost c1(2) row(1) by simp
    from MarkInitFailed_gives [OF this refl row(2,3), of "''RUNNER_UNREACHABLE''" "''Failed to dispatch pod to runner''" as1]
    obtain as2 c2 p' where c2: "\<And>k. run_alone (MarkInitFailed (pod_PodKey p) ''RUNNER_UNREACHABLE'' ''Failed to dispatch pod to runner'' k) (as1, c1) =
        run_alone k (as2, c2)" "sentCreates c2 = sentCreates c1" "db_pods c2 = old @ [p']" "pod_Status p' \<in> {StatusInitializing, StatusError}"
      by blast
    have "refused c0 c2" using lost c1(2) c2(2-4) assms(6,7) by (simp add: refused_def)
    then show ?thesis using True c1(1) lost c2(1)
      by (intro exI [of _ "Inl ErrRunnerDispatchFailed"] exI [of _ as2] exI [of _ c2]) (simp add: gives_def dispatch_def)
  qed
qed

lemma service_CreatePod_gives:
  "\<exists>res as' c'. gives (service_CreatePod si req session) (as, c) res (as', c') \<and> sentCreates c' = sentCreates c \<and>
     db_runners c' = db_runners c \<and>
     (case res of
        Inl e \<Rightarrow> refused c c'
      | Inr p \<Rightarrow> (\<exists>key. p = (new_pod req key session)\<lparr>pod_ID := next_pod_ID c\<rparr> \<and> db_pods c' = db_pods c @ [p] \<and>
          pod_indexes (db_pods c') \<and> key \<notin> pod_PodKey ` set (db_pods c)))"
proof (cases "as 0")
  case (Returns rnd)
  let ?key = "pod_key si req rnd"
  let ?p = "(new_pod req ?key session)\<lparr>pod_ID := next_pod_ID c\<rparr>"
  let ?c = "fst (pod_Create ?p c)"
  have p: "pod_PodKey ?p = ?key" "pod_Status ?p = StatusInitializing" by (simp_all add: new_pod_def)
  have c: "db_pods ?c = db_pods c @ [?p]" "sentCreates ?c = sentCreates c" "db_runners ?c = db_runners c"
    by (simp_all add: pod_Create_def)
  have same: "refused c c" "refused c ?c" using p c by (simp_all add: refused_def)
  consider (taken) "?key \<in> pod_PodKey ` set (db_pods c)"
    | (index) "?key \<notin> pod_PodKey ` set (db_pods c)" "\<not> pod_indexes (db_pods ?c)"
    | (insert) "?key \<notin> pod_PodKey ` set (db_pods c)" "pod_indexes (db_pods ?c)" by blast
  then show ?thesis
  proof cases
    case taken
    then show ?thesis using same Returns p
      by (intro exI [of _ "Inl PodDbError"] exI [of _ "\<lambda>n. as (Suc (Suc n))"] exI [of _ c])
        (simp add: gives_def service_CreatePod_def Let_def)
  next
    case index
    then show ?thesis using same Returns p
      by (intro exI [of _ "Inl ErrSandboxAlreadyResumed"] exI [of _ "\<lambda>n. as (Suc (Suc n))"] exI [of _ c])
        (simp add: gives_def service_CreatePod_def Let_def)
  next
    case insert
    let ?res = "case as 1 of Returns _ \<Rightarrow> Inr ?p | _ \<Rightarrow> Inl PodDbError"
    let ?c' = "case as 1 of Fails _ \<Rightarrow> c | _ \<Rightarrow> ?c"
    have "gives (service_CreatePod si req session) (as, c) ?res (\<lambda>n. as (Suc (Suc n)), ?c')"
      using insert Returns p by (simp add: gives_def service_CreatePod_def Let_def split: answer.split)
    then show ?thesis using insert same p c
      by (intro exI [of _ ?res] exI [of _ "\<lambda>n. as (Suc (Suc n))"] exI [of _ ?c'])
        (auto split: answer.split intro!: exI [of _ ?key])
  qed
qed (rule exI [of _ "Inl PodDbError"], rule exI [of _ "\<lambda>n. as (Suc n)"], rule exI [of _ c],
  simp add: gives_def service_CreatePod_def refused_def)+

lemma create_in_mode_gives:
  "\<exists>res as' c'. gives (create_in_mode deps req session) (as, c) res (as', c') \<and>
     (case res of Inl e \<Rightarrow> refused c c'
      | Inr pod \<Rightarrow> accepted deps pod c c' \<and> pod_RunnerID pod = cr_RunnerID req \<and>
          pod_SourcePodKey pod = (if cr_SourcePodKey req \<noteq> [] then Some (cr_SourcePodKey req) else None))"
proof (cases "checkQuota deps (cr_OrganizationID req)")
  case False
  then show ?thesis
    by (intro exI [of _ "Inl ErrQuota"] exI [of _ as] exI [of _ c]) (simp add: gives_def create_in_mode_def refused_def)
next
  case True
  let ?req = "resolve_ticket deps req"
  have req: "cr_RunnerID ?req = cr_RunnerID req" "cr_SourcePodKey ?req = cr_SourcePodKey req"
    by (simp_all add: resolve_ticket_def split: option.split)
  obtain res as1 c1 where c1: "\<And>q. run_alone (service_CreatePod (showInt deps) ?req session q) (as, c) = run_alone (q res) (as1, c1)"
      "sentCreates c1 = sentCreates c" "db_runners c1 = db_runners c"
      "case res of Inl e \<Rightarrow> refused c c1
        | Inr p \<Rightarrow> (\<exists>key. p = (new_pod ?req key session)\<lparr>pod_ID := next_pod_ID c\<rparr> \<and> db_pods c1 = db_pods c @ [p] \<and>
            pod_indexes (db_pods c1) \<and> key \<notin> pod_PodKey ` set (db_pods c))"
    using service_CreatePod_gives [of "showInt deps" ?req session as c] unfolding gives_def by blast
  show ?thesis
  proof (cases res)
    case (Inl e)
    then show ?thesis using True c1
      by (intro exI [of _ "Inl e"] exI [of _ as1] exI [of _ c1]) (simp add: gives_def create_in_mode_def Let_def)
  next
    case (Inr p)
    then obtain key where p: "p = (new_pod ?req key session)\<lparr>pod_ID := next_pod_ID c\<rparr>" "db_pods c1 = db_pods c @ [p]"
        "pod_indexes (db_pods c1)" "key \<notin> pod_PodKey ` set (db_pods c)" using c1(4) by auto
    have row: "pod_PodKey p = key" "pod_Status p = StatusInitializing" "pod_RunnerID p = cr_RunnerID ?req"
      "pod_SourcePodKey p = (if cr_SourcePodKey req \<noteq> [] then Some (cr_SourcePodKey req) else None)"
      using p(1) req by (simp_all add: new_pod_def)
    obtain res2 as2 c2 where c2: "\<And>q. run_alone (dispatch deps ?req p q) (as1, c1) = run_alone (q res2) (as2, c2)"
        "case res2 of Inl e \<Rightarrow> refused c c2 | Inr pod \<Rightarrow> pod = p \<and> accepted deps pod c c2"
      using dispatch_gives [of c1 "db_pods c" p ?req c deps as1] p row c1(2,3) unfolding gives_def by auto
    then show ?thesis using True Inr c1(1) row req
      by (intro exI [of _ res2] exI [of _ as2] exI [of _ c2])
        (auto simp: gives_def create_in_mode_def Let_def split: sum.splits)
  qed
qed

section \<open>Resumption\<close>

definition may_resume :: "create_request \<Rightarrow> pod_record \<Rightarrow> coordinator \<Rightarrow> bool" where
  "may_resume req src c \<longleftrightarrow> pod_GetByKey (cr_SourcePodKey req) c = Some src \<and>
     pod_OrganizationID src = cr_OrganizationID req \<and> pod_Status src \<in> {StatusTerminated, StatusCompleted, StatusOrphaned} \<and>
     (cr_RunnerID req = 0 \<or> cr_RunnerID req = pod_RunnerID src)"

lemma handleResumeMode_gives:
  "\<exists>res as'. gives (handleResumeMode req) (as, c) res (as', c) \<and>
     (case res of Inl e \<Rightarrow> True
      | Inr (req', session) \<Rightarrow> \<exists>src. may_resume req src c \<and> cr_RunnerID req' = pod_RunnerID src \<and>
          cr_SourcePodKey req' = cr_SourcePodKey req)"
proof (cases "as 0 \<in> range Returns \<and> pod_GetByKey (cr_SourcePodKey req) c \<noteq> None")
  case False
  then show ?thesis
    by (intro exI [of _ "Inl ErrSourcePodNotFound"] exI [of _ "\<lambda>n. as (Suc n)"])
      (auto simp: gives_def handleResumeMode_def run_db_read)
next
  case True
  then obtain src where src: "as 0 \<in> range Returns" "pod_GetByKey (cr_SourcePodKey req) c = Some src" by blast
  define resumed where "resumed \<longleftrightarrow> as 1 \<in> range Returns \<and> GetActivePodBySourcePodKey (cr_SourcePodKey req) c \<noteq> None"
  define ended where "ended \<longleftrightarrow> pod_Status src \<in> {StatusTerminated, StatusCompleted, StatusOrphaned}"
  consider (org) "pod_OrganizationID src \<noteq> cr_OrganizationID req"
    | (status) "pod_OrganizationID src = cr_OrganizationID req" "\<not> ended"
    | (resumed) "pod_OrganizationID src = cr_OrganizationID req" ended resumed
    | (runner) "pod_OrganizationID src = cr_OrganizationID req" ended "\<not> resumed"
        "cr_RunnerID req \<noteq> 0 \<and> pod_RunnerID src \<noteq> cr_RunnerID req"
    | (ok) "may_resume req src c" "\<not> resumed"
    using src(2) unfolding may_resume_def ended_def [symmetric] by metis
  then show ?thesis
  proof cases
    case org
    then show ?thesis using src
      by (intro exI [of _ "Inl ErrSourcePodAccessDenied"] exI [of _ "\<lambda>n. as (Suc n)"])
        (simp add: gives_def handleResumeMode_def run_db_read)
  next
    case status
    then show ?thesis using src unfolding ended_def
      by (intro exI [of _ "Inl ErrSourcePodNotTerminated"] exI [of _ "\<lambda>n. as (Suc n)"])
        (simp add: gives_def handleResumeMode_def run_db_read)
  next
    case resumed
    then show ?thesis using src unfolding ended_def resumed_def
      by (intro exI [of _ "Inl ErrSourcePodAlreadyResumed"] exI [of _ "\<lambda>n. as (Suc (Suc n))"])
        (auto simp: gives_def handleResumeMode_def run_db_read)
  next
    case runner
    then show ?thesis using src unfolding ended_def resumed_def
      by (intro exI [of _ "Inl ErrResumeRunnerMismatch"] exI [of _ "\<lambda>n. as (Suc (Suc n))"])
        (auto simp: gives_def handleResumeMode_def run_db_read split: option.split)
  next
    case ok
    let ?uuid = "case as 2 of Returns u \<Rightarrow> u | Fails u \<Rightarrow> u | Panics u \<Rightarrow> u"
    let ?session = "case pod_SessionID src of Some (s # ss) \<Rightarrow> s # ss | _ \<Rightarrow> ?uuid"
    let ?as = "case pod_SessionID src of Some (s # ss) \<Rightarrow> \<lambda>n. as (Suc (Suc n)) | _ \<Rightarrow> \<lambda>n. as (Suc (Suc (Suc n)))"
    have "gives (handleResumeMode req) (as, c) (Inr (inherit src ?session req, ?session)) (?as, c)"
      using ok src unfolding may_resume_def resumed_def
      by (auto simp: gives_def handleResumeMode_def run_db_read numeral_2_eq_2 split: option.split list.split)
    moreover have "cr_RunnerID (inherit src ?session req) = pod_RunnerID src"
      "cr_SourcePodKey (inherit src ?session req) = cr_SourcePodKey req"
      using ok(1) by (auto simp: inherit_def may_resume_def)
    ultimately show ?thesis using ok(1)
      by (intro exI [of _ "Inr (inherit src ?session req, ?session)"] exI [of _ ?as]) auto
  qed
qed

text \<open>The index on the resumed pod decides between two requests, and not the look at the table before.\<close>

lemma sole_resumption:
  assumes "pod_indexes (ps @ [p])" "pod_SourcePodKey p = Some k" "pod_Status p = StatusInitializing" "q \<in> set ps" "pod_SourcePodKey q = Some k"
  shows "pod_Status q \<notin> set ActiveStatuses"
proof
  assume "pod_Status q \<in> set ActiveStatuses"
  then have "q \<in> set (filter resumes ps)" using assms(4,5) by (simp add: resumes_def)
  then have "Some k \<in> pod_SourcePodKey ` set (filter resumes ps)" using assms(5) by (metis imageI)
  moreover have "resumes p" using assms(2,3) by (simp add: resumes_def ActiveStatuses_def)
  ultimately show False using assms(1,2) by (simp add: pod_indexes_def)
qed

section \<open>A request\<close>

text \<open>
  C11. A request for a pod ends in one of two ways, whatever the statements, the services and the runner answer. Either
  it gets a pod: then its row is the only one that was added, it is starting, exactly one command was sent, to the
  runner of the row, which counts one pod more; and a pod that is resumed was found in the same organisation and on
  the same runner, had ended, and no other active pod resumes it. Or it gets an error: then no command was sent, and
  at most one row was added, which has failed or is still starting.
\<close>

theorem creation_all_or_nothing:
  "\<exists>res as' c'. (\<forall>q. run_alone (orchestrator_CreatePod deps req q) (as, c) = run_alone (q res) (as', c')) \<and>
    (case res of
       Inl e \<Rightarrow> sentCreates c' = sentCreates c \<and> (\<exists>new. db_pods c' = db_pods c @ new \<and> length new \<le> 1 \<and>
         (\<forall>p \<in> set new. pod_Status p \<in> {StatusInitializing, StatusError}))
     | Inr pod \<Rightarrow>
         db_pods c' = db_pods c @ [pod] \<and> pod_Status pod = StatusInitializing \<and>
         (has_coordinator deps \<longrightarrow> sentCreates c' = sentCreates c @ [(pod_RunnerID pod, pod_PodKey pod)] \<and>
           db_runners c' = db_runners (fst (IncrementPods (pod_RunnerID pod) c)) \<and> pod_PodKey pod \<in> set (ackPending c')) \<and>
         (cr_SourcePodKey req \<noteq> [] \<longrightarrow> pod_SourcePodKey pod = Some (cr_SourcePodKey req) \<and>
           (\<exists>src. may_resume req src c \<and> pod_RunnerID src = pod_RunnerID pod) \<and>
           (\<forall>p \<in> set (db_pods c). pod_SourcePodKey p = Some (cr_SourcePodKey req) \<longrightarrow> pod_Status p \<notin> set ActiveStatuses)))"
proof (cases "cr_SourcePodKey req = []")
  case True
  note normal = this
  show ?thesis
  proof (cases "normal_mode deps req")
    case (Inl e)
    then show ?thesis using normal
      by (intro exI [of _ "Inl e"] exI [of _ as] exI [of _ c]) (simp add: orchestrator_CreatePod_def)
  next
    case (Inr req')
    define uuid where "uuid = (case as 0 of Returns u \<Rightarrow> u | Fails u \<Rightarrow> u | Panics u \<Rightarrow> u)"
    define req2 where "req2 = req'\<lparr>cr_ConfigOverrides := AList.update ''session_id'' uuid (cr_ConfigOverrides req')\<rparr>"
    obtain res as1 c1 where c1: "\<And>q. run_alone (create_in_mode deps req2 uuid q) (\<lambda>n. as (Suc n), c) = run_alone (q res) (as1, c1)"
        "case res of Inl e \<Rightarrow> refused c c1 | Inr pod \<Rightarrow> accepted deps pod c c1 \<and> pod_RunnerID pod = cr_RunnerID req2 \<and>
          pod_SourcePodKey pod = (if cr_SourcePodKey req2 \<noteq> [] then Some (cr_SourcePodKey req2) else None)"
      using create_in_mode_gives [of deps req2 uuid "\<lambda>n. as (Suc n)" c] unfolding gives_def by blast
    have "run_alone (orchestrator_CreatePod deps req q) (as, c) = run_alone (q res) (as1, c1)" for q
      using normal Inr c1(1) by (simp add: orchestrator_CreatePod_def uuid_def req2_def)
    then show ?thesis using normal c1(2)
      by (intro exI [of _ res] exI [of _ as1] exI [of _ c1]) (auto simp: refused_def accepted_def split: sum.splits)
  qed
next
  case resume: False
  obtain res as1 where h: "\<And>q. run_alone (handleResumeMode req q) (as, c) = run_alone (q res) (as1, c)"
      "case res of Inl e \<Rightarrow> True | Inr (req', session) \<Rightarrow> \<exists>src. may_resume req src c \<and> cr_RunnerID req' = pod_RunnerID src \<and>
          cr_SourcePodKey req' = cr_SourcePodKey req"
    using handleResumeMode_gives [of req as c] unfolding gives_def by blast
  show ?thesis
  proof (cases res)
    case (Inl e)
    then show ?thesis using resume h(1)
      by (intro exI [of _ "Inl e"] exI [of _ as1] exI [of _ c]) (simp add: orchestrator_CreatePod_def)
  next
    case (Inr x)
    obtain req' session where x: "x = (req', session)" by fastforce
    then obtain src where src: "may_resume req src c" "cr_RunnerID req' = pod_RunnerID src" "cr_SourcePodKey req' = cr_SourcePodKey req"
      using h(2) Inr by auto
    obtain res2 as2 c2 where c2: "\<And>q. run_alone (create_in_mode deps req' session q) (as1, c) = run_alone (q res2) (as2, c2)"
        "case res2 of Inl e \<Rightarrow> refused c c2 | Inr pod \<Rightarrow> accepted deps pod c c2 \<and> pod_RunnerID pod = cr_RunnerID req' \<and>
          pod_SourcePodKey pod = (if cr_SourcePodKey req' \<noteq> [] then Some (cr_SourcePodKey req') else None)"
      using create_in_mode_gives [of deps req' session as1 c] unfolding gives_def by blast
    have run: "run_alone (orchestrator_CreatePod deps req q) (as, c) = run_alone (q res2) (as2, c2)" for q
      using resume Inr x by (simp add: orchestrator_CreatePod_def h(1) c2(1))
    show ?thesis
    proof (cases res2)
      case (Inl e)
      then show ?thesis using run c2(2) by (intro exI [of _ res2] exI [of _ as2] exI [of _ c2]) (simp add: refused_def)
    next
      case (Inr pod)
      then have pod: "accepted deps pod c c2" "pod_RunnerID pod = pod_RunnerID src" "pod_SourcePodKey pod = Some (cr_SourcePodKey req)"
        using c2(2) src(2,3) resume by simp_all
      have "pod_Status p \<notin> set ActiveStatuses" if "p \<in> set (db_pods c)" "pod_SourcePodKey p = Some (cr_SourcePodKey req)" for p
      proof -
        have "pod_indexes (db_pods c @ [pod])" "pod_Status pod = StatusInitializing" using pod(1) unfolding accepted_def by metis+
        then show ?thesis using sole_resumption [OF _ pod(3)] that by blast
      qed
      then show ?thesis using run Inr pod src(1)
        by (intro exI [of _ res2] exI [of _ as2] exI [of _ c2]) (auto simp: accepted_def)
    qed
  qed
qed

end
