(* ===== verification/Pod_Examples.thy ===== *)
theory Pod_Examples
  imports Pod_Creation
begin

text \<open>
  A runner with a pod: examples of the properties of the coordinator, and the behaviours in which the code differs from
  its comments or from what it means to do.
\<close>

section \<open>A runner with a pod\<close>

definition sample_pod :: "string \<Rightarrow> pod_record" where
  "sample_pod status =
     \<lparr>pod_PodKey = ''p'', pod_Status = status, pod_FinishedAt = None, pod_AgentStatus = AgentStatusIdle,
      pod_AgentWaitingSince = None, pod_ID = 1, pod_OrganizationID = 1, pod_RunnerID = 7, pod_AgentTypeID = Some 1,
      pod_CustomAgentTypeID = None, pod_RepositoryID = None, pod_TicketID = None, pod_CreatedByID = 5,
      pod_PtyPID = None, pod_StartedAt = None, pod_LastActivity = None, pod_BranchName = None, pod_SandboxPath = None,
      pod_ErrorCode = None, pod_ErrorMessage = None, pod_SessionID = Some ''s'', pod_SourcePodKey = None\<rparr>"

definition sample_co :: "string \<Rightarrow> coordinator" where
  "sample_co status =
     \<lparr>db_pods = [sample_pod status], db_runners = [\<lparr>rn_ID = 7, rn_Status = RunnerStatusOnline, rn_LastHeartbeat = None, rn_CurrentPods = 2\<rparr>],
      podMissCount = [], podMissOwner = [], initReportCount = [], terminateSentCache = [], ackPending = [], podRunnerMap = [],
      ptySize = [], relayCache = [], hbBuffer = [], hbRedis = [], co_clock = 100, sentTerminates = [], sentCreates = [],
      statusChanges = [], initProgress = [], podEvents = []\<rparr>"

definition sample_heartbeat :: "string list \<Rightarrow> heartbeat_data" where
  "sample_heartbeat ks = \<lparr>hb_Pods = map (\<lambda>k. (k, [])) ks, hb_RelayConnections = None\<rparr>"

lemmas sample_pods = sample_co_def sample_pod_def sample_heartbeat_def

lemma sample_indexes [simp]: "pod_indexes [p]"
  by (simp add: pod_indexes_def)

lemma sample_rows: "indexes_ok (sample_co s)"
  by (simp add: indexes_ok_def sample_co_def)

lemma sample_GetByKey: "pod_GetByKey ''p'' (sample_co s) = Some (sample_pod s)"
  by (simp add: pod_GetByKey_def sample_pods)

lemma sample_alone: "\<not> shares_source ''p'' (sample_co s)"
  by (simp add: shares_source_def sample_pods)

theorem pods_well_formed_witness:
  "co_initial (sample_co StatusRunning) \<and> co_steps (sample_co StatusRunning, []) (sample_co StatusRunning, []) \<and>
   distinct (map pod_PodKey (db_pods (sample_co StatusRunning)))"
proof -
  have "co_initial (sample_co StatusRunning)"
    by (simp add: co_initial_def sample_pods pod_indexes_def pod_ok_def pod_statuses_def IsPodStatusFinished_def
        IsPodStatusTerminal_def pod_constants)
  then show ?thesis using pods_well_formed [of "sample_co StatusRunning" "sample_co StatusRunning" "[]"] by simp
qed

text \<open>A heartbeat that does not report the pod.\<close>

theorem heartbeat_refines_witness:
  "view ''p'' (snd (run_alone (handleHeartbeat id 7 (sample_heartbeat [])) (all_succeed, sample_co StatusRunning))) =
     \<lparr>v_Status = StatusRunning, v_Misses = 1, v_Reports = 0, v_Routed = False\<rparr>"
proof -
  let ?c = "sample_co StatusRunning"
  obtain as c' where run: "run_alone (handleHeartbeat id 7 (sample_heartbeat [])) (all_succeed, ?c) = (as, c')" by fastforce
  have "view ''p'' c' = heartbeat_spec False (view ''p'' ?c)"
    using heartbeat_refines [OF sample_rows _ run] sample_GetByKey [of StatusRunning] by (auto simp: sample_pods)
  moreover have "view ''p'' ?c = \<lparr>v_Status = StatusRunning, v_Misses = 0, v_Reports = 0, v_Routed = False\<rparr>"
    by (simp add: view_def sample_GetByKey) (simp add: sample_pods counted_def IsPodRegistered_def)
  ultimately show ?thesis using run by (simp add: heartbeat_spec_def miss_spec_def orphanMissThreshold_def ActiveStatuses_def)
qed

theorem orphaned_iff_three_misses_witness:
  "map_option pod_Status (pod_GetByKey ''p'' (heartbeats id 7
     [(1, sample_heartbeat [''p'']), (2, sample_heartbeat []), (3, sample_heartbeat []), (4, sample_heartbeat [])]
     (sample_co StatusRunning))) = Some StatusOrphaned"
proof -
  let ?hs = "[(1, sample_heartbeat [''p'']), (2, sample_heartbeat []), (3, sample_heartbeat []), (4, sample_heartbeat [])]"
  have "pod_RunnerID (sample_pod StatusRunning) = 7" "pod_Status (sample_pod StatusRunning) = StatusRunning"
    "\<not> shares_source ''p'' (sample_co StatusRunning)" "counted (podMissCount (sample_co StatusRunning)) ''p'' \<in> {0..2}"
    by (simp_all add: sample_pods shares_source_def counted_def)
  from orphaned_iff_three_misses [OF sample_rows _ sample_GetByKey this, of id ?hs]
  show ?thesis by (auto simp: sample_heartbeat_def)
qed

lemmas pod_operations =
  update_pods_def UpdateByKey_def UpdateByKeyAndStatusCounted_def UpdateByKeyAndStatus_def UpdateField_def
  UpdateTerminatedWithFallbackError_def fallback_code_def pod_GetByKey_def GetByKeyAndRunner_def ListActiveByRunner_def
  ListInitializingByRunner_def MarkOrphaned_def CountActiveByKeys_def update_runners_def runner_UpdateFields_def
  IncrementPods_def DecrementPods_def SetPodCount_def incrementMissCount_def clearMissCount_def
  incrementInitReportCount_def clearInitReportCount_def isTerminateCooldown_def recordTerminateSent_def
  ack_Register_def ack_Resolve_def ack_Remove_def onStatusChange_def SendTerminatePod_def RegisterPod_def
  RegisterPodWithSize_def EnsurePodRegistered_def UnregisterPod_def redis_set_status_def
  created_def completed_at_def exited_def failed_at_def recovered_row_def

lemma db_write_single [simp]:
  "length (db_pods (fst (f c))) = Suc 0 \<Longrightarrow> run_alone (db_write f k) (all_succeed, c) = run_alone (k (DbOK (snd (f c)))) (all_succeed, fst (f c))"
  by (auto simp: db_write_def Let_def length_Suc_conv)

section \<open>What the code does not mean to do\<close>

text \<open>What a request of a user to terminate the pod leaves.\<close>

definition terminated_co :: "string \<Rightarrow> coordinator" where
  "terminated_co s = (sample_co s)\<lparr>
     db_pods := [(sample_pod s)\<lparr>pod_Status := StatusCompleted, pod_FinishedAt := Some 100\<rparr>],
     db_runners := [\<lparr>rn_ID = 7, rn_Status = RunnerStatusOnline, rn_LastHeartbeat = None, rn_CurrentPods = 1\<rparr>],
     sentTerminates := [(100, 7, ''p'')]\<rparr>"

lemma TerminatePod_sample:
  "run_alone (coordinator_TerminatePod ''p'' (\<lambda>_. [])) (all_succeed, sample_co s) = (all_succeed, terminated_co s)"
  by (simp add: coordinator_TerminatePod_def sample_GetByKey) (simp add: pod_operations sample_pods terminated_co_def)

lemma terminated_reached: "co_steps (sample_co s, []) (terminated_co s, [])"
  by (rule run_alone_steps [where as = all_succeed and p = "coordinator_TerminatePod ''p'' (\<lambda>_. [])"])
    (auto intro: co_starts.intros simp: TerminatePod_sample)

text \<open>
  The event of the creation does not look at the status: a pod that a user terminated while it was starting runs again
  when the event of its runner arrives, with the end of the termination, and no longer counts for its runner.
\<close>

theorem late_creation_revives_pod:
  "\<exists>c p. co_steps (sample_co StatusInitializing, []) (c, []) \<and>
     sentTerminates c = [(100, 7, ''p'')] \<and> pod_GetByKey ''p'' c = Some p \<and>
     pod_Status p = StatusRunning \<and> pod_FinishedAt p = Some 100 \<and> map rn_CurrentPods (db_runners c) = [1]"
proof -
  let ?data = "\<lparr>pc_PodKey = ''p'', pc_Pid = 9, pc_SandboxPath = [], pc_BranchName = []\<rparr>"
  let ?p = "(sample_pod StatusInitializing)\<lparr>pod_PtyPID := Some 9, pod_Status := StatusRunning, pod_StartedAt := Some 100,
    pod_LastActivity := Some 100, pod_FinishedAt := Some 100\<rparr>"
  let ?c = "snd (run_alone (handlePodCreated 7 ?data) (all_succeed, terminated_co StatusInitializing))"
  have "pod_GetByKey ''p'' ?c = Some ?p" "map rn_CurrentPods (db_runners ?c) = [1]" "sentTerminates ?c = [(100, 7, ''p'')]"
    by (simp_all add: handlePodCreated_def pod_operations sample_pods terminated_co_def)
  moreover have "co_steps (terminated_co StatusInitializing, []) (?c, [])"
    by (rule run_alone_steps [OF _ refl]) (rule co_starts.intros)
  ultimately show ?thesis using rtranclp_trans [OF terminated_reached]
    by (intro exI [of _ ?c] exI [of _ ?p]) auto
qed

text \<open>
  A pod that a user terminates is counted off twice: by the command, and by the event of its end.
\<close>

theorem termination_counted_twice:
  "\<exists>c. co_steps (sample_co StatusRunning, []) (c, []) \<and> length (db_pods c) = 1 \<and>
     map rn_CurrentPods (db_runners (sample_co StatusRunning)) = [2] \<and> map rn_CurrentPods (db_runners c) = [0]"
proof -
  let ?c = "snd (run_alone (handlePodTerminated 7 \<lparr>pt_PodKey = ''p'', pt_ErrorMessage = []\<rparr>) (all_succeed, terminated_co StatusRunning))"
  have "map rn_CurrentPods (db_runners ?c) = [0]" "length (db_pods ?c) = 1"
    by (simp_all add: handlePodTerminated_def pod_exited_def pod_operations sample_pods terminated_co_def)
  moreover have "co_steps (terminated_co StatusRunning, []) (?c, [])"
    by (rule run_alone_steps [OF _ refl]) (rule co_starts.intros)
  ultimately show ?thesis using rtranclp_trans [OF terminated_reached] by (intro exI [of _ ?c]) (auto simp: sample_co_def)
qed

text \<open>
  A pod that failed, for example because its runner disconnected while it was starting, and that the runner nevertheless
  reports, is neither terminated nor taken up again: it stays as it is whatever the heartbeats say, and a heartbeat
  that reports it sends no command but routes input to it.
\<close>

lemma error_fixed: "v_Status v = StatusError \<Longrightarrow> v_Status (heartbeat_spec b v) = StatusError"
  by (simp add: heartbeat_spec_def report_spec_def miss_spec_def ActiveStatuses_def pod_constants)

theorem failed_pod_runs_on:
  "v_Status (view ''p'' (heartbeats id 7 hs (sample_co StatusError))) = StatusError"
  "sentTerminates (snd (run_alone (handleHeartbeat id 7 (sample_heartbeat [''p''])) (all_succeed, sample_co StatusError))) = []"
  "GetRunnerID ''p'' (snd (run_alone (handleHeartbeat id 7 (sample_heartbeat [''p''])) (all_succeed, sample_co StatusError))) = Some 7"
proof -
  let ?bs = "map (\<lambda>(t, data). ''p'' \<in> fst ` set (hb_Pods data)) hs"
  have "v_Status v = StatusError \<Longrightarrow> v_Status (foldl (\<lambda>v b. heartbeat_spec b v) v bs) = StatusError" for v bs
    by (induction bs arbitrary: v) (simp_all add: error_fixed)
  moreover have "v_Status (view ''p'' (sample_co StatusError)) = StatusError"
    by (simp add: view_def sample_GetByKey) (simp add: sample_pod_def)
  ultimately show "v_Status (view ''p'' (heartbeats id 7 hs (sample_co StatusError))) = StatusError"
    using heartbeats_spec [OF sample_rows _ sample_GetByKey, of id StatusError 7 hs] sample_alone [of StatusError]
    by (simp add: sample_pod_def)
next
  let ?c = "sample_co StatusError"
  obtain c1 where c1: "\<And>k. run_alone (RecordHeartbeat 7 1 RunnerStatusOnline [] k) (all_succeed, ?c) = run_alone k (all_succeed, c1)"
      "db_pods c1 = [sample_pod StatusError]" "sentTerminates c1 = []"
    by (simp add: RecordHeartbeat_def redis_set_status_def Let_def sample_co_def)
  have "pod_Status (sample_pod StatusError) = StatusError" "pod_RunnerID (sample_pod StatusError) = 7" "pod_PodKey (sample_pod StatusError) = ''p''"
    "StatusError \<notin> {StatusCompleted, StatusTerminated, StatusOrphaned, StatusInitializing}" "StatusError \<notin> set ActiveStatuses"
    by (simp_all add: sample_pod_def pod_constants ActiveStatuses_def)
  then have "run_alone (handleHeartbeat id 7 (sample_heartbeat [''p''])) (all_succeed, ?c) =
      run_alone (syncPodCount 7 [''p'']) (all_succeed, EnsurePodRegistered ''p'' 7 c1)"
    by (simp add: handleHeartbeat_def sample_heartbeat_def c1 reconcilePods_def reported_pod_def GetByKeyAndRunner_def
        reconcileMissingPods_def ListActiveByRunner_def Let_def)
  then show "sentTerminates (snd (run_alone (handleHeartbeat id 7 (sample_heartbeat [''p''])) (all_succeed, ?c))) = []"
    "GetRunnerID ''p'' (snd (run_alone (handleHeartbeat id 7 (sample_heartbeat [''p''])) (all_succeed, ?c))) = Some 7"
    by (simp_all add: syncPodCount_def SetPodCount_def update_runners_def EnsurePodRegistered_def c1 GetRunnerID_def AList.update_conv')
qed

text \<open>
  A pod without activity is stale at once: the task that looks for stale pods disconnects a pod that has just been
  created, and the report of its runner that it failed is then dropped: the row does not fail and is not counted off.
\<close>

definition stale_co :: coordinator where
  "stale_co = (sample_co StatusInitializing)\<lparr>db_pods := [sample_pod StatusDisconnected]\<rparr>"

lemma stale_reached: "co_steps (sample_co StatusInitializing, []) (stale_co, [])"
proof -
  have "snd (run_alone cleanupStalePods (all_succeed, sample_co StatusInitializing)) = stale_co"
    by (simp add: cleanupStalePods_def MarkStaleAsDisconnected_def update_pods_def sample_pods stale_co_def)
  then show ?thesis by (rule run_alone_steps [rotated]) (rule co_starts.intros)
qed

theorem stale_pod_loses_its_error:
  "co_steps (sample_co StatusInitializing, []) (stale_co, []) \<and>
   db_pods (snd (run_alone (handlePodError 7 \<lparr>pe_PodKey = ''p'', pe_Code = ''E'', pe_Message = ''m''\<rparr>) (all_succeed, stale_co))) =
     db_pods stale_co \<and>
   map rn_CurrentPods (db_runners (snd (run_alone (handlePodError 7 \<lparr>pe_PodKey = ''p'', pe_Code = ''E'', pe_Message = ''m''\<rparr>)
     (all_succeed, stale_co)))) = [2]"
proof -
  have "StatusDisconnected \<noteq> StatusInitializing" "StatusDisconnected \<noteq> StatusRunning" by (simp_all add: pod_constants)
  then show ?thesis using stale_reached
    by (simp add: handlePodError_def Let_def pod_operations stale_co_def sample_pods)
qed

text \<open>
  The statement that ends idle pods compares the last activity and so passes over a pod that has none: a pod that was
  orphaned before it ran stays so, although the comment says that the statement exists for such pods.
\<close>

theorem orphan_without_activity_stays:
  "fst (CleanupStale now threshold (sample_co StatusOrphaned)) = sample_co StatusOrphaned"
  by (simp add: CleanupStale_def update_pods_def sample_pods)

text \<open>
  The flush writes the number of pods of the last heartbeat over the count of the runner: a pod that was dispatched
  since then is lost from the count until the next heartbeat that reports it.
\<close>

theorem flush_loses_dispatched_pod:
  assumes "c = (sample_co StatusRunning)\<lparr>hbBuffer := [(7, \<lparr>hi_RunnerID = 7, hi_CurrentPods = 2, hi_Status = RunnerStatusOnline,
      hi_Version = [], hi_Timestamp = 90\<rparr>)]\<rparr>"
    and "c' = snd (run_alone (coordinator_CreatePod 7 ''q'' (\<lambda>_. hb_flush id [])) (all_succeed, c))"
  shows "sentCreates c' = [(7, ''q'')] \<and> map rn_CurrentPods (db_runners c) = [2] \<and> map rn_CurrentPods (db_runners c') = [2]"
  by (simp add: assms coordinator_CreatePod_def SendCreatePod_def hb_flush_def update_heartbeat_def DefaultBatchSize_def
      pod_operations sample_pods)

text \<open>
  The events carry no check that the pod belongs to the runner that sends them: any runner ends the pod of another one,
  and is counted off for it.
\<close>

theorem foreign_runner_ends_pod:
  "\<exists>c p. co_steps (sample_co StatusRunning, []) (c, []) \<and>
     pod_GetByKey ''p'' c = Some p \<and> pod_RunnerID p = 7 \<and> pod_Status p = StatusCompleted \<and>
     map rn_CurrentPods (db_runners c) = [2] \<and> sentTerminates c = []"
proof -
  let ?p = "(sample_pod StatusRunning)\<lparr>pod_AgentStatus := AgentStatusIdle, pod_FinishedAt := Some 100, pod_PtyPID := None,
    pod_Status := StatusCompleted\<rparr>"
  let ?c = "snd (run_alone (handlePodTerminated 8 \<lparr>pt_PodKey = ''p'', pt_ErrorMessage = []\<rparr>) (all_succeed, sample_co StatusRunning))"
  have "pod_GetByKey ''p'' ?c = Some ?p" "map rn_CurrentPods (db_runners ?c) = [2]" "sentTerminates ?c = []"
    by (simp_all add: handlePodTerminated_def pod_exited_def pod_operations sample_pods)
  moreover have "co_steps (sample_co StatusRunning, []) (?c, [])" by (rule run_alone_steps [OF _ refl]) (rule co_starts.intros)
  moreover have "pod_RunnerID ?p = 7" by (simp add: sample_pod_def)
  ultimately show ?thesis by (intro exI [of _ ?c] exI [of _ ?p]) simp
qed

text \<open>
  Two reports are not consecutive: the counter of reports of a starting pod is not reset by a heartbeat that misses it.
\<close>

theorem reports_need_not_be_consecutive:
  "v_Status (foldl (\<lambda>v b. heartbeat_spec b v) \<lparr>v_Status = StatusInitializing, v_Misses = 0, v_Reports = 0, v_Routed = False\<rparr>
     [True, False, False, True]) = StatusRunning"
  by (simp add: heartbeat_spec_def report_spec_def miss_spec_def ActiveStatuses_def orphanMissThreshold_def initRecoverThreshold_def pod_constants)

text \<open>
  A pod that failed to be configured keeps its row and goes on starting, although a failed dispatch marks it as failed so
  that it is not stuck.
\<close>

definition sample_orchestrator :: orchestrator_deps where
  "sample_orchestrator = \<lparr>selectRunner = None, checkQuota = (\<lambda>_. True), ticketBySlug = (\<lambda>_ _. None), has_coordinator = True,
     showInt = (\<lambda>_. ''5'')\<rparr>"

definition sample_request :: "string \<Rightarrow> create_request" where
  "sample_request source = \<lparr>cr_OrganizationID = 1, cr_UserID = 5, cr_RunnerID = 7, cr_AgentTypeID = Some 1,
     cr_CustomAgentTypeID = None, cr_RepositoryID = None, cr_TicketID = None, cr_TicketSlug = None, cr_BranchName = None,
     cr_SourcePodKey = source, cr_ResumeAgentSession = None, cr_ConfigOverrides = []\<rparr>"

theorem config_failure_leaves_starting_pod:
  "\<exists>as' c' p. (\<forall>q. run_alone (orchestrator_CreatePod sample_orchestrator (sample_request []) q)
      ((\<lambda>_. Returns [])(3 := Fails []), sample_co StatusRunning) = run_alone (q (Inl ErrConfigBuildFailed)) (as', c')) \<and>
    db_pods c' = [sample_pod StatusRunning, p] \<and> pod_Status p = StatusInitializing"
proof -
  let ?as = "(\<lambda>_. Returns [])(3 := Fails [])" and ?c = "sample_co StatusRunning"
  define req where "req = (sample_request [])\<lparr>cr_ConfigOverrides := [(''session_id'', [])]\<rparr>"
  define p where "p = (new_pod req ''5-standalone-'' [])\<lparr>pod_ID := 2\<rparr>"
  define c' where "c' = ?c\<lparr>db_pods := [sample_pod StatusRunning, p]\<rparr>"
  have "pod_Status p = StatusInitializing" by (simp add: p_def new_pod_def)
  moreover have "run_alone (orchestrator_CreatePod sample_orchestrator (sample_request []) q) (?as, ?c) =
      run_alone (q (Inl ErrConfigBuildFailed)) (\<lambda>n. Returns [], c')" for q
    by (simp add: orchestrator_CreatePod_def sample_request_def normal_mode_def create_in_mode_def sample_orchestrator_def
        resolve_ticket_def service_CreatePod_def pod_key_def new_pod_def Let_def sample_pods pod_Create_def next_pod_ID_def
        pod_indexes_def resumes_def dispatch_def p_def c'_def req_def numeral_3_eq_3 image_iff)
  ultimately show ?thesis by (intro exI [of _ "\<lambda>n. Returns []"] exI [of _ c'] exI [of _ p]) (simp add: c'_def)
qed

text \<open>
  A pod that is orphaned can be resumed, and its runner can report it again: then two active pods share a sandbox, which
  the error \<open>ErrSandboxAlreadyResumed\<close> is meant to exclude.
\<close>

definition resumed_pod :: pod_record where
  "resumed_pod = (new_pod (sample_request ''p'') ''5-standalone-'' ''s'')\<lparr>pod_ID := 2\<rparr>"

definition resumed_co :: coordinator where
  "resumed_co = (sample_co StatusOrphaned)\<lparr>db_pods := [sample_pod StatusOrphaned, resumed_pod],
     db_runners := [\<lparr>rn_ID = 7, rn_Status = RunnerStatusOnline, rn_LastHeartbeat = None, rn_CurrentPods = 3\<rparr>],
     ackPending := [''5-standalone-''], sentCreates := [(7, ''5-standalone-'')]\<rparr>"

lemma resume_sample:
  "run_alone (orchestrator_CreatePod sample_orchestrator (sample_request ''p'') q) (all_succeed, sample_co StatusOrphaned) =
     run_alone (q (Inr resumed_pod)) (all_succeed, resumed_co)"
  by (simp add: orchestrator_CreatePod_def sample_request_def handleResumeMode_def GetActivePodBySourcePodKey_def pod_GetByKey_def
      inherit_def resume_config_def or_inherit_def create_in_mode_def sample_orchestrator_def
      resolve_ticket_def service_CreatePod_def pod_key_def new_pod_def Let_def sample_pods pod_Create_def next_pod_ID_def
      pod_indexes_def resumes_def dispatch_def resumed_pod_def resumed_co_def coordinator_CreatePod_def SendCreatePod_def
      db_write_def IncrementPods_def update_runners_def ack_Register_def)

lemma result_unique:
  fixes x y :: 'x
  assumes "\<And>q. run_alone (q x) st = run_alone (q y :: co_go) st'"
  shows "x = y" "st = st'"
proof -
  show same: "st = st'" using assms [of "\<lambda>_. []"] by simp
  show "x = y"
  proof (rule ccontr)
    assume "x \<noteq> y"
    then have "run_alone (in_memory (\<lambda>c. c\<lparr>co_clock := co_clock c + 1\<rparr>) []) st = st"
      using assms [of "\<lambda>z. if z = y then [] else in_memory (\<lambda>c. c\<lparr>co_clock := co_clock c + 1\<rparr>) []"] same by simp
    moreover obtain as c where "st = (as, c)" by fastforce
    ultimately have "c\<lparr>co_clock := co_clock c + 1\<rparr> = c" by simp
    from arg_cong [OF this, of co_clock] show False by simp
  qed
qed

theorem creation_all_or_nothing_witness:
  "db_pods resumed_co = [sample_pod StatusOrphaned, resumed_pod] \<and> sentCreates resumed_co = [(7, ''5-standalone-'')] \<and>
   pod_SourcePodKey resumed_pod = Some ''p'' \<and> may_resume (sample_request ''p'') (sample_pod StatusOrphaned) (sample_co StatusOrphaned)"
proof -
  let ?req = "sample_request ''p''" and ?c = "sample_co StatusOrphaned"
  have co: "has_coordinator sample_orchestrator" "cr_SourcePodKey ?req = ''p''" by (simp_all add: sample_orchestrator_def sample_request_def)
  have "pod_RunnerID resumed_pod = 7" "pod_PodKey resumed_pod = ''5-standalone-''"
    by (simp_all add: resumed_pod_def new_pod_def sample_request_def)
  then show ?thesis using creation_all_or_nothing [of sample_orchestrator ?req all_succeed ?c]
  proof (elim exE conjE, goal_cases)
    case (1 res as' c')
    have "res = Inr resumed_pod" "(as', c') = (all_succeed, resumed_co)"
      using result_unique [of res "(as', c')" "Inr resumed_pod" "(all_succeed, resumed_co)"] 1(3) resume_sample by simp_all
    then have "db_pods resumed_co = db_pods ?c @ [resumed_pod]" "pod_SourcePodKey resumed_pod = Some ''p''"
      "sentCreates resumed_co = sentCreates ?c @ [(pod_RunnerID resumed_pod, pod_PodKey resumed_pod)]" "\<exists>src. may_resume ?req src ?c"
      using 1(4) co by auto
    then show ?case using 1(1,2) co(2) by (auto simp: may_resume_def sample_GetByKey) (simp_all add: sample_co_def)
  qed
qed

theorem resumed_pod_shares_sandbox:
  "let c = snd (run_alone (handleHeartbeat id 7 (sample_heartbeat [''p''])) (all_succeed, resumed_co))
   in v_Status (view ''p'' c) = StatusRunning \<and> v_Status (view ''5-standalone-'' c) = StatusInitializing \<and>
      pod_SourcePodKey resumed_pod = Some ''p''"
proof -
  obtain as c where run: "run_alone (handleHeartbeat id 7 (sample_heartbeat [''p''])) (all_succeed, resumed_co) = (as, c)" by fastforce
  have distinct: "indexes_ok resumed_co"
    by (simp add: indexes_ok_def pod_indexes_def resumes_def resumed_co_def resumed_pod_def new_pod_def sample_pods)
  have rows: "pod_GetByKey ''p'' resumed_co = Some (sample_pod StatusOrphaned)"
    "pod_GetByKey ''5-standalone-'' resumed_co = Some resumed_pod"
    by (simp_all add: pod_GetByKey_def resumed_co_def resumed_pod_def new_pod_def sample_pods)
  have facts: "pod_RunnerID (sample_pod StatusOrphaned) = 7" "pod_RunnerID resumed_pod = 7" "pod_Status resumed_pod = StatusInitializing"
    "pod_Status (sample_pod StatusOrphaned) = StatusOrphaned" "pod_SourcePodKey resumed_pod = Some ''p''"
    "podMissCount resumed_co = []"
    by (simp_all add: resumed_pod_def new_pod_def sample_pods sample_request_def resumed_co_def)
  have alone: "\<not> shares_source ''p'' resumed_co" "\<not> shares_source ''5-standalone-'' resumed_co"
    by (simp_all add: shares_source_def resumed_co_def resumed_pod_def new_pod_def sample_pods)
  have "view ''p'' c = heartbeat_spec True (view ''p'' resumed_co)"
    "view ''5-standalone-'' c = heartbeat_spec False (view ''5-standalone-'' resumed_co)"
    using heartbeat_view [OF distinct _ run rows(1) facts(1) alone(1)] heartbeat_view [OF distinct _ run rows(2) facts(2) alone(2)]
    by (simp_all add: sample_heartbeat_def)
  moreover have "v_Status (view ''p'' resumed_co) = StatusOrphaned" "v_Status (view ''5-standalone-'' resumed_co) = StatusInitializing"
    "v_Misses (view ''5-standalone-'' resumed_co) = 0"
    using rows facts by (simp_all add: view_def counted_def)
  ultimately show ?thesis using run facts(5)
    by (simp add: heartbeat_spec_def report_spec_def miss_spec_def ActiveStatuses_def orphanMissThreshold_def)
qed

text \<open>
  Two pods that resume the same pod one after the other: the first was orphaned when its runner did not report it, the
  second has been created since. If the runner reports the first again, its recovery violates the unique index: the
  error is passed over, the pod stays orphaned with every heartbeat, though its process runs and input is routed to it.
\<close>

definition second_resume_co :: coordinator where
  "second_resume_co = (sample_co StatusRunning)\<lparr>db_pods :=
     [(sample_pod StatusOrphaned)\<lparr>pod_SourcePodKey := Some ''s''\<rparr>,
      (sample_pod StatusRunning)\<lparr>pod_ID := 2, pod_PodKey := ''q'', pod_SourcePodKey := Some ''s''\<rparr>]\<rparr>"

theorem recovery_blocked_by_index:
  "let c = snd (run_alone (handleHeartbeat id 7 (sample_heartbeat [''p'', ''q''])) (all_succeed, second_resume_co))
   in indexes_ok second_resume_co \<and> db_pods c = db_pods second_resume_co \<and> v_Status (view ''p'' c) = StatusOrphaned \<and>
      v_Routed (view ''p'' c)"
  by (simp add: second_resume_co_def sample_pods handleHeartbeat_def RecordHeartbeat_def reconcilePods_def reported_pod_def
      reconcileMissingPods_def missing_pod_def syncPodCount_def recoverPodStatus_def db_write_def Let_def pod_operations
      indexes_ok_def pod_indexes_def resumes_def ActiveStatuses_def pod_constants view_def IsPodRegistered_def)

end
