(* ===== verification/Spec2Isabelle.thy ===== *)
theory Spec2Isabelle
  imports Relay_Manager VT_Snapshot Smart_Aggregator Autopilot_Controller Pod_Binding
    Loop_Config_Examples Relay_Connect Pod_Examples
begin

text \<open>
  A verification development for AgentsMesh: a runner executes coding agents in pods, each with a terminal; a relay
  carries the terminal to browsers; a backend decides who may connect where, lets pods observe and control one
  another and runs loops, tasks that are started again and again. Paths below are relative to \<^verbatim>\<open>src\<close>. The development
  models Go code; every definition carries the name of the Go function, method or type it translates, or describes
  the part of one.

  \<^bold>\<open>The program and its parts.\<close> A program in a pod writes bytes. In the runner they go to the terminal emulator, which keeps
  the screen for snapshots, and to the aggregator, which collects them into frames and routes each piece to the relay or,
  without a relay, to the backend. The autopilot controller of the runner watches a pod and answers for the user.
  The relay pairs the connection of the runner with those of browsers, one channel for each pod, and admits both by
  tokens. The backend selects the relay for a terminal, hands out the tokens and keeps the directory of relays in memory
  and in Redis. Bindings, loops and pods live in the database of the backend, where requests, events and timers meet; the
  coordinator of pods keeps the rows in step with what the runners report in their events and heartbeats.

  \<^bold>\<open>Shared library.\<close>
  \<^item> \<open>Go_Prelude\<close>: bytes, slices and indices with Go's panics as \<open>None\<close>, integers of machine width, and the locales
    \<open>bounded_store\<close> (a buffer that keeps its limit) and \<open>state_machine\<close> (an invariant of a step relation).
    \<open>Go_UTF8\<close> and \<open>Go_Runes\<close>: the decoder, encoder and conversions of \<open>unicode/utf8\<close> and their round trips.
  \<^item> \<open>Go_Tasks\<close>: goroutines as trees of atomic accesses to a shared state, each of which may depend on an answer of
    the environment (a failure, a time, a random order); a pool of them interleaves freely with steps of the
    environment. The locale \<open>resources\<close> describes what a goroutine owns, \<open>task_pool\<close> extends it by the goroutines that
    may start and by the environment and proves the invariant of every pool. \<open>run_alone\<close> executes one goroutine.

  \<^bold>\<open>Runner, terminal emulator\<close> (\<^verbatim>\<open>runner/internal/terminal/vt\<close>).
  \<^item> \<open>VT_Cell\<close>, \<open>VT_Screen\<close>, \<open>VT_SGR\<close>, \<open>VT_Parser\<close>: \<^verbatim>\<open>cell.go\<close>, \<^verbatim>\<open>virtual_terminal.go\<close>, \<^verbatim>\<open>screen.go\<close>, \<^verbatim>\<open>sgr.go\<close>,
    \<^verbatim>\<open>csi.go\<close>, \<^verbatim>\<open>vt_char.go\<close>, \<^verbatim>\<open>vt_escape.go\<close>. The record \<open>vt\<close> is the struct; a panic is \<open>None\<close>. \<open>VT_Feed\<close> proves
    that no input panics, what printing does, that ASCII input may be cut anywhere, and that the alternative screen
    leaves the main screen alone.
  \<^item> \<open>VT_Style\<close>, \<open>VT_Serialize\<close>, \<open>VT_Redraw\<close>, \<open>VT_Snapshot\<close>: \<^verbatim>\<open>serialize_*.go\<close>, \<^verbatim>\<open>vt_api.go\<close>, \<^verbatim>\<open>vt_snapshot.go\<close>. The
    lemmas relate the serializer in the middle of a row to the terminal that reads its output and end in the round
    trip: a new terminal fed with the snapshot shows the same screen.

  \<^bold>\<open>Runner, output path\<close> (\<^verbatim>\<open>runner/internal/terminal/aggregator\<close>).
  \<^item> \<open>Frame_Detector\<close>, \<open>Frame_Strip\<close>, \<open>Frame_Buffer\<close>: frames in the output, the removal of redundant sequences, which
    refines its specification on framed streams, and the buffer with its limits and flushes.
  \<^item> \<open>Output_Router\<close>, \<open>Smart_Aggregator\<close>: the router with its early buffer, and the aggregator as a step relation of
    writes, timers, pauses and relay changes: nothing waits without a timer, and what was flushed is accounted for piece by
    piece. The runner sets no callback to the backend, so pieces that no connected client accepts are dropped.

  \<^bold>\<open>Runner, autopilot\<close> (\<^verbatim>\<open>runner/internal/autopilot\<close>). \<open>Autopilot_Decision\<close> reads the answers of the control agent,
  \<open>Autopilot_Controller\<close> models phases, iterations, retries and users with every goroutine as a step: the quota
  holds, retries end, and nothing starts after a stop.

  \<^bold>\<open>Relay\<close> (\<^verbatim>\<open>relay/internal\<close>). \<open>Relay_Protocol\<close>: \<^verbatim>\<open>protocol/message.go\<close> and the framing of the pod daemon
  (\<^verbatim>\<open>runner/internal/poddaemon/protocol.go\<close>), with the locale \<open>framing\<close> for streams of frames. \<open>Relay_Channel\<close>:
  \<^verbatim>\<open>channel/terminal_channel.go\<close>, a channel with its publisher, subscribers, buffer and input control. \<open>Relay_Auth\<close>:
  \<^verbatim>\<open>auth/token.go\<close>. \<open>Relay_Manager\<close>: \<^verbatim>\<open>channel/channel_manager.go\<close> and the endpoints of \<^verbatim>\<open>server/handler.go\<close>. The lemmas
  show the invariants under every interleaving, the separation of pods and of the two endpoints, and that the order of
  arrival does not matter. Each operation of a channel is one step; the callback of a closed channel, which removes it
  from the registry, is a step of its own, so a closed channel can still be found for a while.

  \<^bold>\<open>Backend, relays\<close> (\<^verbatim>\<open>backend/internal/service/relay\<close>). \<open>Relay_Selection\<close>: rendezvous hashing on 32-bit words and selection
  by distance. \<open>Relay_Directory\<close>: registration, heartbeats, health checks, the Redis store and loading.
  \<open>Relay_Health\<close> and \<open>Relay_Restart\<close>: the invariant of the directory under every interleaving, what a health check does,
  and what survives a restart. \<open>Relay_Connect\<close>: the handler that connects a terminal
  (\<^verbatim>\<open>backend/internal/api/rest/v1/pod_terminal_connect.go\<close>), composed with the endpoints of the relay.

  \<^bold>\<open>Backend, bindings\<close>. \<open>Pod_Binding\<close>: \<^verbatim>\<open>domain/channel/channel.go\<close>, \<^verbatim>\<open>infra/binding_repo.go\<close> and \<^verbatim>\<open>service/binding\<close>; requests
  read a row, decide and write it back later, so that they interleave. No pod has a scope nobody consented to.

  \<^bold>\<open>Backend, loops\<close>. \<open>Loop_Domain\<close>: \<^verbatim>\<open>domain/loop\<close> and the statuses of pods and autopilots. \<open>Loop_Store\<close>: the statements of
  \<^verbatim>\<open>infra/loop_repo.go\<close> and \<^verbatim>\<open>infra/loop_run_repo.go\<close> as functions on tables. \<open>Loop_Orchestrator\<close>: \<^verbatim>\<open>service/loop\<close> and its
  event subscriptions and handlers as goroutines. \<open>Loop_Service\<close>: \<^verbatim>\<open>loop_service.go\<close> and the requests of
  \<^verbatim>\<open>api/rest/v1/loop_handler.go\<close> that create, edit, enable, disable and delete loops. \<open>Loop_Safety\<close> and \<open>Loop_Properties\<close>: whatever interleaves and whatever
  fails, a run ends at most once, is counted at most once, never loses its outcome, and numbers are not reused.
  Creating a loop stores the defaults of \<^verbatim>\<open>domain/loop/loop.go\<close> for zero values, as GORM does (\<open>gorm_defaults\<close>), and deleting one
  is a transaction of three statements that locks nothing, so that a run can start in between.
  \<open>Loop_Config\<close>: the settings of stored loops keep the checks of the requests and webhooks go to checked addresses.
  \<open>Loop_Slugs\<close>: generated slugs are valid. \<open>Loop_Runs\<close>, \<open>Loop_Examples\<close> and \<open>Loop_Config_Examples\<close>: single operations,
  examples, and the places where code and comments differ.

  \<^bold>\<open>Backend, pods\<close> (\<^verbatim>\<open>backend/internal/service/runner\<close> and \<^verbatim>\<open>service/agentpod\<close>). The record \<open>coordinator\<close> of \<open>Pod_Store\<close>
  holds the tables of pods and runners and the memory that the package shares; its operations are the statements of
  \<^verbatim>\<open>infra/agentpod_repo.go\<close> and \<^verbatim>\<open>infra/runner_repo.go\<close>, the counters of \<^verbatim>\<open>pod_coordinator.go\<close>, \<^verbatim>\<open>pod_ack_tracker.go\<close>,
  \<^verbatim>\<open>terminal_router.go\<close>, \<^verbatim>\<open>relay_connections.go\<close> and the batches of \<^verbatim>\<open>heartbeat_*.go\<close>. \<open>Pod_Coordinator\<close>: the handlers
  \<^verbatim>\<open>pod_*_handler.go\<close> as goroutines. \<open>Pod_Service\<close>: \<^verbatim>\<open>pod_service.go\<close>, \<^verbatim>\<open>pod_lifecycle.go\<close>, \<^verbatim>\<open>pod_update.go\<close> and the creation
  in \<^verbatim>\<open>pod_orchestrator.go\<close>. \<open>Pod_Safety\<close>: the shape of tables and memory under every interleaving. \<open>Pod_Heartbeats\<close>: the
  reconciliation of a heartbeat refines \<open>heartbeat_spec\<close>, a machine for one pod, except where the unique index blocks a
  recovery (\<open>indexes_ok\<close> states the indexes), and so a pod is orphaned after three misses in a row. \<open>Pod_Creation\<close>: a
  request sends one command or none. \<open>Pod_Examples\<close>: examples, and the places where the code does not do what it means to.

  \<^bold>\<open>Interpretations.\<close> \<open>bounded_store\<close> by the frame buffer and the early buffer; \<open>state_machine\<close> by the aggregator (three
  invariants), the channel (two), the channel manager and the autopilot (two); \<open>framing\<close> by the frames of the pod daemon;
  \<open>resources\<close> and \<open>task_pool\<close> by the loops (their runs and their settings), by the directory of relays and by the coordinator of pods.

  \<^bold>\<open>Parameters.\<close> Code outside the repository is an argument of the definitions: the JSON and JWT libraries, the width
  of a character, GORM, the parsers of cron expressions, URLs and addresses, the mapping to lower case, the results of network writes, the order in which a map is visited, rounding of
  floating point numbers, the great-circle distance, clocks. What is assumed of them is a named predicate in the
  hypotheses, and each property with such a hypothesis has a witness with a concrete function.

  \<^bold>\<open>Bounds.\<close> No definition uses fuel: loops are structural or have a measure. Integers are exact where the code cannot
  overflow under a hypothesis that the statements name (numbers in control sequences below \<open>2^31\<close>, durations of runs
  below \<open>2^22\<close> seconds) and words where overflow matters (hashes, identifiers, retry delays, byte lengths).

  \<^bold>\<open>Not modelled.\<close> Processes, pseudo terminals and the file system; network clients, HTTP routing and the self-update;
  the tickers around the periodic checks; the state detector of the runner, which weighs confidences in floating point and
  matches regular expressions; the backend's billing, extensions, repositories, users, organisations and
  tickets, which mainly read and write rows; DNS records and certificates; front ends, which are not written in Go.
  Of the modelled parts the filtered lists of loops, runs and pods, the decoding of requests, the text of webhooks and comments, the building of the command that starts a pod
  (\<^verbatim>\<open>buildPodCommand\<close>, an answer of the environment), and notifications and titles from terminals are left out.
\<close>

end
